(* ===== verification/HB_Prelude.thy ===== *)
theory HB_Prelude
  imports
    Main
    "HOL-Library.Char_ord"
    "HOL-Library.List_Lexorder"
    "HOL-Library.Product_Lexorder"
begin

text \<open>
  Shared vocabulary of the development.

  \<^item> Go strings and byte slices are both byte sequences, so both are \<open>string\<close>.
  \<^item> \<open>time\<close> is a Go \<open>time.Time\<close> in UTC as nanoseconds since the epoch. A timestamp column
    holds its RFC 3339 text with the fraction's trailing zeros cut off, and SQL compares these
    texts byte by byte. \<open>stamp\<close> is the sort key of that text: the date and time down to the
    second have a fixed width (years 0000 to 9999), so they compare as the count of seconds, and
    the rest is the fraction text, ending in \<open>Z\<close>. SQL comparisons go through \<open>stamp\<close>,
    comparisons made in Go are on \<open>time\<close> itself.
  \<^item> \<open>err\<close> lists every error the services return; \<open>err + 'a\<close> is a Go result and \<open>ebind\<close> the
    early return on error. \<open>Internal\<close> stands for an error of the database engine (a violated
    constraint), \<open>Diverges\<close> for a recursive query that never ends.
  \<^item> Tables are lists of rows in insertion order. \<open>cte_union\<close> is a recursive common table
    expression with \<open>UNION\<close>: rows are added until none is new.
  \<^item> Two interfaces are locales: \<open>transactional\<close>, a service whose commands keep an invariant and
    leave the state alone when they fail, and \<open>keyset_pager\<close>, a listing served page by page.
\<close>

section \<open>Basic types\<close>

type_synonym bytes = string
type_synonym id = string
type_synonym time = int

named_theorems op_defs \<open>definitions of operations, for unfolding\<close>
named_theorems table_simps \<open>rewriting of table primitives\<close>

datatype err =
    Validation string
  | Internal string
  | Diverges
  | NodesNotFound | NodesForbidden | NodesRevisionConflict | NodesInvalidParent
  | UploadsNotFound | UploadsForbidden | UploadsInvalidState | UploadsChunkConflict
  | UploadsMissingChunks | UploadsRevisionConflict | UploadsTargetNodeMissing
  | UploadsIDConflict | UploadsTooManyUploads
  | SharingNotFound | SharingForbidden | SharingAlreadyShared | SharingTargetNotFound
  | SharingKeyConflict
  | AuthInvalidCredentials | AuthAccountDisabled | AuthDeviceRevoked | AuthDeviceConflict
  | AuthTokenInvalid | AuthNotFound | AuthRateLimited
  | SyncInvalidCursor
  | FavoritesNotFound
  | ProvisioningNotFound | ProvisioningIdentityConflict
  | RecoveryNotFound | RecoveryIdentityConflict
  | MaintenanceNotInTrash

section \<open>Results\<close>

definition ebind :: "err + 'a \<Rightarrow> ('a \<Rightarrow> err + 'b) \<Rightarrow> err + 'b" where
  "ebind m f = (case m of Inl e \<Rightarrow> Inl e | Inr x \<Rightarrow> f x)"

lemma ebind_simps [simp]:
  "ebind (Inl e) f = Inl e"
  "ebind (Inr x) f = f x"
  by (simp_all add: ebind_def)

lemma ebind_eq_Inr [simp]: "ebind m f = Inr y \<longleftrightarrow> (\<exists>x. m = Inr x \<and> f x = Inr y)"
  by (cases m) auto

lemma ebind_eq_Inl: "ebind m f = Inl e \<longleftrightarrow> m = Inl e \<or> (\<exists>x. m = Inr x \<and> f x = Inl e)"
  by (cases m) auto

section \<open>Timestamps as text\<close>

definition nanos_per_second :: int where
  "nanos_per_second = 1000000000"

definition frac_digits :: "int \<Rightarrow> nat list" where
  "frac_digits ns = map (\<lambda>p. nat (ns div p mod 10))
     [100000000, 10000000, 1000000, 100000, 10000, 1000, 100, 10, 1]"

definition frac_text :: "int \<Rightarrow> nat list" where
  "frac_text ns =
     (let ds = rev (dropWhile (\<lambda>d. d = 0) (rev (frac_digits ns)))
      in (if ds = [] then [] else 46 # map (\<lambda>d. 48 + d) ds) @ [90])"

definition stamp :: "time \<Rightarrow> int \<times> nat list" where
  "stamp t = (t div nanos_per_second, frac_text (t mod nanos_per_second))"

lemma stamp_less_by_seconds:
  "a div nanos_per_second < b div nanos_per_second \<Longrightarrow> stamp a < stamp b"
  by (simp add: stamp_def less_prod_def)

lemma stamp_less_one_second: "a + nanos_per_second \<le> b \<Longrightarrow> stamp a < stamp b"
proof (rule stamp_less_by_seconds)
  assume "a + nanos_per_second \<le> b"
  then have "(a + nanos_per_second) div nanos_per_second \<le> b div nanos_per_second"
    by (rule zdiv_mono1) (simp add: nanos_per_second_def)
  then show "a div nanos_per_second < b div nanos_per_second"
    by (simp add: nanos_per_second_def)
qed

lemma stamp_le_seconds: "stamp a \<le> stamp b \<Longrightarrow> a div nanos_per_second \<le> b div nanos_per_second"
  by (auto simp: stamp_def less_eq_prod_def)

section \<open>Tables\<close>

definition upd :: "('r \<Rightarrow> bool) \<Rightarrow> ('r \<Rightarrow> 'r) \<Rightarrow> 'r list \<Rightarrow> 'r list" where
  "upd p f rows = map (\<lambda>r. if p r then f r else r) rows"

definition del :: "('r \<Rightarrow> bool) \<Rightarrow> 'r list \<Rightarrow> 'r list" where
  "del p rows = filter (\<lambda>r. \<not> p r) rows"

definition count_rows :: "('r \<Rightarrow> bool) \<Rightarrow> 'r list \<Rightarrow> nat" where
  "count_rows p rows = length (filter p rows)"

lemma upd_simps [simp]:
  "upd p f [] = []"
  "upd p f (r # rows) = (if p r then f r else r) # upd p f rows"
  "length (upd p f rows) = length rows"
  by (simp_all add: upd_def)

lemma del_simps [simp]:
  "del p [] = []"
  "del p (r # rows) = (if p r then del p rows else r # del p rows)"
  "set (del p rows) = {r \<in> set rows. \<not> p r}"
  by (auto simp: del_def)

lemma set_upd [table_simps]: "set (upd p f rows) = (\<lambda>r. if p r then f r else r) ` set rows"
  by (simp add: upd_def)

lemma map_upd [table_simps]: "(\<And>r. p r \<Longrightarrow> k (f r) = k r) \<Longrightarrow> map k (upd p f rows) = map k rows"
  by (simp add: upd_def)

lemma image_upd: "(\<And>r. p r \<Longrightarrow> k (f r) = k r) \<Longrightarrow> k ` set (upd p f rows) = k ` set rows"
  using map_upd [of p k f rows] by (metis list.set_map)

lemma distinct_map_del [intro]: "distinct (map k rows) \<Longrightarrow> distinct (map k (del p rows))"
  by (simp add: del_def distinct_map_filter)

lemma find_SomeD: "find P rows = Some r \<Longrightarrow> r \<in> set rows \<and> P r"
  by (auto simp: find_Some_iff)

lemma find_key_set:
  "find (\<lambda>r. k r = x) rows = Some r \<Longrightarrow> r \<in> set rows \<and> k r = x"
  by (auto simp: find_Some_iff)

lemma find_key_None: "find (\<lambda>r. k r = x) rows = None \<longleftrightarrow> x \<notin> k ` set rows"
  by (auto simp: find_None_iff)

lemma find_key_iff:
  "distinct (map k rows) \<Longrightarrow> find (\<lambda>r. k r = x) rows = Some r \<longleftrightarrow> r \<in> set rows \<and> k r = x"
  by (induction rows) (auto simp: image_iff split: if_splits)

lemma find_witness: "x \<in> set xs \<Longrightarrow> P x \<Longrightarrow> \<exists>y. find P xs = Some y \<and> y \<in> set xs \<and> P y"
  by (induction xs) auto

lemma distinct_map_eq:
  "distinct (map k rows) \<Longrightarrow> r \<in> set rows \<Longrightarrow> r' \<in> set rows \<Longrightarrow> k r = k r' \<Longrightarrow> r = r'"
  by (simp add: distinct_map inj_on_def)

lemma find_upd_key:
  "(\<And>r. p r \<Longrightarrow> k (f r) = k r) \<Longrightarrow>
   find (\<lambda>r. k r = x) (upd p f rows) = map_option (\<lambda>r. if p r then f r else r) (find (\<lambda>r. k r = x) rows)"
  by (induction rows) auto

lemma find_append [table_simps]:
  "find p (xs @ ys) = (case find p xs of None \<Rightarrow> find p ys | Some x \<Rightarrow> Some x)"
  by (induction xs) auto

lemma count_rows_simps [simp]:
  "count_rows p [] = 0"
  "count_rows p (r # rows) = (if p r then Suc (count_rows p rows) else count_rows p rows)"
  "count_rows p (xs @ ys) = count_rows p xs + count_rows p ys"
  by (simp_all add: count_rows_def)

lemma count_rows_upd_mono:
  "(\<And>r. r \<in> set rows \<Longrightarrow> p (if q r then f r else r) \<Longrightarrow> p r) \<Longrightarrow> count_rows p (upd q f rows) \<le> count_rows p rows"
  by (induction rows) (auto simp: le_SucI)

lemma count_rows_del_le: "count_rows p (del q rows) \<le> count_rows p rows"
  by (induction rows) (auto simp: le_SucI)

section \<open>Recursive queries with UNION\<close>

fun cte_iter :: "nat \<Rightarrow> ('r \<Rightarrow> 'r \<Rightarrow> bool) \<Rightarrow> 'r list \<Rightarrow> 'r list \<Rightarrow> 'r list" where
  "cte_iter 0 joins tbl acc = acc"
| "cte_iter (Suc k) joins tbl acc =
     cte_iter k joins tbl (acc @ filter (\<lambda>n. n \<notin> set acc \<and> (\<exists>a\<in>set acc. joins a n)) tbl)"

definition cte_union :: "('r \<Rightarrow> 'r \<Rightarrow> bool) \<Rightarrow> 'r list \<Rightarrow> 'r list \<Rightarrow> 'r list" where
  "cte_union joins tbl start = cte_iter (length tbl) joins tbl start"

definition cte_closed :: "('r \<Rightarrow> 'r \<Rightarrow> bool) \<Rightarrow> 'r list \<Rightarrow> 'r set \<Rightarrow> bool" where
  "cte_closed joins tbl A \<longleftrightarrow> (\<forall>a\<in>A. \<forall>n\<in>set tbl. joins a n \<longrightarrow> n \<in> A)"

definition joins_rel :: "('r \<Rightarrow> 'r \<Rightarrow> bool) \<Rightarrow> 'r list \<Rightarrow> ('r \<times> 'r) set" where
  "joins_rel joins tbl = {(a, n). n \<in> set tbl \<and> joins a n}"

lemma cte_iter_mono: "set acc \<subseteq> set (cte_iter k joins tbl acc)"
  by (induction k arbitrary: acc) (auto simp: subset_iff)

lemma cte_iter_closed_stable:
  "cte_closed joins tbl (set acc) \<Longrightarrow> cte_iter k joins tbl acc = acc"
proof (induction k arbitrary: acc)
  case (Suc k)
  then have "filter (\<lambda>n. n \<notin> set acc \<and> (\<exists>a\<in>set acc. joins a n)) tbl = []"
    by (auto simp: cte_closed_def filter_empty_conv)
  with Suc show ?case by simp
qed simp

lemma cte_iter_closed_or_grows:
  "cte_closed joins tbl (set (cte_iter k joins tbl acc)) \<or>
   k + card (set acc) \<le> card (set (cte_iter k joins tbl acc))"
proof (induction k arbitrary: acc)
  case (Suc k)
  show ?case
  proof (cases "cte_closed joins tbl (set acc)")
    case True
    then show ?thesis by (metis cte_iter_closed_stable)
  next
    case False
    let ?acc = "acc @ filter (\<lambda>n. n \<notin> set acc \<and> (\<exists>a\<in>set acc. joins a n)) tbl"
    from False have "set acc \<subset> set ?acc" by (auto simp: cte_closed_def)
    then have "card (set acc) < card (set ?acc)" by (simp add: psubset_card_mono)
    with Suc.IH [of ?acc] show ?thesis by auto
  qed
qed simp

lemma cte_iter_subset: "set acc \<subseteq> set tbl \<Longrightarrow> set (cte_iter k joins tbl acc) \<subseteq> set tbl"
  by (induction k arbitrary: acc) auto

lemma cte_iter_sound:
  "n \<in> set (cte_iter k joins tbl acc) \<Longrightarrow> \<exists>a\<in>set acc. (a, n) \<in> (joins_rel joins tbl)\<^sup>*"
proof (induction k arbitrary: acc)
  case (Suc k)
  let ?acc = "acc @ filter (\<lambda>n. n \<notin> set acc \<and> (\<exists>a\<in>set acc. joins a n)) tbl"
  from Suc.prems obtain b where b: "b \<in> set ?acc" "(b, n) \<in> (joins_rel joins tbl)\<^sup>*"
    using Suc.IH [of ?acc] by auto
  show ?case
  proof (cases "b \<in> set acc")
    case True
    with b show ?thesis by blast
  next
    case False
    with b(1) obtain a where a: "a \<in> set acc" "(a, b) \<in> joins_rel joins tbl"
      by (auto simp: joins_rel_def)
    with b(2) show ?thesis by (meson converse_rtrancl_into_rtrancl)
  qed
qed auto

lemma cte_union_closed:
  assumes "set start \<subseteq> set tbl"
  shows "cte_closed joins tbl (set (cte_union joins tbl start))"
proof (cases "start = []")
  case True
  have empty: "cte_iter k joins tbl [] = []" for k by (induction k) auto
  show ?thesis by (simp add: True cte_union_def empty cte_closed_def)
next
  case False
  have "card (set (cte_iter (length tbl) joins tbl start)) \<le> card (set tbl)"
    by (simp add: assms card_mono cte_iter_subset)
  also have "\<dots> \<le> length tbl" by (rule card_length)
  finally have "card (set (cte_iter (length tbl) joins tbl start)) < length tbl + card (set start)"
    using False by (metis List.finite_set add_less_cancel_left add.right_neutral card_gt_0_iff
        le_less_trans set_empty)
  then show ?thesis
    using cte_iter_closed_or_grows [of joins tbl "length tbl" start] by (auto simp: cte_union_def)
qed

text \<open>The fuel is enough: the query returns exactly the rows reachable from its start rows.\<close>

lemma cte_union_iff:
  assumes "set start \<subseteq> set tbl"
  shows "n \<in> set (cte_union joins tbl start) \<longleftrightarrow> (\<exists>a\<in>set start. (a, n) \<in> (joins_rel joins tbl)\<^sup>*)"
proof
  assume "n \<in> set (cte_union joins tbl start)"
  then show "\<exists>a\<in>set start. (a, n) \<in> (joins_rel joins tbl)\<^sup>*"
    unfolding cte_union_def by (rule cte_iter_sound)
next
  assume "\<exists>a\<in>set start. (a, n) \<in> (joins_rel joins tbl)\<^sup>*"
  then obtain a where a: "a \<in> set start" and path: "(a, n) \<in> (joins_rel joins tbl)\<^sup>*" by blast
  from path show "n \<in> set (cte_union joins tbl start)"
  proof (induction rule: rtrancl_induct)
    case base
    from a show ?case
      using cte_iter_mono [of start "length tbl" joins tbl] by (auto simp: cte_union_def)
  next
    case (step b c)
    then show ?case
      using cte_union_closed [OF assms, of joins] by (auto simp: cte_closed_def joins_rel_def)
  qed
qed

lemma cte_union_subset: "set start \<subseteq> set tbl \<Longrightarrow> set (cte_union joins tbl start) \<subseteq> set tbl"
  by (simp add: cte_union_def cte_iter_subset)

section \<open>Interfaces\<close>

subsection \<open>Services\<close>

fun run_cmds :: "('c \<Rightarrow> 's \<Rightarrow> 's \<times> 'r) \<Rightarrow> 'c list \<Rightarrow> 's \<Rightarrow> 's" where
  "run_cmds exec [] s = s"
| "run_cmds exec (c # cs) s = run_cmds exec cs (fst (exec c s))"

fun run_ok :: "('c \<Rightarrow> 's \<Rightarrow> bool) \<Rightarrow> ('c \<Rightarrow> 's \<Rightarrow> 's \<times> 'r) \<Rightarrow> 'c list \<Rightarrow> 's \<Rightarrow> bool" where
  "run_ok ok exec [] s = True"
| "run_ok ok exec (c # cs) s = (ok c s \<and> run_ok ok exec cs (fst (exec c s)))"

text \<open>A service: its commands keep the invariant wherever their side condition holds.\<close>

locale service =
  fixes exec :: "'c \<Rightarrow> 's \<Rightarrow> 's \<times> (err + 'a)"
    and ok :: "'c \<Rightarrow> 's \<Rightarrow> bool"
    and inv :: "'s \<Rightarrow> bool"
  assumes inv_exec: "inv s \<Longrightarrow> ok c s \<Longrightarrow> inv (fst (exec c s))"
begin

lemma inv_run: "inv s \<Longrightarrow> run_ok ok exec cs s \<Longrightarrow> inv (run_cmds exec cs s)"
  by (induction cs arbitrary: s) (auto intro: inv_exec)

end

text \<open>A transactional service: a command that reports an error has changed nothing.\<close>

locale transactional = service +
  assumes fail_frame: "inv s \<Longrightarrow> snd (exec c s) = Inl e \<Longrightarrow> fst (exec c s) = s"
begin

lemma run_failures:
  "inv s \<Longrightarrow> (\<And>c. c \<in> set cs \<Longrightarrow> \<exists>e. snd (exec c s) = Inl e) \<Longrightarrow> run_cmds exec cs s = s"
proof (induction cs)
  case (Cons c cs)
  from Cons.prems(2) [of c] obtain e where "snd (exec c s) = Inl e" by auto
  with Cons.prems(1) have "fst (exec c s) = s" by (rule fail_frame)
  with Cons show ?case by simp
qed simp

end

subsection \<open>Listings served in pages\<close>

definition after :: "('r \<Rightarrow> 'k::linorder) \<Rightarrow> 'k option \<Rightarrow> 'r list \<Rightarrow> 'r list" where
  "after key c rows = filter (\<lambda>r. case c of None \<Rightarrow> True | Some k \<Rightarrow> k < key r) rows"

fun collect_pages :: "nat \<Rightarrow> ('k option \<Rightarrow> 'r list \<times> 'k option) \<Rightarrow> 'k option \<Rightarrow> 'r list option" where
  "collect_pages 0 fetch c = None"
| "collect_pages (Suc m) fetch c =
     (case fetch c of
        (rows, None) \<Rightarrow> Some rows
      | (rows, Some k) \<Rightarrow> map_option (\<lambda>rest. rows @ rest) (collect_pages m fetch (Some k)))"

lemma after_narrow:
  assumes "\<And>k'. c = Some k' \<Longrightarrow> k' < k"
  shows "after key (Some k) rows = filter (\<lambda>r. k < key r) (after key c rows)"
  using assms by (cases c) (auto simp: after_def intro: filter_cong order.strict_trans)

lemma after_last_take:
  assumes strict: "sorted_wrt (<) (map key rows)" and n: "0 < n" "n < length (after key c rows)"
  shows "after key (Some (key (last (take n (after key c rows))))) rows = drop n (after key c rows)"
proof -
  let ?xs = "after key c rows"
  have xs: "sorted_wrt (<) (map key ?xs)"
    using strict by (simp add: after_def sorted_wrt_map sorted_wrt_filter)
  have last: "last (take n ?xs) = ?xs ! (n - 1)"
    using n by (subst last_conv_nth) auto
  let ?k = "key (?xs ! (n - 1))"
  have "?xs ! (n - 1) \<in> set ?xs" using n by simp
  then have "k < ?k" if "c = Some k" for k
    using that by (simp add: after_def)
  then have "after key (Some ?k) rows = filter (\<lambda>r. ?k < key r) ?xs"
    by (rule after_narrow)
  also have "\<dots> = filter (\<lambda>r. ?k < key r) (take n ?xs) @ filter (\<lambda>r. ?k < key r) (drop n ?xs)"
    by (metis append_take_drop_id filter_append)
  also have "filter (\<lambda>r. ?k < key r) (take n ?xs) = []"
  proof -
    have "key (?xs ! i) \<le> ?k" if "i < n" for i
      using xs n that by (cases "i = n - 1") (auto simp: sorted_wrt_iff_nth_less less_imp_le)
    then show ?thesis using n by (auto simp: filter_empty_conv in_set_conv_nth not_less)
  qed
  also have "filter (\<lambda>r. ?k < key r) (drop n ?xs) = drop n ?xs"
  proof -
    have "?k < key (?xs ! i)" if "n \<le> i" "i < length ?xs" for i
      using xs n that by (auto simp: sorted_wrt_iff_nth_less)
    then show ?thesis using n by (auto simp: filter_id_conv in_set_conv_nth)
  qed
  finally show ?thesis by (simp add: last)
qed

text \<open>
  A client that follows the cursors sees the whole listing once, in order, whatever the
  page size.
\<close>

locale keyset_pager =
  fixes listing :: "'s \<Rightarrow> 'r list"
    and key :: "'r \<Rightarrow> 'k::linorder"
    and fetch :: "'s \<Rightarrow> nat \<Rightarrow> 'k option \<Rightarrow> 'r list \<times> 'k option"
    and pages :: "'s \<Rightarrow> nat \<Rightarrow> bool"
  assumes listing_strict: "pages s n \<Longrightarrow> sorted_wrt (<) (map key (listing s))"
    and page_pos: "pages s n \<Longrightarrow> 0 < n"
    and fetch_rows: "pages s n \<Longrightarrow> fst (fetch s n c) = take n (after key c (listing s))"
    and fetch_next: "pages s n \<Longrightarrow> snd (fetch s n c) =
      (if length (after key c (listing s)) \<le> n then None
       else Some (key (last (take n (after key c (listing s))))))"
begin

lemma collect_from:
  assumes "pages s n" and "length (after key c (listing s)) < m"
  shows "collect_pages m (fetch s n) c = Some (after key c (listing s))"
  using assms(2)
proof (induction m arbitrary: c)
  case (Suc m)
  let ?xs = "after key c (listing s)"
  have fetch: "fetch s n c = (take n ?xs, if length ?xs \<le> n then None else Some (key (last (take n ?xs))))"
    using assms(1) by (simp add: prod_eq_iff fetch_rows fetch_next)
  show ?case
  proof (cases "length ?xs \<le> n")
    case True
    then show ?thesis by (simp add: fetch)
  next
    case False
    let ?k = "key (last (take n ?xs))"
    have rest: "after key (Some ?k) (listing s) = drop n ?xs"
      using False assms(1) by (intro after_last_take) (auto simp: listing_strict page_pos)
    have "collect_pages m (fetch s n) (Some ?k) = Some (drop n ?xs)"
      using Suc.IH [of "Some ?k"] Suc.prems False page_pos [OF assms(1)] by (auto simp: rest)
    with False show ?thesis by (simp add: fetch)
  qed
qed simp

lemma collect_all:
  "pages s n \<Longrightarrow> length (listing s) < m \<Longrightarrow> collect_pages m (fetch s n) None = Some (listing s)"
  using collect_from [of s n None m] by (simp add: after_def)

end

end
