(* ===== verification/HB_Schema.thy ===== *)
theory HB_Schema
  imports HB_Prelude
begin

text \<open>
  The database schema (internal/database/migrations.go): one record per table, a nullable column
  as an option, and \<open>db\<close>, the database, as the tables together. Timestamp columns hold \<open>time\<close>;
  their text order is \<open>HB_Prelude.stamp\<close>. \<open>sync_seq\<close> is the AUTOINCREMENT counter of
  \<open>sync_changes\<close>. Columns no modelled code reads (display names, audit events, the
  compatibility copy of a share's envelope) are left out.

  Third-party packages are parameters: \<open>uuid_pkg\<close> is github.com/google/uuid with the three
  functions the server calls. A value \<open>uuid.NewString()\<close> returns is an argument of the operation
  that calls it.
\<close>

section \<open>Third-party packages\<close>

record uuid_pkg =
  uuid_Parse :: "string \<Rightarrow> bytes option"
  uuid_String :: "bytes \<Rightarrow> string"
  uuid_Validate :: "string \<Rightarrow> bool"

section \<open>Rows\<close>

record user_row =
  u_id :: id
  u_username :: string
  u_username_norm :: string
  u_password_hash :: string
  u_role :: string
  u_status :: string
  u_created_at :: time
  u_updated_at :: time

record device_row =
  d_id :: id
  d_user_id :: id
  d_name :: string
  d_platform :: string
  d_e2ee_public_key :: bytes
  d_e2ee_key_version :: int
  d_created_at :: time
  d_last_seen_at :: time
  d_last_sync_at :: "time option"
  d_revoked_at :: "time option"

record refresh_token_row =
  rt_id :: id
  rt_user_id :: id
  rt_device_id :: id
  rt_token_hash :: bytes
  rt_created_at :: time
  rt_expires_at :: time
  rt_revoked_at :: "time option"
  rt_rotated_to :: "id option"

record access_token_row =
  at_id :: id
  at_user_id :: id
  at_device_id :: id
  at_token_hash :: bytes
  at_created_at :: time
  at_expires_at :: time

record vault_envelope_row =
  ve_id :: id
  ve_vault_id :: id
  ve_target_user_id :: id
  ve_target_device_id :: id
  ve_key_version :: int
  ve_ciphertext :: bytes
  ve_created_at :: time
  ve_revoked_at :: "time option"
  ve_signature_version :: "int option"
  ve_account_identity_public_key :: bytes
  ve_device_key_signature :: bytes

record node_row =
  n_id :: id
  n_owner_id :: id
  n_parent_id :: "id option"
  n_node_type :: string
  n_metadata_ciphertext :: bytes
  n_metadata_key_version :: int
  n_metadata_key_scope_id :: "id option"
  n_current_version_id :: "id option"
  n_revision :: int
  n_created_at :: time
  n_updated_at :: time
  n_deleted_at :: "time option"

record blob_row =
  b_id :: id
  b_ciphertext_size :: int
  b_storage_rel_path :: string
  b_ciphertext_sha256 :: string
  b_chunk_count :: int
  b_created_at :: time

record file_version_row =
  f_id :: id
  f_node_id :: id
  f_blob_id :: id
  f_e2ee_header :: bytes
  f_wrapped_file_key :: bytes
  f_key_scope_id :: id
  f_key_version :: int
  f_created_at :: time
  f_created_by_device_id :: id
  f_revision :: int

record change_row =
  c_revision :: int
  c_user_scope_id :: id
  c_node_id :: id
  c_operation :: string
  c_payload :: bytes
  c_created_at :: time

record operation_row =
  o_operation_id :: id
  o_user_id :: id
  o_device_id :: id
  o_operation_type :: string
  o_result_payload :: bytes
  o_created_at :: time
  o_expires_at :: time

record upload_session_row =
  us_id :: id
  us_user_id :: id
  us_device_id :: id
  us_target_node_id :: id
  us_file_version_id :: id
  us_blob_id :: id
  us_expected_revision :: "int option"
  us_chunk_size :: int
  us_chunk_count :: int
  us_max_ciphertext_size :: int
  us_metadata_ciphertext :: bytes
  us_metadata_key_version :: int
  us_wrapped_file_key :: bytes
  us_e2ee_header :: bytes
  us_status :: string
  us_created_at :: time
  us_expires_at :: time
  us_completed_at :: "time option"

record upload_chunk_row =
  uc_upload_id :: id
  uc_chunk_no :: int
  uc_ciphertext_size :: int
  uc_ciphertext_sha256 :: string
  uc_temp_rel_path :: string
  uc_received_at :: time

record share_row =
  sh_id :: id
  sh_node_id :: id
  sh_owner_user_id :: id
  sh_target_user_id :: id
  sh_permission :: string
  sh_created_at :: time
  sh_revoked_at :: "time option"

record share_envelope_row =
  se_id :: id
  se_share_id :: id
  se_target_device_id :: id
  se_key_version :: int
  se_ciphertext :: bytes
  se_owner_identity_public_key :: bytes
  se_owner_signature :: bytes
  se_created_at :: time
  se_revoked_at :: "time option"

record favorite_row =
  fav_user_id :: id
  fav_node_id :: id
  fav_created_at :: time

record folder_key_row =
  k_folder_id :: id
  k_key_version :: int
  k_owner_user_id :: id
  k_owner_envelope :: bytes
  k_created_at :: time
  k_created_by_device_id :: id

record recovery_row =
  rb_user_id :: id
  rb_bundle :: bytes
  rb_account_identity_public_key :: bytes
  rb_signature :: bytes
  rb_updated_at :: time
  rb_updated_by_device_id :: id

section \<open>The database\<close>

record db =
  users :: "user_row list"
  devices :: "device_row list"
  refresh_tokens :: "refresh_token_row list"
  access_tokens :: "access_token_row list"
  vault_key_envelopes :: "vault_envelope_row list"
  nodes :: "node_row list"
  blobs :: "blob_row list"
  file_versions :: "file_version_row list"
  sync_changes :: "change_row list"
  sync_seq :: int
  processed_operations :: "operation_row list"
  upload_sessions :: "upload_session_row list"
  upload_chunks :: "upload_chunk_row list"
  shares :: "share_row list"
  share_device_envelopes :: "share_envelope_row list"
  favorites :: "favorite_row list"
  folder_keys :: "folder_key_row list"
  recovery_bundles :: "recovery_row list"
  gc_blob_candidates :: "(id \<times> time) list"
  gc_orphan_blob_files :: "(string \<times> time) list"

definition empty_db :: db where
  "empty_db = \<lparr>users = [], devices = [], refresh_tokens = [], access_tokens = [],
     vault_key_envelopes = [], nodes = [], blobs = [], file_versions = [], sync_changes = [],
     sync_seq = 0, processed_operations = [], upload_sessions = [], upload_chunks = [],
     shares = [], share_device_envelopes = [], favorites = [], folder_keys = [],
     recovery_bundles = [], gc_blob_candidates = [], gc_orphan_blob_files = []\<rparr>"

definition node_of :: "db \<Rightarrow> id \<Rightarrow> node_row option" where
  "node_of s i = find (\<lambda>n. n_id n = i) (nodes s)"

section \<open>The node tree\<close>

text \<open>
  \<open>par\<close> is the parent relation of the node table. A table is a \<open>forest\<close> when its IDs are unique,
  every parent is an existing directory of the same owner, and no node is its own ancestor.
\<close>

definition par :: "node_row list \<Rightarrow> (id \<times> id) set" where
  "par ns = {(i, p). \<exists>n\<in>set ns. n_id n = i \<and> n_parent_id n = Some p}"

definition parents_ok :: "node_row list \<Rightarrow> bool" where
  "parents_ok ns \<longleftrightarrow> (\<forall>n\<in>set ns. \<forall>p. n_parent_id n = Some p \<longrightarrow>
     (\<exists>m\<in>set ns. n_id m = p \<and> n_node_type m = ''DIRECTORY'' \<and> n_owner_id m = n_owner_id n))"

definition forest :: "node_row list \<Rightarrow> bool" where
  "forest ns \<longleftrightarrow> distinct (map n_id ns) \<and> parents_ok ns \<and> acyclic (par ns)"

lemma node_of_iff:
  "distinct (map n_id (nodes s)) \<Longrightarrow> node_of s i = Some n \<longleftrightarrow> n \<in> set (nodes s) \<and> n_id n = i"
  unfolding node_of_def by (rule find_key_iff)

lemma node_of_Some: "node_of s i = Some n \<Longrightarrow> n \<in> set (nodes s) \<and> n_id n = i"
  unfolding node_of_def by (rule find_key_set)

lemma node_of_None: "node_of s i = None \<longleftrightarrow> i \<notin> n_id ` set (nodes s)"
  unfolding node_of_def by (rule find_key_None)

lemma finite_par [simp]: "finite (par ns)"
proof -
  have "par ns \<subseteq> (\<lambda>n. (n_id n, the (n_parent_id n))) ` set ns"
    by (force simp: par_def)
  then show ?thesis by (rule finite_subset) simp
qed

lemma forest_wf: "forest ns \<Longrightarrow> wf ((par ns)\<inverse>)"
  by (simp add: forest_def finite_acyclic_wf_converse)

lemma par_functional:
  assumes "distinct (map n_id ns)" "(i, p) \<in> par ns" "(i, q) \<in> par ns"
  shows "p = q"
proof -
  from assms(2,3) obtain n m where "n \<in> set ns" "n_id n = i" "n_parent_id n = Some p"
    and "m \<in> set ns" "n_id m = i" "n_parent_id m = Some q" by (auto simp: par_def)
  with distinct_map_eq [OF assms(1), of n m] show ?thesis by simp
qed

lemma par_upd_same:
  assumes "\<And>n. n \<in> set ns \<Longrightarrow> p n \<Longrightarrow> n_id (f n) = n_id n \<and> n_parent_id (f n) = n_parent_id n"
  shows "par (upd p f ns) = par ns"
proof -
  let ?g = "\<lambda>n. if p n then f n else n"
  have same: "n_id (?g n) = n_id n" "n_parent_id (?g n) = n_parent_id n" if "n \<in> set ns" for n
    using assms that by auto
  have "par (upd p f ns) = {(i, q). \<exists>n\<in>set ns. n_id (?g n) = i \<and> n_parent_id (?g n) = Some q}"
    by (auto simp: par_def set_upd)
  also have "\<dots> = par ns"
    unfolding par_def by (rule Collect_cong) (simp add: same split: prod.split cong: bex_cong)
  finally show ?thesis .
qed

lemma forest_upd_same:
  assumes "forest ns"
    and keep: "\<And>n. n \<in> set ns \<Longrightarrow> p n \<Longrightarrow> n_id (f n) = n_id n \<and> n_parent_id (f n) = n_parent_id n
      \<and> n_node_type (f n) = n_node_type n \<and> n_owner_id (f n) = n_owner_id n"
  shows "forest (upd p f ns)"
proof -
  have ids: "map n_id (upd p f ns) = map n_id ns"
    using keep by (auto simp: upd_def)
  have "par (upd p f ns) = par ns" using keep by (intro par_upd_same) auto
  moreover have "parents_ok (upd p f ns)"
    unfolding parents_ok_def
  proof (intro ballI allI impI)
    fix n' q assume n': "n' \<in> set (upd p f ns)" "n_parent_id n' = Some q"
    then obtain n where n: "n \<in> set ns" "n' = (if p n then f n else n)" by (auto simp: set_upd)
    with n' keep have "n_parent_id n = Some q" by (auto split: if_splits)
    with n assms(1) obtain m where m: "m \<in> set ns" "n_id m = q" "n_node_type m = ''DIRECTORY''"
      "n_owner_id m = n_owner_id n" by (auto simp: forest_def parents_ok_def)
    let ?m = "if p m then f m else m"
    from m(1) have "?m \<in> set (upd p f ns)" by (simp add: set_upd)
    moreover have "n_id ?m = q" "n_node_type ?m = ''DIRECTORY''" "n_owner_id ?m = n_owner_id n'"
      using m n keep by auto
    ultimately show "\<exists>m\<in>set (upd p f ns). n_id m = q \<and> n_node_type m = ''DIRECTORY'' \<and> n_owner_id m = n_owner_id n'"
      by blast
  qed
  ultimately show ?thesis using assms(1) ids by (simp add: forest_def)
qed

lemma forest_same_owner:
  assumes "forest ns" and path: "(i, j) \<in> (par ns)\<^sup>*"
    and "n \<in> set ns" "n_id n = i" and "m \<in> set ns" "n_id m = j"
  shows "n_owner_id m = n_owner_id n"
  using path assms(5,6)
proof (induction arbitrary: m rule: rtrancl_induct)
  case base
  with assms show ?case by (metis distinct_map_eq forest_def)
next
  case (step b c)
  from step.hyps(2) obtain l where l: "l \<in> set ns" "n_id l = b" "n_parent_id l = Some c"
    by (auto simp: par_def)
  then obtain m' where "m' \<in> set ns" "n_id m' = c" "n_owner_id m' = n_owner_id l"
    using assms(1) by (auto simp: forest_def parents_ok_def)
  moreover from this step.prems assms(1) have "m' = m"
    by (metis distinct_map_eq forest_def)
  ultimately show ?case using step.IH [OF l(1,2)] by simp
qed

lemma par_add_leaf: "par (ns @ [m]) = par ns \<union> {(n_id m, p) | p. n_parent_id m = Some p}"
  by (auto simp: par_def)

lemma par_range: "parents_ok ns \<Longrightarrow> (i, p) \<in> par ns \<Longrightarrow> p \<in> n_id ` set ns"
  by (force simp: par_def parents_ok_def)

lemma par_domain: "(i, p) \<in> par ns \<Longrightarrow> i \<in> n_id ` set ns"
  by (force simp: par_def)

lemma par_rtrancl_range:
  "(i, j) \<in> (par ns)\<^sup>* \<Longrightarrow> parents_ok ns \<Longrightarrow> i \<in> n_id ` set ns \<Longrightarrow> j \<in> n_id ` set ns"
  by (induction rule: rtrancl_induct) (auto dest: par_range)

text \<open>Adding a leaf with a fresh ID under an existing directory of its owner keeps a forest.\<close>

lemma forest_add_leaf:
  assumes forest: "forest ns" and fresh: "n_id m \<notin> n_id ` set ns"
    and parent: "\<And>p. n_parent_id m = Some p \<Longrightarrow>
      \<exists>d\<in>set ns. n_id d = p \<and> n_node_type d = ''DIRECTORY'' \<and> n_owner_id d = n_owner_id m"
  shows "forest (ns @ [m])"
proof -
  have ok: "parents_ok ns" "acyclic (par ns)" using forest by (auto simp: forest_def)
  have "acyclic (par (ns @ [m]))"
  proof (cases "n_parent_id m")
    case None
    with ok show ?thesis by (simp add: par_add_leaf)
  next
    case (Some p)
    then have "par (ns @ [m]) = insert (n_id m, p) (par ns)" by (auto simp: par_add_leaf)
    moreover have "(p, n_id m) \<notin> (par ns)\<^sup>*"
    proof
      assume "(p, n_id m) \<in> (par ns)\<^sup>*"
      moreover from parent [OF Some] have "p \<in> n_id ` set ns" by auto
      ultimately have "n_id m \<in> n_id ` set ns" by (rule par_rtrancl_range [OF _ ok(1)])
      with fresh show False ..
    qed
    ultimately show ?thesis using ok by (simp add: acyclic_insert)
  qed
  moreover have "parents_ok (ns @ [m])"
    unfolding parents_ok_def
  proof (intro ballI allI impI)
    fix n p assume "n \<in> set (ns @ [m])" "n_parent_id n = Some p"
    with ok(1) parent have "\<exists>d\<in>set ns. n_id d = p \<and> n_node_type d = ''DIRECTORY'' \<and> n_owner_id d = n_owner_id n"
      by (auto simp: parents_ok_def)
    then show "\<exists>d\<in>set (ns @ [m]). n_id d = p \<and> n_node_type d = ''DIRECTORY'' \<and> n_owner_id d = n_owner_id n"
      by auto
  qed
  ultimately show ?thesis using forest fresh by (simp add: forest_def)
qed

text \<open>Giving one row a new parent: the relation changes at that row only, and the table stays a
  forest when the new parent is a directory of the same owner outside the row's subtree.\<close>

lemma par_move:
  assumes "\<And>n. n_id n = i \<Longrightarrow> n_id (f n) = i \<and> n_parent_id (f n) = q"
  shows "par (upd (\<lambda>n. n_id n = i) f ns) \<subseteq> {(a, b) \<in> par ns. a \<noteq> i} \<union> {(i, p) | p. q = Some p}"
  using assms by (auto simp: par_def set_upd split: if_splits)

lemma forest_move:
  assumes forest: "forest ns"
    and f: "\<And>n. n_id n = i \<Longrightarrow> n_id (f n) = i \<and> n_parent_id (f n) = q \<and>
      n_node_type (f n) = n_node_type n \<and> n_owner_id (f n) = n_owner_id n"
    and q: "\<And>p. q = Some p \<Longrightarrow> (p, i) \<notin> (par ns)\<^sup>* \<and> (\<forall>n\<in>set ns. n_id n = i \<longrightarrow>
      (\<exists>d\<in>set ns. n_id d = p \<and> n_node_type d = ''DIRECTORY'' \<and> n_owner_id d = n_owner_id n))"
  shows "forest (upd (\<lambda>n. n_id n = i) f ns)"
proof -
  let ?g = "\<lambda>n. if n_id n = i then f n else n"
  have ids: "map n_id (upd (\<lambda>n. n_id n = i) f ns) = map n_id ns" using f by (auto simp: upd_def)
  have "acyclic {(a, b) \<in> par ns. a \<noteq> i}"
    using forest by (auto simp: forest_def intro: acyclic_subset)
  then have "acyclic ({(a, b) \<in> par ns. a \<noteq> i} \<union> {(i, p) | p. q = Some p})"
  proof (cases q)
    case (Some p)
    have "(p, i) \<notin> {(a, b) \<in> par ns. a \<noteq> i}\<^sup>*"
    proof
      assume "(p, i) \<in> {(a, b) \<in> par ns. a \<noteq> i}\<^sup>*"
      then have "(p, i) \<in> (par ns)\<^sup>*" by (rule rev_subsetD) (rule rtrancl_mono, auto)
      with q [OF Some] show False by blast
    qed
    with \<open>acyclic {(a, b) \<in> par ns. a \<noteq> i}\<close> Some show ?thesis by (simp add: acyclic_insert)
  qed simp
  moreover have "par (upd (\<lambda>n. n_id n = i) f ns) \<subseteq> {(a, b) \<in> par ns. a \<noteq> i} \<union> {(i, p) | p. q = Some p}"
    using f by (intro par_move) auto
  ultimately have acyc: "acyclic (par (upd (\<lambda>n. n_id n = i) f ns))" by (rule acyclic_subset)
  have "parents_ok (upd (\<lambda>n. n_id n = i) f ns)"
    unfolding parents_ok_def
  proof (intro ballI allI impI)
    fix n' p assume n': "n' \<in> set (upd (\<lambda>n. n_id n = i) f ns)" "n_parent_id n' = Some p"
    then obtain n where n: "n \<in> set ns" "n' = ?g n" by (auto simp: set_upd)
    have "\<exists>d\<in>set ns. n_id d = p \<and> n_node_type d = ''DIRECTORY'' \<and> n_owner_id d = n_owner_id n"
    proof (cases "n_id n = i")
      case True
      with n n' f have "q = Some p" by auto
      from q [OF this] True n(1) show ?thesis by blast
    next
      case False
      with n n' have "n_parent_id n = Some p" by simp
      with n(1) forest show ?thesis by (auto simp: forest_def parents_ok_def)
    qed
    then obtain d where d: "d \<in> set ns" "n_id d = p" "n_node_type d = ''DIRECTORY''"
      "n_owner_id d = n_owner_id n" by blast
    have "?g d \<in> set (upd (\<lambda>n. n_id n = i) f ns)" using d(1) by (simp add: set_upd)
    moreover have "n_id (?g d) = p" "n_node_type (?g d) = ''DIRECTORY''" "n_owner_id (?g d) = n_owner_id n'"
      using d f n(2) by auto
    ultimately show "\<exists>d\<in>set (upd (\<lambda>n. n_id n = i) f ns).
        n_id d = p \<and> n_node_type d = ''DIRECTORY'' \<and> n_owner_id d = n_owner_id n'" by blast
  qed
  with acyc forest ids show ?thesis by (simp add: forest_def)
qed

end
