(* ===== verification/HB_Access.thy ===== *)
theory HB_Access
  imports HB_Schema
begin

text \<open>
  Authorization and key-scope rules (internal/access/access.go). \<open>ancestors\<close> is the recursive
  query with \<open>UNION ALL\<close> the Go code embeds in \<open>ShareGrant\<close> and \<open>NearestKeyedFolder\<close>: the chain of
  rows from a node up to its root. Without \<open>UNION\<close> the query never ends on a cycle of parents;
  the model then returns \<open>None\<close>, which the callers turn into \<open>Diverges\<close>. The fuel is the size of
  the node table: a chain that visits more rows repeats one. In a forest the chain always ends
  (\<open>ancestors_forest\<close>), and \<open>subtree\<close> is the set of nodes below a node (\<open>subtree_iff\<close>).

  The rules other packages rely on are the locale \<open>grants\<close>, interpreted here on \<open>ShareGrant\<close>.
\<close>

section \<open>Walking the tree\<close>

fun ancestors_from :: "nat \<Rightarrow> node_row list \<Rightarrow> id \<Rightarrow> node_row list option" where
  "ancestors_from 0 ns i = (case find (\<lambda>n. n_id n = i) ns of None \<Rightarrow> Some [] | Some _ \<Rightarrow> None)"
| "ancestors_from (Suc k) ns i =
     (case find (\<lambda>n. n_id n = i) ns of
        None \<Rightarrow> Some []
      | Some n \<Rightarrow> (case n_parent_id n of
          None \<Rightarrow> Some [n]
        | Some p \<Rightarrow> map_option ((#) n) (ancestors_from k ns p)))"

definition ancestors :: "node_row list \<Rightarrow> id \<Rightarrow> node_row list option" where
  "ancestors ns i = ancestors_from (length ns) ns i"

definition subtree :: "node_row list \<Rightarrow> id \<Rightarrow> node_row list" where
  "subtree ns i = cte_union (\<lambda>s n. n_parent_id n = Some (n_id s)) ns (filter (\<lambda>n. n_id n = i) ns)"

section \<open>Shares\<close>

definition PermissionRead :: string where
  "PermissionRead = ''READ''"

definition PermissionReadWrite :: string where
  "PermissionReadWrite = ''READ_WRITE''"

record Grant =
  RootID :: id
  Permission :: string

definition CanWrite :: "Grant \<Rightarrow> bool" where
  "CanWrite g \<longleftrightarrow> Permission g = PermissionReadWrite"

definition active_share :: "share_row \<Rightarrow> id \<Rightarrow> id \<Rightarrow> bool" where
  "active_share sh user node \<longleftrightarrow>
     sh_node_id sh = node \<and> sh_target_user_id sh = user \<and> sh_revoked_at sh = None"

text \<open>The rows from the node up to the nearest share root, and that share.\<close>

fun nearest_share :: "share_row list \<Rightarrow> id \<Rightarrow> node_row list \<Rightarrow> (node_row list \<times> share_row) option" where
  "nearest_share shs user [] = None"
| "nearest_share shs user (a # as) =
     (case find (\<lambda>sh. active_share sh user (n_id a)) shs of
        Some sh \<Rightarrow> Some ([a], sh)
      | None \<Rightarrow> map_option (\<lambda>(path, sh). (a # path, sh)) (nearest_share shs user as))"

definition ShareGrant :: "db \<Rightarrow> id \<Rightarrow> id \<Rightarrow> err + Grant option" where
  "ShareGrant s user node =
     (case ancestors (nodes s) node of
        None \<Rightarrow> Inl Diverges
      | Some as \<Rightarrow> Inr (case nearest_share (shares s) user as of
          None \<Rightarrow> None
        | Some (path, sh) \<Rightarrow>
            if (\<exists>a\<in>set path. n_deleted_at a \<noteq> None) then None
            else Some \<lparr>RootID = n_id (last path), Permission = sh_permission sh\<rparr>))"

section \<open>Folder keys\<close>

definition keyed :: "db \<Rightarrow> id \<Rightarrow> bool" where
  "keyed s i \<longleftrightarrow> (\<exists>k\<in>set (folder_keys s). k_folder_id k = i)"

text \<open>The empty string stands for the owner's personal vault, as in the code.\<close>

definition NearestKeyedFolder :: "db \<Rightarrow> id \<Rightarrow> err + id" where
  "NearestKeyedFolder s node =
     (case ancestors (nodes s) node of
        None \<Rightarrow> Inl Diverges
      | Some as \<Rightarrow> Inr (case find (\<lambda>a. keyed s (n_id a)) as of None \<Rightarrow> [] | Some a \<Rightarrow> n_id a))"

definition SubtreeHasKeyedFolder :: "db \<Rightarrow> id \<Rightarrow> bool" where
  "SubtreeHasKeyedFolder s node \<longleftrightarrow> (\<exists>n\<in>set (subtree (nodes s) node). keyed s (n_id n))"

definition ErrNestedSharedFolder :: err where
  "ErrNestedSharedFolder =
     Validation ''a shared folder cannot contain or be placed inside another shared folder''"

definition ErrStaleFolderKey :: err where
  "ErrStaleFolderKey =
     Validation ''this shared folder has a newer key that this device has not received yet; ask the folder's owner to open HomeBox, then try again''"

definition ValidUUID :: "uuid_pkg \<Rightarrow> string \<Rightarrow> bool" where
  "ValidUUID U v = (case uuid_Parse U v of None \<Rightarrow> False | Some u \<Rightarrow> uuid_String U u = v)"

text \<open>\<open>COALESCE((SELECT MAX(key_version) ...), 0)\<close>; key versions are at least 1.\<close>

definition max_version :: "folder_key_row list \<Rightarrow> int" where
  "max_version ks = (case map k_key_version ks of [] \<Rightarrow> 0 | v # vs \<Rightarrow> fold max vs v)"

definition ValidateKeyScope ::
  "uuid_pkg \<Rightarrow> db \<Rightarrow> id \<Rightarrow> id \<Rightarrow> id \<Rightarrow> id \<Rightarrow> int \<Rightarrow> err + unit" where
  "ValidateKeyScope U s ownerID actorID writeRootID scopeID keyVersion =
     (if keyVersion < 1 then Inl (Validation ''a key version is required'')
      else if scopeID = ownerID then
        (if actorID \<noteq> ownerID
         then Inl (Validation ''shared content must be encrypted with the shared folder's key'')
         else Inr ())
      else if \<not> ValidUUID U scopeID
      then Inl (Validation ''key scope must be the owner's account or one of its shared folders'')
      else if actorID \<noteq> ownerID \<and> scopeID \<noteq> writeRootID
      then Inl (Validation ''shared content must be encrypted with the shared folder's key'')
      else if \<not> (\<exists>k\<in>set (folder_keys s). k_folder_id k = scopeID \<and> k_key_version k = keyVersion
                  \<and> k_owner_user_id k = ownerID)
      then Inl (Validation ''the declared folder key does not exist'')
      else if actorID \<noteq> ownerID \<and> keyVersion \<noteq>
          max_version (filter (\<lambda>k. k_folder_id k = scopeID \<and> k_owner_user_id k = ownerID) (folder_keys s))
      then Inl ErrStaleFolderKey
      else Inr ())"

definition StoredScope :: "id \<Rightarrow> id \<Rightarrow> id option" where
  "StoredScope scopeID ownerID = (if scopeID = [] \<or> scopeID = ownerID then None else Some scopeID)"

section \<open>The chain of ancestors\<close>

text \<open>\<open>chain\<close> is the graph of the query without fuel.\<close>

inductive chain :: "node_row list \<Rightarrow> id \<Rightarrow> node_row list \<Rightarrow> bool" for ns where
  missing: "find (\<lambda>n. n_id n = i) ns = None \<Longrightarrow> chain ns i []"
| root: "find (\<lambda>n. n_id n = i) ns = Some n \<Longrightarrow> n_parent_id n = None \<Longrightarrow> chain ns i [n]"
| up: "find (\<lambda>n. n_id n = i) ns = Some n \<Longrightarrow> n_parent_id n = Some p \<Longrightarrow> chain ns p xs \<Longrightarrow>
    chain ns i (n # xs)"

lemma ancestors_from_chain: "ancestors_from k ns i = Some xs \<Longrightarrow> chain ns i xs \<and> length xs \<le> k"
  by (induction k arbitrary: i xs) (auto split: option.splits intro: chain.intros)

lemma chain_ancestors_from: "chain ns i xs \<Longrightarrow> length xs \<le> k \<Longrightarrow> ancestors_from k ns i = Some xs"
proof (induction arbitrary: k rule: chain.induct)
  case (missing i)
  then show ?case by (cases k) auto
next
  case (root i n)
  then show ?case by (cases k) auto
next
  case (up i n p xs)
  then show ?case by (cases k) auto
qed

lemma chain_unique: "chain ns i xs \<Longrightarrow> chain ns i ys \<Longrightarrow> xs = ys"
  by (metis ancestors_from_chain chain_ancestors_from nle_le option.inject)

lemma chain_members: "chain ns i xs \<Longrightarrow> set xs \<subseteq> set ns"
  by (induction rule: chain.induct) (auto dest: find_key_set)

lemma chain_paths: "chain ns i xs \<Longrightarrow> n \<in> set xs \<Longrightarrow> (i, n_id n) \<in> (par ns)\<^sup>*"
proof (induction rule: chain.induct)
  case (root i m)
  then show ?case by (auto dest: find_key_set)
next
  case (up i m p xs)
  then have "(i, p) \<in> par ns" by (auto simp: par_def dest!: find_key_set)
  with up show ?case by (auto dest: find_key_set intro: converse_rtrancl_into_rtrancl)
qed simp

lemma chain_covers:
  assumes "(i, j) \<in> (par ns)\<^sup>*" "distinct (map n_id ns)" "n \<in> set ns" "n_id n = j" "chain ns i xs"
  shows "n \<in> set xs"
  using assms(1,5)
proof (induction arbitrary: xs rule: converse_rtrancl_induct)
  case base
  from assms(2,3,4) have "find (\<lambda>m. n_id m = j) ns = Some n" by (simp add: find_key_iff)
  with base show ?case by (cases rule: chain.cases) auto
next
  case (step y z)
  from step.hyps(1) obtain m where "m \<in> set ns" "n_id m = y" "n_parent_id m = Some z"
    by (auto simp: par_def)
  then have "find (\<lambda>m. n_id m = y) ns = Some m" "n_parent_id m = Some z"
    using assms(2) by (simp_all add: find_key_iff)
  with step.prems obtain ys where "xs = m # ys" "chain ns z ys"
    by (cases rule: chain.cases) auto
  with step.IH show ?case by auto
qed

lemma chain_exists:
  assumes "forest ns"
  shows "\<exists>xs. chain ns i xs"
  using forest_wf [OF assms]
proof (induction i rule: wf_induct_rule)
  case (less i)
  show ?case
  proof (cases "find (\<lambda>n. n_id n = i) ns")
    case None
    then show ?thesis by (auto intro: chain.missing)
  next
    case (Some n)
    show ?thesis
    proof (cases "n_parent_id n")
      case None
      with Some show ?thesis by (auto intro: chain.root)
    next
      case parent: (Some p)
      with Some have "(i, p) \<in> par ns" by (auto simp: par_def dest: find_key_set)
      with less obtain xs where "chain ns p xs" by auto
      with Some parent show ?thesis by (auto intro: chain.up)
    qed
  qed
qed

lemma chain_distinct: "chain ns i xs \<Longrightarrow> acyclic (par ns) \<Longrightarrow> distinct xs"
proof (induction rule: chain.induct)
  case (up i n p xs)
  have "n \<notin> set xs"
  proof
    assume "n \<in> set xs"
    with up have "(p, n_id n) \<in> (par ns)\<^sup>*" by (auto dest: chain_paths)
    moreover from up have "(n_id n, p) \<in> par ns" by (auto simp: par_def dest: find_key_set)
    ultimately have "(n_id n, n_id n) \<in> (par ns)\<^sup>+" by (rule rtrancl_into_trancl2 [rotated])
    with up.prems show False by (simp add: acyclic_def)
  qed
  with up show ?case by simp
qed auto

lemma chain_ancestors:
  assumes "chain ns i xs" "acyclic (par ns)"
  shows "ancestors ns i = Some xs"
proof -
  have "length xs = card (set xs)" using chain_distinct [OF assms] by (simp add: distinct_card)
  also have "\<dots> \<le> card (set ns)" using chain_members [OF assms(1)] by (simp add: card_mono)
  also have "\<dots> \<le> length ns" by (rule card_length)
  finally show ?thesis unfolding ancestors_def by (rule chain_ancestors_from [OF assms(1)])
qed

lemma ancestors_chain: "ancestors ns i = Some xs \<Longrightarrow> chain ns i xs"
  unfolding ancestors_def by (blast dest: ancestors_from_chain)

lemma ancestors_forest:
  assumes "forest ns"
  obtains xs where "ancestors ns i = Some xs" "chain ns i xs"
    and "set xs = {n \<in> set ns. (i, n_id n) \<in> (par ns)\<^sup>*}"
proof -
  from chain_exists [OF assms] obtain xs where xs: "chain ns i xs" by blast
  moreover from xs assms have "ancestors ns i = Some xs"
    by (auto simp: forest_def intro: chain_ancestors)
  moreover have "set xs = {n \<in> set ns. (i, n_id n) \<in> (par ns)\<^sup>*}"
    using xs assms chain_members [OF xs] chain_paths [OF xs] chain_covers [of i _ ns _ xs]
    by (auto simp: forest_def)
  ultimately show ?thesis using that by blast
qed

section \<open>The subtree\<close>

lemma joins_par:
  assumes "(a, n) \<in> (joins_rel (\<lambda>s n. n_parent_id n = Some (n_id s)) ns)\<^sup>*"
  shows "(n_id n, n_id a) \<in> (par ns)\<^sup>*"
  using assms
proof (induction rule: rtrancl_induct)
  case (step b c)
  then have "(n_id c, n_id b) \<in> par ns" by (auto simp: joins_rel_def par_def)
  with step.IH show ?case by (rule converse_rtrancl_into_rtrancl [rotated])
qed simp

lemma par_joins:
  assumes "(j, i) \<in> (par ns)\<^sup>*" "distinct (map n_id ns)"
    and "a \<in> set ns" "n_id a = i" "n \<in> set ns" "n_id n = j"
  shows "(a, n) \<in> (joins_rel (\<lambda>s n. n_parent_id n = Some (n_id s)) ns)\<^sup>*"
  using assms(1,5,6)
proof (induction arbitrary: n rule: converse_rtrancl_induct)
  case base
  with assms have "n = a" by (metis distinct_map_eq)
  then show ?case by simp
next
  case (step y z)
  show ?case
  proof (cases "\<exists>m\<in>set ns. n_id m = z")
    case True
    then obtain m where m: "m \<in> set ns" "n_id m = z" by blast
    from step.hyps(1) obtain n' where "n' \<in> set ns" "n_id n' = y" "n_parent_id n' = Some z"
      by (auto simp: par_def)
    with step.prems assms(2) have "n_parent_id n = Some z" by (metis distinct_map_eq)
    with m step.prems have "(m, n) \<in> joins_rel (\<lambda>s n. n_parent_id n = Some (n_id s)) ns"
      by (simp add: joins_rel_def)
    with step.IH [OF m] show ?thesis by (rule rtrancl_into_rtrancl)
  next
    case False
    have "(z, i) \<notin> (par ns)\<^sup>+" using False by (auto dest!: tranclD simp: par_def)
    moreover have "z \<noteq> i" using False assms(3,4) by blast
    ultimately show ?thesis using step.hyps(2) by (auto simp: rtrancl_eq_or_trancl)
  qed
qed

lemma subtree_iff:
  assumes "distinct (map n_id ns)" "a \<in> set ns" "n_id a = i"
  shows "n \<in> set (subtree ns i) \<longleftrightarrow> n \<in> set ns \<and> (n_id n, i) \<in> (par ns)\<^sup>*"
proof -
  let ?R = "joins_rel (\<lambda>s n. n_parent_id n = Some (n_id s)) ns"
  have "n \<in> set (subtree ns i) \<longleftrightarrow> (\<exists>b\<in>set (filter (\<lambda>n. n_id n = i) ns). (b, n) \<in> ?R\<^sup>*)"
    unfolding subtree_def by (rule cte_union_iff) auto
  also have "\<dots> \<longleftrightarrow> (a, n) \<in> ?R\<^sup>*" using assms by (auto dest: distinct_map_eq)
  also have "\<dots> \<longleftrightarrow> n \<in> set ns \<and> (n_id n, i) \<in> (par ns)\<^sup>*"
  proof
    assume path: "(a, n) \<in> ?R\<^sup>*"
    then have "n \<in> set ns" using assms(2) by (cases rule: rtrancl.cases) (auto simp: joins_rel_def)
    with joins_par [OF path] assms(3) show "n \<in> set ns \<and> (n_id n, i) \<in> (par ns)\<^sup>*" by simp
  next
    assume "n \<in> set ns \<and> (n_id n, i) \<in> (par ns)\<^sup>*"
    with par_joins [OF _ assms(1,2,3)] show "(a, n) \<in> ?R\<^sup>*" by blast
  qed
  finally show ?thesis .
qed

lemma subtree_missing: "i \<notin> n_id ` set ns \<Longrightarrow> subtree ns i = []"
proof -
  assume "i \<notin> n_id ` set ns"
  then have "filter (\<lambda>n. n_id n = i) ns = []" by (auto simp: filter_empty_conv)
  moreover have "cte_iter k j ns [] = []" for k and j :: "node_row \<Rightarrow> node_row \<Rightarrow> bool"
    by (induction k) auto
  ultimately show ?thesis by (simp add: subtree_def cte_union_def)
qed

section \<open>What a grant means\<close>

text \<open>
  \<open>nearest_live_share s u i sh\<close>: \<open>sh\<close> is active, addressed to \<open>u\<close>, on \<open>i\<close> or a folder above it;
  no row from \<open>i\<close> up to that root is in Trash; and no active share of \<open>u\<close> is closer to \<open>i\<close>.
\<close>

definition nearest_live_share :: "db \<Rightarrow> id \<Rightarrow> id \<Rightarrow> share_row \<Rightarrow> bool" where
  "nearest_live_share s u i sh \<longleftrightarrow>
     sh \<in> set (shares s) \<and> active_share sh u (sh_node_id sh) \<and> sh_node_id sh \<in> n_id ` set (nodes s) \<and>
     (i, sh_node_id sh) \<in> (par (nodes s))\<^sup>* \<and>
     (\<forall>n\<in>set (nodes s). (i, n_id n) \<in> (par (nodes s))\<^sup>* \<longrightarrow> (n_id n, sh_node_id sh) \<in> (par (nodes s))\<^sup>* \<longrightarrow>
        n_deleted_at n = None) \<and>
     (\<forall>j sh'. (i, j) \<in> (par (nodes s))\<^sup>* \<longrightarrow> (j, sh_node_id sh) \<in> (par (nodes s))\<^sup>+ \<longrightarrow>
        sh' \<in> set (shares s) \<longrightarrow> \<not> active_share sh' u j)"

definition one_share :: "db \<Rightarrow> bool" where
  "one_share s \<longleftrightarrow> (\<forall>sh\<in>set (shares s). \<forall>sh'\<in>set (shares s). \<forall>u j.
     active_share sh u j \<longrightarrow> active_share sh' u j \<longrightarrow> sh = sh')"

lemma nearest_share_iff:
  "nearest_share shs u as = Some (path, sh) \<longleftrightarrow>
   (\<exists>xs b ys. as = xs @ b # ys \<and> path = xs @ [b] \<and>
      find (\<lambda>sh. active_share sh u (n_id b)) shs = Some sh \<and>
      (\<forall>a\<in>set xs. \<forall>sh'\<in>set shs. \<not> active_share sh' u (n_id a)))"
proof (induction as arbitrary: path)
  case (Cons a as)
  show ?case
  proof (cases "find (\<lambda>sh. active_share sh u (n_id a)) shs")
    case None
    then have none: "\<forall>sh'\<in>set shs. \<not> active_share sh' u (n_id a)" by (auto simp: find_None_iff)
    show ?thesis (is "_ = ?rhs")
    proof
      assume "nearest_share shs u (a # as) = Some (path, sh)"
      with None obtain path' where "nearest_share shs u as = Some (path', sh)" "path = a # path'" by auto
      then obtain xs b ys where "as = xs @ b # ys" "path = (a # xs) @ [b]"
        "find (\<lambda>sh. active_share sh u (n_id b)) shs = Some sh"
        "\<forall>a\<in>set xs. \<forall>sh'\<in>set shs. \<not> active_share sh' u (n_id a)" unfolding Cons.IH by auto
      with none show ?rhs by (intro exI [of _ "a # xs"] exI [of _ b] exI [of _ ys]) auto
    next
      assume ?rhs
      then obtain xs b ys where dec: "a # as = xs @ b # ys" "path = xs @ [b]"
        "find (\<lambda>sh. active_share sh u (n_id b)) shs = Some sh"
        "\<forall>a\<in>set xs. \<forall>sh'\<in>set shs. \<not> active_share sh' u (n_id a)" by blast
      with None obtain zs where zs: "xs = a # zs" by (cases xs) auto
      with dec have "nearest_share shs u as = Some (zs @ [b], sh)"
        by (subst Cons.IH) (auto intro!: exI [of _ zs])
      with None zs dec show "nearest_share shs u (a # as) = Some (path, sh)" by simp
    qed
  next
    case (Some sh0)
    then have "sh0 \<in> set shs" "active_share sh0 u (n_id a)" by (auto simp: find_Some_iff)
    with Some show ?thesis by (auto simp: Cons_eq_append_conv)
  qed
qed simp

lemma nearest_share_None:
  "nearest_share shs u as = None \<longleftrightarrow> (\<forall>a\<in>set as. \<forall>sh\<in>set shs. \<not> active_share sh u (n_id a))"
  by (induction as) (auto split: option.splits simp: find_None_iff find_Some_iff)

lemma chain_Cons:
  "chain ns i (c # zs) \<Longrightarrow> zs \<noteq> [] \<Longrightarrow>
   find (\<lambda>n. n_id n = i) ns = Some c \<and> (\<exists>p. n_parent_id c = Some p \<and> chain ns p zs)"
  by (cases rule: chain.cases) auto

lemma chain_tail: "chain ns i (xs @ b # ys) \<Longrightarrow> chain ns (n_id b) (b # ys)"
proof (induction xs arbitrary: i)
  case Nil
  then have "chain ns i (b # ys)" by simp
  moreover from this have "n_id b = i" by (cases rule: chain.cases) (auto dest: find_key_set)
  ultimately show ?case by simp
next
  case (Cons a xs)
  then have "chain ns i (a # (xs @ b # ys))" by simp
  from chain_Cons [OF this] show ?case by (auto intro: Cons.IH)
qed

lemma chain_before:
  "chain ns i (xs @ b # ys) \<Longrightarrow> a \<in> set xs \<Longrightarrow> (n_id a, n_id b) \<in> (par ns)\<^sup>+"
proof (induction xs arbitrary: i)
  case (Cons c xs)
  from Cons.prems(1) have "chain ns i (c # (xs @ b # ys))" by simp
  from chain_Cons [OF this] obtain p where c: "find (\<lambda>n. n_id n = i) ns = Some c"
    and p: "n_parent_id c = Some p" "chain ns p (xs @ b # ys)" by auto
  show ?case
  proof (cases "a \<in> set xs")
    case True
    with p(2) show ?thesis by (rule Cons.IH)
  next
    case False
    with Cons.prems(2) have "a = c" by simp
    with find_key_set [OF c] p(1) have "(n_id a, p) \<in> par ns" by (auto simp: par_def)
    moreover from p(2) have "(p, n_id b) \<in> (par ns)\<^sup>*" by (rule chain_paths) simp
    ultimately show ?thesis by (rule rtrancl_into_trancl2)
  qed
qed simp

lemma chain_after:
  "chain ns i (xs @ b # ys) \<Longrightarrow> a \<in> set ys \<Longrightarrow> (n_id b, n_id a) \<in> (par ns)\<^sup>+"
proof -
  assume "chain ns i (xs @ b # ys)" and a: "a \<in> set ys"
  then obtain zs ws where "ys = zs @ a # ws" by (meson split_list)
  with \<open>chain ns i (xs @ b # ys)\<close> have "chain ns i ((xs @ b # zs) @ a # ws)" by simp
  then show ?thesis by (rule chain_before) simp
qed

text \<open>On a forest the query always returns, and a grant is a nearest live share.\<close>

lemma ShareGrant_returns:
  assumes "forest (nodes s)"
  shows "\<exists>r. ShareGrant s u i = Inr r"
proof -
  obtain as where "ancestors (nodes s) i = Some as" using assms by (rule ancestors_forest)
  then show ?thesis by (simp add: ShareGrant_def)
qed

lemma ShareGrant_sound:
  assumes forest: "forest (nodes s)" and g: "ShareGrant s u i = Inr (Some g)"
  shows "\<exists>sh. nearest_live_share s u i sh \<and> g = \<lparr>RootID = sh_node_id sh, Permission = sh_permission sh\<rparr>"
proof -
  let ?R = "par (nodes s)"
  obtain as where as: "ancestors (nodes s) i = Some as" "chain (nodes s) i as"
    "set as = {n \<in> set (nodes s). (i, n_id n) \<in> ?R\<^sup>*}"
    using forest by (rule ancestors_forest)
  from g as(1) obtain path sh where near: "nearest_share (shares s) u as = Some (path, sh)"
    and live: "\<forall>a\<in>set path. n_deleted_at a = None"
    and eq: "g = \<lparr>RootID = n_id (last path), Permission = sh_permission sh\<rparr>"
    by (auto simp: ShareGrant_def split: option.splits if_splits)
  from near obtain xs b ys where dec: "as = xs @ b # ys" "path = xs @ [b]"
    and find: "find (\<lambda>sh. active_share sh u (n_id b)) (shares s) = Some sh"
    and none: "\<forall>a\<in>set xs. \<forall>sh'\<in>set (shares s). \<not> active_share sh' u (n_id a)"
    unfolding nearest_share_iff by blast
  from find have sh: "sh \<in> set (shares s)" "active_share sh u (n_id b)" by (auto simp: find_Some_iff)
  then have root: "sh_node_id sh = n_id b" by (simp add: active_share_def)
  have chain: "chain (nodes s) i (xs @ b # ys)" using as(2) dec by simp
  have acyc: "(n_id b, n_id b) \<notin> ?R\<^sup>+" using forest by (auto simp: forest_def acyclic_def)
  have below: "n \<in> set xs \<or> n = b" if "n \<in> set (nodes s)" "(i, n_id n) \<in> ?R\<^sup>*" "(n_id n, n_id b) \<in> ?R\<^sup>*" for n
  proof (rule ccontr)
    assume "\<not> ?thesis"
    with that as(3) dec have "n \<in> set ys" by auto
    with chain have "(n_id b, n_id n) \<in> ?R\<^sup>+" by (rule chain_after)
    with that(3) acyc show False by (meson trancl_rtrancl_trancl)
  qed
  have "\<not> active_share sh' u j"
    if j: "(i, j) \<in> ?R\<^sup>*" "(j, n_id b) \<in> ?R\<^sup>+" and "sh' \<in> set (shares s)" for j sh'
  proof -
    from j(2) obtain n where n: "n \<in> set (nodes s)" "n_id n = j"
      by (auto dest!: tranclD par_domain)
    with j below [of n] have "n \<in> set xs \<or> n = b" by (simp add: trancl_into_rtrancl)
    moreover have "n \<noteq> b" using j(2) n acyc by auto
    ultimately show ?thesis using none that(3) n by auto
  qed
  moreover have "b \<in> set (nodes s)" "(i, n_id b) \<in> ?R\<^sup>*" using as(3) dec by auto
  ultimately have "nearest_live_share s u i sh"
    using sh root live dec below by (auto simp: nearest_live_share_def)
  with eq root dec show ?thesis by auto
qed

lemma ShareGrant_complete:
  assumes forest: "forest (nodes s)" and one: "one_share s" and sh: "nearest_live_share s u i sh"
  shows "ShareGrant s u i = Inr (Some \<lparr>RootID = sh_node_id sh, Permission = sh_permission sh\<rparr>)"
proof -
  let ?R = "par (nodes s)"
  obtain as where as: "ancestors (nodes s) i = Some as" "chain (nodes s) i as"
    "set as = {n \<in> set (nodes s). (i, n_id n) \<in> ?R\<^sup>*}"
    using forest by (rule ancestors_forest)
  from sh obtain b where b: "b \<in> set (nodes s)" "n_id b = sh_node_id sh"
    by (auto simp: nearest_live_share_def)
  with sh as(3) have "b \<in> set as" by (auto simp: nearest_live_share_def)
  then obtain xs ys where dec: "as = xs @ b # ys" by (meson split_list)
  have chain: "chain (nodes s) i (xs @ b # ys)" using as(2) dec by simp
  have none: "\<forall>a\<in>set xs. \<forall>sh'\<in>set (shares s). \<not> active_share sh' u (n_id a)"
  proof (intro ballI)
    fix a sh' assume "a \<in> set xs" "sh' \<in> set (shares s)"
    moreover from this chain have "(n_id a, sh_node_id sh) \<in> ?R\<^sup>+" by (simp add: chain_before flip: b(2))
    moreover have "(i, n_id a) \<in> ?R\<^sup>*" using as(3) dec \<open>a \<in> set xs\<close> by auto
    ultimately show "\<not> active_share sh' u (n_id a)" using sh by (auto simp: nearest_live_share_def)
  qed
  have "find (\<lambda>sh. active_share sh u (n_id b)) (shares s) = Some sh"
  proof -
    have act: "sh \<in> set (shares s)" "active_share sh u (n_id b)"
      using sh b by (auto simp: nearest_live_share_def)
    then obtain sh0 where sh0: "find (\<lambda>sh. active_share sh u (n_id b)) (shares s) = Some sh0"
      using find_witness [of sh "shares s" "\<lambda>sh. active_share sh u (n_id b)"] by auto
    then have "sh0 \<in> set (shares s)" "active_share sh0 u (n_id b)" by (auto simp: find_Some_iff)
    with act one have "sh0 = sh" by (auto simp: one_share_def)
    with sh0 show ?thesis by simp
  qed
  with none have near: "nearest_share (shares s) u as = Some (xs @ [b], sh)"
    unfolding nearest_share_iff dec by blast
  have "n_deleted_at a = None" if "a \<in> set (xs @ [b])" for a
  proof -
    have "a \<in> set (nodes s)" "(i, n_id a) \<in> ?R\<^sup>*" using as(3) dec that by auto
    moreover have "(n_id a, sh_node_id sh) \<in> ?R\<^sup>*"
      using that b(2) chain_before [OF chain, of a] by (cases "a = b") (simp_all add: trancl_into_rtrancl)
    ultimately show ?thesis using sh by (auto simp: nearest_live_share_def)
  qed
  then have live: "(\<exists>a\<in>set (xs @ [b]). n_deleted_at a \<noteq> None) = False" by (metis (full_types))
  show ?thesis
    by (simp only: ShareGrant_def as(1) near option.case prod.case live if_False last_snoc b(2))
qed

section \<open>How grants change with the tree\<close>

lemma nearest_share_map:
  "(\<And>n. n \<in> set xs \<Longrightarrow> n_id (g n) = n_id n) \<Longrightarrow>
   nearest_share shs u (map g xs) = map_option (\<lambda>(path, sh). (map g path, sh)) (nearest_share shs u xs)"
  by (induction xs) (auto split: option.splits simp: option.map_comp comp_def case_prod_beta)

lemma nearest_share_path:
  "nearest_share shs u xs = Some (path, sh) \<Longrightarrow> path \<noteq> [] \<and> set path \<subseteq> set xs"
  unfolding nearest_share_iff by auto

lemma ShareGrant_chain:
  assumes "chain (nodes s) i xs" "acyclic (par (nodes s))"
  shows "ShareGrant s u i = Inr (case nearest_share (shares s) u xs of
      None \<Rightarrow> None
    | Some (path, sh) \<Rightarrow> if \<exists>a\<in>set path. n_deleted_at a \<noteq> None then None
        else Some \<lparr>RootID = n_id (last path), Permission = sh_permission sh\<rparr>)"
  by (simp only: ShareGrant_def chain_ancestors [OF assms] option.case)

text \<open>A chain stays a chain where the rows on it keep their IDs and parents.\<close>

lemma chain_transfer:
  "chain ns i xs \<Longrightarrow> parents_ok ns \<Longrightarrow> i \<in> n_id ` set ns \<Longrightarrow>
   (\<And>n. n \<in> set xs \<Longrightarrow> find (\<lambda>m. n_id m = n_id n) ns' = Some (g n) \<and> n_parent_id (g n) = n_parent_id n) \<Longrightarrow>
   chain ns' i (map g xs)"
proof (induction rule: chain.induct)
  case (missing i)
  then show ?case by (auto simp: find_key_None)
next
  case (root i n)
  then have "n_id n = i" by (auto dest: find_key_set)
  with root show ?case by (auto intro: chain.root)
next
  case (up i n p xs)
  then have n: "n \<in> set ns" "n_id n = i" by (auto dest: find_key_set)
  with up.hyps(2) have "(i, p) \<in> par ns" by (auto simp: par_def)
  with up.prems(1) have "p \<in> n_id ` set ns" by (rule par_range)
  with up have "chain ns' p (map g xs)" by simp
  moreover have "find (\<lambda>m. n_id m = i) ns' = Some (g n)" "n_parent_id (g n) = Some p"
    using up.prems(3) [of n] n(2) up.hyps(2) by simp_all
  ultimately show ?case by (auto intro: chain.up)
qed

lemma ShareGrant_transfer:
  assumes chain: "chain (nodes s) i xs" and ok: "parents_ok (nodes s)" "acyclic (par (nodes s))"
    and i: "i \<in> n_id ` set (nodes s)"
    and acyc: "acyclic (par (nodes s'))" and sh: "shares s' = shares s"
    and g: "\<And>n. n \<in> set xs \<Longrightarrow> find (\<lambda>m. n_id m = n_id n) (nodes s') = Some (g n) \<and>
      n_id (g n) = n_id n \<and> n_parent_id (g n) = n_parent_id n \<and> n_deleted_at (g n) = n_deleted_at n"
  shows "ShareGrant s' u i = ShareGrant s u i"
proof -
  have chain': "chain (nodes s') i (map g xs)" using g by (intro chain_transfer [OF chain ok(1) i]) auto
  have near: "nearest_share (shares s) u (map g xs) =
      map_option (\<lambda>(path, sh). (map g path, sh)) (nearest_share (shares s) u xs)"
    by (rule nearest_share_map) (use g in auto)
  show ?thesis
  proof (cases "nearest_share (shares s) u xs")
    case None
    then show ?thesis
      by (simp only: ShareGrant_chain [OF chain ok(2)] ShareGrant_chain [OF chain' acyc] sh near
          option.map option.case)
  next
    case (Some ps)
    obtain path sh where ps: "ps = (path, sh)" by (cases ps)
    with Some have "path \<noteq> []" and sub: "set path \<subseteq> set xs"
      using nearest_share_path by auto
    then have "last path \<in> set xs" "last (map g path) = g (last path)" by (auto simp: last_map)
    with g have "n_id (last (map g path)) = n_id (last path)" by simp
    moreover have "(\<exists>a\<in>set (map g path). n_deleted_at a \<noteq> None) \<longleftrightarrow> (\<exists>a\<in>set path. n_deleted_at a \<noteq> None)"
    proof -
      have "n_deleted_at (g a) = n_deleted_at a" if "a \<in> set path" for a using g sub that by blast
      then show ?thesis by simp
    qed
    ultimately show ?thesis
      by (simp only: ShareGrant_chain [OF chain ok(2)] ShareGrant_chain [OF chain' acyc] sh near Some ps
          option.map option.case prod.case)
  qed
qed

text \<open>A live node without a share of its own has its parent's grant.\<close>

lemma ShareGrant_up:
  assumes forest: "forest (nodes s)" and n: "node_of s i = Some n" "n_parent_id n = Some p" "n_deleted_at n = None"
    and none: "\<forall>sh\<in>set (shares s). \<not> active_share sh u i"
  shows "ShareGrant s u i = ShareGrant s u p"
proof -
  from forest have acyc: "acyclic (par (nodes s))" by (simp add: forest_def)
  obtain xs where xs: "chain (nodes s) p xs" using chain_exists [OF forest] by blast
  with n have up: "chain (nodes s) i (n # xs)" by (auto simp: node_of_def intro: chain.up)
  have "find (\<lambda>sh. active_share sh u (n_id n)) (shares s) = None"
    using none node_of_Some [OF n(1)] by (simp add: find_None_iff)
  then have near: "nearest_share (shares s) u (n # xs) =
      map_option (\<lambda>(path, sh). (n # path, sh)) (nearest_share (shares s) u xs)" by simp
  show ?thesis
  proof (cases "nearest_share (shares s) u xs")
    case None
    then show ?thesis
      by (simp only: ShareGrant_chain [OF up acyc] ShareGrant_chain [OF xs acyc] near option.map option.case)
  next
    case (Some ps)
    obtain path sh where ps: "ps = (path, sh)" by (cases ps)
    with Some have "path \<noteq> []" using nearest_share_path by auto
    then have "last (n # path) = last path" by simp
    moreover have "(\<exists>a\<in>set (n # path). n_deleted_at a \<noteq> None) \<longleftrightarrow> (\<exists>a\<in>set path. n_deleted_at a \<noteq> None)"
      using n(3) by auto
    ultimately show ?thesis
      by (simp only: ShareGrant_chain [OF up acyc] ShareGrant_chain [OF xs acyc] near Some ps
          option.map option.case prod.case)
  qed
qed

text \<open>A grant rooted elsewhere means there is no share on the node itself.\<close>

lemma ShareGrant_no_own:
  assumes forest: "forest (nodes s)" and g: "ShareGrant s u i = Inr (Some g)" "RootID g \<noteq> i"
  shows "\<forall>sh\<in>set (shares s). \<not> active_share sh u i"
proof -
  obtain sh where sh: "nearest_live_share s u i sh" and eq: "g = \<lparr>RootID = sh_node_id sh, Permission = sh_permission sh\<rparr>"
    using ShareGrant_sound [OF forest g(1)] by blast
  with g(2) have "(i, sh_node_id sh) \<in> (par (nodes s))\<^sup>+"
    by (auto simp: nearest_live_share_def rtrancl_eq_or_trancl)
  with sh show ?thesis by (auto simp: nearest_live_share_def)
qed

section \<open>The interface to the other services\<close>

definition shared_with :: "db \<Rightarrow> id \<Rightarrow> id \<Rightarrow> string \<Rightarrow> bool" where
  "shared_with s u j p \<longleftrightarrow> (\<exists>sh\<in>set (shares s). active_share sh u j \<and> sh_permission sh = p)"

definition below :: "db \<Rightarrow> id \<Rightarrow> id \<Rightarrow> bool" where
  "below s i j \<longleftrightarrow> (i, j) \<in> (par (nodes s))\<^sup>*"

definition trashed :: "db \<Rightarrow> id \<Rightarrow> bool" where
  "trashed s i \<longleftrightarrow> (\<exists>n\<in>set (nodes s). n_id n = i \<and> n_deleted_at n \<noteq> None)"

text \<open>
  What nodes, uploads and favorites use of a grant: the lookup returns, a grant comes from an
  active share on the node or above it, and nothing in between is in Trash.
\<close>

locale grants =
  fixes grant :: "'s \<Rightarrow> id \<Rightarrow> id \<Rightarrow> err + Grant option"
    and wf_tree :: "'s \<Rightarrow> bool"
    and shared :: "'s \<Rightarrow> id \<Rightarrow> id \<Rightarrow> string \<Rightarrow> bool"
    and within :: "'s \<Rightarrow> id \<Rightarrow> id \<Rightarrow> bool"
    and hidden :: "'s \<Rightarrow> id \<Rightarrow> bool"
  assumes returns: "wf_tree s \<Longrightarrow> \<exists>r. grant s u i = Inr r"
    and sound: "wf_tree s \<Longrightarrow> grant s u i = Inr (Some g) \<Longrightarrow>
      shared s u (RootID g) (Permission g) \<and> within s i (RootID g)"
    and visible: "wf_tree s \<Longrightarrow> grant s u i = Inr (Some g) \<Longrightarrow>
      within s i j \<Longrightarrow> within s j (RootID g) \<Longrightarrow> \<not> hidden s j"
    and within_refl: "within s i i"
begin

lemma no_share_no_grant:
  assumes "wf_tree s" and "\<And>j p. within s i j \<Longrightarrow> \<not> shared s u j p"
  shows "grant s u i = Inr None"
proof -
  from returns [OF assms(1)] obtain r where r: "grant s u i = Inr r" by blast
  show ?thesis
  proof (cases r)
    case (Some g)
    with sound [OF assms(1), of u i g] r assms(2) show ?thesis by blast
  qed (simp add: r)
qed

lemma hidden_no_grant:
  assumes "wf_tree s" and "hidden s i"
  shows "grant s u i = Inr None"
proof -
  from returns [OF assms(1)] obtain r where r: "grant s u i = Inr r" by blast
  show ?thesis
  proof (cases r)
    case (Some g)
    with r have g: "grant s u i = Inr (Some g)" by simp
    then have "within s i (RootID g)" using sound [OF assms(1)] by blast
    with visible [OF assms(1) g within_refl] assms(2) show ?thesis by blast
  qed (simp add: r)
qed

lemma write_grant:
  "wf_tree s \<Longrightarrow> grant s u i = Inr (Some g) \<Longrightarrow> CanWrite g \<Longrightarrow>
   shared s u (RootID g) PermissionReadWrite \<and> within s i (RootID g)"
  by (auto dest: sound simp: CanWrite_def)

end

interpretation sg: grants ShareGrant "\<lambda>s. forest (nodes s)" shared_with below trashed
proof
  fix s :: db and u i j g
  assume forest: "forest (nodes s)"
  show "\<exists>r. ShareGrant s u i = Inr r" by (rule ShareGrant_returns [OF forest])
  assume g: "ShareGrant s u i = Inr (Some g)"
  obtain sh where sh: "nearest_live_share s u i sh"
    and eq: "g = \<lparr>RootID = sh_node_id sh, Permission = sh_permission sh\<rparr>"
    using ShareGrant_sound [OF forest g] by blast
  show "shared_with s u (RootID g) (Permission g) \<and> below s i (RootID g)"
    using sh eq by (auto simp: nearest_live_share_def shared_with_def below_def)
  assume "below s i j" "below s j (RootID g)"
  with sh eq show "\<not> trashed s j"
    by (auto simp: nearest_live_share_def below_def trashed_def)
next
  fix s :: db and i
  show "below s i i" by (simp add: below_def)
qed

text \<open>A grant depends only on the tree, the deletion marks and the shares.\<close>

lemma ShareGrant_cong:
  assumes "nodes s' = nodes s" "shares s' = shares s"
  shows "ShareGrant s' u i = ShareGrant s u i"
  unfolding ShareGrant_def assms ..

section \<open>Key scopes\<close>

lemma fold_max: "fold max vs (v::int) \<in> insert v (set vs) \<and> (\<forall>x\<in>insert v (set vs). x \<le> fold max vs v)"
proof (induction vs arbitrary: v)
  case (Cons w ws)
  from Cons.IH [of "max w v"] show ?case by (auto simp: max_def split: if_splits)
qed simp

lemma max_version_spec:
  assumes "k \<in> set ks"
  shows "k_key_version k \<le> max_version ks" and "max_version ks \<in> k_key_version ` set ks"
proof -
  from assms obtain v vs where vs: "map k_key_version ks = v # vs"
    by (cases "map k_key_version ks") auto
  then have set: "insert v (set vs) = k_key_version ` set ks" by (metis list.set(2) list.set_map)
  have "max_version ks = fold max vs v" by (simp add: max_version_def vs)
  with fold_max [of vs v] assms show "k_key_version k \<le> max_version ks"
    "max_version ks \<in> k_key_version ` set ks" unfolding set by auto
qed

lemma max_version_empty [simp]: "max_version [] = 0"
  by (simp add: max_version_def)

text \<open>The accepted key scopes: the owner's vault for the owner alone, an existing key of one of
  the owner's folders, and for anyone else only the newest key of the share it writes through.\<close>

lemma ValidateKeyScope_owner:
  "ValidateKeyScope U s owner owner root scope v = Inr () \<longleftrightarrow>
   1 \<le> v \<and> (scope = owner \<or> ValidUUID U scope \<and>
     (\<exists>k\<in>set (folder_keys s). k_folder_id k = scope \<and> k_key_version k = v \<and> k_owner_user_id k = owner))"
  by (auto simp: ValidateKeyScope_def)

lemma ValidateKeyScope_member:
  assumes "actor \<noteq> owner"
  shows "ValidateKeyScope U s owner actor root scope v = Inr () \<longleftrightarrow>
   1 \<le> v \<and> scope \<noteq> owner \<and> scope = root \<and> ValidUUID U scope \<and>
   (\<exists>k\<in>set (folder_keys s). k_folder_id k = scope \<and> k_key_version k = v \<and> k_owner_user_id k = owner) \<and>
   (\<forall>k\<in>set (folder_keys s). k_folder_id k = scope \<longrightarrow> k_owner_user_id k = owner \<longrightarrow> k_key_version k \<le> v)"
    (is "?l \<longleftrightarrow> ?r")
proof -
  let ?ks = "filter (\<lambda>k. k_folder_id k = scope \<and> k_owner_user_id k = owner) (folder_keys s)"
  let ?has = "\<exists>k\<in>set (folder_keys s). k_folder_id k = scope \<and> k_key_version k = v \<and> k_owner_user_id k = owner"
  have latest: "v = max_version ?ks \<longleftrightarrow> (\<forall>k\<in>set (folder_keys s). k_folder_id k = scope \<longrightarrow>
      k_owner_user_id k = owner \<longrightarrow> k_key_version k \<le> v)" if ?has
  proof
    assume v: "v = max_version ?ks"
    show "\<forall>k\<in>set (folder_keys s). k_folder_id k = scope \<longrightarrow>
      k_owner_user_id k = owner \<longrightarrow> k_key_version k \<le> v"
    proof (intro ballI impI)
      fix k assume "k \<in> set (folder_keys s)" "k_folder_id k = scope" "k_owner_user_id k = owner"
      then have "k \<in> set ?ks" by simp
      then show "k_key_version k \<le> v" unfolding v by (rule max_version_spec(1))
    qed
  next
    assume le: "\<forall>k\<in>set (folder_keys s). k_folder_id k = scope \<longrightarrow>
      k_owner_user_id k = owner \<longrightarrow> k_key_version k \<le> v"
    from that obtain k where k: "k \<in> set ?ks" "k_key_version k = v" by auto
    from max_version_spec(2) [OF k(1)] obtain m where
      m: "m \<in> set ?ks" "max_version ?ks = k_key_version m" by (rule imageE)
    from m(1) le have "k_key_version m \<le> v" by simp
    then have "max_version ?ks \<le> v" by (simp only: m(2))
    moreover have "v \<le> max_version ?ks" using max_version_spec(1) [OF k(1)] k(2) by simp
    ultimately show "v = max_version ?ks" by simp
  qed
  show ?thesis
  proof (cases ?has)
    case True
    let ?newest = "\<forall>k\<in>set (folder_keys s). k_folder_id k = scope \<longrightarrow>
      k_owner_user_id k = owner \<longrightarrow> k_key_version k \<le> v"
    define has new where "has \<longleftrightarrow> ?has" and "new \<longleftrightarrow> ?newest"
    have "has" "(v \<noteq> max_version ?ks) \<longleftrightarrow> \<not> new"
      using True latest [OF True] unfolding has_def new_def by simp_all
    then show ?thesis
      unfolding ValidateKeyScope_def has_def [symmetric] new_def [symmetric]
      using assms by (simp only: not_less) auto
  next
    case False
    with assms show ?thesis by (simp only: ValidateKeyScope_def) (simp split: if_split)
  qed
qed

lemma NearestKeyedFolder_none:
  assumes "forest (nodes s)" and "\<not> keyed s []" and "NearestKeyedFolder s i = Inr []"
    and "j \<in> n_id ` set (nodes s)" and "(i, j) \<in> (par (nodes s))\<^sup>*"
  shows "\<not> keyed s j"
proof
  assume j: "keyed s j"
  obtain as where as: "ancestors (nodes s) i = Some as"
    "set as = {n \<in> set (nodes s). (i, n_id n) \<in> (par (nodes s))\<^sup>*}"
    using assms(1) by (rule ancestors_forest)
  with assms(4,5) obtain a where "a \<in> set as" "n_id a = j" by auto
  with j find_witness [of a as "\<lambda>a. keyed s (n_id a)"] obtain b where
    "find (\<lambda>a. keyed s (n_id a)) as = Some b" "keyed s (n_id b)" by auto
  with as(1) assms(2,3) show False by (auto simp: NearestKeyedFolder_def)
qed

lemma NearestKeyedFolder_returns:
  assumes "forest (nodes s)"
  shows "\<exists>r. NearestKeyedFolder s i = Inr r"
proof -
  obtain as where "ancestors (nodes s) i = Some as" using assms by (rule ancestors_forest)
  then show ?thesis by (simp add: NearestKeyedFolder_def)
qed

lemma SubtreeHasKeyedFolder_iff:
  assumes "distinct (map n_id (nodes s))" "i \<in> n_id ` set (nodes s)"
  shows "SubtreeHasKeyedFolder s i \<longleftrightarrow>
    (\<exists>j\<in>n_id ` set (nodes s). (j, i) \<in> (par (nodes s))\<^sup>* \<and> keyed s j)"
proof -
  from assms(2) obtain a where "a \<in> set (nodes s)" "n_id a = i" by blast
  from subtree_iff [OF assms(1) this] show ?thesis by (auto simp: SubtreeHasKeyedFolder_def)
qed

end
