(* ===== verification/HB_Text.thy ===== *)
theory HB_Text
  imports HB_Prelude
begin

text \<open>
  The parts of the Go standard library the services use on text: \<open>strconv.FormatInt\<close> and
  \<open>strconv.ParseInt\<close> in base 10 with 64 bits, \<open>strings.Cut\<close> at a character (which is
  \<open>strings.SplitN\<close> with limit 2 where two fields result) and \<open>strings.Split\<close>. \<open>ParseInt_FormatInt\<close> and \<open>cut_join\<close> are the
  round trips the stored operation results rely on.
\<close>

definition digit :: "nat \<Rightarrow> char" where
  "digit d = char_of (48 + d)"

definition digit_value :: "char \<Rightarrow> nat option" where
  "digit_value c = (let k = of_char c :: nat in if 48 \<le> k \<and> k \<le> 57 then Some (k - 48) else None)"

fun digits :: "nat \<Rightarrow> string" where
  "digits n = (if n < 10 then [digit n] else digits (n div 10) @ [digit (n mod 10)])"

declare digits.simps [simp del]

definition FormatInt :: "int \<Rightarrow> string" where
  "FormatInt i = (if i < 0 then CHR ''-'' # digits (nat (- i)) else digits (nat i))"

fun parse_digits :: "nat \<Rightarrow> string \<Rightarrow> nat option" where
  "parse_digits acc [] = Some acc"
| "parse_digits acc (c # cs) =
     (case digit_value c of None \<Rightarrow> None | Some d \<Rightarrow> parse_digits (10 * acc + d) cs)"

definition ParseInt :: "string \<Rightarrow> int option" where
  "ParseInt s =
     (let neg = (s \<noteq> [] \<and> hd s = CHR ''-'');
          ds = (if s \<noteq> [] \<and> (hd s = CHR ''-'' \<or> hd s = CHR ''+'') then tl s else s)
      in if ds = [] then None
         else case parse_digits 0 ds of
           None \<Rightarrow> None
         | Some v \<Rightarrow> (let i = (if neg then - int v else int v)
                     in if - (2 ^ 63) \<le> i \<and> i < 2 ^ 63 then Some i else None))"

definition cut :: "char \<Rightarrow> string \<Rightarrow> (string \<times> string) option" where
  "cut c s = (case dropWhile (\<lambda>x. x \<noteq> c) s of [] \<Rightarrow> None | _ # r \<Rightarrow> Some (takeWhile (\<lambda>x. x \<noteq> c) s, r))"

text \<open>\<open>strings.Split\<close> at a character.\<close>

fun split_at :: "char \<Rightarrow> string \<Rightarrow> string list" where
  "split_at c [] = [[]]"
| "split_at c (x # xs) =
     (if x = c then [] # split_at c xs
      else case split_at c xs of [] \<Rightarrow> [[x]] | f # fs \<Rightarrow> (x # f) # fs)"

section \<open>Round trips\<close>

lemma split_at_plain: "c \<notin> set a \<Longrightarrow> split_at c a = [a]"
  by (induction a) auto

lemma split_at_join: "c \<notin> set a \<Longrightarrow> split_at c (a @ c # b) = a # split_at c b"
  by (induction a) auto

lemma digits_chars: "x \<in> set (digits n) \<Longrightarrow> \<exists>d<10. x = digit d"
proof (induction n rule: digits.induct)
  case (1 n)
  show ?case
  proof (cases "n < 10")
    case True
    with 1(2) show ?thesis by (auto simp: digits.simps [of n])
  next
    case False
    with 1 show ?thesis
      by (cases "x = digit (n mod 10)") (auto simp: digits.simps [of n] intro!: exI [of _ "n mod 10"])
  qed
qed

lemma of_digit: "d < 10 \<Longrightarrow> of_char (digit d) = (48 + d :: nat)"
  by (simp add: digit_def of_char_of)

lemma digit_value_digit: "d < 10 \<Longrightarrow> digit_value (digit d) = Some d"
  by (simp add: digit_value_def of_digit)

lemma parse_digits_append:
  "parse_digits acc (xs @ ys) =
   (case parse_digits acc xs of None \<Rightarrow> None | Some v \<Rightarrow> parse_digits v ys)"
  by (induction xs arbitrary: acc) (auto split: option.splits)

lemma digits_nonempty [simp]: "digits n \<noteq> []"
  by (subst digits.simps) simp

lemma parse_digits_digits: "parse_digits 0 (digits n) = Some n"
proof (induction n rule: digits.induct)
  case (1 n)
  then show ?case
    by (cases "n < 10") (simp_all add: digits.simps [of n] digit_value_digit parse_digits_append)
qed

lemma hd_digits: "\<exists>d<10. hd (digits n) = digit d"
proof (induction n rule: digits.induct)
  case (1 n)
  then show ?case by (cases "n < 10") (auto simp: digits.simps [of n] hd_append)
qed

lemma digit_sign: "d < 10 \<Longrightarrow> digit d \<noteq> CHR ''-'' \<and> digit d \<noteq> CHR ''+''"
proof -
  assume "d < 10"
  then have "of_char (digit d) \<noteq> (of_char CHR ''-'' :: nat)" "of_char (digit d) \<noteq> (of_char CHR ''+'' :: nat)"
    by (simp_all add: of_digit)
  then show ?thesis by metis
qed

theorem ParseInt_FormatInt:
  assumes "- (2 ^ 63) \<le> i" "i < 2 ^ 63"
  shows "ParseInt (FormatInt i) = Some i"
proof (cases "i < 0")
  case True
  then show ?thesis using assms
    by (simp add: ParseInt_def FormatInt_def parse_digits_digits Let_def)
next
  case False
  obtain d where d: "d < 10" "hd (digits (nat i)) = digit d" using hd_digits by blast
  from digit_sign [OF d(1)] have "hd (digits (nat i)) \<noteq> CHR ''-''" "hd (digits (nat i)) \<noteq> CHR ''+''"
    by (simp_all add: d(2))
  with False show ?thesis using assms
    by (simp add: ParseInt_def FormatInt_def parse_digits_digits Let_def)
qed

lemma FormatInt_chars: "c \<in> set (FormatInt i) \<Longrightarrow> c = CHR ''-'' \<or> (\<exists>d<10. c = digit d)"
  by (auto simp: FormatInt_def split: if_split_asm dest: digits_chars)

lemma digit_not:
  assumes "of_char c < (48 :: nat) \<or> 57 < (of_char c :: nat)" "d < 10"
  shows "digit d \<noteq> c"
proof
  assume "digit d = c"
  then have "of_char (digit d) = (of_char c :: nat)" by simp
  with assms of_digit [OF assms(2)] show False by simp
qed

lemma FormatInt_no_colon: "CHR '':'' \<notin> set (FormatInt i)"
  using digit_not [of "CHR '':''"] FormatInt_chars [of "CHR '':''" i] by force

lemma FormatInt_no_slash: "CHR ''/'' \<notin> set (FormatInt i)"
  using digit_not [of "CHR ''/''"] FormatInt_chars [of "CHR ''/''" i] by force

lemma cut_join: "c \<notin> set a \<Longrightarrow> cut c (a @ c # b) = Some (a, b)"
proof -
  assume c: "c \<notin> set a"
  then have "dropWhile (\<lambda>x. x \<noteq> c) (a @ c # b) = c # b" "takeWhile (\<lambda>x. x \<noteq> c) (a @ c # b) = a"
    by (induction a) auto
  then show ?thesis by (simp add: cut_def)
qed

lemma cut_Some: "cut c s = Some (a, b) \<Longrightarrow> s = a @ c # b \<and> c \<notin> set a"
proof -
  assume cut: "cut c s = Some (a, b)"
  then obtain d where d: "dropWhile (\<lambda>x. x \<noteq> c) s = d # b" "a = takeWhile (\<lambda>x. x \<noteq> c) s"
    by (auto simp: cut_def split: list.splits)
  then have "d = c" by (metis (mono_tags) hd_dropWhile list.discI list.sel(1))
  moreover have "c \<notin> set a" using d(2) by (auto dest: set_takeWhileD)
  ultimately show ?thesis using d takeWhile_dropWhile_id [of "\<lambda>x. x \<noteq> c" s] by simp
qed

end
