(* ===== verification/HB_Nodes.thy ===== *)
theory HB_Nodes
  imports HB_Access HB_Text
begin

text \<open>
  Opaque node operations (internal/nodes/service.go): create, read, list, update (rename and
  move), soft delete, restore and rekey. An operation takes the uuid package, one clock reading
  (the code's \<open>s.now()\<close> calls of one operation are taken as equal) and the database, and returns
  the new database with the Go result. Its transaction is \<open>..._tx\<close>: an error rolls back, a replay
  changes nothing and names the recorded node, a commit carries the new database. The answer is
  read after the transaction (\<open>Get\<close>), from the database it left.

  A page cursor is the pair (created_at text, id) the code packs into base64; the packing itself
  is not modelled.
\<close>

section \<open>Data\<close>

record Node =
  N_ID :: id
  N_OwnerID :: id
  N_ParentID :: "id option"
  N_NodeType :: string
  N_MetadataCiphertext :: bytes
  N_MetadataKeyVersion :: int
  N_MetadataKeyScopeID :: id
  N_CurrentVersionID :: "id option"
  N_Revision :: int
  N_CreatedAt :: time
  N_UpdatedAt :: time
  N_DeletedAt :: "time option"

record CreateInput =
  ci_ID :: id
  ci_OwnerID :: id
  ci_DeviceID :: id
  ci_OperationID :: id
  ci_ParentID :: "id option"
  ci_NodeType :: string
  ci_MetadataCiphertext :: bytes
  ci_MetadataKeyVersion :: int
  ci_MetadataKeyScopeID :: id

record UpdateInput =
  ui_UserID :: id
  ui_DeviceID :: id
  ui_OperationID :: id
  ui_NodeID :: id
  ui_ExpectedRevision :: int
  ui_MetadataCiphertext :: bytes
  ui_MetadataKeyVersion :: int
  ui_MetadataKeyScopeID :: id
  ui_MoveParent :: bool
  ui_ParentID :: "id option"

record RekeyVersion =
  rv_ID :: id
  rv_WrappedFileKey :: bytes
  rv_KeyScopeID :: id
  rv_KeyVersion :: int

record RekeyItem =
  ri_NodeID :: id
  ri_ExpectedRevision :: int
  ri_MetadataCiphertext :: bytes
  ri_MetadataKeyVersion :: int
  ri_MetadataKeyScopeID :: id
  ri_Versions :: "RekeyVersion list"

record RekeyInput =
  rk_UserID :: id
  rk_DeviceID :: id
  rk_Items :: "RekeyItem list"

definition MaxRekeyItems :: int where
  "MaxRekeyItems = 200"

definition maxRekeyVersions :: int where
  "maxRekeyVersions = 256"

definition MaxPageSize :: int where
  "MaxPageSize = 1000"

text \<open>\<open>scanNode\<close> reads the columns of \<open>selectNodeColumns\<close>: an absent scope is the owner's vault.\<close>

definition scanNode :: "node_row \<Rightarrow> Node" where
  "scanNode r = \<lparr>N_ID = n_id r, N_OwnerID = n_owner_id r, N_ParentID = n_parent_id r,
     N_NodeType = n_node_type r, N_MetadataCiphertext = n_metadata_ciphertext r,
     N_MetadataKeyVersion = n_metadata_key_version r,
     N_MetadataKeyScopeID = (case n_metadata_key_scope_id r of None \<Rightarrow> n_owner_id r | Some k \<Rightarrow> k),
     N_CurrentVersionID = n_current_version_id r, N_Revision = n_revision r,
     N_CreatedAt = n_created_at r, N_UpdatedAt = n_updated_at r, N_DeletedAt = n_deleted_at r\<rparr>"

definition IsDeleted :: "Node \<Rightarrow> bool" where
  "IsDeleted n \<longleftrightarrow> N_DeletedAt n \<noteq> None"

section \<open>Shared steps\<close>

definition validateDeviceOwnership :: "db \<Rightarrow> id \<Rightarrow> id \<Rightarrow> err + unit" where
  "validateDeviceOwnership s userID deviceID =
     (if count_rows (\<lambda>d. d_id d = deviceID \<and> d_user_id d = userID \<and> d_revoked_at d = None) (devices s) \<noteq> 1
      then Inl NodesForbidden else Inr ())"

definition recordChange :: "time \<Rightarrow> db \<Rightarrow> id \<Rightarrow> id \<Rightarrow> string \<Rightarrow> int \<times> db" where
  "recordChange now s userID nodeID operation =
     (let revision = sync_seq s + 1
      in (revision, s\<lparr>sync_changes := sync_changes s @
            [\<lparr>c_revision = revision, c_user_scope_id = userID, c_node_id = nodeID,
              c_operation = operation, c_payload = [], c_created_at = now\<rparr>],
            sync_seq := revision\<rparr>))"

text \<open>Results are kept for thirty days under their operation ID.\<close>

definition operation_ttl :: time where
  "operation_ttl = 30 * 24 * 60 * 60 * nanos_per_second"

definition replayIfProcessed :: "uuid_pkg \<Rightarrow> db \<Rightarrow> id \<Rightarrow> id \<Rightarrow> string \<Rightarrow> err + (id \<times> int) option" where
  "replayIfProcessed U s operationID userID operationType =
     (case find (\<lambda>r. o_operation_id r = operationID) (processed_operations s) of
        None \<Rightarrow> Inr None
      | Some r \<Rightarrow>
          if o_user_id r \<noteq> userID \<or> o_operation_type r \<noteq> operationType
          then Inl (Validation ''operation ID has already been used'')
          else (case cut CHR '':'' (o_result_payload r) of
              None \<Rightarrow> Inl (Internal ''invalid stored operation result'')
            | Some (node, text) \<Rightarrow>
                if \<not> uuid_Validate U node then Inl (Internal ''invalid stored operation result'')
                else (case ParseInt text of
                    None \<Rightarrow> Inl (Internal ''strconv.ParseInt'')
                  | Some revision \<Rightarrow> Inr (Some (node, revision)))))"

definition recordProcessed ::
  "time \<Rightarrow> db \<Rightarrow> id \<Rightarrow> id \<Rightarrow> id \<Rightarrow> string \<Rightarrow> id \<Rightarrow> int \<Rightarrow> err + db" where
  "recordProcessed now s operationID userID deviceID operationType nodeID revision =
     (if \<exists>r\<in>set (processed_operations s). o_operation_id r = operationID
      then Inl (Internal ''UNIQUE constraint failed: processed_operations.operation_id'')
      else Inr (s\<lparr>processed_operations := processed_operations s @
        [\<lparr>o_operation_id = operationID, o_user_id = userID, o_device_id = deviceID,
          o_operation_type = operationType,
          o_result_payload = nodeID @ CHR '':'' # FormatInt revision,
          o_created_at = now, o_expires_at = now + operation_ttl\<rparr>]\<rparr>))"

definition lockNode :: "db \<Rightarrow> id \<Rightarrow> err + Node" where
  "lockNode s nodeID =
     (case node_of s nodeID of None \<Rightarrow> Inl NodesNotFound | Some r \<Rightarrow> Inr (scanNode r))"

definition authorizeWrite :: "db \<Rightarrow> id \<Rightarrow> Node \<Rightarrow> err + id" where
  "authorizeWrite s userID n =
     ebind (if N_OwnerID n \<noteq> userID then
              ebind (ShareGrant s userID (N_ID n)) (\<lambda>grant. case grant of
                  None \<Rightarrow> Inl NodesForbidden
                | Some g \<Rightarrow> if \<not> CanWrite g \<or> RootID g = N_ID n then Inl NodesForbidden
                           else Inr (RootID g))
            else Inr [])
       (\<lambda>writeRoot. if IsDeleted n
          then Inl (Validation ''node is in trash; restore it before updating'')
          else Inr writeRoot)"

definition directoryOwner :: "db \<Rightarrow> id \<Rightarrow> err + id" where
  "directoryOwner s nodeID =
     (case node_of s nodeID of
        None \<Rightarrow> Inl NodesInvalidParent
      | Some r \<Rightarrow> if n_node_type r \<noteq> ''DIRECTORY'' \<or> n_deleted_at r \<noteq> None then Inl NodesInvalidParent
                 else Inr (n_owner_id r))"

fun forbidCycle_loop :: "nat \<Rightarrow> db \<Rightarrow> id \<Rightarrow> id \<Rightarrow> err + unit" where
  "forbidCycle_loop 0 s movingNodeID current =
     Inl (Validation ''directory tree exceeds maximum supported depth'')"
| "forbidCycle_loop (Suc i) s movingNodeID current =
     (if current = movingNodeID then Inl (Validation ''move would create a cycle'')
      else case node_of s current of
          None \<Rightarrow> Inl (Internal ''sql: no rows in result set'')
        | Some r \<Rightarrow> (case n_parent_id r of
            None \<Rightarrow> Inr ()
          | Some p \<Rightarrow> forbidCycle_loop i s movingNodeID p))"

definition forbidCycle :: "db \<Rightarrow> id \<Rightarrow> id \<Rightarrow> err + unit" where
  "forbidCycle s movingNodeID newParentID = forbidCycle_loop 10000 s movingNodeID newParentID"

definition validateMove :: "db \<Rightarrow> id \<Rightarrow> Node \<Rightarrow> id \<Rightarrow> id option \<Rightarrow> err + unit" where
  "validateMove s userID n writeRoot parentID =
     (case parentID of
        None \<Rightarrow> if writeRoot \<noteq> [] then Inl NodesInvalidParent else Inr ()
      | Some p \<Rightarrow>
          if p = N_ID n then Inl (Validation ''a node cannot become its own parent'')
          else ebind (directoryOwner s p) (\<lambda>parentOwner.
            if parentOwner \<noteq> N_OwnerID n then Inl NodesInvalidParent
            else ebind (if writeRoot \<noteq> [] then
                ebind (ShareGrant s userID p) (\<lambda>grant. case grant of
                    None \<Rightarrow> Inl NodesInvalidParent
                  | Some g \<Rightarrow> if RootID g \<noteq> writeRoot \<or> \<not> CanWrite g then Inl NodesInvalidParent
                             else Inr ())
                else Inr ()) (\<lambda>_.
            ebind (forbidCycle s (N_ID n) p) (\<lambda>_.
              if \<not> (\<exists>k\<in>set (folder_keys s). k_owner_user_id k = N_OwnerID n) then Inr ()
              else if \<not> SubtreeHasKeyedFolder s (N_ID n) then Inr ()
              else ebind (NearestKeyedFolder s p) (\<lambda>outer.
                if outer \<noteq> [] then Inl ErrNestedSharedFolder else Inr ())))))"

text \<open>Also true when the folder no longer exists.\<close>

definition hasDeletedAncestor :: "db \<Rightarrow> id \<Rightarrow> bool" where
  "hasDeletedAncestor s nodeID =
     (let as = cte_union (\<lambda>a n. n_parent_id a = Some (n_id n)) (nodes s)
                 (filter (\<lambda>n. n_id n = nodeID) (nodes s))
      in \<not> (\<exists>a\<in>set as. n_id a = nodeID) \<or> (\<exists>a\<in>set as. n_deleted_at a \<noteq> None))"

section \<open>Reading\<close>

definition Get :: "db \<Rightarrow> id \<Rightarrow> id \<Rightarrow> err + Node" where
  "Get s userID nodeID =
     (case node_of s nodeID of
        None \<Rightarrow> Inl NodesNotFound
      | Some r \<Rightarrow> (let n = scanNode r in
          if N_OwnerID n \<noteq> userID then
            (if IsDeleted n then Inl NodesForbidden
             else ebind (ShareGrant s userID nodeID) (\<lambda>grant. case grant of
                 None \<Rightarrow> Inl NodesForbidden
               | Some _ \<Rightarrow> Inr n))
          else Inr n))"

type_synonym page_key = "(int \<times> nat list) \<times> id"

record PageRequest =
  pr_Limit :: int
  pr_After :: "page_key option"

definition row_key :: "node_row \<Rightarrow> page_key" where
  "row_key r = (stamp (n_created_at r), n_id r)"

definition listPage :: "node_row list \<Rightarrow> PageRequest \<Rightarrow> err + (Node list \<times> page_key option)" where
  "listPage base page =
     (if pr_Limit page < 0 \<or> pr_Limit page > MaxPageSize
      then Inl (Validation ''page limit must be between 1 and 1000'')
      else (let rows = sort_key row_key (after row_key (pr_After page) base);
                rows' = (if pr_Limit page > 0 then take (nat (pr_Limit page + 1)) rows else rows)
            in if pr_Limit page = 0 \<or> int (length rows') \<le> pr_Limit page
               then Inr (map scanNode rows', None)
               else Inr (map scanNode (take (nat (pr_Limit page)) rows'),
                         Some (row_key (rows' ! (nat (pr_Limit page) - 1))))))"

definition requireReadableDirectory :: "db \<Rightarrow> id \<Rightarrow> id \<Rightarrow> err + unit" where
  "requireReadableDirectory s userID nodeID =
     (case node_of s nodeID of
        None \<Rightarrow> Inl NodesInvalidParent
      | Some r \<Rightarrow>
          if n_node_type r \<noteq> ''DIRECTORY'' \<or> n_deleted_at r \<noteq> None then Inl NodesForbidden
          else if n_owner_id r \<noteq> userID then
            ebind (ShareGrant s userID nodeID) (\<lambda>grant. case grant of
                None \<Rightarrow> Inl NodesForbidden
              | Some _ \<Rightarrow> Inr ())
          else Inr ())"

definition owned_roots :: "db \<Rightarrow> id \<Rightarrow> node_row list" where
  "owned_roots s userID =
     filter (\<lambda>n. n_owner_id n = userID \<and> n_parent_id n = None \<and> n_deleted_at n = None) (nodes s)"

definition shared_roots :: "db \<Rightarrow> id \<Rightarrow> node_row list" where
  "shared_roots s userID =
     concat (map (\<lambda>n. map (\<lambda>_. n) (filter (\<lambda>sh. active_share sh userID (n_id n)) (shares s)))
       (filter (\<lambda>n. n_deleted_at n = None) (nodes s)))"

definition child_rows :: "db \<Rightarrow> id \<Rightarrow> node_row list" where
  "child_rows s parentID =
     filter (\<lambda>n. n_parent_id n = Some parentID \<and> n_deleted_at n = None) (nodes s)"

definition ListChildrenPage ::
  "db \<Rightarrow> id \<Rightarrow> id option \<Rightarrow> PageRequest \<Rightarrow> err + (Node list \<times> page_key option)" where
  "ListChildrenPage s userID parentID page =
     (case parentID of
        None \<Rightarrow> listPage (owned_roots s userID @ shared_roots s userID) page
      | Some p \<Rightarrow> ebind (requireReadableDirectory s userID p) (\<lambda>_. listPage (child_rows s p) page))"

definition ListOwnedRootsPage :: "db \<Rightarrow> id \<Rightarrow> PageRequest \<Rightarrow> err + (Node list \<times> page_key option)" where
  "ListOwnedRootsPage s userID page = listPage (owned_roots s userID) page"

definition ListChildren :: "db \<Rightarrow> id \<Rightarrow> id option \<Rightarrow> err + Node list" where
  "ListChildren s userID parentID =
     map_sum id fst (ListChildrenPage s userID parentID \<lparr>pr_Limit = 0, pr_After = None\<rparr>)"

definition ListOwnedRoots :: "db \<Rightarrow> id \<Rightarrow> err + Node list" where
  "ListOwnedRoots s userID =
     map_sum id fst (ListOwnedRootsPage s userID \<lparr>pr_Limit = 0, pr_After = None\<rparr>)"

definition trash_stamp :: "node_row \<Rightarrow> int \<times> nat list" where
  "trash_stamp n = (case n_deleted_at n of None \<Rightarrow> (0, []) | Some t \<Rightarrow> stamp t)"

definition ListTrash :: "db \<Rightarrow> id \<Rightarrow> Node list" where
  "ListTrash s userID =
     map scanNode (rev (sort_key trash_stamp
       (rev (filter (\<lambda>n. n_owner_id n = userID \<and> n_deleted_at n \<noteq> None) (nodes s)))))"

section \<open>Mutations\<close>

text \<open>The result of a transaction that did not fail.\<close>

datatype tx = Replayed id | Committed id db

definition answer :: "db \<Rightarrow> id \<Rightarrow> err + tx \<Rightarrow> db \<times> (err + Node)" where
  "answer s userID r =
     (case r of
        Inl e \<Rightarrow> (s, Inl e)
      | Inr (Replayed nodeID) \<Rightarrow> (s, Get s userID nodeID)
      | Inr (Committed nodeID s') \<Rightarrow> (s', Get s' userID nodeID))"

definition createOwner :: "db \<Rightarrow> CreateInput \<Rightarrow> err + (id \<times> id)" where
  "createOwner s inp =
     (case ci_ParentID inp of
        None \<Rightarrow> Inr (ci_OwnerID inp, [])
      | Some p \<Rightarrow> ebind (directoryOwner s p) (\<lambda>parentOwner.
          if parentOwner \<noteq> ci_OwnerID inp then
            ebind (ShareGrant s (ci_OwnerID inp) p) (\<lambda>grant. case grant of
                None \<Rightarrow> Inl NodesInvalidParent
              | Some g \<Rightarrow> if \<not> CanWrite g then Inl NodesInvalidParent
                         else Inr (parentOwner, RootID g))
          else Inr (ci_OwnerID inp, [])))"

definition insertNode :: "db \<Rightarrow> node_row \<Rightarrow> err + db" where
  "insertNode s n =
     (if n_id n \<in> n_id ` set (nodes s)
      then Inl (Internal ''create node: UNIQUE constraint failed: nodes.id'')
      else Inr (s\<lparr>nodes := nodes s @ [n]\<rparr>))"

definition Create_tx :: "uuid_pkg \<Rightarrow> time \<Rightarrow> db \<Rightarrow> CreateInput \<Rightarrow> err + tx" where
  "Create_tx U now s inp =
     (if \<not> ValidUUID U (ci_ID inp) \<or> \<not> ValidUUID U (ci_OperationID inp)
      then Inl (Validation ''node id and operation id must be valid UUIDs'')
      else if ci_NodeType inp \<noteq> ''FILE'' \<and> ci_NodeType inp \<noteq> ''DIRECTORY''
      then Inl (Validation ''node type must be FILE or DIRECTORY'')
      else if ci_MetadataCiphertext inp = [] \<or> ci_MetadataKeyVersion inp < 1
      then Inl (Validation ''encrypted metadata and a key version are required'')
      else ebind (replayIfProcessed U s (ci_OperationID inp) (ci_OwnerID inp) ''NODE_CREATE'') (\<lambda>result.
        case result of
          Some (nodeID, _) \<Rightarrow> Inr (Replayed nodeID)
        | None \<Rightarrow>
            ebind (validateDeviceOwnership s (ci_OwnerID inp) (ci_DeviceID inp)) (\<lambda>_.
            ebind (createOwner s inp) (\<lambda>(ownerID, writeRoot).
            let scope = (if ci_MetadataKeyScopeID inp = [] then ownerID else ci_MetadataKeyScopeID inp) in
            ebind (ValidateKeyScope U s ownerID (ci_OwnerID inp) writeRoot scope
                (ci_MetadataKeyVersion inp)) (\<lambda>_.
            let (revision, s1) = recordChange now s ownerID (ci_ID inp) ''CREATE'' in
            ebind (insertNode s1 \<lparr>n_id = ci_ID inp, n_owner_id = ownerID, n_parent_id = ci_ParentID inp,
                n_node_type = ci_NodeType inp, n_metadata_ciphertext = ci_MetadataCiphertext inp,
                n_metadata_key_version = ci_MetadataKeyVersion inp,
                n_metadata_key_scope_id = StoredScope scope ownerID,
                n_current_version_id = None, n_revision = revision, n_created_at = now,
                n_updated_at = now, n_deleted_at = None\<rparr>) (\<lambda>s2.
            ebind (recordProcessed now s2 (ci_OperationID inp) (ci_OwnerID inp) (ci_DeviceID inp)
                ''NODE_CREATE'' (ci_ID inp) revision) (\<lambda>s3.
            Inr (Committed (ci_ID inp) s3))))))))"

definition Create :: "uuid_pkg \<Rightarrow> time \<Rightarrow> db \<Rightarrow> CreateInput \<Rightarrow> db \<times> (err + Node)" where
  "Create U now s inp = answer s (ci_OwnerID inp) (Create_tx U now s inp)"

definition set_node :: "id \<Rightarrow> (node_row \<Rightarrow> node_row) \<Rightarrow> db \<Rightarrow> db" where
  "set_node nodeID f s = s\<lparr>nodes := upd (\<lambda>n. n_id n = nodeID) f (nodes s)\<rparr>"

definition update_row :: "UpdateInput \<Rightarrow> id option \<Rightarrow> int \<Rightarrow> time \<Rightarrow> node_row \<Rightarrow> node_row" where
  "update_row inp scope revision now n =
     (if ui_MetadataCiphertext inp \<noteq> [] \<and> ui_MoveParent inp then
        n\<lparr>n_metadata_ciphertext := ui_MetadataCiphertext inp,
          n_metadata_key_version := ui_MetadataKeyVersion inp, n_metadata_key_scope_id := scope,
          n_parent_id := ui_ParentID inp, n_revision := revision, n_updated_at := now\<rparr>
      else if ui_MetadataCiphertext inp \<noteq> [] then
        n\<lparr>n_metadata_ciphertext := ui_MetadataCiphertext inp,
          n_metadata_key_version := ui_MetadataKeyVersion inp, n_metadata_key_scope_id := scope,
          n_revision := revision, n_updated_at := now\<rparr>
      else n\<lparr>n_parent_id := ui_ParentID inp, n_revision := revision, n_updated_at := now\<rparr>)"

definition Update_tx :: "uuid_pkg \<Rightarrow> time \<Rightarrow> db \<Rightarrow> UpdateInput \<Rightarrow> err + tx" where
  "Update_tx U now s inp =
     (if \<not> ValidUUID U (ui_NodeID inp) \<or> \<not> ValidUUID U (ui_OperationID inp)
      then Inl (Validation ''node id and operation id must be valid UUIDs'')
      else if ui_MetadataCiphertext inp = [] \<and> \<not> ui_MoveParent inp
      then Inl (Validation ''update must change metadata, parent, or both'')
      else if ui_MetadataCiphertext inp \<noteq> [] \<and> ui_MetadataKeyVersion inp < 1
      then Inl (Validation ''a metadata key version is required when metadata changes'')
      else ebind (replayIfProcessed U s (ui_OperationID inp) (ui_UserID inp) ''NODE_UPDATE'') (\<lambda>result.
        case result of
          Some (nodeID, _) \<Rightarrow> Inr (Replayed nodeID)
        | None \<Rightarrow>
            ebind (validateDeviceOwnership s (ui_UserID inp) (ui_DeviceID inp)) (\<lambda>_.
            ebind (lockNode s (ui_NodeID inp)) (\<lambda>current.
            ebind (authorizeWrite s (ui_UserID inp) current) (\<lambda>writeRoot.
            if N_Revision current \<noteq> ui_ExpectedRevision inp then Inl NodesRevisionConflict
            else ebind (if ui_MoveParent inp
                then validateMove s (ui_UserID inp) current writeRoot (ui_ParentID inp)
                else Inr ()) (\<lambda>_.
            let scope = (if ui_MetadataKeyScopeID inp = [] then N_OwnerID current
                         else ui_MetadataKeyScopeID inp) in
            ebind (if ui_MetadataCiphertext inp \<noteq> []
                then ValidateKeyScope U s (N_OwnerID current) (ui_UserID inp) writeRoot scope
                       (ui_MetadataKeyVersion inp)
                else Inr ()) (\<lambda>_.
            let (revision, s1) = recordChange now s (N_OwnerID current) (ui_NodeID inp) ''UPDATE'';
                s2 = set_node (ui_NodeID inp)
                  (update_row inp (StoredScope scope (N_OwnerID current)) revision now) s1 in
            ebind (recordProcessed now s2 (ui_OperationID inp) (ui_UserID inp) (ui_DeviceID inp)
                ''NODE_UPDATE'' (ui_NodeID inp) revision) (\<lambda>s3.
            Inr (Committed (ui_NodeID inp) s3)))))))))"

definition Update :: "uuid_pkg \<Rightarrow> time \<Rightarrow> db \<Rightarrow> UpdateInput \<Rightarrow> db \<times> (err + Node)" where
  "Update U now s inp = answer s (ui_UserID inp) (Update_tx U now s inp)"

definition Delete_tx :: "uuid_pkg \<Rightarrow> time \<Rightarrow> db \<Rightarrow> id \<Rightarrow> id \<Rightarrow> id \<Rightarrow> id \<Rightarrow> int \<Rightarrow> err + tx" where
  "Delete_tx U now s userID deviceID nodeID operationID expectedRevision =
     (if \<not> ValidUUID U nodeID \<or> \<not> ValidUUID U operationID
      then Inl (Validation ''node id and operation id must be valid UUIDs'')
      else ebind (replayIfProcessed U s operationID userID ''NODE_DELETE'') (\<lambda>result.
        case result of
          Some (nodeID', _) \<Rightarrow> Inr (Replayed nodeID')
        | None \<Rightarrow>
            ebind (validateDeviceOwnership s userID deviceID) (\<lambda>_.
            ebind (lockNode s nodeID) (\<lambda>current.
            ebind (authorizeWrite s userID current) (\<lambda>_.
            if N_Revision current \<noteq> expectedRevision then Inl NodesRevisionConflict
            else let (revision, s1) = recordChange now s (N_OwnerID current) nodeID ''DELETE'';
                s2 = set_node nodeID
                  (\<lambda>n. n\<lparr>n_deleted_at := Some now, n_revision := revision, n_updated_at := now\<rparr>) s1 in
            ebind (recordProcessed now s2 operationID userID deviceID ''NODE_DELETE'' nodeID revision) (\<lambda>s3.
            Inr (Committed nodeID s3)))))))"

definition Delete :: "uuid_pkg \<Rightarrow> time \<Rightarrow> db \<Rightarrow> id \<Rightarrow> id \<Rightarrow> id \<Rightarrow> id \<Rightarrow> int \<Rightarrow> db \<times> (err + unit)" where
  "Delete U now s userID deviceID nodeID operationID expectedRevision =
     (case Delete_tx U now s userID deviceID nodeID operationID expectedRevision of
        Inl e \<Rightarrow> (s, Inl e)
      | Inr (Replayed _) \<Rightarrow> (s, Inr ())
      | Inr (Committed _ s') \<Rightarrow> (s', Inr ()))"

definition Restore_tx :: "uuid_pkg \<Rightarrow> time \<Rightarrow> db \<Rightarrow> id \<Rightarrow> id \<Rightarrow> id \<Rightarrow> id \<Rightarrow> err + tx" where
  "Restore_tx U now s userID deviceID nodeID operationID =
     (if \<not> ValidUUID U nodeID \<or> \<not> ValidUUID U operationID
      then Inl (Validation ''node id and operation id must be valid UUIDs'')
      else ebind (replayIfProcessed U s operationID userID ''NODE_RESTORE'') (\<lambda>result.
        case result of
          Some (nodeID', _) \<Rightarrow> Inr (Replayed nodeID')
        | None \<Rightarrow>
            ebind (validateDeviceOwnership s userID deviceID) (\<lambda>_.
            case node_of s nodeID of
              None \<Rightarrow> Inl NodesNotFound
            | Some r \<Rightarrow>
                if n_owner_id r \<noteq> userID then Inl NodesForbidden
                else if n_deleted_at r = None then Inl (Validation ''node is not in trash'')
                else let toRoot = (case n_parent_id r of None \<Rightarrow> False | Some p \<Rightarrow> hasDeletedAncestor s p);
                    (revision, s1) = recordChange now s userID nodeID ''RESTORE'';
                    s2 = set_node nodeID
                      (if toRoot
                       then (\<lambda>n. n\<lparr>n_deleted_at := None, n_parent_id := None, n_revision := revision,
                                  n_updated_at := now\<rparr>)
                       else (\<lambda>n. n\<lparr>n_deleted_at := None, n_revision := revision, n_updated_at := now\<rparr>)) s1 in
                ebind (recordProcessed now s2 operationID userID deviceID ''NODE_RESTORE'' nodeID revision) (\<lambda>s3.
                Inr (Committed nodeID s3)))))"

definition Restore :: "uuid_pkg \<Rightarrow> time \<Rightarrow> db \<Rightarrow> id \<Rightarrow> id \<Rightarrow> id \<Rightarrow> id \<Rightarrow> db \<times> (err + Node)" where
  "Restore U now s userID deviceID nodeID operationID =
     answer s userID (Restore_tx U now s userID deviceID nodeID operationID)"

section \<open>Rekey\<close>

fun rekey_valid :: "uuid_pkg \<Rightarrow> id list \<Rightarrow> RekeyItem list \<Rightarrow> err + unit" where
  "rekey_valid U seen [] = Inr ()"
| "rekey_valid U seen (item # items) =
     (if \<not> ValidUUID U (ri_NodeID item) \<or> ri_NodeID item \<in> set seen \<or> ri_MetadataCiphertext item = []
         \<or> int (length (ri_MetadataCiphertext item)) > 2 ^ 17 \<or> int (length (ri_Versions item)) > maxRekeyVersions
      then Inl (Validation ''rekey items need unique node IDs, encrypted metadata, and a bounded version list'')
      else if \<exists>v\<in>set (ri_Versions item). \<not> ValidUUID U (rv_ID v) \<or> rv_WrappedFileKey v = []
         \<or> int (length (rv_WrappedFileKey v)) > 1024
      then Inl (Validation ''rekeyed file versions need an ID and a wrapped file key'')
      else rekey_valid U (ri_NodeID item # seen) items)"

fun rekey_versions :: "uuid_pkg \<Rightarrow> db \<Rightarrow> id \<Rightarrow> id \<Rightarrow> id \<Rightarrow> RekeyVersion list \<Rightarrow> err + db" where
  "rekey_versions U s ownerID userID nodeID [] = Inr s"
| "rekey_versions U s ownerID userID nodeID (v # vs) =
     ebind (ValidateKeyScope U s ownerID userID [] (rv_KeyScopeID v) (rv_KeyVersion v)) (\<lambda>_.
       if count_rows (\<lambda>f. f_id f = rv_ID v \<and> f_node_id f = nodeID) (file_versions s) \<noteq> 1
       then Inl (Validation ''a rekeyed file version does not belong to its node'')
       else rekey_versions U (s\<lparr>file_versions := upd (\<lambda>f. f_id f = rv_ID v \<and> f_node_id f = nodeID)
           (\<lambda>f. f\<lparr>f_wrapped_file_key := rv_WrappedFileKey v, f_key_scope_id := rv_KeyScopeID v,
                  f_key_version := rv_KeyVersion v\<rparr>) (file_versions s)\<rparr>) ownerID userID nodeID vs)"

definition rekey_item :: "uuid_pkg \<Rightarrow> time \<Rightarrow> db \<Rightarrow> id \<Rightarrow> RekeyItem \<Rightarrow> err + db" where
  "rekey_item U now s userID item =
     ebind (lockNode s (ri_NodeID item)) (\<lambda>current.
       if N_OwnerID current \<noteq> userID then Inl NodesForbidden
       else if N_Revision current \<noteq> ri_ExpectedRevision item then Inl NodesRevisionConflict
       else ebind (ValidateKeyScope U s (N_OwnerID current) userID [] (ri_MetadataKeyScopeID item)
           (ri_MetadataKeyVersion item)) (\<lambda>_.
         ebind (rekey_versions U s (N_OwnerID current) userID (ri_NodeID item) (ri_Versions item)) (\<lambda>s1.
         let (revision, s2) = recordChange now s1 (N_OwnerID current) (ri_NodeID item) ''UPDATE'' in
         Inr (set_node (ri_NodeID item) (\<lambda>n. n\<lparr>n_metadata_ciphertext := ri_MetadataCiphertext item,
           n_metadata_key_version := ri_MetadataKeyVersion item,
           n_metadata_key_scope_id := StoredScope (ri_MetadataKeyScopeID item) (N_OwnerID current),
           n_revision := revision, n_updated_at := now\<rparr>) s2))))"

fun rekey_items :: "uuid_pkg \<Rightarrow> time \<Rightarrow> db \<Rightarrow> id \<Rightarrow> RekeyItem list \<Rightarrow> err + db" where
  "rekey_items U now s userID [] = Inr s"
| "rekey_items U now s userID (item # items) =
     ebind (rekey_item U now s userID item) (\<lambda>s1. rekey_items U now s1 userID items)"

fun get_all :: "db \<Rightarrow> id \<Rightarrow> id list \<Rightarrow> err + Node list" where
  "get_all s userID [] = Inr []"
| "get_all s userID (i # is) =
     ebind (Get s userID i) (\<lambda>n. ebind (get_all s userID is) (\<lambda>ns. Inr (n # ns)))"

definition Rekey_tx :: "uuid_pkg \<Rightarrow> time \<Rightarrow> db \<Rightarrow> RekeyInput \<Rightarrow> err + db" where
  "Rekey_tx U now s inp =
     (if rk_Items inp = [] \<or> int (length (rk_Items inp)) > MaxRekeyItems
      then Inl (Validation ''a rekey batch needs 1 to 200 nodes'')
      else ebind (rekey_valid U [] (rk_Items inp)) (\<lambda>_.
        ebind (validateDeviceOwnership s (rk_UserID inp) (rk_DeviceID inp)) (\<lambda>_.
        rekey_items U now s (rk_UserID inp) (rk_Items inp))))"

definition Rekey :: "uuid_pkg \<Rightarrow> time \<Rightarrow> db \<Rightarrow> RekeyInput \<Rightarrow> db \<times> (err + Node list)" where
  "Rekey U now s inp =
     (case Rekey_tx U now s inp of
        Inl e \<Rightarrow> (s, Inl e)
      | Inr s' \<Rightarrow> (s', get_all s' (rk_UserID inp) (map ri_NodeID (rk_Items inp))))"

end
