(* ===== verification/HB_Invariant.thy ===== *)
theory HB_Invariant
  imports HB_Access
begin

text \<open>
  The well-formedness of the stored vault, over the tables the services share:

  \<^item> \<open>forest\<close> (HB_Schema): unique node IDs, parents are directories of the same owner, no cycle;
  \<^item> \<open>feed_ok\<close>: change revisions increase strictly and never exceed the counter;
  \<^item> \<open>tracked\<close>: a node's revision is the one of its latest change, which its owner's feed shows;
  \<^item> \<open>scopes_disjoint\<close>: no keyed folder lies below another one;
  \<^item> \<open>keys_owned\<close>: a folder's keys belong to the folder's owner, and the folder is a directory;
  \<^item> \<open>shares_ok\<close>: a share is on a keyed node of its owner, is addressed to someone else, and is the
    only active one for its node and recipient; share IDs are unique;
  \<^item> \<open>ids_ok\<close>: the empty string, which the code uses for \<open>none\<close>, names no node and no scope.
\<close>

definition feed_ok :: "db \<Rightarrow> bool" where
  "feed_ok s \<longleftrightarrow> 0 \<le> sync_seq s \<and> sorted_wrt (<) (map c_revision (sync_changes s)) \<and>
     (\<forall>c\<in>set (sync_changes s). 0 < c_revision c \<and> c_revision c \<le> sync_seq s)"

definition tracked :: "db \<Rightarrow> bool" where
  "tracked s \<longleftrightarrow> (\<forall>n\<in>set (nodes s).
     (\<exists>c\<in>set (sync_changes s). c_node_id c = n_id n \<and> c_revision c = n_revision n \<and>
        c_user_scope_id c = n_owner_id n) \<and>
     (\<forall>c\<in>set (sync_changes s). c_node_id c = n_id n \<longrightarrow> c_revision c \<le> n_revision n))"

definition scopes_disjoint :: "db \<Rightarrow> bool" where
  "scopes_disjoint s \<longleftrightarrow> (\<forall>i j. keyed s i \<longrightarrow> keyed s j \<longrightarrow> (i, j) \<notin> (par (nodes s))\<^sup>+)"

definition keys_owned :: "db \<Rightarrow> bool" where
  "keys_owned s \<longleftrightarrow> (\<forall>k\<in>set (folder_keys s). \<forall>n\<in>set (nodes s). n_id n = k_folder_id k \<longrightarrow>
     n_owner_id n = k_owner_user_id k)"

definition shares_ok :: "db \<Rightarrow> bool" where
  "shares_ok s \<longleftrightarrow> distinct (map sh_id (shares s)) \<and> one_share s \<and> (\<forall>sh\<in>set (shares s). sh_target_user_id sh \<noteq> sh_owner_user_id sh \<and>
     keyed s (sh_node_id sh) \<and>
     (\<exists>n\<in>set (nodes s). n_id n = sh_node_id sh \<and> n_owner_id n = sh_owner_user_id sh \<and>
        n_node_type n = ''DIRECTORY''))"

definition ids_ok :: "db \<Rightarrow> bool" where
  "ids_ok s \<longleftrightarrow> [] \<notin> n_id ` set (nodes s) \<and> \<not> keyed s []"

definition vault_inv :: "db \<Rightarrow> bool" where
  "vault_inv s \<longleftrightarrow> forest (nodes s) \<and> feed_ok s \<and> tracked s \<and> scopes_disjoint s \<and> keys_owned s \<and>
     shares_ok s \<and> ids_ok s"

lemma vault_invD:
  assumes "vault_inv s"
  shows "forest (nodes s)" "feed_ok s" "tracked s" "scopes_disjoint s" "keys_owned s" "shares_ok s"
    "ids_ok s" "distinct (map n_id (nodes s))" "parents_ok (nodes s)" "acyclic (par (nodes s))"
    "one_share s" "\<not> keyed s []"
  using assms by (auto simp: vault_inv_def forest_def shares_ok_def ids_ok_def)

lemma vault_inv_empty: "vault_inv empty_db"
  by (simp add: vault_inv_def empty_db_def forest_def parents_ok_def par_def feed_ok_def tracked_def
      scopes_disjoint_def keyed_def keys_owned_def shares_ok_def one_share_def ids_ok_def acyclic_def)

lemma keyed_cong: "folder_keys s' = folder_keys s \<Longrightarrow> keyed s' = keyed s"
  by (simp add: keyed_def fun_eq_iff)

lemma one_share_cong: "shares s' = shares s \<Longrightarrow> one_share s' = one_share s"
  by (simp add: one_share_def)

lemma vault_inv_cong:
  assumes "nodes s' = nodes s" "sync_changes s' = sync_changes s" "sync_seq s' = sync_seq s"
    "shares s' = shares s" "folder_keys s' = folder_keys s"
  shows "vault_inv s' = vault_inv s"
  unfolding vault_inv_def feed_ok_def tracked_def scopes_disjoint_def keyed_def keys_owned_def
    shares_ok_def one_share_def ids_ok_def assms ..

section \<open>Appending to the feed\<close>

lemma feed_ok_append:
  assumes "feed_ok s" "sync_changes s' = sync_changes s @ [c]" "sync_seq s' = sync_seq s + 1"
    "c_revision c = sync_seq s + 1"
  shows "feed_ok s'"
  using assms by (fastforce simp: feed_ok_def sorted_wrt_append)

lemma feed_ok_cong:
  "sync_changes s' = sync_changes s \<Longrightarrow> sync_seq s' = sync_seq s \<Longrightarrow> feed_ok s' = feed_ok s"
  by (simp add: feed_ok_def)

text \<open>One row is stamped with the new revision and a change of that revision is appended.\<close>

lemma tracked_upd:
  assumes "tracked s" "feed_ok s" "sync_changes s' = sync_changes s @ [c]"
    and ns: "nodes s' = upd (\<lambda>n. n_id n = i) f (nodes s)"
    and c: "c_revision c = sync_seq s + 1" "c_node_id c = i"
    and f: "\<And>n. n \<in> set (nodes s) \<Longrightarrow> n_id n = i \<Longrightarrow> n_id (f n) = i \<and> n_revision (f n) = sync_seq s + 1 \<and>
      n_owner_id (f n) = c_user_scope_id c"
  shows "tracked s'"
  unfolding tracked_def
proof
  fix n' assume "n' \<in> set (nodes s')"
  then obtain n where n: "n \<in> set (nodes s)" "n' = (if n_id n = i then f n else n)"
    by (auto simp: ns set_upd)
  show "(\<exists>c\<in>set (sync_changes s'). c_node_id c = n_id n' \<and> c_revision c = n_revision n' \<and>
      c_user_scope_id c = n_owner_id n') \<and>
    (\<forall>c\<in>set (sync_changes s'). c_node_id c = n_id n' \<longrightarrow> c_revision c \<le> n_revision n')"
  proof (cases "n_id n = i")
    case True
    with n f c have n': "n_id n' = i" "n_revision n' = sync_seq s + 1" "n_owner_id n' = c_user_scope_id c"
      by auto
    have "\<forall>x\<in>set (sync_changes s). c_revision x \<le> sync_seq s + 1"
      using assms(2) by (fastforce simp: feed_ok_def)
    with n' c show ?thesis by (simp add: assms(3))
  next
    case False
    with n have "n' = n" by simp
    with False n(1) assms(1) c(2) show ?thesis by (auto simp: tracked_def assms(3))
  qed
qed

lemma tracked_add:
  assumes "tracked s" "feed_ok s" "sync_changes s' = sync_changes s @ [c]"
    and ns: "nodes s' = nodes s @ [m]" and fresh: "n_id m \<notin> n_id ` set (nodes s)"
    and c: "c_revision c = sync_seq s + 1" "c_node_id c = n_id m" "c_user_scope_id c = n_owner_id m"
    and m: "n_revision m = sync_seq s + 1"
  shows "tracked s'"
proof -
  have "\<forall>x\<in>set (sync_changes s). c_revision x \<le> sync_seq s + 1"
    using assms(2) by (fastforce simp: feed_ok_def)
  with assms(1) fresh c m show ?thesis by (auto simp: tracked_def assms(3) ns image_iff)
qed

section \<open>Changing the tree\<close>

text \<open>The scopes stay disjoint when the tree only loses edges, or gains one edge from \<open>i\<close> to \<open>p\<close>
  with no keyed folder below \<open>i\<close> or none above \<open>p\<close>.\<close>

lemma scopes_disjoint_subset:
  assumes "scopes_disjoint s" "par (nodes s') \<subseteq> par (nodes s)" "folder_keys s' = folder_keys s"
  shows "scopes_disjoint s'"
  using assms(1) trancl_mono [OF _ assms(2)]
  unfolding scopes_disjoint_def keyed_cong [OF assms(3)] by blast

lemma scopes_disjoint_insert:
  assumes "scopes_disjoint s" "par (nodes s') \<subseteq> insert (i, p) (par (nodes s))" "folder_keys s' = folder_keys s"
    and edge: "\<And>a b. (a, i) \<in> (par (nodes s))\<^sup>* \<Longrightarrow> (p, b) \<in> (par (nodes s))\<^sup>* \<Longrightarrow> keyed s a \<Longrightarrow> \<not> keyed s b"
  shows "scopes_disjoint s'"
  unfolding scopes_disjoint_def
proof (intro allI impI notI)
  fix a b assume "keyed s' a" "keyed s' b" "(a, b) \<in> (par (nodes s'))\<^sup>+"
  then have k: "keyed s a" "keyed s b" and "(a, b) \<in> (insert (i, p) (par (nodes s)))\<^sup>+"
    using trancl_mono [OF _ assms(2)] by (simp_all add: keyed_cong [OF assms(3)])
  from this(3) consider "(a, b) \<in> (par (nodes s))\<^sup>+" | "(a, i) \<in> (par (nodes s))\<^sup>*" "(p, b) \<in> (par (nodes s))\<^sup>*"
    unfolding trancl_insert by blast
  then show False
  proof cases
    case 1
    with k assms(1) show ?thesis by (auto simp: scopes_disjoint_def)
  next
    case 2
    with edge k show ?thesis by blast
  qed
qed

lemma keys_owned_upd:
  assumes "keys_owned s" "folder_keys s' = folder_keys s" "nodes s' = upd p f (nodes s)"
    and "\<And>n. n \<in> set (nodes s) \<Longrightarrow> p n \<Longrightarrow> n_id (f n) = n_id n \<and> n_owner_id (f n) = n_owner_id n"
  shows "keys_owned s'"
  using assms by (auto simp: keys_owned_def set_upd)

lemma shares_ok_upd:
  assumes "shares_ok s" "shares s' = shares s" "folder_keys s' = folder_keys s" "nodes s' = upd p f (nodes s)"
    and "\<And>n. n \<in> set (nodes s) \<Longrightarrow> p n \<Longrightarrow> n_id (f n) = n_id n \<and> n_owner_id (f n) = n_owner_id n \<and>
      n_node_type (f n) = n_node_type n"
  shows "shares_ok s'"
proof -
  have "\<exists>n\<in>set (nodes s'). n_id n = i \<and> n_owner_id n = u \<and> n_node_type n = ''DIRECTORY''"
    if "\<exists>n\<in>set (nodes s). n_id n = i \<and> n_owner_id n = u \<and> n_node_type n = ''DIRECTORY''" for i u
  proof -
    from that obtain n where "n \<in> set (nodes s)" "n_id n = i" "n_owner_id n = u" "n_node_type n = ''DIRECTORY''"
      by blast
    then show ?thesis using assms(5) [of n]
      by (intro bexI [of _ "if p n then f n else n"]) (auto simp: assms(4) set_upd)
  qed
  note found = this
  show ?thesis
    unfolding shares_ok_def one_share_cong [OF assms(2)] keyed_cong [OF assms(3)] assms(2)
  proof (intro conjI ballI)
    fix sh assume "sh \<in> set (shares s)"
    with assms(1) show "sh_target_user_id sh \<noteq> sh_owner_user_id sh" "keyed s (sh_node_id sh)"
      "\<exists>n\<in>set (nodes s'). n_id n = sh_node_id sh \<and> n_owner_id n = sh_owner_user_id sh \<and>
        n_node_type n = ''DIRECTORY''"
      by (simp_all add: shares_ok_def found)
  qed (use assms(1) in \<open>simp_all add: shares_ok_def\<close>)
qed

lemma ids_ok_upd:
  assumes "ids_ok s" "folder_keys s' = folder_keys s" "nodes s' = upd p f (nodes s)"
    and "\<And>n. n \<in> set (nodes s) \<Longrightarrow> p n \<Longrightarrow> n_id (f n) = n_id n"
  shows "ids_ok s'"
proof -
  have "map n_id (nodes s') = map n_id (nodes s)"
    using assms(4) by (simp add: assms(3) upd_def)
  then have "n_id ` set (nodes s') = n_id ` set (nodes s)" by (metis list.set_map)
  with assms(1) show ?thesis by (simp add: ids_ok_def keyed_cong [OF assms(2)])
qed

text \<open>Where an account holds no folder keys, none of its nodes is keyed.\<close>

lemma keyed_owner:
  assumes "keys_owned s" "keyed s (n_id n)" "n \<in> set (nodes s)"
  shows "\<exists>k\<in>set (folder_keys s). k_owner_user_id k = n_owner_id n"
proof -
  from assms(2) obtain k where k: "k \<in> set (folder_keys s)" "k_folder_id k = n_id n"
    unfolding keyed_def by blast
  have "k_owner_user_id k = n_owner_id n"
    by (rule assms(1) [unfolded keys_owned_def, rule_format, OF k(1) assms(3) k(2) [symmetric], symmetric])
  with k(1) show ?thesis by blast
qed

text \<open>With disjoint scopes, at most one folder on the way up from a node is keyed; so a node is
  reached through at most one share per recipient.\<close>

lemma one_keyed_above:
  assumes "vault_inv s" "(i, a) \<in> (par (nodes s))\<^sup>*" "(i, b) \<in> (par (nodes s))\<^sup>*" "keyed s a" "keyed s b"
  shows "a = b"
proof -
  have linear: "(a, b) \<in> (par (nodes s))\<^sup>* \<or> (b, a) \<in> (par (nodes s))\<^sup>*"
    using assms(2,3)
  proof (induction rule: rtrancl_induct)
    case (step y z)
    show ?case
    proof (cases "(y, b) \<in> (par (nodes s))\<^sup>*")
      case True
      then show ?thesis
      proof (cases rule: converse_rtranclE)
        case base
        with step.hyps(2) show ?thesis by auto
      next
        case (step y')
        with \<open>(y, z) \<in> par (nodes s)\<close> par_functional [OF vault_invD(8) [OF assms(1)]] show ?thesis by blast
      qed
    next
      case False
      with step show ?thesis by (meson rtrancl.rtrancl_into_rtrancl)
    qed
  qed auto
  then show ?thesis
    using assms(4,5) vault_invD(4) [OF assms(1)] by (auto simp: scopes_disjoint_def rtrancl_eq_or_trancl)
qed

end
