(* ===== verification/HB_Nodes_Inv.thy ===== *)
theory HB_Nodes_Inv
  imports HB_Nodes HB_Invariant
begin

text \<open>
  What the node operations keep true. Every successful mutation has one shape, \<open>commits\<close>: a new
  node table, one change appended to the feed, one operation recorded. The four inversion lemmas
  \<open>..._committed\<close> give that shape with the conditions under which the code reaches it; the
  invariants are then shown once for each kind of table change.
\<close>

section \<open>The shape of a commit\<close>

definition change_of :: "time \<Rightarrow> db \<Rightarrow> id \<Rightarrow> id \<Rightarrow> string \<Rightarrow> change_row" where
  "change_of now s owner node operation =
     \<lparr>c_revision = sync_seq s + 1, c_user_scope_id = owner, c_node_id = node,
      c_operation = operation, c_payload = [], c_created_at = now\<rparr>"

definition operation_of :: "time \<Rightarrow> db \<Rightarrow> id \<Rightarrow> id \<Rightarrow> id \<Rightarrow> string \<Rightarrow> id \<Rightarrow> operation_row" where
  "operation_of now s op user device kind node =
     \<lparr>o_operation_id = op, o_user_id = user, o_device_id = device, o_operation_type = kind,
      o_result_payload = node @ CHR '':'' # FormatInt (sync_seq s + 1),
      o_created_at = now, o_expires_at = now + operation_ttl\<rparr>"

definition commits :: "db \<Rightarrow> node_row list \<Rightarrow> change_row \<Rightarrow> operation_row \<Rightarrow> db" where
  "commits s ns c r = s\<lparr>nodes := ns, sync_changes := sync_changes s @ [c],
     sync_seq := sync_seq s + 1, processed_operations := processed_operations s @ [r]\<rparr>"

lemma commits_simps [simp]:
  "nodes (commits s ns c r) = ns"
  "sync_changes (commits s ns c r) = sync_changes s @ [c]"
  "sync_seq (commits s ns c r) = sync_seq s + 1"
  "processed_operations (commits s ns c r) = processed_operations s @ [r]"
  "shares (commits s ns c r) = shares s"
  "folder_keys (commits s ns c r) = folder_keys s"
  "file_versions (commits s ns c r) = file_versions s"
  "devices (commits s ns c r) = devices s"
  by (simp_all add: commits_def)

lemma change_of_simps [simp]:
  "c_revision (change_of now s u i op) = sync_seq s + 1"
  "c_user_scope_id (change_of now s u i op) = u"
  "c_node_id (change_of now s u i op) = i"
  "c_operation (change_of now s u i op) = op"
  by (simp_all add: change_of_def)

lemma answer_simps [simp]:
  "answer s u (Inl e) = (s, Inl e)"
  "answer s u (Inr (Replayed i)) = (s, Get s u i)"
  "answer s u (Inr (Committed i s')) = (s', Get s' u i)"
  by (simp_all add: answer_def)

lemma scanNode_simps [simp]:
  "N_ID (scanNode r) = n_id r" "N_OwnerID (scanNode r) = n_owner_id r"
  "N_ParentID (scanNode r) = n_parent_id r" "N_NodeType (scanNode r) = n_node_type r"
  "N_Revision (scanNode r) = n_revision r" "N_CreatedAt (scanNode r) = n_created_at r"
  "N_DeletedAt (scanNode r) = n_deleted_at r"
  "N_MetadataCiphertext (scanNode r) = n_metadata_ciphertext r"
  "N_CurrentVersionID (scanNode r) = n_current_version_id r"
  "IsDeleted (scanNode r) \<longleftrightarrow> n_deleted_at r \<noteq> None"
  by (simp_all add: scanNode_def IsDeleted_def)

lemma if_Inl_eq [simp]: "(if b then Inl e else r) = Inr x \<longleftrightarrow> \<not> b \<and> r = Inr x"
  by simp

lemma if_checked: "(if b then r else Inr ()) = Inr () \<longleftrightarrow> (b \<longrightarrow> r = Inr ())"
  by simp

lemma recordProcessed_Inr [simp]:
  "recordProcessed now s op u d kind i v = Inr s' \<longleftrightarrow>
   (\<forall>r\<in>set (processed_operations s). o_operation_id r \<noteq> op) \<and>
   s' = s\<lparr>processed_operations := processed_operations s @
        [\<lparr>o_operation_id = op, o_user_id = u, o_device_id = d, o_operation_type = kind,
          o_result_payload = i @ CHR '':'' # FormatInt v, o_created_at = now,
          o_expires_at = now + operation_ttl\<rparr>]\<rparr>"
  by (auto simp: recordProcessed_def)

lemma insertNode_Inr [simp]:
  "insertNode s n = Inr s' \<longleftrightarrow> n_id n \<notin> n_id ` set (nodes s) \<and> s' = s\<lparr>nodes := nodes s @ [n]\<rparr>"
  by (auto simp: insertNode_def)

lemma lockNode_Inr [simp]:
  "lockNode s i = Inr n \<longleftrightarrow> (\<exists>r. node_of s i = Some r \<and> n = scanNode r)"
  by (auto simp: lockNode_def split: option.splits)

text \<open>A new operation ID is one the table does not hold.\<close>

lemma replay_None [simp]:
  "replayIfProcessed U s op u kind = Inr None \<longleftrightarrow> (\<forall>r\<in>set (processed_operations s). o_operation_id r \<noteq> op)"
  by (auto simp: replayIfProcessed_def find_None_iff split: option.splits dest!: find_key_set)

text \<open>Only a new operation commits.\<close>

lemma replay_case:
  "(case result of Some (node, _) \<Rightarrow> Inr (Replayed node) | None \<Rightarrow> x) = Inr (Committed i s') \<longleftrightarrow>
   result = None \<and> x = Inr (Committed i s')"
  by (cases result) auto

definition created_row :: "time \<Rightarrow> db \<Rightarrow> CreateInput \<Rightarrow> id \<Rightarrow> id \<Rightarrow> node_row" where
  "created_row now s inp owner scope =
     \<lparr>n_id = ci_ID inp, n_owner_id = owner, n_parent_id = ci_ParentID inp,
      n_node_type = ci_NodeType inp, n_metadata_ciphertext = ci_MetadataCiphertext inp,
      n_metadata_key_version = ci_MetadataKeyVersion inp,
      n_metadata_key_scope_id = StoredScope scope owner, n_current_version_id = None,
      n_revision = sync_seq s + 1, n_created_at = now, n_updated_at = now, n_deleted_at = None\<rparr>"

lemma Create_committed:
  assumes "Create_tx U now s inp = Inr (Committed i s')"
  obtains owner root scope where
    "i = ci_ID inp" "ValidUUID U (ci_ID inp)" "createOwner s inp = Inr (owner, root)"
    "scope = (if ci_MetadataKeyScopeID inp = [] then owner else ci_MetadataKeyScopeID inp)"
    "ValidateKeyScope U s owner (ci_OwnerID inp) root scope (ci_MetadataKeyVersion inp) = Inr ()"
    "validateDeviceOwnership s (ci_OwnerID inp) (ci_DeviceID inp) = Inr ()"
    "\<forall>r\<in>set (processed_operations s). o_operation_id r \<noteq> ci_OperationID inp"
    "ci_ID inp \<notin> n_id ` set (nodes s)"
    "s' = commits s (nodes s @ [created_row now s inp owner scope])
       (change_of now s owner (ci_ID inp) ''CREATE'')
       (operation_of now s (ci_OperationID inp) (ci_OwnerID inp) (ci_DeviceID inp) ''NODE_CREATE'' (ci_ID inp))"
  using assms
  apply (clarsimp simp: Create_tx_def replay_case recordChange_def Let_def)
  apply (rule that)
  apply (assumption | rule refl | simp add: commits_def change_of_def operation_of_def created_row_def set_node_def)+
  done

lemma Update_committed:
  assumes "Update_tx U now s inp = Inr (Committed i s')"
  obtains r root scope where
    "i = ui_NodeID inp" "ValidUUID U (ui_NodeID inp)" "node_of s (ui_NodeID inp) = Some r"
    "authorizeWrite s (ui_UserID inp) (scanNode r) = Inr root"
    "n_revision r = ui_ExpectedRevision inp"
    "ui_MoveParent inp \<longrightarrow> validateMove s (ui_UserID inp) (scanNode r) root (ui_ParentID inp) = Inr ()"
    "ui_MetadataCiphertext inp \<noteq> [] \<or> ui_MoveParent inp"
    "scope = (if ui_MetadataKeyScopeID inp = [] then n_owner_id r else ui_MetadataKeyScopeID inp)"
    "ui_MetadataCiphertext inp \<noteq> [] \<longrightarrow> ValidateKeyScope U s (n_owner_id r) (ui_UserID inp) root scope
       (ui_MetadataKeyVersion inp) = Inr ()"
    "validateDeviceOwnership s (ui_UserID inp) (ui_DeviceID inp) = Inr ()"
    "\<forall>r\<in>set (processed_operations s). o_operation_id r \<noteq> ui_OperationID inp"
    "s' = commits s (upd (\<lambda>n. n_id n = ui_NodeID inp)
         (update_row inp (StoredScope scope (n_owner_id r)) (sync_seq s + 1) now) (nodes s))
       (change_of now s (n_owner_id r) (ui_NodeID inp) ''UPDATE'')
       (operation_of now s (ui_OperationID inp) (ui_UserID inp) (ui_DeviceID inp) ''NODE_UPDATE'' (ui_NodeID inp))"
  using assms
  apply (clarsimp simp: Update_tx_def replay_case if_checked recordChange_def Let_def cong del: if_weak_cong)
  apply (rule that)
  apply (assumption | rule refl | simp add: commits_def change_of_def operation_of_def created_row_def set_node_def)+
  done

lemma Delete_committed:
  assumes "Delete_tx U now s u d i op v = Inr (Committed i' s')"
  obtains r root where
    "i' = i" "ValidUUID U i" "node_of s i = Some r" "authorizeWrite s u (scanNode r) = Inr root"
    "n_revision r = v" "validateDeviceOwnership s u d = Inr ()"
    "\<forall>r\<in>set (processed_operations s). o_operation_id r \<noteq> op"
    "s' = commits s (upd (\<lambda>n. n_id n = i)
         (\<lambda>n. n\<lparr>n_deleted_at := Some now, n_revision := sync_seq s + 1, n_updated_at := now\<rparr>) (nodes s))
       (change_of now s (n_owner_id r) i ''DELETE'') (operation_of now s op u d ''NODE_DELETE'' i)"
  using assms
  apply (clarsimp simp: Delete_tx_def replay_case recordChange_def Let_def)
  apply (rule that)
  apply (assumption | rule refl | simp add: commits_def change_of_def operation_of_def created_row_def set_node_def)+
  done

definition restores_to_root :: "db \<Rightarrow> node_row \<Rightarrow> bool" where
  "restores_to_root s r = (case n_parent_id r of None \<Rightarrow> False | Some p \<Rightarrow> hasDeletedAncestor s p)"

definition restored_row :: "bool \<Rightarrow> int \<Rightarrow> time \<Rightarrow> node_row \<Rightarrow> node_row" where
  "restored_row root v now n =
     (if root then n\<lparr>n_deleted_at := None, n_parent_id := None, n_revision := v, n_updated_at := now\<rparr>
      else n\<lparr>n_deleted_at := None, n_revision := v, n_updated_at := now\<rparr>)"

lemma Restore_committed:
  assumes "Restore_tx U now s u d i op = Inr (Committed i' s')"
  obtains r where
    "i' = i" "ValidUUID U i" "node_of s i = Some r" "n_owner_id r = u" "n_deleted_at r \<noteq> None"
    "validateDeviceOwnership s u d = Inr ()"
    "\<forall>r\<in>set (processed_operations s). o_operation_id r \<noteq> op"
    "s' = commits s (upd (\<lambda>n. n_id n = i)
         (restored_row (restores_to_root s r) (sync_seq s + 1) now) (nodes s))
       (change_of now s u i ''RESTORE'') (operation_of now s op u d ''NODE_RESTORE'' i)"
  using assms
  apply (clarsimp simp: Restore_tx_def replay_case recordChange_def Let_def split: option.split_asm cong del: if_weak_cong)
  apply (rule that)
  apply (assumption | rule refl | simp add: commits_def change_of_def operation_of_def set_node_def
      restored_row_def [abs_def] restores_to_root_def)+
  done

section \<open>The invariant\<close>

text \<open>\<open>stamps s c i u\<close>: \<open>c\<close> is a change of node \<open>i\<close> with the next revision, in the feed of \<open>u\<close>.\<close>

definition stamps :: "db \<Rightarrow> change_row \<Rightarrow> id \<Rightarrow> id \<Rightarrow> bool" where
  "stamps s c i u \<longleftrightarrow> c_revision c = sync_seq s + 1 \<and> c_node_id c = i \<and> c_user_scope_id c = u"

lemma stamps_change_of [simp]: "stamps s (change_of now s u i op) i u"
  by (simp add: stamps_def)

lemma commits_upd_inv:
  assumes inv: "vault_inv s" and r: "node_of s i = Some r" and c: "stamps s c i (n_owner_id r)"
    and f: "\<And>n. n_id n = i \<Longrightarrow> n_id (f n) = i \<and> n_owner_id (f n) = n_owner_id n \<and>
      n_node_type (f n) = n_node_type n \<and> n_revision (f n) = sync_seq s + 1"
    and forest: "forest (upd (\<lambda>n. n_id n = i) f (nodes s))"
    and scopes: "scopes_disjoint (commits s (upd (\<lambda>n. n_id n = i) f (nodes s)) c q)"
  shows "vault_inv (commits s (upd (\<lambda>n. n_id n = i) f (nodes s)) c q)"
    (is "vault_inv ?s")
proof -
  note D = vault_invD [OF inv]
  have one: "n = r" if "n \<in> set (nodes s)" "n_id n = i" for n
    using distinct_map_eq [OF D(8) that(1)] node_of_Some [OF r] that(2) by simp
  have "feed_ok ?s" by (rule feed_ok_append [OF D(2) commits_simps(2)]) (use c in \<open>simp_all add: stamps_def\<close>)
  moreover have "tracked ?s"
    by (rule tracked_upd [OF D(3,2), where i = i and f = f and c = c])
      (use f one c in \<open>auto simp: stamps_def\<close>)
  moreover have "keys_owned ?s" by (rule keys_owned_upd [OF D(5), where p = "\<lambda>n. n_id n = i" and f = f]) (use f in auto)
  moreover have "shares_ok ?s" by (rule shares_ok_upd [OF D(6), where p = "\<lambda>n. n_id n = i" and f = f]) (use f in auto)
  moreover have "ids_ok ?s" by (rule ids_ok_upd [OF D(7), where p = "\<lambda>n. n_id n = i" and f = f]) (use f in auto)
  ultimately show ?thesis using forest scopes by (simp add: vault_inv_def)
qed

lemma commits_keep_inv:
  assumes inv: "vault_inv s" and r: "node_of s i = Some r" and c: "stamps s c i (n_owner_id r)"
    and f: "\<And>n. n_id n = i \<Longrightarrow> n_id (f n) = i \<and> n_owner_id (f n) = n_owner_id n \<and>
      n_node_type (f n) = n_node_type n \<and> n_parent_id (f n) = n_parent_id n \<and> n_revision (f n) = sync_seq s + 1"
  shows "vault_inv (commits s (upd (\<lambda>n. n_id n = i) f (nodes s)) c q)"
proof (rule commits_upd_inv [OF inv r c])
  show "forest (upd (\<lambda>n. n_id n = i) f (nodes s))"
    using f by (intro forest_upd_same [OF vault_invD(1) [OF inv]]) auto
  have "par (upd (\<lambda>n. n_id n = i) f (nodes s)) = par (nodes s)"
    using f by (intro par_upd_same) auto
  then show "scopes_disjoint (commits s (upd (\<lambda>n. n_id n = i) f (nodes s)) c q)"
    by (intro scopes_disjoint_subset [OF vault_invD(4) [OF inv]]) auto
qed (use f in auto)

lemma commits_add_inv:
  assumes inv: "vault_inv s" and fresh: "n_id m \<notin> n_id ` set (nodes s)" and new: "\<not> keyed s (n_id m)"
    and id: "n_id m \<noteq> []" and rev: "n_revision m = sync_seq s + 1"
    and parent: "\<And>p. n_parent_id m = Some p \<Longrightarrow>
      \<exists>d\<in>set (nodes s). n_id d = p \<and> n_node_type d = ''DIRECTORY'' \<and> n_owner_id d = n_owner_id m"
  shows "vault_inv (commits s (nodes s @ [m]) (change_of now s (n_owner_id m) (n_id m) op) q)"
    (is "vault_inv ?s")
proof -
  note D = vault_invD [OF inv]
  have keyed: "keyed ?s = keyed s" by (rule keyed_cong) simp
  have "forest (nodes ?s)" using forest_add_leaf [OF D(1) fresh parent] by simp
  moreover have "feed_ok ?s" by (rule feed_ok_append [OF D(2) commits_simps(2)]) simp_all
  moreover have "tracked ?s"
    by (rule tracked_add [OF D(3,2), where m = m and c = "change_of now s (n_owner_id m) (n_id m) op"]) (use fresh rev in auto)
  moreover have "scopes_disjoint ?s"
  proof (cases "n_parent_id m")
    case None
    then show ?thesis by (intro scopes_disjoint_subset [OF D(4)]) (auto simp: par_add_leaf)
  next
    case (Some p)
    have "a = n_id m" if "(a, n_id m) \<in> (par (nodes s))\<^sup>*" for a
      using that fresh by (cases rule: rtranclE) (auto dest!: par_range [OF D(9)])
    with new Some show ?thesis
      by (intro scopes_disjoint_insert [OF D(4), where i = "n_id m" and p = p]) (auto simp: par_add_leaf)
  qed
  moreover have "keys_owned ?s" using D(5) new by (auto simp: keys_owned_def keyed_def)
  moreover have "shares_ok ?s" using D(6) by (fastforce simp: shares_ok_def one_share_def keyed)
  moreover have "ids_ok ?s" using D(7) id by (auto simp: ids_ok_def keyed)
  ultimately show ?thesis by (simp add: vault_inv_def)
qed

text \<open>\<open>forbidCycle\<close> succeeds only when the moved node is not above the new parent.\<close>

lemma forbidCycle_loop_sound:
  assumes "distinct (map n_id (nodes s))"
  shows "forbidCycle_loop k s m c = Inr () \<Longrightarrow> (c, m) \<notin> (par (nodes s))\<^sup>*"
proof (induction k arbitrary: c)
  case (Suc k)
  then have "c \<noteq> m" by auto
  show ?case
  proof
    assume "(c, m) \<in> (par (nodes s))\<^sup>*"
    with \<open>c \<noteq> m\<close> obtain q where q: "(c, q) \<in> par (nodes s)" "(q, m) \<in> (par (nodes s))\<^sup>*"
      by (auto elim: converse_rtranclE)
    then obtain r where "node_of s c = Some r" "n_parent_id r = Some q"
      using assms by (auto simp: par_def node_of_iff)
    with Suc.prems \<open>c \<noteq> m\<close> have "forbidCycle_loop k s m q = Inr ()" by simp
    from Suc.IH [OF this] q(2) show False by blast
  qed
qed simp

lemma directoryOwner_Inr:
  "directoryOwner s p = Inr u \<longleftrightarrow>
   (\<exists>r. node_of s p = Some r \<and> n_node_type r = ''DIRECTORY'' \<and> n_deleted_at r = None \<and> n_owner_id r = u)"
  by (auto simp: directoryOwner_def split: option.splits)

lemma validateMove_Some:
  assumes "validateMove s u n root (Some p) = Inr ()"
  shows "p \<noteq> N_ID n" "directoryOwner s p = Inr (N_OwnerID n)" "forbidCycle s (N_ID n) p = Inr ()"
    "root \<noteq> [] \<Longrightarrow> \<exists>g. ShareGrant s u p = Inr (Some g) \<and> RootID g = root \<and> CanWrite g"
    "(\<exists>k\<in>set (folder_keys s). k_owner_user_id k = N_OwnerID n) \<Longrightarrow> SubtreeHasKeyedFolder s (N_ID n) \<Longrightarrow>
     NearestKeyedFolder s p = Inr []"
  using assms unfolding validateMove_def
  by (auto split: if_split_asm option.split_asm simp del: if_Inl_eq)

section \<open>Every mutation keeps the invariant\<close>

text \<open>What the code relies on of the uuid package: canonical IDs are accepted again, are not empty,
  and hold neither a colon (the separator of a recorded result) nor a slash (the separator of a path).\<close>

definition uuid_laws :: "uuid_pkg \<Rightarrow> bool" where
  "uuid_laws U \<longleftrightarrow> (\<forall>v. ValidUUID U v \<longrightarrow> v \<noteq> [] \<and> CHR '':'' \<notin> set v \<and> CHR ''/'' \<notin> set v \<and> uuid_Validate U v)"

lemma createOwner_parent:
  assumes "createOwner s inp = Inr (owner, root)" "ci_ParentID inp = Some p"
  shows "\<exists>d\<in>set (nodes s). n_id d = p \<and> n_node_type d = ''DIRECTORY'' \<and> n_owner_id d = owner \<and> n_deleted_at d = None"
  using assms node_of_Some
  by (fastforce simp: createOwner_def directoryOwner_Inr simp del: if_Inl_eq split: if_split_asm option.split_asm)

lemma Create_inv:
  assumes inv: "vault_inv s" and U: "uuid_laws U" and c: "Create_tx U now s inp = Inr (Committed i s')"
    and new: "\<not> keyed s (ci_ID inp)"
  shows "vault_inv s'"
proof -
  from c obtain owner root scope where id: "ValidUUID U (ci_ID inp)" and own: "createOwner s inp = Inr (owner, root)"
    and fresh: "ci_ID inp \<notin> n_id ` set (nodes s)"
    and s': "s' = commits s (nodes s @ [created_row now s inp owner scope])
       (change_of now s owner (ci_ID inp) ''CREATE'')
       (operation_of now s (ci_OperationID inp) (ci_OwnerID inp) (ci_DeviceID inp) ''NODE_CREATE'' (ci_ID inp))"
    by (rule Create_committed)
  let ?m = "created_row now s inp owner scope"
  have m: "n_id ?m = ci_ID inp" "n_owner_id ?m = owner" "n_revision ?m = sync_seq s + 1"
    "n_parent_id ?m = ci_ParentID inp" by (simp_all add: created_row_def)
  have "vault_inv (commits s (nodes s @ [?m]) (change_of now s (n_owner_id ?m) (n_id ?m) ''CREATE'')
       (operation_of now s (ci_OperationID inp) (ci_OwnerID inp) (ci_DeviceID inp) ''NODE_CREATE'' (ci_ID inp)))"
  proof (rule commits_add_inv [OF inv])
    show "n_id ?m \<noteq> []" using id U by (simp add: m uuid_laws_def)
    fix p assume "n_parent_id ?m = Some p"
    with createOwner_parent [OF own] show "\<exists>d\<in>set (nodes s). n_id d = p \<and> n_node_type d = ''DIRECTORY'' \<and>
      n_owner_id d = n_owner_id ?m" by (auto simp: m)
  qed (use fresh new in \<open>simp_all add: m\<close>)
  then show ?thesis by (simp add: s' m)
qed

lemma update_row_simps [simp]:
  "n_id (update_row inp scope v now n) = n_id n"
  "n_owner_id (update_row inp scope v now n) = n_owner_id n"
  "n_node_type (update_row inp scope v now n) = n_node_type n"
  "n_revision (update_row inp scope v now n) = v"
  "n_deleted_at (update_row inp scope v now n) = n_deleted_at n"
  "n_created_at (update_row inp scope v now n) = n_created_at n"
  "n_current_version_id (update_row inp scope v now n) = n_current_version_id n"
  by (simp_all add: update_row_def)

lemma update_row_parent:
  "ui_MetadataCiphertext inp \<noteq> [] \<or> ui_MoveParent inp \<Longrightarrow>
   n_parent_id (update_row inp scope v now n) = (if ui_MoveParent inp then ui_ParentID inp else n_parent_id n)"
  by (simp add: update_row_def)

text \<open>A validated move: the new parent is a live directory of the same owner outside the moved
  subtree, and no two keyed folders end up above one another.\<close>

lemma validateMove_sound:
  assumes inv: "vault_inv s" and r: "node_of s i = Some r"
    and ok: "validateMove s u (scanNode r) root (Some p) = Inr ()"
  shows "(p, i) \<notin> (par (nodes s))\<^sup>*"
    and "\<exists>d\<in>set (nodes s). n_id d = p \<and> n_node_type d = ''DIRECTORY'' \<and> n_owner_id d = n_owner_id r \<and> n_deleted_at d = None"
    and "(a, i) \<in> (par (nodes s))\<^sup>* \<Longrightarrow> (p, b) \<in> (par (nodes s))\<^sup>* \<Longrightarrow> keyed s a \<Longrightarrow> \<not> keyed s b"
proof -
  note D = vault_invD [OF inv]
  note mv = validateMove_Some [OF ok]
  from node_of_Some [OF r] have i: "r \<in> set (nodes s)" "n_id r = i" by simp_all
  then show acyc: "(p, i) \<notin> (par (nodes s))\<^sup>*"
    using mv(3) forbidCycle_loop_sound [OF D(8)] by (auto simp: forbidCycle_def)
  from mv(2) show dir: "\<exists>d\<in>set (nodes s). n_id d = p \<and> n_node_type d = ''DIRECTORY'' \<and>
      n_owner_id d = n_owner_id r \<and> n_deleted_at d = None"
    by (auto simp: directoryOwner_Inr dest!: node_of_Some)
  assume ab: "(a, i) \<in> (par (nodes s))\<^sup>*" "(p, b) \<in> (par (nodes s))\<^sup>*" and ka: "keyed s a"
  have "a \<in> n_id ` set (nodes s)"
    using ab(1) i by (cases rule: converse_rtranclE) (auto dest: par_domain)
  then obtain m where m: "m \<in> set (nodes s)" "n_id m = a" by blast
  have "SubtreeHasKeyedFolder s i"
    using SubtreeHasKeyedFolder_iff [OF D(8), of i] i m ab(1) ka by blast
  moreover have "n_owner_id r = n_owner_id m"
    by (rule forest_same_owner [OF D(1) ab(1) m i])
  moreover have "\<exists>k\<in>set (folder_keys s). k_owner_user_id k = n_owner_id m"
    by (rule keyed_owner [OF D(5) _ m(1)]) (simp add: m ka)
  ultimately have near: "NearestKeyedFolder s p = Inr []" using mv(5) i by simp
  have "b \<in> n_id ` set (nodes s)"
    using dir by (auto intro: par_rtrancl_range [OF ab(2) D(9)])
  then show "\<not> keyed s b" by (rule NearestKeyedFolder_none [OF D(1,12) near _ ab(2)])
qed

lemma Update_inv:
  assumes inv: "vault_inv s" and c: "Update_tx U now s inp = Inr (Committed i s')"
  shows "vault_inv s'"
proof -
  from c obtain r root scope where r: "node_of s (ui_NodeID inp) = Some r"
    and mv: "ui_MoveParent inp \<longrightarrow> validateMove s (ui_UserID inp) (scanNode r) root (ui_ParentID inp) = Inr ()"
    and some: "ui_MetadataCiphertext inp \<noteq> [] \<or> ui_MoveParent inp"
    and s': "s' = commits s (upd (\<lambda>n. n_id n = ui_NodeID inp)
         (update_row inp (StoredScope scope (n_owner_id r)) (sync_seq s + 1) now) (nodes s))
       (change_of now s (n_owner_id r) (ui_NodeID inp) ''UPDATE'')
       (operation_of now s (ui_OperationID inp) (ui_UserID inp) (ui_DeviceID inp) ''NODE_UPDATE'' (ui_NodeID inp))"
    by (rule Update_committed)
  note D = vault_invD [OF inv]
  from node_of_Some [OF r] have i: "r \<in> set (nodes s)" "n_id r = ui_NodeID inp" by simp_all
  let ?f = "update_row inp (StoredScope scope (n_owner_id r)) (sync_seq s + 1) now"
  let ?ns = "upd (\<lambda>n. n_id n = ui_NodeID inp) ?f (nodes s)"
  show ?thesis
  proof (cases "ui_MoveParent inp")
    case False
    then show ?thesis unfolding s'
      by (intro commits_keep_inv [OF inv r stamps_change_of]) (simp add: update_row_parent [OF some])
  next
    case True
    have parent: "n_parent_id (?f n) = ui_ParentID inp" for n
      using True by (simp add: update_row_parent [OF some])
    have edges: "par ?ns \<subseteq> {(a, b) \<in> par (nodes s). a \<noteq> ui_NodeID inp} \<union> {(ui_NodeID inp, p) | p. ui_ParentID inp = Some p}"
      by (rule par_move) (simp add: parent)
    have one: "n = r" if "n \<in> set (nodes s)" "n_id n = ui_NodeID inp" for n
      using distinct_map_eq [OF D(8) that(1) i(1)] that(2) i(2) by simp
    have "forest ?ns"
    proof (rule forest_move [OF D(1), where q = "ui_ParentID inp"])
      fix p assume "ui_ParentID inp = Some p"
      with mv True have ok: "validateMove s (ui_UserID inp) (scanNode r) root (Some p) = Inr ()" by simp
      from validateMove_sound(1,2) [OF inv r ok] one
      show "(p, ui_NodeID inp) \<notin> (par (nodes s))\<^sup>* \<and> (\<forall>n\<in>set (nodes s). n_id n = ui_NodeID inp \<longrightarrow>
        (\<exists>d\<in>set (nodes s). n_id d = p \<and> n_node_type d = ''DIRECTORY'' \<and> n_owner_id d = n_owner_id n))" by blast
    qed (simp add: parent)
    moreover have "scopes_disjoint s'"
    proof (cases "ui_ParentID inp")
      case None
      with edges show ?thesis unfolding s' by (intro scopes_disjoint_subset [OF D(4)]) auto
    next
      case (Some p)
      with mv True have ok: "validateMove s (ui_UserID inp) (scanNode r) root (Some p) = Inr ()" by simp
      from edges Some have sub: "par ?ns \<subseteq> insert (ui_NodeID inp, p) (par (nodes s))" by auto
      show ?thesis
        by (rule scopes_disjoint_insert [OF D(4), where i = "ui_NodeID inp" and p = p])
          (use sub validateMove_sound(3) [OF inv r ok] in \<open>simp_all add: s'\<close>)
    qed
    ultimately show ?thesis unfolding s' by (intro commits_upd_inv [OF inv r stamps_change_of]) simp_all
  qed
qed

lemma Delete_inv:
  assumes inv: "vault_inv s" and c: "Delete_tx U now s u d i op v = Inr (Committed i' s')"
  shows "vault_inv s'"
  using c by (rule Delete_committed) (auto intro!: commits_keep_inv [OF inv])

lemma restored_row_simps [simp]:
  "n_id (restored_row b v now n) = n_id n"
  "n_owner_id (restored_row b v now n) = n_owner_id n"
  "n_node_type (restored_row b v now n) = n_node_type n"
  "n_revision (restored_row b v now n) = v"
  "n_deleted_at (restored_row b v now n) = None"
  "n_parent_id (restored_row b v now n) = (if b then None else n_parent_id n)"
  by (simp_all add: restored_row_def)

lemma Restore_inv:
  assumes inv: "vault_inv s" and c: "Restore_tx U now s u d i op = Inr (Committed i' s')"
  shows "vault_inv s'"
proof -
  note D = vault_invD [OF inv]
  from c obtain r where r: "node_of s i = Some r" and u: "n_owner_id r = u" and
    s': "s' = commits s (upd (\<lambda>n. n_id n = i) (restored_row (restores_to_root s r) (sync_seq s + 1) now) (nodes s))
       (change_of now s u i ''RESTORE'') (operation_of now s op u d ''NODE_RESTORE'' i)"
    by (rule Restore_committed)
  let ?ns = "upd (\<lambda>n. n_id n = i) (restored_row (restores_to_root s r) (sync_seq s + 1) now) (nodes s)"
  show ?thesis
  proof (cases "restores_to_root s r")
    case True
    have "par ?ns \<subseteq> {(a, b) \<in> par (nodes s). a \<noteq> i} \<union> {(i, p) | p. None = Some p}"
      by (rule par_move) (simp add: True)
    then have "scopes_disjoint s'" unfolding s' by (intro scopes_disjoint_subset [OF D(4)]) auto
    moreover have "forest ?ns" by (rule forest_move [OF D(1), where q = None]) (simp_all add: True)
    ultimately show ?thesis unfolding s' u [symmetric] by (intro commits_upd_inv [OF inv r stamps_change_of]) simp_all
  next
    case False
    then show ?thesis unfolding s' u [symmetric] by (intro commits_keep_inv [OF inv r stamps_change_of]) simp
  qed
qed

end
