(* ===== verification/HB_Nodes_Service.thy ===== *)
theory HB_Nodes_Service
  imports HB_Nodes_Inv
begin

text \<open>
  The node service as a whole: its answers after a commit, its commands as the interface
  \<open>transactional\<close> of HB_Prelude, and the properties of the service.
\<close>

section \<open>Answers\<close>

lemma Get_owner:
  "node_of s i = Some r \<Longrightarrow> n_owner_id r = u \<Longrightarrow> Get s u i = Inr (scanNode r)"
  by (simp add: Get_def)

lemma Get_member:
  "node_of s i = Some r \<Longrightarrow> n_deleted_at r = None \<Longrightarrow> ShareGrant s u i = Inr (Some g) \<Longrightarrow>
   Get s u i = Inr (scanNode r)"
  by (simp add: Get_def Let_def)

text \<open>\<open>Get\<close> answers the owner, and everyone with a nearest live share.\<close>

lemma Get_iff:
  assumes inv: "vault_inv s"
  shows "Get s u i = Inr n \<longleftrightarrow> (\<exists>r. node_of s i = Some r \<and> n = scanNode r \<and>
    (n_owner_id r = u \<or> (\<exists>sh. nearest_live_share s u i sh)))"
proof (cases "node_of s i")
  case None
  then show ?thesis by (simp add: Get_def)
next
  case (Some r)
  note D = vault_invD [OF inv]
  from node_of_Some [OF Some] have r: "r \<in> set (nodes s)" "n_id r = i" by simp_all
  obtain grant where grant: "ShareGrant s u i = Inr grant" using ShareGrant_returns [OF D(1)] by blast
  have "grant \<noteq> None \<longleftrightarrow> (\<exists>sh. nearest_live_share s u i sh)"
    using grant ShareGrant_sound [OF D(1)] ShareGrant_complete [OF D(1) D(11)] by (cases grant) fastforce+
  moreover have "n_deleted_at r = None" if "nearest_live_share s u i sh" for sh
    using that r by (auto simp: nearest_live_share_def)
  moreover have "Get s u i = Inr n \<longleftrightarrow> n = scanNode r \<and> (n_owner_id r = u \<or> n_deleted_at r = None \<and> grant \<noteq> None)"
    using Some grant by (cases grant) (auto simp: Get_def Let_def)
  ultimately show ?thesis using Some by auto
qed

lemma node_of_upd:
  assumes "\<And>n. n_id n = i \<Longrightarrow> n_id (f n) = i" and "nodes s' = upd (\<lambda>n. n_id n = i) f (nodes s)"
  shows "node_of s' j = map_option (\<lambda>r. if n_id r = i then f r else r) (node_of s j)"
  unfolding node_of_def assms(2) by (rule find_upd_key) (use assms(1) in auto)

lemma node_of_upd_same:
  assumes "\<And>n. n_id n = i \<Longrightarrow> n_id (f n) = i" and "nodes s' = upd (\<lambda>n. n_id n = i) f (nodes s)"
    and "node_of s i = Some r"
  shows "node_of s' i = Some (f r)"
  using node_of_upd [OF assms(1,2), of i] assms(3) node_of_Some [OF assms(3)] by simp

lemma node_of_upd_other:
  assumes "\<And>n. n_id n = i \<Longrightarrow> n_id (f n) = i" and "nodes s' = upd (\<lambda>n. n_id n = i) f (nodes s)" and "j \<noteq> i"
  shows "node_of s' j = node_of s j"
proof (cases "node_of s j")
  case (Some r)
  with node_of_Some [OF Some] assms(3) node_of_upd [OF assms(1,2), of j] show ?thesis by simp
qed (use node_of_upd [OF assms(1,2), of j] in simp)

lemma authorizeWrite_owner: "n_owner_id r = u \<Longrightarrow> authorizeWrite s u (scanNode r) = Inr w \<longleftrightarrow> n_deleted_at r = None \<and> w = []"
  by (auto simp: authorizeWrite_def)

lemma authorizeWrite_member:
  "n_owner_id r \<noteq> u \<Longrightarrow> authorizeWrite s u (scanNode r) = Inr w \<Longrightarrow>
   n_deleted_at r = None \<and> (\<exists>g. ShareGrant s u (n_id r) = Inr (Some g) \<and> CanWrite g \<and> RootID g = w \<and> w \<noteq> n_id r)"
  by (auto simp: authorizeWrite_def simp del: if_Inl_eq split: if_split_asm option.split_asm)

lemma authorizeWrite_live: "authorizeWrite s u (scanNode r) = Inr w \<Longrightarrow> n_deleted_at r = None"
  using authorizeWrite_owner [of r u s w] authorizeWrite_member [of r u s w] by blast

lemma createOwner_cases:
  assumes "createOwner s inp = Inr (owner, root)"
  obtains "owner = ci_OwnerID inp"
  | p g where "owner \<noteq> ci_OwnerID inp" "ci_ParentID inp = Some p"
      "ShareGrant s (ci_OwnerID inp) p = Inr (Some g)" "CanWrite g" "RootID g = root"
  using assms
  by (auto simp: createOwner_def directoryOwner_Inr simp del: if_Inl_eq split: if_split_asm option.split_asm)

text \<open>A grant's root is a node, hence not the empty string.\<close>

lemma grant_root:
  assumes "vault_inv s" "ShareGrant s u i = Inr (Some g)"
  shows "RootID g \<in> n_id ` set (nodes s)" "RootID g \<noteq> []"
proof -
  obtain sh where "nearest_live_share s u i sh" "g = \<lparr>RootID = sh_node_id sh, Permission = sh_permission sh\<rparr>"
    using ShareGrant_sound [OF vault_invD(1) [OF assms(1)] assms(2)] by blast
  then show "RootID g \<in> n_id ` set (nodes s)" by (auto simp: nearest_live_share_def)
  with vault_invD(7) [OF assms(1)] show "RootID g \<noteq> []" by (auto simp: ids_ok_def)
qed

text \<open>The new node keeps the grant its creator wrote through.\<close>

lemma Create_forest:
  assumes inv: "vault_inv s" and c: "Create_tx U now s inp = Inr (Committed i s')"
  shows "forest (nodes s')"
proof -
  from c obtain owner root scope where own: "createOwner s inp = Inr (owner, root)"
    and fresh: "ci_ID inp \<notin> n_id ` set (nodes s)"
    and s': "s' = commits s (nodes s @ [created_row now s inp owner scope])
       (change_of now s owner (ci_ID inp) ''CREATE'')
       (operation_of now s (ci_OperationID inp) (ci_OwnerID inp) (ci_DeviceID inp) ''NODE_CREATE'' (ci_ID inp))"
    by (rule Create_committed)
  have "forest (nodes s @ [created_row now s inp owner scope])"
    by (rule forest_add_leaf [OF vault_invD(1) [OF inv]])
      (use fresh createOwner_parent [OF own] in \<open>auto simp: created_row_def\<close>)
  then show ?thesis by (simp add: s')
qed

lemma Create_answer:
  assumes inv: "vault_inv s" and c: "Create_tx U now s inp = Inr (Committed i s')"
  shows "\<exists>owner scope. Get s' (ci_OwnerID inp) i = Inr (scanNode (created_row now s inp owner scope))"
proof -
  note D = vault_invD [OF inv] and forest' = Create_forest [OF inv c]
  then have D': "distinct (map n_id (nodes s'))" "acyclic (par (nodes s'))" by (simp_all add: forest_def)
  let ?u = "ci_OwnerID inp"
  from c obtain owner root scope where i: "i = ci_ID inp" and own: "createOwner s inp = Inr (owner, root)"
    and fresh: "ci_ID inp \<notin> n_id ` set (nodes s)"
    and s': "s' = commits s (nodes s @ [created_row now s inp owner scope])
       (change_of now s owner (ci_ID inp) ''CREATE'')
       (operation_of now s (ci_OperationID inp) (ci_OwnerID inp) (ci_DeviceID inp) ''NODE_CREATE'' (ci_ID inp))"
    by (rule Create_committed)
  let ?m = "created_row now s inp owner scope"
  have m: "n_id ?m = i" "n_owner_id ?m = owner" "n_parent_id ?m = ci_ParentID inp" "n_deleted_at ?m = None"
    by (simp_all add: created_row_def i)
  have ns: "nodes s' = nodes s @ [?m]" by (simp add: s')
  have node: "node_of s' i = Some ?m"
    using fresh by (simp add: node_of_iff [OF D'(1)] ns m)
  from own have "Get s' ?u i = Inr (scanNode ?m)"
  proof (cases rule: createOwner_cases)
    case 1
    with m(2) show ?thesis by (intro Get_owner [OF node]) simp
  next
    case (2 p g)
    from createOwner_parent [OF own 2(2)] have p: "p \<in> n_id ` set (nodes s)" by auto
    obtain xs where xs: "chain (nodes s) p xs" using chain_exists [OF D(1)] by blast
    have "ShareGrant s' ?u p = ShareGrant s ?u p"
    proof (rule ShareGrant_transfer [OF xs D(9,10) p D'(2), where g = "\<lambda>n. n"])
      fix n assume "n \<in> set xs"
      with chain_members [OF xs] have n: "n \<in> set (nodes s)" by blast
      then have "find (\<lambda>m. n_id m = n_id n) (nodes s') = Some n"
        unfolding find_key_iff [OF D'(1)] by (simp add: ns)
      then show "find (\<lambda>m. n_id m = n_id n) (nodes s') = Some n \<and> n_id n = n_id n \<and>
        n_parent_id n = n_parent_id n \<and> n_deleted_at n = n_deleted_at n" by simp
    qed (simp add: s')
    moreover have "\<forall>sh\<in>set (shares s'). \<not> active_share sh ?u i"
      using D(6) fresh i by (force simp: shares_ok_def active_share_def s')
    then have "ShareGrant s' ?u i = ShareGrant s' ?u p"
      by (intro ShareGrant_up [OF forest' node]) (simp_all add: m 2(2))
    ultimately have "ShareGrant s' ?u i = Inr (Some g)" using 2(3) by simp
    then show ?thesis by (intro Get_member [OF node]) (simp_all add: m)
  qed
  then show ?thesis by blast
qed

text \<open>So does an updated node: a member's move stays below the same share root.\<close>

lemma Update_grant:
  assumes inv: "vault_inv s" "vault_inv s'" and c: "Update_tx U now s inp = Inr (Committed i s')"
  obtains r scope where "node_of s i = Some r" "i = ui_NodeID inp" "n_deleted_at r = None"
    "node_of s' i = Some (update_row inp scope (sync_seq s + 1) now r)"
    "n_owner_id r = ui_UserID inp \<or> (\<exists>g g'. ShareGrant s (ui_UserID inp) i = Inr (Some g) \<and> CanWrite g \<and>
       RootID g \<noteq> i \<and> ShareGrant s' (ui_UserID inp) i = Inr (Some g') \<and> CanWrite g' \<and> RootID g' = RootID g)"
proof -
  note D = vault_invD [OF inv(1)] and D' = vault_invD [OF inv(2)]
  let ?u = "ui_UserID inp"
  from c obtain r root scope where i: "i = ui_NodeID inp" and r: "node_of s (ui_NodeID inp) = Some r"
    and auth: "authorizeWrite s (ui_UserID inp) (scanNode r) = Inr root"
    and mv: "ui_MoveParent inp \<longrightarrow> validateMove s (ui_UserID inp) (scanNode r) root (ui_ParentID inp) = Inr ()"
    and some: "ui_MetadataCiphertext inp \<noteq> [] \<or> ui_MoveParent inp"
    and s': "s' = commits s (upd (\<lambda>n. n_id n = ui_NodeID inp)
         (update_row inp (StoredScope scope (n_owner_id r)) (sync_seq s + 1) now) (nodes s))
       (change_of now s (n_owner_id r) (ui_NodeID inp) ''UPDATE'')
       (operation_of now s (ui_OperationID inp) (ui_UserID inp) (ui_DeviceID inp) ''NODE_UPDATE'' (ui_NodeID inp))"
    by (rule Update_committed)
  let ?f = "update_row inp (StoredScope scope (n_owner_id r)) (sync_seq s + 1) now"
  let ?g = "\<lambda>n. if n_id n = i then ?f n else n"
  have ns: "nodes s' = upd (\<lambda>n. n_id n = i) ?f (nodes s)" by (simp add: s' i)
  have r_id: "r \<in> set (nodes s)" "n_id r = i" using node_of_Some [OF r] i by simp_all
  have node: "node_of s' i = Some (?f r)"
    using r i by (intro node_of_upd_same [OF _ ns]) simp_all
  have find: "find (\<lambda>m. n_id m = n_id n) (nodes s') = Some (?g n)" if "n \<in> set (nodes s)" for n
    unfolding find_key_iff [OF D'(8)] using that by (auto simp: ns set_upd)
  note live = authorizeWrite_live [OF auth]
  have parent: "n_parent_id (?f n) = (if ui_MoveParent inp then ui_ParentID inp else n_parent_id n)" for n
    by (rule update_row_parent [OF some])
  have "n_owner_id r = ?u \<or> (\<exists>g g'. ShareGrant s ?u i = Inr (Some g) \<and> CanWrite g \<and>
       RootID g \<noteq> i \<and> ShareGrant s' ?u i = Inr (Some g') \<and> CanWrite g' \<and> RootID g' = RootID g)"
  proof (cases "n_owner_id r = ?u")
    case False
    from authorizeWrite_member [OF False auth] r_id(2) obtain g where
      g: "ShareGrant s ?u i = Inr (Some g)" "CanWrite g" "RootID g = root" "root \<noteq> i" by auto
    have root: "root \<noteq> []" using grant_root(2) [OF inv(1) g(1)] g(3) by simp
    have "\<exists>g'. ShareGrant s' ?u i = Inr (Some g') \<and> CanWrite g' \<and> RootID g' = root"
    proof (cases "ui_MoveParent inp")
      case stay: False
      obtain xs where xs: "chain (nodes s) i xs" using chain_exists [OF D(1)] by blast
      have "ShareGrant s' ?u i = ShareGrant s ?u i"
      proof (rule ShareGrant_transfer [OF xs D(9,10) _ D'(10)])
        show "i \<in> n_id ` set (nodes s)" using r_id by blast
        show "shares s' = shares s" by (simp add: s')
        fix n assume "n \<in> set xs"
        with chain_members [OF xs] have "n \<in> set (nodes s)" by blast
        from find [OF this] show "find (\<lambda>m. n_id m = n_id n) (nodes s') = Some (?g n) \<and> n_id (?g n) = n_id n \<and>
            n_parent_id (?g n) = n_parent_id n \<and> n_deleted_at (?g n) = n_deleted_at n"
          using stay by (simp add: parent)
      qed
      with g show ?thesis by simp
    next
      case move: True
      with mv have ok: "validateMove s ?u (scanNode r) root (ui_ParentID inp) = Inr ()" by simp
      then obtain p where p: "ui_ParentID inp = Some p"
        using root by (cases "ui_ParentID inp") (auto simp: validateMove_def)
      with ok have ok: "validateMove s ?u (scanNode r) root (Some p) = Inr ()" by simp
      from validateMove_Some(4) [OF ok root] obtain g' where
        g': "ShareGrant s ?u p = Inr (Some g')" "CanWrite g'" "RootID g' = root" by blast
      have r': "node_of s i = Some r" using r i by simp
      note acyc = validateMove_sound(1) [OF inv(1) r' ok]
      from validateMove_sound(2) [OF inv(1) r' ok] have pin: "p \<in> n_id ` set (nodes s)" by blast
      obtain xs where xs: "chain (nodes s) p xs" using chain_exists [OF D(1)] by blast
      have "ShareGrant s' ?u p = ShareGrant s ?u p"
      proof (rule ShareGrant_transfer [OF xs D(9,10) pin D'(10)])
        show "shares s' = shares s" by (simp add: s')
        fix n assume n: "n \<in> set xs"
        with chain_members [OF xs] have "n \<in> set (nodes s)" by blast
        moreover have "n_id n \<noteq> i" using chain_paths [OF xs n] acyc by auto
        ultimately show "find (\<lambda>m. n_id m = n_id n) (nodes s') = Some (?g n) \<and> n_id (?g n) = n_id n \<and>
            n_parent_id (?g n) = n_parent_id n \<and> n_deleted_at (?g n) = n_deleted_at n"
          using find by simp
      qed
      moreover have "\<forall>sh\<in>set (shares s'). \<not> active_share sh ?u i"
        using ShareGrant_no_own [OF D(1) g(1)] g(3,4) by (simp add: s')
      then have "ShareGrant s' ?u i = ShareGrant s' ?u p"
        by (intro ShareGrant_up [OF D'(1) node]) (simp_all add: live parent move p)
      ultimately show ?thesis using g' by simp
    qed
    with g show ?thesis by blast
  qed simp
  moreover have "node_of s i = Some r" using r i by simp
  ultimately show ?thesis using that node live i by blast
qed

lemma Update_answer:
  assumes inv: "vault_inv s" "vault_inv s'" and c: "Update_tx U now s inp = Inr (Committed i s')"
  obtains r scope where "node_of s i = Some r"
    "Get s' (ui_UserID inp) i = Inr (scanNode (update_row inp scope (sync_seq s + 1) now r))"
proof -
  from Update_grant [OF assms] obtain r scope where r: "node_of s i = Some r" "n_deleted_at r = None"
    and node: "node_of s' i = Some (update_row inp scope (sync_seq s + 1) now r)"
    and acc: "n_owner_id r = ui_UserID inp \<or> (\<exists>g'. ShareGrant s' (ui_UserID inp) i = Inr (Some g'))" by metis
  from acc have "Get s' (ui_UserID inp) i = Inr (scanNode (update_row inp scope (sync_seq s + 1) now r))"
    using Get_owner [OF node] Get_member [OF node] r(2) by auto
  with r(1) that show ?thesis by blast
qed


lemma Restore_answer:
  assumes c: "Restore_tx U now s u d i op = Inr (Committed i' s')"
  obtains r where "node_of s i = Some r" "i' = i"
    "Get s' u i = Inr (scanNode (restored_row (restores_to_root s r) (sync_seq s + 1) now r))"
proof -
  from c obtain r where "i' = i" and r: "node_of s i = Some r" and u: "n_owner_id r = u" and
    s': "s' = commits s (upd (\<lambda>n. n_id n = i) (restored_row (restores_to_root s r) (sync_seq s + 1) now) (nodes s))
       (change_of now s u i ''RESTORE'') (operation_of now s op u d ''NODE_RESTORE'' i)"
    by (rule Restore_committed)
  have "node_of s' i = Some (restored_row (restores_to_root s r) (sync_seq s + 1) now r)"
    by (rule node_of_upd_same [OF _ _ r]) (simp_all add: s')
  then have "Get s' u i = Inr (scanNode (restored_row (restores_to_root s r) (sync_seq s + 1) now r))"
    by (rule Get_owner) (simp add: u)
  with that r \<open>i' = i\<close> show ?thesis by blast
qed

section \<open>Rekey\<close>

lemma rekey_versions_frame:
  "rekey_versions U s w u i vs = Inr s' \<Longrightarrow> \<exists>fv. s' = s\<lparr>file_versions := fv\<rparr>"
proof (induction vs arbitrary: s)
  case Nil
  then show ?case by (intro exI [of _ "file_versions s"]) simp
next
  case (Cons v vs)
  from Cons.prems Cons.IH obtain fv where "s' = s\<lparr>file_versions := fv\<rparr>" by fastforce
  then show ?case by blast
qed

definition rekeyed_row :: "RekeyItem \<Rightarrow> id \<Rightarrow> int \<Rightarrow> time \<Rightarrow> node_row \<Rightarrow> node_row" where
  "rekeyed_row item owner v now n = n\<lparr>n_metadata_ciphertext := ri_MetadataCiphertext item,
     n_metadata_key_version := ri_MetadataKeyVersion item,
     n_metadata_key_scope_id := StoredScope (ri_MetadataKeyScopeID item) owner,
     n_revision := v, n_updated_at := now\<rparr>"

lemma rekeyed_row_simps [simp]:
  "n_id (rekeyed_row item w v now n) = n_id n"
  "n_owner_id (rekeyed_row item w v now n) = n_owner_id n"
  "n_node_type (rekeyed_row item w v now n) = n_node_type n"
  "n_parent_id (rekeyed_row item w v now n) = n_parent_id n"
  "n_revision (rekeyed_row item w v now n) = v"
  "n_metadata_ciphertext (rekeyed_row item w v now n) = ri_MetadataCiphertext item"
  "n_metadata_key_version (rekeyed_row item w v now n) = ri_MetadataKeyVersion item"
  "n_metadata_key_scope_id (rekeyed_row item w v now n) = StoredScope (ri_MetadataKeyScopeID item) w"
  by (simp_all add: rekeyed_row_def)

lemma rekey_item_done:
  assumes "rekey_item U now s u item = Inr s'"
  obtains r fv where "node_of s (ri_NodeID item) = Some r" "n_owner_id r = u"
    "n_revision r = ri_ExpectedRevision item"
    "ValidateKeyScope U s u u [] (ri_MetadataKeyScopeID item) (ri_MetadataKeyVersion item) = Inr ()"
    "s' = s\<lparr>file_versions := fv,
       nodes := upd (\<lambda>n. n_id n = ri_NodeID item) (rekeyed_row item u (sync_seq s + 1) now) (nodes s),
       sync_changes := sync_changes s @ [change_of now s u (ri_NodeID item) ''UPDATE''],
       sync_seq := sync_seq s + 1\<rparr>"
proof -
  from assms obtain r s1 where r: "node_of s (ri_NodeID item) = Some r" "n_owner_id r = u"
      "n_revision r = ri_ExpectedRevision item"
      "ValidateKeyScope U s u u [] (ri_MetadataKeyScopeID item) (ri_MetadataKeyVersion item) = Inr ()"
    and vs: "rekey_versions U s u u (ri_NodeID item) (ri_Versions item) = Inr s1"
    and s': "s' = set_node (ri_NodeID item) (rekeyed_row item u (sync_seq s1 + 1) now)
      (snd (recordChange now s1 u (ri_NodeID item) ''UPDATE''))"
    by (auto simp: rekey_item_def recordChange_def Let_def rekeyed_row_def [abs_def])
  from rekey_versions_frame [OF vs] obtain fv where "s1 = s\<lparr>file_versions := fv\<rparr>" by blast
  with s' have "s' = s\<lparr>file_versions := fv,
       nodes := upd (\<lambda>n. n_id n = ri_NodeID item) (rekeyed_row item u (sync_seq s + 1) now) (nodes s),
       sync_changes := sync_changes s @ [change_of now s u (ri_NodeID item) ''UPDATE''],
       sync_seq := sync_seq s + 1\<rparr>"
    by (simp add: set_node_def recordChange_def Let_def change_of_def)
  with that [OF r] show ?thesis by blast
qed

lemma rekey_item_inv:
  assumes inv: "vault_inv s" and c: "rekey_item U now s u item = Inr s'"
  shows "vault_inv s'"
proof -
  from c obtain r fv where r: "node_of s (ri_NodeID item) = Some r" "n_owner_id r = u"
    and s': "s' = s\<lparr>file_versions := fv,
       nodes := upd (\<lambda>n. n_id n = ri_NodeID item) (rekeyed_row item u (sync_seq s + 1) now) (nodes s),
       sync_changes := sync_changes s @ [change_of now s u (ri_NodeID item) ''UPDATE''],
       sync_seq := sync_seq s + 1\<rparr>"
    by (rule rekey_item_done)
  have "vault_inv (commits s (upd (\<lambda>n. n_id n = ri_NodeID item) (rekeyed_row item u (sync_seq s + 1) now) (nodes s))
      (change_of now s (n_owner_id r) (ri_NodeID item) ''UPDATE'') q)" for q
    by (rule commits_keep_inv [OF inv r(1) stamps_change_of]) simp
  then show ?thesis
    by (subst vault_inv_cong [of _ "commits s (upd (\<lambda>n. n_id n = ri_NodeID item)
      (rekeyed_row item u (sync_seq s + 1) now) (nodes s)) (change_of now s (n_owner_id r) (ri_NodeID item) ''UPDATE'') undefined"])
      (simp_all add: s' r(2))
qed

lemma rekey_item_node:
  assumes "rekey_item U now s u item = Inr s'"
  shows "j \<noteq> ri_NodeID item \<Longrightarrow> node_of s' j = node_of s j"
    and "\<exists>r. node_of s (ri_NodeID item) = Some r \<and> n_owner_id r = u \<and> n_revision r = ri_ExpectedRevision item \<and>
      node_of s' (ri_NodeID item) = Some (rekeyed_row item u (sync_seq s + 1) now r)"
proof -
  from assms obtain r fv where r: "node_of s (ri_NodeID item) = Some r" "n_owner_id r = u"
      "n_revision r = ri_ExpectedRevision item"
    and s': "s' = s\<lparr>file_versions := fv,
       nodes := upd (\<lambda>n. n_id n = ri_NodeID item) (rekeyed_row item u (sync_seq s + 1) now) (nodes s),
       sync_changes := sync_changes s @ [change_of now s u (ri_NodeID item) ''UPDATE''],
       sync_seq := sync_seq s + 1\<rparr>"
    by (rule rekey_item_done)
  have ns: "nodes s' = upd (\<lambda>n. n_id n = ri_NodeID item) (rekeyed_row item u (sync_seq s + 1) now) (nodes s)"
    by (simp add: s')
  show "j \<noteq> ri_NodeID item \<Longrightarrow> node_of s' j = node_of s j"
    by (rule node_of_upd_other [OF _ ns]) simp_all
  show "\<exists>r. node_of s (ri_NodeID item) = Some r \<and> n_owner_id r = u \<and> n_revision r = ri_ExpectedRevision item \<and>
      node_of s' (ri_NodeID item) = Some (rekeyed_row item u (sync_seq s + 1) now r)"
    using r node_of_upd_same [OF _ ns r(1)] by simp
qed

lemma rekey_items_inv: "vault_inv s \<Longrightarrow> rekey_items U now s u items = Inr s' \<Longrightarrow> vault_inv s'"
  by (induction items arbitrary: s) (auto dest: rekey_item_inv)

lemma rekey_items_other:
  "rekey_items U now s u items = Inr s' \<Longrightarrow> j \<notin> ri_NodeID ` set items \<Longrightarrow> node_of s' j = node_of s j"
proof (induction items arbitrary: s)
  case (Cons item items)
  then obtain s1 where s1: "rekey_item U now s u item = Inr s1" "rekey_items U now s1 u items = Inr s'" by auto
  with Cons have "node_of s' j = node_of s1 j" by auto
  with rekey_item_node(1) [OF s1(1), of j] Cons.prems(2) show ?case by simp
qed simp

lemma rekey_items_nodes:
  "rekey_items U now s u items = Inr s' \<Longrightarrow> distinct (map ri_NodeID items) \<Longrightarrow> item \<in> set items \<Longrightarrow>
   \<exists>r v. node_of s (ri_NodeID item) = Some r \<and> n_owner_id r = u \<and> n_revision r = ri_ExpectedRevision item \<and>
     node_of s' (ri_NodeID item) = Some (rekeyed_row item u v now r)"
proof (induction items arbitrary: s)
  case (Cons it items)
  then obtain s1 where s1: "rekey_item U now s u it = Inr s1" "rekey_items U now s1 u items = Inr s'" by auto
  show ?case
  proof (cases "item = it")
    case True
    then have "node_of s' (ri_NodeID item) = node_of s1 (ri_NodeID item)"
      using Cons.prems(2) by (intro rekey_items_other [OF s1(2)]) auto
    with rekey_item_node(2) [OF s1(1)] True show ?thesis by auto
  next
    case False
    with Cons.prems(3) have item: "item \<in> set items" by simp
    then have "ri_NodeID item \<in> set (map ri_NodeID items)" by simp
    with Cons.prems(2) have ne: "ri_NodeID item \<noteq> ri_NodeID it" by (auto simp del: set_map)
    have "distinct (map ri_NodeID items)" using Cons.prems(2) by simp
    from Cons.IH [OF s1(2) this item] obtain r v where
      "node_of s1 (ri_NodeID item) = Some r" "n_owner_id r = u" "n_revision r = ri_ExpectedRevision item"
      "node_of s' (ri_NodeID item) = Some (rekeyed_row item u v now r)" by blast
    then show ?thesis using rekey_item_node(1) [OF s1(1) ne] by metis
  qed
qed simp

lemma rekey_valid_distinct:
  "rekey_valid U seen items = Inr () \<Longrightarrow> distinct (map ri_NodeID items) \<and> set seen \<inter> ri_NodeID ` set items = {}"
proof (induction items arbitrary: seen)
  case (Cons item items)
  from Cons.prems have "ri_NodeID item \<notin> set seen" "rekey_valid U (ri_NodeID item # seen) items = Inr ()"
    by (simp_all split: if_split_asm)
  with Cons.IH [of "ri_NodeID item # seen"] show ?case by (simp add: disjoint_iff image_iff)
qed simp

lemma get_all_ok:
  "(\<And>i. i \<in> set js \<Longrightarrow> \<exists>n. Get s u i = Inr n) \<Longrightarrow> \<exists>ns. get_all s u js = Inr ns"
  by (induction js) fastforce+

lemma Rekey_tx_done:
  assumes "Rekey_tx U now s inp = Inr s'"
  shows "rk_Items inp \<noteq> []" "distinct (map ri_NodeID (rk_Items inp))"
    "validateDeviceOwnership s (rk_UserID inp) (rk_DeviceID inp) = Inr ()"
    "rekey_items U now s (rk_UserID inp) (rk_Items inp) = Inr s'"
  using assms rekey_valid_distinct [of U "[]" "rk_Items inp"] by (auto simp: Rekey_tx_def)

lemma Rekey_answer:
  assumes "Rekey_tx U now s inp = Inr s'"
  shows "\<exists>ns. get_all s' (rk_UserID inp) (map ri_NodeID (rk_Items inp)) = Inr ns"
proof (rule get_all_ok)
  fix i assume "i \<in> set (map ri_NodeID (rk_Items inp))"
  then obtain item where item: "item \<in> set (rk_Items inp)" "i = ri_NodeID item" by auto
  note tx = Rekey_tx_done [OF assms]
  from rekey_items_nodes [OF tx(4,2) item(1)] item(2) obtain r v where
    "n_owner_id r = rk_UserID inp" "node_of s' i = Some (rekeyed_row item (rk_UserID inp) v now r)" by auto
  then show "\<exists>n. Get s' (rk_UserID inp) i = Inr n" by (auto intro!: exI Get_owner)
qed

section \<open>The service\<close>

datatype node_cmd =
    CreateCmd CreateInput
  | UpdateCmd UpdateInput
  | DeleteCmd id id id id int
  | RestoreCmd id id id id
  | RekeyCmd RekeyInput

definition one :: "db \<times> (err + Node) \<Rightarrow> db \<times> (err + Node list)" where
  "one r = map_prod id (map_sum id (\<lambda>n. [n])) r"

fun node_exec :: "uuid_pkg \<Rightarrow> time \<times> node_cmd \<Rightarrow> db \<Rightarrow> db \<times> (err + Node list)" where
  "node_exec U (now, CreateCmd inp) s = one (Create U now s inp)"
| "node_exec U (now, UpdateCmd inp) s = one (Update U now s inp)"
| "node_exec U (now, DeleteCmd u d i op v) s = map_prod id (map_sum id (\<lambda>_. [])) (Delete U now s u d i op v)"
| "node_exec U (now, RestoreCmd u d i op) s = one (Restore U now s u d i op)"
| "node_exec U (now, RekeyCmd inp) s = Rekey U now s inp"

text \<open>The only assumption on a command: a client does not create a node under the ID of a folder
  whose keys outlived it. The code does not check that; see \<open>reused_scope_nests\<close>.\<close>

fun node_ok :: "time \<times> node_cmd \<Rightarrow> db \<Rightarrow> bool" where
  "node_ok (now, CreateCmd inp) s = (\<not> keyed s (ci_ID inp))"
| "node_ok (now, _) s = True"

lemma fst_one [simp]: "fst (one r) = fst r"
  by (simp add: one_def)

lemma snd_one_Inl [simp]: "snd (one r) = Inl e \<longleftrightarrow> snd r = Inl e"
  by (cases "snd r") (simp_all add: one_def)

lemma tx_cases:
  obtains e where "r = Inl e" | i where "r = Inr (Replayed i)" | i s' where "r = Inr (Committed i s')"
  by (metis obj_sumE tx.exhaust)

interpretation node_service: transactional "node_exec U" node_ok "\<lambda>s. vault_inv s \<and> uuid_laws U" for U
proof
  fix s c
  assume inv: "vault_inv s \<and> uuid_laws U" and ok: "node_ok c s"
  obtain now cmd where c: "c = (now, cmd)" by (cases c)
  have "vault_inv (fst (node_exec U c s))"
  proof (cases cmd)
    case (CreateCmd inp)
    show ?thesis
      by (rule tx_cases [of "Create_tx U now s inp"])
        (use inv ok Create_inv in \<open>auto simp: c CreateCmd Create_def\<close>)
  next
    case (UpdateCmd inp)
    show ?thesis
      by (rule tx_cases [of "Update_tx U now s inp"])
        (use inv Update_inv in \<open>auto simp: c UpdateCmd Update_def\<close>)
  next
    case (DeleteCmd u d i op v)
    show ?thesis
      by (rule tx_cases [of "Delete_tx U now s u d i op v"])
        (use inv Delete_inv in \<open>auto simp: c DeleteCmd Delete_def\<close>)
  next
    case (RestoreCmd u d i op)
    show ?thesis
      by (rule tx_cases [of "Restore_tx U now s u d i op"])
        (use inv Restore_inv in \<open>auto simp: c RestoreCmd Restore_def\<close>)
  next
    case (RekeyCmd inp)
    show ?thesis
      using inv rekey_items_inv [OF _ Rekey_tx_done(4)]
      by (auto simp: c RekeyCmd Rekey_def split: sum.split)
  qed
  with inv show "vault_inv (fst (node_exec U c s)) \<and> uuid_laws U" by simp
next
  fix s c e
  assume inv: "vault_inv s \<and> uuid_laws U" and fail: "snd (node_exec U c s) = Inl e"
  obtain now cmd where c: "c = (now, cmd)" by (cases c)
  show "fst (node_exec U c s) = s"
  proof (cases cmd)
    case (CreateCmd inp)
    show ?thesis
      by (rule tx_cases [of "Create_tx U now s inp"])
        (use inv fail Create_answer in \<open>fastforce simp: c CreateCmd Create_def\<close>)+
  next
    case (UpdateCmd inp)
    show ?thesis
    proof (rule tx_cases [of "Update_tx U now s inp"])
      fix i s' assume u: "Update_tx U now s inp = Inr (Committed i s')"
      with inv have "vault_inv s'" using Update_inv by blast
      with inv u obtain n where "Get s' (ui_UserID inp) i = Inr n" using Update_answer by metis
      with u fail show ?thesis by (simp add: c UpdateCmd Update_def)
    qed (simp_all add: c UpdateCmd Update_def)
  next
    case (DeleteCmd u d i op v)
    show ?thesis
      by (rule tx_cases [of "Delete_tx U now s u d i op v"])
        (use fail in \<open>auto simp: c DeleteCmd Delete_def\<close>)
  next
    case (RestoreCmd u d i op)
    show ?thesis
    proof (rule tx_cases [of "Restore_tx U now s u d i op"])
      fix i' s' assume r: "Restore_tx U now s u d i op = Inr (Committed i' s')"
      then obtain n where "Get s' u i = Inr n" "i' = i" by (rule Restore_answer)
      with r fail show ?thesis by (simp add: c RestoreCmd Restore_def)
    qed (simp_all add: c RestoreCmd Restore_def)
  next
    case (RekeyCmd inp)
    show ?thesis
    proof (cases "Rekey_tx U now s inp")
      case (Inr s')
      with Rekey_answer [OF Inr] fail show ?thesis by (auto simp: c RekeyCmd Rekey_def)
    qed (simp add: c RekeyCmd Rekey_def)
  qed
qed

section \<open>What no command takes back\<close>

text \<open>Nodes stay, their owners stay, revisions only grow, and recorded operations are kept.\<close>

definition extends :: "db \<Rightarrow> db \<Rightarrow> bool" where
  "extends s s' \<longleftrightarrow>
     (\<forall>i r. node_of s i = Some r \<longrightarrow> (\<exists>r'. node_of s' i = Some r' \<and> n_owner_id r' = n_owner_id r \<and>
        n_revision r \<le> n_revision r')) \<and>
     sync_seq s \<le> sync_seq s' \<and>
     (\<exists>ops. processed_operations s' = processed_operations s @ ops)"

lemma extends_refl [simp]: "extends s s"
  by (auto simp: extends_def)

lemma extends_trans: "extends s s' \<Longrightarrow> extends s' s'' \<Longrightarrow> extends s s''"
proof -
  assume a: "extends s s'" and b: "extends s' s''"
  have "\<exists>r''. node_of s'' i = Some r'' \<and> n_owner_id r'' = n_owner_id r \<and> n_revision r \<le> n_revision r''"
    if "node_of s i = Some r" for i r
  proof -
    from a that obtain r' where r': "node_of s' i = Some r'" "n_owner_id r' = n_owner_id r" "n_revision r \<le> n_revision r'"
      unfolding extends_def by blast
    from b r'(1) obtain r'' where "node_of s'' i = Some r''" "n_owner_id r'' = n_owner_id r'" "n_revision r' \<le> n_revision r''"
      unfolding extends_def by blast
    with r' show ?thesis by auto
  qed
  with a b show ?thesis by (auto simp: extends_def)
qed

lemma tracked_le:
  assumes inv: "vault_inv s" and n: "n \<in> set (nodes s)"
  shows "n_revision n \<le> sync_seq s"
proof -
  from bspec [OF vault_invD(3) [OF inv, unfolded tracked_def] n] obtain c where
    "c \<in> set (sync_changes s)" "c_revision c = n_revision n" by blast
  with vault_invD(2) [OF inv] show ?thesis by (force simp: feed_ok_def)
qed

lemma extends_upd:
  assumes inv: "vault_inv s" and ns: "nodes s' = upd (\<lambda>n. n_id n = i) f (nodes s)"
    and f: "\<And>n. n_id n = i \<Longrightarrow> n_id (f n) = i \<and> n_owner_id (f n) = n_owner_id n \<and> n_revision (f n) = sync_seq s + 1"
    and "sync_seq s \<le> sync_seq s'" "\<exists>ops. processed_operations s' = processed_operations s @ ops"
  shows "extends s s'"
proof -
  have "\<exists>r'. node_of s' j = Some r' \<and> n_owner_id r' = n_owner_id r \<and> n_revision r \<le> n_revision r'"
    if r: "node_of s j = Some r" for j r
  proof -
    have "n_revision r \<le> sync_seq s" using tracked_le [OF inv] node_of_Some [OF r] by blast
    moreover have "node_of s' j = Some (if n_id r = i then f r else r)"
      using node_of_upd [OF _ ns, of j] r f by simp
    ultimately show ?thesis using f [of r] by (cases "n_id r = i") auto
  qed
  with assms(4,5) show ?thesis by (simp add: extends_def)
qed

lemma extends_create:
  assumes "nodes s' = nodes s @ [m]" "sync_seq s \<le> sync_seq s'"
    "\<exists>ops. processed_operations s' = processed_operations s @ ops"
  shows "extends s s'"
  using assms by (auto simp: extends_def node_of_def find_append)

lemma rekey_items_extends:
  "vault_inv s \<Longrightarrow> rekey_items U now s u items = Inr s' \<Longrightarrow> extends s s'"
proof (induction items arbitrary: s)
  case (Cons item items)
  then obtain s1 where s1: "rekey_item U now s u item = Inr s1" "rekey_items U now s1 u items = Inr s'" by auto
  from s1(1) have "extends s s1"
    by (rule rekey_item_done) (rule extends_upd [OF Cons.prems(1), where i = "ri_NodeID item" and f = "rekeyed_row item u (sync_seq s + 1) now"], simp_all)
  moreover have "extends s1 s'" using rekey_item_inv [OF Cons.prems(1) s1(1)] s1(2) by (rule Cons.IH)
  ultimately show ?case by (rule extends_trans)
qed simp

lemma tx_extends:
  assumes "vault_inv s"
  shows "Create_tx U now s ci = Inr (Committed i s') \<Longrightarrow> extends s s'"
    and "Update_tx U now s ui = Inr (Committed i s') \<Longrightarrow> extends s s'"
    and "Delete_tx U now s u d j op v = Inr (Committed i s') \<Longrightarrow> extends s s'"
    and "Restore_tx U now s u d j op = Inr (Committed i s') \<Longrightarrow> extends s s'"
proof -
  show "Create_tx U now s ci = Inr (Committed i s') \<Longrightarrow> extends s s'"
    by (erule Create_committed) (rule extends_create, simp_all)
  show "Update_tx U now s ui = Inr (Committed i s') \<Longrightarrow> extends s s'"
    by (erule Update_committed) (hypsubst, rule extends_upd [OF assms commits_simps(1)], simp_all)
  show "Delete_tx U now s u d j op v = Inr (Committed i s') \<Longrightarrow> extends s s'"
    by (erule Delete_committed) (hypsubst, rule extends_upd [OF assms commits_simps(1)], simp_all)
  show "Restore_tx U now s u d j op = Inr (Committed i s') \<Longrightarrow> extends s s'"
    by (erule Restore_committed) (hypsubst, rule extends_upd [OF assms commits_simps(1)], simp_all)
qed

lemma node_exec_extends:
  assumes "vault_inv s"
  shows "extends s (fst (node_exec U c s))"
proof -
  obtain now cmd where c: "c = (now, cmd)" by (cases c)
  show ?thesis
  proof (cases cmd)
    case (CreateCmd inp)
    show ?thesis by (rule tx_cases [of "Create_tx U now s inp"])
      (use tx_extends [OF assms] in \<open>auto simp: c CreateCmd Create_def\<close>)
  next
    case (UpdateCmd inp)
    show ?thesis by (rule tx_cases [of "Update_tx U now s inp"])
      (use tx_extends [OF assms] in \<open>auto simp: c UpdateCmd Update_def\<close>)
  next
    case (DeleteCmd u d i op v)
    show ?thesis by (rule tx_cases [of "Delete_tx U now s u d i op v"])
      (use tx_extends [OF assms] in \<open>auto simp: c DeleteCmd Delete_def\<close>)
  next
    case (RestoreCmd u d i op)
    show ?thesis by (rule tx_cases [of "Restore_tx U now s u d i op"])
      (use tx_extends [OF assms] in \<open>auto simp: c RestoreCmd Restore_def\<close>)
  next
    case (RekeyCmd inp)
    show ?thesis using rekey_items_extends [OF assms Rekey_tx_done(4)]
      by (auto simp: c RekeyCmd Rekey_def split: sum.split)
  qed
qed

lemma run_extends:
  "vault_inv s \<Longrightarrow> uuid_laws U \<Longrightarrow> run_ok node_ok (node_exec U) cs s \<Longrightarrow> extends s (run_cmds (node_exec U) cs s)"
proof (induction cs arbitrary: s)
  case (Cons c cs)
  then have "vault_inv (fst (node_exec U c s))" using node_service.inv_exec [of s U c] by simp
  then have "extends (fst (node_exec U c s)) (run_cmds (node_exec U) cs (fst (node_exec U c s)))"
    using Cons.prems(2,3) by (intro Cons.IH) simp_all
  with node_exec_extends [OF Cons.prems(1)] show ?case
    unfolding run_cmds.simps by (rule extends_trans)
qed simp

end
