(* ===== verification/HB_Demo.thy ===== *)
theory HB_Demo
  imports HB_Nodes_Inv
begin

text \<open>
  A small vault for the witnesses: Alice owns the folder \<open>top\<close>, keyed and shared with Bob for
  READ_WRITE and with Carol for READ, the file \<open>doc\<close> in it, and \<open>old\<close>, a file in Trash. Each
  account has one device. \<open>demo_uuid\<close> is a uuid package whose canonical texts are the nonempty
  strings without a colon or a slash.
\<close>

definition demo_uuid :: uuid_pkg where
  "demo_uuid = \<lparr>uuid_Parse = (\<lambda>v. if v = [] \<or> CHR '':'' \<in> set v \<or> CHR ''/'' \<in> set v then None else Some v),
     uuid_String = (\<lambda>b. b), uuid_Validate = (\<lambda>v. v \<noteq> [] \<and> CHR '':'' \<notin> set v \<and> CHR ''/'' \<notin> set v)\<rparr>"

definition demo_user :: "id \<Rightarrow> user_row" where
  "demo_user u = \<lparr>u_id = u, u_username = u, u_username_norm = u, u_password_hash = [],
     u_role = ''USER'', u_status = ''ACTIVE'', u_created_at = 0, u_updated_at = 0\<rparr>"

definition demo_device :: "id \<Rightarrow> id \<Rightarrow> device_row" where
  "demo_device u d = \<lparr>d_id = d, d_user_id = u, d_name = d, d_platform = ''OTHER'',
     d_e2ee_public_key = ''k'', d_e2ee_key_version = 1, d_created_at = 0, d_last_seen_at = 0,
     d_last_sync_at = None, d_revoked_at = None\<rparr>"

definition demo_node :: "id \<Rightarrow> id option \<Rightarrow> string \<Rightarrow> int \<Rightarrow> time option \<Rightarrow> node_row" where
  "demo_node i p ty v d = \<lparr>n_id = i, n_owner_id = ''alice'', n_parent_id = p, n_node_type = ty,
     n_metadata_ciphertext = ''m'', n_metadata_key_version = 1, n_metadata_key_scope_id = None,
     n_current_version_id = None, n_revision = v, n_created_at = v, n_updated_at = v,
     n_deleted_at = d\<rparr>"

definition demo_change :: "int \<Rightarrow> id \<Rightarrow> string \<Rightarrow> change_row" where
  "demo_change v i op = \<lparr>c_revision = v, c_user_scope_id = ''alice'', c_node_id = i,
     c_operation = op, c_payload = [], c_created_at = v\<rparr>"

definition demo_share :: "id \<Rightarrow> id \<Rightarrow> string \<Rightarrow> share_row" where
  "demo_share i u p = \<lparr>sh_id = i, sh_node_id = ''top'', sh_owner_user_id = ''alice'',
     sh_target_user_id = u, sh_permission = p, sh_created_at = 5, sh_revoked_at = None\<rparr>"

definition demo_nodes :: "node_row list" where
  "demo_nodes = [demo_node ''top'' None ''DIRECTORY'' 1 None,
     demo_node ''doc'' (Some ''top'') ''FILE'' 2 None,
     demo_node ''old'' (Some ''top'') ''FILE'' 4 (Some 4)]"

definition demo :: db where
  "demo = empty_db\<lparr>users := map demo_user [''alice'', ''bob'', ''carol''],
     devices := [demo_device ''alice'' ''a1'', demo_device ''bob'' ''b1'', demo_device ''carol'' ''c1''],
     nodes := demo_nodes,
     sync_changes := [demo_change 1 ''top'' ''CREATE'', demo_change 2 ''doc'' ''CREATE'',
       demo_change 3 ''old'' ''CREATE'', demo_change 4 ''old'' ''DELETE''],
     sync_seq := 4,
     shares := [demo_share ''s1'' ''bob'' ''READ_WRITE'', demo_share ''s2'' ''carol'' ''READ''],
     folder_keys := [\<lparr>k_folder_id = ''top'', k_key_version = 1, k_owner_user_id = ''alice'',
       k_owner_envelope = ''e'', k_created_at = 5, k_created_by_device_id = ''a1''\<rparr>]\<rparr>"

lemmas demo_defs = demo_def demo_nodes_def demo_node_def demo_change_def demo_share_def demo_user_def
  demo_device_def empty_db_def

lemma demo_uuid_valid [simp]: "ValidUUID demo_uuid v \<longleftrightarrow> v \<noteq> [] \<and> CHR '':'' \<notin> set v \<and> CHR ''/'' \<notin> set v"
  by (auto simp: ValidUUID_def demo_uuid_def)

lemma demo_uuid_laws: "uuid_laws demo_uuid"
  by (auto simp: uuid_laws_def) (simp add: demo_uuid_def)

lemma demo_forest: "forest demo_nodes"
proof -
  have "forest ((([] @ [demo_node ''top'' None ''DIRECTORY'' 1 None]) @
      [demo_node ''doc'' (Some ''top'') ''FILE'' 2 None]) @ [demo_node ''old'' (Some ''top'') ''FILE'' 4 (Some 4)])"
    by (intro forest_add_leaf) (auto simp: forest_def parents_ok_def par_def acyclic_def demo_node_def)
  then show ?thesis by (simp add: demo_nodes_def)
qed

lemma demo_inv: "vault_inv demo"
proof -
  have "(''top'', ''top'') \<notin> (par demo_nodes)\<^sup>+"
    using demo_forest by (simp add: forest_def acyclic_def)
  then have "scopes_disjoint demo"
    by (auto simp: scopes_disjoint_def keyed_def demo_def empty_db_def)
  moreover have "shares_ok demo"
    by (auto simp: shares_ok_def one_share_def active_share_def keyed_def demo_defs)
  ultimately show ?thesis
    using demo_forest
    by (auto simp: vault_inv_def feed_ok_def tracked_def keys_owned_def ids_ok_def keyed_def demo_defs)
qed

text \<open>Bob renames \<open>doc\<close> and keeps it in \<open>top\<close>; Carol tries the same; Bob adds a file; Alice
  restores \<open>old\<close>.\<close>

definition rename_doc :: "id \<Rightarrow> id \<Rightarrow> id \<Rightarrow> UpdateInput" where
  "rename_doc u d op = \<lparr>ui_UserID = u, ui_DeviceID = d, ui_OperationID = op, ui_NodeID = ''doc'',
     ui_ExpectedRevision = 2, ui_MetadataCiphertext = ''m2'', ui_MetadataKeyVersion = 1,
     ui_MetadataKeyScopeID = ''top'', ui_MoveParent = True, ui_ParentID = Some ''top''\<rparr>"

definition bob_adds :: "id \<Rightarrow> CreateInput" where
  "bob_adds i = \<lparr>ci_ID = i, ci_OwnerID = ''bob'', ci_DeviceID = ''b1'', ci_OperationID = ''op2'',
     ci_ParentID = Some ''top'', ci_NodeType = ''FILE'', ci_MetadataCiphertext = ''m'',
     ci_MetadataKeyVersion = 1, ci_MetadataKeyScopeID = ''top''\<rparr>"

text \<open>The same vault where a folder \<open>ghost\<close> was shared once and purged later: its key is still there.\<close>

definition demo_ghost :: db where
  "demo_ghost = demo\<lparr>folder_keys := folder_keys demo @ [\<lparr>k_folder_id = ''ghost'', k_key_version = 1,
     k_owner_user_id = ''alice'', k_owner_envelope = ''e'', k_created_at = 5, k_created_by_device_id = ''a1''\<rparr>]\<rparr>"

lemma demo_ghost_inv: "vault_inv demo_ghost"
proof -
  have par: "par demo_nodes \<subseteq> {(''doc'', ''top''), (''old'', ''top'')}"
    by (auto simp: par_def demo_nodes_def demo_node_def)
  have "b = ''top'' \<and> a \<noteq> ''top'' \<and> a \<noteq> ''ghost''" if "(a, b) \<in> (par demo_nodes)\<^sup>+" for a b
    using that by (induction rule: trancl_induct) (use par in auto)
  then have "scopes_disjoint demo_ghost"
    by (auto simp: scopes_disjoint_def keyed_def demo_ghost_def demo_def empty_db_def)
  moreover have "shares_ok demo_ghost"
    using demo_inv by (auto simp: vault_inv_def shares_ok_def one_share_def keyed_def demo_ghost_def)
  ultimately show ?thesis
    using demo_inv
    by (auto simp: vault_inv_def feed_ok_def tracked_def keys_owned_def ids_ok_def keyed_def demo_ghost_def demo_defs)
qed

end
