(* ===== verification/HB_Nodes_Props.thy ===== *)
theory HB_Nodes_Props
  imports HB_Nodes_Service HB_Demo
begin

text \<open>
  The properties of the node service (internal/nodes/service.go). Most rest on the facts of the
  interpretation \<open>node_service\<close>; the listings are the interface \<open>keyset_pager\<close>, interpreted on
  \<open>ListChildrenPage\<close> and \<open>ListOwnedRootsPage\<close>.
\<close>

section \<open>Commands by transaction\<close>

fun cmd_tx :: "uuid_pkg \<Rightarrow> time \<Rightarrow> db \<Rightarrow> node_cmd \<Rightarrow> err + tx" where
  "cmd_tx U now s (CreateCmd inp) = Create_tx U now s inp"
| "cmd_tx U now s (UpdateCmd inp) = Update_tx U now s inp"
| "cmd_tx U now s (DeleteCmd u d i op v) = Delete_tx U now s u d i op v"
| "cmd_tx U now s (RestoreCmd u d i op) = Restore_tx U now s u d i op"
| "cmd_tx U now s (RekeyCmd inp) = map_sum id (Committed []) (Rekey_tx U now s inp)"

fun cmd_user :: "node_cmd \<Rightarrow> id" where
  "cmd_user (CreateCmd inp) = ci_OwnerID inp"
| "cmd_user (UpdateCmd inp) = ui_UserID inp"
| "cmd_user (DeleteCmd u d i op v) = u"
| "cmd_user (RestoreCmd u d i op) = u"
| "cmd_user (RekeyCmd inp) = rk_UserID inp"

fun is_rekey :: "node_cmd \<Rightarrow> bool" where
  "is_rekey (RekeyCmd inp) = True"
| "is_rekey _ = False"

lemma node_exec_tx:
  "fst (node_exec U (now, c) s) = (case cmd_tx U now s c of Inr (Committed _ s') \<Rightarrow> s' | _ \<Rightarrow> s)"
  by (cases c) (auto simp: Create_def Update_def Delete_def Restore_def Rekey_def answer_def split: sum.split tx.split)

lemma changed_committed:
  assumes "fst (node_exec U (now, c) s) \<noteq> s"
  obtains i where "cmd_tx U now s c = Inr (Committed i (fst (node_exec U (now, c) s)))"
  using assms that by (auto simp: node_exec_tx split: sum.splits tx.splits)

section \<open>Who may write\<close>

text \<open>\<open>may_write s u i\<close>: the account owns the node, or it lies strictly below a folder shared with
  the account for READ_WRITE.\<close>

definition may_write :: "db \<Rightarrow> id \<Rightarrow> id \<Rightarrow> bool" where
  "may_write s u i \<longleftrightarrow> (\<exists>n\<in>set (nodes s). n_id n = i \<and> n_owner_id n = u) \<or>
     (\<exists>root. shared_with s u root PermissionReadWrite \<and> (i, root) \<in> (par (nodes s))\<^sup>+)"

lemma may_write_owner: "node_of s i = Some r \<Longrightarrow> n_owner_id r = u \<Longrightarrow> may_write s u i"
  unfolding may_write_def using node_of_Some by blast

lemma may_write_grant:
  assumes "forest (nodes s)" "ShareGrant s u i = Inr (Some g)" "CanWrite g" "RootID g \<noteq> i"
  shows "may_write s u i"
  using sg.write_grant [OF assms(1-3)] assms(4)
  unfolding may_write_def below_def by (auto simp: rtrancl_eq_or_trancl)

lemma may_write_authorized:
  assumes "forest (nodes s)" "node_of s i = Some r" "authorizeWrite s u (scanNode r) = Inr root"
  shows "may_write s u i"
proof (cases "n_owner_id r = u")
  case True
  with assms(2) show ?thesis by (rule may_write_owner)
next
  case False
  from authorizeWrite_member [OF False assms(3)] node_of_Some [OF assms(2)] assms(1)
  show ?thesis by (auto intro: may_write_grant)
qed

lemma may_write_cong:
  assumes "par (nodes s') = par (nodes s)" "shares s' = shares s"
    and "\<And>n. n \<in> set (nodes s) \<Longrightarrow> \<exists>n'\<in>set (nodes s'). n_id n' = n_id n \<and> n_owner_id n' = n_owner_id n"
    and "may_write s u i"
  shows "may_write s' u i"
proof -
  consider n where "n \<in> set (nodes s)" "n_id n = i" "n_owner_id n = u"
    | root where "shared_with s u root PermissionReadWrite" "(i, root) \<in> (par (nodes s))\<^sup>+"
    using assms(4) unfolding may_write_def by blast
  then show ?thesis
  proof cases
    case 1
    with assms(3) show ?thesis unfolding may_write_def by fastforce
  next
    case 2
    then show ?thesis unfolding may_write_def using assms(1,2) by (auto simp: shared_with_def)
  qed
qed

text \<open>The rows a commit writes: for all but a creation, those with the command's node IDs.\<close>

lemma upd_changed: "n \<in> set (upd (\<lambda>n. n_id n = i) f ns) \<Longrightarrow> n \<notin> set ns \<Longrightarrow>
  (\<And>n. n_id n = i \<Longrightarrow> n_id (f n) = i) \<Longrightarrow> n_id n = i"
  by (auto simp: set_upd split: if_splits)

lemma rekey_items_written:
  "rekey_items U now s u items = Inr s' \<Longrightarrow> vault_inv s \<Longrightarrow> n \<in> set (nodes s') \<Longrightarrow> n \<notin> set (nodes s) \<Longrightarrow>
   \<exists>r. node_of s (n_id n) = Some r \<and> n_owner_id r = u"
proof (induction items arbitrary: s)
  case (Cons item items)
  then obtain s1 where s1: "rekey_item U now s u item = Inr s1" "rekey_items U now s1 u items = Inr s'" by auto
  note inv1 = rekey_item_inv [OF Cons.prems(2) s1(1)]
  obtain r where r: "node_of s (ri_NodeID item) = Some r" "n_owner_id r = u"
    using rekey_item_node(2) [OF s1(1)] by blast
  have origin: "\<exists>r. node_of s j = Some r \<and> n_owner_id r = u" if "node_of s1 j = Some r1" "n_owner_id r1 = u" for j r1
    using that r rekey_item_node(1) [OF s1(1), of j] by (cases "j = ri_NodeID item") auto
  show ?case
  proof (cases "n \<in> set (nodes s1)")
    case True
    have "n_id n = ri_NodeID item"
    proof (rule ccontr)
      assume ne: "n_id n \<noteq> ri_NodeID item"
      from True have "node_of s1 (n_id n) = Some n" using node_of_iff [OF vault_invD(8) [OF inv1]] by simp
      with rekey_item_node(1) [OF s1(1) ne] have "node_of s (n_id n) = Some n" by simp
      with node_of_Some Cons.prems(4) show False by blast
    qed
    with r show ?thesis by simp
  next
    case False
    from Cons.IH [OF s1(2) inv1 Cons.prems(3) False] origin show ?thesis by blast
  qed
qed simp

lemma par_mono_append: "par ns \<subseteq> par (ns @ ms)"
  by (auto simp: par_def)

lemma written_create:
  assumes inv: "vault_inv s" and c: "Create_tx U now s inp = Inr (Committed i s')"
    and n: "n \<in> set (nodes s')" "n \<notin> set (nodes s)"
  shows "may_write s' (ci_OwnerID inp) (n_id n) \<and> n_id n \<notin> n_id ` set (nodes s)"
proof -
  from c obtain owner root scope where own: "createOwner s inp = Inr (owner, root)"
    and fresh: "ci_ID inp \<notin> n_id ` set (nodes s)"
    and s': "s' = commits s (nodes s @ [created_row now s inp owner scope])
       (change_of now s owner (ci_ID inp) ''CREATE'')
       (operation_of now s (ci_OperationID inp) (ci_OwnerID inp) (ci_DeviceID inp) ''NODE_CREATE'' (ci_ID inp))"
    by (rule Create_committed)
  let ?m = "created_row now s inp owner scope"
  from n have n: "n = ?m" by (simp add: s')
  have id: "n_id ?m = ci_ID inp" "n_owner_id ?m = owner" "n_parent_id ?m = ci_ParentID inp"
    by (simp_all add: created_row_def)
  from own have "may_write s' (ci_OwnerID inp) (ci_ID inp)"
  proof (cases rule: createOwner_cases)
    case 1
    then show ?thesis unfolding may_write_def using id by (auto simp: s')
  next
    case (2 p g)
    from sg.write_grant [OF vault_invD(1) [OF inv] 2(3,4)] have
      sh: "shared_with s (ci_OwnerID inp) (RootID g) PermissionReadWrite" and
      up: "(p, RootID g) \<in> (par (nodes s))\<^sup>*" by (auto simp: below_def)
    have "(ci_ID inp, p) \<in> par (nodes s')" using 2(2) id by (auto simp: s' par_add_leaf)
    moreover have "(p, RootID g) \<in> (par (nodes s'))\<^sup>*"
      using up rtrancl_mono [OF par_mono_append] by (auto simp: s')
    ultimately have "(ci_ID inp, RootID g) \<in> (par (nodes s'))\<^sup>+" by (rule rtrancl_into_trancl2)
    moreover have "shared_with s' (ci_OwnerID inp) (RootID g) PermissionReadWrite"
      using sh by (simp add: shared_with_def s')
    ultimately show ?thesis unfolding may_write_def by blast
  qed
  with fresh n id show ?thesis by simp
qed

text \<open>C6: Authorization of writes. Whatever a node command of an account writes - a new row or a
  changed one - is a node that account owns or one strictly below a folder shared with it for
  READ_WRITE, in the vault before the command (unless the node is new) and in the vault after it.
  A READ recipient changes nothing, and a member never changes the shared root itself.\<close>

theorem writes_authorized:
  assumes inv: "vault_inv s" and U: "uuid_laws U" and ok: "node_ok (now, c) s"
    and n: "n \<in> set (nodes (fst (node_exec U (now, c) s)))" "n \<notin> set (nodes s)"
  shows "may_write (fst (node_exec U (now, c) s)) (cmd_user c) (n_id n) \<and>
    (n_id n \<in> n_id ` set (nodes s) \<longrightarrow> may_write s (cmd_user c) (n_id n))"
proof -
  let ?s = "fst (node_exec U (now, c) s)"
  have inv': "vault_inv ?s" using node_service.inv_exec [of s U "(now, c)"] inv U ok by simp
  from n have "?s \<noteq> s" by auto
  then obtain i where tx: "cmd_tx U now s c = Inr (Committed i ?s)" by (rule changed_committed)
  have keep: "may_write ?s u j" if "par (nodes ?s) = par (nodes s)" "shares ?s = shares s"
    "nodes ?s = upd p f (nodes s)" "\<And>n. p n \<Longrightarrow> n_id (f n) = n_id n \<and> n_owner_id (f n) = n_owner_id n"
    "may_write s u j" for p f u j
  proof (rule may_write_cong [OF that(1,2) _ that(5)])
    fix n assume "n \<in> set (nodes s)"
    then show "\<exists>n'\<in>set (nodes ?s). n_id n' = n_id n \<and> n_owner_id n' = n_owner_id n"
      using that(4) unfolding that(3) set_upd by (intro bexI [of _ "if p n then f n else n"]) auto
  qed
  show ?thesis
  proof (cases c)
    case (CreateCmd inp)
    with tx written_create [OF inv _ n] show ?thesis by simp
  next
    case (UpdateCmd inp)
    with tx have tx: "Update_tx U now s inp = Inr (Committed i ?s)" by simp
    then obtain r0 root scope where "authorizeWrite s (ui_UserID inp) (scanNode r0) = Inr root"
      and s': "?s = commits s (upd (\<lambda>n. n_id n = ui_NodeID inp)
         (update_row inp (StoredScope scope (n_owner_id r0)) (sync_seq s + 1) now) (nodes s))
       (change_of now s (n_owner_id r0) (ui_NodeID inp) ''UPDATE'')
       (operation_of now s (ui_OperationID inp) (ui_UserID inp) (ui_DeviceID inp) ''NODE_UPDATE'' (ui_NodeID inp))"
      by (rule Update_committed)
    have id: "n_id n = ui_NodeID inp"
      by (rule upd_changed [OF n(1) [unfolded s' commits_simps] n(2)]) simp
    from Update_grant [OF inv inv' tx] obtain r sc where r: "node_of s i = Some r" "i = ui_NodeID inp"
      "node_of ?s i = Some (update_row inp sc (sync_seq s + 1) now r)"
      and acc: "n_owner_id r = ui_UserID inp \<or> (\<exists>g g'. ShareGrant s (ui_UserID inp) i = Inr (Some g) \<and> CanWrite g \<and>
       RootID g \<noteq> i \<and> ShareGrant ?s (ui_UserID inp) i = Inr (Some g') \<and> CanWrite g' \<and> RootID g' = RootID g)"
      by metis
    from acc have "may_write s (ui_UserID inp) i \<and> may_write ?s (ui_UserID inp) i"
      using may_write_owner [OF r(1)] may_write_owner [OF r(3)]
        may_write_grant [OF vault_invD(1) [OF inv]] may_write_grant [OF vault_invD(1) [OF inv']] by fastforce
    with id r(2) UpdateCmd show ?thesis by simp
  next
    case (DeleteCmd u d j op v)
    with tx have "Delete_tx U now s u d j op v = Inr (Committed i ?s)" by simp
    then obtain r root where r: "node_of s j = Some r" "authorizeWrite s u (scanNode r) = Inr root"
      and s': "?s = commits s (upd (\<lambda>n. n_id n = j)
         (\<lambda>n. n\<lparr>n_deleted_at := Some now, n_revision := sync_seq s + 1, n_updated_at := now\<rparr>) (nodes s))
       (change_of now s (n_owner_id r) j ''DELETE'') (operation_of now s op u d ''NODE_DELETE'' j)"
      by (rule Delete_committed)
    have id: "n_id n = j" by (rule upd_changed [OF n(1) [unfolded s' commits_simps] n(2)]) simp
    have "may_write s u j" by (rule may_write_authorized [OF vault_invD(1) [OF inv] r])
    moreover have "nodes ?s = upd (\<lambda>n. n_id n = j)
         (\<lambda>n. n\<lparr>n_deleted_at := Some now, n_revision := sync_seq s + 1, n_updated_at := now\<rparr>) (nodes s)"
      unfolding s' by simp
    then have "may_write ?s u j"
      by (rule keep [rotated 2]) (use calculation in \<open>auto simp: s' intro!: par_upd_same\<close>)
    ultimately show ?thesis using id DeleteCmd by simp
  next
    case (RestoreCmd u d j op)
    with tx have "Restore_tx U now s u d j op = Inr (Committed i ?s)" by simp
    then obtain r where r: "node_of s j = Some r" "n_owner_id r = u" and s': "?s = commits s (upd (\<lambda>n. n_id n = j)
         (restored_row (restores_to_root s r) (sync_seq s + 1) now) (nodes s))
       (change_of now s u j ''RESTORE'') (operation_of now s op u d ''NODE_RESTORE'' j)"
      by (rule Restore_committed)
    have id: "n_id n = j" by (rule upd_changed [OF n(1) [unfolded s' commits_simps] n(2)]) simp
    have "node_of ?s j = Some (restored_row (restores_to_root s r) (sync_seq s + 1) now r)"
      by (rule node_of_upd_same [OF _ _ r(1)]) (simp_all add: s')
    then show ?thesis using id RestoreCmd may_write_owner r by fastforce
  next
    case (RekeyCmd inp)
    with tx have items: "rekey_items U now s (rk_UserID inp) (rk_Items inp) = Inr ?s"
      by (auto dest!: Rekey_tx_done(4) simp: map_sum_def split: sum.splits)
    from rekey_items_written [OF items inv n] obtain r where r: "node_of s (n_id n) = Some r" "n_owner_id r = rk_UserID inp"
      by blast
    with rekey_items_extends [OF inv items] obtain r' where "node_of ?s (n_id n) = Some r'" "n_owner_id r' = rk_UserID inp"
      unfolding extends_def by metis
    with r RekeyCmd show ?thesis using may_write_owner by auto
  qed
qed

theorem writes_authorized_witness:
  "may_write (fst (node_exec demo_uuid (10, UpdateCmd (rename_doc ''bob'' ''b1'' ''op1'')) demo)) ''bob'' ''doc'' \<and>
   may_write demo ''bob'' ''doc''"
proof -
  let ?c = "UpdateCmd (rename_doc ''bob'' ''b1'' ''op1'')"
  let ?s = "fst (node_exec demo_uuid (10, ?c) demo)"
  have n: "nodes ?s ! 1 \<in> set (nodes ?s)" "nodes ?s ! 1 \<notin> set (nodes demo)" by code_simp+
  have ok: "node_ok (10, ?c) demo" by simp
  have id: "n_id (nodes ?s ! 1) = ''doc''" "cmd_user ?c = ''bob''" by code_simp+
  have "''doc'' \<in> n_id ` set (nodes demo)" by code_simp
  with writes_authorized [OF demo_inv demo_uuid_laws ok n] show ?thesis by (simp only: id)
qed

section \<open>The invariant and failures\<close>

text \<open>Every sequence of node commands - create, update, delete, restore and rekey, by any
  accounts, with any arguments - keeps the vault well formed: the node table stays a forest of
  directories of one owner without cycles, revisions increase, every node carries the revision of
  its latest change, shared folders stay disjoint and shares stay on keyed folders of their owner.
  The one side condition on a command is \<open>node_ok\<close>.\<close>

theorem nodes_keep_invariant:
  assumes "vault_inv s" "uuid_laws U" "run_ok node_ok (node_exec U) cs s"
  shows "vault_inv (run_cmds (node_exec U) cs s)"
  using node_service.inv_run [of s U cs] assms by simp

theorem nodes_keep_invariant_witness:
  "vault_inv (run_cmds (node_exec demo_uuid)
     [(10, UpdateCmd (rename_doc ''bob'' ''b1'' ''op1'')), (11, CreateCmd (bob_adds ''new'')),
      (12, DeleteCmd ''bob'' ''b1'' ''new'' ''op3'' 6), (13, RestoreCmd ''alice'' ''a1'' ''old'' ''op4'')] demo)"
  by (rule nodes_keep_invariant [OF demo_inv demo_uuid_laws]) code_simp

text \<open>A node command that answers with an error has changed nothing - in particular, an answer
  read after the commit never fails. So the client may retry an error without seeing half an
  operation.\<close>

theorem failed_command_changes_nothing:
  assumes "vault_inv s" "uuid_laws U" "snd (node_exec U c s) = Inl e"
  shows "fst (node_exec U c s) = s"
  using node_service.fail_frame [of s U c e] assms by simp

theorem failed_command_changes_nothing_witness:
  "fst (node_exec demo_uuid (10, UpdateCmd (rename_doc ''carol'' ''c1'' ''op1'')) demo) = demo"
  by (rule failed_command_changes_nothing [OF demo_inv demo_uuid_laws, where e = NodesForbidden]) code_simp

section \<open>Optimistic concurrency\<close>

lemma Update_committed_revision:
  "Update_tx U now s inp = Inr (Committed i s') \<Longrightarrow>
   i = ui_NodeID inp \<and> (\<exists>r r'. node_of s i = Some r \<and> n_revision r = ui_ExpectedRevision inp \<and>
     node_of s' i = Some r' \<and> n_revision r' = sync_seq s + 1)"
proof -
  assume "Update_tx U now s inp = Inr (Committed i s')"
  then obtain r scope where i: "i = ui_NodeID inp" and r: "node_of s (ui_NodeID inp) = Some r"
      "n_revision r = ui_ExpectedRevision inp"
    and ns: "nodes s' = upd (\<lambda>n. n_id n = ui_NodeID inp)
         (update_row inp (StoredScope scope (n_owner_id r)) (sync_seq s + 1) now) (nodes s)"
    by (rule Update_committed) (metis commits_simps(1))
  have "node_of s' (ui_NodeID inp) = Some (update_row inp (StoredScope scope (n_owner_id r)) (sync_seq s + 1) now r)"
    by (rule node_of_upd_same [OF _ ns r(1)]) simp
  with i r show ?thesis by simp
qed

text \<open>C7: No lost update. After an update of a node has been applied, an update of that node made
  from the same revision by any account is never applied, whatever node commands come in between:
  the expected revision is stale for good.\<close>

theorem no_lost_update:
  assumes inv: "vault_inv s" and U: "uuid_laws U" and a: "Update_tx U now s a = Inr (Committed i s')"
    and run: "run_ok node_ok (node_exec U) cs s'"
    and b: "ui_NodeID b = ui_NodeID a" "ui_ExpectedRevision b = ui_ExpectedRevision a"
  shows "Update_tx U now' (run_cmds (node_exec U) cs s') b \<noteq> Inr (Committed j s'')"
proof
  assume "Update_tx U now' (run_cmds (node_exec U) cs s') b = Inr (Committed j s'')"
  with Update_committed_revision obtain r2 where
    r2: "node_of (run_cmds (node_exec U) cs s') (ui_NodeID b) = Some r2" "n_revision r2 = ui_ExpectedRevision b"
    by blast
  from Update_committed_revision [OF a] obtain r r' where r: "node_of s i = Some r" "n_revision r = ui_ExpectedRevision a"
    and r': "node_of s' (ui_NodeID a) = Some r'" "n_revision r' = sync_seq s + 1" by auto
  have "n_revision r \<le> sync_seq s" using tracked_le [OF inv] node_of_Some [OF r(1)] by blast
  moreover have "n_revision r' \<le> n_revision r2"
    using run_extends [OF Update_inv [OF inv a] U run] r'(1) r2(1) b(1) unfolding extends_def by fastforce
  ultimately show False using r r' r2 b(2) by simp
qed

theorem no_lost_update_witness:
  "\<forall>j s''. Update_tx demo_uuid 20 (run_cmds (node_exec demo_uuid) [(11, CreateCmd (bob_adds ''new''))]
     (fst (node_exec demo_uuid (10, UpdateCmd (rename_doc ''bob'' ''b1'' ''op1'')) demo)))
     (rename_doc ''alice'' ''a1'' ''op9'') \<noteq> Inr (Committed j s'')"
proof (intro allI)
  fix j s''
  let ?s = "fst (node_exec demo_uuid (10, UpdateCmd (rename_doc ''bob'' ''b1'' ''op1'')) demo)"
  have "?s \<noteq> demo" by (rule notI, drule arg_cong [where f = sync_seq]) code_simp
  then obtain i where "cmd_tx demo_uuid 10 demo (UpdateCmd (rename_doc ''bob'' ''b1'' ''op1'')) = Inr (Committed i ?s)"
    by (rule changed_committed)
  then have c: "Update_tx demo_uuid 10 demo (rename_doc ''bob'' ''b1'' ''op1'') = Inr (Committed i ?s)"
    by (simp only: cmd_tx.simps)
  show "Update_tx demo_uuid 20 (run_cmds (node_exec demo_uuid) [(11, CreateCmd (bob_adds ''new''))] ?s)
     (rename_doc ''alice'' ''a1'' ''op9'') \<noteq> Inr (Committed j s'')"
    by (rule no_lost_update [OF demo_inv demo_uuid_laws c]) code_simp+
qed

section \<open>Idempotent retries\<close>

lemma recorded_replay:
  assumes U: "uuid_laws U" "ValidUUID U i" and new: "\<forall>r\<in>set ops. o_operation_id r \<noteq> op"
    and recorded: "processed_operations s'' = (ops @ [operation_of now s op u d kind i]) @ rest"
    and bound: "- (2 ^ 63) \<le> sync_seq s + 1" "sync_seq s + 1 < 2 ^ 63"
  shows "replayIfProcessed U s'' op u kind = Inr (Some (i, sync_seq s + 1))"
proof -
  have "find (\<lambda>r. o_operation_id r = op) ops = None" using new by (simp add: find_None_iff)
  then have find: "find (\<lambda>r. o_operation_id r = op) (processed_operations s'') = Some (operation_of now s op u d kind i)"
    by (simp add: recorded find_append operation_of_def)
  have "CHR '':'' \<notin> set i" "uuid_Validate U i" using U by (auto simp: uuid_laws_def)
  with ParseInt_FormatInt [OF bound] show ?thesis
    by (simp add: replayIfProcessed_def find operation_of_def cut_join)
qed

lemma committed_replays:
  assumes U: "uuid_laws U" and c: "cmd_tx U now s c = Inr (Committed i s')" "\<not> is_rekey c"
    and ops: "processed_operations s'' = processed_operations s' @ rest"
    and bound: "- (2 ^ 63) \<le> sync_seq s + 1" "sync_seq s + 1 < 2 ^ 63"
  shows "cmd_tx U now' s'' c = Inr (Replayed i)"
proof (cases c)
  case (CreateCmd inp)
  with c have tx: "Create_tx U now s inp = Inr (Committed i s')" by simp
  then obtain owner root scope where i: "i = ci_ID inp" and id: "ValidUUID U (ci_ID inp)"
    and new: "\<forall>r\<in>set (processed_operations s). o_operation_id r \<noteq> ci_OperationID inp"
    and s': "s' = commits s (nodes s @ [created_row now s inp owner scope])
       (change_of now s owner (ci_ID inp) ''CREATE'')
       (operation_of now s (ci_OperationID inp) (ci_OwnerID inp) (ci_DeviceID inp) ''NODE_CREATE'' (ci_ID inp))"
    by (rule Create_committed)
  have "processed_operations s'' = (processed_operations s @ [operation_of now s (ci_OperationID inp)
      (ci_OwnerID inp) (ci_DeviceID inp) ''NODE_CREATE'' (ci_ID inp)]) @ rest" using ops by (simp add: s')
  from recorded_replay [OF U id new this bound] tx show ?thesis
    by (simp add: CreateCmd i Create_tx_def split: if_split_asm)
next
  case (UpdateCmd inp)
  with c have tx: "Update_tx U now s inp = Inr (Committed i s')" by simp
  then obtain r root scope where i: "i = ui_NodeID inp" and id: "ValidUUID U (ui_NodeID inp)"
    and "authorizeWrite s (ui_UserID inp) (scanNode r) = Inr root"
    and new: "\<forall>r\<in>set (processed_operations s). o_operation_id r \<noteq> ui_OperationID inp"
    and s': "s' = commits s (upd (\<lambda>n. n_id n = ui_NodeID inp)
         (update_row inp (StoredScope scope (n_owner_id r)) (sync_seq s + 1) now) (nodes s))
       (change_of now s (n_owner_id r) (ui_NodeID inp) ''UPDATE'')
       (operation_of now s (ui_OperationID inp) (ui_UserID inp) (ui_DeviceID inp) ''NODE_UPDATE'' (ui_NodeID inp))"
    by (rule Update_committed)
  have "processed_operations s'' = (processed_operations s @ [operation_of now s (ui_OperationID inp)
      (ui_UserID inp) (ui_DeviceID inp) ''NODE_UPDATE'' (ui_NodeID inp)]) @ rest" using ops by (simp add: s')
  from recorded_replay [OF U id new this bound] tx show ?thesis
    by (simp add: UpdateCmd i Update_tx_def split: if_split_asm)
next
  case (DeleteCmd u d j op v)
  with c have tx: "Delete_tx U now s u d j op v = Inr (Committed i s')" by simp
  then obtain r root where i: "i = j" and id: "ValidUUID U j" and "authorizeWrite s u (scanNode r) = Inr root"
    and new: "\<forall>r\<in>set (processed_operations s). o_operation_id r \<noteq> op"
    and s': "s' = commits s (upd (\<lambda>n. n_id n = j)
         (\<lambda>n. n\<lparr>n_deleted_at := Some now, n_revision := sync_seq s + 1, n_updated_at := now\<rparr>) (nodes s))
       (change_of now s (n_owner_id r) j ''DELETE'') (operation_of now s op u d ''NODE_DELETE'' j)"
    by (rule Delete_committed)
  have "processed_operations s'' = (processed_operations s @ [operation_of now s op u d ''NODE_DELETE'' j]) @ rest"
    using ops by (simp add: s')
  from recorded_replay [OF U id new this bound] tx show ?thesis
    by (simp add: DeleteCmd i Delete_tx_def split: if_split_asm)
next
  case (RestoreCmd u d j op)
  with c have tx: "Restore_tx U now s u d j op = Inr (Committed i s')" by simp
  then obtain r where i: "i = j" and id: "ValidUUID U j" and "node_of s j = Some r"
    and new: "\<forall>r\<in>set (processed_operations s). o_operation_id r \<noteq> op"
    and s': "s' = commits s (upd (\<lambda>n. n_id n = j)
         (restored_row (restores_to_root s r) (sync_seq s + 1) now) (nodes s))
       (change_of now s u j ''RESTORE'') (operation_of now s op u d ''NODE_RESTORE'' j)"
    by (rule Restore_committed)
  have "processed_operations s'' = (processed_operations s @ [operation_of now s op u d ''NODE_RESTORE'' j]) @ rest"
    using ops by (simp add: s')
  from recorded_replay [OF U id new this bound] tx show ?thesis
    by (simp add: RestoreCmd i Restore_tx_def split: if_split_asm)
qed (use c(2) in simp)

text \<open>C9: Retries are idempotent. Once a create, update, delete or restore has been applied, the
  same request sent again - at any later time, after any other node commands - is answered from the
  recorded operation and changes nothing, as long as the global revision stays below \<open>2^63\<close>.\<close>

theorem retry_changes_nothing:
  assumes inv: "vault_inv s" and U: "uuid_laws U"
    and c: "cmd_tx U now s c = Inr (Committed i s')" "\<not> is_rekey c"
    and ok: "node_ok (now, c) s" and run: "run_ok node_ok (node_exec U) cs s'" and bound: "sync_seq s' < 2 ^ 63"
  shows "cmd_tx U now' (run_cmds (node_exec U) cs s') c = Inr (Replayed i) \<and>
    fst (node_exec U (now', c) (run_cmds (node_exec U) cs s')) = run_cmds (node_exec U) cs s'"
proof -
  have s': "fst (node_exec U (now, c) s) = s'" by (simp add: node_exec_tx c(1))
  have inv': "vault_inv s'" using node_service.inv_exec [of s U "(now, c)"] inv U ok s' by simp
  from run_extends [OF inv' U run] obtain rest where
    ops: "processed_operations (run_cmds (node_exec U) cs s') = processed_operations s' @ rest"
    unfolding extends_def by blast
  have "0 \<le> sync_seq s" using vault_invD(2) [OF inv] by (simp add: feed_ok_def)
  moreover have "sync_seq s' = sync_seq s + 1"
    using c by (cases c) (auto elim: Create_committed Update_committed Delete_committed Restore_committed)
  ultimately have "- (2 ^ 63) \<le> sync_seq s + 1" "sync_seq s + 1 < 2 ^ 63" using bound by simp_all
  from committed_replays [OF U c ops this] show ?thesis by (simp add: node_exec_tx)
qed

theorem retry_changes_nothing_witness:
  "\<exists>i s'. cmd_tx demo_uuid 10 demo (CreateCmd (bob_adds ''new'')) = Inr (Committed i s') \<and>
     fst (node_exec demo_uuid (99, CreateCmd (bob_adds ''new'')) s') = s'"
proof -
  let ?c = "CreateCmd (bob_adds ''new'')"
  let ?s = "fst (node_exec demo_uuid (10, ?c) demo)"
  have "?s \<noteq> demo" by (rule notI, drule arg_cong [where f = sync_seq]) code_simp
  then obtain i where c: "cmd_tx demo_uuid 10 demo ?c = Inr (Committed i ?s)" by (rule changed_committed)
  have ok: "node_ok (10, ?c) demo" by code_simp
  have bound: "sync_seq ?s < 2 ^ 63" by code_simp
  from retry_changes_nothing [OF demo_inv demo_uuid_laws c _ ok _ bound, where cs = "[]" and now' = 99]
  show ?thesis using c by (simp only: run_cmds.simps run_ok.simps is_rekey.simps) blast
qed

section \<open>Restoring\<close>

lemma up_joins:
  assumes "(i, j) \<in> (par ns)\<^sup>*" "distinct (map n_id ns)" "parents_ok ns"
    and "a \<in> set ns" "n_id a = i" "n \<in> set ns" "n_id n = j"
  shows "(a, n) \<in> (joins_rel (\<lambda>a n. n_parent_id a = Some (n_id n)) ns)\<^sup>*"
  using assms(1,4,5)
proof (induction arbitrary: a rule: converse_rtrancl_induct)
  case base
  with assms distinct_map_eq [OF assms(2) base(1) assms(6)] show ?case by simp
next
  case (step y z)
  from step.hyps(1) obtain m where "m \<in> set ns" "n_id m = y" "n_parent_id m = Some z" by (auto simp: par_def)
  then have a: "n_parent_id a = Some z" using distinct_map_eq [OF assms(2) step.prems(1)] step.prems(2) by auto
  from par_range [OF assms(3) step.hyps(1)] obtain b where b: "b \<in> set ns" "n_id b = z" by auto
  with a have "(a, b) \<in> joins_rel (\<lambda>a n. n_parent_id a = Some (n_id n)) ns" by (simp add: joins_rel_def)
  then show ?case using step.IH [OF b] by (rule converse_rtrancl_into_rtrancl)
qed

lemma joins_up:
  "(a, n) \<in> (joins_rel (\<lambda>a n. n_parent_id a = Some (n_id n)) ns)\<^sup>* \<Longrightarrow> a \<in> set ns \<Longrightarrow>
   n \<in> set ns \<and> (n_id a, n_id n) \<in> (par ns)\<^sup>*"
proof (induction rule: rtrancl_induct)
  case (step b c)
  then have "(n_id b, n_id c) \<in> par ns" by (auto simp: joins_rel_def par_def)
  with step show ?case by (auto simp: joins_rel_def intro: rtrancl_into_rtrancl)
qed simp

lemma hasDeletedAncestor_iff:
  assumes "distinct (map n_id (nodes s))" "parents_ok (nodes s)" "p \<in> n_id ` set (nodes s)"
  shows "hasDeletedAncestor s p \<longleftrightarrow> (\<exists>n\<in>set (nodes s). (p, n_id n) \<in> (par (nodes s))\<^sup>* \<and> n_deleted_at n \<noteq> None)"
proof -
  let ?J = "\<lambda>a n. n_parent_id a = Some (n_id n)"
  let ?as = "cte_union ?J (nodes s) (filter (\<lambda>n. n_id n = p) (nodes s))"
  from assms(3) obtain a where a: "a \<in> set (nodes s)" "n_id a = p" by blast
  have only_a: "set (filter (\<lambda>n. n_id n = p) (nodes s)) = {a}"
  proof -
    have "n = a" if "n \<in> set (nodes s)" "n_id n = p" for n
      using distinct_map_eq [OF assms(1) that(1) a(1)] that(2) a(2) by simp
    with a show ?thesis unfolding set_filter by blast
  qed
  have as: "n \<in> set ?as \<longleftrightarrow> n \<in> set (nodes s) \<and> (p, n_id n) \<in> (par (nodes s))\<^sup>*" for n
  proof -
    have "n \<in> set ?as \<longleftrightarrow> (\<exists>b\<in>set (filter (\<lambda>n. n_id n = p) (nodes s)). (b, n) \<in> (joins_rel ?J (nodes s))\<^sup>*)"
      by (rule cte_union_iff) auto
    also have "\<dots> \<longleftrightarrow> (a, n) \<in> (joins_rel ?J (nodes s))\<^sup>*"
      by (simp only: only_a) simp
    also have "\<dots> \<longleftrightarrow> n \<in> set (nodes s) \<and> (p, n_id n) \<in> (par (nodes s))\<^sup>*"
      using joins_up [of a n "nodes s"] up_joins [OF _ assms(1,2) a, of "n_id n" n] a by blast
    finally show ?thesis .
  qed
  then have "a \<in> set ?as" using a by simp
  with a(2) have "\<exists>a\<in>set ?as. n_id a = p" by blast
  then show ?thesis unfolding hasDeletedAncestor_def Let_def using as by blast
qed

text \<open>A restored node is visible again: after a restore has been applied, neither the node nor any
  folder above it is in Trash. Where a folder above is itself in Trash, the node moves to the root.\<close>

theorem restore_leaves_trash:
  assumes inv: "vault_inv s" and c: "Restore_tx U now s u d i op = Inr (Committed j s')"
    and n: "n \<in> set (nodes s')" "(i, n_id n) \<in> (par (nodes s'))\<^sup>*"
  shows "n_deleted_at n = None"
proof -
  note D = vault_invD [OF inv]
  from c obtain r where r: "node_of s i = Some r" and s': "s' = commits s (upd (\<lambda>n. n_id n = i)
         (restored_row (restores_to_root s r) (sync_seq s + 1) now) (nodes s))
       (change_of now s u i ''RESTORE'') (operation_of now s op u d ''NODE_RESTORE'' i)"
    by (rule Restore_committed)
  let ?f = "restored_row (restores_to_root s r) (sync_seq s + 1) now"
  from node_of_Some [OF r] have ri: "r \<in> set (nodes s)" "n_id r = i" by simp_all
  from n(1) obtain m where m: "m \<in> set (nodes s)" "n = (if n_id m = i then ?f m else m)"
    by (auto simp: s' set_upd)
  show ?thesis
  proof (cases "n_id m = i")
    case False
    with m have nm: "n = m" "n_id n \<noteq> i" by auto
    with n(2) obtain p where p: "(i, p) \<in> par (nodes s')" "(p, n_id n) \<in> (par (nodes s'))\<^sup>*"
      by (auto elim: converse_rtranclE)
    have edges: "par (nodes s') \<subseteq> par (nodes s)"
      unfolding s' commits_simps by (auto simp: par_def set_upd split: if_splits)
    have toRoot: "\<not> restores_to_root s r"
    proof
      assume "restores_to_root s r"
      then have "par (nodes s') \<subseteq> {(a, b) \<in> par (nodes s). a \<noteq> i} \<union> {(i, p) | p. None = Some p}"
        unfolding s' commits_simps by (intro par_move) simp
      with p(1) show False by auto
    qed
    have "n_parent_id r = Some p"
    proof -
      from p(1) edges obtain r' where "r' \<in> set (nodes s)" "n_id r' = i" "n_parent_id r' = Some p"
        by (auto simp: par_def)
      with distinct_map_eq [OF D(8) ri(1)] ri(2) show ?thesis by auto
    qed
    with toRoot have "\<not> hasDeletedAncestor s p" by (simp add: restores_to_root_def)
    moreover have "p \<in> n_id ` set (nodes s)" using p(1) edges by (auto intro: par_range [OF D(9)])
    moreover have "(p, n_id n) \<in> (par (nodes s))\<^sup>*" using p(2) rtrancl_mono [OF edges] by blast
    ultimately show ?thesis using hasDeletedAncestor_iff [OF D(8,9)] m(1) nm(1) by blast
  qed (use m in simp)
qed

theorem restore_leaves_trash_witness:
  "n_deleted_at (nodes (fst (Restore demo_uuid 13 demo ''alice'' ''a1'' ''old'' ''op4'')) ! 2) = None \<and>
   n_id (nodes (fst (Restore demo_uuid 13 demo ''alice'' ''a1'' ''old'' ''op4'')) ! 2) = ''old'' \<and>
   n_deleted_at (nodes demo ! 2) = Some 4"
proof -
  let ?c = "RestoreCmd ''alice'' ''a1'' ''old'' ''op4''"
  let ?s = "fst (node_exec demo_uuid (13, ?c) demo)"
  have s: "fst (Restore demo_uuid 13 demo ''alice'' ''a1'' ''old'' ''op4'') = ?s" by simp
  have "?s \<noteq> demo" by (rule notI, drule arg_cong [where f = sync_seq]) code_simp
  then obtain i where "cmd_tx demo_uuid 13 demo ?c = Inr (Committed i ?s)" by (rule changed_committed)
  then have "Restore_tx demo_uuid 13 demo ''alice'' ''a1'' ''old'' ''op4'' = Inr (Committed i ?s)"
    by (simp only: cmd_tx.simps)
  note leaves = restore_leaves_trash [OF demo_inv this]
  have id: "n_id (nodes ?s ! 2) = ''old''" by code_simp
  have "nodes ?s ! 2 \<in> set (nodes ?s)" by code_simp
  then have "n_deleted_at (nodes ?s ! 2) = None" by (rule leaves) (simp only: id rtrancl.rtrancl_refl)
  moreover have "n_deleted_at (nodes demo ! 2) = Some 4" by code_simp
  ultimately show ?thesis unfolding s using id by blast
qed

section \<open>The effect of one command\<close>

text \<open>C10: Effect and frame of a mutation. An applied create, update, delete or restore appends exactly
  one change to the feed, stamped with the next global revision and addressed to the account that
  owns the node; the node carries that revision; every other node, every share and every key is as
  before.\<close>

theorem mutation_effect:
  assumes inv: "vault_inv s" and c: "cmd_tx U now s c = Inr (Committed i s')" "\<not> is_rekey c"
  shows "\<exists>r ch. node_of s' i = Some r \<and> sync_changes s' = sync_changes s @ [ch] \<and>
    n_revision r = sync_seq s + 1 \<and> sync_seq s' = sync_seq s + 1 \<and> c_revision ch = sync_seq s + 1 \<and>
    c_node_id ch = i \<and> c_user_scope_id ch = n_owner_id r \<and>
    (\<forall>j. j \<noteq> i \<longrightarrow> node_of s' j = node_of s j) \<and> shares s' = shares s \<and> folder_keys s' = folder_keys s"
proof (cases c)
  case (CreateCmd inp)
  with c have tx: "Create_tx U now s inp = Inr (Committed i s')" by simp
  then obtain owner root scope where i: "i = ci_ID inp" and own: "createOwner s inp = Inr (owner, root)"
    and fresh: "ci_ID inp \<notin> n_id ` set (nodes s)"
    and s': "s' = commits s (nodes s @ [created_row now s inp owner scope])
       (change_of now s owner (ci_ID inp) ''CREATE'')
       (operation_of now s (ci_OperationID inp) (ci_OwnerID inp) (ci_DeviceID inp) ''NODE_CREATE'' (ci_ID inp))"
    by (rule Create_committed)
  have "distinct (map n_id (nodes s'))" using Create_forest [OF inv tx] by (simp add: forest_def)
  then have "node_of s' i = Some (created_row now s inp owner scope)"
    by (simp add: node_of_iff) (simp add: s' i created_row_def)
  moreover have "node_of s' j = node_of s j" if "j \<noteq> i" for j
    using that by (simp add: node_of_def s' find_append i created_row_def split: option.split)
  ultimately show ?thesis by (simp add: s' i created_row_def)
next
  case (UpdateCmd inp)
  with c have "Update_tx U now s inp = Inr (Committed i s')" by simp
  then obtain r root scope where i: "i = ui_NodeID inp" and r: "node_of s (ui_NodeID inp) = Some r"
    and "authorizeWrite s (ui_UserID inp) (scanNode r) = Inr root"
    and s': "s' = commits s (upd (\<lambda>n. n_id n = ui_NodeID inp)
         (update_row inp (StoredScope scope (n_owner_id r)) (sync_seq s + 1) now) (nodes s))
       (change_of now s (n_owner_id r) (ui_NodeID inp) ''UPDATE'')
       (operation_of now s (ui_OperationID inp) (ui_UserID inp) (ui_DeviceID inp) ''NODE_UPDATE'' (ui_NodeID inp))"
    by (rule Update_committed)
  let ?f = "update_row inp (StoredScope scope (n_owner_id r)) (sync_seq s + 1) now"
  have ns: "nodes s' = upd (\<lambda>n. n_id n = ui_NodeID inp) ?f (nodes s)" by (simp add: s')
  have "node_of s' i = Some (?f r)" unfolding i by (rule node_of_upd_same [OF _ ns r]) simp
  moreover have "node_of s' j = node_of s j" if "j \<noteq> i" for j
    using that unfolding i by (intro node_of_upd_other [OF _ ns]) simp_all
  ultimately show ?thesis by (simp add: s' i)
next
  case (DeleteCmd u d j op v)
  with c have "Delete_tx U now s u d j op v = Inr (Committed i s')" by simp
  then obtain r root where i: "i = j" and r: "node_of s j = Some r" and "authorizeWrite s u (scanNode r) = Inr root"
    and s': "s' = commits s (upd (\<lambda>n. n_id n = j)
         (\<lambda>n. n\<lparr>n_deleted_at := Some now, n_revision := sync_seq s + 1, n_updated_at := now\<rparr>) (nodes s))
       (change_of now s (n_owner_id r) j ''DELETE'') (operation_of now s op u d ''NODE_DELETE'' j)"
    by (rule Delete_committed)
  let ?f = "\<lambda>n. n\<lparr>n_deleted_at := Some now, n_revision := sync_seq s + 1, n_updated_at := now\<rparr>"
  have ns: "nodes s' = upd (\<lambda>n. n_id n = j) ?f (nodes s)" by (simp add: s')
  have "node_of s' i = Some (?f r)" unfolding i by (rule node_of_upd_same [OF _ ns r]) simp
  moreover have "node_of s' k = node_of s k" if "k \<noteq> i" for k
    using that unfolding i by (intro node_of_upd_other [OF _ ns]) simp_all
  ultimately show ?thesis by (simp add: s' i)
next
  case (RestoreCmd u d j op)
  with c have "Restore_tx U now s u d j op = Inr (Committed i s')" by simp
  then obtain r where i: "i = j" and r: "node_of s j = Some r" and u: "n_owner_id r = u"
    and s': "s' = commits s (upd (\<lambda>n. n_id n = j)
         (restored_row (restores_to_root s r) (sync_seq s + 1) now) (nodes s))
       (change_of now s u j ''RESTORE'') (operation_of now s op u d ''NODE_RESTORE'' j)"
    by (rule Restore_committed)
  let ?f = "restored_row (restores_to_root s r) (sync_seq s + 1) now"
  have ns: "nodes s' = upd (\<lambda>n. n_id n = j) ?f (nodes s)" by (simp add: s')
  have "node_of s' i = Some (?f r)" unfolding i by (rule node_of_upd_same [OF _ ns r]) simp
  moreover have "node_of s' k = node_of s k" if "k \<noteq> i" for k
    using that unfolding i by (intro node_of_upd_other [OF _ ns]) simp_all
  ultimately show ?thesis by (simp add: s' i u)
qed (use c(2) in simp)

theorem mutation_effect_witness:
  "\<exists>i s' r. cmd_tx demo_uuid 10 demo (CreateCmd (bob_adds ''new'')) = Inr (Committed i s') \<and>
     node_of s' i = Some r \<and> n_revision r = sync_seq demo + 1"
proof -
  let ?c = "CreateCmd (bob_adds ''new'')"
  let ?s = "fst (node_exec demo_uuid (10, ?c) demo)"
  have "?s \<noteq> demo" by (rule notI, drule arg_cong [where f = sync_seq]) code_simp
  then obtain i where c: "cmd_tx demo_uuid 10 demo ?c = Inr (Committed i ?s)" by (rule changed_committed)
  have "\<not> is_rekey ?c" by simp
  from mutation_effect [OF demo_inv c this] c show ?thesis by blast
qed

section \<open>Rekeying a batch\<close>

lemma rekey_items_revision:
  "vault_inv s \<Longrightarrow> rekey_items U now s u items = Inr s' \<Longrightarrow> item \<in> set items \<Longrightarrow>
   node_of s' (ri_NodeID item) = Some r' \<Longrightarrow> sync_seq s < n_revision r'"
proof (induction items arbitrary: s)
  case (Cons it items)
  then obtain s1 where s1: "rekey_item U now s u it = Inr s1" "rekey_items U now s1 u items = Inr s'" by auto
  note inv1 = rekey_item_inv [OF Cons.prems(1) s1(1)]
  obtain r where r: "node_of s1 (ri_NodeID it) = Some (rekeyed_row it u (sync_seq s + 1) now r)"
    using rekey_item_node(2) [OF s1(1)] by blast
  show ?case
  proof (cases "item = it")
    case True
    from rekey_items_extends [OF inv1 s1(2)] r True Cons.prems(4)
    have "sync_seq s + 1 \<le> n_revision r'" unfolding extends_def by force
    then show ?thesis by simp
  next
    case False
    with Cons.prems(3) have "item \<in> set items" by simp
    from Cons.IH [OF inv1 s1(2) this Cons.prems(4)] have "sync_seq s1 < n_revision r'" .
    moreover have "n_revision (rekeyed_row it u (sync_seq s + 1) now r) \<le> sync_seq s1"
      using tracked_le [OF inv1] node_of_Some [OF r] by blast
    ultimately show ?thesis by simp
  qed
qed simp

text \<open>C13: Rekeying is all or nothing, and the owner's alone. A rekey either fails and changes nothing,
  or every node of the batch belonged to the caller and was at its expected revision, and every one now
  carries the batch's metadata, key version and scope - each scope being the owner's vault or an existing
  key of one of the owner's folders. No node outside the batch changes.\<close>

theorem Rekey_all_or_nothing:
  assumes inv: "vault_inv s" and run: "Rekey U now s inp = (s', res)"
  shows "(\<exists>e. res = Inl e) \<and> s' = s \<or>
    (\<exists>ns. res = Inr ns) \<and> (\<forall>j. j \<notin> ri_NodeID ` set (rk_Items inp) \<longrightarrow> node_of s' j = node_of s j) \<and>
    (\<forall>item\<in>set (rk_Items inp). \<exists>r r'. node_of s (ri_NodeID item) = Some r \<and> n_owner_id r = rk_UserID inp \<and>
       n_revision r = ri_ExpectedRevision item \<and> node_of s' (ri_NodeID item) = Some r' \<and>
       n_revision r < n_revision r' \<and> n_metadata_ciphertext r' = ri_MetadataCiphertext item \<and>
       n_metadata_key_version r' = ri_MetadataKeyVersion item \<and>
       n_metadata_key_scope_id r' = StoredScope (ri_MetadataKeyScopeID item) (rk_UserID inp))"
proof (cases "Rekey_tx U now s inp")
  case (Inl e)
  with run show ?thesis by (auto simp: Rekey_def)
next
  case (Inr s1)
  with run have s1: "s1 = s'" and res: "res = get_all s' (rk_UserID inp) (map ri_NodeID (rk_Items inp))"
    by (auto simp: Rekey_def)
  note tx = Rekey_tx_done [OF Inr [unfolded s1]]
  have "\<exists>r r'. node_of s (ri_NodeID item) = Some r \<and> n_owner_id r = rk_UserID inp \<and>
       n_revision r = ri_ExpectedRevision item \<and> node_of s' (ri_NodeID item) = Some r' \<and>
       n_revision r < n_revision r' \<and> n_metadata_ciphertext r' = ri_MetadataCiphertext item \<and>
       n_metadata_key_version r' = ri_MetadataKeyVersion item \<and>
       n_metadata_key_scope_id r' = StoredScope (ri_MetadataKeyScopeID item) (rk_UserID inp)"
    if "item \<in> set (rk_Items inp)" for item
  proof -
    from rekey_items_nodes [OF tx(4,2) that] obtain r v where
      r: "node_of s (ri_NodeID item) = Some r" "n_owner_id r = rk_UserID inp" "n_revision r = ri_ExpectedRevision item"
      "node_of s' (ri_NodeID item) = Some (rekeyed_row item (rk_UserID inp) v now r)" by blast
    from rekey_items_revision [OF inv tx(4) that r(4)] have "sync_seq s < v" by simp
    moreover have "n_revision r \<le> sync_seq s" using tracked_le [OF inv] node_of_Some [OF r(1)] by blast
    ultimately show ?thesis using r by auto
  qed
  moreover have "\<exists>ns. res = Inr ns" using Rekey_answer [OF Inr [unfolded s1]] res by simp
  moreover have "\<forall>j. j \<notin> ri_NodeID ` set (rk_Items inp) \<longrightarrow> node_of s' j = node_of s j"
    using rekey_items_other [OF tx(4)] by blast
  ultimately show ?thesis by blast
qed

definition alice_rekeys :: RekeyInput where
  "alice_rekeys = \<lparr>rk_UserID = ''alice'', rk_DeviceID = ''a1'', rk_Items =
     [\<lparr>ri_NodeID = ''top'', ri_ExpectedRevision = 1, ri_MetadataCiphertext = ''x'', ri_MetadataKeyVersion = 1,
       ri_MetadataKeyScopeID = ''top'', ri_Versions = []\<rparr>,
      \<lparr>ri_NodeID = ''doc'', ri_ExpectedRevision = 2, ri_MetadataCiphertext = ''y'', ri_MetadataKeyVersion = 1,
       ri_MetadataKeyScopeID = ''top'', ri_Versions = []\<rparr>]\<rparr>"

theorem Rekey_all_or_nothing_witness:
  "\<exists>r. node_of (fst (Rekey demo_uuid 10 demo alice_rekeys)) ''doc'' = Some r \<and>
     n_metadata_ciphertext r = ''y'' \<and> n_metadata_key_scope_id r = Some ''top''"
proof -
  obtain s' res where run: "Rekey demo_uuid 10 demo alice_rekeys = (s', res)" by (cases "Rekey demo_uuid 10 demo alice_rekeys")
  have "\<not> isl (snd (Rekey demo_uuid 10 demo alice_rekeys))" by code_simp
  then have "\<not> isl res" by (simp only: run snd_conv not_False_eq_True simp_thms)
  then have ok: "res \<noteq> Inl e" for e by (cases res) (simp_all only: sum.disc sum.distinct simp_thms)
  let ?item = "rk_Items alice_rekeys ! 1"
  have "?item \<in> set (rk_Items alice_rekeys)" by code_simp
  with Rekey_all_or_nothing [OF demo_inv run] ok obtain r' where "node_of s' (ri_NodeID ?item) = Some r'"
    "n_metadata_ciphertext r' = ri_MetadataCiphertext ?item"
    "n_metadata_key_scope_id r' = StoredScope (ri_MetadataKeyScopeID ?item) (rk_UserID alice_rekeys)" by blast
  then show ?thesis unfolding run fst_conv by (simp add: alice_rekeys_def StoredScope_def)
qed

section \<open>Cycles\<close>

lemma forbidCycle_chain:
  "chain (nodes s) c xs \<Longrightarrow> parents_ok (nodes s) \<Longrightarrow> c \<in> n_id ` set (nodes s) \<Longrightarrow> length xs \<le> k \<Longrightarrow>
   forbidCycle_loop k s m c =
     (if m \<in> n_id ` set xs then Inl (Validation ''move would create a cycle'') else Inr ())"
proof (induction arbitrary: k rule: chain.induct)
  case (missing i)
  then show ?case by (auto simp: find_key_None)
next
  case (root i n)
  then obtain k' where "k = Suc k'" by (cases k) auto
  with root find_key_set [OF root.hyps(1)] show ?case by (simp add: node_of_def)
next
  case (up i n p xs)
  then obtain k' where k: "k = Suc k'" by (cases k) auto
  from find_key_set [OF up.hyps(1)] have n: "n \<in> set (nodes s)" "n_id n = i" by simp_all
  with up.hyps(2) have "(i, p) \<in> par (nodes s)" by (auto simp: par_def)
  with up.prems(1) have "p \<in> n_id ` set (nodes s)" by (rule par_range)
  with up k n show ?case by (simp add: node_of_def)
qed

text \<open>C14: The cycle check is exact up to its depth limit. For a new parent at most 10,000 levels deep,
  a move is refused as a cycle precisely when the moved node is the new parent or one of its
  ancestors; otherwise it passes.\<close>

theorem forbidCycle_exact:
  assumes inv: "vault_inv s" and p: "p \<in> n_id ` set (nodes s)"
    and as: "ancestors (nodes s) p = Some as" "length as \<le> 10000"
  shows "forbidCycle s m p =
    (if (p, m) \<in> (par (nodes s))\<^sup>* then Inl (Validation ''move would create a cycle'') else Inr ())"
proof -
  note D = vault_invD [OF inv]
  obtain xs where xs: "ancestors (nodes s) p = Some xs" "chain (nodes s) p xs"
    "set xs = {n \<in> set (nodes s). (p, n_id n) \<in> (par (nodes s))\<^sup>*}" using D(1) by (rule ancestors_forest)
  with as have len: "length xs \<le> 10000" by simp
  have "m \<in> n_id ` set xs \<longleftrightarrow> (p, m) \<in> (par (nodes s))\<^sup>*"
    using xs(3) par_rtrancl_range [OF _ D(9) p] by (auto simp: image_iff)
  with forbidCycle_chain [OF xs(2) D(9) p len] show ?thesis unfolding forbidCycle_def by simp
qed

theorem forbidCycle_exact_witness:
  "forbidCycle demo ''top'' ''doc'' = Inl (Validation ''move would create a cycle'')"
proof -
  let ?as = "[demo_node ''doc'' (Some ''top'') ''FILE'' 2 None, demo_node ''top'' None ''DIRECTORY'' 1 None]"
  have p: "''doc'' \<in> n_id ` set (nodes demo)" and as: "ancestors (nodes demo) ''doc'' = Some ?as"
    and len: "length ?as \<le> 10000" by code_simp+
  have "(''doc'', ''top'') \<in> par (nodes demo)" by (auto simp: par_def demo_defs)
  with forbidCycle_exact [OF demo_inv p as len, of "''top''"] show ?thesis by (simp add: r_into_rtrancl)
qed

section \<open>A reused folder ID\<close>

definition reuse_ghost :: CreateInput where
  "reuse_ghost = \<lparr>ci_ID = ''ghost'', ci_OwnerID = ''alice'', ci_DeviceID = ''a1'', ci_OperationID = ''op7'',
     ci_ParentID = Some ''top'', ci_NodeType = ''DIRECTORY'', ci_MetadataCiphertext = ''m'',
     ci_MetadataKeyVersion = 1, ci_MetadataKeyScopeID = ''top''\<rparr>"

text \<open>Without the side condition \<open>node_ok\<close> scopes can nest: the folder key of a purged folder outlives
  it, and creating a directory under the purged folder's ID inside a shared folder is accepted.\<close>

theorem reused_scope_nests:
  "vault_inv demo_ghost \<and> \<not> isl (snd (Create demo_uuid 10 demo_ghost reuse_ghost)) \<and>
   \<not> scopes_disjoint (fst (Create demo_uuid 10 demo_ghost reuse_ghost))"
proof -
  let ?s = "fst (Create demo_uuid 10 demo_ghost reuse_ghost)"
  have k: "keyed ?s ''ghost''" "keyed ?s ''top''" by code_simp+
  have "\<exists>n\<in>set (nodes ?s). n_id n = ''ghost'' \<and> n_parent_id n = Some ''top''" by code_simp
  then have "(''ghost'', ''top'') \<in> par (nodes ?s)" unfolding par_def by blast
  with k have "\<not> scopes_disjoint ?s" unfolding scopes_disjoint_def by blast
  moreover have "\<not> isl (snd (Create demo_uuid 10 demo_ghost reuse_ghost))" by code_simp
  ultimately show ?thesis using demo_ghost_inv by blast
qed

end
