(* ===== verification/HB_Nodes_Listing.thy ===== *)
theory HB_Nodes_Listing
  imports HB_Nodes_Props
begin

text \<open>
  What the node service shows: \<open>Get\<close> and the listings, in full and page by page. The two paged
  listings of internal/nodes/service.go are interpretations of \<open>keyset_pager\<close>.
\<close>

section \<open>Reading one node\<close>

text \<open>C11: Visibility. An account reads a node exactly when the node exists and the account owns it,
  or an active share of the node or of a folder above it is addressed to the account, with nothing in
  Trash from the node up to the shared folder. No other answer depends on the node's content.\<close>

theorem Get_visible:
  assumes inv: "vault_inv s"
  shows "Get s u i = Inr n \<longleftrightarrow> (\<exists>r. node_of s i = Some r \<and> n = scanNode r \<and>
    (n_owner_id r = u \<or> (\<exists>sh. nearest_live_share s u i sh)))"
  by (rule Get_iff [OF inv])

lemma not_isl_Inr:
  assumes "\<not> isl r"
  obtains x where "r = Inr x"
  using assms by (cases r) auto

theorem Get_visible_witness:
  "(\<exists>r. node_of demo ''doc'' = Some r \<and> (n_owner_id r = ''carol'' \<or> (\<exists>sh. nearest_live_share demo ''carol'' ''doc'' sh))) \<and>
   (\<nexists>sh. nearest_live_share demo ''bob'' ''old'' sh)"
proof -
  have no: "Get demo ''bob'' ''old'' \<noteq> Inr m" for m
  proof
    have "isl (Get demo ''bob'' ''old'')" by code_simp
    moreover assume "Get demo ''bob'' ''old'' = Inr m"
    ultimately show False by (simp only: sum.disc)
  qed
  have "\<not> isl (Get demo ''carol'' ''doc'')" by code_simp
  then obtain n where n: "Get demo ''carol'' ''doc'' = Inr n" by (rule not_isl_Inr)
  have "node_of demo ''old'' \<noteq> None" by code_simp
  with no n show ?thesis unfolding Get_visible [OF demo_inv] by blast
qed

section \<open>Pages\<close>

definition node_key :: "Node \<Rightarrow> page_key" where
  "node_key n = (stamp (N_CreatedAt n), N_ID n)"

lemma node_key_scan [simp]: "node_key (scanNode r) = row_key r"
  by (simp add: node_key_def row_key_def)

lemma after_scan: "after node_key c (map scanNode rs) = map scanNode (after row_key c rs)"
  by (cases c) (simp_all add: after_def filter_map comp_def)

lemma sort_after: "sort_key row_key (after row_key c rs) = after row_key c (sort_key row_key rs)"
  by (simp add: after_def filter_sort)

lemma sorted_keys:
  assumes "distinct (map n_id rs)"
  shows "sorted_wrt (<) (map node_key (map scanNode (sort_key row_key rs)))"
proof -
  have "distinct (map row_key rs)"
    using assms by (simp add: distinct_map row_key_def inj_on_def)
  then have "distinct (map row_key (sort_key row_key rs))" by (simp add: distinct_map)
  moreover have keys: "map node_key (map scanNode (sort_key row_key rs)) = map row_key (sort_key row_key rs)" by simp
  ultimately show ?thesis unfolding keys strict_sorted_iff by simp
qed

definition page :: "nat \<Rightarrow> page_key option \<Rightarrow> PageRequest" where
  "page n c = \<lparr>pr_Limit = int n, pr_After = c\<rparr>"

definition served :: "err + (Node list \<times> page_key option) \<Rightarrow> Node list \<times> page_key option" where
  "served r = (case r of Inl _ \<Rightarrow> ([], None) | Inr p \<Rightarrow> p)"

lemma listPage_page:
  fixes base :: "node_row list" and c :: "page_key option"
  assumes n: "0 < n" "n \<le> 1000"
  defines "xs \<equiv> after node_key c (map scanNode (sort_key row_key base))"
  shows "listPage base (page n c) =
    Inr (take n xs, if length xs \<le> n then None else Some (node_key (last (take n xs))))"
proof -
  define rs where "rs = sort_key row_key (after row_key c base)"
  have xs: "xs = map scanNode rs" by (simp add: xs_def after_scan sort_after rs_def)
  have "listPage base (page n c) = (let rows' = take (Suc n) rs in
      if length rows' \<le> n then Inr (map scanNode rows', None)
      else Inr (map scanNode (take n rows'), Some (row_key (rows' ! (n - 1)))))"
    using n by (simp add: listPage_def page_def MaxPageSize_def rs_def nat_add_distrib Let_def cong del: if_weak_cong)
  also have "\<dots> = Inr (take n xs, if length xs \<le> n then None else Some (node_key (last (take n xs))))"
  proof (cases "length rs \<le> n")
    case False
    then have "rs \<noteq> []" by auto
    moreover have "last (take n rs) = rs ! (n - 1)" using False n by (subst last_conv_nth) auto
    ultimately show ?thesis using False n by (auto simp: Let_def xs take_map last_map min_def)
  qed (simp add: Let_def xs)
  finally show ?thesis .
qed

lemma served_listPage:
  "0 < n \<Longrightarrow> n \<le> 1000 \<Longrightarrow> fst (served (listPage base (page n c))) =
     take n (after node_key c (map scanNode (sort_key row_key base)))"
  "0 < n \<Longrightarrow> n \<le> 1000 \<Longrightarrow> snd (served (listPage base (page n c))) =
     (if length (after node_key c (map scanNode (sort_key row_key base))) \<le> n then None
      else Some (node_key (last (take n (after node_key c (map scanNode (sort_key row_key base)))))))"
  by (simp_all only: listPage_page served_def sum.case fst_conv snd_conv)

lemma child_rows_distinct: "vault_inv s \<Longrightarrow> distinct (map n_id (child_rows s p))"
  using vault_invD(8) [of s] by (simp add: child_rows_def distinct_map_filter)

interpretation children: keyset_pager
  "\<lambda>s. map scanNode (sort_key row_key (child_rows s p))" node_key
  "\<lambda>s n c. served (ListChildrenPage s u (Some p) (page n c))"
  "\<lambda>s n. 0 < n \<and> n \<le> 1000 \<and> vault_inv s \<and> requireReadableDirectory s u p = Inr ()"
  for u p
proof
  fix s :: db and n :: nat and c :: "page_key option"
  assume ok: "0 < n \<and> n \<le> 1000 \<and> vault_inv s \<and> requireReadableDirectory s u p = Inr ()"
  then have page: "ListChildrenPage s u (Some p) (page n c) = listPage (child_rows s p) (page n c)"
    by (simp add: ListChildrenPage_def)
  show "sorted_wrt (<) (map node_key (map scanNode (sort_key row_key (child_rows s p))))"
    using ok by (intro sorted_keys child_rows_distinct) simp
  show "0 < n" using ok by simp
  show "fst (served (ListChildrenPage s u (Some p) (page n c))) =
      take n (after node_key c (map scanNode (sort_key row_key (child_rows s p))))"
    unfolding page using ok by (intro served_listPage(1)) simp_all
  show "snd (served (ListChildrenPage s u (Some p) (page n c))) =
     (if length (after node_key c (map scanNode (sort_key row_key (child_rows s p)))) \<le> n then None
      else Some (node_key (last (take n (after node_key c (map scanNode (sort_key row_key (child_rows s p))))))))"
    unfolding page using ok by (intro served_listPage(2)) simp_all
qed

text \<open>The root listing: the account's own live roots and the live folders shared with it. No node is
  in both parts, and no shared folder is listed twice.\<close>

lemma concat_single:
  "(\<And>n. n \<in> set ns \<Longrightarrow> f n = [] \<or> f n = [n]) \<Longrightarrow> concat (map f ns) = filter (\<lambda>n. f n \<noteq> []) ns"
  by (induction ns) auto

lemma active_shares_once:
  assumes "shares_ok s"
  shows "length (filter (\<lambda>sh. active_share sh u i) (shares s)) \<le> 1"
proof -
  let ?xs = "filter (\<lambda>sh. active_share sh u i) (shares s)"
  have "sh = sh'" if "sh \<in> set ?xs" "sh' \<in> set ?xs" for sh sh'
  proof -
    from that have "sh \<in> set (shares s)" "sh' \<in> set (shares s)" "active_share sh u i" "active_share sh' u i" by simp_all
    with assms show ?thesis unfolding shares_ok_def one_share_def by blast
  qed
  then have "card (set ?xs) \<le> 1" by (auto simp: card_le_Suc0_iff_eq)
  moreover have "distinct ?xs"
    using assms by (simp add: shares_ok_def distinct_map)
  ultimately show ?thesis by (simp only: distinct_card)
qed

lemma shared_roots_filter:
  assumes "shares_ok s"
  shows "shared_roots s u = filter (\<lambda>n. n_deleted_at n = None \<and> (\<exists>sh\<in>set (shares s). active_share sh u (n_id n))) (nodes s)"
proof -
  let ?f = "\<lambda>n. map (\<lambda>_. n) (filter (\<lambda>sh. active_share sh u (n_id n)) (shares s))"
  have "?f n = [] \<or> ?f n = [n]" for n
    using active_shares_once [OF assms, of u "n_id n"]
    by (cases "filter (\<lambda>sh. active_share sh u (n_id n)) (shares s)") auto
  then have "shared_roots s u = filter (\<lambda>n. ?f n \<noteq> []) (filter (\<lambda>n. n_deleted_at n = None) (nodes s))"
    unfolding shared_roots_def by (intro concat_single) blast
  also have "\<dots> = filter (\<lambda>n. n_deleted_at n = None \<and> (\<exists>sh\<in>set (shares s). active_share sh u (n_id n))) (nodes s)"
    unfolding filter_filter by (rule filter_cong [OF refl]) (auto simp: filter_empty_conv)
  finally show ?thesis .
qed

lemma shared_not_owned:
  assumes inv: "vault_inv s" and n: "n \<in> set (nodes s)" and sh: "sh \<in> set (shares s)" "active_share sh u (n_id n)"
  shows "n_owner_id n \<noteq> u"
proof -
  from vault_invD(6) [OF inv] sh(1) have ne: "sh_target_user_id sh \<noteq> sh_owner_user_id sh" by (simp add: shares_ok_def)
  from vault_invD(6) [OF inv] sh(1) obtain m where m: "m \<in> set (nodes s)" "n_id m = sh_node_id sh"
    "n_owner_id m = sh_owner_user_id sh" by (auto simp: shares_ok_def)
  with sh(2) have "n_id m = n_id n" by (simp add: active_share_def)
  with distinct_map_eq [OF vault_invD(8) [OF inv] m(1) n] have "m = n" by simp
  with m ne sh(2) show ?thesis by (auto simp: active_share_def)
qed

lemma roots_distinct:
  assumes inv: "vault_inv s"
  shows "distinct (map n_id (owned_roots s u @ shared_roots s u))"
proof -
  note D = vault_invD [OF inv]
  have "set (map n_id (owned_roots s u)) \<inter> set (map n_id (shared_roots s u)) = {}"
  proof (rule ccontr)
    assume "\<not> ?thesis"
    then obtain n m where n: "n \<in> set (owned_roots s u)" and m: "m \<in> set (shared_roots s u)" and "n_id n = n_id m"
      by auto
    moreover from n m have "n \<in> set (nodes s)" "m \<in> set (nodes s)"
      by (simp_all add: owned_roots_def shared_roots_filter [OF D(6)])
    ultimately have "n = m" using distinct_map_eq [OF D(8)] by blast
    with n m shared_not_owned [OF inv] show False
      by (auto simp: owned_roots_def shared_roots_filter [OF D(6)])
  qed
  moreover have "distinct (map n_id (owned_roots s u))" "distinct (map n_id (shared_roots s u))"
    using D(8) by (simp_all add: owned_roots_def shared_roots_filter [OF D(6)] distinct_map_filter)
  ultimately show ?thesis by simp
qed

interpretation roots: keyset_pager
  "\<lambda>s. map scanNode (sort_key row_key (owned_roots s u @ shared_roots s u))" node_key
  "\<lambda>s n c. served (ListChildrenPage s u None (page n c))"
  "\<lambda>s n. 0 < n \<and> n \<le> 1000 \<and> vault_inv s"
  for u
proof
  fix s :: db and n :: nat and c :: "page_key option"
  assume ok: "0 < n \<and> n \<le> 1000 \<and> vault_inv s"
  have page: "ListChildrenPage s u None (page n c) = listPage (owned_roots s u @ shared_roots s u) (page n c)"
    by (simp add: ListChildrenPage_def)
  show "sorted_wrt (<) (map node_key (map scanNode (sort_key row_key (owned_roots s u @ shared_roots s u))))"
    using ok by (intro sorted_keys roots_distinct) simp
  show "0 < n" using ok by simp
  show "fst (served (ListChildrenPage s u None (page n c))) =
      take n (after node_key c (map scanNode (sort_key row_key (owned_roots s u @ shared_roots s u))))"
    unfolding page using ok by (intro served_listPage(1)) simp_all
  show "snd (served (ListChildrenPage s u None (page n c))) =
     (if length (after node_key c (map scanNode (sort_key row_key (owned_roots s u @ shared_roots s u)))) \<le> n then None
      else Some (node_key (last (take n (after node_key c (map scanNode (sort_key row_key (owned_roots s u @ shared_roots s u))))))))"
    unfolding page using ok by (intro served_listPage(2)) simp_all
qed

text \<open>C12: Paging loses nothing. A client that lists a readable directory in pages of any size from 1
  to 1000, following the cursors, collects exactly the live children of the directory, each once, in
  the order of the unpaged listing; and the same holds for the root listing, which shows every live
  root of the account and every live folder shared with it, once.\<close>

theorem paging_complete:
  assumes inv: "vault_inv s" and n: "0 < n" "n \<le> 1000" and m: "length (nodes s) < m"
  shows "(requireReadableDirectory s u p = Inr () \<longrightarrow>
      Inr (the (collect_pages m (\<lambda>c. served (ListChildrenPage s u (Some p) (page n c))) None)) = ListChildren s u (Some p)) \<and>
    Inr (the (collect_pages (m + m) (\<lambda>c. served (ListChildrenPage s u None (page n c))) None)) = ListChildren s u None \<and>
    distinct (map n_id (owned_roots s u @ shared_roots s u))"
proof (intro conjI impI)
  have all: "map_sum id fst (listPage base \<lparr>pr_Limit = 0, pr_After = None\<rparr>) = Inr (map scanNode (sort_key row_key base))"
    for base by (simp add: listPage_def MaxPageSize_def after_def Let_def)
  {
    assume ok: "requireReadableDirectory s u p = Inr ()"
    have "length (map scanNode (sort_key row_key (child_rows s p))) < m"
      using m by (simp add: child_rows_def) (meson le_less_trans length_filter_le)
    from children.collect_all [OF _ this, of n u] inv n ok
    show "Inr (the (collect_pages m (\<lambda>c. served (ListChildrenPage s u (Some p) (page n c))) None)) = ListChildren s u (Some p)"
      by (simp add: ListChildren_def ListChildrenPage_def all)
  }
  have "length (owned_roots s u) \<le> length (nodes s)" "length (shared_roots s u) \<le> length (nodes s)"
    by (simp_all add: owned_roots_def shared_roots_filter [OF vault_invD(6) [OF inv]])
  with m have "length (map scanNode (sort_key row_key (owned_roots s u @ shared_roots s u))) < m + m" by simp
  from roots.collect_all [OF _ this, of n] inv n
  show "Inr (the (collect_pages (m + m) (\<lambda>c. served (ListChildrenPage s u None (page n c))) None)) = ListChildren s u None"
    by (simp add: ListChildren_def ListChildrenPage_def all)
  show "distinct (map n_id (owned_roots s u @ shared_roots s u))" by (rule roots_distinct [OF inv])
qed

theorem paging_complete_witness:
  "Inr (the (collect_pages 4 (\<lambda>c. served (ListChildrenPage demo ''bob'' (Some ''top'') (page 1 c))) None)) =
   ListChildren demo ''bob'' (Some ''top'')"
proof -
  have "length (nodes demo) < 4" "requireReadableDirectory demo ''bob'' ''top'' = Inr ()" by code_simp+
  with paging_complete [OF demo_inv _ _ this(1), of 1 "''bob''" "''top''"] show ?thesis by simp
qed

end
