(* ===== verification/HB_Sync.thy ===== *)
theory HB_Sync
  imports HB_Invariant HB_Demo
begin

text \<open>
  The sync feed (internal/sync/service.go): \<open>Changes\<close> returns the changes of one account after a
  revision, one page at a time. The service's two page sizes are a record \<open>SyncService\<close>. The paged
  feed is the interface \<open>keyset_pager\<close>, whose cursor is the last revision seen.
\<close>

record Change =
  ch_Revision :: int
  ch_NodeID :: "id option"
  ch_Operation :: string
  ch_Payload :: bytes
  ch_CreatedAt :: time

record Page =
  pg_Changes :: "Change list"
  pg_NextAfter :: int
  pg_HasMore :: bool

record SyncService =
  ss_defaultSize :: int
  ss_maxSize :: int

definition scanChange :: "change_row \<Rightarrow> Change" where
  "scanChange c = \<lparr>ch_Revision = c_revision c, ch_NodeID = Some (c_node_id c),
     ch_Operation = c_operation c, ch_Payload = c_payload c, ch_CreatedAt = c_created_at c\<rparr>"

definition Changes :: "SyncService \<Rightarrow> db \<Rightarrow> id \<Rightarrow> int \<Rightarrow> int \<Rightarrow> err + Page" where
  "Changes svc s userID afterRevision pageSize0 =
     (if afterRevision < 0 then Inl SyncInvalidCursor
      else (let pageSize1 = (if pageSize0 \<le> 0 then ss_defaultSize svc else pageSize0);
                pageSize = (if pageSize1 > ss_maxSize svc then ss_maxSize svc else pageSize1);
                changes = map scanChange (take (nat (pageSize + 1))
                  (sort_key c_revision (filter (\<lambda>c. c_user_scope_id c = userID \<and> c_revision c > afterRevision)
                    (sync_changes s))));
                hasMore = (int (length changes) > pageSize);
                shown = (if hasMore then take (nat pageSize) changes else changes)
            in Inr \<lparr>pg_Changes = shown,
                    pg_NextAfter = (if shown \<noteq> [] then ch_Revision (last shown) else afterRevision),
                    pg_HasMore = hasMore\<rparr>))"

section \<open>The account's feed\<close>

definition feed :: "db \<Rightarrow> id \<Rightarrow> Change list" where
  "feed s u = map scanChange (filter (\<lambda>c. c_user_scope_id c = u) (sync_changes s))"

lemma scanChange_revision [simp]: "ch_Revision (scanChange c) = c_revision c"
  by (simp add: scanChange_def)

lemma feed_strict: "feed_ok s \<Longrightarrow> sorted_wrt (<) (map ch_Revision (feed s u))"
  by (auto simp: feed_ok_def feed_def sorted_wrt_map comp_def intro: sorted_wrt_filter)

lemma feed_positive: "feed_ok s \<Longrightarrow> c \<in> set (feed s u) \<Longrightarrow> 0 < ch_Revision c"
  by (auto simp: feed_ok_def feed_def)

text \<open>The query's rows are the account's feed after the cursor; sorting them changes nothing.\<close>

lemma feed_after:
  assumes "feed_ok s"
  shows "map scanChange (sort_key c_revision (filter (\<lambda>c. c_user_scope_id c = u \<and> c_revision c > k) (sync_changes s))) =
    after ch_Revision (Some k) (feed s u)"
proof -
  let ?rows = "filter (\<lambda>c. c_user_scope_id c = u \<and> c_revision c > k) (sync_changes s)"
  have "sorted_wrt (<) (map c_revision ?rows)"
    using assms by (simp add: feed_ok_def sorted_wrt_map sorted_wrt_filter)
  then have "sorted (map c_revision ?rows)" by (simp add: strict_sorted_iff)
  then have "sort_key c_revision ?rows = ?rows" by (rule sort_key_id_if_sorted)
  then show ?thesis by (simp add: feed_def after_def filter_map comp_def filter_filter conj_commute)
qed

lemma Changes_page:
  fixes u :: id and k :: int
  assumes "feed_ok s" "0 \<le> k" "0 < n" "int n \<le> ss_maxSize svc"
  defines "xs \<equiv> after ch_Revision (Some k) (feed s u)"
  shows "Changes svc s u k (int n) = Inr \<lparr>pg_Changes = take n xs,
    pg_NextAfter = (if xs = [] then k else ch_Revision (last (take n xs))), pg_HasMore = (length xs > n)\<rparr>"
proof -
  have size: "nat (int n + 1) = Suc n" by simp
  have rows: "map scanChange (take (Suc n) (sort_key c_revision
      (filter (\<lambda>c. c_user_scope_id c = u \<and> c_revision c > k) (sync_changes s)))) = take (Suc n) xs"
    by (simp only: xs_def take_map [symmetric] feed_after [OF assms(1)])
  show ?thesis
    using assms(2-4) unfolding Changes_def Let_def
    by (cases "length xs \<le> n") (auto simp: size rows min_def)
qed

text \<open>The client's cursor is the last revision it has seen; a client that has seen nothing asks for
  the changes after revision 0, which no change has.\<close>

definition change_key :: "Change \<Rightarrow> nat" where
  "change_key c = nat (ch_Revision c)"

definition sync_fetch :: "SyncService \<Rightarrow> id \<Rightarrow> db \<Rightarrow> nat \<Rightarrow> nat option \<Rightarrow> Change list \<times> nat option" where
  "sync_fetch svc u s n c =
     (case Changes svc s u (case c of None \<Rightarrow> 0 | Some k \<Rightarrow> int k) (int n) of
        Inl e \<Rightarrow> ([], None)
      | Inr p \<Rightarrow> (pg_Changes p, if pg_HasMore p then Some (nat (pg_NextAfter p)) else None))"

lemma after_key:
  assumes "feed_ok s"
  shows "after ch_Revision (Some (case c of None \<Rightarrow> 0 | Some k \<Rightarrow> int k)) (feed s u) = after change_key c (feed s u)"
proof -
  have "(case c of None \<Rightarrow> 0 | Some k \<Rightarrow> int k) < ch_Revision x \<longleftrightarrow> (case c of None \<Rightarrow> True | Some k \<Rightarrow> k < change_key x)"
    if "x \<in> set (feed s u)" for x
    using feed_positive [OF assms that] by (auto simp: change_key_def split: option.split)
  then show ?thesis unfolding after_def option.case by (rule filter_cong [OF refl])
qed

lemma feed_strict_key:
  assumes "feed_ok s"
  shows "sorted_wrt (<) (map change_key (feed s u))"
proof -
  have "sorted_wrt (\<lambda>x y. ch_Revision x < ch_Revision y) (feed s u)"
    using feed_strict [OF assms] by (simp add: sorted_wrt_map)
  then have "sorted_wrt (\<lambda>x y. change_key x < change_key y) (feed s u)"
    by (rule sorted_wrt_mono_rel [rotated]) (use feed_positive [OF assms] in \<open>auto simp: change_key_def\<close>)
  then show ?thesis by (simp add: sorted_wrt_map)
qed

interpretation sync_pages: keyset_pager "\<lambda>s. feed s u" change_key "sync_fetch svc u"
  "\<lambda>s n. feed_ok s \<and> 0 < n \<and> int n \<le> ss_maxSize svc" for u svc
proof
  fix s :: db and n :: nat and c :: "nat option"
  assume ok: "feed_ok s \<and> 0 < n \<and> int n \<le> ss_maxSize svc"
  then show "sorted_wrt (<) (map change_key (feed s u))" "0 < n" by (simp_all add: feed_strict_key)
  let ?k = "case c of None \<Rightarrow> 0 | Some k \<Rightarrow> int k" and ?xs = "after change_key c (feed s u)"
  have "0 \<le> ?k" by (simp split: option.split)
  with ok Changes_page [of s ?k n svc u] have fetch: "sync_fetch svc u s n c =
      (take n ?xs, if length ?xs > n then Some (if ?xs = [] then nat ?k else change_key (last (take n ?xs))) else None)"
    by (simp add: sync_fetch_def after_key change_key_def)
  show "fst (sync_fetch svc u s n c) = take n ?xs" by (simp add: fetch)
  show "snd (sync_fetch svc u s n c) = (if length ?xs \<le> n then None else Some (change_key (last (take n ?xs))))"
    by (auto simp: fetch)
qed

section \<open>Properties\<close>

text \<open>C15: Syncing loses nothing. A client that follows the feed in pages of any size up to the
  server's maximum receives every change of its account exactly once, in the order of the global
  revision.\<close>

theorem sync_complete:
  assumes "feed_ok s" "0 < n" "int n \<le> ss_maxSize svc" "length (sync_changes s) < m"
  shows "collect_pages m (sync_fetch svc u s n) None = Some (feed s u) \<and> sorted_wrt (<) (map ch_Revision (feed s u))"
proof -
  have "length (feed s u) \<le> length (sync_changes s)" by (simp add: feed_def)
  with assms(4) have "length (feed s u) < m" by simp
  with sync_pages.collect_all [of s n svc u m] feed_strict [of s u] assms show ?thesis by simp
qed

definition demo_sync :: SyncService where
  "demo_sync = \<lparr>ss_defaultSize = 2, ss_maxSize = 3\<rparr>"

theorem sync_complete_witness:
  "collect_pages 5 (sync_fetch demo_sync ''alice'' demo 2) None = Some (feed demo ''alice'')"
  using sync_complete [of demo 2 demo_sync 5 "''alice''"] vault_invD(2) [OF demo_inv]
  by (simp add: demo_sync_def demo_defs)



end
