(* ===== verification/HB_Sharing.thy ===== *)
theory HB_Sharing
  imports HB_Access HB_Text
begin

text \<open>
  Family sharing (internal/sharing/service.go): folder keys, grants, recipient envelopes, listings
  and revocation. As in HB_Nodes an operation takes the uuid package, a clock reading and the
  database. The UUIDs the server draws with \<open>uuid.NewString()\<close> are a function \<open>fresh\<close>: the \<open>k\<close>-th
  drawing of the operation is \<open>fresh k\<close>.
\<close>

section \<open>Data\<close>

record DeviceEnvelope =
  e_TargetDeviceID :: id
  e_KeyVersion :: int
  e_Ciphertext :: bytes
  e_OwnerIdentityPublicKey :: bytes
  e_OwnerSignature :: bytes

record Share =
  s_ID :: id
  s_NodeID :: id
  s_OwnerUserID :: id
  s_TargetUserID :: id
  s_Permission :: string
  s_OwnerUsername :: string
  s_TargetUsername :: string
  s_CreatedAt :: time
  s_Envelopes :: "DeviceEnvelope list"

record GrantInput =
  g_OwnerUserID :: id
  g_OwnerDeviceID :: id
  g_OperationID :: id
  g_NodeID :: id
  g_TargetUserID :: id
  g_Permission :: string
  g_Envelopes :: "DeviceEnvelope list"

record FolderKey =
  fk_FolderID :: id
  fk_KeyVersion :: int
  fk_OwnerEnvelope :: bytes
  fk_CreatedAt :: time

definition maxEnvelopesPerRequest :: int where
  "maxEnvelopesPerRequest = 32"

definition maxEnvelopeSize :: int where
  "maxEnvelopeSize = 4096"

definition ownerSignatureLength :: int where
  "ownerSignatureLength = 64"

definition ownerIdentityKeyLength :: int where
  "ownerIdentityKeyLength = 32"

section \<open>Checks\<close>

definition requireActiveDevice :: "db \<Rightarrow> id \<Rightarrow> id \<Rightarrow> err + unit" where
  "requireActiveDevice s userID deviceID =
     (if \<exists>d\<in>set (devices s). d_id d = deviceID \<and> d_user_id d = userID \<and> d_revoked_at d = None
      then Inr () else Inl SharingForbidden)"

definition requireOwnedFolder :: "db \<Rightarrow> id \<Rightarrow> id \<Rightarrow> err + unit" where
  "requireOwnedFolder s ownerUserID folderID =
     (case find (\<lambda>n. n_id n = folderID \<and> n_owner_id n = ownerUserID) (nodes s) of
        None \<Rightarrow> Inl SharingForbidden
      | Some n \<Rightarrow> if n_node_type n \<noteq> ''DIRECTORY'' \<or> n_deleted_at n \<noteq> None
                 then Inl (Validation ''only a non-deleted folder can be shared'') else Inr ())"

definition forbidNestedScope :: "db \<Rightarrow> id \<Rightarrow> err + unit" where
  "forbidNestedScope s folderID =
     (case node_of s folderID of
        None \<Rightarrow> Inl (Internal ''sql: no rows in result set'')
      | Some n \<Rightarrow>
          ebind (case n_parent_id n of
              None \<Rightarrow> Inr ()
            | Some p \<Rightarrow> ebind (NearestKeyedFolder s p) (\<lambda>outer.
                if outer \<noteq> [] then Inl ErrNestedSharedFolder else Inr ()))
          (\<lambda>_. if SubtreeHasKeyedFolder s folderID then Inl ErrNestedSharedFolder else Inr ()))"

definition envelope_key :: "DeviceEnvelope \<Rightarrow> string" where
  "envelope_key e = e_TargetDeviceID e @ ''/'' @ FormatInt (e_KeyVersion e)"

fun validateEnvelopes_loop :: "uuid_pkg \<Rightarrow> string list \<Rightarrow> DeviceEnvelope list \<Rightarrow> err + unit" where
  "validateEnvelopes_loop U seen [] = Inr ()"
| "validateEnvelopes_loop U seen (e # es) =
     (if \<not> ValidUUID U (e_TargetDeviceID e) \<or> e_KeyVersion e < 1 \<or> e_Ciphertext e = []
         \<or> int (length (e_Ciphertext e)) > maxEnvelopeSize \<or> envelope_key e \<in> set seen
      then Inl (Validation ''share device envelopes must be unique, versioned, and reasonably sized'')
      else if int (length (e_OwnerIdentityPublicKey e)) \<noteq> ownerIdentityKeyLength
         \<or> int (length (e_OwnerSignature e)) \<noteq> ownerSignatureLength
      then Inl (Validation ''share device envelopes must carry the owner's account-identity signature'')
      else validateEnvelopes_loop U (envelope_key e # seen) es)"

definition validateEnvelopes :: "uuid_pkg \<Rightarrow> DeviceEnvelope list \<Rightarrow> err + unit" where
  "validateEnvelopes U es = validateEnvelopes_loop U [] es"

fun requireEnvelopeTargets :: "db \<Rightarrow> id \<Rightarrow> id \<Rightarrow> DeviceEnvelope list \<Rightarrow> err + unit" where
  "requireEnvelopeTargets s folderID targetUserID [] = Inr ()"
| "requireEnvelopeTargets s folderID targetUserID (e # es) =
     (if requireActiveDevice s targetUserID (e_TargetDeviceID e) \<noteq> Inr () then Inl SharingTargetNotFound
      else if \<not> (\<exists>k\<in>set (folder_keys s). k_folder_id k = folderID \<and> k_key_version k = e_KeyVersion e)
      then Inl (Validation ''a share envelope refers to a folder key version that does not exist'')
      else requireEnvelopeTargets s folderID targetUserID es)"

section \<open>Folder keys\<close>

definition scanFolderKey :: "folder_key_row \<Rightarrow> FolderKey" where
  "scanFolderKey k = \<lparr>fk_FolderID = k_folder_id k, fk_KeyVersion = k_key_version k,
     fk_OwnerEnvelope = k_owner_envelope k, fk_CreatedAt = k_created_at k\<rparr>"

definition folderKey :: "db \<Rightarrow> id \<Rightarrow> id \<Rightarrow> int \<Rightarrow> err + FolderKey" where
  "folderKey s ownerUserID folderID keyVersion =
     (case find (\<lambda>k. k_owner_user_id k = ownerUserID \<and> k_folder_id k = folderID \<and> k_key_version k = keyVersion)
          (folder_keys s) of
        None \<Rightarrow> Inl (Internal ''sql: no rows in result set'')
      | Some k \<Rightarrow> Inr (scanFolderKey k))"

text \<open>An exact repetition of a stored version is answered without a change; \<open>CreateFolderKey_tx\<close>
  then returns no new database.\<close>

definition CreateFolderKey_tx ::
  "uuid_pkg \<Rightarrow> time \<Rightarrow> db \<Rightarrow> id \<Rightarrow> id \<Rightarrow> id \<Rightarrow> int \<Rightarrow> bytes \<Rightarrow> err + db option" where
  "CreateFolderKey_tx U now s ownerUserID ownerDeviceID folderID keyVersion envelope =
     (if \<not> ValidUUID U ownerUserID \<or> \<not> ValidUUID U ownerDeviceID \<or> \<not> ValidUUID U folderID
      then Inl (Validation ''owner, device, and folder IDs must be valid UUIDs'')
      else if keyVersion < 1 \<or> envelope = [] \<or> int (length envelope) > maxEnvelopeSize
      then Inl (Validation ''a folder key needs a positive version and a reasonably sized envelope'')
      else ebind (requireActiveDevice s ownerUserID ownerDeviceID) (\<lambda>_.
        ebind (requireOwnedFolder s ownerUserID folderID) (\<lambda>_.
        case find (\<lambda>k. k_folder_id k = folderID \<and> k_key_version k = keyVersion) (folder_keys s) of
          Some k \<Rightarrow> if k_owner_envelope k \<noteq> envelope then Inl SharingKeyConflict else Inr None
        | None \<Rightarrow>
            let latest = max_version (filter (\<lambda>k. k_folder_id k = folderID) (folder_keys s)) in
            if keyVersion \<le> latest then Inl SharingKeyConflict
            else if keyVersion \<noteq> latest + 1
            then Inl (Validation (''the next key version of this folder is '' @ FormatInt (latest + 1)))
            else ebind (if latest = 0 then forbidNestedScope s folderID else Inr ()) (\<lambda>_.
              Inr (Some (s\<lparr>folder_keys := folder_keys s @
                [\<lparr>k_folder_id = folderID, k_key_version = keyVersion, k_owner_user_id = ownerUserID,
                  k_owner_envelope = envelope, k_created_at = now,
                  k_created_by_device_id = ownerDeviceID\<rparr>]\<rparr>))))))"

definition CreateFolderKey ::
  "uuid_pkg \<Rightarrow> time \<Rightarrow> db \<Rightarrow> id \<Rightarrow> id \<Rightarrow> id \<Rightarrow> int \<Rightarrow> bytes \<Rightarrow> db \<times> (err + FolderKey)" where
  "CreateFolderKey U now s ownerUserID ownerDeviceID folderID keyVersion envelope =
     (case CreateFolderKey_tx U now s ownerUserID ownerDeviceID folderID keyVersion envelope of
        Inl e \<Rightarrow> (s, Inl e)
      | Inr None \<Rightarrow> (s, folderKey s ownerUserID folderID keyVersion)
      | Inr (Some s') \<Rightarrow> (s', Inr \<lparr>fk_FolderID = folderID, fk_KeyVersion = keyVersion,
          fk_OwnerEnvelope = envelope, fk_CreatedAt = now\<rparr>))"

definition ListFolderKeys :: "uuid_pkg \<Rightarrow> db \<Rightarrow> id \<Rightarrow> err + FolderKey list" where
  "ListFolderKeys U s ownerUserID =
     (if \<not> ValidUUID U ownerUserID then Inl (Validation ''owner ID must be a valid UUID'')
      else Inr (map scanFolderKey (sort_key (\<lambda>k. (k_folder_id k, k_key_version k))
        (filter (\<lambda>k. k_owner_user_id k = ownerUserID) (folder_keys s)))))"

section \<open>Listings\<close>

record share_join =
  j_share :: share_row
  j_owner :: user_row
  j_target :: user_row
  j_envelope :: "share_envelope_row option"

text \<open>\<open>shareSelect\<close> with its left join: a share without a matching envelope gives one row.\<close>

definition shareSelect :: "db \<Rightarrow> (share_envelope_row \<Rightarrow> bool) \<Rightarrow> (share_row \<Rightarrow> bool) \<Rightarrow> share_join list" where
  "shareSelect s env wanted =
     concat (map (\<lambda>sh.
       concat (map (\<lambda>ou. concat (map (\<lambda>tu.
         (let es = filter (\<lambda>e. se_share_id e = sh_id sh \<and> se_revoked_at e = None \<and> env e) (share_device_envelopes s)
          in if es = [] then [\<lparr>j_share = sh, j_owner = ou, j_target = tu, j_envelope = None\<rparr>]
             else map (\<lambda>e. \<lparr>j_share = sh, j_owner = ou, j_target = tu, j_envelope = Some e\<rparr>) es))
         (filter (\<lambda>tu. u_id tu = sh_target_user_id sh) (users s))))
         (filter (\<lambda>ou. u_id ou = sh_owner_user_id sh) (users s))))
       (filter wanted (shares s)))"

definition join_version :: "share_join \<Rightarrow> int" where
  "join_version j = (case j_envelope j of None \<Rightarrow> 0 | Some e \<Rightarrow> se_key_version e)"

definition join_created :: "share_join \<Rightarrow> int \<times> nat list" where
  "join_created j = (case j_envelope j of None \<Rightarrow> (0, []) | Some e \<Rightarrow> stamp (se_created_at e))"

definition join_envelopes :: "share_join \<Rightarrow> DeviceEnvelope list" where
  "join_envelopes j = (case j_envelope j of None \<Rightarrow> []
     | Some e \<Rightarrow> [\<lparr>e_TargetDeviceID = se_target_device_id e, e_KeyVersion = se_key_version e,
         e_Ciphertext = se_ciphertext e, e_OwnerIdentityPublicKey = se_owner_identity_public_key e,
         e_OwnerSignature = se_owner_signature e\<rparr>])"

definition join_share :: "share_join \<Rightarrow> Share" where
  "join_share j = \<lparr>s_ID = sh_id (j_share j), s_NodeID = sh_node_id (j_share j),
     s_OwnerUserID = sh_owner_user_id (j_share j), s_TargetUserID = sh_target_user_id (j_share j),
     s_Permission = sh_permission (j_share j), s_OwnerUsername = u_username (j_owner j),
     s_TargetUsername = u_username (j_target j), s_CreatedAt = sh_created_at (j_share j),
     s_Envelopes = join_envelopes j\<rparr>"

fun scanShares :: "Share list \<Rightarrow> share_join list \<Rightarrow> Share list" where
  "scanShares acc [] = acc"
| "scanShares acc (j # js) =
     scanShares (if sh_id (j_share j) \<in> s_ID ` set acc
       then upd (\<lambda>x. s_ID x = sh_id (j_share j)) (\<lambda>x. x\<lparr>s_Envelopes := s_Envelopes x @ join_envelopes j\<rparr>) acc
       else acc @ [join_share j]) js"

definition ListIncoming :: "uuid_pkg \<Rightarrow> db \<Rightarrow> id \<Rightarrow> id \<Rightarrow> err + Share list" where
  "ListIncoming U s userID deviceID =
     (if \<not> ValidUUID U userID \<or> \<not> ValidUUID U deviceID
      then Inl (Validation ''user and device IDs must be valid UUIDs'')
      else Inr (scanShares [] (sort_key (\<lambda>j. (stamp (sh_created_at (j_share j)), sh_id (j_share j), join_version j))
        (shareSelect s (\<lambda>e. se_target_device_id e = deviceID)
          (\<lambda>sh. sh_target_user_id sh = userID \<and> sh_revoked_at sh = None \<and>
             (\<exists>n\<in>set (nodes s). n_id n = sh_node_id sh \<and> n_deleted_at n = None))))))"

definition GetOutgoing :: "uuid_pkg \<Rightarrow> db \<Rightarrow> id \<Rightarrow> id \<Rightarrow> err + Share" where
  "GetOutgoing U s ownerUserID shareID =
     (if \<not> ValidUUID U ownerUserID \<or> \<not> ValidUUID U shareID
      then Inl (Validation ''owner and share IDs must be valid UUIDs'')
      else (case scanShares [] (sort_key (\<lambda>j. (join_version j, join_created j))
          (shareSelect s (\<lambda>_. True)
            (\<lambda>sh. sh_id sh = shareID \<and> sh_owner_user_id sh = ownerUserID \<and> sh_revoked_at sh = None))) of
          [] \<Rightarrow> Inl SharingNotFound
        | x # _ \<Rightarrow> Inr x))"

definition ListOutgoing :: "uuid_pkg \<Rightarrow> db \<Rightarrow> id \<Rightarrow> err + Share list" where
  "ListOutgoing U s ownerUserID =
     (if \<not> ValidUUID U ownerUserID then Inl (Validation ''owner ID must be a valid UUID'')
      else Inr (scanShares [] (sort_key (\<lambda>j. (stamp (sh_created_at (j_share j)), sh_id (j_share j), join_version j, join_created j))
        (shareSelect s (\<lambda>_. True) (\<lambda>sh. sh_owner_user_id sh = ownerUserID \<and> sh_revoked_at sh = None)))))"

section \<open>Grants\<close>

definition sharing_replay :: "uuid_pkg \<Rightarrow> db \<Rightarrow> GrantInput \<Rightarrow> err + id option" where
  "sharing_replay U s inp =
     (case find (\<lambda>r. o_operation_id r = g_OperationID inp) (processed_operations s) of
        None \<Rightarrow> Inr None
      | Some r \<Rightarrow>
          if o_user_id r \<noteq> g_OwnerUserID inp \<or> o_device_id r \<noteq> g_OwnerDeviceID inp
             \<or> o_operation_type r \<noteq> ''SHARE_CREATE'' \<or> \<not> ValidUUID U (o_result_payload r)
          then Inl (Validation ''operation ID has already been used'')
          else Inr (Some (o_result_payload r)))"

fun insertEnvelopes :: "(nat \<Rightarrow> id) \<Rightarrow> nat \<Rightarrow> db \<Rightarrow> id \<Rightarrow> DeviceEnvelope list \<Rightarrow> time \<Rightarrow> err + db" where
  "insertEnvelopes fresh k s shareID [] now = Inr s"
| "insertEnvelopes fresh k s shareID (e # es) now =
     (if \<exists>x\<in>set (share_device_envelopes s). se_share_id x = shareID
           \<and> se_target_device_id x = e_TargetDeviceID e \<and> se_key_version x = e_KeyVersion e
      then insertEnvelopes fresh (Suc k) s shareID es now
      else if \<exists>x\<in>set (share_device_envelopes s). se_id x = fresh k
      then Inl (Internal ''create recipient envelope: UNIQUE constraint failed: share_device_envelopes.id'')
      else insertEnvelopes fresh (Suc k) (s\<lparr>share_device_envelopes := share_device_envelopes s @
        [\<lparr>se_id = fresh k, se_share_id = shareID, se_target_device_id = e_TargetDeviceID e,
          se_key_version = e_KeyVersion e, se_ciphertext = e_Ciphertext e,
          se_owner_identity_public_key = e_OwnerIdentityPublicKey e,
          se_owner_signature = e_OwnerSignature e, se_created_at = now, se_revoked_at = None\<rparr>]\<rparr>) shareID es now)"

definition share_ttl :: time where
  "share_ttl = 30 * 24 * 60 * 60 * nanos_per_second"

datatype grant_tx = GrantReplayed id | Granted id db

definition CreateGrant_tx :: "uuid_pkg \<Rightarrow> time \<Rightarrow> (nat \<Rightarrow> id) \<Rightarrow> db \<Rightarrow> GrantInput \<Rightarrow> err + grant_tx" where
  "CreateGrant_tx U now fresh s inp =
     (if \<not> ValidUUID U (g_OwnerUserID inp) \<or> \<not> ValidUUID U (g_OwnerDeviceID inp) \<or> \<not> ValidUUID U (g_OperationID inp)
         \<or> \<not> ValidUUID U (g_NodeID inp) \<or> \<not> ValidUUID U (g_TargetUserID inp)
      then Inl (Validation ''share user, device, operation, and folder IDs must be valid UUIDs'')
      else if g_Permission inp \<noteq> PermissionRead \<and> g_Permission inp \<noteq> PermissionReadWrite
      then Inl (Validation ''share permission must be READ or READ_WRITE'')
      else if g_OwnerUserID inp = g_TargetUserID inp \<or> g_Envelopes inp = []
         \<or> int (length (g_Envelopes inp)) > maxEnvelopesPerRequest
      then Inl (Validation ''a share needs a different recipient and 1 to 32 device envelopes'')
      else ebind (validateEnvelopes U (g_Envelopes inp)) (\<lambda>_.
        ebind (sharing_replay U s inp) (\<lambda>replay. case replay of
          Some shareID \<Rightarrow> Inr (GrantReplayed shareID)
        | None \<Rightarrow>
            ebind (requireActiveDevice s (g_OwnerUserID inp) (g_OwnerDeviceID inp)) (\<lambda>_.
            ebind (requireOwnedFolder s (g_OwnerUserID inp) (g_NodeID inp)) (\<lambda>_.
            if \<not> (\<exists>u\<in>set (users s). u_id u = g_TargetUserID inp \<and> u_status u = ''ACTIVE'')
            then Inl SharingTargetNotFound
            else if \<exists>sh\<in>set (shares s). active_share sh (g_TargetUserID inp) (g_NodeID inp)
            then Inl SharingAlreadyShared
            else ebind (requireEnvelopeTargets s (g_NodeID inp) (g_TargetUserID inp) (g_Envelopes inp)) (\<lambda>_.
            if \<exists>sh\<in>set (shares s). sh_id sh = fresh 0 then Inl SharingAlreadyShared
            else ebind (insertEnvelopes fresh 1 (s\<lparr>shares := shares s @
                [\<lparr>sh_id = fresh 0, sh_node_id = g_NodeID inp, sh_owner_user_id = g_OwnerUserID inp,
                  sh_target_user_id = g_TargetUserID inp, sh_permission = g_Permission inp,
                  sh_created_at = now, sh_revoked_at = None\<rparr>]\<rparr>) (fresh 0) (g_Envelopes inp) now) (\<lambda>s1.
            Inr (Granted (fresh 0) (s1\<lparr>processed_operations := processed_operations s1 @
              [\<lparr>o_operation_id = g_OperationID inp, o_user_id = g_OwnerUserID inp, o_device_id = g_OwnerDeviceID inp,
                o_operation_type = ''SHARE_CREATE'', o_result_payload = fresh 0, o_created_at = now,
                o_expires_at = now + share_ttl\<rparr>]\<rparr>)))))))))"

definition CreateGrant :: "uuid_pkg \<Rightarrow> time \<Rightarrow> (nat \<Rightarrow> id) \<Rightarrow> db \<Rightarrow> GrantInput \<Rightarrow> db \<times> (err + Share)" where
  "CreateGrant U now fresh s inp =
     (case CreateGrant_tx U now fresh s inp of
        Inl e \<Rightarrow> (s, Inl e)
      | Inr (GrantReplayed shareID) \<Rightarrow> (s, GetOutgoing U s (g_OwnerUserID inp) shareID)
      | Inr (Granted shareID s') \<Rightarrow> (s', GetOutgoing U s' (g_OwnerUserID inp) shareID))"

definition AddEnvelopes_tx ::
  "uuid_pkg \<Rightarrow> time \<Rightarrow> (nat \<Rightarrow> id) \<Rightarrow> db \<Rightarrow> id \<Rightarrow> id \<Rightarrow> id \<Rightarrow> DeviceEnvelope list \<Rightarrow> err + db" where
  "AddEnvelopes_tx U now fresh s ownerUserID ownerDeviceID shareID envelopes =
     (if \<not> ValidUUID U ownerUserID \<or> \<not> ValidUUID U ownerDeviceID \<or> \<not> ValidUUID U shareID
      then Inl (Validation ''owner, device, and share IDs must be valid UUIDs'')
      else if envelopes = [] \<or> int (length envelopes) > maxEnvelopesPerRequest
      then Inl (Validation ''send 1 to 32 device envelopes'')
      else ebind (validateEnvelopes U envelopes) (\<lambda>_.
        ebind (requireActiveDevice s ownerUserID ownerDeviceID) (\<lambda>_.
        case find (\<lambda>sh. sh_id sh = shareID \<and> sh_owner_user_id sh = ownerUserID \<and> sh_revoked_at sh = None) (shares s) of
          None \<Rightarrow> Inl SharingNotFound
        | Some sh \<Rightarrow>
            ebind (requireEnvelopeTargets s (sh_node_id sh) (sh_target_user_id sh) envelopes) (\<lambda>_.
            insertEnvelopes fresh 0 s shareID envelopes now))))"

definition AddEnvelopes ::
  "uuid_pkg \<Rightarrow> time \<Rightarrow> (nat \<Rightarrow> id) \<Rightarrow> db \<Rightarrow> id \<Rightarrow> id \<Rightarrow> id \<Rightarrow> DeviceEnvelope list \<Rightarrow> db \<times> (err + Share)" where
  "AddEnvelopes U now fresh s ownerUserID ownerDeviceID shareID envelopes =
     (case AddEnvelopes_tx U now fresh s ownerUserID ownerDeviceID shareID envelopes of
        Inl e \<Rightarrow> (s, Inl e)
      | Inr s' \<Rightarrow> (s', GetOutgoing U s' ownerUserID shareID))"

definition Revoke :: "uuid_pkg \<Rightarrow> time \<Rightarrow> db \<Rightarrow> id \<Rightarrow> id \<Rightarrow> id \<Rightarrow> db \<times> (err + unit)" where
  "Revoke U now s ownerUserID ownerDeviceID shareID =
     (if \<not> ValidUUID U ownerUserID \<or> \<not> ValidUUID U ownerDeviceID \<or> \<not> ValidUUID U shareID
      then (s, Inl (Validation ''owner, device, and share IDs must be valid UUIDs''))
      else (case requireActiveDevice s ownerUserID ownerDeviceID of
          Inl e \<Rightarrow> (s, Inl e)
        | Inr _ \<Rightarrow>
            (let live = (\<lambda>sh. sh_id sh = shareID \<and> sh_owner_user_id sh = ownerUserID \<and> sh_revoked_at sh = None);
                 affected = count_rows live (shares s);
                 s1 = s\<lparr>shares := upd live (\<lambda>sh. sh\<lparr>sh_revoked_at := Some now\<rparr>) (shares s)\<rparr>
             in if affected = 0 then
                  (if \<not> (\<exists>sh\<in>set (shares s1). sh_id sh = shareID \<and> sh_owner_user_id sh = ownerUserID)
                   then (s, Inl SharingNotFound) else (s1, Inr ()))
                else (s1\<lparr>share_device_envelopes := upd (\<lambda>e. se_share_id e = shareID \<and> se_revoked_at e = None)
                        (\<lambda>e. e\<lparr>se_revoked_at := Some now\<rparr>) (share_device_envelopes s1)\<rparr>, Inr ()))))"

end
