(* ===== verification/HB_Sharing_Inv.thy ===== *)
theory HB_Sharing_Inv
  imports HB_Sharing HB_Invariant HB_Demo
begin

text \<open>
  What the sharing operations keep true, and the sharing service as the interface
  \<open>transactional\<close>. Beside \<open>vault_inv\<close>, accounts of devices and shares exist (\<open>users_ok\<close>), and the
  key versions of a folder are numbered from 1 without gaps (\<open>keys_ok\<close>).
\<close>

definition users_ok :: "db \<Rightarrow> bool" where
  "users_ok s \<longleftrightarrow> distinct (map u_id (users s)) \<and> (\<forall>d\<in>set (devices s). d_user_id d \<in> u_id ` set (users s)) \<and>
     (\<forall>sh\<in>set (shares s). sh_owner_user_id sh \<in> u_id ` set (users s) \<and> sh_target_user_id sh \<in> u_id ` set (users s))"

definition keys_ok :: "db \<Rightarrow> bool" where
  "keys_ok s \<longleftrightarrow> distinct (map (\<lambda>k. (k_folder_id k, k_key_version k)) (folder_keys s)) \<and>
     (\<forall>k\<in>set (folder_keys s). 1 \<le> k_key_version k \<and> (1 < k_key_version k \<longrightarrow>
        (\<exists>k'\<in>set (folder_keys s). k_folder_id k' = k_folder_id k \<and> k_key_version k' = k_key_version k - 1)))"

definition sharing_inv :: "db \<Rightarrow> bool" where
  "sharing_inv s \<longleftrightarrow> vault_inv s \<and> users_ok s \<and> keys_ok s"

lemma sharing_invD:
  assumes "sharing_inv s"
  shows "vault_inv s" "users_ok s" "keys_ok s"
  using assms by (simp_all add: sharing_inv_def)

lemma sharing_inv_cong:
  assumes "nodes s' = nodes s" "sync_changes s' = sync_changes s" "sync_seq s' = sync_seq s"
    "shares s' = shares s" "folder_keys s' = folder_keys s" "users s' = users s" "devices s' = devices s"
  shows "sharing_inv s' = sharing_inv s"
  unfolding sharing_inv_def users_ok_def keys_ok_def vault_inv_cong [OF assms(1-5)] assms ..

lemma demo_sharing_inv: "sharing_inv demo"
  using demo_inv by (simp add: sharing_inv_def users_ok_def keys_ok_def demo_defs)

section \<open>Folder keys\<close>

lemma if_not_Inl: "(if b then Inl e else r) = Inr x \<longleftrightarrow> \<not> b \<and> r = Inr x"
  by simp

lemma requireActiveDevice_Inr [simp]:
  "requireActiveDevice s u d = Inr x \<longleftrightarrow>
   (\<exists>r\<in>set (devices s). d_id r = d \<and> d_user_id r = u \<and> d_revoked_at r = None)"
  by (auto simp: requireActiveDevice_def)

lemma requireOwnedFolder_node:
  assumes "requireOwnedFolder s u i = Inr x"
  obtains n where "n \<in> set (nodes s)" "n_id n = i" "n_owner_id n = u" "n_node_type n = ''DIRECTORY''"
    "n_deleted_at n = None"
  using assms that unfolding requireOwnedFolder_def
  by (auto split: option.split_asm if_split_asm dest!: find_SomeD)

lemma CreateFolderKey_stored:
  assumes "CreateFolderKey_tx U now s u d i v env = Inr (Some s')"
  obtains n latest where "ValidUUID U i" "n \<in> set (nodes s)" "n_id n = i" "n_owner_id n = u"
    "n_node_type n = ''DIRECTORY''" "n_deleted_at n = None"
    "latest = max_version (filter (\<lambda>k. k_folder_id k = i) (folder_keys s))" "v = latest + 1" "1 \<le> v"
    "latest = 0 \<longrightarrow> forbidNestedScope s i = Inr ()"
    "\<forall>k\<in>set (folder_keys s). k_folder_id k = i \<longrightarrow> k_key_version k \<noteq> v"
    "s' = s\<lparr>folder_keys := folder_keys s @ [\<lparr>k_folder_id = i, k_key_version = v, k_owner_user_id = u,
        k_owner_envelope = env, k_created_at = now, k_created_by_device_id = d\<rparr>]\<rparr>"
proof -
  let ?latest = "max_version (filter (\<lambda>k. k_folder_id k = i) (folder_keys s))"
  from assms have ok: "ValidUUID U i" "1 \<le> v" and own: "requireOwnedFolder s u i = Inr ()"
    and new: "find (\<lambda>k. k_folder_id k = i \<and> k_key_version k = v) (folder_keys s) = None"
    and latest: "v = ?latest + 1" "?latest = 0 \<longrightarrow> forbidNestedScope s i = Inr ()"
    and s': "s' = s\<lparr>folder_keys := folder_keys s @ [\<lparr>k_folder_id = i, k_key_version = v, k_owner_user_id = u,
        k_owner_envelope = env, k_created_at = now, k_created_by_device_id = d\<rparr>]\<rparr>"
    unfolding CreateFolderKey_tx_def Let_def
    by (auto split: if_split_asm option.split_asm)
  from own obtain n where "n \<in> set (nodes s)" "n_id n = i" "n_owner_id n = u" "n_node_type n = ''DIRECTORY''"
    "n_deleted_at n = None" by (rule requireOwnedFolder_node)
  moreover from new have "\<forall>k\<in>set (folder_keys s). k_folder_id k = i \<longrightarrow> k_key_version k \<noteq> v"
    by (auto simp: find_None_iff)
  ultimately show ?thesis using that [OF ok(1)] latest ok(2) s' by blast
qed

text \<open>A folder that passed \<open>forbidNestedScope\<close> has no keyed folder above or below it.\<close>

lemma forbidNestedScope_sound:
  assumes inv: "vault_inv s" and n: "n \<in> set (nodes s)" "n_id n = i" and ok: "forbidNestedScope s i = Inr ()"
  shows "(i, j) \<in> (par (nodes s))\<^sup>+ \<Longrightarrow> \<not> keyed s j" and "(j, i) \<in> (par (nodes s))\<^sup>+ \<Longrightarrow> \<not> keyed s j"
proof -
  note D = vault_invD [OF inv]
  have node: "node_of s i = Some n" using n by (simp add: node_of_iff [OF D(8)])
  show "\<not> keyed s j" if path: "(i, j) \<in> (par (nodes s))\<^sup>+"
  proof -
    from tranclD [OF path] obtain p where p: "(i, p) \<in> par (nodes s)" "(p, j) \<in> (par (nodes s))\<^sup>*" by blast
    then obtain m where "m \<in> set (nodes s)" "n_id m = i" "n_parent_id m = Some p" by (auto simp: par_def)
    moreover from this have "m = n" using distinct_map_eq [OF D(8)] n by blast
    ultimately have "n_parent_id n = Some p" by simp
    with ok node have near: "NearestKeyedFolder s p = Inr []"
      by (auto simp: forbidNestedScope_def split: if_split_asm)
    have "p \<in> n_id ` set (nodes s)" by (rule par_range [OF D(9) p(1)])
    from par_rtrancl_range [OF p(2) D(9) this] show ?thesis
      by (rule NearestKeyedFolder_none [OF D(1) D(12) near _ p(2)])
  qed
  show "\<not> keyed s j" if path: "(j, i) \<in> (par (nodes s))\<^sup>+"
  proof -
    from ok node have "\<not> SubtreeHasKeyedFolder s i"
      by (auto simp: forbidNestedScope_def split: if_split_asm)
    moreover have "j \<in> n_id ` set (nodes s)" using tranclD [OF path] by (auto dest: par_domain)
    ultimately show ?thesis
      using SubtreeHasKeyedFolder_iff [OF D(8), of i] n trancl_into_rtrancl [OF path] by blast
  qed
qed

lemma max_version_keyed:
  assumes "max_version (filter (\<lambda>k. k_folder_id k = i) (folder_keys s)) \<noteq> 0"
  shows "keyed s i"
proof -
  from assms have "filter (\<lambda>k. k_folder_id k = i) (folder_keys s) \<noteq> []" by auto
  then show ?thesis by (auto simp: filter_empty_conv keyed_def)
qed

lemma CreateFolderKey_inv:
  assumes inv: "sharing_inv s" and U: "uuid_laws U" and c: "CreateFolderKey_tx U now s u d i v env = Inr (Some s')"
  shows "sharing_inv s'"
proof -
  note I = sharing_invD [OF inv]
  note D = vault_invD [OF I(1)]
  from c obtain n latest where id: "ValidUUID U i" and n: "n \<in> set (nodes s)" "n_id n = i" "n_owner_id n = u"
    and latest: "latest = max_version (filter (\<lambda>k. k_folder_id k = i) (folder_keys s))" "v = latest + 1" "1 \<le> v"
    "latest = 0 \<longrightarrow> forbidNestedScope s i = Inr ()"
    and new: "\<forall>k\<in>set (folder_keys s). k_folder_id k = i \<longrightarrow> k_key_version k \<noteq> v"
    and s': "s' = s\<lparr>folder_keys := folder_keys s @ [\<lparr>k_folder_id = i, k_key_version = v, k_owner_user_id = u,
        k_owner_envelope = env, k_created_at = now, k_created_by_device_id = d\<rparr>]\<rparr>"
    by (rule CreateFolderKey_stored)
  have keyed: "keyed s' j \<longleftrightarrow> keyed s j \<or> j = i" for j by (auto simp: keyed_def s')
  have "scopes_disjoint s'"
  proof (cases "latest = 0")
    case True
    with latest have nest: "forbidNestedScope s i = Inr ()" by simp
    note sound = forbidNestedScope_sound [OF I(1) n(1,2) nest]
    have "(a, b) \<notin> (par (nodes s))\<^sup>+" if "keyed s a \<or> a = i" "keyed s b \<or> b = i" for a b
      using that sound [of a] sound [of b] D(4,10) unfolding scopes_disjoint_def acyclic_def by blast
    then show ?thesis unfolding scopes_disjoint_def keyed by (simp add: s')
  next
    case False
    with latest(1) max_version_keyed [of i s] have "keyed s i" by simp
    then have "keyed s' = keyed s" using keyed by (auto simp: fun_eq_iff)
    with D(4) show ?thesis by (simp add: scopes_disjoint_def) (simp add: s')
  qed
  moreover have "keys_owned s'"
  proof -
    have "n_owner_id m = u" if "m \<in> set (nodes s)" "n_id m = i" for m
      using distinct_map_eq [OF D(8) that(1) n(1)] that(2) n(2,3) by simp
    with D(5) show ?thesis by (simp add: keys_owned_def s')
  qed
  moreover have "shares_ok s'" using D(6) by (simp add: shares_ok_def one_share_def keyed) (simp add: s')
  moreover have "ids_ok s'" using D(7) id U by (simp add: ids_ok_def keyed uuid_laws_def) (auto simp: s')
  moreover have "forest (nodes s')" "feed_ok s'" "tracked s'"
    using D(1-3) by (simp_all add: s' feed_ok_def tracked_def)
  moreover have "users_ok s'" using I(2) by (simp add: users_ok_def s')
  moreover have "keys_ok s'"
  proof -
    have "\<exists>k\<in>set (folder_keys s). k_folder_id k = i \<and> k_key_version k = v - 1" if "1 < v"
    proof -
      from that latest have "latest \<noteq> 0" by simp
      with latest(1) obtain k where k: "k \<in> set (filter (\<lambda>k. k_folder_id k = i) (folder_keys s))"
        by (cases "filter (\<lambda>k. k_folder_id k = i) (folder_keys s)") auto
      from max_version_spec(2) [OF k] latest show ?thesis by auto
    qed
    with I(3) new latest(3) show ?thesis by (auto simp: keys_ok_def s')
  qed
  ultimately show ?thesis by (simp add: sharing_inv_def vault_inv_def)
qed

section \<open>Envelopes\<close>

lemma insertEnvelopes_frame:
  "insertEnvelopes fresh k s i es now = Inr s' \<Longrightarrow> \<exists>ev. s' = s\<lparr>share_device_envelopes := ev\<rparr>"
proof (induction es arbitrary: k s)
  case Nil
  then show ?case by (intro exI [of _ "share_device_envelopes s"]) simp
next
  case (Cons e es)
  from Cons.prems Cons.IH show ?case by (fastforce split: if_split_asm)
qed

lemma requireEnvelopeTargets_keyed:
  "requireEnvelopeTargets s i u es = Inr () \<Longrightarrow> es \<noteq> [] \<Longrightarrow> keyed s i"
  by (cases es) (auto simp: keyed_def split: if_split_asm)

definition share_of :: "time \<Rightarrow> id \<Rightarrow> GrantInput \<Rightarrow> share_row" where
  "share_of now i inp = \<lparr>sh_id = i, sh_node_id = g_NodeID inp, sh_owner_user_id = g_OwnerUserID inp,
     sh_target_user_id = g_TargetUserID inp, sh_permission = g_Permission inp,
     sh_created_at = now, sh_revoked_at = None\<rparr>"

lemma grant_case:
  "(case replay of None \<Rightarrow> x | Some j \<Rightarrow> Inr (GrantReplayed j)) = Inr (Granted i s') \<longleftrightarrow>
   replay = None \<and> x = Inr (Granted i s')"
  by (cases replay) auto

lemma CreateGrant_raw:
  assumes "CreateGrant_tx U now fresh s inp = Inr (Granted i s')"
  obtains s1 ops where "i = fresh 0" "ValidUUID U (g_OwnerUserID inp)"
    "g_Permission inp = PermissionRead \<or> g_Permission inp = PermissionReadWrite"
    "g_OwnerUserID inp \<noteq> g_TargetUserID inp" "g_Envelopes inp \<noteq> []"
    "requireOwnedFolder s (g_OwnerUserID inp) (g_NodeID inp) = Inr ()"
    "\<exists>d\<in>set (devices s). d_id d = g_OwnerDeviceID inp \<and> d_user_id d = g_OwnerUserID inp \<and> d_revoked_at d = None"
    "\<exists>u\<in>set (users s). u_id u = g_TargetUserID inp \<and> u_status u = ''ACTIVE''"
    "\<forall>sh\<in>set (shares s). \<not> active_share sh (g_TargetUserID inp) (g_NodeID inp)"
    "requireEnvelopeTargets s (g_NodeID inp) (g_TargetUserID inp) (g_Envelopes inp) = Inr ()"
    "\<forall>sh\<in>set (shares s). sh_id sh \<noteq> fresh 0"
    "insertEnvelopes fresh 1 (s\<lparr>shares := shares s @ [share_of now (fresh 0) inp]\<rparr>) (fresh 0) (g_Envelopes inp) now = Inr s1"
    "s' = s1\<lparr>processed_operations := ops\<rparr>"
  using assms
  apply (clarsimp simp: CreateGrant_tx_def grant_case if_not_Inl)
  apply (fold share_of_def One_nat_def)
  apply (rule that)
  apply (assumption | rule refl | blast)+
  done

lemma CreateGrant_granted:
  assumes "CreateGrant_tx U now fresh s inp = Inr (Granted i s')"
  obtains n ev ops where "i = fresh 0" "ValidUUID U (g_OwnerUserID inp)"
    "g_Permission inp = PermissionRead \<or> g_Permission inp = PermissionReadWrite"
    "n \<in> set (nodes s)" "n_id n = g_NodeID inp" "n_owner_id n = g_OwnerUserID inp"
    "n_node_type n = ''DIRECTORY''" "n_deleted_at n = None" "keyed s (g_NodeID inp)"
    "g_OwnerUserID inp \<noteq> g_TargetUserID inp"
    "\<exists>d\<in>set (devices s). d_id d = g_OwnerDeviceID inp \<and> d_user_id d = g_OwnerUserID inp \<and> d_revoked_at d = None"
    "g_TargetUserID inp \<in> u_id ` set (users s)"
    "\<forall>sh\<in>set (shares s). \<not> active_share sh (g_TargetUserID inp) (g_NodeID inp)"
    "\<forall>sh\<in>set (shares s). sh_id sh \<noteq> fresh 0"
    "s' = s\<lparr>shares := shares s @ [share_of now (fresh 0) inp], share_device_envelopes := ev, processed_operations := ops\<rparr>"
proof -
  from assms obtain s1 ops where i: "i = fresh 0" and ok: "ValidUUID U (g_OwnerUserID inp)"
      "g_Permission inp = PermissionRead \<or> g_Permission inp = PermissionReadWrite"
      "g_OwnerUserID inp \<noteq> g_TargetUserID inp" "g_Envelopes inp \<noteq> []"
    and own: "requireOwnedFolder s (g_OwnerUserID inp) (g_NodeID inp) = Inr ()"
    and dev: "\<exists>d\<in>set (devices s). d_id d = g_OwnerDeviceID inp \<and> d_user_id d = g_OwnerUserID inp \<and> d_revoked_at d = None"
    and target: "\<exists>u\<in>set (users s). u_id u = g_TargetUserID inp \<and> u_status u = ''ACTIVE''"
    and none: "\<forall>sh\<in>set (shares s). \<not> active_share sh (g_TargetUserID inp) (g_NodeID inp)"
    and targets: "requireEnvelopeTargets s (g_NodeID inp) (g_TargetUserID inp) (g_Envelopes inp) = Inr ()"
    and fresh: "\<forall>sh\<in>set (shares s). sh_id sh \<noteq> fresh 0"
    and s1: "insertEnvelopes fresh 1 (s\<lparr>shares := shares s @ [share_of now (fresh 0) inp]\<rparr>) (fresh 0) (g_Envelopes inp) now = Inr s1"
    and s': "s' = s1\<lparr>processed_operations := ops\<rparr>"
    by (rule CreateGrant_raw)
  from insertEnvelopes_frame [OF s1] s' obtain ev where
    "s' = s\<lparr>shares := shares s @ [share_of now (fresh 0) inp], share_device_envelopes := ev, processed_operations := ops\<rparr>"
    by auto
  moreover from own obtain n where "n \<in> set (nodes s)" "n_id n = g_NodeID inp" "n_owner_id n = g_OwnerUserID inp"
    "n_node_type n = ''DIRECTORY''" "n_deleted_at n = None" by (rule requireOwnedFolder_node)
  ultimately show ?thesis
    using that [OF i ok(1,2) _ _ _ _ _ requireEnvelopeTargets_keyed [OF targets ok(4)] ok(3) dev _ none fresh] target
    by (metis (no_types, lifting) imageI)
qed

section \<open>Grants keep the invariant\<close>

lemma active_share_of: "active_share (share_of now i inp) u j \<longleftrightarrow> j = g_NodeID inp \<and> u = g_TargetUserID inp"
  by (auto simp: active_share_def share_of_def)

lemma CreateGrant_inv:
  assumes inv: "sharing_inv s" and c: "CreateGrant_tx U now fresh s inp = Inr (Granted i s')"
  shows "sharing_inv s'"
proof -
  note I = sharing_invD [OF inv]
  note D = vault_invD [OF I(1)]
  from c obtain n ev ops where n: "n \<in> set (nodes s)" "n_id n = g_NodeID inp" "n_owner_id n = g_OwnerUserID inp"
    "n_node_type n = ''DIRECTORY''" and key: "keyed s (g_NodeID inp)" and ne: "g_OwnerUserID inp \<noteq> g_TargetUserID inp"
    and dev: "\<exists>d\<in>set (devices s). d_id d = g_OwnerDeviceID inp \<and> d_user_id d = g_OwnerUserID inp \<and> d_revoked_at d = None"
    and target: "g_TargetUserID inp \<in> u_id ` set (users s)"
    and none: "\<forall>sh\<in>set (shares s). \<not> active_share sh (g_TargetUserID inp) (g_NodeID inp)"
    and fresh: "\<forall>sh\<in>set (shares s). sh_id sh \<noteq> fresh 0"
    and s': "s' = s\<lparr>shares := shares s @ [share_of now (fresh 0) inp], share_device_envelopes := ev, processed_operations := ops\<rparr>"
    by (rule CreateGrant_granted)
  let ?new = "share_of now (fresh 0) inp"
  have new: "sh_id ?new = fresh 0" "sh_node_id ?new = g_NodeID inp" "sh_owner_user_id ?new = g_OwnerUserID inp"
    "sh_target_user_id ?new = g_TargetUserID inp" by (simp_all add: share_of_def)
  have keyed: "keyed s' = keyed s" by (rule keyed_cong) (simp add: s')
  have "one_share s'"
    unfolding one_share_def
  proof (intro ballI allI impI)
    fix sh sh' u j assume a: "sh \<in> set (shares s')" "sh' \<in> set (shares s')" "active_share sh u j" "active_share sh' u j"
    then consider "sh \<in> set (shares s)" "sh' \<in> set (shares s)" | "sh = ?new" "sh' = ?new"
      | "sh = ?new" "sh' \<in> set (shares s)" | "sh \<in> set (shares s)" "sh' = ?new" by (auto simp: s')
    then show "sh = sh'"
    proof cases
      case 1
      with a D(11) show ?thesis unfolding one_share_def by blast
    next
      case 3
      with a none show ?thesis by (auto simp: active_share_of)
    next
      case 4
      with a none show ?thesis by (auto simp: active_share_of)
    qed simp
  qed
  moreover have "distinct (map sh_id (shares s'))"
    using D(6) fresh by (auto simp: s' new shares_ok_def)
  moreover have "\<forall>sh\<in>set (shares s'). sh_target_user_id sh \<noteq> sh_owner_user_id sh \<and> keyed s' (sh_node_id sh) \<and>
      (\<exists>n\<in>set (nodes s'). n_id n = sh_node_id sh \<and> n_owner_id n = sh_owner_user_id sh \<and> n_node_type n = ''DIRECTORY'')"
  proof
    fix sh assume "sh \<in> set (shares s')"
    then consider "sh \<in> set (shares s)" | "sh = ?new" by (auto simp: s')
    then show "sh_target_user_id sh \<noteq> sh_owner_user_id sh \<and> keyed s' (sh_node_id sh) \<and>
      (\<exists>n\<in>set (nodes s'). n_id n = sh_node_id sh \<and> n_owner_id n = sh_owner_user_id sh \<and> n_node_type n = ''DIRECTORY'')"
    proof cases
      case 1
      with D(6) show ?thesis by (simp add: shares_ok_def keyed) (simp add: s')
    next
      case 2
      have "\<exists>n\<in>set (nodes s'). n_id n = g_NodeID inp \<and> n_owner_id n = g_OwnerUserID inp \<and> n_node_type n = ''DIRECTORY''"
        using n by (auto simp: s')
      with ne key show ?thesis by (simp add: 2 new keyed)
    qed
  qed
  ultimately have "shares_ok s'" by (simp add: shares_ok_def)
  moreover have "forest (nodes s')" "feed_ok s'" "tracked s'" "scopes_disjoint s'" "keys_owned s'" "ids_ok s'"
    using D(1-5,7) by (simp_all add: feed_ok_def tracked_def scopes_disjoint_def keys_owned_def ids_ok_def keyed) (simp_all add: s')
  moreover have "users_ok s'"
  proof -
    from dev obtain d where "d \<in> set (devices s)" "d_user_id d = g_OwnerUserID inp" by blast
    with I(2) have "g_OwnerUserID inp \<in> u_id ` set (users s)" unfolding users_ok_def by metis
    with I(2) target show ?thesis by (simp add: users_ok_def s' new)
  qed
  moreover have "keys_ok s'" using I(3) by (simp add: keys_ok_def s')
  ultimately show ?thesis by (simp add: sharing_inv_def vault_inv_def)
qed

lemma AddEnvelopes_inv:
  assumes "sharing_inv s" "AddEnvelopes_tx U now fresh s u d i es = Inr s'"
  shows "sharing_inv s'"
proof -
  from assms(2) obtain k where "insertEnvelopes fresh k s i es now = Inr s'"
    by (auto simp: AddEnvelopes_tx_def split: if_split_asm option.split_asm)
  then obtain ev where "s' = s\<lparr>share_device_envelopes := ev\<rparr>" using insertEnvelopes_frame by blast
  then have "sharing_inv s' = sharing_inv s" by (intro sharing_inv_cong) simp_all
  with assms(1) show ?thesis by simp
qed

text \<open>Revoking only ends shares: nothing else changes, and no share becomes active.\<close>

definition revoke_rows :: "time \<Rightarrow> id \<Rightarrow> id \<Rightarrow> share_row list \<Rightarrow> share_row list" where
  "revoke_rows now i u shs = upd (\<lambda>sh. sh_id sh = i \<and> sh_owner_user_id sh = u \<and> sh_revoked_at sh = None)
     (\<lambda>sh. sh\<lparr>sh_revoked_at := Some now\<rparr>) shs"

lemma Revoke_cases:
  "(\<exists>e. Revoke U now s u d i = (s, Inl e)) \<or>
   (\<exists>ev. Revoke U now s u d i = (s\<lparr>shares := revoke_rows now i u (shares s), share_device_envelopes := ev\<rparr>, Inr ()))"
proof (cases "requireActiveDevice s u d")
  case (Inl e)
  then show ?thesis by (simp add: Revoke_def)
next
  case (Inr x)
  let ?s = "s\<lparr>shares := revoke_rows now i u (shares s)\<rparr>"
  have "\<exists>ev. ?s = s\<lparr>shares := revoke_rows now i u (shares s), share_device_envelopes := ev\<rparr>"
    by (rule exI [of _ "share_device_envelopes s"]) simp
  then show ?thesis
    unfolding Revoke_def Let_def Inr sum.case revoke_rows_def [symmetric]
    by (auto split: if_split)
qed

lemma revoke_rows_active:
  assumes "sh' \<in> set (revoke_rows now i u shs)" "active_share sh' w j"
  shows "sh' \<in> set shs \<and> \<not> (sh_id sh' = i \<and> sh_owner_user_id sh' = u)"
  using assms by (auto simp: revoke_rows_def set_upd active_share_def split: if_split_asm)

lemma revoke_inv:
  assumes inv: "sharing_inv s" and s': "s' = s\<lparr>shares := revoke_rows now i u (shares s), share_device_envelopes := ev\<rparr>"
  shows "sharing_inv s'"
proof -
  note I = sharing_invD [OF inv]
  note D = vault_invD [OF I(1)]
  have keyed: "keyed s' = keyed s" by (rule keyed_cong) (simp add: s')
  have shs: "shares s' = revoke_rows now i u (shares s)" by (simp add: s')
  have "one_share s'"
    unfolding one_share_def shs
    using revoke_rows_active D(11) [unfolded one_share_def] by blast
  moreover have "distinct (map sh_id (shares s'))"
    using D(6) by (simp add: shs revoke_rows_def shares_ok_def map_upd)
  moreover have keep: "\<exists>sh\<in>set (shares s). sh_node_id sh = sh_node_id sh' \<and> sh_owner_user_id sh = sh_owner_user_id sh' \<and>
      sh_target_user_id sh = sh_target_user_id sh'" if "sh' \<in> set (shares s')" for sh'
    using that by (auto simp: shs revoke_rows_def set_upd split: if_split_asm)
  moreover have "\<forall>sh\<in>set (shares s'). sh_target_user_id sh \<noteq> sh_owner_user_id sh \<and> keyed s' (sh_node_id sh) \<and>
      (\<exists>n\<in>set (nodes s'). n_id n = sh_node_id sh \<and> n_owner_id n = sh_owner_user_id sh \<and> n_node_type n = ''DIRECTORY'')"
  proof
    fix sh' assume "sh' \<in> set (shares s')"
    from keep [OF this] obtain sh where sh: "sh \<in> set (shares s)" "sh_node_id sh = sh_node_id sh'"
      "sh_owner_user_id sh = sh_owner_user_id sh'" "sh_target_user_id sh = sh_target_user_id sh'" by blast
    have "sh_target_user_id sh \<noteq> sh_owner_user_id sh \<and> keyed s (sh_node_id sh) \<and>
      (\<exists>n\<in>set (nodes s). n_id n = sh_node_id sh \<and> n_owner_id n = sh_owner_user_id sh \<and> n_node_type n = ''DIRECTORY'')"
      using D(6) sh(1) by (simp add: shares_ok_def)
    then show "sh_target_user_id sh' \<noteq> sh_owner_user_id sh' \<and> keyed s' (sh_node_id sh') \<and>
      (\<exists>n\<in>set (nodes s'). n_id n = sh_node_id sh' \<and> n_owner_id n = sh_owner_user_id sh' \<and> n_node_type n = ''DIRECTORY'')"
      unfolding sh(2-4) keyed by (simp add: s')
  qed
  ultimately have "shares_ok s'" by (simp add: shares_ok_def)
  moreover have "users_ok s'"
  proof -
    have "sh_owner_user_id sh' \<in> u_id ` set (users s) \<and> sh_target_user_id sh' \<in> u_id ` set (users s)"
      if "sh' \<in> set (shares s')" for sh'
    proof -
      from keep [OF that] obtain sh where sh: "sh \<in> set (shares s)"
        "sh_owner_user_id sh = sh_owner_user_id sh'" "sh_target_user_id sh = sh_target_user_id sh'" by blast
      with I(2) show ?thesis unfolding users_ok_def by metis
    qed
    then show ?thesis using I(2) by (simp add: users_ok_def) (simp add: s')
  qed
  moreover have "forest (nodes s')" "feed_ok s'" "tracked s'" "scopes_disjoint s'" "keys_owned s'" "ids_ok s'"
    using D(1-5,7) by (simp_all add: feed_ok_def tracked_def scopes_disjoint_def keys_owned_def ids_ok_def keyed) (simp_all add: s')
  moreover have "keys_ok s'" using I(3) by (simp add: keys_ok_def s')
  ultimately show ?thesis by (simp add: sharing_inv_def vault_inv_def)
qed

section \<open>Answers\<close>

lemma scanShares_nonempty: "acc \<noteq> [] \<or> js \<noteq> [] \<Longrightarrow> scanShares acc js \<noteq> []"
proof (induction js arbitrary: acc)
  case (Cons j js)
  have "(if b then upd p f acc else acc @ [join_share j]) \<noteq> []" if "b \<longrightarrow> acc \<noteq> []" for b p f
    using that by (simp add: upd_def)
  moreover have "sh_id (j_share j) \<in> s_ID ` set acc \<longrightarrow> acc \<noteq> []" by auto
  ultimately show ?case using Cons.IH unfolding scanShares.simps by blast
qed simp

lemma sort_key_Nil: "sort_key f xs = [] \<longleftrightarrow> xs = []"
  by (metis length_0_conv length_sort)

lemma nonempty_mono: "set xs \<subseteq> set ys \<Longrightarrow> xs \<noteq> [] \<Longrightarrow> ys \<noteq> []"
  by (cases xs) auto

lemma shareSelect_rows:
  assumes sh: "sh \<in> set (shares s)" and ou: "ou \<in> set (users s)" "u_id ou = sh_owner_user_id sh"
    and tu: "tu \<in> set (users s)" "u_id tu = sh_target_user_id sh" and w: "wanted sh"
  shows "set (let es = filter (\<lambda>e. se_share_id e = sh_id sh \<and> se_revoked_at e = None \<and> env e) (share_device_envelopes s)
      in if es = [] then [\<lparr>j_share = sh, j_owner = ou, j_target = tu, j_envelope = None\<rparr>]
         else map (\<lambda>e. \<lparr>j_share = sh, j_owner = ou, j_target = tu, j_envelope = Some e\<rparr>) es)
    \<subseteq> set (shareSelect s env wanted)"
proof -
  have concat: "set (f x) \<subseteq> set (concat (map f (filter p xs)))" if "x \<in> set xs" "p x" for f :: "'a \<Rightarrow> 'b list" and x p xs
    using that by auto
  note outer = concat [OF sh, of wanted]
  note mid = concat [OF ou(1), of "\<lambda>ou. u_id ou = sh_owner_user_id sh"]
  note inner = concat [OF tu(1), of "\<lambda>tu. u_id tu = sh_target_user_id sh"]
  show ?thesis
    unfolding shareSelect_def
    by (rule order_trans [OF _ outer [OF w]], rule order_trans [OF _ mid [OF ou(2)]], rule inner [OF tu(2)])
qed

lemma GetOutgoing_ok:
  assumes "ValidUUID U u" "ValidUUID U i" and sh: "sh \<in> set (shares s)" "sh_id sh = i" "sh_owner_user_id sh = u"
    "sh_revoked_at sh = None" and users: "users_ok s"
  shows "\<exists>x. GetOutgoing U s u i = Inr x"
proof -
  obtain ou tu where ou: "ou \<in> set (users s)" "u_id ou = sh_owner_user_id sh"
    and tu: "tu \<in> set (users s)" "u_id tu = sh_target_user_id sh"
    using users sh(1) by (fastforce simp: users_ok_def image_iff)
  let ?j = "shareSelect s (\<lambda>_. True) (\<lambda>sh. sh_id sh = i \<and> sh_owner_user_id sh = u \<and> sh_revoked_at sh = None)"
  have "?j \<noteq> []"
  proof -
    let ?es = "filter (\<lambda>e. se_share_id e = sh_id sh \<and> se_revoked_at e = None \<and> True) (share_device_envelopes s)"
    let ?rows = "if ?es = [] then [\<lparr>j_share = sh, j_owner = ou, j_target = tu, j_envelope = None\<rparr>]
             else map (\<lambda>e. \<lparr>j_share = sh, j_owner = ou, j_target = tu, j_envelope = Some e\<rparr>) ?es"
    have ne: "?rows \<noteq> []" by simp
    show ?thesis
      by (rule nonempty_mono [OF shareSelect_rows [unfolded Let_def, OF sh(1) ou tu] ne]) (simp add: sh)
  qed
  then have "scanShares [] (sort_key (\<lambda>j. (join_version j, join_created j)) ?j) \<noteq> []"
    by (intro scanShares_nonempty) (simp add: sort_key_Nil)
  with assms(1,2) show ?thesis by (auto simp: GetOutgoing_def neq_Nil_conv)
qed

section \<open>The service\<close>

datatype sharing_cmd =
    FolderKeyCmd id id id int bytes
  | GrantCmd GrantInput
  | EnvelopesCmd id id id "DeviceEnvelope list"
  | RevokeCmd id id id

text \<open>\<open>draws k\<close> are the UUIDs operation number \<open>k\<close> draws.\<close>

fun sharing_exec :: "uuid_pkg \<Rightarrow> (nat \<Rightarrow> nat \<Rightarrow> id) \<Rightarrow> time \<times> nat \<times> sharing_cmd \<Rightarrow> db \<Rightarrow> db \<times> (err + unit)" where
  "sharing_exec U draws (now, k, FolderKeyCmd u d i v env) s =
     map_prod id (map_sum id (\<lambda>_. ())) (CreateFolderKey U now s u d i v env)"
| "sharing_exec U draws (now, k, GrantCmd inp) s =
     map_prod id (map_sum id (\<lambda>_. ())) (CreateGrant U now (draws k) s inp)"
| "sharing_exec U draws (now, k, EnvelopesCmd u d i es) s =
     map_prod id (map_sum id (\<lambda>_. ())) (AddEnvelopes U now (draws k) s u d i es)"
| "sharing_exec U draws (now, k, RevokeCmd u d i) s = Revoke U now s u d i"

definition draws_ok :: "uuid_pkg \<Rightarrow> (nat \<Rightarrow> nat \<Rightarrow> id) \<Rightarrow> bool" where
  "draws_ok U draws \<longleftrightarrow> (\<forall>k j. ValidUUID U (draws k j))"

lemma snd_map_Inl [simp]: "snd (map_prod id (map_sum id f) r) = Inl e \<longleftrightarrow> snd r = Inl e"
  by (cases "snd r") (simp_all add: map_prod_def split_beta)

lemma CreateGrant_answer:
  assumes inv: "sharing_inv s" and draws: "ValidUUID U (fresh 0)"
    and c: "CreateGrant_tx U now fresh s inp = Inr (Granted i s')"
  shows "\<exists>x. GetOutgoing U s' (g_OwnerUserID inp) i = Inr x"
proof -
  from c obtain ev ops where "i = fresh 0" "ValidUUID U (g_OwnerUserID inp)"
    and s': "s' = s\<lparr>shares := shares s @ [share_of now (fresh 0) inp], share_device_envelopes := ev, processed_operations := ops\<rparr>"
    by (rule CreateGrant_granted)
  moreover have "users_ok s'" using CreateGrant_inv [OF inv c] by (simp add: sharing_inv_def)
  ultimately show ?thesis using draws
    by (intro GetOutgoing_ok [where sh = "share_of now (fresh 0) inp"]) (simp_all add: share_of_def)
qed

lemma AddEnvelopes_answer:
  assumes inv: "sharing_inv s" and c: "AddEnvelopes_tx U now fresh s u d i es = Inr s'"
  shows "\<exists>x. GetOutgoing U s' u i = Inr x"
proof -
  from c obtain k sh where ok: "ValidUUID U u" "ValidUUID U i" and ins: "insertEnvelopes fresh k s i es now = Inr s'"
    and sh: "find (\<lambda>sh. sh_id sh = i \<and> sh_owner_user_id sh = u \<and> sh_revoked_at sh = None) (shares s) = Some sh"
    by (auto simp: AddEnvelopes_tx_def split: if_split_asm option.split_asm)
  from insertEnvelopes_frame [OF ins] obtain ev where s': "s' = s\<lparr>share_device_envelopes := ev\<rparr>" by blast
  have "users_ok s'" using AddEnvelopes_inv [OF inv c] by (simp add: sharing_inv_def)
  with ok find_SomeD [OF sh] show ?thesis by (intro GetOutgoing_ok [where sh = sh]) (simp_all add: s')
qed

interpretation sharing_service: transactional "sharing_exec U draws" "\<lambda>_ _. True"
  "\<lambda>s. sharing_inv s \<and> uuid_laws U \<and> draws_ok U draws" for U draws
proof
  fix s and c :: "time \<times> nat \<times> sharing_cmd"
  assume inv: "sharing_inv s \<and> uuid_laws U \<and> draws_ok U draws"
  obtain now k cmd where c: "c = (now, k, cmd)" by (cases c)
  have "sharing_inv (fst (sharing_exec U draws c s))"
  proof (cases cmd)
    case (FolderKeyCmd u d i v env)
    with inv CreateFolderKey_inv show ?thesis
      by (auto simp: c CreateFolderKey_def split: sum.split option.split)
  next
    case (GrantCmd inp)
    with inv CreateGrant_inv show ?thesis
      by (auto simp: c CreateGrant_def split: sum.split grant_tx.split)
  next
    case (EnvelopesCmd u d i es)
    with inv AddEnvelopes_inv show ?thesis by (auto simp: c AddEnvelopes_def split: sum.split)
  next
    case (RevokeCmd u d i)
    from Revoke_cases [of U now s u d i] inv revoke_inv [of s] show ?thesis by (auto simp: c RevokeCmd)
  qed
  with inv show "sharing_inv (fst (sharing_exec U draws c s)) \<and> uuid_laws U \<and> draws_ok U draws" by simp
next
  fix s and c :: "time \<times> nat \<times> sharing_cmd" and e
  assume inv: "sharing_inv s \<and> uuid_laws U \<and> draws_ok U draws" and fail: "snd (sharing_exec U draws c s) = Inl e"
  obtain now k cmd where c: "c = (now, k, cmd)" by (cases c)
  show "fst (sharing_exec U draws c s) = s"
  proof (cases cmd)
    case (FolderKeyCmd u d i v env)
    with fail show ?thesis by (auto simp: c CreateFolderKey_def split: sum.splits option.splits)
  next
    case (GrantCmd inp)
    have "ValidUUID U (draws k 0)" using inv by (simp add: draws_ok_def)
    with fail inv CreateGrant_answer [of s U "draws k" now inp] show ?thesis
      by (fastforce simp: c GrantCmd CreateGrant_def split: sum.splits grant_tx.splits)
  next
    case (EnvelopesCmd u d i es)
    with fail inv AddEnvelopes_answer [of s U now "draws k" u d i es] show ?thesis
      by (fastforce simp: c EnvelopesCmd AddEnvelopes_def split: sum.splits)
  next
    case (RevokeCmd u d i)
    from Revoke_cases [of U now s u d i] fail show ?thesis by (auto simp: c RevokeCmd)
  qed
qed

end
