(* ===== verification/HB_Sharing_Props.thy ===== *)
theory HB_Sharing_Props
  imports HB_Sharing_Inv HB_Nodes_Service
begin

text \<open>
  Properties of family sharing: what a grant and its revocation do to the access that
  internal/nodes/service.go gives, the numbering of folder keys, and the answer of
  \<open>GetOutgoing\<close> as a plain reading of the tables.
\<close>

section \<open>Access after granting and revoking\<close>

lemma share_facts:
  assumes "shares_ok s" "sh \<in> set (shares s)"
  shows "sh_target_user_id sh \<noteq> sh_owner_user_id sh" "keyed s (sh_node_id sh)"
    "\<exists>n\<in>set (nodes s). n_id n = sh_node_id sh \<and> n_owner_id n = sh_owner_user_id sh \<and> n_node_type n = ''DIRECTORY''"
  using assms by (simp_all add: shares_ok_def)

lemma one_shareD:
  "one_share s \<Longrightarrow> sh \<in> set (shares s) \<Longrightarrow> sh' \<in> set (shares s) \<Longrightarrow> active_share sh u j \<Longrightarrow>
   active_share sh' u j \<Longrightarrow> sh = sh'"
  unfolding one_share_def by blast

lemma share_of_node: "sh_node_id (share_of now i inp) = g_NodeID inp"
  by (simp add: share_of_def)

lemma nearest_live_shareI:
  assumes "sh \<in> set (shares s)" "active_share sh u (sh_node_id sh)" "n \<in> set (nodes s)" "n_id n = sh_node_id sh"
    "(i, sh_node_id sh) \<in> (par (nodes s))\<^sup>*"
    "\<And>m. m \<in> set (nodes s) \<Longrightarrow> (i, n_id m) \<in> (par (nodes s))\<^sup>* \<Longrightarrow> (n_id m, sh_node_id sh) \<in> (par (nodes s))\<^sup>* \<Longrightarrow>
      n_deleted_at m = None"
    "\<And>j sh'. (i, j) \<in> (par (nodes s))\<^sup>* \<Longrightarrow> (j, sh_node_id sh) \<in> (par (nodes s))\<^sup>+ \<Longrightarrow> sh' \<in> set (shares s) \<Longrightarrow>
      \<not> active_share sh' u j"
  shows "nearest_live_share s u i sh"
  unfolding nearest_live_share_def
  using assms(1-3,5-7) by (intro conjI ballI allI impI) (auto simp flip: assms(4))

lemma revoke_Inr:
  assumes "Revoke U now s u d i = (s', Inr x)"
  shows "\<exists>ev. s' = s\<lparr>shares := revoke_rows now i u (shares s), share_device_envelopes := ev\<rparr>"
  using Revoke_cases [of U now s u d i] assms by auto

text \<open>C17: Revocation takes effect at once and everywhere: after a share is revoked, its recipient
  reads neither the shared folder nor anything below it, whatever other shares they hold.\<close>

theorem revoke_ends_access:
  assumes inv: "sharing_inv s" and r: "Revoke U now s u d i = (s', Inr x)"
    and sh: "sh \<in> set (shares s)" "sh_id sh = i" "sh_owner_user_id sh = u" "sh_revoked_at sh = None"
    and j: "below s j (sh_node_id sh)"
  shows "Get s' (sh_target_user_id sh) j \<noteq> Inr n"
proof
  assume get: "Get s' (sh_target_user_id sh) j = Inr n"
  from revoke_Inr [OF r] obtain ev where
    s': "s' = s\<lparr>shares := revoke_rows now i u (shares s), share_device_envelopes := ev\<rparr>" by blast
  note D = vault_invD [OF sharing_invD(1) [OF inv]]
  note D' = vault_invD [OF sharing_invD(1) [OF revoke_inv [OF inv s']]]
  have nodes: "nodes s' = nodes s" and keyed: "keyed s' = keyed s"
    by (simp add: s', intro keyed_cong) (simp add: s')
  note facts = share_facts [OF D(6) sh(1)]
  from facts(3) sh(3) obtain top where top: "top \<in> set (nodes s)" "n_id top = sh_node_id sh" "n_owner_id top = u" by blast
  have key: "keyed s (sh_node_id sh)" and other: "sh_target_user_id sh \<noteq> u" using facts sh(3) by simp_all
  from get obtain r where r: "node_of s j = Some r"
    and why: "n_owner_id r = sh_target_user_id sh \<or> (\<exists>sh'. nearest_live_share s' (sh_target_user_id sh) j sh')"
    unfolding Get_iff [OF sharing_invD(1) [OF revoke_inv [OF inv s']]] node_of_def nodes by blast
  have "n_owner_id top = n_owner_id r"
    using j node_of_Some [OF r] top by (intro forest_same_owner [OF D(1)]) (auto simp: below_def)
  with why top(3) other obtain sh' where near: "nearest_live_share s' (sh_target_user_id sh) j sh'" by auto
  then have act': "sh' \<in> set (revoke_rows now i u (shares s))" "active_share sh' (sh_target_user_id sh) (sh_node_id sh')"
    and path: "(j, sh_node_id sh') \<in> (par (nodes s))\<^sup>*"
    unfolding nearest_live_share_def nodes by (simp_all add: s')
  from revoke_rows_active [OF act'] have kept: "sh' \<in> set (shares s)" "\<not> (sh_id sh' = i \<and> sh_owner_user_id sh' = u)" by blast+
  have key': "keyed s (sh_node_id sh')" by (rule share_facts(2) [OF D(6) kept(1)])
  have "sh_node_id sh' = sh_node_id sh"
    by (rule one_keyed_above [OF sharing_invD(1) [OF inv] path _ key' key]) (use j in \<open>simp add: below_def\<close>)
  moreover have "active_share sh (sh_target_user_id sh) (sh_node_id sh)" using sh(4) by (simp add: active_share_def)
  ultimately have "sh' = sh" using act'(2) by (intro one_shareD [OF D(11) kept(1) sh(1)]) simp_all
  with kept(2) sh show False by blast
qed

theorem revoke_ends_access_witness:
  "(\<forall>n. Get (fst (Revoke demo_uuid 9 demo ''alice'' ''a1'' ''s1'')) ''bob'' ''doc'' \<noteq> Inr n) \<and>
   \<not> isl (Get demo ''bob'' ''doc'')"
proof -
  let ?r = "Revoke demo_uuid 9 demo ''alice'' ''a1'' ''s1''"
  let ?sh = "demo_share ''s1'' ''bob'' ''READ_WRITE''"
  have r: "?r = (fst ?r, Inr ())" by code_simp
  have sh: "?sh \<in> set (shares demo)" "sh_id ?sh = ''s1''" "sh_owner_user_id ?sh = ''alice''" "sh_revoked_at ?sh = None"
    by (simp_all add: demo_defs)
  have par: "(''doc'', ''top'') \<in> par (nodes demo)" by (simp add: par_def demo_defs)
  then have j: "below demo ''doc'' (sh_node_id ?sh)"
    by (auto simp: below_def demo_share_def)
  have "Get (fst ?r) ''bob'' ''doc'' \<noteq> Inr n" for n
    using revoke_ends_access [OF demo_sharing_inv r sh j, of n] by (simp add: demo_share_def)
  moreover have "\<not> isl (Get demo ''bob'' ''doc'')" by code_simp
  ultimately show ?thesis by blast
qed

text \<open>C18: A grant gives its recipient exactly the granted permission on every node below the folder
  that has nothing in Trash on the way up: the recipient reads it, and the grant found for it is the
  shared folder with that permission.\<close>

theorem grant_gives_access:
  assumes inv: "sharing_inv s" and c: "CreateGrant_tx U now fresh s inp = Inr (Granted i s')"
    and j: "node_of s j = Some r" "below s j (g_NodeID inp)"
    and live: "\<forall>m\<in>set (nodes s). below s j (n_id m) \<longrightarrow> below s (n_id m) (g_NodeID inp) \<longrightarrow> n_deleted_at m = None"
  shows "ShareGrant s' (g_TargetUserID inp) j = Inr (Some \<lparr>RootID = g_NodeID inp, Permission = g_Permission inp\<rparr>) \<and>
    Get s' (g_TargetUserID inp) j = Inr (scanNode r)"
proof -
  have inv': "sharing_inv s'" using inv c by (rule CreateGrant_inv)
  note D = vault_invD [OF sharing_invD(1) [OF inv]]
  note D' = vault_invD [OF sharing_invD(1) [OF inv']]
  from c obtain n ev ops where n: "n \<in> set (nodes s)" "n_id n = g_NodeID inp" and key: "keyed s (g_NodeID inp)"
    and s': "s' = s\<lparr>shares := shares s @ [share_of now (fresh 0) inp], share_device_envelopes := ev, processed_operations := ops\<rparr>"
    by (rule CreateGrant_granted)
  let ?sh = "share_of now (fresh 0) inp"
  have nodes: "nodes s' = nodes s" and keyed: "keyed s' = keyed s"
    by (simp add: s', intro keyed_cong) (simp add: s')
  have path: "(j, g_NodeID inp) \<in> (par (nodes s))\<^sup>*" using j(2) by (simp add: below_def)
  have "\<not> active_share sh' (g_TargetUserID inp) k"
    if k: "(j, k) \<in> (par (nodes s))\<^sup>*" "(k, g_NodeID inp) \<in> (par (nodes s))\<^sup>+" and "sh' \<in> set (shares s')" for k sh'
  proof
    assume "active_share sh' (g_TargetUserID inp) k"
    then have "sh_node_id sh' = k" by (simp add: active_share_def)
    with share_facts(2) [OF D'(6) that(3)] have "keyed s k" by (simp add: keyed)
    from one_keyed_above [OF sharing_invD(1) [OF inv] k(1) path this key] k(2) D(10)
    show False by (simp add: acyclic_def)
  qed
  note closest = this
  have sh: "active_share ?sh (g_TargetUserID inp) (sh_node_id ?sh)" "sh_node_id ?sh = g_NodeID inp" "?sh \<in> set (shares s')"
    by (simp_all add: active_share_of share_of_node s')
  have near: "nearest_live_share s' (g_TargetUserID inp) j ?sh"
    by (rule nearest_live_shareI [OF sh(3,1)])
      (use n path live closest in \<open>auto simp: sh(2) nodes below_def\<close>)
  have "ShareGrant s' (g_TargetUserID inp) j = Inr (Some \<lparr>RootID = g_NodeID inp, Permission = g_Permission inp\<rparr>)"
    using ShareGrant_complete [OF D'(1) D'(11) near] by (simp add: share_of_def)
  moreover have "node_of s' j = Some r" using j(1) by (simp add: node_of_def nodes)
  with near have "Get s' (g_TargetUserID inp) j = Inr (scanNode r)"
    unfolding Get_iff [OF sharing_invD(1) [OF inv']] by blast
  ultimately show ?thesis ..
qed

text \<open>The same vault before Bob has a share, and Alice's grant to him.\<close>

definition demo_unshared :: db where
  "demo_unshared = demo\<lparr>shares := [demo_share ''s2'' ''carol'' ''READ'']\<rparr>"

definition demo_envelope :: "id \<Rightarrow> int \<Rightarrow> DeviceEnvelope" where
  "demo_envelope d v = \<lparr>e_TargetDeviceID = d, e_KeyVersion = v, e_Ciphertext = ''c'',
     e_OwnerIdentityPublicKey = replicate 32 CHR ''i'', e_OwnerSignature = replicate 64 CHR ''s''\<rparr>"

definition demo_grant :: GrantInput where
  "demo_grant = \<lparr>g_OwnerUserID = ''alice'', g_OwnerDeviceID = ''a1'', g_OperationID = ''op9'', g_NodeID = ''top'',
     g_TargetUserID = ''bob'', g_Permission = ''READ_WRITE'', g_Envelopes = [demo_envelope ''b1'' 1]\<rparr>"

definition demo_fresh :: "nat \<Rightarrow> id" where
  "demo_fresh k = ''f'' @ FormatInt (int k)"

lemma demo_unshared_inv: "sharing_inv demo_unshared"
proof -
  note I = sharing_invD [OF demo_sharing_inv]
  note D = vault_invD [OF I(1)]
  have same: "nodes demo_unshared = nodes demo" "keyed demo_unshared = keyed demo"
    "folder_keys demo_unshared = folder_keys demo" "sync_changes demo_unshared = sync_changes demo"
    "sync_seq demo_unshared = sync_seq demo" "users demo_unshared = users demo" "devices demo_unshared = devices demo"
    by (simp_all add: demo_unshared_def keyed_def fun_eq_iff)
  have "set (shares demo_unshared) \<subseteq> set (shares demo)" "distinct (map sh_id (shares demo_unshared))"
    by (simp_all add: demo_unshared_def demo_def)
  then have "shares_ok demo_unshared" "users_ok demo_unshared"
    using D(6) I(2) unfolding shares_ok_def one_share_def users_ok_def same by blast+
  with D I(3) show ?thesis
    unfolding sharing_inv_def vault_inv_def feed_ok_def tracked_def scopes_disjoint_def keys_owned_def ids_ok_def
      keys_ok_def same by blast
qed

theorem grant_gives_access_witness:
  "\<exists>s'. CreateGrant_tx demo_uuid 9 demo_fresh demo_unshared demo_grant = Inr (Granted ''f0'' s') \<and>
     ShareGrant s' ''bob'' ''doc'' = Inr (Some \<lparr>RootID = ''top'', Permission = ''READ_WRITE''\<rparr>) \<and>
     Get s' ''bob'' ''doc'' = Inr (scanNode (demo_node ''doc'' (Some ''top'') ''FILE'' 2 None))"
proof -
  have "case CreateGrant_tx demo_uuid 9 demo_fresh demo_unshared demo_grant of
      Inr (Granted i s') \<Rightarrow> i = ''f0'' | _ \<Rightarrow> False" by code_simp
  then obtain s' where c: "CreateGrant_tx demo_uuid 9 demo_fresh demo_unshared demo_grant = Inr (Granted ''f0'' s')"
    by (auto split: sum.splits grant_tx.splits)
  have g: "g_NodeID demo_grant = ''top''" "g_TargetUserID demo_grant = ''bob''" "g_Permission demo_grant = ''READ_WRITE''"
    by (simp_all add: demo_grant_def)
  have n: "node_of demo_unshared ''doc'' = Some (demo_node ''doc'' (Some ''top'') ''FILE'' 2 None)"
    by (simp add: node_of_def demo_unshared_def demo_defs)
  have par: "(''doc'', ''top'') \<in> par (nodes demo_unshared)" by (simp add: par_def demo_unshared_def demo_defs)
  then have b: "below demo_unshared ''doc'' (g_NodeID demo_grant)" by (auto simp: below_def g)
  have "\<not> below demo_unshared ''doc'' ''old''"
  proof
    assume "below demo_unshared ''doc'' ''old''"
    then have "(''doc'', ''old'') \<in> (par (nodes demo_unshared))\<^sup>*" by (simp add: below_def)
    then obtain k where "(k, ''old'') \<in> par (nodes demo_unshared)" by (cases rule: rtranclE) auto
    then show False by (auto simp: par_def demo_unshared_def demo_defs)
  qed
  then have live: "\<forall>m\<in>set (nodes demo_unshared). below demo_unshared ''doc'' (n_id m) \<longrightarrow>
      below demo_unshared (n_id m) (g_NodeID demo_grant) \<longrightarrow> n_deleted_at m = None"
    by (auto simp: demo_unshared_def demo_def demo_nodes_def demo_node_def)
  from grant_gives_access [OF demo_unshared_inv c n b live] c show ?thesis unfolding g by blast
qed

section \<open>Folder keys\<close>

text \<open>Key versions. After a version is stored, the versions of the folder are exactly 1 to that
  version: a version is never skipped, repeated or lost, so the owner can always read older data.\<close>

theorem folder_key_versions:
  assumes inv: "sharing_inv s" and U: "uuid_laws U" and c: "CreateFolderKey_tx U now s u d i v env = Inr (Some s')"
  shows "k_key_version ` {k \<in> set (folder_keys s'). k_folder_id k = i} = {1..v}"
proof -
  have inv': "sharing_inv s'" by (rule CreateFolderKey_inv [OF inv U c])
  note K = sharing_invD(3) [OF inv', unfolded keys_ok_def]
  let ?V = "k_key_version ` {k \<in> set (folder_keys s'). k_folder_id k = i}"
  from c obtain latest where latest: "latest = max_version (filter (\<lambda>k. k_folder_id k = i) (folder_keys s))" "v = latest + 1"
    and s': "s' = s\<lparr>folder_keys := folder_keys s @ [\<lparr>k_folder_id = i, k_key_version = v, k_owner_user_id = u,
        k_owner_envelope = env, k_created_at = now, k_created_by_device_id = d\<rparr>]\<rparr>"
    by (rule CreateFolderKey_stored)
  have v: "v \<in> ?V" by (auto simp: s' intro!: image_eqI)
  have below: "w - 1 \<in> ?V" if "w \<in> ?V" "1 < w" for w
  proof -
    from that(1) obtain k where k: "k \<in> set (folder_keys s')" "k_folder_id k = i" "k_key_version k = w" by blast
    with K that(2) obtain k' where "k' \<in> set (folder_keys s')" "k_folder_id k' = i" "k_key_version k' = w - 1" by blast
    then have "k' \<in> {k \<in> set (folder_keys s'). k_folder_id k = i}" "w - 1 = k_key_version k'" by simp_all
    then show ?thesis by (rule rev_image_eqI)
  qed
  have "w \<le> v" if "w \<in> ?V" for w
  proof -
    from that obtain k where k: "k \<in> set (folder_keys s')" "k_folder_id k = i" "k_key_version k = w" by blast
    show ?thesis
    proof (cases "k \<in> set (folder_keys s)")
      case True
      with k(2) have "k \<in> set (filter (\<lambda>k. k_folder_id k = i) (folder_keys s))" by simp
      from max_version_spec(1) [OF this] k(3) latest show ?thesis by simp
    qed (use k s' in auto)
  qed
  note high = this
  have low: "1 \<le> w" if "w \<in> ?V" for w using that K by auto
  have all: "w \<in> ?V" if "1 \<le> w" "w \<le> v" for w
    using that(2,1)
  proof (induction rule: int_le_induct)
    case (step w)
    with below [of w] show ?case by simp
  qed (rule v)
  show ?thesis
  proof (intro subset_antisym subsetI)
    fix w assume "w \<in> ?V"
    with low high show "w \<in> {1..v}" unfolding atLeastAtMost_iff by blast
  next
    fix w assume "w \<in> {1..v}"
    with all show "w \<in> ?V" unfolding atLeastAtMost_iff by blast
  qed
qed

theorem folder_key_versions_witness:
  "\<exists>s'. CreateFolderKey_tx demo_uuid 9 demo ''alice'' ''a1'' ''top'' 2 ''e2'' = Inr (Some s') \<and>
     k_key_version ` {k \<in> set (folder_keys s'). k_folder_id k = ''top''} = {1..2}"
proof -
  have "case CreateFolderKey_tx demo_uuid 9 demo ''alice'' ''a1'' ''top'' 2 ''e2'' of
      Inr (Some s') \<Rightarrow> True | _ \<Rightarrow> False" by code_simp
  then obtain s' where c: "CreateFolderKey_tx demo_uuid 9 demo ''alice'' ''a1'' ''top'' 2 ''e2'' = Inr (Some s')"
    by (auto split: sum.splits option.splits)
  from folder_key_versions [OF demo_sharing_inv demo_uuid_laws c] c show ?thesis by blast
qed

section \<open>Answers\<close>

text \<open>What an owner should see of a share: the row, the two account names, and every envelope that is
  not revoked, ordered by key version and then by age.\<close>

definition envelope_view :: "share_envelope_row \<Rightarrow> DeviceEnvelope" where
  "envelope_view e = \<lparr>e_TargetDeviceID = se_target_device_id e, e_KeyVersion = se_key_version e,
     e_Ciphertext = se_ciphertext e, e_OwnerIdentityPublicKey = se_owner_identity_public_key e,
     e_OwnerSignature = se_owner_signature e\<rparr>"

definition username_of :: "db \<Rightarrow> id \<Rightarrow> string" where
  "username_of s u = (case find (\<lambda>r. u_id r = u) (users s) of None \<Rightarrow> [] | Some r \<Rightarrow> u_username r)"

definition share_view :: "db \<Rightarrow> share_row \<Rightarrow> Share" where
  "share_view s sh = \<lparr>s_ID = sh_id sh, s_NodeID = sh_node_id sh, s_OwnerUserID = sh_owner_user_id sh,
     s_TargetUserID = sh_target_user_id sh, s_Permission = sh_permission sh,
     s_OwnerUsername = username_of s (sh_owner_user_id sh), s_TargetUsername = username_of s (sh_target_user_id sh),
     s_CreatedAt = sh_created_at sh,
     s_Envelopes = map envelope_view (sort_key (\<lambda>e. (se_key_version e, stamp (se_created_at e)))
       (filter (\<lambda>e. se_share_id e = sh_id sh \<and> se_revoked_at e = None) (share_device_envelopes s)))\<rparr>"

lemma filter_unique:
  "distinct (map k xs) \<Longrightarrow> filter (\<lambda>x. k x = i \<and> P x) xs =
   (case find (\<lambda>x. k x = i \<and> P x) xs of None \<Rightarrow> [] | Some x \<Rightarrow> [x])"
  by (induction xs) (auto split: option.split simp: find_Some_iff)

lemma insort_key_map: "insort_key f (g x) (map g xs) = map g (insort_key (f \<circ> g) x xs)"
  by (induction xs) auto

lemma sort_key_map: "sort_key f (map g xs) = map g (sort_key (f \<circ> g) xs)"
  by (induction xs) (simp_all add: insort_key_map comp_def)

lemma scanShares_same:
  "\<forall>j\<in>set js. sh_id (j_share j) = s_ID x \<Longrightarrow>
   scanShares [x] js = [x\<lparr>s_Envelopes := s_Envelopes x @ concat (map join_envelopes js)\<rparr>]"
  by (induction js arbitrary: x) simp_all

text \<open>The joined, sorted and merged rows of \<open>GetOutgoing\<close> are the plain reading of the tables: the
  owner's unrevoked share with all its unrevoked envelopes, and \<open>not found\<close> where there is none.\<close>

theorem GetOutgoing_exact:
  assumes "sharing_inv s" "ValidUUID U u" "ValidUUID U i"
  shows "GetOutgoing U s u i = (case find (\<lambda>sh. sh_id sh = i \<and> sh_owner_user_id sh = u \<and> sh_revoked_at sh = None) (shares s) of
    None \<Rightarrow> Inl SharingNotFound | Some sh \<Rightarrow> Inr (share_view s sh))"
proof -
  note I = sharing_invD [OF assms(1)]
  have shs: "distinct (map sh_id (shares s))" using vault_invD(6) [OF I(1)] by (simp add: shares_ok_def)
  have us: "distinct (map u_id (users s))" using I(2) by (simp add: users_ok_def)
  let ?find = "find (\<lambda>sh. sh_id sh = i \<and> sh_owner_user_id sh = u \<and> sh_revoked_at sh = None) (shares s)"
  note pick = filter_unique [OF shs, of i "\<lambda>sh. sh_owner_user_id sh = u \<and> sh_revoked_at sh = None"]
  show ?thesis
  proof (cases ?find)
    case None
    with assms(2,3) pick show ?thesis by (simp add: GetOutgoing_def shareSelect_def)
  next
    case (Some sh)
    from find_SomeD [OF Some] have sh: "sh \<in> set (shares s)" "sh_id sh = i" by blast+
    with I(2) have "sh_owner_user_id sh \<in> u_id ` set (users s)" "sh_target_user_id sh \<in> u_id ` set (users s)"
      by (simp_all add: users_ok_def)
    then obtain ou tu where ou: "find (\<lambda>r. u_id r = sh_owner_user_id sh) (users s) = Some ou"
      and tu: "find (\<lambda>r. u_id r = sh_target_user_id sh) (users s) = Some tu"
      using find_key_None [of u_id _ "users s"] by (meson not_Some_eq)
    note user = filter_unique [OF us, of _ "\<lambda>_. True", simplified]
    let ?es = "filter (\<lambda>e. se_share_id e = sh_id sh \<and> se_revoked_at e = None) (share_device_envelopes s)"
    let ?row = "\<lambda>e. \<lparr>j_share = sh, j_owner = ou, j_target = tu, j_envelope = e\<rparr>"
    let ?by = "\<lambda>e. (se_key_version e, stamp (se_created_at e))"
    have rows: "shareSelect s (\<lambda>_. True) (\<lambda>sh. sh_id sh = i \<and> sh_owner_user_id sh = u \<and> sh_revoked_at sh = None) =
        (if ?es = [] then [?row None] else map (?row \<circ> Some) ?es)"
      by (simp add: shareSelect_def pick Some user ou tu comp_def)
    have names: "username_of s (sh_owner_user_id sh) = u_username ou" "username_of s (sh_target_user_id sh) = u_username tu"
      by (simp_all add: username_of_def ou tu)
    show ?thesis
    proof (cases "?es = []")
      case True
      with assms(2,3) rows Some show ?thesis
        by (simp add: GetOutgoing_def join_share_def join_envelopes_def share_view_def names)
    next
      case False
      then have "sort_key ?by ?es \<noteq> []" by (simp add: sort_key_Nil)
      then obtain e es where sorted: "sort_key ?by ?es = e # es" by (meson neq_Nil_conv)
      have view: "join_envelopes (?row (Some e)) = [envelope_view e]" for e
        by (simp add: join_envelopes_def envelope_view_def)
      have "sort_key (\<lambda>j. (join_version j, join_created j)) (map (?row \<circ> Some) ?es) = map (?row \<circ> Some) (e # es)"
        unfolding sort_key_map by (simp add: comp_def join_version_def join_created_def sorted)
      moreover have "scanShares [] (map (?row \<circ> Some) (e # es)) = [share_view s sh]"
        by (simp add: scanShares_same join_share_def view share_view_def names sorted comp_def)
      ultimately show ?thesis using assms(2,3) rows Some False by (simp add: GetOutgoing_def)
    qed
  qed
qed

theorem GetOutgoing_exact_witness:
  "GetOutgoing demo_uuid demo ''alice'' ''s1'' = Inr (share_view demo (demo_share ''s1'' ''bob'' ''READ_WRITE''))"
  using GetOutgoing_exact [OF demo_sharing_inv, of demo_uuid "''alice''" "''s1''"]
  by (simp add: demo_def demo_share_def)

end
