(* ===== verification/HB_Storage.thy ===== *)
theory HB_Storage
  imports HB_Text HB_Schema "HOL-Library.Sublist" "HOL-Library.Word"
begin

text \<open>
  The ciphertext storage directory and the server's state. Paths are relative to the storage path and
  have forward slashes. A \<open>disk\<close> lists the regular files with their contents, one entry per path;
  directories are not entries (the server creates them before it writes into them). The functions are
  those of the Go package \<open>os\<close> the services call: \<open>write_file\<close> is \<open>os.WriteFile\<close>, \<open>rename_file\<close>
  \<open>os.Rename\<close>, \<open>remove_file\<close> \<open>os.Remove\<close>, \<open>remove_all\<close> \<open>os.RemoveAll\<close>, \<open>read_dir\<close> the file names
  \<open>os.ReadDir\<close> returns, in order. A failing system call (a full or broken disk) is not modelled; a
  crash is a prefix of an operation's phases.

  \<open>server\<close> is the database together with the disk. \<open>int64\<close> is the value an \<open>int64\<close> variable holds
  after an operation with the exact result \<open>x\<close>.
\<close>

type_synonym disk = "(string \<times> bytes) list"

record server =
  sv_db :: db
  sv_disk :: disk

definition int64 :: "int \<Rightarrow> int" where
  "int64 x = sint (word_of_int x :: 64 word)"

lemma int64_take_bit: "int64 x = signed_take_bit 63 x"
  by (simp add: int64_def sint_sbintrunc')

lemma int64_id: "- (2 ^ 63) \<le> x \<Longrightarrow> x < 2 ^ 63 \<Longrightarrow> int64 x = x"
  unfolding int64_take_bit by (rule signed_take_bit_int_eq_self)

lemma int64_range: "- (2 ^ 63) \<le> int64 x \<and> int64 x < 2 ^ 63"
  unfolding int64_take_bit
  by (simp add: signed_take_bit_int_greater_eq_minus_exp signed_take_bit_int_less_exp del: power_numeral)

section \<open>Files\<close>

definition file_at :: "disk \<Rightarrow> string \<Rightarrow> bytes option" where
  "file_at d p = map_of d p"

definition remove_file :: "string \<Rightarrow> disk \<Rightarrow> disk" where
  "remove_file p d = filter (\<lambda>x. fst x \<noteq> p) d"

definition write_file :: "string \<Rightarrow> bytes \<Rightarrow> disk \<Rightarrow> disk" where
  "write_file p c d = (p, c) # remove_file p d"

definition rename_file :: "string \<Rightarrow> string \<Rightarrow> disk \<Rightarrow> disk" where
  "rename_file p q d = (case file_at d p of None \<Rightarrow> d | Some c \<Rightarrow> write_file q c (remove_file p d))"

definition remove_all :: "string \<Rightarrow> disk \<Rightarrow> disk" where
  "remove_all dir d = filter (\<lambda>x. fst x \<noteq> dir \<and> \<not> prefix (dir @ ''/'') (fst x)) d"

definition read_dir :: "string \<Rightarrow> disk \<Rightarrow> string list" where
  "read_dir dir d = sort (map (drop (length dir + 1))
     (filter (\<lambda>p. prefix (dir @ ''/'') p \<and> CHR ''/'' \<notin> set (drop (length dir + 1) p)) (map fst d)))"

definition disk_ok :: "disk \<Rightarrow> bool" where
  "disk_ok d \<longleftrightarrow> distinct (map fst d)"

lemma file_at_remove [simp]: "file_at (remove_file p d) q = (if q = p then None else file_at d q)"
  by (induction d) (auto simp: file_at_def remove_file_def)

lemma file_at_write [simp]: "file_at (write_file p c d) q = (if q = p then Some c else file_at d q)"
  unfolding write_file_def using file_at_remove [of p d q] by (simp add: file_at_def)

lemma file_at_rename:
  "file_at d p = Some c \<Longrightarrow> p \<noteq> q \<Longrightarrow>
   file_at (rename_file p q d) r = (if r = q then Some c else if r = p then None else file_at d r)"
  by (simp add: rename_file_def)

lemma file_at_remove_all [simp]:
  "file_at (remove_all dir d) p = (if p = dir \<or> prefix (dir @ ''/'') p then None else file_at d p)"
  by (induction d) (auto simp: file_at_def remove_all_def)

lemma file_at_Some: "file_at d p = Some c \<Longrightarrow> p \<in> fst ` set d"
  by (auto simp: file_at_def dest: map_of_SomeD intro!: image_eqI)

lemma disk_ok_remove [simp]: "disk_ok d \<Longrightarrow> disk_ok (remove_file p d)"
  by (simp add: disk_ok_def remove_file_def distinct_map_filter)

lemma disk_ok_write [simp]: "disk_ok d \<Longrightarrow> disk_ok (write_file p c d)"
  by (auto simp: disk_ok_def write_file_def remove_file_def distinct_map_filter)

lemma disk_ok_rename [simp]: "disk_ok d \<Longrightarrow> disk_ok (rename_file p q d)"
  by (simp add: rename_file_def split: option.split)

lemma disk_ok_remove_all [simp]: "disk_ok d \<Longrightarrow> disk_ok (remove_all dir d)"
  by (simp add: disk_ok_def remove_all_def distinct_map_filter)

lemma read_dir_iff:
  "name \<in> set (read_dir dir d) \<longleftrightarrow> CHR ''/'' \<notin> set name \<and> dir @ ''/'' @ name \<in> fst ` set d"
proof
  assume "name \<in> set (read_dir dir d)"
  then obtain p where p: "p \<in> fst ` set d" "prefix (dir @ ''/'') p" "name = drop (length dir + 1) p"
    "CHR ''/'' \<notin> set name" by (auto simp: read_dir_def)
  from p(2) obtain r where "p = dir @ ''/'' @ r" by (auto simp: prefix_def)
  with p show "CHR ''/'' \<notin> set name \<and> dir @ ''/'' @ name \<in> fst ` set d" by simp
next
  assume "CHR ''/'' \<notin> set name \<and> dir @ ''/'' @ name \<in> fst ` set d"
  moreover have "prefix (dir @ ''/'') (dir @ ''/'' @ name)" "drop (length dir + 1) (dir @ ''/'' @ name) = name"
    by (simp_all add: prefix_def)
  ultimately show "name \<in> set (read_dir dir d)"
    unfolding read_dir_def by (auto simp del: append_Cons append.simps intro!: image_eqI [of _ _ "dir @ ''/'' @ name"])
qed

section \<open>Paths\<close>

definition uploadDir :: "id \<Rightarrow> string" where
  "uploadDir i = ''temp/uploads/'' @ i"

definition chunk_path :: "id \<Rightarrow> int \<Rightarrow> string" where
  "chunk_path i no = uploadDir i @ ''/'' @ FormatInt no @ ''.chunk''"

definition blob_path :: "id \<Rightarrow> string" where
  "blob_path i = ''blobs/'' @ i @ ''.hbxblob''"

lemma blob_path_eq [simp]: "blob_path i = blob_path j \<longleftrightarrow> i = j"
  by (simp add: blob_path_def)

lemma blob_not_upload [simp]: "blob_path i \<noteq> uploadDir j" "\<not> prefix (uploadDir j @ ''/'') (blob_path i)"
  by (simp_all add: blob_path_def uploadDir_def)

lemma chunk_not_blob [simp]: "chunk_path i no \<noteq> blob_path j" "blob_path j \<noteq> chunk_path i no"
  by (simp_all add: blob_path_def chunk_path_def uploadDir_def)

end
