(* ===== verification/HB_Uploads.thy ===== *)
theory HB_Uploads
  imports HB_Storage HB_Nodes
begin

text \<open>
  Resumable ciphertext uploads (internal/uploads/service.go). The service's two limits are a record
  \<open>UploadService\<close>. \<open>H\<close> is the hexadecimal SHA-256 of a byte sequence (Go's crypto/sha256); every theorem
  holds for whatever function it is. \<open>CompleteUpload\<close> is composed of the phases of the Go function, so
  that other work and crashes can come between them: \<open>complete_prepare\<close> reads the database,
  \<open>assembleCiphertext\<close> writes the blob file, \<open>complete_tx\<close> is the transaction, \<open>complete_cleanup\<close> removes
  the upload's directory or the unreferenced blob file.
\<close>

section \<open>Data\<close>

definition MaxChunkCiphertextSize :: int where
  "MaxChunkCiphertextSize = 8 * 1024 * 1024"

definition maxChunkCount :: int where
  "maxChunkCount = 65536"

definition MaxOpenSessionsPerDevice :: int where
  "MaxOpenSessionsPerDevice = 64"

record UploadService =
  up_maxCiphertextSize :: int
  up_abandonedAfter :: time

record UploadInput =
  cu_UserID :: id
  cu_DeviceID :: id
  cu_TargetNodeID :: id
  cu_FileVersionID :: id
  cu_BlobID :: id
  cu_ExpectedRevision :: "int option"
  cu_ChunkSize :: int
  cu_ChunkCount :: int
  cu_MetadataKeyVersion :: int
  cu_MetadataCiphertext :: bytes
  cu_WrappedFileKey :: bytes
  cu_E2EEHeader :: bytes

record Session =
  S_ID :: id
  S_BlobID :: id
  S_FileVersionID :: id
  S_Status :: string
  S_ChunkCount :: int
  S_ReceivedChunks :: "int list"
  S_ExpiresAt :: time

record dbSession = Session +
  targetNodeID :: id
  e2eeHeader :: bytes
  wrappedFileKey :: bytes
  metadataCiphertext :: bytes
  metadataKeyVersion :: int
  expectedRevision :: "int option"
  chunkSize :: int

record CompleteInput =
  co_UserID :: id
  co_DeviceID :: id
  co_OperationID :: id
  co_KeyScopeID :: id
  co_ExpectedRevision :: "int option"
  co_KeyVersion :: int
  co_SyncPayloadCiphertext :: bytes

record CompleteResult =
  cr_BlobID :: id
  cr_FileVersionID :: id
  cr_Revision :: int

section \<open>Shared steps\<close>

definition authorizeFileWrite :: "db \<Rightarrow> id \<Rightarrow> id \<Rightarrow> id \<Rightarrow> err + id" where
  "authorizeFileWrite s userID ownerID nodeID =
     (if ownerID = userID then Inr []
      else ebind (ShareGrant s userID nodeID) (\<lambda>grant. case grant of
          None \<Rightarrow> Inl UploadsForbidden
        | Some g \<Rightarrow> if \<not> CanWrite g then Inl UploadsForbidden else Inr (RootID g)))"

definition live_file :: "db \<Rightarrow> id \<Rightarrow> node_row option" where
  "live_file s nodeID = find (\<lambda>n. n_id n = nodeID \<and> n_node_type n = ''FILE'' \<and> n_deleted_at n = None) (nodes s)"

definition validateActorAndTarget :: "db \<Rightarrow> id \<Rightarrow> id \<Rightarrow> id \<Rightarrow> err + unit" where
  "validateActorAndTarget s userID deviceID nodeID =
     (if count_rows (\<lambda>d. d_id d = deviceID \<and> d_user_id d = userID \<and> d_revoked_at d = None) (devices s) \<noteq> 1
      then Inl UploadsForbidden
      else case live_file s nodeID of
          None \<Rightarrow> Inl UploadsTargetNodeMissing
        | Some n \<Rightarrow> ebind (authorizeFileWrite s userID (n_owner_id n) nodeID) (\<lambda>_. Inr ()))"

definition sessionForDevice :: "db \<Rightarrow> id \<Rightarrow> id \<Rightarrow> id \<Rightarrow> err + dbSession" where
  "sessionForDevice s userID deviceID uploadID =
     (case find (\<lambda>r. us_id r = uploadID \<and> us_user_id r = userID \<and> us_device_id r = deviceID) (upload_sessions s) of
        None \<Rightarrow> Inl UploadsNotFound
      | Some r \<Rightarrow> Inr \<lparr>S_ID = us_id r, S_BlobID = us_blob_id r, S_FileVersionID = us_file_version_id r,
          S_Status = us_status r, S_ChunkCount = us_chunk_count r, S_ReceivedChunks = [],
          S_ExpiresAt = us_expires_at r, targetNodeID = us_target_node_id r, e2eeHeader = us_e2ee_header r,
          wrappedFileKey = us_wrapped_file_key r, metadataCiphertext = us_metadata_ciphertext r,
          metadataKeyVersion = us_metadata_key_version r, expectedRevision = us_expected_revision r,
          chunkSize = us_chunk_size r\<rparr>)"

section \<open>Opening a session\<close>

definition id_in_use :: "db \<Rightarrow> id \<Rightarrow> id \<Rightarrow> bool" where
  "id_in_use s blobID versionID \<longleftrightarrow>
     (\<exists>b\<in>set (blobs s). b_id b = blobID) \<or> (\<exists>f\<in>set (file_versions s). f_id f = versionID) \<or>
     (\<exists>r\<in>set (upload_sessions s). (us_blob_id r = blobID \<or> us_file_version_id r = versionID) \<and>
        (us_status r = ''OPEN'' \<or> us_status r = ''COMMITTING''))"

definition open_sessions :: "db \<Rightarrow> id \<Rightarrow> time \<Rightarrow> nat" where
  "open_sessions s deviceID now = count_rows (\<lambda>r. us_device_id r = deviceID \<and> us_status r = ''OPEN''
     \<and> stamp (us_expires_at r) > stamp now) (upload_sessions s)"

definition CreateUpload_tx ::
  "uuid_pkg \<Rightarrow> UploadService \<Rightarrow> time \<Rightarrow> id \<Rightarrow> db \<Rightarrow> UploadInput \<Rightarrow> err + (Session \<times> db)" where
  "CreateUpload_tx U svc now newID s inp =
     (if \<not> ValidUUID U (cu_TargetNodeID inp) \<or> \<not> ValidUUID U (cu_FileVersionID inp) \<or> \<not> ValidUUID U (cu_BlobID inp)
         \<or> (case cu_ExpectedRevision inp of None \<Rightarrow> True | Some r \<Rightarrow> r < 0)
         \<or> cu_ChunkCount inp < 1 \<or> cu_ChunkCount inp > maxChunkCount \<or> cu_ChunkSize inp < 1
         \<or> cu_ChunkSize inp > MaxChunkCiphertextSize
      then Inl (Validation ''invalid opaque upload framing'')
      else if cu_WrappedFileKey inp = [] \<or> cu_E2EEHeader inp = [] \<or> cu_MetadataCiphertext inp = []
         \<or> cu_MetadataKeyVersion inp < 1
      then Inl (Validation ''encrypted metadata, wrapped file key, and E2EE header are required'')
      else ebind (validateActorAndTarget s (cu_UserID inp) (cu_DeviceID inp) (cu_TargetNodeID inp)) (\<lambda>_.
        if int64 (cu_ChunkCount inp * cu_ChunkSize inp) > up_maxCiphertextSize svc
        then Inl (Validation ''ciphertext framing exceeds the configured file limit'')
        else if id_in_use s (cu_BlobID inp) (cu_FileVersionID inp) then Inl UploadsIDConflict
        else if int (open_sessions s (cu_DeviceID inp) now) \<ge> MaxOpenSessionsPerDevice then Inl UploadsTooManyUploads
        else if \<exists>r\<in>set (upload_sessions s). us_id r = newID
        then Inl (Internal ''create upload session: UNIQUE constraint failed: upload_sessions.id'')
        else Inr (\<lparr>S_ID = newID, S_BlobID = cu_BlobID inp, S_FileVersionID = cu_FileVersionID inp,
                S_Status = ''OPEN'', S_ChunkCount = cu_ChunkCount inp, S_ReceivedChunks = [],
                S_ExpiresAt = now + up_abandonedAfter svc\<rparr>,
             s\<lparr>upload_sessions := upload_sessions s @
              [\<lparr>us_id = newID, us_user_id = cu_UserID inp, us_device_id = cu_DeviceID inp,
                us_target_node_id = cu_TargetNodeID inp, us_file_version_id = cu_FileVersionID inp,
                us_blob_id = cu_BlobID inp, us_expected_revision = cu_ExpectedRevision inp,
                us_chunk_size = cu_ChunkSize inp, us_chunk_count = cu_ChunkCount inp,
                us_max_ciphertext_size = up_maxCiphertextSize svc,
                us_metadata_ciphertext = cu_MetadataCiphertext inp,
                us_metadata_key_version = cu_MetadataKeyVersion inp,
                us_wrapped_file_key = cu_WrappedFileKey inp, us_e2ee_header = cu_E2EEHeader inp,
                us_status = ''OPEN'', us_created_at = now, us_expires_at = now + up_abandonedAfter svc,
                us_completed_at = None\<rparr>]\<rparr>)))"

definition CreateUpload ::
  "uuid_pkg \<Rightarrow> UploadService \<Rightarrow> time \<Rightarrow> id \<Rightarrow> server \<Rightarrow> UploadInput \<Rightarrow> server \<times> (err + Session)" where
  "CreateUpload U svc now newID sv inp =
     (case CreateUpload_tx U svc now newID (sv_db sv) inp of
        Inl e \<Rightarrow> (sv, Inl e)
      | Inr (session, s') \<Rightarrow> (sv\<lparr>sv_db := s'\<rparr>, Inr session))"

section \<open>Chunks\<close>

definition writeAtomic :: "string \<Rightarrow> bytes \<Rightarrow> disk \<Rightarrow> disk" where
  "writeAtomic path data d = rename_file (path @ ''.new'') path (write_file (path @ ''.new'') data d)"

definition chunk_row :: "db \<Rightarrow> id \<Rightarrow> int \<Rightarrow> upload_chunk_row option" where
  "chunk_row s uploadID no = find (\<lambda>c. uc_upload_id c = uploadID \<and> uc_chunk_no c = no) (upload_chunks s)"

definition insertChunk :: "db \<Rightarrow> upload_chunk_row \<Rightarrow> db" where
  "insertChunk s c =
     (case chunk_row s (uc_upload_id c) (uc_chunk_no c) of
        None \<Rightarrow> s\<lparr>upload_chunks := upload_chunks s @ [c]\<rparr>
      | Some _ \<Rightarrow> s)"

definition PutChunk ::
  "uuid_pkg \<Rightarrow> (bytes \<Rightarrow> string) \<Rightarrow> time \<Rightarrow> server \<Rightarrow> id \<Rightarrow> id \<Rightarrow> id \<Rightarrow> int \<Rightarrow> bytes \<Rightarrow> server \<times> (err + unit)" where
  "PutChunk U H now sv userID deviceID uploadID chunkNo ciphertext =
     (if \<not> ValidUUID U uploadID \<or> chunkNo < 0 \<or> ciphertext = []
         \<or> int (length ciphertext) > MaxChunkCiphertextSize
      then (sv, Inl (Validation ''invalid ciphertext chunk''))
      else case sessionForDevice (sv_db sv) userID deviceID uploadID of
        Inl e \<Rightarrow> (sv, Inl e)
      | Inr session \<Rightarrow>
          if S_Status session \<noteq> ''OPEN'' \<or> \<not> now < S_ExpiresAt session then (sv, Inl UploadsInvalidState)
          else if chunkNo \<ge> S_ChunkCount session
          then (sv, Inl (Validation ''chunk number exceeds declared chunk count''))
          else if int (length ciphertext) > chunkSize session
          then (sv, Inl (Validation ''chunk exceeds the declared chunk size''))
          else (case chunk_row (sv_db sv) uploadID chunkNo of
              Some c \<Rightarrow> if uc_ciphertext_sha256 c \<noteq> H ciphertext then (sv, Inl UploadsChunkConflict) else (sv, Inr ())
            | None \<Rightarrow>
                (let d = writeAtomic (chunk_path uploadID chunkNo) ciphertext (sv_disk sv);
                     s = insertChunk (sv_db sv)
                       \<lparr>uc_upload_id = uploadID, uc_chunk_no = chunkNo, uc_ciphertext_size = int (length ciphertext),
                        uc_ciphertext_sha256 = H ciphertext, uc_temp_rel_path = chunk_path uploadID chunkNo,
                        uc_received_at = now\<rparr>;
                     sv' = sv\<lparr>sv_db := s, sv_disk := d\<rparr>
                 in (case chunk_row s uploadID chunkNo of
                       None \<Rightarrow> (sv', Inl (Internal ''sql: no rows in result set''))
                     | Some c \<Rightarrow> if uc_ciphertext_sha256 c \<noteq> H ciphertext then (sv', Inl UploadsChunkConflict)
                                else (sv', Inr ())))))"

definition GetUpload :: "db \<Rightarrow> id \<Rightarrow> id \<Rightarrow> id \<Rightarrow> err + Session" where
  "GetUpload s userID deviceID uploadID =
     ebind (sessionForDevice s userID deviceID uploadID) (\<lambda>session.
       Inr \<lparr>S_ID = S_ID session, S_BlobID = S_BlobID session, S_FileVersionID = S_FileVersionID session,
         S_Status = S_Status session, S_ChunkCount = S_ChunkCount session,
         S_ReceivedChunks = S_ReceivedChunks session @
           sort (map uc_chunk_no (filter (\<lambda>c. uc_upload_id c = uploadID) (upload_chunks s))),
         S_ExpiresAt = S_ExpiresAt session\<rparr>)"

definition AbortUpload :: "uuid_pkg \<Rightarrow> server \<Rightarrow> id \<Rightarrow> id \<Rightarrow> id \<Rightarrow> server \<times> (err + unit)" where
  "AbortUpload U sv userID deviceID uploadID =
     (if \<not> ValidUUID U uploadID then (sv, Inl UploadsNotFound)
      else case sessionForDevice (sv_db sv) userID deviceID uploadID of
        Inl e \<Rightarrow> (sv, Inl e)
      | Inr session \<Rightarrow>
          if S_Status session \<noteq> ''OPEN'' then (sv, Inr ())
          else (sv\<lparr>sv_db := (sv_db sv)\<lparr>upload_sessions :=
                upd (\<lambda>r. us_id r = uploadID) (\<lambda>r. r\<lparr>us_status := ''ABORTED''\<rparr>) (upload_sessions (sv_db sv))\<rparr>,
              sv_disk := remove_all (uploadDir uploadID) (sv_disk sv)\<rparr>, Inr ()))"

section \<open>Reading versions\<close>

record FileVersion =
  fv_ID :: id
  fv_NodeID :: id
  fv_BlobID :: id
  fv_E2EEHeader :: bytes
  fv_WrappedFileKey :: bytes
  fv_KeyScopeID :: id
  fv_KeyVersion :: int
  fv_CreatedAt :: time
  fv_CreatedByDeviceID :: id
  fv_Revision :: int
  fv_ChunkCount :: int
  fv_CiphertextSize :: int

text \<open>\<open>file_versions f JOIN blobs b ON b.id = f.blob_id\<close>\<close>

definition version_blobs :: "db \<Rightarrow> (file_version_row \<times> blob_row) list" where
  "version_blobs s = concat (map (\<lambda>f. map (Pair f) (filter (\<lambda>b. b_id b = f_blob_id f) (blobs s))) (file_versions s))"

definition OpenNodeBlob :: "db \<Rightarrow> id \<Rightarrow> id \<Rightarrow> err + (string \<times> int)" where
  "OpenNodeBlob s nodeID fileVersionID =
     (case find (\<lambda>(f, b). f_node_id f = nodeID \<and> f_id f = fileVersionID) (version_blobs s) of
        None \<Rightarrow> Inl UploadsNotFound
      | Some (f, b) \<Rightarrow> Inr (b_storage_rel_path b, b_ciphertext_size b))"

definition ListVersions :: "db \<Rightarrow> id \<Rightarrow> FileVersion list" where
  "ListVersions s nodeID =
     map (\<lambda>(f, b). \<lparr>fv_ID = f_id f, fv_NodeID = f_node_id f, fv_BlobID = f_blob_id f,
         fv_E2EEHeader = f_e2ee_header f, fv_WrappedFileKey = f_wrapped_file_key f,
         fv_KeyScopeID = f_key_scope_id f, fv_KeyVersion = f_key_version f, fv_CreatedAt = f_created_at f,
         fv_CreatedByDeviceID = f_created_by_device_id f, fv_Revision = f_revision f,
         fv_ChunkCount = b_chunk_count b, fv_CiphertextSize = b_ciphertext_size b\<rparr>)
       (rev (sort_key (\<lambda>(f, b). (stamp (f_created_at f), f_id f))
         (filter (\<lambda>(f, b). f_node_id f = nodeID) (version_blobs s))))"

section \<open>Completion\<close>

definition encodeResult :: "CompleteResult \<Rightarrow> bytes" where
  "encodeResult r = cr_BlobID r @ CHR '':'' # cr_FileVersionID r @ CHR '':'' # FormatInt (cr_Revision r)"

definition decodeResult :: "uuid_pkg \<Rightarrow> bytes \<Rightarrow> err + CompleteResult" where
  "decodeResult U v =
     (case split_at CHR '':'' v of
        [blob, version, text] \<Rightarrow>
          if \<not> uuid_Validate U blob \<or> \<not> uuid_Validate U version
          then Inl (Internal ''invalid stored operation result'')
          else (case ParseInt text of
              None \<Rightarrow> Inl (Internal ''strconv.ParseInt'')
            | Some revision \<Rightarrow> Inr \<lparr>cr_BlobID = blob, cr_FileVersionID = version, cr_Revision = revision\<rparr>)
      | _ \<Rightarrow> Inl (Internal ''invalid stored operation result''))"

definition replayCompletion :: "uuid_pkg \<Rightarrow> db \<Rightarrow> CompleteInput \<Rightarrow> err + CompleteResult option" where
  "replayCompletion U s inp =
     (case find (\<lambda>r. o_operation_id r = co_OperationID inp) (processed_operations s) of
        None \<Rightarrow> Inr None
      | Some r \<Rightarrow>
          if o_user_id r \<noteq> co_UserID inp \<or> o_operation_type r \<noteq> ''UPLOAD_COMPLETE''
          then Inl (Validation ''operation ID has already been used'')
          else map_sum id Some (decodeResult U (o_result_payload r)))"

definition completedResult :: "db \<Rightarrow> id \<Rightarrow> err + CompleteResult" where
  "completedResult s versionID =
     (case find (\<lambda>(f, b). f_id f = versionID) (version_blobs s) of
        None \<Rightarrow> Inl (Internal ''sql: no rows in result set'')
      | Some (f, b) \<Rightarrow> Inr \<lparr>cr_BlobID = b_id b, cr_FileVersionID = f_id f, cr_Revision = f_revision f\<rparr>)"

record ciphertextChunk =
  relativePath :: string
  digest :: string

fun loadChunks_loop ::
  "id \<Rightarrow> int \<Rightarrow> upload_chunk_row list \<Rightarrow> ciphertextChunk list \<times> int \<Rightarrow> err + (ciphertextChunk list \<times> int)" where
  "loadChunks_loop uploadID count [] acc = Inr acc"
| "loadChunks_loop uploadID count (c # cs) (paths, totalSoFar) =
     (if uc_chunk_no c < 0 \<or> uc_chunk_no c \<ge> count then Inl UploadsMissingChunks
      else if uc_temp_rel_path c \<noteq> chunk_path uploadID (uc_chunk_no c)
      then Inl (Internal ''invalid ciphertext chunk storage path'')
      else loadChunks_loop uploadID count cs
        (paths[nat (uc_chunk_no c) := \<lparr>relativePath = uc_temp_rel_path c, digest = uc_ciphertext_sha256 c\<rparr>],
         int64 (totalSoFar + uc_ciphertext_size c)))"

definition loadChunks :: "db \<Rightarrow> id \<Rightarrow> int \<Rightarrow> err + (ciphertextChunk list \<times> int)" where
  "loadChunks s uploadID count =
     ebind (loadChunks_loop uploadID count (filter (\<lambda>c. uc_upload_id c = uploadID) (upload_chunks s))
         (replicate (nat count) \<lparr>relativePath = [], digest = []\<rparr>, 0)) (\<lambda>(paths, totalSoFar).
       if \<exists>p\<in>set paths. relativePath p = [] then Inl UploadsMissingChunks else Inr (paths, totalSoFar))"

definition createBlobFile :: "db \<Rightarrow> id \<Rightarrow> string \<Rightarrow> disk \<Rightarrow> err + disk" where
  "createBlobFile s blobID destination d =
     (if file_at d destination = None then Inr (write_file destination [] d)
      else if \<exists>b\<in>set (blobs s). b_id b = blobID then Inl UploadsIDConflict
      else Inr (write_file destination [] (remove_file destination d)))"

text \<open>\<open>written\<close> is what the blob file holds so far.\<close>

fun assemble_loop ::
  "(bytes \<Rightarrow> string) \<Rightarrow> string \<Rightarrow> ciphertextChunk list \<Rightarrow> bytes \<Rightarrow> disk \<Rightarrow> disk \<times> (err + bytes)" where
  "assemble_loop H destination [] written d = (d, Inr written)"
| "assemble_loop H destination (c # cs) written d =
     (case file_at d (relativePath c) of
        None \<Rightarrow> (remove_file destination d, Inl (Internal ''open ciphertext chunk: no such file''))
      | Some content \<Rightarrow>
          (let d' = write_file destination (written @ content) d
           in if H content \<noteq> digest c
              then (remove_file destination d', Inl (Internal ''stored ciphertext chunk digest mismatch''))
              else assemble_loop H destination cs (written @ content) d'))"

definition assembleCiphertext ::
  "(bytes \<Rightarrow> string) \<Rightarrow> db \<Rightarrow> id \<Rightarrow> string \<Rightarrow> ciphertextChunk list \<Rightarrow> disk \<Rightarrow> disk \<times> (err + string)" where
  "assembleCiphertext H s blobID destination chunks d =
     (case createBlobFile s blobID destination d of
        Inl e \<Rightarrow> (d, Inl e)
      | Inr d1 \<Rightarrow> map_prod id (map_sum id H) (assemble_loop H destination chunks [] d1))"

text \<open>What \<open>Complete\<close> decides before it touches the disk.\<close>

datatype prepared = Answered CompleteResult | Assemble dbSession int "ciphertextChunk list" int

definition complete_prepare ::
  "uuid_pkg \<Rightarrow> UploadService \<Rightarrow> time \<Rightarrow> db \<Rightarrow> id \<Rightarrow> CompleteInput \<Rightarrow> err + prepared" where
  "complete_prepare U svc now s uploadID inp =
     (if \<not> ValidUUID U uploadID \<or> \<not> ValidUUID U (co_OperationID inp) \<or> co_KeyScopeID inp = [] \<or> co_KeyVersion inp < 1
      then Inl (Validation ''invalid opaque completion request'')
      else ebind (sessionForDevice s (co_UserID inp) (co_DeviceID inp) uploadID) (\<lambda>session.
        if S_Status session = ''COMPLETED''
        then map_sum id Answered (completedResult s (S_FileVersionID session))
        else if S_Status session \<noteq> ''OPEN'' \<or> \<not> now < S_ExpiresAt session then Inl UploadsInvalidState
        else ebind (case expectedRevision session of
            Some r \<Rightarrow> Inr r
          | None \<Rightarrow> (case co_ExpectedRevision inp of
              Some r \<Rightarrow> Inr r
            | None \<Rightarrow> Inl (Validation ''expected revision is required''))) (\<lambda>expected.
        if co_ExpectedRevision inp \<noteq> None \<and> co_ExpectedRevision inp \<noteq> Some expected
        then Inl (Validation ''completion revision does not match the upload session'')
        else ebind (replayCompletion U s inp) (\<lambda>replay. case replay of
          Some r \<Rightarrow> Inr (Answered r)
        | None \<Rightarrow>
            ebind (loadChunks s uploadID (S_ChunkCount session)) (\<lambda>(chunks, totalSize).
            if totalSize > up_maxCiphertextSize svc
            then Inl (Validation ''ciphertext exceeds configured file limit'')
            else Inr (Assemble session expected chunks totalSize))))))"

definition insertBlob :: "db \<Rightarrow> blob_row \<Rightarrow> err + db" where
  "insertBlob s b =
     (if \<exists>x\<in>set (blobs s). b_id x = b_id b \<or> b_storage_rel_path x = b_storage_rel_path b
      then Inl (Internal ''create blob record: UNIQUE constraint failed: blobs'')
      else Inr (s\<lparr>blobs := blobs s @ [b]\<rparr>))"

definition insertVersion :: "db \<Rightarrow> file_version_row \<Rightarrow> err + db" where
  "insertVersion s f =
     (if \<exists>x\<in>set (file_versions s). f_id x = f_id f
      then Inl (Internal ''UNIQUE constraint failed: file_versions.id'')
      else Inr (s\<lparr>file_versions := file_versions s @ [f]\<rparr>))"

datatype completion = CompletionReplayed CompleteResult | Completed CompleteResult db

definition complete_tx ::
  "uuid_pkg \<Rightarrow> time \<Rightarrow> db \<Rightarrow> id \<Rightarrow> CompleteInput \<Rightarrow> dbSession \<Rightarrow> int \<Rightarrow> int \<Rightarrow> string \<Rightarrow> err + completion" where
  "complete_tx U now s uploadID inp session expected totalSize blobDigest =
     ebind (replayCompletion U s inp) (\<lambda>replay. case replay of
       Some r \<Rightarrow> Inr (CompletionReplayed r)
     | None \<Rightarrow>
       (case find (\<lambda>r. us_id r = uploadID) (upload_sessions s) of
         None \<Rightarrow> Inl UploadsInvalidState
       | Some row \<Rightarrow>
         if us_status row \<noteq> ''OPEN'' then Inl UploadsInvalidState
         else (case live_file s (targetNodeID session) of
           None \<Rightarrow> Inl UploadsTargetNodeMissing
         | Some n \<Rightarrow>
           ebind (authorizeFileWrite s (co_UserID inp) (n_owner_id n) (targetNodeID session)) (\<lambda>writeRoot.
           if n_revision n \<noteq> expected then Inl UploadsRevisionConflict
           else ebind (ValidateKeyScope U s (n_owner_id n) (co_UserID inp) writeRoot (co_KeyScopeID inp)
               (co_KeyVersion inp)) (\<lambda>_.
           ebind (ValidateKeyScope U s (n_owner_id n) (co_UserID inp) writeRoot (co_KeyScopeID inp)
               (metadataKeyVersion session)) (\<lambda>_.
           ebind (insertBlob s \<lparr>b_id = S_BlobID session, b_ciphertext_size = totalSize,
               b_storage_rel_path = blob_path (S_BlobID session), b_ciphertext_sha256 = blobDigest,
               b_chunk_count = S_ChunkCount session, b_created_at = now\<rparr>) (\<lambda>s1.
           let revision = sync_seq s1 + 1;
               s2 = s1\<lparr>sync_changes := sync_changes s1 @
                 [\<lparr>c_revision = revision, c_user_scope_id = n_owner_id n, c_node_id = targetNodeID session,
                   c_operation = ''UPDATE'', c_payload = co_SyncPayloadCiphertext inp, c_created_at = now\<rparr>],
                 sync_seq := revision\<rparr> in
           ebind (insertVersion s2 \<lparr>f_id = S_FileVersionID session, f_node_id = targetNodeID session,
               f_blob_id = S_BlobID session, f_e2ee_header = e2eeHeader session,
               f_wrapped_file_key = wrappedFileKey session, f_key_scope_id = co_KeyScopeID inp,
               f_key_version = co_KeyVersion inp, f_created_at = now,
               f_created_by_device_id = co_DeviceID inp, f_revision = revision\<rparr>) (\<lambda>s3.
           let current = (\<lambda>m. n_id m = targetNodeID session \<and> n_revision m = expected);
               s4 = s3\<lparr>nodes := upd current (\<lambda>m. m\<lparr>n_current_version_id := Some (S_FileVersionID session),
                 n_metadata_ciphertext := metadataCiphertext session,
                 n_metadata_key_version := metadataKeyVersion session,
                 n_metadata_key_scope_id := StoredScope (co_KeyScopeID inp) (n_owner_id n),
                 n_revision := revision, n_updated_at := now\<rparr>) (nodes s3)\<rparr> in
           if count_rows current (nodes s3) \<noteq> 1 then Inl UploadsRevisionConflict
           else let result = \<lparr>cr_BlobID = S_BlobID session, cr_FileVersionID = S_FileVersionID session,
               cr_Revision = revision\<rparr> in
           if \<exists>r\<in>set (processed_operations s4). o_operation_id r = co_OperationID inp
           then Inl (Internal ''UNIQUE constraint failed: processed_operations.operation_id'')
           else Inr (Completed result (s4\<lparr>processed_operations := processed_operations s4 @
               [\<lparr>o_operation_id = co_OperationID inp, o_user_id = co_UserID inp, o_device_id = co_DeviceID inp,
                 o_operation_type = ''UPLOAD_COMPLETE'', o_result_payload = encodeResult result,
                 o_created_at = now, o_expires_at = now + operation_ttl\<rparr>],
             upload_sessions := upd (\<lambda>r. us_id r = uploadID)
               (\<lambda>r. r\<lparr>us_status := ''COMPLETED'', us_completed_at := Some now\<rparr>) (upload_sessions s4)\<rparr>))))))))))"

text \<open>After the transaction: a commit keeps the blob file and drops the chunks, everything else removes
  the blob file again.\<close>

definition complete_cleanup ::
  "id \<Rightarrow> string \<Rightarrow> server \<Rightarrow> err + completion \<Rightarrow> server \<times> (err + CompleteResult)" where
  "complete_cleanup uploadID blobPath sv r =
     (case r of
        Inl e \<Rightarrow> (sv\<lparr>sv_disk := remove_file blobPath (sv_disk sv)\<rparr>, Inl e)
      | Inr (CompletionReplayed res) \<Rightarrow> (sv\<lparr>sv_disk := remove_file blobPath (sv_disk sv)\<rparr>, Inr res)
      | Inr (Completed res s') \<Rightarrow>
          (sv\<lparr>sv_db := s', sv_disk := remove_all (uploadDir uploadID) (sv_disk sv)\<rparr>, Inr res))"

definition CompleteUpload ::
  "uuid_pkg \<Rightarrow> (bytes \<Rightarrow> string) \<Rightarrow> UploadService \<Rightarrow> time \<Rightarrow> server \<Rightarrow> id \<Rightarrow> CompleteInput \<Rightarrow>
   server \<times> (err + CompleteResult)" where
  "CompleteUpload U H svc now sv uploadID inp =
     (case complete_prepare U svc now (sv_db sv) uploadID inp of
        Inl e \<Rightarrow> (sv, Inl e)
      | Inr (Answered r) \<Rightarrow> (sv, Inr r)
      | Inr (Assemble session expected chunks totalSize) \<Rightarrow>
          (let blobPath = blob_path (S_BlobID session) in
           case assembleCiphertext H (sv_db sv) (S_BlobID session) blobPath chunks (sv_disk sv) of
             (d, Inl e) \<Rightarrow> (sv\<lparr>sv_disk := d\<rparr>, Inl e)
           | (d, Inr blobDigest) \<Rightarrow>
               complete_cleanup uploadID blobPath (sv\<lparr>sv_disk := d\<rparr>)
                 (complete_tx U now (sv_db sv) uploadID inp session expected totalSize blobDigest)))"

end
