(* ===== verification/HB_Uploads_Inv.thy ===== *)
theory HB_Uploads_Inv
  imports HB_Uploads HB_Nodes_Service
begin

text \<open>
  What the upload operations keep true of the database and the disk together (\<open>storage_inv\<close>), beside
  \<open>vault_inv\<close>:

  \<^item> \<open>blobs_stored\<close>: every blob of the database has its file, with the recorded size and digest;
  \<^item> \<open>versions_ok\<close>: every file version has its blob and its node;
  \<^item> \<open>current_ok\<close>: the current version of a node is a version of that node;
  \<^item> \<open>sessions_ok\<close>: an open session reserves its blob and version IDs, within the framing limits;
  \<^item> \<open>chunks_ok\<close>: every chunk of an open session has its file, with the recorded size and digest.
\<close>

definition blobs_stored :: "(bytes \<Rightarrow> string) \<Rightarrow> server \<Rightarrow> bool" where
  "blobs_stored H sv \<longleftrightarrow> distinct (map b_id (blobs (sv_db sv))) \<and>
     (\<forall>b\<in>set (blobs (sv_db sv)). b_storage_rel_path b = blob_path (b_id b) \<and>
        (\<exists>c. file_at (sv_disk sv) (blob_path (b_id b)) = Some c \<and> int (length c) = b_ciphertext_size b \<and>
             H c = b_ciphertext_sha256 b))"

definition versions_ok :: "db \<Rightarrow> bool" where
  "versions_ok s \<longleftrightarrow> distinct (map f_id (file_versions s)) \<and>
     (\<forall>f\<in>set (file_versions s). f_blob_id f \<in> b_id ` set (blobs s) \<and> f_node_id f \<in> n_id ` set (nodes s))"

definition current_ok :: "db \<Rightarrow> bool" where
  "current_ok s \<longleftrightarrow> (\<forall>n\<in>set (nodes s). \<forall>v. n_current_version_id n = Some v \<longrightarrow>
     (\<exists>f\<in>set (file_versions s). f_id f = v \<and> f_node_id f = n_id n))"

definition reserved :: "upload_session_row \<Rightarrow> bool" where
  "reserved r \<longleftrightarrow> us_status r = ''OPEN''"

definition session_ok :: "upload_session_row \<Rightarrow> bool" where
  "session_ok r \<longleftrightarrow> CHR ''/'' \<notin> set (us_id r) \<and> 1 \<le> us_chunk_count r \<and> us_chunk_count r \<le> maxChunkCount \<and>
     1 \<le> us_chunk_size r \<and> us_chunk_size r \<le> MaxChunkCiphertextSize"

definition sessions_ok :: "db \<Rightarrow> bool" where
  "sessions_ok s \<longleftrightarrow> distinct (map us_id (upload_sessions s)) \<and>
     (\<forall>r\<in>set (upload_sessions s). session_ok r \<and> (reserved r \<longrightarrow>
        us_blob_id r \<notin> b_id ` set (blobs s) \<and> us_file_version_id r \<notin> f_id ` set (file_versions s))) \<and>
     (\<forall>r\<in>set (upload_sessions s). \<forall>r'\<in>set (upload_sessions s). reserved r \<longrightarrow> reserved r' \<longrightarrow>
        us_blob_id r = us_blob_id r' \<or> us_file_version_id r = us_file_version_id r' \<longrightarrow> r = r')"

definition chunk_stored :: "(bytes \<Rightarrow> string) \<Rightarrow> disk \<Rightarrow> upload_session_row \<Rightarrow> upload_chunk_row \<Rightarrow> bool" where
  "chunk_stored H d r c \<longleftrightarrow> 0 \<le> uc_chunk_no c \<and> uc_chunk_no c < us_chunk_count r \<and>
     uc_temp_rel_path c = chunk_path (us_id r) (uc_chunk_no c) \<and>
     (\<exists>x. file_at d (uc_temp_rel_path c) = Some x \<and> int (length x) = uc_ciphertext_size c \<and>
        H x = uc_ciphertext_sha256 c) \<and> uc_ciphertext_size c \<le> us_chunk_size r"

definition chunks_ok :: "(bytes \<Rightarrow> string) \<Rightarrow> server \<Rightarrow> bool" where
  "chunks_ok H sv \<longleftrightarrow> distinct (map (\<lambda>c. (uc_upload_id c, uc_chunk_no c)) (upload_chunks (sv_db sv))) \<and>
     (\<forall>c\<in>set (upload_chunks (sv_db sv)). uc_upload_id c \<in> us_id ` set (upload_sessions (sv_db sv))) \<and>
     (\<forall>r\<in>set (upload_sessions (sv_db sv)). \<forall>c\<in>set (upload_chunks (sv_db sv)).
        reserved r \<longrightarrow> uc_upload_id c = us_id r \<longrightarrow> chunk_stored H (sv_disk sv) r c)"

definition storage_inv :: "(bytes \<Rightarrow> string) \<Rightarrow> server \<Rightarrow> bool" where
  "storage_inv H sv \<longleftrightarrow> disk_ok (sv_disk sv) \<and> blobs_stored H sv \<and> versions_ok (sv_db sv) \<and>
     current_ok (sv_db sv) \<and> sessions_ok (sv_db sv) \<and> chunks_ok H sv"

lemma storage_invD:
  assumes "storage_inv H sv"
  shows "disk_ok (sv_disk sv)" "blobs_stored H sv" "versions_ok (sv_db sv)" "current_ok (sv_db sv)"
    "sessions_ok (sv_db sv)" "chunks_ok H sv" "distinct (map us_id (upload_sessions (sv_db sv)))"
  using assms by (simp_all add: storage_inv_def sessions_ok_def)

lemma sessions_okI:
  assumes "distinct (map us_id (upload_sessions s))"
    "\<And>r. r \<in> set (upload_sessions s) \<Longrightarrow> session_ok r"
    "\<And>r. r \<in> set (upload_sessions s) \<Longrightarrow> reserved r \<Longrightarrow>
      us_blob_id r \<notin> b_id ` set (blobs s) \<and> us_file_version_id r \<notin> f_id ` set (file_versions s)"
    "\<And>r r'. r \<in> set (upload_sessions s) \<Longrightarrow> r' \<in> set (upload_sessions s) \<Longrightarrow> reserved r \<Longrightarrow> reserved r' \<Longrightarrow>
      us_blob_id r = us_blob_id r' \<or> us_file_version_id r = us_file_version_id r' \<Longrightarrow> r = r'"
  shows "sessions_ok s"
  unfolding sessions_ok_def by (intro conjI ballI impI) (use assms in \<open>simp_all\<close>)

lemma sessions_okD:
  assumes "sessions_ok s" "r \<in> set (upload_sessions s)"
  shows "session_ok r" "reserved r \<Longrightarrow> us_blob_id r \<notin> b_id ` set (blobs s)"
    "reserved r \<Longrightarrow> us_file_version_id r \<notin> f_id ` set (file_versions s)"
    "r' \<in> set (upload_sessions s) \<Longrightarrow> reserved r \<Longrightarrow> reserved r' \<Longrightarrow> us_blob_id r = us_blob_id r' \<Longrightarrow> r = r'"
    "r' \<in> set (upload_sessions s) \<Longrightarrow> reserved r \<Longrightarrow> reserved r' \<Longrightarrow> us_file_version_id r = us_file_version_id r' \<Longrightarrow> r = r'"
  using assms unfolding sessions_ok_def by blast+

section \<open>Paths of uploads\<close>

lemma uploadDir_prefix:
  assumes "CHR ''/'' \<notin> set i" "CHR ''/'' \<notin> set j" "prefix (uploadDir i @ ''/'') (uploadDir j @ CHR ''/'' # r)"
  shows "i = j"
proof -
  from assms(3) obtain q where "i @ CHR ''/'' # q = j @ CHR ''/'' # r"
    by (auto simp: prefix_def uploadDir_def)
  then have "cut CHR ''/'' (i @ CHR ''/'' # q) = cut CHR ''/'' (j @ CHR ''/'' # r)" by (rule arg_cong)
  then show ?thesis unfolding cut_join [OF assms(1)] cut_join [OF assms(2)] by simp
qed

lemma FormatInt_inj:
  assumes "0 \<le> a" "0 \<le> b" "FormatInt a = FormatInt b"
  shows "a = b"
proof -
  from assms have "parse_digits 0 (digits (nat a)) = parse_digits 0 (digits (nat b))" by (simp add: FormatInt_def)
  with assms(1,2) show ?thesis by (simp add: parse_digits_digits)
qed

lemma chunk_path_eq:
  assumes "CHR ''/'' \<notin> set i" "CHR ''/'' \<notin> set j" "0 \<le> a" "0 \<le> b"
  shows "chunk_path i a = chunk_path j b \<longleftrightarrow> i = j \<and> a = b"
proof
  assume eq: "chunk_path i a = chunk_path j b"
  then have "uploadDir j @ CHR ''/'' # (FormatInt b @ ''.chunk'') = (uploadDir i @ ''/'') @ (FormatInt a @ ''.chunk'')"
    by (simp add: chunk_path_def)
  then have "prefix (uploadDir i @ ''/'') (uploadDir j @ CHR ''/'' # (FormatInt b @ ''.chunk''))" by (rule prefixI)
  then have "i = j" by (rule uploadDir_prefix [OF assms(1,2)])
  with eq FormatInt_inj [OF assms(3,4)] show "i = j \<and> a = b" by (simp add: chunk_path_def)
qed simp

lemma new_not_chunk: "chunk_path i a @ ''.new'' \<noteq> chunk_path j b"
proof
  assume "chunk_path i a @ ''.new'' = chunk_path j b"
  then have "last (chunk_path i a @ ''.new'') = last (chunk_path j b)" by simp
  then show False by (simp add: chunk_path_def)
qed

lemma new_not_blob: "chunk_path i a @ ''.new'' \<noteq> blob_path j"
  by (simp add: chunk_path_def uploadDir_def blob_path_def)

lemma file_at_writeAtomic:
  "file_at (writeAtomic p c d) q = (if q = p then Some c else if q = p @ ''.new'' then None else file_at d q)"
  by (simp add: writeAtomic_def file_at_rename)

lemma disk_ok_writeAtomic [simp]: "disk_ok d \<Longrightarrow> disk_ok (writeAtomic p c d)"
  by (simp add: writeAtomic_def)

lemma file_at_remove_upload:
  assumes "CHR ''/'' \<notin> set i" "CHR ''/'' \<notin> set j"
  shows "file_at (remove_all (uploadDir i) d) (chunk_path j k) = (if i = j then None else file_at d (chunk_path j k))"
proof (cases "i = j")
  case True
  then show ?thesis by (auto simp: chunk_path_def prefix_def)
next
  case False
  with uploadDir_prefix [OF assms, of "FormatInt k @ ''.chunk''"]
  have "\<not> prefix (uploadDir i @ ''/'') (chunk_path j k)" by (auto simp: chunk_path_def)
  moreover have "chunk_path j k \<noteq> uploadDir i"
  proof
    assume "chunk_path j k = uploadDir i"
    then have "CHR ''/'' \<in> set i" by (auto simp: chunk_path_def uploadDir_def dest: arg_cong [of _ _ set])
    with assms(1) show False ..
  qed
  ultimately show ?thesis using False by simp
qed

lemma file_at_remove_upload_blob [simp]: "file_at (remove_all (uploadDir i) d) (blob_path j) = file_at d (blob_path j)"
  by simp

section \<open>Chunks and sessions\<close>

lemma sessionForDevice_row:
  assumes "sessionForDevice s u d i = Inr session"
  obtains r where "r \<in> set (upload_sessions s)" "us_id r = i" "us_user_id r = u" "us_device_id r = d"
    "S_Status session = us_status r" "S_ExpiresAt session = us_expires_at r" "S_ChunkCount session = us_chunk_count r"
    "chunkSize session = us_chunk_size r" "S_BlobID session = us_blob_id r"
    "S_FileVersionID session = us_file_version_id r" "targetNodeID session = us_target_node_id r"
    "expectedRevision session = us_expected_revision r"
proof -
  from assms obtain r where r: "find (\<lambda>r. us_id r = i \<and> us_user_id r = u \<and> us_device_id r = d) (upload_sessions s) = Some r"
    by (auto simp: sessionForDevice_def split: option.split_asm)
  with find_SomeD [OF r] assms show ?thesis by (intro that [of r]) (auto simp: sessionForDevice_def)
qed

text \<open>A stored chunk: the session is open, the chunk was not there, and it is now.\<close>

lemma PutChunk_cases:
  assumes "PutChunk U H now sv u d i no c = (sv', r)"
  obtains "sv' = sv"
  | session row where "sessionForDevice (sv_db sv) u d i = Inr session" "S_Status session = ''OPEN''"
      "now < S_ExpiresAt session" "0 \<le> no" "no < S_ChunkCount session" "int (length c) \<le> chunkSize session"
      "chunk_row (sv_db sv) i no = None" "r = Inr ()"
      "row = \<lparr>uc_upload_id = i, uc_chunk_no = no, uc_ciphertext_size = int (length c),
        uc_ciphertext_sha256 = H c, uc_temp_rel_path = chunk_path i no, uc_received_at = now\<rparr>"
      "sv' = sv\<lparr>sv_db := (sv_db sv)\<lparr>upload_chunks := upload_chunks (sv_db sv) @ [row]\<rparr>,
        sv_disk := writeAtomic (chunk_path i no) c (sv_disk sv)\<rparr>"
proof (cases "sv' = sv")
  case False
  let ?row = "\<lparr>uc_upload_id = i, uc_chunk_no = no, uc_ciphertext_size = int (length c),
        uc_ciphertext_sha256 = H c, uc_temp_rel_path = chunk_path i no, uc_received_at = now\<rparr>"
  from assms False obtain session where s: "sessionForDevice (sv_db sv) u d i = Inr session" "S_Status session = ''OPEN''"
      "now < S_ExpiresAt session" "0 \<le> no" "no < S_ChunkCount session" "int (length c) \<le> chunkSize session"
      and none: "chunk_row (sv_db sv) i no = None"
    by (auto simp: PutChunk_def split: if_split_asm sum.split_asm option.split_asm)
  have new: "insertChunk (sv_db sv) ?row = (sv_db sv)\<lparr>upload_chunks := upload_chunks (sv_db sv) @ [?row]\<rparr>"
    using none by (simp add: insertChunk_def)
  moreover have "chunk_row (insertChunk (sv_db sv) ?row) i no = Some ?row"
    unfolding new using none by (simp add: chunk_row_def find_append)
  ultimately have "sv' = sv\<lparr>sv_db := (sv_db sv)\<lparr>upload_chunks := upload_chunks (sv_db sv) @ [?row]\<rparr>,
        sv_disk := writeAtomic (chunk_path i no) c (sv_disk sv)\<rparr>" "r = Inr ()"
    using assms False s none by (simp_all add: PutChunk_def Let_def split: if_split_asm)
  with that(2) [OF s none] show ?thesis by blast
qed (use that(1) in blast)

lemma chunk_row_None: "chunk_row s i no = None \<longleftrightarrow> (\<forall>c\<in>set (upload_chunks s). \<not> (uc_upload_id c = i \<and> uc_chunk_no c = no))"
  by (auto simp: chunk_row_def find_None_iff)

text \<open>Stored chunks depend on the files of their upload only.\<close>

lemma chunk_stored_cong:
  assumes "chunk_stored H d r c" "file_at d' (uc_temp_rel_path c) = file_at d (uc_temp_rel_path c)"
  shows "chunk_stored H d' r c"
  using assms(1) unfolding chunk_stored_def assms(2) .

section \<open>Sessions and chunks keep the invariant\<close>

lemma blobs_stored_cong:
  assumes "blobs_stored H sv" "blobs (sv_db sv') = blobs (sv_db sv)"
    "\<And>i. i \<in> b_id ` set (blobs (sv_db sv)) \<Longrightarrow> file_at (sv_disk sv') (blob_path i) = file_at (sv_disk sv) (blob_path i)"
  shows "blobs_stored H sv'"
  using assms(1) assms(3) unfolding blobs_stored_def assms(2) by (metis imageI)

lemma chunks_ok_cong:
  assumes "chunks_ok H sv" "upload_chunks (sv_db sv') = upload_chunks (sv_db sv)"
    "us_id ` set (upload_sessions (sv_db sv)) \<subseteq> us_id ` set (upload_sessions (sv_db sv'))"
    "\<And>r c. r \<in> set (upload_sessions (sv_db sv')) \<Longrightarrow> reserved r \<Longrightarrow> c \<in> set (upload_chunks (sv_db sv)) \<Longrightarrow>
      uc_upload_id c = us_id r \<Longrightarrow> r \<in> set (upload_sessions (sv_db sv)) \<and>
      file_at (sv_disk sv') (uc_temp_rel_path c) = file_at (sv_disk sv) (uc_temp_rel_path c)"
  shows "chunks_ok H sv'"
proof -
  have "chunk_stored H (sv_disk sv') r c"
    if "r \<in> set (upload_sessions (sv_db sv'))" "reserved r" "c \<in> set (upload_chunks (sv_db sv))" "uc_upload_id c = us_id r" for r c
    using assms(1) assms(4) [OF that] that(2-4) chunk_stored_cong unfolding chunks_ok_def by blast
  then show ?thesis using assms(1,3) unfolding chunks_ok_def assms(2) by blast
qed

text \<open>A change of files outside the blobs of the database and the chunks of open sessions.\<close>

lemma storage_inv_disk:
  assumes inv: "storage_inv H sv" and d: "disk_ok d"
    and blobs: "\<And>i. i \<in> b_id ` set (blobs (sv_db sv)) \<Longrightarrow> file_at d (blob_path i) = file_at (sv_disk sv) (blob_path i)"
    and chunks: "\<And>r k. r \<in> set (upload_sessions (sv_db sv)) \<Longrightarrow> reserved r \<Longrightarrow> 0 \<le> k \<Longrightarrow>
      file_at d (chunk_path (us_id r) k) = file_at (sv_disk sv) (chunk_path (us_id r) k)"
  shows "storage_inv H (sv\<lparr>sv_disk := d\<rparr>)"
proof -
  note S = storage_invD [OF inv]
  have "blobs_stored H (sv\<lparr>sv_disk := d\<rparr>)"
    by (rule blobs_stored_cong [OF S(2)]) (simp_all add: blobs)
  moreover have "chunks_ok H (sv\<lparr>sv_disk := d\<rparr>)"
  proof (rule chunks_ok_cong [OF S(6)])
    fix r c assume r: "r \<in> set (upload_sessions (sv_db (sv\<lparr>sv_disk := d\<rparr>)))" "reserved r"
      "c \<in> set (upload_chunks (sv_db sv))" "uc_upload_id c = us_id r"
    then have "chunk_stored H (sv_disk sv) r c" using S(6) by (simp add: chunks_ok_def)
    then have "uc_temp_rel_path c = chunk_path (us_id r) (uc_chunk_no c)" "0 \<le> uc_chunk_no c"
      by (simp_all add: chunk_stored_def)
    with chunks [of r "uc_chunk_no c"] r show "r \<in> set (upload_sessions (sv_db sv)) \<and>
        file_at (sv_disk (sv\<lparr>sv_disk := d\<rparr>)) (uc_temp_rel_path c) = file_at (sv_disk sv) (uc_temp_rel_path c)" by simp
  qed simp_all
  ultimately show ?thesis using S d by (simp add: storage_inv_def)
qed

lemma session_slash: "storage_inv H sv \<Longrightarrow> r \<in> set (upload_sessions (sv_db sv)) \<Longrightarrow> CHR ''/'' \<notin> set (us_id r)"
  by (simp add: storage_inv_def sessions_ok_def session_ok_def)

lemma CreateUpload_storage:
  assumes inv: "storage_inv H sv" and U: "uuid_laws U" "ValidUUID U newID"
    and c: "CreateUpload_tx U svc now newID (sv_db sv) inp = Inr (session, s')"
  shows "storage_inv H (sv\<lparr>sv_db := s'\<rparr>)"
proof -
  note S = storage_invD [OF inv]
  from c obtain row where s': "s' = (sv_db sv)\<lparr>upload_sessions := upload_sessions (sv_db sv) @ [row]\<rparr>"
    and free: "\<not> id_in_use (sv_db sv) (us_blob_id row) (us_file_version_id row)"
    and new: "\<forall>r\<in>set (upload_sessions (sv_db sv)). us_id r \<noteq> us_id row" and id: "us_id row = newID"
    and bounds: "1 \<le> us_chunk_count row" "us_chunk_count row \<le> maxChunkCount" "1 \<le> us_chunk_size row"
      "us_chunk_size row \<le> MaxChunkCiphertextSize"
    by (auto simp: CreateUpload_tx_def not_less not_le split: if_split_asm)
  have ok: "session_ok row" using U bounds by (simp add: session_ok_def id uuid_laws_def)
  have "sessions_ok s'"
    using S(5) free new ok by (auto simp: s' sessions_ok_def id_in_use_def reserved_def)
  moreover have "chunks_ok H (sv\<lparr>sv_db := s'\<rparr>)"
  proof (rule chunks_ok_cong [OF S(6)])
    fix r c assume "r \<in> set (upload_sessions (sv_db (sv\<lparr>sv_db := s'\<rparr>)))" "c \<in> set (upload_chunks (sv_db sv))" "uc_upload_id c = us_id r"
    moreover from this(2) S(6) have "uc_upload_id c \<in> us_id ` set (upload_sessions (sv_db sv))" by (simp add: chunks_ok_def)
    ultimately show "r \<in> set (upload_sessions (sv_db sv)) \<and>
        file_at (sv_disk (sv\<lparr>sv_db := s'\<rparr>)) (uc_temp_rel_path c) = file_at (sv_disk sv) (uc_temp_rel_path c)"
      using new by (auto simp: s')
  qed (auto simp: s')
  moreover have "blobs_stored H (sv\<lparr>sv_db := s'\<rparr>)" by (rule blobs_stored_cong [OF S(2)]) (simp_all add: s')
  ultimately show ?thesis using S by (simp add: storage_inv_def versions_ok_def current_ok_def s')
qed

lemma PutChunk_storage:
  assumes inv: "storage_inv H sv" and c: "PutChunk U H now sv u d i no c = (sv', r)"
  shows "storage_inv H sv'"
  using c
proof (cases rule: PutChunk_cases)
  case 1
  with inv show ?thesis by simp
next
  case (2 session row)
  note S = storage_invD [OF inv]
  from 2(1) obtain ses where ses: "ses \<in> set (upload_sessions (sv_db sv))" "us_id ses = i"
    "S_ChunkCount session = us_chunk_count ses" "chunkSize session = us_chunk_size ses" by (rule sessionForDevice_row)
  have slash: "CHR ''/'' \<notin> set i" using session_slash [OF inv ses(1)] ses(2) by simp
  let ?d = "writeAtomic (chunk_path i no) c (sv_disk sv)"
  have none: "\<forall>c\<in>set (upload_chunks (sv_db sv)). \<not> (uc_upload_id c = i \<and> uc_chunk_no c = no)"
    using 2(7) by (simp add: chunk_row_None)
  have files: "file_at ?d (chunk_path j k) = file_at (sv_disk sv) (chunk_path j k)"
    if "CHR ''/'' \<notin> set j" "0 \<le> k" "\<not> (j = i \<and> k = no)" for j k
    using chunk_path_eq [OF slash that(1) 2(4) that(2)] new_not_chunk [of i no j k] that(3)
    by (auto simp: file_at_writeAtomic)
  have one: "ses' = ses" if "ses' \<in> set (upload_sessions (sv_db sv))" "us_id ses' = i" for ses'
    using distinct_map_eq [OF S(7) that(1) ses(1)] that(2) ses(2) by simp
  have "chunk_stored H ?d r c'"
    if r: "r \<in> set (upload_sessions (sv_db sv))" "reserved r" and c': "c' \<in> set (upload_chunks (sv_db sv)) \<or> c' = row"
      and id: "uc_upload_id c' = us_id r" for r c'
  proof (cases "c' = row")
    case True
    then have "r = ses" using id one [OF r(1)] by (simp add: 2(9))
    with True ses 2(4-6) show ?thesis by (simp add: chunk_stored_def 2(9) file_at_writeAtomic)
  next
    case False
    with c' r id S(6) have old: "chunk_stored H (sv_disk sv) r c'" "c' \<in> set (upload_chunks (sv_db sv))"
      by (auto simp: chunks_ok_def)
    then have path: "uc_temp_rel_path c' = chunk_path (us_id r) (uc_chunk_no c')" "0 \<le> uc_chunk_no c'"
      by (simp_all add: chunk_stored_def)
    have "\<not> (us_id r = i \<and> uc_chunk_no c' = no)" using none old(2) id by auto
    then show ?thesis
      by (intro chunk_stored_cong [OF old(1)]) (simp add: path files [OF session_slash [OF inv r(1)] path(2)])
  qed
  then have "chunks_ok H sv'"
    using S(6) none ses(1,2) unfolding chunks_ok_def by (auto simp: 2(9,10) image_iff)
  moreover have "blobs_stored H sv'"
    by (rule blobs_stored_cong [OF S(2)]) (simp_all add: 2(10) file_at_writeAtomic new_not_blob [symmetric])
  ultimately show ?thesis
    using S by (simp add: storage_inv_def versions_ok_def current_ok_def sessions_ok_def 2(10))
qed

text \<open>Closing a session: its reservation ends and its files may go.\<close>

lemma close_session:
  assumes inv: "storage_inv H sv" and f: "\<And>r. us_id (f r) = us_id r \<and> \<not> reserved (f r) \<and> session_ok r = session_ok (f r)"
    and i: "CHR ''/'' \<notin> set i"
  shows "storage_inv H (sv\<lparr>sv_db := (sv_db sv)\<lparr>upload_sessions := upd (\<lambda>r. us_id r = i) f (upload_sessions (sv_db sv))\<rparr>,
    sv_disk := remove_all (uploadDir i) (sv_disk sv)\<rparr>)" (is "storage_inv H ?sv")
proof -
  note S = storage_invD [OF inv]
  have ids: "map us_id (upload_sessions (sv_db ?sv)) = map us_id (upload_sessions (sv_db sv))"
    using f by (simp add: map_upd)
  then have idset: "us_id ` set (upload_sessions (sv_db ?sv)) = us_id ` set (upload_sessions (sv_db sv))"
    by (metis list.set_map)
  have kept: "r \<in> set (upload_sessions (sv_db sv)) \<and> us_id r \<noteq> i" if "r \<in> set (upload_sessions (sv_db ?sv))" "reserved r" for r
    using that f by (auto simp: set_upd split: if_split_asm)
  have same: "blobs (sv_db ?sv) = blobs (sv_db sv)" "file_versions (sv_db ?sv) = file_versions (sv_db sv)" by simp_all
  have "sessions_ok (sv_db ?sv)"
  proof (rule sessions_okI)
    show "distinct (map us_id (upload_sessions (sv_db ?sv)))" unfolding ids by (rule S(7))
    fix r assume r: "r \<in> set (upload_sessions (sv_db ?sv))"
    then obtain r0 where "r0 \<in> set (upload_sessions (sv_db sv))" "r = r0 \<or> r = f r0"
      by (auto simp: set_upd split: if_split_asm)
    with sessions_okD(1) [OF S(5)] f show "session_ok r" by metis
    assume res: "reserved r"
    note old = kept [OF r res, THEN conjunct1]
    show "us_blob_id r \<notin> b_id ` set (blobs (sv_db ?sv)) \<and> us_file_version_id r \<notin> f_id ` set (file_versions (sv_db ?sv))"
      unfolding same using sessions_okD(2,3) [OF S(5) old res] by blast
    fix r' assume r': "r' \<in> set (upload_sessions (sv_db ?sv))" "reserved r'"
      and eq: "us_blob_id r = us_blob_id r' \<or> us_file_version_id r = us_file_version_id r'"
    from eq sessions_okD(4,5) [OF S(5) old kept [OF r', THEN conjunct1] res r'(2)] show "r = r'" by blast
  qed
  moreover have "chunks_ok H ?sv"
  proof (rule chunks_ok_cong [OF S(6)])
    fix r c assume r: "r \<in> set (upload_sessions (sv_db ?sv))" "reserved r" "c \<in> set (upload_chunks (sv_db sv))" "uc_upload_id c = us_id r"
    from kept [OF r(1,2)] have old: "r \<in> set (upload_sessions (sv_db sv))" "us_id r \<noteq> i" by simp_all
    with r S(6) have "uc_temp_rel_path c = chunk_path (us_id r) (uc_chunk_no c)" by (simp add: chunks_ok_def chunk_stored_def)
    with old file_at_remove_upload [OF i session_slash [OF inv old(1)]]
    show "r \<in> set (upload_sessions (sv_db sv)) \<and> file_at (sv_disk ?sv) (uc_temp_rel_path c) = file_at (sv_disk sv) (uc_temp_rel_path c)"
      by auto
  qed (use idset in auto)
  moreover have "blobs_stored H ?sv" by (rule blobs_stored_cong [OF S(2)]) simp_all
  ultimately show ?thesis using S by (simp add: storage_inv_def versions_ok_def current_ok_def)
qed

lemma AbortUpload_storage:
  assumes inv: "storage_inv H sv" and U: "uuid_laws U"
  shows "storage_inv H (fst (AbortUpload U sv u d i))"
proof (cases "fst (AbortUpload U sv u d i) = sv")
  case False
  then have "ValidUUID U i" and eq: "fst (AbortUpload U sv u d i) = sv\<lparr>sv_db := (sv_db sv)\<lparr>upload_sessions :=
        upd (\<lambda>r. us_id r = i) (\<lambda>r. r\<lparr>us_status := ''ABORTED''\<rparr>) (upload_sessions (sv_db sv))\<rparr>,
      sv_disk := remove_all (uploadDir i) (sv_disk sv)\<rparr>"
    by (auto simp: AbortUpload_def split: if_split_asm sum.split_asm)
  with U show ?thesis unfolding eq by (intro close_session [OF inv]) (simp_all add: reserved_def session_ok_def uuid_laws_def)
qed (simp add: inv)

section \<open>Completion\<close>

lemma replayCompletion_None:
  "replayCompletion U s inp = Inr None \<longleftrightarrow> (\<forall>r\<in>set (processed_operations s). o_operation_id r \<noteq> co_OperationID inp)"
proof -
  have no: "map_sum id Some x \<noteq> Inr None" for x :: "err + CompleteResult" by (cases x) auto
  show ?thesis
  proof (cases "find (\<lambda>r. o_operation_id r = co_OperationID inp) (processed_operations s)")
    case None
    then have "\<forall>r\<in>set (processed_operations s). o_operation_id r \<noteq> co_OperationID inp" by (auto simp: find_None_iff)
    with None show ?thesis by (simp add: replayCompletion_def)
  next
    case (Some r)
    with find_SomeD [OF Some] no show ?thesis by (auto simp: replayCompletion_def)
  qed
qed

text \<open>The checks before the disk is touched.\<close>

lemma complete_prepared:
  assumes "complete_prepare U svc now s up inp = Inr (Assemble session expected chunks sz)"
  shows "ValidUUID U up" "sessionForDevice s (co_UserID inp) (co_DeviceID inp) up = Inr session"
    "S_Status session = ''OPEN''" "now < S_ExpiresAt session"
    "\<forall>r\<in>set (processed_operations s). o_operation_id r \<noteq> co_OperationID inp"
    "loadChunks s up (S_ChunkCount session) = Inr (chunks, sz)" "sz \<le> up_maxCiphertextSize svc"
proof -
  have case_rep: "(case x of None \<Rightarrow> y | Some r \<Rightarrow> Inr (Answered r)) = Inr (Assemble a b c d) \<longleftrightarrow>
      x = None \<and> y = Inr (Assemble a b c d)" for x and y :: "err + prepared" and a b c d
    by (cases x) auto
  have sum: "map_sum id Answered x \<noteq> Inr (Assemble a b c d)" for x :: "err + CompleteResult" and a b c d
    by (cases x) auto
  from assms have all: "ValidUUID U up \<and> sessionForDevice s (co_UserID inp) (co_DeviceID inp) up = Inr session \<and>
    S_Status session = ''OPEN'' \<and> now < S_ExpiresAt session \<and> replayCompletion U s inp = Inr None \<and>
    loadChunks s up (S_ChunkCount session) = Inr (chunks, sz) \<and> sz \<le> up_maxCiphertextSize svc"
    by (auto simp: complete_prepare_def case_rep sum split: if_split_asm)
  then show "ValidUUID U up" "sessionForDevice s (co_UserID inp) (co_DeviceID inp) up = Inr session"
    "S_Status session = ''OPEN''" "now < S_ExpiresAt session"
    "loadChunks s up (S_ChunkCount session) = Inr (chunks, sz)" "sz \<le> up_maxCiphertextSize svc" by blast+
  from all show "\<forall>r\<in>set (processed_operations s). o_operation_id r \<noteq> co_OperationID inp"
    unfolding replayCompletion_None by blast
qed

text \<open>Assembling touches the blob's file only, and on success that file holds the chunks one after the
  other, every one with its recorded digest.\<close>

definition chunk_contents :: "disk \<Rightarrow> ciphertextChunk list \<Rightarrow> bytes" where
  "chunk_contents d chunks = concat (map (\<lambda>c. case file_at d (relativePath c) of None \<Rightarrow> [] | Some x \<Rightarrow> x) chunks)"

lemma assemble_loop_spec:
  assumes "\<forall>c\<in>set chunks. relativePath c \<noteq> dest" "assemble_loop H dest chunks w d = (d', r)"
    "file_at d dest = Some w" "disk_ok d"
  shows "disk_ok d'" "\<And>q. q \<noteq> dest \<Longrightarrow> file_at d' q = file_at d q"
    "r = Inr x \<Longrightarrow> x = w @ chunk_contents d chunks \<and> file_at d' dest = Some x \<and>
       (\<forall>c\<in>set chunks. \<exists>y. file_at d (relativePath c) = Some y \<and> H y = digest c)"
    "r = Inl e \<Longrightarrow> file_at d' dest = None"
proof -
  have "disk_ok d' \<and> (\<forall>q. q \<noteq> dest \<longrightarrow> file_at d' q = file_at d q) \<and>
    (\<forall>x. r = Inr x \<longrightarrow> x = w @ chunk_contents d chunks \<and> file_at d' dest = Some x \<and>
       (\<forall>c\<in>set chunks. \<exists>y. file_at d (relativePath c) = Some y \<and> H y = digest c)) \<and>
    (\<forall>e. r = Inl e \<longrightarrow> file_at d' dest = None)"
    using assms
  proof (induction chunks arbitrary: w d)
    case (Cons c cs)
    show ?case
    proof (cases "file_at d (relativePath c)")
      case None
      with Cons.prems show ?thesis by (auto simp: disk_ok_remove)
    next
      case (Some y)
      let ?d = "write_file dest (w @ y) d"
      show ?thesis
      proof (cases "H y = digest c")
        case False
        with Some Cons.prems show ?thesis by (auto simp: Let_def)
      next
        case True
        with Some Cons.prems(2) have rest: "assemble_loop H dest cs (w @ y) ?d = (d', r)" by (simp add: Let_def)
        have same: "chunk_contents ?d cs = chunk_contents d cs"
          unfolding chunk_contents_def using Cons.prems(1) by (intro arg_cong [of _ _ concat] map_cong) auto
        have files: "file_at ?d (relativePath c') = file_at d (relativePath c')" if "c' \<in> set cs" for c'
          using Cons.prems(1) that by simp
        from Cons.IH [OF _ rest] Cons.prems(1,4) have IH: "disk_ok d'" "\<forall>q. q \<noteq> dest \<longrightarrow> file_at d' q = file_at ?d q"
          "\<forall>x. r = Inr x \<longrightarrow> x = (w @ y) @ chunk_contents ?d cs \<and> file_at d' dest = Some x \<and>
             (\<forall>c\<in>set cs. \<exists>y. file_at ?d (relativePath c) = Some y \<and> H y = digest c)"
          "\<forall>e. r = Inl e \<longrightarrow> file_at d' dest = None" by simp_all
        have cons: "chunk_contents d (c # cs) = y @ chunk_contents d cs" by (simp add: chunk_contents_def Some)
        from IH Some True show ?thesis unfolding same cons using files by auto
      qed
    qed
  qed (auto simp: chunk_contents_def)
  then show "disk_ok d'" "\<And>q. q \<noteq> dest \<Longrightarrow> file_at d' q = file_at d q"
    "r = Inr x \<Longrightarrow> x = w @ chunk_contents d chunks \<and> file_at d' dest = Some x \<and>
       (\<forall>c\<in>set chunks. \<exists>y. file_at d (relativePath c) = Some y \<and> H y = digest c)"
    "r = Inl e \<Longrightarrow> file_at d' dest = None" by blast+
qed

lemma createBlobFile_Inr:
  assumes "createBlobFile s b p d = Inr d'" "disk_ok d"
  shows "disk_ok d'" "file_at d' p = Some []" "\<And>q. q \<noteq> p \<Longrightarrow> file_at d' q = file_at d q"
    "file_at d p = None \<or> b \<notin> b_id ` set (blobs s)"
  using assms by (auto simp: createBlobFile_def split: if_split_asm)

lemma loadChunks_paths_loop:
  "loadChunks_loop up n cs (ps, t) = Inr (ps', t') \<Longrightarrow> \<forall>p\<in>set ps. relativePath p = [] \<or> (\<exists>k. relativePath p = chunk_path up k) \<Longrightarrow>
   \<forall>p\<in>set ps'. relativePath p = [] \<or> (\<exists>k. relativePath p = chunk_path up k)"
proof (induction cs arbitrary: ps t)
  case (Cons c cs)
  let ?ps = "ps[nat (uc_chunk_no c) := \<lparr>relativePath = uc_temp_rel_path c, digest = uc_ciphertext_sha256 c\<rparr>]"
  from Cons.prems(1) have path: "uc_temp_rel_path c = chunk_path up (uc_chunk_no c)" by (simp split: if_split_asm)
  from Cons.prems(1) have rest: "loadChunks_loop up n cs (?ps, int64 (t + uc_ciphertext_size c)) = Inr (ps', t')"
    by (simp add: path split: if_split_asm)
  have "\<forall>p\<in>set ?ps. relativePath p = [] \<or> (\<exists>k. relativePath p = chunk_path up k)"
    using Cons.prems(2) path by (auto dest!: set_update_subset_insert [THEN subsetD])
  from Cons.IH [OF rest this] show ?case .
qed simp

lemma loadChunks_paths:
  assumes "loadChunks s up n = Inr (chunks, sz)"
  shows "\<forall>c\<in>set chunks. \<exists>k. relativePath c = chunk_path up k"
proof -
  from assms have loop: "loadChunks_loop up n (filter (\<lambda>c. uc_upload_id c = up) (upload_chunks s))
      (replicate (nat n) \<lparr>relativePath = [], digest = []\<rparr>, 0) = Inr (chunks, sz)"
    and full: "\<not> (\<exists>p\<in>set chunks. relativePath p = [])"
    by (auto simp: loadChunks_def split: if_split_asm)
  from loadChunks_paths_loop [OF loop] full show ?thesis by auto
qed

text \<open>A successful assembly: the blob's file is the concatenation of the chunks, nothing else changed.\<close>

lemma assembleCiphertext_ok:
  assumes "assembleCiphertext H s b (blob_path b) chunks d = (d', Inr dig)" "disk_ok d"
    "\<forall>c\<in>set chunks. \<exists>k. relativePath c = chunk_path up k"
  shows "disk_ok d'" "\<And>q. q \<noteq> blob_path b \<Longrightarrow> file_at d' q = file_at d q"
    "file_at d' (blob_path b) = Some (chunk_contents d chunks)" "dig = H (chunk_contents d chunks)"
    "\<forall>c\<in>set chunks. \<exists>y. file_at d (relativePath c) = Some y \<and> H y = digest c"
proof -
  from assms(1) obtain d1 where d1: "createBlobFile s b (blob_path b) d = Inr d1"
    by (auto simp: assembleCiphertext_def split: sum.split_asm)
  obtain d2 r where res: "assemble_loop H (blob_path b) chunks [] d1 = (d2, r)" by fastforce
  with assms(1) d1 have r: "d2 = d'" "map_sum id H r = Inr dig" by (simp_all add: assembleCiphertext_def)
  from r(2) obtain w where "r = Inr w" and dig: "dig = H w" by (cases r) auto
  with res r(1) have loop: "assemble_loop H (blob_path b) chunks [] d1 = (d', Inr w)" by simp
  note C = createBlobFile_Inr [OF d1 assms(2)]
  have away: "\<forall>c\<in>set chunks. relativePath c \<noteq> blob_path b" using assms(3) by fastforce
  note L = assemble_loop_spec [OF away loop C(2,1)]
  have same: "chunk_contents d1 chunks = chunk_contents d chunks"
    unfolding chunk_contents_def using away C(3) by (intro arg_cong [of _ _ concat] map_cong) auto
  show "disk_ok d'" by (rule L(1))
  show "file_at d' q = file_at d q" if "q \<noteq> blob_path b" for q using L(2) [OF that] C(3) [OF that] by simp
  show "file_at d' (blob_path b) = Some (chunk_contents d chunks)" "dig = H (chunk_contents d chunks)"
    using L(3) [OF refl] by (simp_all add: dig same)
  show "\<forall>c\<in>set chunks. \<exists>y. file_at d (relativePath c) = Some y \<and> H y = digest c"
    using L(3) [OF refl] away C(3) by auto
qed

lemma assembleCiphertext_frame:
  assumes "assembleCiphertext H s b (blob_path b) chunks d = (d', r)" "disk_ok d"
    "\<forall>c\<in>set chunks. \<exists>k. relativePath c = chunk_path up k"
  shows "disk_ok d'" "q \<noteq> blob_path b \<Longrightarrow> file_at d' q = file_at d q"
proof -
  have away: "\<forall>c\<in>set chunks. relativePath c \<noteq> blob_path b" using assms(3) by fastforce
  have "disk_ok d' \<and> (\<forall>q. q \<noteq> blob_path b \<longrightarrow> file_at d' q = file_at d q)"
  proof (cases "createBlobFile s b (blob_path b) d")
    case (Inl e)
    with assms show ?thesis by (simp add: assembleCiphertext_def)
  next
    case (Inr d1)
    note C = createBlobFile_Inr [OF Inr assms(2)]
    obtain r' where loop: "assemble_loop H (blob_path b) chunks [] d1 = (d', r')"
      using assms(1) Inr by (cases "assemble_loop H (blob_path b) chunks [] d1") (simp add: assembleCiphertext_def)
    note L = assemble_loop_spec(1,2) [OF away loop C(2,1)]
    then show ?thesis using C(3) by simp
  qed
  then show "disk_ok d'" "q \<noteq> blob_path b \<Longrightarrow> file_at d' q = file_at d q" by blast+
qed

section \<open>What is assembled\<close>

definition chunk_entry :: "upload_chunk_row \<Rightarrow> ciphertextChunk" where
  "chunk_entry c = \<lparr>relativePath = uc_temp_rel_path c, digest = uc_ciphertext_sha256 c\<rparr>"

lemma loadChunks_loop_Cons:
  "loadChunks_loop up n (c # cs) (ps, t) = Inr x \<longleftrightarrow> 0 \<le> uc_chunk_no c \<and> uc_chunk_no c < n \<and>
     uc_temp_rel_path c = chunk_path up (uc_chunk_no c) \<and>
     loadChunks_loop up n cs (ps[nat (uc_chunk_no c) := chunk_entry c], int64 (t + uc_ciphertext_size c)) = Inr x"
  by (simp add: chunk_entry_def not_less not_le)

lemma loadChunks_loop_spec:
  assumes "loadChunks_loop up n cs (ps, t) = Inr (ps', t')" "length ps = nat n" "distinct (map uc_chunk_no cs)"
  shows "length ps' = nat n" "\<And>c. c \<in> set cs \<Longrightarrow> 0 \<le> uc_chunk_no c \<and> uc_chunk_no c < n \<and> ps' ! nat (uc_chunk_no c) = chunk_entry c"
    "\<And>k. k < nat n \<Longrightarrow> int k \<notin> uc_chunk_no ` set cs \<Longrightarrow> ps' ! k = ps ! k"
proof -
  have "length ps' = nat n \<and> (\<forall>c\<in>set cs. 0 \<le> uc_chunk_no c \<and> uc_chunk_no c < n \<and> ps' ! nat (uc_chunk_no c) = chunk_entry c) \<and>
    (\<forall>k<nat n. int k \<notin> uc_chunk_no ` set cs \<longrightarrow> ps' ! k = ps ! k)"
    using assms
  proof (induction cs arbitrary: ps t)
    case (Cons c cs)
    let ?ps = "ps[nat (uc_chunk_no c) := chunk_entry c]"
    note C = Cons.prems(1) [unfolded loadChunks_loop_Cons]
    then have no: "0 \<le> uc_chunk_no c" "uc_chunk_no c < n" by blast+
    from C have "loadChunks_loop up n cs (?ps, int64 (t + uc_ciphertext_size c)) = Inr (ps', t')" by blast
    from Cons.IH [OF this] Cons.prems(2,3) have IH: "length ps' = nat n"
      "\<forall>c\<in>set cs. 0 \<le> uc_chunk_no c \<and> uc_chunk_no c < n \<and> ps' ! nat (uc_chunk_no c) = chunk_entry c"
      "\<forall>k<nat n. int k \<notin> uc_chunk_no ` set cs \<longrightarrow> ps' ! k = ?ps ! k" by simp_all
    have "ps' ! nat (uc_chunk_no c) = chunk_entry c"
      using IH(3) [rule_format, of "nat (uc_chunk_no c)"] no Cons.prems(2,3) by simp
    moreover have "ps' ! k = ps ! k" if "k < nat n" "int k \<notin> uc_chunk_no ` set (c # cs)" for k
    proof -
      from that(2) have "k \<noteq> nat (uc_chunk_no c)" using no by auto
      with IH(3) that show ?thesis by simp
    qed
    ultimately show ?case using IH(1,2) no by simp
  qed simp
  then show "length ps' = nat n" "\<And>c. c \<in> set cs \<Longrightarrow> 0 \<le> uc_chunk_no c \<and> uc_chunk_no c < n \<and> ps' ! nat (uc_chunk_no c) = chunk_entry c"
    "\<And>k. k < nat n \<Longrightarrow> int k \<notin> uc_chunk_no ` set cs \<Longrightarrow> ps' ! k = ps ! k" by blast+
qed

lemma loadChunks_loop_sum:
  assumes "loadChunks_loop up n cs (ps, t) = Inr (ps', t')" "0 \<le> t" "\<forall>c\<in>set cs. 0 \<le> uc_ciphertext_size c \<and> uc_ciphertext_size c \<le> M"
    "t + int (length cs) * M < 2 ^ 63" "0 \<le> M"
  shows "t' = t + sum_list (map uc_ciphertext_size cs)"
  using assms(1-4)
proof (induction cs arbitrary: ps t)
  case (Cons c cs)
  let ?t = "t + uc_ciphertext_size c"
  have le: "?t + int (length cs) * M \<le> t + int (length (c # cs)) * M"
    using Cons.prems(3) by (simp add: distrib_right)
  have pos: "0 \<le> int (length cs) * M" using assms(5) by simp
  have "0 \<le> ?t" using Cons.prems(2,3) by simp
  then have "int64 ?t = ?t" using le pos Cons.prems(4) by (intro int64_id) linarith+
  with Cons.prems(1) obtain ps1 where "loadChunks_loop up n cs (ps1, ?t) = Inr (ps', t')" by (auto split: if_split_asm)
  from Cons.IH [OF this \<open>0 \<le> ?t\<close>] Cons.prems(3,4) le show ?case by simp
qed simp

lemma upload_chunk_nos:
  assumes "chunks_ok H sv"
  shows "distinct (map uc_chunk_no (filter (\<lambda>c. uc_upload_id c = up) (upload_chunks (sv_db sv))))"
proof -
  have "distinct (map uc_chunk_no (filter (\<lambda>c. uc_upload_id c = up) cs))"
    if "distinct (map (\<lambda>c. (uc_upload_id c, uc_chunk_no c)) cs)" for cs
    using that by (induction cs) (auto simp: image_iff)
  with assms show ?thesis unfolding chunks_ok_def by blast
qed

text \<open>The loaded chunks of an open session: all of them, in order, with the size they add up to.\<close>

lemma loadChunks_spec:
  assumes inv: "storage_inv H sv" and r: "r \<in> set (upload_sessions (sv_db sv))" "reserved r" "us_id r = up"
    and load: "loadChunks (sv_db sv) up (us_chunk_count r) = Inr (chunks, sz)"
  shows "length chunks = nat (us_chunk_count r)"
    and "\<And>k. k < nat (us_chunk_count r) \<Longrightarrow> \<exists>c\<in>set (upload_chunks (sv_db sv)). uc_upload_id c = up \<and>
      uc_chunk_no c = int k \<and> chunks ! k = chunk_entry c"
    and "sz = int (length (chunk_contents (sv_disk sv) chunks))"
proof -
  note S = storage_invD [OF inv]
  let ?cs = "filter (\<lambda>c. uc_upload_id c = up) (upload_chunks (sv_db sv))"
  let ?n = "us_chunk_count r"
  note nos = upload_chunk_nos [OF S(6), of up]
  have ok: "session_ok r" by (rule sessions_okD(1) [OF S(5) r(1)])
  from load have loop: "loadChunks_loop up ?n ?cs (replicate (nat ?n) \<lparr>relativePath = [], digest = []\<rparr>, 0) = Inr (chunks, sz)"
    and full: "\<not> (\<exists>p\<in>set chunks. relativePath p = [])" by (auto simp: loadChunks_def split: if_split_asm)
  note L = loadChunks_loop_spec [OF loop _ nos]
  from L(1) show len: "length chunks = nat ?n" by simp
  have row: "\<exists>c\<in>set ?cs. uc_chunk_no c = int k" if "k < nat ?n" for k
  proof (rule ccontr)
    assume "\<not> ?thesis"
    then have "int k \<notin> uc_chunk_no ` set ?cs" by (auto simp: image_iff)
    with L(3) [OF _ that] that have "relativePath (chunks ! k) = []" by simp
    moreover have "chunks ! k \<in> set chunks" using that len by simp
    ultimately show False using full by blast
  qed
  then show each: "\<exists>c\<in>set (upload_chunks (sv_db sv)). uc_upload_id c = up \<and> uc_chunk_no c = int k \<and> chunks ! k = chunk_entry c"
    if "k < nat ?n" for k
  proof -
    from row [OF that] obtain c where c: "c \<in> set ?cs" "uc_chunk_no c = int k" by blast
    from L(2) [OF _ c(1)] c show ?thesis by auto
  qed
  have stored: "chunk_stored H (sv_disk sv) r c" if "c \<in> set ?cs" for c
    using S(6) r that by (simp add: chunks_ok_def)
  then have sizes: "\<forall>c\<in>set ?cs. 0 \<le> uc_ciphertext_size c \<and> uc_ciphertext_size c \<le> MaxChunkCiphertextSize"
    using ok by (fastforce simp: chunk_stored_def session_ok_def)
  have set_nos: "uc_chunk_no ` set ?cs = {0..<?n}"
  proof
    show "uc_chunk_no ` set ?cs \<subseteq> {0..<?n}" using stored by (auto simp: chunk_stored_def)
    show "{0..<?n} \<subseteq> uc_chunk_no ` set ?cs"
    proof
      fix k assume "k \<in> {0..<?n}"
      with row [of "nat k"] show "k \<in> uc_chunk_no ` set ?cs" by auto
    qed
  qed
  have "length ?cs = card (uc_chunk_no ` set ?cs)"
    using distinct_card [OF nos] by simp
  then have "int (length ?cs) \<le> maxChunkCount" using ok unfolding set_nos by (simp add: session_ok_def)
  then have "int (length ?cs) * MaxChunkCiphertextSize < 2 ^ 63"
    by (simp add: maxChunkCount_def MaxChunkCiphertextSize_def)
  then have sz: "sz = sum_list (map uc_ciphertext_size ?cs)"
    using loadChunks_loop_sum [OF loop _ sizes] by (simp add: MaxChunkCiphertextSize_def)
  let ?g = "\<lambda>c. case file_at (sv_disk sv) (relativePath c) of None \<Rightarrow> [] | Some x \<Rightarrow> x"
  have entry: "int (length (?g (chunk_entry c))) = uc_ciphertext_size c" if "c \<in> set ?cs" for c
    using stored [OF that] by (auto simp: chunk_stored_def chunk_entry_def)
  have inj: "inj_on uc_chunk_no (set ?cs)" using nos by (simp add: distinct_map)
  have "sum_list (map uc_ciphertext_size ?cs) = (\<Sum>c\<in>set ?cs. uc_ciphertext_size c)"
    using nos by (simp add: sum_list_distinct_conv_sum_set distinct_map)
  also have "\<dots> = (\<Sum>c\<in>set ?cs. int (length (?g (chunks ! nat (uc_chunk_no c)))))"
    using entry L(2) by (intro sum.cong) auto
  also have "\<dots> = (\<Sum>k\<in>uc_chunk_no ` set ?cs. int (length (?g (chunks ! nat k))))"
    by (subst sum.reindex [OF inj]) (simp add: comp_def)
  also have "\<dots> = (\<Sum>k\<in>{0..<?n}. int (length (?g (chunks ! nat k))))" unfolding set_nos ..
  also have "\<dots> = (\<Sum>k\<in>{0..<nat ?n}. int (length (?g (chunks ! k))))"
  proof (rule sum.reindex_bij_witness [of _ int nat])
  qed auto
  also have "\<dots> = int (length (chunk_contents (sv_disk sv) chunks))"
    by (simp add: chunk_contents_def length_concat sum_list_sum_nth len)
  finally show "sz = int (length (chunk_contents (sv_disk sv) chunks))" using sz by simp
qed

end
