(* ===== verification/HB_Uploads_Complete.thy ===== *)
theory HB_Uploads_Complete
  imports HB_Uploads_Inv
begin

text \<open>
  Completing an upload: the shape of its commit, the invariants it keeps, and every phase of
  \<open>CompleteUpload\<close> together.
\<close>

section \<open>The commit\<close>

definition completed_row :: "time \<Rightarrow> db \<Rightarrow> CompleteInput \<Rightarrow> dbSession \<Rightarrow> id \<Rightarrow> node_row \<Rightarrow> node_row" where
  "completed_row now s inp session owner m = m\<lparr>n_current_version_id := Some (S_FileVersionID session),
     n_metadata_ciphertext := metadataCiphertext session, n_metadata_key_version := metadataKeyVersion session,
     n_metadata_key_scope_id := StoredScope (co_KeyScopeID inp) owner,
     n_revision := sync_seq s + 1, n_updated_at := now\<rparr>"

definition upload_result :: "db \<Rightarrow> dbSession \<Rightarrow> CompleteResult" where
  "upload_result s session = \<lparr>cr_BlobID = S_BlobID session, cr_FileVersionID = S_FileVersionID session,
     cr_Revision = sync_seq s + 1\<rparr>"

definition upload_change :: "time \<Rightarrow> db \<Rightarrow> CompleteInput \<Rightarrow> dbSession \<Rightarrow> id \<Rightarrow> change_row" where
  "upload_change now s inp session owner = \<lparr>c_revision = sync_seq s + 1, c_user_scope_id = owner,
     c_node_id = targetNodeID session, c_operation = ''UPDATE'', c_payload = co_SyncPayloadCiphertext inp,
     c_created_at = now\<rparr>"

definition upload_operation :: "time \<Rightarrow> db \<Rightarrow> CompleteInput \<Rightarrow> dbSession \<Rightarrow> operation_row" where
  "upload_operation now s inp session = \<lparr>o_operation_id = co_OperationID inp, o_user_id = co_UserID inp,
     o_device_id = co_DeviceID inp, o_operation_type = ''UPLOAD_COMPLETE'',
     o_result_payload = encodeResult (upload_result s session), o_created_at = now,
     o_expires_at = now + operation_ttl\<rparr>"

definition new_blob :: "time \<Rightarrow> dbSession \<Rightarrow> int \<Rightarrow> string \<Rightarrow> blob_row" where
  "new_blob now session sz dig = \<lparr>b_id = S_BlobID session, b_ciphertext_size = sz,
     b_storage_rel_path = blob_path (S_BlobID session), b_ciphertext_sha256 = dig,
     b_chunk_count = S_ChunkCount session, b_created_at = now\<rparr>"

definition new_version :: "time \<Rightarrow> db \<Rightarrow> CompleteInput \<Rightarrow> dbSession \<Rightarrow> file_version_row" where
  "new_version now s inp session = \<lparr>f_id = S_FileVersionID session, f_node_id = targetNodeID session,
     f_blob_id = S_BlobID session, f_e2ee_header = e2eeHeader session, f_wrapped_file_key = wrappedFileKey session,
     f_key_scope_id = co_KeyScopeID inp, f_key_version = co_KeyVersion inp, f_created_at = now,
     f_created_by_device_id = co_DeviceID inp, f_revision = sync_seq s + 1\<rparr>"

definition complete_session :: "time \<Rightarrow> upload_session_row \<Rightarrow> upload_session_row" where
  "complete_session now r = r\<lparr>us_status := ''COMPLETED'', us_completed_at := Some now\<rparr>"

definition upload_commit ::
  "time \<Rightarrow> db \<Rightarrow> id \<Rightarrow> CompleteInput \<Rightarrow> dbSession \<Rightarrow> id \<Rightarrow> int \<Rightarrow> string \<Rightarrow> db" where
  "upload_commit now s up inp session owner sz dig =
     (commits s (upd (\<lambda>m. n_id m = targetNodeID session) (completed_row now s inp session owner) (nodes s))
        (upload_change now s inp session owner) (upload_operation now s inp session))
      \<lparr>blobs := blobs s @ [new_blob now session sz dig],
       file_versions := file_versions s @ [new_version now s inp session],
       upload_sessions := upd (\<lambda>r. us_id r = up) (complete_session now) (upload_sessions s)\<rparr>"

lemma completion_case:
  "(case x of None \<Rightarrow> y | Some r \<Rightarrow> Inr (CompletionReplayed r)) = Inr (Completed res s') \<longleftrightarrow>
   x = None \<and> y = Inr (Completed res s')"
  by (cases x) auto

lemma option_case_Inl: "(case x of None \<Rightarrow> Inl e | Some r \<Rightarrow> f r) = Inr y \<longleftrightarrow> (\<exists>r. x = Some r \<and> f r = Inr y)"
  by (cases x) auto

lemma complete_tx_fresh:
  assumes "\<forall>r\<in>set (processed_operations s). o_operation_id r \<noteq> co_OperationID inp"
  shows "complete_tx U now s up inp session expected sz dig \<noteq> Inr (CompletionReplayed r)"
proof -
  from assms have "replayCompletion U s inp = Inr None" by (simp add: replayCompletion_None)
  then show ?thesis by (simp add: complete_tx_def option_case_Inl Let_def)
qed

lemma insertBlob_Inr [simp]: "insertBlob s b = Inr s' \<longleftrightarrow>
  (\<forall>x\<in>set (blobs s). b_id x \<noteq> b_id b \<and> b_storage_rel_path x \<noteq> b_storage_rel_path b) \<and> s' = s\<lparr>blobs := blobs s @ [b]\<rparr>"
  by (auto simp: insertBlob_def)

lemma insertVersion_Inr [simp]: "insertVersion s f = Inr s' \<longleftrightarrow>
  (\<forall>x\<in>set (file_versions s). f_id x \<noteq> f_id f) \<and> s' = s\<lparr>file_versions := file_versions s @ [f]\<rparr>"
  by (auto simp: insertVersion_def)

lemma upd_cong: "(\<And>x. x \<in> set xs \<Longrightarrow> p x = q x) \<Longrightarrow> upd p f xs = upd q f xs"
  by (simp add: upd_def)

lemma complete_tx_raw:
  assumes "complete_tx U now s up inp session expected sz dig = Inr (Completed res s')"
  obtains row n root where
    "find (\<lambda>r. us_id r = up) (upload_sessions s) = Some row" "us_status row = ''OPEN''"
    "live_file s (targetNodeID session) = Some n" "n_revision n = expected"
    "authorizeFileWrite s (co_UserID inp) (n_owner_id n) (targetNodeID session) = Inr root"
    "ValidateKeyScope U s (n_owner_id n) (co_UserID inp) root (co_KeyScopeID inp) (co_KeyVersion inp) = Inr ()"
    "ValidateKeyScope U s (n_owner_id n) (co_UserID inp) root (co_KeyScopeID inp) (metadataKeyVersion session) = Inr ()"
    "\<forall>x\<in>set (blobs s). b_id x \<noteq> S_BlobID session \<and> b_storage_rel_path x \<noteq> blob_path (S_BlobID session)"
    "\<forall>x\<in>set (file_versions s). f_id x \<noteq> S_FileVersionID session"
    "\<forall>r\<in>set (processed_operations s). o_operation_id r \<noteq> co_OperationID inp"
    "res = upload_result s session"
    "s' = (commits s (upd (\<lambda>m. n_id m = targetNodeID session \<and> n_revision m = expected)
          (completed_row now s inp session (n_owner_id n)) (nodes s))
        (upload_change now s inp session (n_owner_id n)) (upload_operation now s inp session))
      \<lparr>blobs := blobs s @ [new_blob now session sz dig],
       file_versions := file_versions s @ [new_version now s inp session],
       upload_sessions := upd (\<lambda>r. us_id r = up) (complete_session now) (upload_sessions s)\<rparr>"
  using assms
  apply (clarsimp simp: complete_tx_def completion_case option_case_Inl Let_def replayCompletion_None cong del: if_weak_cong)
  apply (rule that)
  apply (assumption | rule refl | simp add: commits_def upload_result_def upload_change_def upload_operation_def
      new_blob_def new_version_def completed_row_def [abs_def] complete_session_def [abs_def])+
  done

lemma live_fileD:
  assumes "distinct (map n_id (nodes s))" "live_file s i = Some n"
  shows "node_of s i = Some n" "n_node_type n = ''FILE''" "n_deleted_at n = None" "n \<in> set (nodes s)" "n_id n = i"
  using find_SomeD [OF assms(2) [unfolded live_file_def]] by (auto simp: node_of_iff [OF assms(1)])

lemma complete_tx_done:
  assumes d: "distinct (map n_id (nodes s))"
    and c: "complete_tx U now s up inp session expected sz dig = Inr (Completed res s')"
  obtains row n root where
    "row \<in> set (upload_sessions s)" "us_id row = up" "us_status row = ''OPEN''"
    "live_file s (targetNodeID session) = Some n" "n_revision n = expected"
    "authorizeFileWrite s (co_UserID inp) (n_owner_id n) (targetNodeID session) = Inr root"
    "ValidateKeyScope U s (n_owner_id n) (co_UserID inp) root (co_KeyScopeID inp) (co_KeyVersion inp) = Inr ()"
    "S_BlobID session \<notin> b_id ` set (blobs s)" "S_FileVersionID session \<notin> f_id ` set (file_versions s)"
    "\<forall>r\<in>set (processed_operations s). o_operation_id r \<noteq> co_OperationID inp"
    "res = upload_result s session" "s' = upload_commit now s up inp session (n_owner_id n) sz dig"
proof -
  from c obtain row n root where row: "find (\<lambda>r. us_id r = up) (upload_sessions s) = Some row" "us_status row = ''OPEN''"
    and n: "live_file s (targetNodeID session) = Some n" "n_revision n = expected"
    and root: "authorizeFileWrite s (co_UserID inp) (n_owner_id n) (targetNodeID session) = Inr root"
      "ValidateKeyScope U s (n_owner_id n) (co_UserID inp) root (co_KeyScopeID inp) (co_KeyVersion inp) = Inr ()"
    and blob: "\<forall>x\<in>set (blobs s). b_id x \<noteq> S_BlobID session \<and> b_storage_rel_path x \<noteq> blob_path (S_BlobID session)"
    and version: "\<forall>x\<in>set (file_versions s). f_id x \<noteq> S_FileVersionID session"
    and op: "\<forall>r\<in>set (processed_operations s). o_operation_id r \<noteq> co_OperationID inp"
    and res: "res = upload_result s session"
    and s': "s' = (commits s (upd (\<lambda>m. n_id m = targetNodeID session \<and> n_revision m = expected)
          (completed_row now s inp session (n_owner_id n)) (nodes s))
        (upload_change now s inp session (n_owner_id n)) (upload_operation now s inp session))
      \<lparr>blobs := blobs s @ [new_blob now session sz dig],
       file_versions := file_versions s @ [new_version now s inp session],
       upload_sessions := upd (\<lambda>r. us_id r = up) (complete_session now) (upload_sessions s)\<rparr>"
    by (rule complete_tx_raw)
  have "n_revision m = expected" if "m \<in> set (nodes s)" "n_id m = targetNodeID session" for m
  proof -
    have "m = n" by (rule distinct_map_eq [OF d that(1) live_fileD(4) [OF d n(1)]]) (simp add: that live_fileD(5) [OF d n(1)])
    with n(2) show ?thesis by simp
  qed
  then have eq: "upd (\<lambda>m. n_id m = targetNodeID session \<and> n_revision m = expected) f (nodes s) =
      upd (\<lambda>m. n_id m = targetNodeID session) f (nodes s)" for f
    by (intro upd_cong) blast
  have "s' = upload_commit now s up inp session (n_owner_id n) sz dig"
    unfolding s' upload_commit_def eq ..
  note s'_eq = this
  have "S_BlobID session \<notin> b_id ` set (blobs s)" using blob by auto
  moreover have "S_FileVersionID session \<notin> f_id ` set (file_versions s)" using version by auto
  ultimately show ?thesis
    using that [OF conjunct1 [OF find_key_set [OF row(1)]] conjunct2 [OF find_key_set [OF row(1)]] row(2) n root _ _ op res s'_eq]
    by iprover
qed

lemma upload_commit_simps [simp]:
  "nodes (upload_commit now s up inp session owner sz dig) =
     upd (\<lambda>m. n_id m = targetNodeID session) (completed_row now s inp session owner) (nodes s)"
  "sync_changes (upload_commit now s up inp session owner sz dig) = sync_changes s @ [upload_change now s inp session owner]"
  "sync_seq (upload_commit now s up inp session owner sz dig) = sync_seq s + 1"
  "processed_operations (upload_commit now s up inp session owner sz dig) =
     processed_operations s @ [upload_operation now s inp session]"
  "blobs (upload_commit now s up inp session owner sz dig) = blobs s @ [new_blob now session sz dig]"
  "file_versions (upload_commit now s up inp session owner sz dig) = file_versions s @ [new_version now s inp session]"
  "upload_sessions (upload_commit now s up inp session owner sz dig) =
     upd (\<lambda>r. us_id r = up) (complete_session now) (upload_sessions s)"
  "upload_chunks (upload_commit now s up inp session owner sz dig) = upload_chunks s"
  "shares (upload_commit now s up inp session owner sz dig) = shares s"
  "folder_keys (upload_commit now s up inp session owner sz dig) = folder_keys s"
  "users (upload_commit now s up inp session owner sz dig) = users s"
  "devices (upload_commit now s up inp session owner sz dig) = devices s"
  by (simp_all add: upload_commit_def commits_def)

lemma completed_row_simps [simp]:
  "n_id (completed_row now s inp session owner m) = n_id m"
  "n_owner_id (completed_row now s inp session owner m) = n_owner_id m"
  "n_parent_id (completed_row now s inp session owner m) = n_parent_id m"
  "n_node_type (completed_row now s inp session owner m) = n_node_type m"
  "n_revision (completed_row now s inp session owner m) = sync_seq s + 1"
  "n_deleted_at (completed_row now s inp session owner m) = n_deleted_at m"
  "n_current_version_id (completed_row now s inp session owner m) = Some (S_FileVersionID session)"
  by (simp_all add: completed_row_def)

lemma complete_tx_vault:
  assumes inv: "vault_inv s" and c: "complete_tx U now s up inp session expected sz dig = Inr (Completed res s')"
  shows "vault_inv s'"
  using vault_invD(8) [OF inv] c
proof (rule complete_tx_done)
  fix n assume n: "live_file s (targetNodeID session) = Some n" and s': "s' = upload_commit now s up inp session (n_owner_id n) sz dig"
  let ?s = "commits s (upd (\<lambda>m. n_id m = targetNodeID session) (completed_row now s inp session (n_owner_id n)) (nodes s))
    (upload_change now s inp session (n_owner_id n)) (upload_operation now s inp session)"
  have "vault_inv ?s"
    by (rule commits_keep_inv [OF inv live_fileD(1) [OF vault_invD(8) [OF inv] n]])
      (simp_all add: stamps_def upload_change_def)
  moreover have "vault_inv s' = vault_inv ?s" unfolding s' by (rule vault_inv_cong) simp_all
  ultimately show ?thesis by simp
qed

lemma upload_commit_open:
  "r \<in> set (upload_sessions (upload_commit now s up inp session owner sz dig)) \<Longrightarrow> reserved r \<Longrightarrow>
   r \<in> set (upload_sessions s) \<and> us_id r \<noteq> up"
  by (auto simp: set_upd reserved_def complete_session_def split: if_split_asm)

text \<open>The commit keeps the storage invariant when the blob's file holds what the row will say.\<close>

lemma complete_tx_storage:
  assumes inv: "storage_inv H sv" and d: "distinct (map n_id (nodes (sv_db sv)))"
    and c: "complete_tx U now (sv_db sv) up inp session expected sz dig = Inr (Completed res s')"
    and content: "file_at (sv_disk sv) (blob_path (S_BlobID session)) = Some x" "int (length x) = sz" "H x = dig"
    and ses: "r0 \<in> set (upload_sessions (sv_db sv))" "us_id r0 = up" "us_blob_id r0 = S_BlobID session"
      "us_file_version_id r0 = S_FileVersionID session"
  shows "storage_inv H (sv\<lparr>sv_db := s'\<rparr>)"
  using d c
proof (rule complete_tx_done)
  fix row n assume row: "row \<in> set (upload_sessions (sv_db sv))" "us_id row = up" "us_status row = ''OPEN''"
    and n: "live_file (sv_db sv) (targetNodeID session) = Some n"
    and new: "S_BlobID session \<notin> b_id ` set (blobs (sv_db sv))" "S_FileVersionID session \<notin> f_id ` set (file_versions (sv_db sv))"
    and s': "s' = upload_commit now (sv_db sv) up inp session (n_owner_id n) sz dig"
  note S = storage_invD [OF inv]
  have r0: "row = r0" by (rule distinct_map_eq [OF S(7) row(1) ses(1)]) (simp add: row(2) ses(2))
  have kept: "r \<in> set (upload_sessions (sv_db sv)) \<and> us_id r \<noteq> up" if "r \<in> set (upload_sessions s')" "reserved r" for r
    using that upload_commit_open unfolding s' by blast
  have ids: "map us_id (upload_sessions s') = map us_id (upload_sessions (sv_db sv))"
    by (simp add: s' map_upd complete_session_def)
  have "blobs_stored H (sv\<lparr>sv_db := s'\<rparr>)"
    using S(2) new(1) content by (auto simp: blobs_stored_def s' new_blob_def)
  moreover have "versions_ok s'"
  proof -
    have nodes: "n_id ` set (nodes s') = n_id ` set (nodes (sv_db sv))" by (simp add: s' image_upd)
    have "targetNodeID session \<in> n_id ` set (nodes (sv_db sv))" using live_fileD(4,5) [OF d n] by force
    with S(3) new show ?thesis unfolding versions_ok_def nodes by (auto simp: s' new_version_def new_blob_def)
  qed
  moreover have "current_ok s'"
    using S(4) by (fastforce simp: current_ok_def s' new_version_def set_upd split: if_split_asm)
  moreover have "sessions_ok s'"
  proof (rule sessions_okI)
    show "distinct (map us_id (upload_sessions s'))" unfolding ids by (rule S(7))
    fix r assume r: "r \<in> set (upload_sessions s')"
    then obtain r1 where "r1 \<in> set (upload_sessions (sv_db sv))" "r = r1 \<or> r = complete_session now r1"
      by (auto simp: s' set_upd split: if_split_asm)
    with sessions_okD(1) [OF S(5)] show "session_ok r" by (auto simp: session_ok_def complete_session_def)
    assume res: "reserved r"
    from kept [OF r res] have old: "r \<in> set (upload_sessions (sv_db sv))" "us_id r \<noteq> up" by simp_all
    have "reserved r0" using row(3) by (simp add: reserved_def flip: r0)
    then have "us_blob_id r \<noteq> S_BlobID session" "us_file_version_id r \<noteq> S_FileVersionID session"
      using sessions_okD(4,5) [OF S(5) old(1) ses(1) res] old(2) ses(2-4) by auto
    then show "us_blob_id r \<notin> b_id ` set (blobs s') \<and> us_file_version_id r \<notin> f_id ` set (file_versions s')"
      using sessions_okD(2,3) [OF S(5) old(1) res] by (simp add: s' new_blob_def new_version_def)
    fix r' assume r': "r' \<in> set (upload_sessions s')" "reserved r'"
      and eq: "us_blob_id r = us_blob_id r' \<or> us_file_version_id r = us_file_version_id r'"
    from eq sessions_okD(4,5) [OF S(5) old(1) kept [OF r', THEN conjunct1] res r'(2)] show "r = r'" by blast
  qed
  moreover have "chunks_ok H (sv\<lparr>sv_db := s'\<rparr>)"
  proof (rule chunks_ok_cong [OF S(6)])
    show "us_id ` set (upload_sessions (sv_db sv)) \<subseteq> us_id ` set (upload_sessions (sv_db (sv\<lparr>sv_db := s'\<rparr>)))"
      by (simp add: s' image_upd complete_session_def)
  qed (use kept in \<open>auto simp: s'\<close>)
  ultimately show ?thesis using S(1) by (simp add: storage_inv_def)
qed

section \<open>The phases together\<close>

lemma session_of_prepared:
  assumes inv: "storage_inv H sv" and p: "complete_prepare U svc now (sv_db sv) up inp = Inr (Assemble session expected chunks sz)"
  obtains r where "r \<in> set (upload_sessions (sv_db sv))" "us_id r = up" "reserved r" "us_blob_id r = S_BlobID session"
    "us_file_version_id r = S_FileVersionID session" "us_chunk_count r = S_ChunkCount session"
    "us_target_node_id r = targetNodeID session"
proof -
  from complete_prepared(2) [OF p] obtain r where "r \<in> set (upload_sessions (sv_db sv))" "us_id r = up"
    "S_Status session = us_status r" "S_BlobID session = us_blob_id r" "S_FileVersionID session = us_file_version_id r"
    "S_ChunkCount session = us_chunk_count r" "targetNodeID session = us_target_node_id r" by (rule sessionForDevice_row)
  with complete_prepared(3) [OF p] that [of r] show ?thesis by (simp add: reserved_def)
qed

text \<open>The disk after assembling, whatever the outcome, and after removing the blob's file again.\<close>

lemma assemble_blobs:
  assumes inv: "storage_inv H sv" and p: "complete_prepare U svc now (sv_db sv) up inp = Inr (Assemble session expected chunks sz)"
    and a: "assembleCiphertext H (sv_db sv) (S_BlobID session) (blob_path (S_BlobID session)) chunks (sv_disk sv) = (d, x)"
    and i: "i \<in> b_id ` set (blobs (sv_db sv))"
  shows "i \<noteq> S_BlobID session" "file_at d (blob_path i) = file_at (sv_disk sv) (blob_path i)"
proof -
  note S = storage_invD [OF inv]
  obtain r where r: "r \<in> set (upload_sessions (sv_db sv))" "us_id r = up" "reserved r" "us_blob_id r = S_BlobID session"
    by (rule session_of_prepared [OF inv p]) (rule that)
  show "i \<noteq> S_BlobID session" using sessions_okD(2) [OF S(5) r(1,3)] i unfolding r(4) by blast
  then show "file_at d (blob_path i) = file_at (sv_disk sv) (blob_path i)"
    by (intro assembleCiphertext_frame(2) [OF a S(1) loadChunks_paths [OF complete_prepared(6) [OF p]]]) simp
qed

lemma assemble_storage:
  assumes inv: "storage_inv H sv" and p: "complete_prepare U svc now (sv_db sv) up inp = Inr (Assemble session expected chunks sz)"
    and a: "assembleCiphertext H (sv_db sv) (S_BlobID session) (blob_path (S_BlobID session)) chunks (sv_disk sv) = (d, x)"
  shows "storage_inv H (sv\<lparr>sv_disk := d\<rparr>)" and "storage_inv H (sv\<lparr>sv_disk := remove_file (blob_path (S_BlobID session)) d\<rparr>)"
proof -
  note F = assembleCiphertext_frame [OF a storage_invD(1) [OF inv] loadChunks_paths [OF complete_prepared(6) [OF p]]]
  have chunk: "file_at d (chunk_path j k) = file_at (sv_disk sv) (chunk_path j k)" for j k
    by (rule F(2)) simp
  note blob = assemble_blobs [OF inv p a]
  show "storage_inv H (sv\<lparr>sv_disk := d\<rparr>)"
    by (rule storage_inv_disk [OF inv F(1)]) (simp_all add: chunk blob)
  show "storage_inv H (sv\<lparr>sv_disk := remove_file (blob_path (S_BlobID session)) d\<rparr>)"
    by (rule storage_inv_disk [OF inv disk_ok_remove [OF F(1)]]) (simp_all add: chunk blob)
qed

definition server_inv :: "(bytes \<Rightarrow> string) \<Rightarrow> server \<Rightarrow> bool" where
  "server_inv H sv \<longleftrightarrow> vault_inv (sv_db sv) \<and> storage_inv H sv"

text \<open>The whole of \<open>CompleteUpload\<close>, by its outcome.\<close>

lemma prepared_Answered:
  assumes "complete_prepare U svc now s up inp = Inr (Answered r)"
  shows "\<exists>session. sessionForDevice s (co_UserID inp) (co_DeviceID inp) up = Inr session \<and>
    (S_Status session = ''COMPLETED'' \<and> completedResult s (S_FileVersionID session) = Inr r \<or>
     replayCompletion U s inp = Inr (Some r))"
proof -
  have answered: "map_sum id Answered x = Inr (Answered r) \<longleftrightarrow> x = Inr r" for x :: "err + CompleteResult"
    by (cases x) auto
  have replay: "(case x of None \<Rightarrow> y | Some r' \<Rightarrow> Inr (Answered r')) = Inr (Answered r) \<longleftrightarrow>
      x = Some r \<or> x = None \<and> y = Inr (Answered r)" for x and y :: "err + prepared"
    by (cases x) auto
  from assms show ?thesis
    by (auto simp: complete_prepare_def answered replay split: if_split_asm)
qed

lemma CompleteUpload_cases:
  assumes inv: "server_inv H sv" and c: "CompleteUpload U H svc now sv up inp = (sv', res)"
  obtains (same) "sv' = sv" "(\<exists>e. res = Inl e) \<or>
      (\<exists>r. complete_prepare U svc now (sv_db sv) up inp = Inr (Answered r) \<and> res = Inr r)"
  | (failed) session expected chunks sz d where
      "complete_prepare U svc now (sv_db sv) up inp = Inr (Assemble session expected chunks sz)"
      "sv' = sv\<lparr>sv_disk := d\<rparr>" "storage_inv H sv'" "\<exists>e. res = Inl e"
      "\<forall>i\<in>b_id ` set (blobs (sv_db sv)). file_at d (blob_path i) = file_at (sv_disk sv) (blob_path i)"
  | (stored) session expected chunks sz d dig r s' where
      "complete_prepare U svc now (sv_db sv) up inp = Inr (Assemble session expected chunks sz)"
      "assembleCiphertext H (sv_db sv) (S_BlobID session) (blob_path (S_BlobID session)) chunks (sv_disk sv) = (d, Inr dig)"
      "complete_tx U now (sv_db sv) up inp session expected sz dig = Inr (Completed r s')"
      "sv' = sv\<lparr>sv_db := s', sv_disk := remove_all (uploadDir up) d\<rparr>" "res = Inr r"
proof -
  from inv have st: "storage_inv H sv" by (simp add: server_inv_def)
  show ?thesis
  proof (cases "complete_prepare U svc now (sv_db sv) up inp")
    case (Inl e)
    with c have "sv' = sv" "res = Inl e" by (simp_all add: CompleteUpload_def)
    with same show ?thesis by blast
  next
    case (Inr p)
    show ?thesis
    proof (cases p)
      case (Answered r)
      with Inr c same show ?thesis by (simp add: CompleteUpload_def)
    next
      case (Assemble session expected chunks sz)
      with Inr have prep: "complete_prepare U svc now (sv_db sv) up inp = Inr (Assemble session expected chunks sz)" by simp
      let ?a = "assembleCiphertext H (sv_db sv) (S_BlobID session) (blob_path (S_BlobID session)) chunks (sv_disk sv)"
      obtain d x where a: "?a = (d, x)" by fastforce
      note st' = assemble_storage [OF st prep a]
      have keep: "\<forall>i\<in>b_id ` set (blobs (sv_db sv)). file_at d (blob_path i) = file_at (sv_disk sv) (blob_path i)"
        "\<forall>i\<in>b_id ` set (blobs (sv_db sv)). file_at (remove_file (blob_path (S_BlobID session)) d) (blob_path i) =
           file_at (sv_disk sv) (blob_path i)"
        using assemble_blobs [OF st prep a] by simp_all
      show ?thesis
      proof (cases x)
        case (Inl e)
        with c prep a have "sv' = sv\<lparr>sv_disk := d\<rparr>" "res = Inl e" by (simp_all add: CompleteUpload_def Let_def)
        with failed [OF prep _ _ _ keep(1)] st'(1) show ?thesis by simp
      next
        case (Inr dig)
        let ?t = "complete_tx U now (sv_db sv) up inp session expected sz dig"
        from c prep a Inr have cl: "complete_cleanup up (blob_path (S_BlobID session)) (sv\<lparr>sv_disk := d\<rparr>) ?t = (sv', res)"
          by (simp add: CompleteUpload_def Let_def)
        show ?thesis
        proof (cases ?t)
          case (Inl e)
          with cl failed [OF prep _ _ _ keep(2)] st'(2) show ?thesis by (auto simp: complete_cleanup_def)
        next
          case (Inr y)
          show ?thesis
          proof (cases y)
            case (CompletionReplayed r)
            with Inr complete_tx_fresh [OF complete_prepared(5) [OF prep]] show ?thesis by simp
          next
            case (Completed r s')
            with Inr cl have "sv' = sv\<lparr>sv_db := s', sv_disk := remove_all (uploadDir up) d\<rparr>" "res = Inr r"
              by (auto simp: complete_cleanup_def)
            with stored [OF prep, of d dig r s'] a \<open>x = Inr dig\<close> Inr Completed show ?thesis by simp
          qed
        qed
      qed
    qed
  qed
qed

lemma CompleteUpload_inv:
  assumes inv: "server_inv H sv" and U: "uuid_laws U"
  shows "server_inv H (fst (CompleteUpload U H svc now sv up inp))"
proof -
  obtain sv' res where c: "CompleteUpload U H svc now sv up inp = (sv', res)" by fastforce
  from inv have vault: "vault_inv (sv_db sv)" and st: "storage_inv H sv" by (simp_all add: server_inv_def)
  have d: "distinct (map n_id (nodes (sv_db sv)))" by (rule vault_invD(8) [OF vault])
  from inv c have "server_inv H sv'"
  proof (cases rule: CompleteUpload_cases)
    case (failed session expected chunks sz d)
    from failed(2) vault have "vault_inv (sv_db sv')" by simp
    with failed(3) show ?thesis unfolding server_inv_def by blast
  next
    case (stored session expected chunks sz dk dig r s')
    have slash: "CHR ''/'' \<notin> set up" using complete_prepared(1) [OF stored(1)] U by (simp add: uuid_laws_def)
    obtain r0 where r0: "r0 \<in> set (upload_sessions (sv_db sv))" "us_id r0 = up" "reserved r0"
      "us_blob_id r0 = S_BlobID session" "us_file_version_id r0 = S_FileVersionID session" "us_chunk_count r0 = S_ChunkCount session"
      by (rule session_of_prepared [OF st stored(1)]) (rule that)
    let ?x = "chunk_contents (sv_disk sv) chunks"
    note A = assembleCiphertext_ok [OF stored(2) storage_invD(1) [OF st] loadChunks_paths [OF complete_prepared(6) [OF stored(1)]]]
    have sz: "sz = int (length ?x)"
      using loadChunks_spec(3) [OF st r0(1,3,2)] complete_prepared(6) [OF stored(1)] r0(6) by simp
    have st1: "storage_inv H (sv\<lparr>sv_disk := dk\<rparr>)" by (rule assemble_storage(1) [OF st stored(1,2)])
    have sel: "sv_db (sv\<lparr>sv_disk := dk\<rparr>) = sv_db sv" "sv_disk (sv\<lparr>sv_disk := dk\<rparr>) = dk" by simp_all
    note T = complete_tx_storage [OF st1, unfolded sel]
    have "storage_inv H (sv\<lparr>sv_disk := dk\<rparr>\<lparr>sv_db := s'\<rparr>)"
      by (rule T [OF d stored(3) A(3) sz [symmetric] A(4) [symmetric] r0(1,2,4,5)])
    moreover have "sv\<lparr>sv_disk := dk\<rparr>\<lparr>sv_db := s'\<rparr> = sv\<lparr>sv_db := s', sv_disk := dk\<rparr>" by (cases sv) simp
    ultimately have st2: "storage_inv H (sv\<lparr>sv_db := s', sv_disk := dk\<rparr>)" by (simp only:)
    have "storage_inv H (sv\<lparr>sv_db := s', sv_disk := dk\<rparr>\<lparr>sv_disk := remove_all (uploadDir up) dk\<rparr>)"
    proof (rule storage_inv_disk [OF st2])
      show "disk_ok (remove_all (uploadDir up) dk)" using A(1) by simp
      fix r1 k assume r1: "r1 \<in> set (upload_sessions (sv_db (sv\<lparr>sv_db := s', sv_disk := dk\<rparr>)))" "reserved r1"
      have "us_id r1 \<noteq> up"
        using d stored(3)
      proof (rule complete_tx_done)
        fix n assume s': "s' = upload_commit now (sv_db sv) up inp session (n_owner_id n) sz dig"
        from r1(1) have "r1 \<in> set (upload_sessions s')" by simp
        from upload_commit_open [OF this [unfolded s'] r1(2)] show ?thesis by (rule conjunct2)
      qed
      with file_at_remove_upload [OF slash session_slash [OF st2 r1(1)]]
      show "file_at (remove_all (uploadDir up) dk) (chunk_path (us_id r1) k) =
          file_at (sv_disk (sv\<lparr>sv_db := s', sv_disk := dk\<rparr>)) (chunk_path (us_id r1) k)" by simp
    qed simp
    with complete_tx_vault [OF vault stored(3)] show ?thesis by (simp add: server_inv_def stored(4))
  qed (use inv in simp)
  with c show ?thesis by simp
qed

section \<open>The service\<close>

datatype upload_cmd =
    CreateUploadCmd UploadInput
  | PutChunkCmd id id id int bytes
  | AbortCmd id id id
  | CompleteCmd id CompleteInput

text \<open>\<open>draw k\<close> is the UUID operation number \<open>k\<close> draws.\<close>

fun upload_exec ::
  "uuid_pkg \<Rightarrow> (bytes \<Rightarrow> string) \<Rightarrow> UploadService \<Rightarrow> (nat \<Rightarrow> id) \<Rightarrow> time \<times> nat \<times> upload_cmd \<Rightarrow> server \<Rightarrow> server \<times> (err + unit)" where
  "upload_exec U H svc draw (now, k, CreateUploadCmd inp) sv =
     map_prod id (map_sum id (\<lambda>_. ())) (CreateUpload U svc now (draw k) sv inp)"
| "upload_exec U H svc draw (now, k, PutChunkCmd u d i no c) sv = PutChunk U H now sv u d i no c"
| "upload_exec U H svc draw (now, k, AbortCmd u d i) sv = AbortUpload U sv u d i"
| "upload_exec U H svc draw (now, k, CompleteCmd i inp) sv =
     map_prod id (map_sum id (\<lambda>_. ())) (CompleteUpload U H svc now sv i inp)"

lemma PutChunk_vault:
  assumes "PutChunk U H now sv u d i no c = (sv', r)"
  shows "vault_inv (sv_db sv') = vault_inv (sv_db sv)"
  using assms by (cases rule: PutChunk_cases) (simp, simp, rule vault_inv_cong, simp_all)

lemma AbortUpload_vault: "vault_inv (sv_db (fst (AbortUpload U sv u d i))) = vault_inv (sv_db sv)"
  by (rule vault_inv_cong) (simp_all add: AbortUpload_def split: sum.split)

interpretation upload_service: service "upload_exec U H svc draw" "\<lambda>_ _. True"
  "\<lambda>sv. server_inv H sv \<and> uuid_laws U \<and> (\<forall>k. ValidUUID U (draw k))" for U H svc draw
proof
  fix sv and c :: "time \<times> nat \<times> upload_cmd"
  assume inv: "server_inv H sv \<and> uuid_laws U \<and> (\<forall>k. ValidUUID U (draw k))"
  then have v: "vault_inv (sv_db sv)" and st: "storage_inv H sv" by (simp_all add: server_inv_def)
  obtain now k cmd where c: "c = (now, k, cmd)" by (cases c)
  have "server_inv H (fst (upload_exec U H svc draw c sv))"
  proof (cases cmd)
    case (CreateUploadCmd inp)
    show ?thesis
    proof (cases "CreateUpload_tx U svc now (draw k) (sv_db sv) inp")
      case (Inl e)
      with inv show ?thesis by (simp add: c CreateUploadCmd CreateUpload_def)
    next
      case (Inr x)
      then obtain session s' where tx: "CreateUpload_tx U svc now (draw k) (sv_db sv) inp = Inr (session, s')" by (cases x) auto
      have "vault_inv s' = vault_inv (sv_db sv)"
        using tx by (intro vault_inv_cong) (auto simp: CreateUpload_tx_def split: if_split_asm)
      with v CreateUpload_storage [OF st _ _ tx] inv tx show ?thesis
        by (simp add: c CreateUploadCmd CreateUpload_def server_inv_def)
    qed
  next
    case (PutChunkCmd u d i no x)
    obtain sv' r where "PutChunk U H now sv u d i no x = (sv', r)" by fastforce
    with PutChunk_storage [OF st this] PutChunk_vault [OF this] v show ?thesis by (simp add: c PutChunkCmd server_inv_def)
  next
    case (AbortCmd u d i)
    with AbortUpload_storage [OF st] AbortUpload_vault [of U sv u d i] v inv show ?thesis by (simp add: c server_inv_def)
  next
    case (CompleteCmd i inp)
    with CompleteUpload_inv [of H sv U svc now i inp] inv show ?thesis by (simp add: c)
  qed
  with inv show "server_inv H (fst (upload_exec U H svc draw c sv)) \<and> uuid_laws U \<and> (\<forall>k. ValidUUID U (draw k))" by simp
qed

end
