(* ===== verification/HB_Maintenance.thy ===== *)
theory HB_Maintenance
  imports HB_Uploads
begin

text \<open>
  The maintenance pass (internal/maintenance/service.go): expired tokens, operations and upload sessions,
  Trash entries past their retention, old file versions, and ciphertext nothing refers to any more, in two
  passes a grace period apart. A pass is a sequence of transactions and file removals; a function that
  runs several returns the state it reached together with the error that stopped it.

  \<open>trashSubtree\<close> is the recursive query \<open>trashSubtreeCTE\<close>. The order in which a recursive query emits its
  rows is up to the database; here it is level by level, and nothing below depends on it. Where a
  statement could violate a foreign key of the schema that the statements before it have not just
  emptied, the violation is a branch (\<open>purgeSubtree\<close>: a child left below a purged folder).
\<close>

record Policy =
  OrphanBlobGrace :: int
  TrashRetention :: int
  MaxFileVersions :: int
  VersionRetention :: int

record MaintenanceResult =
  ExpiredUploads :: nat
  ExpiredAccessTokens :: nat
  ExpiredRefreshTokens :: nat
  ExpiredOperations :: nat
  ExpiredTrashItems :: nat
  PrunedFileVersions :: nat
  UnreferencedBlobs :: nat
  OrphanBlobFiles :: nat

definition NewMaintenance :: "Policy \<Rightarrow> err + Policy" where
  "NewMaintenance pol =
     (if OrphanBlobGrace pol \<le> 0 \<or> TrashRetention pol \<le> 0 \<or> MaxFileVersions pol < 1 \<or> VersionRetention pol \<le> 0
      then Inl (Internal ''maintenance policy durations and version limit must be positive'')
      else Inr pol)"

text \<open>Sequential composition of steps that may stop with an error, keeping the state reached, and a loop
  that counts the iterations that did something.\<close>

definition sbind :: "'s \<times> (err + 'a) \<Rightarrow> ('s \<Rightarrow> 'a \<Rightarrow> 's \<times> (err + 'b)) \<Rightarrow> 's \<times> (err + 'b)" where
  "sbind m f = (case m of (s, Inl e) \<Rightarrow> (s, Inl e) | (s, Inr x) \<Rightarrow> f s x)"

fun each :: "('s \<Rightarrow> 'x \<Rightarrow> 's \<times> (err + bool)) \<Rightarrow> 'x list \<Rightarrow> 's \<Rightarrow> nat \<Rightarrow> 's \<times> (err + nat)" where
  "each f [] s n = (s, Inr n)"
| "each f (x # xs) s n = sbind (f s x) (\<lambda>s' b. each f xs s' (if b then n + 1 else n))"

section \<open>Trash\<close>

definition trashSubtree :: "db \<Rightarrow> id \<Rightarrow> time \<Rightarrow> node_row list" where
  "trashSubtree s i cutoff = cte_union (\<lambda>p n. n_parent_id n = Some (n_id p) \<and> n_owner_id n = n_owner_id p) (nodes s)
     (filter (\<lambda>n. n_id n = i \<and> (case n_deleted_at n of None \<Rightarrow> False | Some t \<Rightarrow> stamp t \<le> stamp cutoff)) (nodes s))"

fun purge_changes :: "time \<Rightarrow> int \<Rightarrow> node_row list \<Rightarrow> change_row list" where
  "purge_changes now seq [] = []"
| "purge_changes now seq (n # ns) =
     \<lparr>c_revision = seq + 1, c_user_scope_id = n_owner_id n, c_node_id = n_id n, c_operation = ''PURGE'',
      c_payload = [], c_created_at = now\<rparr> # purge_changes now (seq + 1) ns"

text \<open>The statements of \<open>purgeSubtree\<close> up to the deletion of the nodes, \<open>T\<close> being the subtree's IDs.\<close>

definition folder_key_unused :: "db \<Rightarrow> id list \<Rightarrow> id \<Rightarrow> bool" where
  "folder_key_unused s T i \<longleftrightarrow>
     (\<forall>n\<in>set (nodes s). n_metadata_key_scope_id n = Some i \<longrightarrow> n_id n \<in> set T) \<and>
     (\<forall>f\<in>set (file_versions s). f_key_scope_id f = i \<longrightarrow> f_node_id f \<in> set T)"

definition purge_rows :: "time \<Rightarrow> db \<Rightarrow> node_row list \<Rightarrow> db" where
  "purge_rows now s ns =
     (let T = map n_id ns;
          shs = map sh_id (filter (\<lambda>sh. sh_node_id sh \<in> set T) (shares s));
          ups = map us_id (filter (\<lambda>r. us_target_node_id r \<in> set T) (upload_sessions s))
      in s\<lparr>sync_changes := sync_changes s @ purge_changes now (sync_seq s) ns,
           sync_seq := sync_seq s + int (length ns),
           folder_keys := del (\<lambda>k. k_folder_id k \<in> set T \<and> folder_key_unused s T (k_folder_id k)) (folder_keys s),
           share_device_envelopes := del (\<lambda>e. se_share_id e \<in> set shs) (share_device_envelopes s),
           shares := del (\<lambda>sh. sh_node_id sh \<in> set T) (shares s),
           favorites := del (\<lambda>x. fav_node_id x \<in> set T) (favorites s),
           upload_chunks := del (\<lambda>c. uc_upload_id c \<in> set ups) (upload_chunks s),
           upload_sessions := del (\<lambda>r. us_target_node_id r \<in> set T) (upload_sessions s),
           file_versions := del (\<lambda>f. f_node_id f \<in> set T) (file_versions s)\<rparr>)"

definition remove_uploads :: "id list \<Rightarrow> disk \<Rightarrow> disk" where
  "remove_uploads ids d = fold (\<lambda>i. remove_all (uploadDir i)) ids d"

definition purgeSubtree :: "uuid_pkg \<Rightarrow> time \<Rightarrow> time \<Rightarrow> server \<Rightarrow> id \<Rightarrow> server \<times> (err + bool)" where
  "purgeSubtree U now cutoff sv i =
     (let s = sv_db sv;
          ns = trashSubtree s i cutoff;
          T = map n_id ns;
          ups = map us_id (filter (\<lambda>r. us_target_node_id r \<in> set T) (upload_sessions s))
      in if \<exists>u\<in>set ups. uuid_Parse U u = None
         then (sv, Inl (Internal ''invalid upload ID in Trash subtree''))
         else let s1 = purge_rows now s ns;
                  d = remove_uploads ups (sv_disk sv)
              in if \<exists>n\<in>set (nodes s1). n_id n \<notin> set T \<and> (\<exists>p\<in>set T. n_parent_id n = Some p)
                 then (sv\<lparr>sv_disk := d\<rparr>, Inl (Internal ''FOREIGN KEY constraint failed''))
                 else (sv\<lparr>sv_db := s1\<lparr>nodes := del (\<lambda>n. n_id n \<in> set T) (nodes s1)\<rparr>, sv_disk := d\<rparr>,
                       Inr (count_rows (\<lambda>n. n_id n \<in> set T) (nodes s1) > 0)))"

definition cleanupExpiredTrash :: "uuid_pkg \<Rightarrow> Policy \<Rightarrow> time \<Rightarrow> server \<Rightarrow> server \<times> (err + nat)" where
  "cleanupExpiredTrash U pol now sv =
     (let cutoff = now - TrashRetention pol;
          ids = map n_id (sort_key (\<lambda>n. stamp (the (n_deleted_at n)))
            (filter (\<lambda>n. case n_deleted_at n of None \<Rightarrow> False | Some t \<Rightarrow> stamp t \<le> stamp cutoff) (nodes (sv_db sv))))
      in each (purgeSubtree U now cutoff) ids sv 0)"

definition PurgeTrashEntry :: "uuid_pkg \<Rightarrow> time \<Rightarrow> server \<Rightarrow> id \<Rightarrow> id \<Rightarrow> server \<times> (err + unit)" where
  "PurgeTrashEntry U now sv ownerID nodeID =
     (case node_of (sv_db sv) nodeID of
        None \<Rightarrow> (sv, Inl MaintenanceNotInTrash)
      | Some n \<Rightarrow> (case n_deleted_at n of
          None \<Rightarrow> (sv, Inl MaintenanceNotInTrash)
        | Some deletedAt \<Rightarrow>
            if n_owner_id n \<noteq> ownerID then (sv, Inl MaintenanceNotInTrash)
            else sbind (purgeSubtree U now deletedAt sv nodeID)
              (\<lambda>sv' purged. if purged then (sv', Inr ()) else (sv', Inl MaintenanceNotInTrash))))"

section \<open>Old versions\<close>

text \<open>The joined rows of \<open>pruneFileVersions\<close>: the versions that are not their file's current one.
  \<open>older_rank\<close> is \<open>ROW_NUMBER() OVER (PARTITION BY node_id ORDER BY created_at DESC, id DESC)\<close>.\<close>

definition old_versions :: "db \<Rightarrow> file_version_row list" where
  "old_versions s = concat (map (\<lambda>f. map (\<lambda>_. f)
     (filter (\<lambda>n. n_id n = f_node_id f \<and> (case n_current_version_id n of None \<Rightarrow> False | Some v \<Rightarrow> f_id f \<noteq> v)) (nodes s)))
     (file_versions s))"

definition version_key :: "file_version_row \<Rightarrow> (int \<times> nat list) \<times> id" where
  "version_key f = (stamp (f_created_at f), f_id f)"

definition older_rank :: "db \<Rightarrow> file_version_row \<Rightarrow> nat" where
  "older_rank s f = 1 + count_rows (\<lambda>g. f_node_id g = f_node_id f \<and> version_key f < version_key g) (old_versions s)"

definition prunable :: "Policy \<Rightarrow> time \<Rightarrow> db \<Rightarrow> file_version_row \<Rightarrow> bool" where
  "prunable pol now s f \<longleftrightarrow> f \<in> set (old_versions s) \<and>
     (int (older_rank s f) \<ge> MaxFileVersions pol \<or> stamp (f_created_at f) < stamp (now - VersionRetention pol))"

definition pruneFileVersions :: "Policy \<Rightarrow> time \<Rightarrow> server \<Rightarrow> server \<times> (err + nat)" where
  "pruneFileVersions pol now sv =
     (let s = sv_db sv;
          ids = map f_id (filter (prunable pol now s) (file_versions s))
      in (sv\<lparr>sv_db := s\<lparr>file_versions := del (\<lambda>f. f_id f \<in> set ids) (file_versions s)\<rparr>\<rparr>,
          Inr (count_rows (\<lambda>f. f_id f \<in> set ids) (file_versions s))))"

section \<open>Expired rows\<close>

definition deleteBefore :: "('r \<Rightarrow> time) \<Rightarrow> time \<Rightarrow> 'r list \<Rightarrow> 'r list \<times> nat" where
  "deleteBefore expires now rows =
     (del (\<lambda>r. stamp (expires r) \<le> stamp now) rows, count_rows (\<lambda>r. stamp (expires r) \<le> stamp now) rows)"

definition cleanupExpired :: "time \<Rightarrow> server \<Rightarrow> server \<times> (err + nat \<times> nat \<times> nat)" where
  "cleanupExpired now sv =
     (let s = sv_db sv;
          (access, a) = deleteBefore at_expires_at now (access_tokens s);
          (refresh, r) = deleteBefore rt_expires_at now (refresh_tokens s);
          (operations, n) = deleteBefore o_expires_at now (processed_operations s)
      in (sv\<lparr>sv_db := s\<lparr>access_tokens := access, refresh_tokens := refresh, processed_operations := operations\<rparr>\<rparr>,
          Inr (a, r, n)))"

definition upload_expired :: "time \<Rightarrow> upload_session_row \<Rightarrow> bool" where
  "upload_expired now r \<longleftrightarrow> stamp (us_expires_at r) \<le> stamp now \<and> us_status r \<noteq> ''COMPLETED''"

text \<open>The two transactions of one expired session; the chunk files are removed between them.\<close>

definition markExpired :: "time \<Rightarrow> db \<Rightarrow> id \<Rightarrow> db \<times> nat" where
  "markExpired now s i =
     (s\<lparr>upload_sessions := upd (\<lambda>r. us_id r = i \<and> upload_expired now r) (\<lambda>r. r\<lparr>us_status := ''EXPIRED''\<rparr>)
        (upload_sessions s)\<rparr>,
      count_rows (\<lambda>r. us_id r = i \<and> upload_expired now r) (upload_sessions s))"

definition dropExpired :: "db \<Rightarrow> id \<Rightarrow> db" where
  "dropExpired s i = s\<lparr>upload_chunks := del (\<lambda>c. uc_upload_id c = i) (upload_chunks s),
     upload_sessions := del (\<lambda>r. us_id r = i \<and> us_status r = ''EXPIRED'') (upload_sessions s)\<rparr>"

definition expireUpload :: "time \<Rightarrow> server \<Rightarrow> id \<Rightarrow> server \<times> (err + bool)" where
  "expireUpload now sv i =
     (let (s1, count) = markExpired now (sv_db sv) i
      in if count = 0 then (sv\<lparr>sv_db := s1\<rparr>, Inr False)
         else (sv\<lparr>sv_db := dropExpired s1 i, sv_disk := remove_all (uploadDir i) (sv_disk sv)\<rparr>, Inr True))"

definition cleanupExpiredUploads :: "uuid_pkg \<Rightarrow> time \<Rightarrow> server \<Rightarrow> server \<times> (err + nat)" where
  "cleanupExpiredUploads U now sv =
     (let ids = map us_id (filter (upload_expired now) (upload_sessions (sv_db sv)))
      in if \<exists>i\<in>set ids. uuid_Parse U i = None then (sv, Inl (Internal ''invalid upload ID in database''))
         else each (expireUpload now) ids sv 0)"

section \<open>Unreferenced blobs\<close>

definition safeBlobPath :: "uuid_pkg \<Rightarrow> string \<Rightarrow> bool" where
  "safeBlobPath U path \<longleftrightarrow> prefix ''blobs/'' path \<and> count_list path CHR ''/'' = 1 \<and> suffix ''.hbxblob'' path \<and>
     uuid_Parse U (take (length path - 14) (drop 6 path)) \<noteq> None"

definition unreferenced :: "db \<Rightarrow> id \<Rightarrow> bool" where
  "unreferenced s i \<longleftrightarrow> \<not> (\<exists>f\<in>set (file_versions s). f_blob_id f = i)"

definition mark_row :: "'k \<Rightarrow> time \<Rightarrow> ('k \<times> time) list \<Rightarrow> ('k \<times> time) list" where
  "mark_row k now rows = (if k \<in> fst ` set rows then rows else rows @ [(k, now)])"

definition markBlobs :: "time \<Rightarrow> db \<Rightarrow> db" where
  "markBlobs now s =
     (let s1 = s\<lparr>gc_blob_candidates := fold (\<lambda>b. mark_row (b_id b) now) (filter (\<lambda>b. unreferenced s (b_id b)) (blobs s))
        (gc_blob_candidates s)\<rparr>
      in s1\<lparr>gc_blob_candidates := del (\<lambda>c. fst c \<notin> b_id ` set (blobs s1) \<or> \<not> unreferenced s1 (fst c)) (gc_blob_candidates s1)\<rparr>)"

definition eligible :: "Policy \<Rightarrow> time \<Rightarrow> db \<Rightarrow> (id \<times> string) list" where
  "eligible pol now s = concat (map (\<lambda>(i, marked).
       if stamp marked \<le> stamp (now - OrphanBlobGrace pol)
       then map (\<lambda>b. (i, b_storage_rel_path b)) (filter (\<lambda>b. b_id b = i \<and> unreferenced s (b_id b)) (blobs s))
       else []) (gc_blob_candidates s))"

definition deleteBlob_tx :: "db \<Rightarrow> id \<Rightarrow> db \<times> nat" where
  "deleteBlob_tx s i =
     (s\<lparr>gc_blob_candidates := del (\<lambda>c. fst c = i) (gc_blob_candidates s),
        blobs := del (\<lambda>b. b_id b = i \<and> unreferenced s i) (blobs s)\<rparr>,
      count_rows (\<lambda>b. b_id b = i \<and> unreferenced s i) (blobs s))"

definition deleteBlob :: "server \<Rightarrow> id \<times> string \<Rightarrow> server \<times> (err + bool)" where
  "deleteBlob sv c =
     (let (s1, affected) = deleteBlob_tx (sv_db sv) (fst c)
      in if affected = 0 then (sv\<lparr>sv_db := s1\<rparr>, Inr False)
         else (sv\<lparr>sv_db := s1, sv_disk := remove_file (snd c) (sv_disk sv)\<rparr>, Inr True))"

definition collectUnreferencedBlobs :: "uuid_pkg \<Rightarrow> Policy \<Rightarrow> time \<Rightarrow> server \<Rightarrow> server \<times> (err + nat)" where
  "collectUnreferencedBlobs U pol now sv =
     (let sv1 = sv\<lparr>sv_db := markBlobs now (sv_db sv)\<rparr>;
          candidates = eligible pol now (sv_db sv1)
      in if \<exists>c\<in>set candidates. \<not> safeBlobPath U (snd c) then (sv1, Inl (Internal ''unsafe blob path in database''))
         else each deleteBlob candidates sv1 0)"

section \<open>Orphan blob files\<close>

definition path_recorded :: "db \<Rightarrow> string \<Rightarrow> bool" where
  "path_recorded s path \<longleftrightarrow> (\<exists>b\<in>set (blobs s). b_storage_rel_path b = path)"

definition markOrphan :: "uuid_pkg \<Rightarrow> time \<Rightarrow> string \<Rightarrow> db \<Rightarrow> db" where
  "markOrphan U now name s =
     (let relativePath = ''blobs/'' @ name in
      if \<not> suffix ''.hbxblob'' name \<or> \<not> safeBlobPath U relativePath then s
      else if path_recorded s relativePath
      then s\<lparr>gc_orphan_blob_files := del (\<lambda>x. fst x = relativePath) (gc_orphan_blob_files s)\<rparr>
      else s\<lparr>gc_orphan_blob_files := mark_row relativePath now (gc_orphan_blob_files s)\<rparr>)"

definition deleteOrphan :: "server \<Rightarrow> string \<Rightarrow> server \<times> (err + bool)" where
  "deleteOrphan sv path =
     (let s1 = (sv_db sv)\<lparr>gc_orphan_blob_files := del (\<lambda>x. fst x = path) (gc_orphan_blob_files (sv_db sv))\<rparr>
      in if path_recorded (sv_db sv) path then (sv\<lparr>sv_db := s1\<rparr>, Inr False)
         else (sv\<lparr>sv_db := s1, sv_disk := remove_file path (sv_disk sv)\<rparr>, Inr True))"

definition collectOrphanBlobFiles :: "uuid_pkg \<Rightarrow> Policy \<Rightarrow> time \<Rightarrow> server \<Rightarrow> server \<times> (err + nat)" where
  "collectOrphanBlobFiles U pol now sv =
     (let sv1 = sv\<lparr>sv_db := fold (markOrphan U now) (read_dir ''blobs'' (sv_disk sv)) (sv_db sv)\<rparr>;
          paths = map fst (filter (\<lambda>x. stamp (snd x) \<le> stamp (now - OrphanBlobGrace pol)) (gc_orphan_blob_files (sv_db sv1)))
      in if \<exists>p\<in>set paths. \<not> safeBlobPath U p then (sv1, Inl (Internal ''unsafe orphan blob path in database''))
         else each deleteOrphan paths sv1 0)"

section \<open>The pass\<close>

definition RunMaintenance :: "uuid_pkg \<Rightarrow> Policy \<Rightarrow> time \<Rightarrow> server \<Rightarrow> server \<times> (err + MaintenanceResult)" where
  "RunMaintenance U pol now sv =
     sbind (cleanupExpired now sv) (\<lambda>sv1 (access, refresh, operations).
     sbind (cleanupExpiredUploads U now sv1) (\<lambda>sv2 uploads.
     sbind (cleanupExpiredTrash U pol now sv2) (\<lambda>sv3 trashItems.
     sbind (pruneFileVersions pol now sv3) (\<lambda>sv4 pruned.
     sbind (collectUnreferencedBlobs U pol now sv4) (\<lambda>sv5 unreferenced.
     sbind (collectOrphanBlobFiles U pol now sv5) (\<lambda>sv6 orphanFiles.
       (sv6, Inr \<lparr>ExpiredUploads = uploads, ExpiredAccessTokens = access, ExpiredRefreshTokens = refresh,
          ExpiredOperations = operations, ExpiredTrashItems = trashItems, PrunedFileVersions = pruned,
          UnreferencedBlobs = unreferenced, OrphanBlobFiles = orphanFiles\<rparr>)))))))"

end
