(* ===== verification/HB_Demo_Store.thy ===== *)
theory HB_Demo_Store
  imports HB_Uploads_Complete HB_Maintenance HB_Demo
begin

text \<open>
  Servers for the witnesses. \<open>demo_server\<close> is Alice's vault of HB_Demo with an open session \<open>up1\<close> of two
  chunks for the file \<open>doc\<close>, on an empty disk. \<open>demo_store\<close> is the same vault with content: three versions
  of \<open>doc\<close>, the last one current, one version of \<open>old\<close> (in Trash), and a blob no version refers to.
\<close>

definition demo_hash :: "bytes \<Rightarrow> string" where
  "demo_hash x = CHR ''#'' # x"

definition demo_uploads :: UploadService where
  "demo_uploads = \<lparr>up_maxCiphertextSize = 1000, up_abandonedAfter = 100\<rparr>"

definition demo_session :: upload_session_row where
  "demo_session = \<lparr>us_id = ''up1'', us_user_id = ''alice'', us_device_id = ''a1'', us_target_node_id = ''doc'',
     us_file_version_id = ''v1'', us_blob_id = ''blob1'', us_expected_revision = Some 2, us_chunk_size = 3,
     us_chunk_count = 2, us_max_ciphertext_size = 1000, us_metadata_ciphertext = ''m3'',
     us_metadata_key_version = 1, us_wrapped_file_key = ''w'', us_e2ee_header = ''h'', us_status = ''OPEN'',
     us_created_at = 10, us_expires_at = 110, us_completed_at = None\<rparr>"

definition demo_server :: server where
  "demo_server = \<lparr>sv_db = demo\<lparr>upload_sessions := [demo_session]\<rparr>, sv_disk = []\<rparr>"

definition demo_completion :: CompleteInput where
  "demo_completion = \<lparr>co_UserID = ''alice'', co_DeviceID = ''a1'', co_OperationID = ''op7'', co_KeyScopeID = ''alice'',
     co_ExpectedRevision = None, co_KeyVersion = 1, co_SyncPayloadCiphertext = ''p''\<rparr>"

lemma demo_server_inv: "server_inv demo_hash demo_server"
proof -
  have "vault_inv (sv_db demo_server) = vault_inv demo" by (rule vault_inv_cong) (simp_all add: demo_server_def)
  moreover have "storage_inv demo_hash demo_server"
    by (simp add: storage_inv_def disk_ok_def blobs_stored_def versions_ok_def current_ok_def sessions_ok_def
        session_ok_def chunks_ok_def demo_server_def demo_session_def maxChunkCount_def MaxChunkCiphertextSize_def demo_defs)
  ultimately show ?thesis using demo_inv by (simp add: server_inv_def)
qed

section \<open>Content\<close>

definition demo_blob :: "id \<Rightarrow> bytes \<Rightarrow> blob_row" where
  "demo_blob i c = \<lparr>b_id = i, b_ciphertext_size = int (length c), b_storage_rel_path = blob_path i,
     b_ciphertext_sha256 = demo_hash c, b_chunk_count = 1, b_created_at = 6\<rparr>"

definition demo_version :: "id \<Rightarrow> id \<Rightarrow> id \<Rightarrow> time \<Rightarrow> file_version_row" where
  "demo_version i n b t = \<lparr>f_id = i, f_node_id = n, f_blob_id = b, f_e2ee_header = ''h'', f_wrapped_file_key = ''w'',
     f_key_scope_id = ''top'', f_key_version = 1, f_created_at = t, f_created_by_device_id = ''a1'', f_revision = 2\<rparr>"

definition demo_store_nodes :: "node_row list" where
  "demo_store_nodes = upd (\<lambda>n. n_id n = ''doc'') (\<lambda>n. n\<lparr>n_current_version_id := Some ''v3''\<rparr>) demo_nodes"

definition demo_store :: server where
  "demo_store = \<lparr>sv_db = demo\<lparr>nodes := demo_store_nodes,
       blobs := [demo_blob ''c1'' ''one'', demo_blob ''c2'' ''two'', demo_blob ''c3'' ''three'', demo_blob ''c4'' ''old'', demo_blob ''c5'' ''lost''],
       file_versions := [demo_version ''v1'' ''doc'' ''c1'' 1000000000, demo_version ''v2'' ''doc'' ''c2'' 2000000000,
         demo_version ''v3'' ''doc'' ''c3'' 3000000000, demo_version ''o1'' ''old'' ''c4'' 1000000000]\<rparr>,
     sv_disk = [(blob_path ''c1'', ''one''), (blob_path ''c2'', ''two''), (blob_path ''c3'', ''three''),
       (blob_path ''c4'', ''old''), (blob_path ''c5'', ''lost''), (blob_path ''c6'', ''stray'')]\<rparr>"

definition demo_policy :: Policy where
  "demo_policy = \<lparr>OrphanBlobGrace = 5000000000, TrashRetention = 10000000000, MaxFileVersions = 2, VersionRetention = 60000000000\<rparr>"

lemma demo_store_vault: "vault_inv (sv_db demo_store)"
proof -
  have forest: "forest demo_store_nodes" unfolding demo_store_nodes_def
    by (rule forest_upd_same [OF demo_forest]) simp_all
  have par: "par demo_store_nodes = par demo_nodes" unfolding demo_store_nodes_def by (rule par_upd_same) simp_all
  have "scopes_disjoint (sv_db demo_store)"
    by (rule scopes_disjoint_subset [OF vault_invD(4) [OF demo_inv]]) (simp_all add: demo_store_def par, simp_all add: demo_def)
  moreover have "shares_ok (sv_db demo_store)"
    by (auto simp: shares_ok_def one_share_def active_share_def keyed_def demo_store_def demo_store_nodes_def demo_defs)
  ultimately show ?thesis using forest
    by (auto simp: vault_inv_def feed_ok_def tracked_def keys_owned_def ids_ok_def keyed_def demo_store_def demo_store_nodes_def demo_defs)
qed

lemma demo_store_inv: "server_inv demo_hash demo_store"
proof -
  have "storage_inv demo_hash demo_store"
    by (simp add: storage_inv_def disk_ok_def blobs_stored_def versions_ok_def current_ok_def sessions_ok_def chunks_ok_def
        demo_store_def demo_store_nodes_def demo_blob_def demo_version_def file_at_def demo_defs)
  then show ?thesis using demo_store_vault by (simp add: server_inv_def)
qed

end
