(* ===== verification/HB_Uploads_Props.thy ===== *)
theory HB_Uploads_Props
  imports HB_Demo_Store "HOL-Library.Multiset"
begin

text \<open>
  Properties of resumable uploads. The witnesses use \<open>demo_server\<close> of HB_Demo_Store.
\<close>

section \<open>Stored content\<close>

text \<open>Every sequence of upload commands - sessions opened and aborted, chunks in any order, completions
  that succeed or fail - keeps the vault well formed and the storage consistent: every blob of the database
  has its file with the recorded size and digest, every version has its blob and node, the current version
  of a node is one of its versions, and no open session shares a blob or version ID with a stored one.\<close>

theorem uploads_keep_invariant:
  assumes "server_inv H sv" "uuid_laws U" "\<forall>k. ValidUUID U (draw k)"
  shows "server_inv H (run_cmds (upload_exec U H svc draw) cs sv)"
proof -
  have "run_ok (\<lambda>_ _. True) (upload_exec U H svc draw) cs sv" by (induction cs arbitrary: sv) simp_all
  with upload_service.inv_run [of H sv U draw svc cs] assms show ?thesis by blast
qed

theorem uploads_keep_invariant_witness:
  "server_inv demo_hash (run_cmds (upload_exec demo_uuid demo_hash demo_uploads (\<lambda>_. ''up2''))
     [(20, 0, PutChunkCmd ''alice'' ''a1'' ''up1'' 1 ''de''), (21, 0, AbortCmd ''alice'' ''a1'' ''up1'')] demo_server)"
  by (rule uploads_keep_invariant [OF demo_server_inv demo_uuid_laws]) simp

text \<open>A step of the service leaves stored blobs alone, rows and files.\<close>

definition keeps_blobs :: "server \<Rightarrow> server \<Rightarrow> bool" where
  "keeps_blobs sv sv' \<longleftrightarrow> (\<forall>b\<in>set (blobs (sv_db sv)). b \<in> set (blobs (sv_db sv')) \<and>
     file_at (sv_disk sv') (blob_path (b_id b)) = file_at (sv_disk sv) (blob_path (b_id b)))"

lemma keeps_blobs_refl [simp]: "keeps_blobs sv sv"
  by (simp add: keeps_blobs_def)

lemma keeps_blobs_trans: "keeps_blobs sv sv' \<Longrightarrow> keeps_blobs sv' sv'' \<Longrightarrow> keeps_blobs sv sv''"
  by (simp add: keeps_blobs_def)

lemma Complete_keeps_blobs:
  assumes inv: "server_inv H sv" and c: "CompleteUpload U H svc now sv up inp = (sv', res)"
  shows "keeps_blobs sv sv'"
  using inv c
proof (cases rule: CompleteUpload_cases)
  case (failed session expected chunks sz d)
  from failed(5) show ?thesis by (simp add: keeps_blobs_def failed(2))
next
  case (stored session expected chunks sz d dig r s')
  from inv have st: "storage_inv H sv" and v: "vault_inv (sv_db sv)" by (simp_all add: server_inv_def)
  from vault_invD(8) [OF v] stored(3) obtain owner where "s' = upload_commit now (sv_db sv) up inp session owner sz dig"
    by (rule complete_tx_done) (rule that)
  then have "set (blobs (sv_db sv)) \<subseteq> set (blobs s')" by auto
  with assemble_blobs(2) [OF st stored(1,2)] show ?thesis by (auto simp: keeps_blobs_def stored(4))
qed simp

lemma CreateUpload_blobs: "CreateUpload_tx U svc now i s inp = Inr (session, s') \<Longrightarrow> blobs s' = blobs s"
  by (auto simp: CreateUpload_tx_def split: if_split_asm)

lemma CreateUpload_keeps_blobs: "keeps_blobs sv (fst (CreateUpload U svc now i sv inp))"
proof (cases "CreateUpload_tx U svc now i (sv_db sv) inp")
  case (Inr x)
  then obtain session s' where x: "x = (session, s')" by (cases x)
  with Inr CreateUpload_blobs [of U svc now i "sv_db sv" inp session s'] show ?thesis
    by (simp add: CreateUpload_def keeps_blobs_def)
qed (simp add: CreateUpload_def)

lemma upload_exec_keeps_blobs:
  assumes inv: "server_inv H sv"
  shows "keeps_blobs sv (fst (upload_exec U H svc draw c sv))"
proof -
  obtain now k cmd where c: "c = (now, k, cmd)" by (cases c)
  show ?thesis
  proof (cases cmd)
    case (CreateUploadCmd inp)
    show ?thesis using CreateUpload_keeps_blobs by (simp add: c CreateUploadCmd)
  next
    case (PutChunkCmd u d i no x)
    obtain sv' r where put: "PutChunk U H now sv u d i no x = (sv', r)" by fastforce
    then have "keeps_blobs sv sv'"
      by (cases rule: PutChunk_cases) (simp_all add: keeps_blobs_def file_at_writeAtomic new_not_blob [symmetric])
    with put show ?thesis by (simp add: c PutChunkCmd)
  next
    case (AbortCmd u d i)
    show ?thesis by (simp add: c AbortCmd AbortUpload_def keeps_blobs_def split: sum.split)
  next
    case (CompleteCmd i inp)
    obtain sv' r where "CompleteUpload U H svc now sv i inp = (sv', r)" by fastforce
    with Complete_keeps_blobs [OF inv this] show ?thesis by (simp add: c CompleteCmd)
  qed
qed

text \<open>Stored content is immutable: whatever upload commands follow - with colliding blob or version IDs, on
  other sessions, failing at any check - the row and the file of a blob that is in the database stay as they
  are, byte for byte.\<close>

theorem blob_immutable:
  assumes "server_inv H sv" "uuid_laws U" "\<forall>k. ValidUUID U (draw k)" "b \<in> set (blobs (sv_db sv))"
    and sv': "sv' = run_cmds (upload_exec U H svc draw) cs sv"
  shows "b \<in> set (blobs (sv_db sv')) \<and> file_at (sv_disk sv') (blob_path (b_id b)) = file_at (sv_disk sv) (blob_path (b_id b))"
proof -
  have "keeps_blobs sv (run_cmds (upload_exec U H svc draw) cs sv)"
    using assms(1)
  proof (induction cs arbitrary: sv)
    case (Cons c cs)
    have "server_inv H (fst (upload_exec U H svc draw c sv))"
      using upload_service.inv_exec [where s = sv and c = c and svc = svc and H = H and U = U and draw = draw] Cons.prems assms(2,3) by blast
    from Cons.IH [OF this] upload_exec_keeps_blobs [OF Cons.prems] show ?case
      by (simp, rule_tac keeps_blobs_trans)
  qed simp
  with assms(4) show ?thesis unfolding sv' keeps_blobs_def by blast
qed

section \<open>Round trip\<close>

text \<open>\<open>held sv up k c\<close>: chunk \<open>k\<close> of upload \<open>up\<close> is recorded and its file holds \<open>c\<close>.\<close>

definition held :: "server \<Rightarrow> id \<Rightarrow> int \<Rightarrow> bytes \<Rightarrow> bool" where
  "held sv up k c \<longleftrightarrow> (\<exists>x\<in>set (upload_chunks (sv_db sv)). uc_upload_id x = up \<and> uc_chunk_no x = k) \<and>
     file_at (sv_disk sv) (chunk_path up k) = Some c"

definition put_cmds :: "id \<Rightarrow> id \<Rightarrow> id \<Rightarrow> (time \<times> int \<times> bytes) list \<Rightarrow> (time \<times> nat \<times> upload_cmd) list" where
  "put_cmds u d up puts = map (\<lambda>(t, k, c). (t, 0, PutChunkCmd u d up k c)) puts"

definition put_nos :: "(time \<times> int \<times> bytes) list \<Rightarrow> int list" where
  "put_nos puts = map (\<lambda>(t, k, c). k) puts"

definition accepts :: "('c \<Rightarrow> 's \<Rightarrow> 's \<times> (err + unit)) \<Rightarrow> 'c \<Rightarrow> 's \<Rightarrow> bool" where
  "accepts exec c s \<longleftrightarrow> snd (exec c s) = Inr ()"

lemma put_simps [simp]:
  "put_cmds u d up [] = []" "put_cmds u d up ((t, k, c) # puts) = (t, 0, PutChunkCmd u d up k c) # put_cmds u d up puts"
  "put_nos [] = []" "put_nos ((t, k, c) # puts) = k # put_nos puts"
  by (simp_all add: put_cmds_def put_nos_def)

text \<open>An accepted new chunk is held, the others stay held, and nothing else changes in the tables a
  completion reads.\<close>

lemma PutChunk_new:
  assumes c: "PutChunk U H now sv u d up k x = (sv', Inr ())" and new: "chunk_row (sv_db sv) up k = None"
  shows "\<exists>row. uc_upload_id row = up \<and> uc_chunk_no row = k \<and>
    sv_db sv' = (sv_db sv)\<lparr>upload_chunks := upload_chunks (sv_db sv) @ [row]\<rparr>"
    "sv_disk sv' = writeAtomic (chunk_path up k) x (sv_disk sv)" "0 \<le> k"
proof -
  let ?row = "\<lparr>uc_upload_id = up, uc_chunk_no = k, uc_ciphertext_size = int (length x),
    uc_ciphertext_sha256 = H x, uc_temp_rel_path = chunk_path up k, uc_received_at = now\<rparr>"
  have ins: "insertChunk (sv_db sv) ?row = (sv_db sv)\<lparr>upload_chunks := upload_chunks (sv_db sv) @ [?row]\<rparr>"
    using new by (simp add: insertChunk_def)
  moreover have "chunk_row (insertChunk (sv_db sv) ?row) up k = Some ?row"
    unfolding ins using new by (simp add: chunk_row_def find_append)
  ultimately have *: "sv' = sv\<lparr>sv_db := (sv_db sv)\<lparr>upload_chunks := upload_chunks (sv_db sv) @ [?row]\<rparr>,
      sv_disk := writeAtomic (chunk_path up k) x (sv_disk sv)\<rparr> \<and> 0 \<le> k"
    using c new by (auto simp: PutChunk_def Let_def split: if_split_asm sum.split_asm)
  then show "\<exists>row. uc_upload_id row = up \<and> uc_chunk_no row = k \<and>
      sv_db sv' = (sv_db sv)\<lparr>upload_chunks := upload_chunks (sv_db sv) @ [row]\<rparr>"
    by (intro exI [of _ ?row]) simp
  from * show "sv_disk sv' = writeAtomic (chunk_path up k) x (sv_disk sv)" "0 \<le> k" by simp_all
qed

lemma puts_held:
  assumes "run_ok (accepts (upload_exec U H svc draw)) (upload_exec U H svc draw) (put_cmds u d up puts) sv"
    "distinct (put_nos puts)" "\<forall>x\<in>set (upload_chunks (sv_db sv)). uc_upload_id x = up \<longrightarrow> uc_chunk_no x \<in> done_nos"
    "done_nos \<inter> set (put_nos puts) = {}" "CHR ''/'' \<notin> set up" "\<forall>k\<in>done_nos. 0 \<le> k"
    and sv': "sv' = run_cmds (upload_exec U H svc draw) (put_cmds u d up puts) sv"
  shows "\<exists>rows. sv_db sv' = (sv_db sv)\<lparr>upload_chunks := rows\<rparr> \<and>
      (\<forall>x\<in>set rows. uc_upload_id x = up \<longrightarrow> uc_chunk_no x \<in> done_nos \<union> set (put_nos puts))"
    and "\<And>t k c. (t, k, c) \<in> set puts \<Longrightarrow> held sv' up k c"
    and "\<And>k c. k \<in> done_nos \<Longrightarrow> held sv up k c \<Longrightarrow> held sv' up k c"
proof -
  have "(\<exists>rows. sv_db sv' = (sv_db sv)\<lparr>upload_chunks := rows\<rparr> \<and>
      (\<forall>x\<in>set rows. uc_upload_id x = up \<longrightarrow> uc_chunk_no x \<in> done_nos \<union> set (put_nos puts))) \<and>
    (\<forall>(t, k, c)\<in>set puts. held sv' up k c) \<and> (\<forall>k c. k \<in> done_nos \<longrightarrow> held sv up k c \<longrightarrow> held sv' up k c)"
    using assms
  proof (induction puts arbitrary: sv done_nos)
    case Nil
    then have "sv' = sv" by simp
    moreover have "sv_db sv = (sv_db sv)\<lparr>upload_chunks := upload_chunks (sv_db sv)\<rparr>" by simp
    ultimately show ?case using Nil.prems(3) unfolding put_simps list.set by blast
  next
    case (Cons p puts)
    obtain t k c where p: "p = (t, k, c)" by (cases p)
    obtain sv1 r where put: "PutChunk U H t sv u d up k c = (sv1, r)" by fastforce
    with Cons.prems(1) p have "r = Inr ()" by (simp add: accepts_def)
    with put have ok: "PutChunk U H t sv u d up k c = (sv1, Inr ())" by simp
    have new: "chunk_row (sv_db sv) up k = None"
      using Cons.prems(3,4) p by (auto simp: chunk_row_None)
    note P = PutChunk_new [OF ok new]
    from P(1) obtain row where row: "uc_upload_id row = up" "uc_chunk_no row = k"
      "sv_db sv1 = (sv_db sv)\<lparr>upload_chunks := upload_chunks (sv_db sv) @ [row]\<rparr>" by blast
    have rest: "run_ok (accepts (upload_exec U H svc draw)) (upload_exec U H svc draw) (put_cmds u d up puts) sv1"
      "sv' = run_cmds (upload_exec U H svc draw) (put_cmds u d up puts) sv1"
      using Cons.prems(1,7) p put by simp_all
    have "\<forall>x\<in>set (upload_chunks (sv_db sv1)). uc_upload_id x = up \<longrightarrow> uc_chunk_no x \<in> insert k done_nos"
      using Cons.prems(3) row by auto
    moreover have "insert k done_nos \<inter> set (put_nos puts) = {}" "distinct (put_nos puts)" "\<forall>k\<in>insert k done_nos. 0 \<le> k"
      using Cons.prems(2,4,6) p P(3) by auto
    ultimately have IH: "\<exists>rows. sv_db sv' = (sv_db sv1)\<lparr>upload_chunks := rows\<rparr> \<and>
        (\<forall>x\<in>set rows. uc_upload_id x = up \<longrightarrow> uc_chunk_no x \<in> insert k done_nos \<union> set (put_nos puts))"
      "\<forall>(t, k, c)\<in>set puts. held sv' up k c" "\<forall>k'\<in>insert k done_nos. \<forall>c. held sv1 up k' c \<longrightarrow> held sv' up k' c"
      using Cons.IH [OF rest(1) _ _ _ Cons.prems(5) _ rest(2), of "insert k done_nos"] by blast+
    have "held sv1 up k c" using row by (auto simp: held_def P(2) file_at_writeAtomic)
    moreover have "held sv1 up k' c'" if "k' \<in> done_nos" "held sv up k' c'" for k' c'
    proof -
      have "k' \<noteq> k" using that(1) Cons.prems(4) p by auto
      then have "chunk_path up k' \<noteq> chunk_path up k"
        using chunk_path_eq [OF Cons.prems(5) Cons.prems(5)] Cons.prems(6) that(1) P(3) by blast
      with that(2) row(3) new_not_chunk [of up k up k'] show ?thesis
        by (auto simp: held_def P(2) file_at_writeAtomic)
    qed
    ultimately show ?case using IH p row(3) by auto
  qed
  then show "\<exists>rows. sv_db sv' = (sv_db sv)\<lparr>upload_chunks := rows\<rparr> \<and>
      (\<forall>x\<in>set rows. uc_upload_id x = up \<longrightarrow> uc_chunk_no x \<in> done_nos \<union> set (put_nos puts))"
    "\<And>t k c. (t, k, c) \<in> set puts \<Longrightarrow> held sv' up k c"
    "\<And>k c. k \<in> done_nos \<Longrightarrow> held sv up k c \<Longrightarrow> held sv' up k c" by blast+
qed

lemma puts_inv:
  "server_inv H sv \<Longrightarrow> server_inv H (run_cmds (upload_exec U H svc draw) (put_cmds u d up puts) sv)"
proof (induction puts arbitrary: sv)
  case (Cons p puts)
  obtain t k c where p: "p = (t, k, c)" by (cases p)
  obtain sv1 r where put: "PutChunk U H t sv u d up k c = (sv1, r)" by fastforce
  have "server_inv H sv1"
    using PutChunk_storage [OF _ put] PutChunk_vault [OF put] Cons.prems by (simp add: server_inv_def)
  from Cons.IH [OF this] put show ?case by (simp add: p)
qed simp

definition put_content :: "(time \<times> int \<times> bytes) list \<Rightarrow> bytes" where
  "put_content puts = concat (map (\<lambda>(t, k, c). c) (sort_key (\<lambda>(t, k, c). k) puts))"

text \<open>The chunks in their numeric order are the chunks 0, 1, 2 and so on.\<close>

lemma put_content_nth:
  assumes "distinct (put_nos puts)" "set (put_nos puts) = {0..<n}" "\<And>t k c. (t, k, c) \<in> set puts \<Longrightarrow> f k = c"
  shows "put_content puts = concat (map f [0..n - 1])"
proof -
  let ?s = "sort_key (\<lambda>(t, k, c). k) puts"
  have "map (\<lambda>(t, k, c). k) ?s = [0..n - 1]"
  proof (rule sorted_distinct_set_unique)
    show "sorted (map (\<lambda>(t, k, c). k) ?s)" by (rule sorted_sort_key)
    have m: "mset (map (\<lambda>(t, k, c). k) ?s) = mset (put_nos puts)" by (simp only: put_nos_def mset_map mset_sort)
    then show "distinct (map (\<lambda>(t, k, c). k) ?s)" using assms(1) mset_eq_imp_distinct_iff by blast
    show "set (map (\<lambda>(t, k, c). k) ?s) = set [0..n - 1]"
      using assms(2) mset_eq_setD [OF m] by auto
  qed simp_all
  moreover have "map (\<lambda>(t, k, c). c) ?s = map f (map (\<lambda>(t, k, c). k) ?s)"
    using assms(3) by auto
  ultimately show ?thesis by (simp only: put_content_def)
qed

lemma find_commit:
  assumes new: "S_BlobID session \<notin> b_id ` set (blobs s)" "S_FileVersionID session \<notin> f_id ` set (file_versions s)"
    and P: "\<And>f b. P (f, b) \<Longrightarrow> f_id f = S_FileVersionID session" "P (new_version now s inp session, new_blob now session sz dig)"
  shows "find P (version_blobs (upload_commit now s up inp session owner sz dig)) =
    Some (new_version now s inp session, new_blob now session sz dig)"
proof -
  have none: "find P (concat (map (\<lambda>f. map (Pair f) (g f)) fs)) = None" if "\<forall>f\<in>set fs. f_id f \<noteq> S_FileVersionID session" for g fs
    using that P(1) by (fastforce simp: find_None_iff)
  have "f_id f \<noteq> S_FileVersionID session" if "f \<in> set (file_versions s)" for f using new(2) that by force
  note olds = this
  have "filter (\<lambda>b. b_id b = S_BlobID session) (blobs s) = []" using new(1) by (force simp: filter_empty_conv)
  then have "filter (\<lambda>b. b_id b = f_blob_id (new_version now s inp session)) (blobs s @ [new_blob now session sz dig]) =
      [new_blob now session sz dig]" by (simp add: new_version_def new_blob_def)
  then have split: "version_blobs (upload_commit now s up inp session owner sz dig) =
      concat (map (\<lambda>f. map (Pair f) (filter (\<lambda>b. b_id b = f_blob_id f) (blobs s @ [new_blob now session sz dig]))) (file_versions s)) @
      [(new_version now s inp session, new_blob now session sz dig)]"
    unfolding version_blobs_def upload_commit_simps map_append concat_append by (simp del: filter_append)
  have "find P (concat (map (\<lambda>f. map (Pair f) (filter (\<lambda>b. b_id b = f_blob_id f) (blobs s @ [new_blob now session sz dig])))
      (file_versions s))) = None" by (rule none) (use olds in blast)
  then show ?thesis unfolding split find_append using P(2) by simp
qed

text \<open>C19: Upload round trip. When the chunks of a fresh session were accepted - each once, in any order, over any
  time - and its completion succeeds, then the new version of the target node opens to a file that holds exactly
  the chunks one after the other in their numeric order, and the size served with it is that file's length.\<close>

theorem upload_roundtrip:
  assumes inv: "server_inv H sv" and U: "uuid_laws U"
    and r: "r \<in> set (upload_sessions (sv_db sv))" "us_id r = up" "us_status r = ''OPEN''"
    and fresh: "\<forall>x\<in>set (upload_chunks (sv_db sv)). uc_upload_id x \<noteq> up"
    and op: "\<forall>x\<in>set (processed_operations (sv_db sv)). o_operation_id x \<noteq> co_OperationID inp"
    and puts: "run_ok (accepts (upload_exec U H svc draw)) (upload_exec U H svc draw) (put_cmds u d up puts) sv"
      "distinct (put_nos puts)" "sv1 = run_cmds (upload_exec U H svc draw) (put_cmds u d up puts) sv"
    and complete: "CompleteUpload U H svc now sv1 up inp = (sv2, Inr res)"
  shows "OpenNodeBlob (sv_db sv2) (us_target_node_id r) (us_file_version_id r) =
      Inr (blob_path (us_blob_id r), int (length (put_content puts))) \<and>
    file_at (sv_disk sv2) (blob_path (us_blob_id r)) = Some (put_content puts)"
proof -
  have inv1: "server_inv H sv1" unfolding puts(3) by (rule puts_inv [OF inv])
  then have st: "storage_inv H sv1" and vault: "vault_inv (sv_db sv1)" by (simp_all add: server_inv_def)
  note S = storage_invD [OF st]
  have slash: "CHR ''/'' \<notin> set up" using session_slash [of H sv r] inv r(1,2) by (simp add: server_inv_def)
  note P = puts_held [OF puts(1,2) _ _ slash _ puts(3), of "{}"]
  from P(1) fresh obtain rows where db1: "sv_db sv1 = (sv_db sv)\<lparr>upload_chunks := rows\<rparr>"
    and rows: "\<forall>x\<in>set rows. uc_upload_id x = up \<longrightarrow> uc_chunk_no x \<in> set (put_nos puts)" by auto
  have r1: "r \<in> set (upload_sessions (sv_db sv1))" "reserved r" using r by (simp_all add: db1 reserved_def)
  have held: "held sv1 up k c" if "(t, k, c) \<in> set puts" for t k c using P(2) [OF _ _ _ that] fresh by simp
  show ?thesis
    using inv1 complete
  proof (cases rule: CompleteUpload_cases)
    case same
    then obtain r' where "complete_prepare U svc now (sv_db sv1) up inp = Inr (Answered r')" by auto
    from prepared_Answered [OF this] obtain session where ses: "sessionForDevice (sv_db sv1) (co_UserID inp) (co_DeviceID inp) up = Inr session"
      and why: "S_Status session = ''COMPLETED'' \<or> replayCompletion U (sv_db sv1) inp = Inr (Some r')" by blast
    from ses obtain r2 where r2: "r2 \<in> set (upload_sessions (sv_db sv1))" "us_id r2 = up" "S_Status session = us_status r2"
      by (rule sessionForDevice_row) (rule that)
    have "r2 = r" by (rule distinct_map_eq [OF S(7) r2(1) r1(1)]) (simp add: r2(2) r(2))
    with why r2(3) r(3) have "replayCompletion U (sv_db sv1) inp = Inr (Some r')" by simp
    moreover have "replayCompletion U (sv_db sv1) inp = Inr None" using op by (simp add: replayCompletion_None db1)
    ultimately show ?thesis by simp
  next
    case (stored session expected chunks sz dk dig res' s')
    obtain r2 where r2: "r2 \<in> set (upload_sessions (sv_db sv1))" "us_id r2 = up" "reserved r2" "us_blob_id r2 = S_BlobID session"
      "us_file_version_id r2 = S_FileVersionID session" "us_chunk_count r2 = S_ChunkCount session" "us_target_node_id r2 = targetNodeID session"
      by (rule session_of_prepared [OF st stored(1)]) (rule that)
    have "r2 = r" by (rule distinct_map_eq [OF S(7) r2(1) r1(1)]) (simp add: r2(2) r(2))
    note ses = r2(4-7) [unfolded this]
    let ?n = "us_chunk_count r"
    note A = assembleCiphertext_ok [OF stored(2) S(1) loadChunks_paths [OF complete_prepared(6) [OF stored(1)]]]
    have load: "loadChunks (sv_db sv1) up ?n = Inr (chunks, sz)"
      using complete_prepared(6) [OF stored(1)] ses(3) by simp
    note L = loadChunks_spec [OF st r1 r(2) load]
    define f where "f k = (case file_at (sv_disk sv1) (chunk_path up k) of None \<Rightarrow> [] | Some x \<Rightarrow> x)" for k
    have stored_row: "chunk_stored H (sv_disk sv1) r x" if "x \<in> set (upload_chunks (sv_db sv1))" "uc_upload_id x = up" for x
      using S(6) r1 that r(2) by (simp add: chunks_ok_def)
    have path: "relativePath (chunks ! k) = chunk_path up (int k)" "int k \<in> set (put_nos puts)" if "k < nat ?n" for k
    proof -
      from L(2) [OF that] obtain x where x: "x \<in> set (upload_chunks (sv_db sv1))" "uc_upload_id x = up"
        "uc_chunk_no x = int k" "chunks ! k = chunk_entry x" by blast
      from stored_row [OF x(1,2)] x(3,4) r(2) show "relativePath (chunks ! k) = chunk_path up (int k)"
        by (simp add: chunk_stored_def chunk_entry_def)
      from rows x show "int k \<in> set (put_nos puts)" by (auto simp: db1)
    qed
    have "chunk_contents (sv_disk sv1) chunks = concat (map f [0..?n - 1])"
    proof -
      have "map (\<lambda>c. case file_at (sv_disk sv1) (relativePath c) of None \<Rightarrow> [] | Some x \<Rightarrow> x) chunks = map f [0..?n - 1]"
        by (rule nth_equalityI) (simp_all add: L(1) path f_def nth_upto)
      then show ?thesis by (simp add: chunk_contents_def)
    qed
    also have "\<dots> = put_content puts"
    proof (rule put_content_nth [OF puts(2), symmetric])
      show "set (put_nos puts) = {0..<?n}"
      proof
        show "set (put_nos puts) \<subseteq> {0..<?n}"
        proof
          fix k assume "k \<in> set (put_nos puts)"
          then obtain t c where "(t, k, c) \<in> set puts" by (auto simp: put_nos_def)
          from held [OF this] obtain x where "x \<in> set (upload_chunks (sv_db sv1))" "uc_upload_id x = up" "uc_chunk_no x = k"
            by (auto simp: held_def)
          with stored_row show "k \<in> {0..<?n}" by (fastforce simp: chunk_stored_def)
        qed
        show "{0..<?n} \<subseteq> set (put_nos puts)"
        proof
          fix k assume "k \<in> {0..<?n}"
          with path(2) [of "nat k"] show "k \<in> set (put_nos puts)" by simp
        qed
      qed
    qed (use held in \<open>auto simp: held_def f_def\<close>)
    finally have content: "chunk_contents (sv_disk sv1) chunks = put_content puts" .
    show ?thesis
      using vault_invD(8) [OF vault] stored(3)
    proof (rule complete_tx_done)
      fix n assume new: "S_BlobID session \<notin> b_id ` set (blobs (sv_db sv1))" "S_FileVersionID session \<notin> f_id ` set (file_versions (sv_db sv1))"
        and s': "s' = upload_commit now (sv_db sv1) up inp session (n_owner_id n) sz dig"
      have "find (\<lambda>(f, b). f_node_id f = us_target_node_id r \<and> f_id f = us_file_version_id r) (version_blobs s') =
          Some (new_version now (sv_db sv1) inp session, new_blob now session sz dig)"
        unfolding s' by (rule find_commit [OF new]) (auto simp: ses new_version_def)
      then have "OpenNodeBlob s' (us_target_node_id r) (us_file_version_id r) = Inr (blob_path (us_blob_id r), sz)"
        by (simp add: OpenNodeBlob_def new_blob_def ses)
      moreover have "sz = int (length (put_content puts))" using L(3) content by simp
      moreover have "file_at (sv_disk sv2) (blob_path (us_blob_id r)) = Some (put_content puts)"
        using A(3) content by (simp add: stored(4) ses)
      ultimately show ?thesis by (simp add: stored(4))
    qed
  qed auto
qed

definition demo_puts :: "(time \<times> int \<times> bytes) list" where
  "demo_puts = [(20, 1, ''de''), (21, 0, ''abc'')]"

theorem upload_roundtrip_witness:
  "let sv1 = run_cmds (upload_exec demo_uuid demo_hash demo_uploads (\<lambda>_. [])) (put_cmds ''alice'' ''a1'' ''up1'' demo_puts) demo_server;
       sv2 = fst (CompleteUpload demo_uuid demo_hash demo_uploads 30 sv1 ''up1'' demo_completion)
   in OpenNodeBlob (sv_db sv2) ''doc'' ''v1'' = Inr (''blobs/blob1.hbxblob'', 5) \<and>
      file_at (sv_disk sv2) ''blobs/blob1.hbxblob'' = Some ''abcde''"
proof -
  let ?exec = "upload_exec demo_uuid demo_hash demo_uploads (\<lambda>_. [])"
  define sv1 where "sv1 = run_cmds ?exec (put_cmds ''alice'' ''a1'' ''up1'' demo_puts) demo_server"
  let ?c = "CompleteUpload demo_uuid demo_hash demo_uploads 30 sv1 ''up1'' demo_completion"
  have ok: "run_ok (accepts ?exec) ?exec (put_cmds ''alice'' ''a1'' ''up1'' demo_puts) demo_server" by code_simp
  have "\<not> isl (snd ?c)" unfolding sv1_def by code_simp
  then obtain res where "snd ?c = Inr res" by (cases "snd ?c") simp_all
  then have c: "?c = (fst ?c, Inr res)" by (simp add: prod_eq_iff)
  have r: "demo_session \<in> set (upload_sessions (sv_db demo_server))" "us_id demo_session = ''up1''" "us_status demo_session = ''OPEN''"
    "\<forall>x\<in>set (upload_chunks (sv_db demo_server)). uc_upload_id x \<noteq> ''up1''"
    "\<forall>x\<in>set (processed_operations (sv_db demo_server)). o_operation_id x \<noteq> co_OperationID demo_completion"
    by (simp_all add: demo_server_def demo_session_def demo_defs)
  have d: "distinct (put_nos demo_puts)" by code_simp
  have eqs: "us_target_node_id demo_session = ''doc''" "us_file_version_id demo_session = ''v1''"
    "blob_path (us_blob_id demo_session) = ''blobs/blob1.hbxblob''" "put_content demo_puts = ''abcde''" by code_simp+
  show ?thesis
    using upload_roundtrip [OF demo_server_inv demo_uuid_laws r ok d sv1_def c] unfolding eqs Let_def sv1_def by simp
qed

section \<open>Retries, results and limits\<close>

text \<open>A client that lost the answer of a completion and sends it again - at any later time, under any
  operation ID - gets the same result, and nothing changes.\<close>

theorem complete_retry:
  assumes inv: "server_inv H sv" and r: "r \<in> set (upload_sessions (sv_db sv))" "us_id r = up" "us_status r = ''OPEN''"
    and op: "\<forall>x\<in>set (processed_operations (sv_db sv)). o_operation_id x \<noteq> co_OperationID inp"
    and c: "CompleteUpload U H svc now sv up inp = (sv', Inr res)"
    and again: "co_UserID inp' = co_UserID inp" "co_DeviceID inp' = co_DeviceID inp" "ValidUUID U (co_OperationID inp')"
      "co_KeyScopeID inp' \<noteq> []" "1 \<le> co_KeyVersion inp'"
  shows "CompleteUpload U H svc now' sv' up inp' = (sv', Inr res)"
  using inv c
proof (cases rule: CompleteUpload_cases)
  case same
  then obtain r' where "complete_prepare U svc now (sv_db sv) up inp = Inr (Answered r')" by auto
  from prepared_Answered [OF this] obtain session where ses: "sessionForDevice (sv_db sv) (co_UserID inp) (co_DeviceID inp) up = Inr session"
    and why: "S_Status session = ''COMPLETED'' \<or> replayCompletion U (sv_db sv) inp = Inr (Some r')" by blast
  from inv have S: "distinct (map us_id (upload_sessions (sv_db sv)))" by (auto simp: server_inv_def dest: storage_invD(7))
  from ses obtain r2 where r2: "r2 \<in> set (upload_sessions (sv_db sv))" "us_id r2 = up" "S_Status session = us_status r2"
    by (rule sessionForDevice_row) (rule that)
  have "r2 = r" by (rule distinct_map_eq [OF S r2(1) r(1)]) (simp add: r2(2) r(2))
  with why r2(3) r(3) have "replayCompletion U (sv_db sv) inp = Inr (Some r')" by simp
  moreover have "replayCompletion U (sv_db sv) inp = Inr None" using op by (simp add: replayCompletion_None)
  ultimately show ?thesis by simp
next
  case (stored session expected chunks sz d dig res' s')
  from inv have vault: "vault_inv (sv_db sv)" by (simp add: server_inv_def)
  note prep = complete_prepared(1,2) [OF stored(1)]
  show ?thesis
    using vault_invD(8) [OF vault] stored(3)
  proof (rule complete_tx_done)
    fix n assume new: "S_BlobID session \<notin> b_id ` set (blobs (sv_db sv))" "S_FileVersionID session \<notin> f_id ` set (file_versions (sv_db sv))"
      and res': "res' = upload_result (sv_db sv) session"
      and s': "s' = upload_commit now (sv_db sv) up inp session (n_owner_id n) sz dig"
    from prep(2) obtain row where row: "find (\<lambda>r. us_id r = up \<and> us_user_id r = co_UserID inp \<and> us_device_id r = co_DeviceID inp)
        (upload_sessions (sv_db sv)) = Some row" and version: "S_FileVersionID session = us_file_version_id row"
      by (auto simp: sessionForDevice_def split: option.split_asm)
    have "find (\<lambda>r. us_id r = up \<and> us_user_id r = u \<and> us_device_id r = v) (upd (\<lambda>r. us_id r = up) (complete_session now) rs) =
        map_option (complete_session now) (find (\<lambda>r. us_id r = up \<and> us_user_id r = u \<and> us_device_id r = v) rs)" for u v rs
      by (induction rs) (auto simp: complete_session_def)
    with row have "find (\<lambda>r. us_id r = up \<and> us_user_id r = co_UserID inp \<and> us_device_id r = co_DeviceID inp)
        (upload_sessions s') = Some (complete_session now row)" by (simp add: s')
    then obtain session' where ses': "sessionForDevice s' (co_UserID inp') (co_DeviceID inp') up = Inr session'"
      "S_Status session' = ''COMPLETED''" "S_FileVersionID session' = S_FileVersionID session"
      by (simp add: sessionForDevice_def again(1,2) complete_session_def version)
    have "find (\<lambda>(f, b). f_id f = S_FileVersionID session) (version_blobs s') =
        Some (new_version now (sv_db sv) inp session, new_blob now session sz dig)"
      unfolding s' by (rule find_commit [OF new]) (auto simp: new_version_def)
    then have "completedResult s' (S_FileVersionID session) = Inr res'"
      by (simp add: completedResult_def new_version_def new_blob_def res' upload_result_def)
    with ses' prep(1) again(3-5) have "complete_prepare U svc now' s' up inp' = Inr (Answered res')"
      by (simp add: complete_prepare_def)
    then show ?thesis using stored(4,5) by (simp add: CompleteUpload_def)
  qed
qed auto

text \<open>The completed demo upload, for the witnesses of what comes after it.\<close>

definition demo_filled :: server where
  "demo_filled = run_cmds (upload_exec demo_uuid demo_hash demo_uploads (\<lambda>_. []))
     (put_cmds ''alice'' ''a1'' ''up1'' demo_puts) demo_server"

lemma demo_filled_inv: "server_inv demo_hash demo_filled"
  unfolding demo_filled_def by (rule puts_inv [OF demo_server_inv])

lemma demo_filled_session: "demo_session \<in> set (upload_sessions (sv_db demo_filled))"
proof -
  have "upload_sessions (sv_db demo_filled) = [demo_session]" unfolding demo_filled_def by code_simp
  then show ?thesis by simp
qed

lemma demo_filled_ops: "\<forall>x\<in>set (processed_operations (sv_db demo_filled)). o_operation_id x \<noteq> i"
proof -
  have "processed_operations (sv_db demo_filled) = []" unfolding demo_filled_def by code_simp
  then show ?thesis by simp
qed

theorem complete_retry_witness:
  "let c = CompleteUpload demo_uuid demo_hash demo_uploads 30 demo_filled ''up1'' demo_completion in
   CompleteUpload demo_uuid demo_hash demo_uploads 99 (fst c) ''up1'' (demo_completion\<lparr>co_OperationID := ''op8''\<rparr>) = c \<and>
   snd c = Inr \<lparr>cr_BlobID = ''blob1'', cr_FileVersionID = ''v1'', cr_Revision = 5\<rparr>"
proof -
  let ?c = "CompleteUpload demo_uuid demo_hash demo_uploads 30 demo_filled ''up1'' demo_completion"
  have res: "snd ?c = Inr \<lparr>cr_BlobID = ''blob1'', cr_FileVersionID = ''v1'', cr_Revision = 5\<rparr>"
    unfolding demo_filled_def by code_simp
  then have c: "?c = (fst ?c, Inr \<lparr>cr_BlobID = ''blob1'', cr_FileVersionID = ''v1'', cr_Revision = 5\<rparr>)"
    by (simp add: prod_eq_iff)
  have id: "us_id demo_session = ''up1''" "us_status demo_session = ''OPEN''" by (simp_all add: demo_session_def)
  have "CompleteUpload demo_uuid demo_hash demo_uploads 99 (fst ?c) ''up1'' (demo_completion\<lparr>co_OperationID := ''op8''\<rparr>) =
      (fst ?c, Inr \<lparr>cr_BlobID = ''blob1'', cr_FileVersionID = ''v1'', cr_Revision = 5\<rparr>)"
    by (rule complete_retry [OF demo_filled_inv demo_filled_session id demo_filled_ops c])
      (simp_all add: demo_completion_def)
  with res c show ?thesis unfolding Let_def by simp
qed

text \<open>The result of a completion survives its storage in the operation record: what \<open>decodeResult\<close> reads is what
  was encoded, for all canonical IDs and every 64-bit revision.\<close>

theorem result_roundtrip:
  assumes U: "uuid_laws U" and ids: "ValidUUID U (cr_BlobID r)" "ValidUUID U (cr_FileVersionID r)"
    and rev: "- (2 ^ 63) \<le> cr_Revision r" "cr_Revision r < 2 ^ 63"
  shows "decodeResult U (encodeResult r) = Inr r"
proof -
  from U ids have ok: "CHR '':'' \<notin> set (cr_BlobID r)" "CHR '':'' \<notin> set (cr_FileVersionID r)"
    "uuid_Validate U (cr_BlobID r)" "uuid_Validate U (cr_FileVersionID r)" by (simp_all add: uuid_laws_def)
  then have "split_at CHR '':'' (encodeResult r) = [cr_BlobID r, cr_FileVersionID r, FormatInt (cr_Revision r)]"
    by (simp add: encodeResult_def split_at_join split_at_plain FormatInt_no_colon)
  with ok ParseInt_FormatInt [OF rev] show ?thesis by (simp add: decodeResult_def)
qed

theorem result_roundtrip_witness:
  "decodeResult demo_uuid (encodeResult \<lparr>cr_BlobID = ''blob1'', cr_FileVersionID = ''v1'', cr_Revision = -7\<rparr>) =
     Inr \<lparr>cr_BlobID = ''blob1'', cr_FileVersionID = ''v1'', cr_Revision = -7\<rparr>"
  by (rule result_roundtrip [OF demo_uuid_laws]) simp_all

text \<open>The size check of a new session cannot be passed by overflow: the chunk count times the chunk size, as
  whole numbers, is within the configured limit.\<close>

theorem framing_no_overflow:
  assumes "CreateUpload U svc now i sv inp = (sv', Inr session)"
  shows "cu_ChunkCount inp * cu_ChunkSize inp \<le> up_maxCiphertextSize svc \<and> 0 < cu_ChunkCount inp * cu_ChunkSize inp"
proof -
  from assms obtain s' where "CreateUpload_tx U svc now i (sv_db sv) inp = Inr (session, s')"
    by (auto simp: CreateUpload_def split: sum.split_asm)
  then have b: "1 \<le> cu_ChunkCount inp" "cu_ChunkCount inp \<le> maxChunkCount" "1 \<le> cu_ChunkSize inp"
    "cu_ChunkSize inp \<le> MaxChunkCiphertextSize" "int64 (cu_ChunkCount inp * cu_ChunkSize inp) \<le> up_maxCiphertextSize svc"
    by (auto simp: CreateUpload_tx_def not_less not_le split: if_split_asm)
  have "cu_ChunkCount inp * cu_ChunkSize inp \<le> maxChunkCount * MaxChunkCiphertextSize"
    using b by (intro mult_mono) (simp_all add: maxChunkCount_def)
  moreover have pos: "0 < cu_ChunkCount inp * cu_ChunkSize inp" using b(1,3) by simp
  ultimately have "int64 (cu_ChunkCount inp * cu_ChunkSize inp) = cu_ChunkCount inp * cu_ChunkSize inp"
    by (intro int64_id) (simp_all add: maxChunkCount_def MaxChunkCiphertextSize_def)
  with b(5) pos show ?thesis by simp
qed

definition demo_upload_input :: UploadInput where
  "demo_upload_input = \<lparr>cu_UserID = ''alice'', cu_DeviceID = ''a1'', cu_TargetNodeID = ''doc'', cu_FileVersionID = ''v2'',
     cu_BlobID = ''blob2'', cu_ExpectedRevision = Some 2, cu_ChunkSize = 10, cu_ChunkCount = 100,
     cu_MetadataKeyVersion = 1, cu_MetadataCiphertext = ''m'', cu_WrappedFileKey = ''w'', cu_E2EEHeader = ''h''\<rparr>"

theorem framing_no_overflow_witness:
  "\<not> isl (snd (CreateUpload demo_uuid demo_uploads 20 ''up2'' demo_server demo_upload_input)) \<and>
   cu_ChunkCount demo_upload_input * cu_ChunkSize demo_upload_input \<le> up_maxCiphertextSize demo_uploads"
proof -
  let ?c = "CreateUpload demo_uuid demo_uploads 20 ''up2'' demo_server demo_upload_input"
  have ok: "\<not> isl (snd ?c)" by code_simp
  then obtain session where "?c = (fst ?c, Inr session)" by (cases "snd ?c") (simp_all add: prod_eq_iff)
  from framing_no_overflow [OF this] ok show ?thesis by blast
qed

text \<open>A completed blob is as large as its database row says and within the configured limit, whatever sizes the
  client declared.\<close>

theorem blob_within_limit:
  assumes inv: "server_inv H sv" and c: "CompleteUpload U H svc now sv up inp = (sv', res)"
    and b: "b \<in> set (blobs (sv_db sv'))" "b \<notin> set (blobs (sv_db sv))"
  shows "\<exists>x. file_at (sv_disk sv') (blob_path (b_id b)) = Some x \<and> int (length x) = b_ciphertext_size b \<and>
    b_ciphertext_size b \<le> up_maxCiphertextSize svc"
  using inv c
proof (cases rule: CompleteUpload_cases)
  case (stored session expected chunks sz d dig r s')
  from inv have st: "storage_inv H sv" and vault: "vault_inv (sv_db sv)" by (simp_all add: server_inv_def)
  note prep = complete_prepared [OF stored(1)]
  obtain r0 where r0: "r0 \<in> set (upload_sessions (sv_db sv))" "us_id r0 = up" "reserved r0" "us_blob_id r0 = S_BlobID session"
    "us_file_version_id r0 = S_FileVersionID session" "us_chunk_count r0 = S_ChunkCount session"
    by (rule session_of_prepared [OF st stored(1)]) (rule that)
  have sz: "sz = int (length (chunk_contents (sv_disk sv) chunks))"
    using loadChunks_spec(3) [OF st r0(1,3,2)] prep(6) r0(6) by simp
  note A = assembleCiphertext_ok [OF stored(2) storage_invD(1) [OF st] loadChunks_paths [OF prep(6)]]
  from vault_invD(8) [OF vault] stored(3) obtain owner where "s' = upload_commit now (sv_db sv) up inp session owner sz dig"
    by (rule complete_tx_done) (rule that)
  with b stored(4) have "b = new_blob now session sz dig" by simp
  then show ?thesis using A(3) sz prep(7) stored(4) by (simp add: new_blob_def)
qed (use b in simp_all)

theorem blob_within_limit_witness:
  "let sv' = fst (CompleteUpload demo_uuid demo_hash demo_uploads 30 demo_filled ''up1'' demo_completion) in
   \<exists>b x. set (blobs (sv_db sv')) = {b} \<and> file_at (sv_disk sv') (blob_path (b_id b)) = Some x \<and> int (length x) = b_ciphertext_size b"
proof -
  let ?c = "CompleteUpload demo_uuid demo_hash demo_uploads 30 demo_filled ''up1'' demo_completion"
  have "length (blobs (sv_db (fst ?c))) = 1" "blobs (sv_db demo_filled) = []" unfolding demo_filled_def by code_simp+
  then obtain b where b: "blobs (sv_db (fst ?c)) = [b]" "b \<in> set (blobs (sv_db (fst ?c)))" "b \<notin> set (blobs (sv_db demo_filled))"
    by (auto simp: length_Suc_conv)
  from blob_within_limit [OF demo_filled_inv prod.collapse [symmetric] b(2,3)] b(1) show ?thesis unfolding Let_def by auto
qed

text \<open>A second session that claims the stored blob's ID is refused, and the blob stays.\<close>

theorem blob_immutable_witness:
  "let sv = fst (CompleteUpload demo_uuid demo_hash demo_uploads 30 demo_filled ''up1'' demo_completion);
       sv' = run_cmds (upload_exec demo_uuid demo_hash demo_uploads (\<lambda>_. ''up2''))
         [(40, 0, CreateUploadCmd (demo_upload_input\<lparr>cu_BlobID := ''blob1''\<rparr>)), (41, 1, AbortCmd ''alice'' ''a1'' ''up1'')] sv
   in file_at (sv_disk sv') (blob_path ''blob1'') = Some ''abcde''"
proof -
  define sv where "sv = fst (CompleteUpload demo_uuid demo_hash demo_uploads 30 demo_filled ''up1'' demo_completion)"
  have "map b_id (blobs (sv_db sv)) = [''blob1'']" unfolding sv_def demo_filled_def by code_simp
  then obtain b where b: "b \<in> set (blobs (sv_db sv))" "b_id b = ''blob1''" by (auto simp: map_eq_Cons_conv)
  have content: "file_at (sv_disk sv) (blob_path ''blob1'') = Some ''abcde''" unfolding sv_def demo_filled_def by code_simp
  have inv: "server_inv demo_hash sv" unfolding sv_def by (rule CompleteUpload_inv [OF demo_filled_inv demo_uuid_laws])
  have draw: "\<forall>k::nat. ValidUUID demo_uuid ((\<lambda>_. ''up2'') k)" by simp
  from blob_immutable [OF inv demo_uuid_laws draw b(1) refl, where svc = demo_uploads and
      cs = "[(40, 0, CreateUploadCmd (demo_upload_input\<lparr>cu_BlobID := ''blob1''\<rparr>)), (41, 1, AbortCmd ''alice'' ''a1'' ''up1'')]"]
  show ?thesis unfolding b(2) content Let_def sv_def [symmetric] by blast
qed

end
