(* ===== verification/HB_Locks.thy ===== *)
theory HB_Locks
  imports HB_Prelude
begin

text \<open>
  The keyed mutex of internal/uploads/service.go (\<open>uploadLocks\<close>): one lock per upload ID, created on demand
  and dropped once no caller holds or waits for it. \<open>PutChunk\<close>, \<open>Abort\<close> and \<open>Complete\<close> take it, so that
  HB_Uploads may treat each of them as one step with respect to the others on the same upload.

  Goroutines are numbered. A goroutine's way through \<open>lock\<close> and the returned \<open>unlock\<close> is a program counter
  \<open>lock_pc\<close>; a step of \<open>lock_step\<close> is one critical section of the guarding mutex \<open>l.mu\<close>, or one locking or
  unlocking of an entry's own mutex. Entries are addresses of a store (\<open>l_refs\<close>, \<open>l_held\<close>), since a dropped
  entry may still be known to a goroutine; \<open>l_next\<close> is the next free address.
\<close>

datatype lock_pc =
    Outside
  | Entered id nat
  | Inside id nat
  | Leaving id nat

record uploadLocks =
  l_map :: "id \<Rightarrow> nat option"
  l_refs :: "nat \<Rightarrow> nat"
  l_held :: "nat \<Rightarrow> bool"
  l_next :: nat
  l_pc :: "nat \<Rightarrow> lock_pc"

definition no_locks :: uploadLocks where
  "no_locks = \<lparr>l_map = (\<lambda>_. None), l_refs = (\<lambda>_. 0), l_held = (\<lambda>_. False), l_next = 0, l_pc = (\<lambda>_. Outside)\<rparr>"

text \<open>The first half of \<open>lock\<close>: find or create the entry and count the caller.\<close>

definition lock_enter :: "nat \<Rightarrow> id \<Rightarrow> uploadLocks \<Rightarrow> uploadLocks" where
  "lock_enter t i l =
     (case l_map l i of
        Some e \<Rightarrow> l\<lparr>l_refs := (l_refs l)(e := l_refs l e + 1), l_pc := (l_pc l)(t := Entered i e)\<rparr>
      | None \<Rightarrow> (let e = l_next l in
          l\<lparr>l_map := (l_map l)(i := Some e), l_refs := (l_refs l)(e := 1), l_held := (l_held l)(e := False),
            l_next := e + 1, l_pc := (l_pc l)(t := Entered i e)\<rparr>))"

text \<open>\<open>entry.mu.Lock()\<close>, where it does not block.\<close>

definition lock_acquire :: "nat \<Rightarrow> id \<Rightarrow> nat \<Rightarrow> uploadLocks \<Rightarrow> uploadLocks" where
  "lock_acquire t i e l = l\<lparr>l_held := (l_held l)(e := True), l_pc := (l_pc l)(t := Inside i e)\<rparr>"

text \<open>The returned function: \<open>entry.mu.Unlock()\<close>, then the caller is discounted and the last one drops the
  entry.\<close>

definition lock_release :: "nat \<Rightarrow> id \<Rightarrow> nat \<Rightarrow> uploadLocks \<Rightarrow> uploadLocks" where
  "lock_release t i e l = l\<lparr>l_held := (l_held l)(e := False), l_pc := (l_pc l)(t := Leaving i e)\<rparr>"

definition lock_leave :: "nat \<Rightarrow> id \<Rightarrow> nat \<Rightarrow> uploadLocks \<Rightarrow> uploadLocks" where
  "lock_leave t i e l =
     (let refs = l_refs l e - 1 in
      l\<lparr>l_refs := (l_refs l)(e := refs),
        l_map := (if refs = 0 then (l_map l)(i := None) else l_map l), l_pc := (l_pc l)(t := Outside)\<rparr>)"

inductive lock_step :: "uploadLocks \<Rightarrow> uploadLocks \<Rightarrow> bool" where
  enter: "l_pc l t = Outside \<Longrightarrow> lock_step l (lock_enter t i l)"
| acquire: "l_pc l t = Entered i e \<Longrightarrow> \<not> l_held l e \<Longrightarrow> lock_step l (lock_acquire t i e l)"
| release: "l_pc l t = Inside i e \<Longrightarrow> lock_step l (lock_release t i e l)"
| leave: "l_pc l t = Leaving i e \<Longrightarrow> lock_step l (lock_leave t i e l)"

inductive_cases lock_stepE: "lock_step l l'"

section \<open>Invariant\<close>

fun pc_entry :: "lock_pc \<Rightarrow> (id \<times> nat) option" where
  "pc_entry Outside = None"
| "pc_entry (Entered i e) = Some (i, e)"
| "pc_entry (Inside i e) = Some (i, e)"
| "pc_entry (Leaving i e) = Some (i, e)"

definition users_of :: "uploadLocks \<Rightarrow> nat \<Rightarrow> nat set" where
  "users_of l e = {t. \<exists>i. pc_entry (l_pc l t) = Some (i, e)}"

text \<open>Every goroutine on its way knows the current entry of its ID; an entry counts the goroutines that know
  it, belongs to one ID, and is held exactly while one of them is inside.\<close>

definition locks_inv :: "uploadLocks \<Rightarrow> bool" where
  "locks_inv l \<longleftrightarrow>
     (\<forall>t i e. pc_entry (l_pc l t) = Some (i, e) \<longrightarrow> l_map l i = Some e) \<and>
     (\<forall>i e. l_map l i = Some e \<longrightarrow> e < l_next l \<and> finite (users_of l e) \<and> l_refs l e = card (users_of l e) \<and>
        users_of l e \<noteq> {}) \<and>
     (\<forall>i j e. l_map l i = Some e \<longrightarrow> l_map l j = Some e \<longrightarrow> i = j) \<and>
     (\<forall>i e. l_map l i = Some e \<longrightarrow> l_held l e \<longrightarrow> (\<exists>t. l_pc l t = Inside i e)) \<and>
     (\<forall>t t' i i' e. l_pc l t = Inside i e \<longrightarrow> l_pc l t' = Inside i' e \<longrightarrow> t = t') \<and>
     (\<forall>t i e. l_pc l t = Inside i e \<longrightarrow> l_held l e)"

lemma locks_invD:
  assumes "locks_inv l"
  shows "pc_entry (l_pc l t) = Some (i, e) \<Longrightarrow> l_map l i = Some e"
    "l_map l i = Some e \<Longrightarrow> e < l_next l" "l_map l i = Some e \<Longrightarrow> finite (users_of l e)"
    "l_map l i = Some e \<Longrightarrow> l_refs l e = card (users_of l e)" "l_map l i = Some e \<Longrightarrow> users_of l e \<noteq> {}"
    "l_map l i = Some e \<Longrightarrow> l_map l j = Some e \<Longrightarrow> i = j"
    "l_map l i = Some e \<Longrightarrow> l_held l e \<Longrightarrow> \<exists>t. l_pc l t = Inside i e"
    "l_pc l t = Inside i e \<Longrightarrow> l_pc l t' = Inside i' e \<Longrightarrow> t = t'"
    "l_pc l t = Inside i e \<Longrightarrow> l_held l e"
  using assms unfolding locks_inv_def by blast+

lemma locks_invI:
  assumes "\<And>t i e. pc_entry (l_pc l t) = Some (i, e) \<Longrightarrow> l_map l i = Some e"
    "\<And>i e. l_map l i = Some e \<Longrightarrow> e < l_next l" "\<And>i e. l_map l i = Some e \<Longrightarrow> finite (users_of l e)"
    "\<And>i e. l_map l i = Some e \<Longrightarrow> l_refs l e = card (users_of l e)" "\<And>i e. l_map l i = Some e \<Longrightarrow> users_of l e \<noteq> {}"
    "\<And>i j e. l_map l i = Some e \<Longrightarrow> l_map l j = Some e \<Longrightarrow> i = j"
    "\<And>i e. l_map l i = Some e \<Longrightarrow> l_held l e \<Longrightarrow> \<exists>t. l_pc l t = Inside i e"
    "\<And>t t' i i' e. l_pc l t = Inside i e \<Longrightarrow> l_pc l t' = Inside i' e \<Longrightarrow> t = t'"
    "\<And>t i e. l_pc l t = Inside i e \<Longrightarrow> l_held l e"
  shows "locks_inv l"
  unfolding locks_inv_def by (intro conjI allI impI) (rule assms, assumption+)+

lemma no_locks_inv: "locks_inv no_locks"
  by (rule locks_invI) (simp_all add: no_locks_def)

lemma users_of_pc:
  "l_pc l' = (l_pc l)(t := p) \<Longrightarrow>
   users_of l' e = (if \<exists>i. pc_entry p = Some (i, e) then insert t (users_of l e) else users_of l e - {t})"
  by (auto simp: users_of_def)

lemma entry_inv:
  assumes inv: "locks_inv l" and idle: "l_pc l t = Outside"
  shows "locks_inv (lock_enter t i l)"
proof (cases "l_map l i")
  case (Some e)
  note D = locks_invD [OF inv]
  let ?l = "lock_enter t i l"
  have l: "l_map ?l = l_map l" "l_refs ?l = (l_refs l)(e := l_refs l e + 1)" "l_held ?l = l_held l"
    "l_next ?l = l_next l" "l_pc ?l = (l_pc l)(t := Entered i e)" by (simp_all add: lock_enter_def Some)
  have us: "users_of ?l e' = (if e' = e then insert t (users_of l e) else users_of l e')" for e'
    using users_of_pc [OF l(5)] idle by (auto simp: users_of_def)
  have "t \<notin> users_of l e" using idle by (simp add: users_of_def)
  show ?thesis
  proof (rule locks_invI, unfold l us)
    fix j e' assume m: "l_map l j = Some e'"
    show "((l_refs l)(e := l_refs l e + 1)) e' = card (if e' = e then insert t (users_of l e) else users_of l e')"
      using D(3,4) [OF m] \<open>t \<notin> users_of l e\<close> by (cases "e' = e") simp_all
    assume "l_held l e'"
    from D(7) [OF m this] obtain t1 where "l_pc l t1 = Inside j e'" by blast
    with idle show "\<exists>t'. ((l_pc l)(t := Entered i e)) t' = Inside j e'" by (intro exI [of _ t1]) auto
  qed (use D Some in \<open>auto split: if_split_asm\<close>)
next
  case None
  note D = locks_invD [OF inv]
  let ?l = "lock_enter t i l" and ?e = "l_next l"
  have l: "l_map ?l = (l_map l)(i := Some ?e)" "l_refs ?l = (l_refs l)(?e := 1)" "l_held ?l = (l_held l)(?e := False)"
    "l_next ?l = ?e + 1" "l_pc ?l = (l_pc l)(t := Entered i ?e)" by (simp_all add: lock_enter_def None Let_def)
  have free: "users_of l ?e = {}"
  proof (rule ccontr)
    assume "users_of l ?e \<noteq> {}"
    then obtain t' j where "pc_entry (l_pc l t') = Some (j, ?e)" by (auto simp: users_of_def)
    from D(2) [OF D(1) [OF this]] show False by simp
  qed
  have us: "users_of ?l e' = (if e' = ?e then {t} else users_of l e')" for e'
    using users_of_pc [OF l(5)] idle free by (auto simp: users_of_def)
  have old: "e' \<noteq> ?e" if "l_map l j = Some e'" for j e' using D(2) [OF that] by simp
  show ?thesis
  proof (rule locks_invI, unfold l us)
    fix t' j e' assume "pc_entry (((l_pc l)(t := Entered i ?e)) t') = Some (j, e')"
    then show "((l_map l)(i := Some ?e)) j = Some e'" using D(1) [of t' j e'] None by (auto split: if_split_asm)
  next
    fix j e' assume m: "((l_map l)(i := Some ?e)) j = Some e'" and "((l_held l)(?e := False)) e'"
    then have "l_map l j = Some e'" "l_held l e'" by (auto split: if_split_asm)
    from D(7) [OF this] obtain t1 where "l_pc l t1 = Inside j e'" by blast
    with idle show "\<exists>t'. ((l_pc l)(t := Entered i ?e)) t' = Inside j e'" by (intro exI [of _ t1]) auto
  next
    fix t' j e' assume "((l_pc l)(t := Entered i ?e)) t' = Inside j e'"
    then have "l_pc l t' = Inside j e'" by (simp split: if_split_asm)
    moreover from this have "e' \<noteq> ?e" using old [OF D(1)] by (metis pc_entry.simps(3))
    ultimately show "((l_held l)(?e := False)) e'" using D(9) by simp
  next
    fix j k e' assume "((l_map l)(i := Some ?e)) j = Some e'" "((l_map l)(i := Some ?e)) k = Some e'"
    then show "j = k" using D(6) [of j e' k] old by (auto split: if_split_asm)
  qed (use D old in \<open>auto split: if_split_asm dest: D(2) less_SucI\<close>)
qed

text \<open>A step that keeps the goroutine's entry changes no count.\<close>

lemma same_users:
  assumes "l_pc l' = (l_pc l)(t := p)" "pc_entry p = pc_entry (l_pc l t)"
  shows "users_of l' = users_of l"
  using assms by (auto simp: users_of_def fun_eq_iff)

lemma acquire_inv:
  assumes inv: "locks_inv l" and pc: "l_pc l t = Entered i e" and free: "\<not> l_held l e"
  shows "locks_inv (lock_acquire t i e l)"
proof -
  note D = locks_invD [OF inv]
  let ?l = "lock_acquire t i e l"
  have l: "l_map ?l = l_map l" "l_refs ?l = l_refs l" "l_held ?l = (l_held l)(e := True)" "l_next ?l = l_next l"
    "l_pc ?l = (l_pc l)(t := Inside i e)" by (simp_all add: lock_acquire_def)
  have us: "users_of ?l = users_of l" by (rule same_users [OF l(5)]) (simp add: pc)
  have map: "l_map l i = Some e" by (rule D(1) [of t]) (simp add: pc)
  have none: "l_pc l t' \<noteq> Inside j e" for t' j using D(9) [of t' j e] free by auto
  show ?thesis
  proof (rule locks_invI, unfold l us)
    fix j e' assume m: "l_map l j = Some e'" and "((l_held l)(e := True)) e'"
    then consider "e' = e" | "e' \<noteq> e" "l_held l e'" by (auto split: if_split_asm)
    then show "\<exists>t'. ((l_pc l)(t := Inside i e)) t' = Inside j e'"
    proof cases
      case 1
      then have "j = i" using D(6) [OF _ map] m by simp
      with 1 show ?thesis by auto
    next
      case 2
      from D(7) [OF m 2(2)] obtain t1 where "l_pc l t1 = Inside j e'" by blast
      with pc show ?thesis by (intro exI [of _ t1]) auto
    qed
  next
    fix t1 t2 j k e' assume "((l_pc l)(t := Inside i e)) t1 = Inside j e'" "((l_pc l)(t := Inside i e)) t2 = Inside k e'"
    then show "t1 = t2" using D(8) [of t1 j e' t2 k] none by (auto split: if_split_asm)
  next
    fix t1 j e' assume "pc_entry (((l_pc l)(t := Inside i e)) t1) = Some (j, e')"
    then show "l_map l j = Some e'" using D(1) [of t1 j e'] map by (auto split: if_split_asm)
  qed (use D in \<open>auto split: if_split_asm\<close>)
qed

lemma release_inv:
  assumes inv: "locks_inv l" and pc: "l_pc l t = Inside i e"
  shows "locks_inv (lock_release t i e l)"
proof -
  note D = locks_invD [OF inv]
  let ?l = "lock_release t i e l"
  have l: "l_map ?l = l_map l" "l_refs ?l = l_refs l" "l_held ?l = (l_held l)(e := False)" "l_next ?l = l_next l"
    "l_pc ?l = (l_pc l)(t := Leaving i e)" by (simp_all add: lock_release_def)
  have us: "users_of ?l = users_of l" by (rule same_users [OF l(5)]) (simp add: pc)
  show ?thesis
  proof (rule locks_invI, unfold l us)
    fix j e' assume m: "l_map l j = Some e'" and "((l_held l)(e := False)) e'"
    then have held: "e' \<noteq> e" "l_held l e'" by (auto split: if_split_asm)
    from D(7) [OF m held(2)] obtain t1 where "l_pc l t1 = Inside j e'" by blast
    with held(1) pc show "\<exists>t'. ((l_pc l)(t := Leaving i e)) t' = Inside j e'" by (intro exI [of _ t1]) auto
  next
    fix t1 j e' assume "((l_pc l)(t := Leaving i e)) t1 = Inside j e'"
    then have "l_pc l t1 = Inside j e'" "t1 \<noteq> t" by (auto split: if_split_asm)
    with D(8) [OF pc, of t1 j] D(9) [of t1 j e'] show "((l_held l)(e := False)) e'" by auto
  next
    fix t1 j e' assume "pc_entry (((l_pc l)(t := Leaving i e)) t1) = Some (j, e')"
    then show "l_map l j = Some e'" using D(1) [of t1 j e'] D(1) [of t i e] pc by (auto split: if_split_asm)
  next
    fix t1 t2 j k e' assume "((l_pc l)(t := Leaving i e)) t1 = Inside j e'" "((l_pc l)(t := Leaving i e)) t2 = Inside k e'"
    then show "t1 = t2" using D(8) [of t1 j e' t2 k] by (auto split: if_split_asm)
  qed (use D in \<open>auto split: if_split_asm\<close>)
qed

lemma leave_inv:
  assumes inv: "locks_inv l" and pc: "l_pc l t = Leaving i e"
  shows "locks_inv (lock_leave t i e l)"
proof -
  note D = locks_invD [OF inv]
  let ?l = "lock_leave t i e l" and ?n = "l_refs l e - 1"
  have l: "l_map ?l = (if ?n = 0 then (l_map l)(i := None) else l_map l)" "l_refs ?l = (l_refs l)(e := ?n)"
    "l_held ?l = l_held l" "l_next ?l = l_next l" "l_pc ?l = (l_pc l)(t := Outside)"
    by (simp_all add: lock_leave_def Let_def)
  have map: "l_map l i = Some e" by (rule D(1) [of t]) (simp add: pc)
  have mem: "t \<in> users_of l e" by (simp add: users_of_def pc)
  have us: "users_of ?l e' = users_of l e' - {t}" for e' using users_of_pc [OF l(5)] by simp
  have card: "?n = card (users_of l e - {t})" using D(3,4) [OF map] mem by simp
  have other: "t \<notin> users_of l e'" if "e' \<noteq> e" for e' using that by (simp add: users_of_def pc)
  have sub: "l_map l j = Some e' \<and> (e' = e \<longrightarrow> ?n \<noteq> 0)" if "l_map ?l j = Some e'" for j e'
    using that D(6) [OF _ map, of j] by (auto simp: l(1) split: if_split_asm)
  have last: "users_of l e = {t}" if "?n = 0"
  proof -
    have "finite (users_of l e - {t})" using D(3) [OF map] by (rule finite_Diff)
    moreover have "card (users_of l e - {t}) = 0" using that card by (simp only:)
    ultimately have "users_of l e - {t} = {}" by (simp only: card_0_eq)
    with mem show ?thesis by blast
  qed
  show ?thesis
  proof (rule locks_invI)
    fix t1 j e' assume "pc_entry (l_pc ?l t1) = Some (j, e')"
    then have p: "pc_entry (l_pc l t1) = Some (j, e')" "t1 \<noteq> t" by (auto simp: l(5) split: if_split_asm)
    from D(1) [OF p(1)] have m: "l_map l j = Some e'" .
    have "?n \<noteq> 0" if "e' = e"
    proof
      assume "?n = 0"
      from last [OF this] p that have "t1 \<in> {t}" by (auto simp: users_of_def)
      with p(2) show False by simp
    qed
    moreover have "j \<noteq> i" if "e' \<noteq> e" using m map that by auto
    ultimately show "l_map ?l j = Some e'" using m by (auto simp: l(1))
  next
    fix j e' assume m: "l_map ?l j = Some e'"
    note s = sub [OF m]
    show "e' < l_next ?l" using D(2) [OF conjunct1 [OF s]] by (simp add: l(4))
    show fin: "finite (users_of ?l e')" using D(3) [OF conjunct1 [OF s]] by (simp add: us)
    show "l_refs ?l e' = card (users_of ?l e')"
      using D(4) [of j e'] s card other by (auto simp: us l(2))
    then show "users_of ?l e' \<noteq> {}"
    proof (cases "e' = e")
      case True
      have "card (users_of l e - {t}) \<noteq> 0" using s True unfolding card by blast
      then have "users_of l e - {t} \<noteq> {}" by (metis card.empty)
      then show ?thesis unfolding us True .
    next
      case False
      with D(5) [OF conjunct1 [OF s]] other show ?thesis by (simp add: us)
    qed
    assume "l_held ?l e'"
    with D(7) [of j e'] s obtain t1 where "l_pc l t1 = Inside j e'" by (auto simp: l(3))
    with pc show "\<exists>t. l_pc ?l t = Inside j e'" by (intro exI [of _ t1]) (auto simp: l(5))
  next
    fix j k e' assume "l_map ?l j = Some e'" "l_map ?l k = Some e'"
    with sub D(6) show "j = k" by blast
  next
    fix t1 t2 j k e' assume "l_pc ?l t1 = Inside j e'" "l_pc ?l t2 = Inside k e'"
    then show "t1 = t2" using D(8) [of t1 j e' t2 k] by (auto simp: l(5) split: if_split_asm)
  next
    fix t1 j e' assume "l_pc ?l t1 = Inside j e'"
    then show "l_held ?l e'" using D(9) [of t1 j e'] by (auto simp: l(3,5) split: if_split_asm)
  qed
qed

lemma lock_step_inv: "lock_step l l' \<Longrightarrow> locks_inv l \<Longrightarrow> locks_inv l'"
  by (erule lock_stepE) (simp_all add: entry_inv acquire_inv release_inv leave_inv)

lemma reachable_inv: "lock_step\<^sup>*\<^sup>* no_locks l \<Longrightarrow> locks_inv l"
  by (induction rule: rtranclp_induct) (use no_locks_inv lock_step_inv in blast)+

section \<open>Properties\<close>

text \<open>C20: Mutual exclusion per upload: in every reachable state, two goroutines that are inside the lock of the
  same upload ID are the same goroutine - also when entries were dropped and created again in between.\<close>

theorem upload_lock_exclusive:
  assumes "lock_step\<^sup>*\<^sup>* no_locks l" "l_pc l t = Inside i e" "l_pc l t' = Inside i e'"
  shows "t = t'"
proof -
  note D = locks_invD [OF reachable_inv [OF assms(1)]]
  from D(1) [of t i e] D(1) [of t' i e'] assms(2,3) have "l_map l i = Some e" "l_map l i = Some e'" by simp_all
  with D(8) assms(2,3) show ?thesis by simp
qed

text \<open>C21: No deadlock and no leak: a goroutine that waits for the lock of an upload can always get it within two
  steps of the lock (its own, or the holder's unlocking first), and when every goroutine is outside the table
  of locks is empty again.\<close>

theorem upload_lock_live:
  assumes "lock_step\<^sup>*\<^sup>* no_locks l"
  shows "(l_pc l t = Entered i e \<longrightarrow> (\<exists>l'. lock_step\<^sup>*\<^sup>* l l' \<and> l_pc l' t = Inside i e)) \<and>
    ((\<forall>t. l_pc l t = Outside) \<longrightarrow> l_map l = (\<lambda>_. None))"
proof -
  note D = locks_invD [OF reachable_inv [OF assms]]
  have "\<exists>l'. lock_step\<^sup>*\<^sup>* l l' \<and> l_pc l' t = Inside i e" if pc: "l_pc l t = Entered i e"
  proof (cases "l_held l e")
    case False
    with lock_step.acquire [OF pc] show ?thesis by (intro exI [of _ "lock_acquire t i e l"]) (auto simp: lock_acquire_def)
  next
    case True
    have "l_map l i = Some e" by (rule D(1) [of t]) (simp add: pc)
    from D(7) [OF this True] obtain t' where t': "l_pc l t' = Inside i e" by blast
    let ?l = "lock_release t' i e l"
    have "t' \<noteq> t" using pc t' by auto
    then have "l_pc ?l t = Entered i e" "\<not> l_held ?l e" by (simp_all add: lock_release_def pc)
    from lock_step.acquire [OF this] lock_step.release [OF t']
    have "lock_step\<^sup>*\<^sup>* l (lock_acquire t i e ?l)" by (meson converse_rtranclp_into_rtranclp r_into_rtranclp)
    then show ?thesis by (intro exI [of _ "lock_acquire t i e ?l"]) (simp add: lock_acquire_def)
  qed
  moreover have "l_map l = (\<lambda>_. None)" if "\<forall>t. l_pc l t = Outside"
  proof
    fix i
    show "l_map l i = None"
    proof (rule ccontr)
      assume "l_map l i \<noteq> None"
      then obtain e where "l_map l i = Some e" by blast
      from D(5) [OF this] that show False by (auto simp: users_of_def)
    qed
  qed
  ultimately show ?thesis by blast
qed

text \<open>Two goroutines lock \<open>u\<close> one after the other; the second enters while the first is inside.\<close>

definition demo_locks1 :: uploadLocks where
  "demo_locks1 = lock_enter 1 ''u'' (lock_acquire 0 ''u'' 0 (lock_enter 0 ''u'' no_locks))"

definition demo_locks :: uploadLocks where
  "demo_locks = lock_acquire 1 ''u'' 0 (lock_leave 0 ''u'' 0 (lock_release 0 ''u'' 0 demo_locks1))"

lemmas demo_locks_defs = demo_locks_def demo_locks1_def no_locks_def lock_enter_def lock_acquire_def
  lock_release_def lock_leave_def Let_def

lemma demo_locks1_reachable: "lock_step\<^sup>*\<^sup>* no_locks demo_locks1"
proof -
  have "lock_step no_locks (lock_enter 0 ''u'' no_locks)"
    by (rule lock_step.enter) (simp add: no_locks_def)
  moreover have "lock_step (lock_enter 0 ''u'' no_locks) (lock_acquire 0 ''u'' 0 (lock_enter 0 ''u'' no_locks))"
    by (rule lock_step.acquire) (simp_all add: demo_locks_defs)
  moreover have "lock_step (lock_acquire 0 ''u'' 0 (lock_enter 0 ''u'' no_locks)) demo_locks1"
    unfolding demo_locks1_def by (rule lock_step.enter) (simp add: demo_locks_defs)
  ultimately show ?thesis by (meson rtranclp.rtrancl_into_rtrancl rtranclp.rtrancl_refl)
qed

lemma demo_locks_reachable: "lock_step\<^sup>*\<^sup>* no_locks demo_locks"
proof -
  have "lock_step demo_locks1 (lock_release 0 ''u'' 0 demo_locks1)"
    by (rule lock_step.release) (simp add: demo_locks_defs)
  moreover have "lock_step (lock_release 0 ''u'' 0 demo_locks1) (lock_leave 0 ''u'' 0 (lock_release 0 ''u'' 0 demo_locks1))"
    by (rule lock_step.leave) (simp add: demo_locks_defs)
  moreover have "lock_step (lock_leave 0 ''u'' 0 (lock_release 0 ''u'' 0 demo_locks1)) demo_locks"
    unfolding demo_locks_def by (rule lock_step.acquire) (simp_all add: demo_locks_defs)
  ultimately show ?thesis using demo_locks1_reachable by (meson rtranclp.rtrancl_into_rtrancl)
qed

theorem upload_lock_exclusive_witness:
  "{t. l_pc demo_locks t = Inside ''u'' 0} = {1}"
proof -
  have pc: "l_pc demo_locks 1 = Inside ''u'' 0"
    by (simp add: demo_locks_def lock_acquire_def)
  with upload_lock_exclusive [OF demo_locks_reachable _ pc] show ?thesis by blast
qed

theorem upload_lock_live_witness:
  "\<exists>l'. lock_step\<^sup>*\<^sup>* (lock_enter 2 ''u'' demo_locks) l' \<and> l_pc l' 2 = Inside ''u'' 0"
proof -
  have "l_pc demo_locks 2 = Outside"
    by (simp add: demo_locks_defs)
  from rtranclp.rtrancl_into_rtrancl [OF demo_locks_reachable lock_step.enter [OF this]]
  have "lock_step\<^sup>*\<^sup>* no_locks (lock_enter 2 ''u'' demo_locks)" .
  moreover have "l_pc (lock_enter 2 ''u'' demo_locks) 2 = Entered ''u'' 0"
    by (simp add: demo_locks_defs)
  ultimately show ?thesis using upload_lock_live by blast
qed

end
