(* ===== verification/HB_Maintenance_Inv.thy ===== *)
theory HB_Maintenance_Inv
  imports HB_Maintenance HB_Uploads_Complete
begin

text \<open>
  Maintenance keeps the vault and the storage well formed (\<open>server_inv\<close>). Every step of it only removes:
  \<open>vault_inv_remove\<close> and \<open>storage_inv_remove\<close> say which removals are harmless, and each step is shown to be
  one of them.
\<close>

section \<open>Loops of steps\<close>

lemma sbind_simps [simp]:
  "sbind (s, Inl e) f = (s, Inl e)" "sbind (s, Inr x) f = f s x"
  by (simp_all add: sbind_def)

lemma fst_sbind: "fst (sbind m f) = (case snd m of Inl e \<Rightarrow> fst m | Inr x \<Rightarrow> fst (f (fst m) x))"
  by (cases m) (auto simp: sbind_def split: sum.split)

lemma sbind_inv:
  assumes "P (fst m)" "\<And>s x. m = (s, Inr x) \<Longrightarrow> P s \<Longrightarrow> P (fst (f s x))"
  shows "P (fst (sbind m f))"
  using assms by (cases m, cases "snd m") auto

lemma each_inv:
  assumes "P s" "\<And>s x. P s \<Longrightarrow> x \<in> set xs \<Longrightarrow> P (fst (f s x))"
  shows "P (fst (each f xs s n))"
  using assms
proof (induction xs arbitrary: s n)
  case (Cons x xs)
  show ?case unfolding each.simps
  proof (rule sbind_inv)
    show "P (fst (f s x))" by (rule Cons.prems) (simp_all add: Cons.prems)
    fix s' b assume "P s'"
    then show "P (fst (each f xs s' (if b then n + 1 else n)))" by (rule Cons.IH) (simp add: Cons.prems)
  qed
qed simp

lemma del_none [simp]: "del (\<lambda>_. False) xs = xs"
  by (simp add: del_def)

lemma del_member: "x \<in> set (del p xs) \<longleftrightarrow> x \<in> set xs \<and> \<not> p x"
  by simp

section \<open>The purged subtree\<close>

lemma cte_iter_cong:
  assumes "\<And>a n. a \<in> set tbl \<Longrightarrow> n \<in> set tbl \<Longrightarrow> j a n = j' a n"
  shows "set acc \<subseteq> set tbl \<Longrightarrow> cte_iter k j tbl acc = cte_iter k j' tbl acc"
proof (induction k arbitrary: acc)
  case (Suc k)
  have "filter (\<lambda>n. n \<notin> set acc \<and> (\<exists>a\<in>set acc. j a n)) tbl = filter (\<lambda>n. n \<notin> set acc \<and> (\<exists>a\<in>set acc. j' a n)) tbl"
    using assms Suc.prems by (intro filter_cong) auto
  moreover have "set (acc @ filter (\<lambda>n. n \<notin> set acc \<and> (\<exists>a\<in>set acc. j' a n)) tbl) \<subseteq> set tbl" using Suc.prems by auto
  ultimately show ?case using Suc.IH by simp
qed simp

definition in_trash :: "db \<Rightarrow> id \<Rightarrow> time \<Rightarrow> bool" where
  "in_trash s i cutoff \<longleftrightarrow> (\<exists>r\<in>set (nodes s). n_id r = i \<and> (\<exists>t. n_deleted_at r = Some t \<and> stamp t \<le> stamp cutoff))"

lemma trashSubtree_subtree:
  assumes inv: "vault_inv s" and i: "in_trash s i cutoff"
  shows "trashSubtree s i cutoff = subtree (nodes s) i"
proof -
  note D = vault_invD [OF inv]
  from i obtain r t where r: "r \<in> set (nodes s)" "n_id r = i" "n_deleted_at r = Some t" "stamp t \<le> stamp cutoff"
    unfolding in_trash_def by blast
  have start: "filter (\<lambda>n. n_id n = i \<and> (case n_deleted_at n of None \<Rightarrow> False | Some t \<Rightarrow> stamp t \<le> stamp cutoff)) (nodes s)
    = filter (\<lambda>n. n_id n = i) (nodes s)"
  proof (rule filter_cong)
    fix n assume "n \<in> set (nodes s)"
    then have "n = r" if "n_id n = i" by (rule distinct_map_eq [OF D(8) _ r(1)]) (simp add: that r(2))
    with r show "(n_id n = i \<and> (case n_deleted_at n of None \<Rightarrow> False | Some t \<Rightarrow> stamp t \<le> stamp cutoff)) = (n_id n = i)"
      by (cases "n_id n = i") simp_all
  qed simp
  show ?thesis unfolding trashSubtree_def subtree_def start cte_union_def
  proof (rule cte_iter_cong)
    fix a n assume a: "a \<in> set (nodes s)" and n: "n \<in> set (nodes s)"
    have "n_owner_id n = n_owner_id a" if "n_parent_id n = Some (n_id a)"
    proof -
      from that n D(9) obtain m where m: "m \<in> set (nodes s)" "n_id m = n_id a" "n_owner_id m = n_owner_id n"
        unfolding parents_ok_def by blast
      have "m = a" by (rule distinct_map_eq [OF D(8) m(1) a m(2)])
      with m(3) show ?thesis by simp
    qed
    then show "(n_parent_id n = Some (n_id a) \<and> n_owner_id n = n_owner_id a) = (n_parent_id n = Some (n_id a))" by blast
  qed simp
qed

lemma cte_iter_Nil: "cte_iter k j tbl [] = []"
  by (induction k) auto

lemma trashSubtree_none: "\<not> in_trash s i cutoff \<Longrightarrow> trashSubtree s i cutoff = []"
proof -
  assume "\<not> in_trash s i cutoff"
  then have "filter (\<lambda>n. n_id n = i \<and> (case n_deleted_at n of None \<Rightarrow> False | Some t \<Rightarrow> stamp t \<le> stamp cutoff)) (nodes s) = []"
    by (auto simp: in_trash_def filter_empty_conv split: option.split_asm)
  then show ?thesis by (simp add: trashSubtree_def cte_union_def cte_iter_Nil)
qed

definition purged :: "db \<Rightarrow> id \<Rightarrow> time \<Rightarrow> id set" where
  "purged s i cutoff = n_id ` set (trashSubtree s i cutoff)"

lemma purged_iff:
  assumes inv: "vault_inv s"
  shows "j \<in> purged s i cutoff \<longleftrightarrow> in_trash s i cutoff \<and> j \<in> n_id ` set (nodes s) \<and> (j, i) \<in> (par (nodes s))\<^sup>*"
proof (cases "in_trash s i cutoff")
  case True
  then obtain r where r: "r \<in> set (nodes s)" "n_id r = i" by (auto simp: in_trash_def)
  note iff = subtree_iff [OF vault_invD(8) [OF inv] r]
  show ?thesis unfolding purged_def trashSubtree_subtree [OF inv True] using True iff by auto
next
  case False
  then show ?thesis by (simp add: purged_def trashSubtree_none)
qed

lemma purged_closed:
  assumes inv: "vault_inv s" and n: "n \<in> set (nodes s)" "n_parent_id n = Some p" "p \<in> purged s i cutoff"
  shows "n_id n \<in> purged s i cutoff"
proof -
  have "(n_id n, p) \<in> par (nodes s)" using n(1,2) by (auto simp: par_def)
  then show ?thesis using n unfolding purged_iff [OF inv] by (auto intro: converse_rtrancl_into_rtrancl)
qed

section \<open>Harmless removals\<close>

lemma purge_changes_in: "c \<in> set (purge_changes now seq ns) \<Longrightarrow> c_node_id c \<in> n_id ` set ns \<and>
    seq < c_revision c \<and> c_revision c \<le> seq + int (length ns)"
  by (induction ns arbitrary: seq) force+

lemma purge_changes_sorted: "sorted_wrt (<) (map c_revision (purge_changes now seq ns))"
  by (induction ns arbitrary: seq) (force dest: purge_changes_in)+

lemma feed_ok_purge:
  assumes "feed_ok s" "sync_changes s' = sync_changes s @ purge_changes now (sync_seq s) ns"
    "sync_seq s' = sync_seq s + int (length ns)"
  shows "feed_ok s'"
  using assms purge_changes_sorted
  by (fastforce simp: feed_ok_def sorted_wrt_append dest: purge_changes_in)

lemma vault_inv_remove:
  assumes inv: "vault_inv s" and ns: "nodes s' = del (\<lambda>n. n_id n \<in> T) (nodes s)"
    and closed: "\<And>n p. n \<in> set (nodes s) \<Longrightarrow> n_parent_id n = Some p \<Longrightarrow> p \<in> T \<Longrightarrow> n_id n \<in> T"
    and cs: "sync_changes s' = sync_changes s @ purge_changes now (sync_seq s) xs"
    and seq: "sync_seq s' = sync_seq s + int (length xs)" and xs: "n_id ` set xs \<subseteq> T"
    and shs: "shares s' = del (\<lambda>sh. sh_node_id sh \<in> T) (shares s)"
    and ks: "folder_keys s' = del (\<lambda>k. k_folder_id k \<in> T \<and> Q k) (folder_keys s)"
  shows "vault_inv s'"
proof -
  note D = vault_invD [OF inv]
  have par: "par (nodes s') \<subseteq> par (nodes s)" by (auto simp: par_def ns)
  have keyed: "keyed s i" if "keyed s' i" for i using that by (auto simp: keyed_def ks)
  have "forest (nodes s')" unfolding forest_def
  proof (intro conjI)
    show "distinct (map n_id (nodes s'))" unfolding ns by (rule distinct_map_del [OF D(8)])
    show "acyclic (par (nodes s'))" by (rule acyclic_subset [OF D(10) par])
    show "parents_ok (nodes s')" unfolding parents_ok_def
    proof (intro ballI allI impI)
      fix n p assume n: "n \<in> set (nodes s')" "n_parent_id n = Some p"
      then obtain m where m: "m \<in> set (nodes s)" "n_id m = p" "n_node_type m = ''DIRECTORY''" "n_owner_id m = n_owner_id n"
        using D(9) by (auto simp: parents_ok_def ns)
      from n closed have "p \<notin> T" by (auto simp: ns)
      with m show "\<exists>m\<in>set (nodes s'). n_id m = p \<and> n_node_type m = ''DIRECTORY'' \<and> n_owner_id m = n_owner_id n"
        by (auto simp: ns)
    qed
  qed
  moreover have "feed_ok s'" by (rule feed_ok_purge [OF D(2) cs seq])
  moreover have "tracked s'"
    using D(3) xs by (fastforce simp: tracked_def ns cs dest: purge_changes_in)
  moreover have "scopes_disjoint s'"
    using D(4) keyed trancl_mono [OF _ par] unfolding scopes_disjoint_def by blast
  moreover have "keys_owned s'" using D(5) by (auto simp: keys_owned_def ks ns)
  moreover have "shares_ok s'" unfolding shares_ok_def
  proof (intro conjI ballI)
    show "distinct (map sh_id (shares s'))" using D(6) unfolding shs shares_ok_def by (intro distinct_map_del) simp
    show "one_share s'" using D(11) by (auto simp: one_share_def shs)
    fix sh assume "sh \<in> set (shares s')"
    then have sh: "sh \<in> set (shares s)" "sh_node_id sh \<notin> T" by (simp_all add: shs)
    from sh(1) D(6) show "sh_target_user_id sh \<noteq> sh_owner_user_id sh" by (simp add: shares_ok_def)
    from sh(1) D(6) obtain k where "k \<in> set (folder_keys s)" "k_folder_id k = sh_node_id sh"
      by (auto simp: shares_ok_def keyed_def)
    with sh(2) show "keyed s' (sh_node_id sh)" unfolding keyed_def ks by (intro bexI [of _ k]) simp_all
    from sh D(6) show "\<exists>n\<in>set (nodes s'). n_id n = sh_node_id sh \<and> n_owner_id n = sh_owner_user_id sh \<and> n_node_type n = ''DIRECTORY''"
      by (fastforce simp: shares_ok_def ns)
  qed
  moreover have "ids_ok s'" using D(7) keyed by (auto simp: ids_ok_def ns)
  ultimately show ?thesis by (simp add: vault_inv_def)
qed

text \<open>Rows and files may go as long as no kept row needs them.\<close>

lemma storage_inv_remove:
  assumes inv: "storage_inv H sv" and d: "disk_ok (sv_disk sv')"
    and tables: "nodes (sv_db sv') = del pn (nodes (sv_db sv))" "blobs (sv_db sv') = del pb (blobs (sv_db sv))"
      "file_versions (sv_db sv') = del pf (file_versions (sv_db sv))"
      "upload_sessions (sv_db sv') = del ps (upload_sessions (sv_db sv))"
      "upload_chunks (sv_db sv') = del pc (upload_chunks (sv_db sv))"
    and blob: "\<And>f b. f \<in> set (file_versions (sv_db sv)) \<Longrightarrow> \<not> pf f \<Longrightarrow> b \<in> set (blobs (sv_db sv)) \<Longrightarrow> b_id b = f_blob_id f \<Longrightarrow> \<not> pb b"
    and nd: "\<And>f n. f \<in> set (file_versions (sv_db sv)) \<Longrightarrow> \<not> pf f \<Longrightarrow> n \<in> set (nodes (sv_db sv)) \<Longrightarrow> n_id n = f_node_id f \<Longrightarrow> \<not> pn n"
    and cur: "\<And>f n. f \<in> set (file_versions (sv_db sv)) \<Longrightarrow> n \<in> set (nodes (sv_db sv)) \<Longrightarrow> \<not> pn n \<Longrightarrow>
      n_id n = f_node_id f \<Longrightarrow> n_current_version_id n = Some (f_id f) \<Longrightarrow> \<not> pf f"
    and ses: "\<And>c r. c \<in> set (upload_chunks (sv_db sv)) \<Longrightarrow> \<not> pc c \<Longrightarrow> r \<in> set (upload_sessions (sv_db sv)) \<Longrightarrow>
      us_id r = uc_upload_id c \<Longrightarrow> \<not> ps r"
    and bfile: "\<And>b. b \<in> set (blobs (sv_db sv)) \<Longrightarrow> \<not> pb b \<Longrightarrow>
      file_at (sv_disk sv') (blob_path (b_id b)) = file_at (sv_disk sv) (blob_path (b_id b))"
    and cfile: "\<And>r k. r \<in> set (upload_sessions (sv_db sv)) \<Longrightarrow> \<not> ps r \<Longrightarrow> reserved r \<Longrightarrow>
      file_at (sv_disk sv') (chunk_path (us_id r) k) = file_at (sv_disk sv) (chunk_path (us_id r) k)"
  shows "storage_inv H sv'"
proof -
  note S = storage_invD [OF inv]
  have "blobs_stored H sv'" unfolding blobs_stored_def tables
  proof (intro conjI ballI)
    show "distinct (map b_id (del pb (blobs (sv_db sv))))" using S(2) by (intro distinct_map_del) (simp add: blobs_stored_def)
    fix b assume "b \<in> set (del pb (blobs (sv_db sv)))"
    then have b: "b \<in> set (blobs (sv_db sv))" "\<not> pb b" by simp_all
    with S(2) show "b_storage_rel_path b = blob_path (b_id b)"
      "\<exists>c. file_at (sv_disk sv') (blob_path (b_id b)) = Some c \<and> int (length c) = b_ciphertext_size b \<and> H c = b_ciphertext_sha256 b"
      by (simp_all add: bfile blobs_stored_def)
  qed
  moreover have "versions_ok (sv_db sv')" unfolding versions_ok_def tables
  proof (intro conjI ballI)
    show "distinct (map f_id (del pf (file_versions (sv_db sv))))" using S(3) by (intro distinct_map_del) (simp add: versions_ok_def)
    fix f assume "f \<in> set (del pf (file_versions (sv_db sv)))"
    then have f: "f \<in> set (file_versions (sv_db sv))" "\<not> pf f" by simp_all
    with S(3) obtain b n where b: "b \<in> set (blobs (sv_db sv))" "b_id b = f_blob_id f"
      and n: "n \<in> set (nodes (sv_db sv))" "n_id n = f_node_id f" by (force simp: versions_ok_def)
    from blob [OF f b] b show "f_blob_id f \<in> b_id ` set (del pb (blobs (sv_db sv)))" by force
    from nd [OF f n] n show "f_node_id f \<in> n_id ` set (del pn (nodes (sv_db sv)))" by force
  qed
  moreover have "current_ok (sv_db sv')" unfolding current_ok_def tables
  proof (intro ballI allI impI)
    fix n v assume "n \<in> set (del pn (nodes (sv_db sv)))" and v: "n_current_version_id n = Some v"
    then have n: "n \<in> set (nodes (sv_db sv))" "\<not> pn n" by simp_all
    with v S(4) obtain f where f: "f \<in> set (file_versions (sv_db sv))" "f_id f = v" "f_node_id f = n_id n"
      by (auto simp: current_ok_def)
    with cur [OF f(1) n] v show "\<exists>f\<in>set (del pf (file_versions (sv_db sv))). f_id f = v \<and> f_node_id f = n_id n" by auto
  qed
  moreover have "sessions_ok (sv_db sv')"
  proof (rule sessions_okI, unfold tables)
    show "distinct (map us_id (del ps (upload_sessions (sv_db sv))))" by (rule distinct_map_del [OF S(7)])
    fix r assume r: "r \<in> set (del ps (upload_sessions (sv_db sv)))"
    then have r: "r \<in> set (upload_sessions (sv_db sv))" by simp
    show "session_ok r" by (rule sessions_okD(1) [OF S(5) r])
    show "us_blob_id r \<notin> b_id ` set (del pb (blobs (sv_db sv))) \<and>
      us_file_version_id r \<notin> f_id ` set (del pf (file_versions (sv_db sv)))" if q: "reserved r"
      using sessions_okD(2,3) [OF S(5) r q] by auto
    fix r' assume "r' \<in> set (del ps (upload_sessions (sv_db sv)))"
    then have r': "r' \<in> set (upload_sessions (sv_db sv))" by simp
    assume "reserved r" "reserved r'" "us_blob_id r = us_blob_id r' \<or> us_file_version_id r = us_file_version_id r'"
    then show "r = r'" using sessions_okD(4,5) [OF S(5) r r'] by blast
  qed
  moreover have "chunks_ok H sv'" unfolding chunks_ok_def tables
  proof (intro conjI ballI impI)
    show "distinct (map (\<lambda>c. (uc_upload_id c, uc_chunk_no c)) (del pc (upload_chunks (sv_db sv))))"
      using S(6) by (intro distinct_map_del) (simp add: chunks_ok_def)
    fix c assume "c \<in> set (del pc (upload_chunks (sv_db sv)))"
    then have c: "c \<in> set (upload_chunks (sv_db sv))" "\<not> pc c" by simp_all
    with S(6) obtain r where r: "r \<in> set (upload_sessions (sv_db sv))" "us_id r = uc_upload_id c" by (force simp: chunks_ok_def)
    from ses [OF c r] r show "uc_upload_id c \<in> us_id ` set (del ps (upload_sessions (sv_db sv)))" by force
  next
    fix r c assume "r \<in> set (del ps (upload_sessions (sv_db sv)))" "c \<in> set (del pc (upload_chunks (sv_db sv)))"
      and q: "reserved r" "uc_upload_id c = us_id r"
    then have "r \<in> set (upload_sessions (sv_db sv))" "\<not> ps r" "c \<in> set (upload_chunks (sv_db sv))" by simp_all
    with q S(6) have "chunk_stored H (sv_disk sv) r c" by (simp add: chunks_ok_def)
    then show "chunk_stored H (sv_disk sv') r c"
      using cfile [of r "uc_chunk_no c"] \<open>r \<in> set (upload_sessions (sv_db sv))\<close> \<open>\<not> ps r\<close> q(1)
      by (auto simp: chunk_stored_def)
  qed
  ultimately show ?thesis using d by (simp add: storage_inv_def)
qed

section \<open>Trash\<close>

lemma disk_ok_remove_uploads [simp]: "disk_ok d \<Longrightarrow> disk_ok (remove_uploads ids d)"
  by (induction ids arbitrary: d) (simp_all add: remove_uploads_def)

lemma file_at_remove_uploads_blob [simp]: "file_at (remove_uploads ids d) (blob_path j) = file_at d (blob_path j)"
  by (induction ids arbitrary: d) (simp_all add: remove_uploads_def)

lemma file_at_remove_uploads:
  assumes "CHR ''/'' \<notin> set j" "\<And>i. i \<in> set ids \<Longrightarrow> CHR ''/'' \<notin> set i \<and> i \<noteq> j"
  shows "file_at (remove_uploads ids d) (chunk_path j k) = file_at d (chunk_path j k)"
  using assms(2)
proof (induction ids arbitrary: d)
  case (Cons i ids)
  then have "file_at (remove_all (uploadDir i) d) (chunk_path j k) = file_at d (chunk_path j k)"
    using file_at_remove_upload [of i j d k] assms(1) by simp
  moreover have "file_at (remove_uploads ids (remove_all (uploadDir i) d)) (chunk_path j k) =
      file_at (remove_all (uploadDir i) d) (chunk_path j k)"
    by (rule Cons.IH) (use Cons.prems in simp)
  ultimately show ?case by (simp add: remove_uploads_def)
qed (simp add: remove_uploads_def)

definition target_uploads :: "db \<Rightarrow> id set \<Rightarrow> id list" where
  "target_uploads s T = map us_id (filter (\<lambda>r. us_target_node_id r \<in> T) (upload_sessions s))"

definition purge_server :: "time \<Rightarrow> time \<Rightarrow> server \<Rightarrow> id \<Rightarrow> server" where
  "purge_server now cutoff sv i =
     (let ns = trashSubtree (sv_db sv) i cutoff; s1 = purge_rows now (sv_db sv) ns
      in sv\<lparr>sv_db := s1\<lparr>nodes := del (\<lambda>n. n_id n \<in> purged (sv_db sv) i cutoff) (nodes s1)\<rparr>,
        sv_disk := remove_uploads (target_uploads (sv_db sv) (purged (sv_db sv) i cutoff)) (sv_disk sv)\<rparr>)"

lemma purge_rows_simps [simp]:
  "nodes (purge_rows now s ns) = nodes s"
  "blobs (purge_rows now s ns) = blobs s"
  "sync_changes (purge_rows now s ns) = sync_changes s @ purge_changes now (sync_seq s) ns"
  "sync_seq (purge_rows now s ns) = sync_seq s + int (length ns)"
  "shares (purge_rows now s ns) = del (\<lambda>sh. sh_node_id sh \<in> n_id ` set ns) (shares s)"
  "file_versions (purge_rows now s ns) = del (\<lambda>f. f_node_id f \<in> n_id ` set ns) (file_versions s)"
  "upload_sessions (purge_rows now s ns) = del (\<lambda>r. us_target_node_id r \<in> n_id ` set ns) (upload_sessions s)"
  "upload_chunks (purge_rows now s ns) = del (\<lambda>c. uc_upload_id c \<in> set (target_uploads s (n_id ` set ns))) (upload_chunks s)"
  "folder_keys (purge_rows now s ns) =
     del (\<lambda>k. k_folder_id k \<in> n_id ` set ns \<and> folder_key_unused s (map n_id ns) (k_folder_id k)) (folder_keys s)"
  "users (purge_rows now s ns) = users s" "devices (purge_rows now s ns) = devices s"
  "gc_blob_candidates (purge_rows now s ns) = gc_blob_candidates s"
  "gc_orphan_blob_files (purge_rows now s ns) = gc_orphan_blob_files s"
  by (simp_all add: purge_rows_def target_uploads_def Let_def)

lemma purgeSubtree_eq:
  assumes inv: "vault_inv (sv_db sv)"
  shows "purgeSubtree U now cutoff sv i =
    (if \<exists>u\<in>set (target_uploads (sv_db sv) (purged (sv_db sv) i cutoff)). uuid_Parse U u = None
     then (sv, Inl (Internal ''invalid upload ID in Trash subtree''))
     else (purge_server now cutoff sv i, Inr (in_trash (sv_db sv) i cutoff)))"
proof -
  let ?s = "sv_db sv" and ?T = "purged (sv_db sv) i cutoff"
  have fk: "\<not> (\<exists>n\<in>set (nodes ?s). n_id n \<notin> ?T \<and> (\<exists>p\<in>?T. n_parent_id n = Some p))"
    using purged_closed [OF inv] by blast
  have removed: "(0 < count_rows (\<lambda>n. n_id n \<in> ?T) (nodes ?s)) = in_trash ?s i cutoff"
  proof
    assume "0 < count_rows (\<lambda>n. n_id n \<in> ?T) (nodes ?s)"
    then have "\<exists>n\<in>set (nodes ?s). n_id n \<in> ?T" by (auto simp: count_rows_def filter_empty_conv)
    then show "in_trash ?s i cutoff" unfolding purged_iff [OF inv] by blast
  next
    assume t: "in_trash ?s i cutoff"
    then obtain r where r: "r \<in> set (nodes ?s)" "n_id r = i" by (auto simp: in_trash_def)
    with t have "n_id r \<in> ?T" unfolding purged_iff [OF inv] by auto
    with r show "0 < count_rows (\<lambda>n. n_id n \<in> ?T) (nodes ?s)" by (auto simp: count_rows_def filter_empty_conv)
  qed
  have T: "set (map n_id (trashSubtree ?s i cutoff)) = ?T" by (simp add: purged_def)
  show ?thesis
    unfolding purgeSubtree_def purge_server_def Let_def T target_uploads_def [symmetric] purge_rows_simps(1)
    by (simp only: fk removed if_False)
qed

lemma target_uploads_iff: "u \<in> set (target_uploads s T) \<longleftrightarrow> (\<exists>r\<in>set (upload_sessions s). us_id r = u \<and> us_target_node_id r \<in> T)"
  by (auto simp: target_uploads_def)

lemma purge_server_inv:
  assumes inv: "server_inv H sv"
  shows "server_inv H (purge_server now cutoff sv i)"
proof -
  let ?s = "sv_db sv" and ?T = "purged (sv_db sv) i cutoff" and ?ns = "trashSubtree (sv_db sv) i cutoff"
  have v: "vault_inv ?s" and st: "storage_inv H sv" using inv by (simp_all add: server_inv_def)
  have T: "n_id ` set ?ns = ?T" by (simp add: purged_def)
  have db: "sv_db (purge_server now cutoff sv i) = (purge_rows now ?s ?ns)\<lparr>nodes := del (\<lambda>n. n_id n \<in> ?T) (nodes ?s)\<rparr>"
    and disk: "sv_disk (purge_server now cutoff sv i) = remove_uploads (target_uploads ?s ?T) (sv_disk sv)"
    by (simp_all add: purge_server_def Let_def)
  have "vault_inv (sv_db (purge_server now cutoff sv i))"
    by (rule vault_inv_remove [OF v, where T = ?T and xs = ?ns and now = now
          and Q = "\<lambda>k. folder_key_unused ?s (map n_id ?ns) (k_folder_id k)"])
      (simp_all add: db T purged_closed [OF v])
  moreover have "storage_inv H (purge_server now cutoff sv i)"
  proof (rule storage_inv_remove [OF st, where pn = "\<lambda>n. n_id n \<in> ?T" and pb = "\<lambda>_. False" and pf = "\<lambda>f. f_node_id f \<in> ?T"
        and ps = "\<lambda>r. us_target_node_id r \<in> ?T" and pc = "\<lambda>c. uc_upload_id c \<in> set (target_uploads ?s ?T)"])
    show "disk_ok (sv_disk (purge_server now cutoff sv i))" using storage_invD(1) [OF st] by (simp add: disk)
  next
    fix r k assume r: "r \<in> set (upload_sessions ?s)" "us_target_node_id r \<notin> ?T"
    show "file_at (sv_disk (purge_server now cutoff sv i)) (chunk_path (us_id r) k) = file_at (sv_disk sv) (chunk_path (us_id r) k)"
      unfolding disk
    proof (rule file_at_remove_uploads)
      show "CHR ''/'' \<notin> set (us_id r)" by (rule session_slash [OF st r(1)])
      fix u assume "u \<in> set (target_uploads ?s ?T)"
      then obtain r' where r': "r' \<in> set (upload_sessions ?s)" "us_id r' = u" "us_target_node_id r' \<in> ?T"
        unfolding target_uploads_iff by blast
      have "u \<noteq> us_id r"
      proof
        assume "u = us_id r"
        then have "r' = r" by (intro distinct_map_eq [OF storage_invD(7) [OF st] r'(1) r(1)]) (simp add: r'(2))
        with r' r(2) show False by simp
      qed
      with session_slash [OF st r'(1)] r'(2) show "CHR ''/'' \<notin> set u \<and> u \<noteq> us_id r" by simp
    qed
  next
    fix c r assume "c \<in> set (upload_chunks ?s)" "uc_upload_id c \<notin> set (target_uploads ?s ?T)" "r \<in> set (upload_sessions ?s)" "us_id r = uc_upload_id c"
    then show "us_target_node_id r \<notin> ?T" unfolding target_uploads_iff by blast
  qed (simp_all add: db disk T)
  ultimately show ?thesis by (simp add: server_inv_def)
qed

lemma purgeSubtree_inv: "server_inv H sv \<Longrightarrow> server_inv H (fst (purgeSubtree U now cutoff sv i))"
  using purge_server_inv [of H sv now cutoff i] purgeSubtree_eq [of sv U now cutoff i] by (simp add: server_inv_def)

lemma cleanupExpiredTrash_inv: "server_inv H sv \<Longrightarrow> server_inv H (fst (cleanupExpiredTrash U pol now sv))"
  unfolding cleanupExpiredTrash_def Let_def by (rule each_inv [where P = "server_inv H"]) (simp_all add: purgeSubtree_inv)

lemma PurgeTrashEntry_inv:
  assumes inv: "server_inv H sv"
  shows "server_inv H (fst (PurgeTrashEntry U now sv u i))"
  using inv purgeSubtree_inv [OF inv]
  by (simp add: PurgeTrashEntry_def fst_sbind split: option.split sum.split)

section \<open>Versions, tokens and upload sessions\<close>

lemma old_versions_iff:
  "f \<in> set (old_versions s) \<longleftrightarrow> f \<in> set (file_versions s) \<and>
     (\<exists>n\<in>set (nodes s). n_id n = f_node_id f \<and> (\<exists>v. n_current_version_id n = Some v \<and> f_id f \<noteq> v))"
proof -
  have cv: "(case x of None \<Rightarrow> False | Some v \<Rightarrow> f_id f \<noteq> v) = (\<exists>v. x = Some v \<and> f_id f \<noteq> v)" for x f
    by (simp split: option.split)
  show ?thesis by (auto simp: old_versions_def cv)
qed

lemma prunable_version:
  assumes st: "storage_inv H sv" and d: "distinct (map n_id (nodes (sv_db sv)))"
    and f: "f \<in> set (file_versions (sv_db sv))"
    and n: "n \<in> set (nodes (sv_db sv))" "n_id n = f_node_id f" "n_current_version_id n = Some (f_id f)"
  shows "\<not> prunable pol now (sv_db sv) f"
proof
  assume "prunable pol now (sv_db sv) f"
  then have "f \<in> set (old_versions (sv_db sv))" by (simp add: prunable_def)
  then obtain m where m: "m \<in> set (nodes (sv_db sv))" "n_id m = f_node_id f" "n_current_version_id m \<noteq> Some (f_id f)"
    unfolding old_versions_iff by auto
  have "m = n" by (rule distinct_map_eq [OF d m(1) n(1)]) (simp add: m(2) n(2))
  with m n show False by simp
qed

lemma prune_ids:
  assumes "distinct (map f_id (file_versions s))" "f \<in> set (file_versions s)"
  shows "f_id f \<in> set (map f_id (filter P (file_versions s))) \<longleftrightarrow> P f"
proof
  assume "f_id f \<in> set (map f_id (filter P (file_versions s)))"
  then obtain g where g: "g \<in> set (file_versions s)" "P g" "f_id g = f_id f" by auto
  have "g = f" by (rule distinct_map_eq [OF assms(1) g(1) assms(2) g(3)])
  with g show "P f" by simp
qed (use assms in auto)

lemma del_cong: "(\<And>x. x \<in> set xs \<Longrightarrow> p x = q x) \<Longrightarrow> del p xs = del q xs"
  unfolding del_def by (rule filter_cong) simp_all

lemma count_rows_cong: "(\<And>x. x \<in> set xs \<Longrightarrow> p x = q x) \<Longrightarrow> count_rows p xs = count_rows q xs"
  unfolding count_rows_def by (rule arg_cong [where f = length]) (rule filter_cong, simp_all)

lemma pruneFileVersions_eq:
  assumes "distinct (map f_id (file_versions (sv_db sv)))"
  shows "pruneFileVersions pol now sv =
    (sv\<lparr>sv_db := (sv_db sv)\<lparr>file_versions := del (prunable pol now (sv_db sv)) (file_versions (sv_db sv))\<rparr>\<rparr>,
     Inr (count_rows (prunable pol now (sv_db sv)) (file_versions (sv_db sv))))"
proof -
  let ?ids = "map f_id (filter (prunable pol now (sv_db sv)) (file_versions (sv_db sv)))"
  have "del (\<lambda>f. f_id f \<in> set ?ids) (file_versions (sv_db sv)) = del (prunable pol now (sv_db sv)) (file_versions (sv_db sv))"
    by (rule del_cong) (rule prune_ids [OF assms])
  moreover have "count_rows (\<lambda>f. f_id f \<in> set ?ids) (file_versions (sv_db sv)) =
      count_rows (prunable pol now (sv_db sv)) (file_versions (sv_db sv))"
    by (rule count_rows_cong) (rule prune_ids [OF assms])
  ultimately show ?thesis unfolding pruneFileVersions_def Let_def by simp
qed

lemma pruneFileVersions_inv:
  assumes inv: "server_inv H sv"
  shows "server_inv H (fst (pruneFileVersions pol now sv))"
proof -
  have v: "vault_inv (sv_db sv)" and st: "storage_inv H sv" using inv by (simp_all add: server_inv_def)
  have d: "distinct (map f_id (file_versions (sv_db sv)))" using storage_invD(3) [OF st] by (simp add: versions_ok_def)
  let ?sv = "sv\<lparr>sv_db := (sv_db sv)\<lparr>file_versions := del (prunable pol now (sv_db sv)) (file_versions (sv_db sv))\<rparr>\<rparr>"
  have "vault_inv (sv_db ?sv) = vault_inv (sv_db sv)" by (rule vault_inv_cong) simp_all
  moreover have "storage_inv H ?sv"
    by (rule storage_inv_remove [OF st, where pn = "\<lambda>_. False" and pb = "\<lambda>_. False" and ps = "\<lambda>_. False" and pc = "\<lambda>_. False"
          and pf = "prunable pol now (sv_db sv)"])
      (simp_all add: storage_invD(1) [OF st] prunable_version [OF st vault_invD(8) [OF v]])
  ultimately show ?thesis using v by (simp add: pruneFileVersions_eq [OF d] server_inv_def)
qed

lemma storage_inv_same:
  assumes "storage_inv H sv" "nodes (sv_db sv') = nodes (sv_db sv)" "blobs (sv_db sv') = blobs (sv_db sv)"
    "file_versions (sv_db sv') = file_versions (sv_db sv)" "upload_sessions (sv_db sv') = upload_sessions (sv_db sv)"
    "upload_chunks (sv_db sv') = upload_chunks (sv_db sv)" "sv_disk sv' = sv_disk sv"
  shows "storage_inv H sv'"
  by (rule storage_inv_remove [OF assms(1), where pn = "\<lambda>_. False" and pb = "\<lambda>_. False" and ps = "\<lambda>_. False"
        and pc = "\<lambda>_. False" and pf = "\<lambda>_. False"]) (simp_all add: assms storage_invD(1) [OF assms(1)])

lemma cleanupExpired_inv:
  assumes inv: "server_inv H sv"
  shows "server_inv H (fst (cleanupExpired now sv))"
proof -
  have v: "vault_inv (sv_db sv)" and st: "storage_inv H sv" using inv by (simp_all add: server_inv_def)
  have "vault_inv (sv_db (fst (cleanupExpired now sv))) = vault_inv (sv_db sv)"
    by (rule vault_inv_cong) (simp_all add: cleanupExpired_def Let_def deleteBefore_def)
  moreover have "storage_inv H (fst (cleanupExpired now sv))"
    by (rule storage_inv_same [OF st]) (simp_all add: cleanupExpired_def Let_def deleteBefore_def)
  ultimately show ?thesis using v by (simp add: server_inv_def)
qed

lemma expireUpload_none:
  assumes "count_rows (\<lambda>r. us_id r = i \<and> upload_expired now r) (upload_sessions s) = 0"
  shows "markExpired now s i = (s, 0)"
proof -
  have "upd (\<lambda>r. us_id r = i \<and> upload_expired now r) f (upload_sessions s) = upload_sessions s" for f
    using assms by (auto simp: upd_def count_rows_def filter_empty_conv intro!: map_idI)
  with assms show ?thesis by (simp add: markExpired_def)
qed

text \<open>An expired session goes with all its chunks; the intermediate status is not seen.\<close>

lemma expireUpload_eq:
  assumes d: "distinct (map us_id (upload_sessions (sv_db sv)))"
  shows "expireUpload now sv i =
    (if \<exists>r\<in>set (upload_sessions (sv_db sv)). us_id r = i \<and> upload_expired now r
     then (sv\<lparr>sv_db := (sv_db sv)\<lparr>upload_chunks := del (\<lambda>c. uc_upload_id c = i) (upload_chunks (sv_db sv)),
             upload_sessions := del (\<lambda>r. us_id r = i) (upload_sessions (sv_db sv))\<rparr>,
           sv_disk := remove_all (uploadDir i) (sv_disk sv)\<rparr>, Inr True)
     else (sv, Inr False))"
proof (cases "\<exists>r\<in>set (upload_sessions (sv_db sv)). us_id r = i \<and> upload_expired now r")
  case True
  let ?P = "\<lambda>r. us_id r = i \<and> upload_expired now r" and ?ss = "upload_sessions (sv_db sv)"
  from True obtain r where r: "r \<in> set ?ss" "us_id r = i" "upload_expired now r" by blast
  then have n: "count_rows ?P ?ss \<noteq> 0" by (auto simp: count_rows_def filter_empty_conv)
  have one: "upload_expired now x" if "x \<in> set ?ss" "us_id x = i" for x
  proof -
    have "x = r" by (rule distinct_map_eq [OF d that(1) r(1)]) (simp add: that(2) r(2))
    with r(3) show ?thesis by simp
  qed
  have "del (\<lambda>r. us_id r = i \<and> us_status r = ''EXPIRED'') (upd ?P (\<lambda>r. r\<lparr>us_status := ''EXPIRED''\<rparr>) xs) = del (\<lambda>r. us_id r = i) xs"
    if "set xs \<subseteq> set ?ss" for xs
    using that by (induction xs) (use one in auto)
  from this [of ?ss] n True show ?thesis
    by (simp add: expireUpload_def markExpired_def dropExpired_def Let_def)
next
  case False
  then have z: "count_rows (\<lambda>r. us_id r = i \<and> upload_expired now r) (upload_sessions (sv_db sv)) = 0"
    by (auto simp: count_rows_def filter_empty_conv)
  from False show ?thesis by (simp add: expireUpload_def expireUpload_none [OF z])
qed

lemma expireUpload_inv:
  assumes inv: "server_inv H sv"
  shows "server_inv H (fst (expireUpload now sv i))"
proof -
  have v: "vault_inv (sv_db sv)" and st: "storage_inv H sv" using inv by (simp_all add: server_inv_def)
  show ?thesis
  proof (cases "\<exists>r\<in>set (upload_sessions (sv_db sv)). us_id r = i \<and> upload_expired now r")
    case True
    then obtain r0 where r0: "r0 \<in> set (upload_sessions (sv_db sv))" "us_id r0 = i" by blast
    let ?sv = "sv\<lparr>sv_db := (sv_db sv)\<lparr>upload_chunks := del (\<lambda>c. uc_upload_id c = i) (upload_chunks (sv_db sv)),
      upload_sessions := del (\<lambda>r. us_id r = i) (upload_sessions (sv_db sv))\<rparr>, sv_disk := remove_all (uploadDir i) (sv_disk sv)\<rparr>"
    have "vault_inv (sv_db ?sv) = vault_inv (sv_db sv)" by (rule vault_inv_cong) simp_all
    moreover have "storage_inv H ?sv"
    proof (rule storage_inv_remove [OF st, where pn = "\<lambda>_. False" and pb = "\<lambda>_. False" and pf = "\<lambda>_. False"
          and ps = "\<lambda>r. us_id r = i" and pc = "\<lambda>c. uc_upload_id c = i"])
      fix r k assume "r \<in> set (upload_sessions (sv_db sv))" "us_id r \<noteq> i"
      then show "file_at (sv_disk ?sv) (chunk_path (us_id r) k) = file_at (sv_disk sv) (chunk_path (us_id r) k)"
        using file_at_remove_upload [of i "us_id r" "sv_disk sv" k] session_slash [OF st r0(1)] session_slash [OF st, of r] r0(2)
        by (simp del: file_at_remove_all)
    qed (simp_all add: storage_invD(1) [OF st])
    ultimately show ?thesis using v True by (simp add: expireUpload_eq [OF storage_invD(7) [OF st]] server_inv_def)
  next
    case False
    with inv show ?thesis by (simp only: expireUpload_eq [OF storage_invD(7) [OF st]] if_False fst_conv)
  qed
qed

lemma cleanupExpiredUploads_inv: "server_inv H sv \<Longrightarrow> server_inv H (fst (cleanupExpiredUploads U now sv))"
  unfolding cleanupExpiredUploads_def Let_def
  by (simp add: each_inv [where P = "server_inv H"] expireUpload_inv)

section \<open>Blobs and files\<close>

definition blob_paths_ok :: "(id \<times> string) list \<Rightarrow> bool" where
  "blob_paths_ok cs \<longleftrightarrow> (\<forall>c\<in>set cs. snd c = blob_path (fst c))"

lemma deleteBlob_eq:
  "deleteBlob sv c =
    (if \<exists>b\<in>set (blobs (sv_db sv)). b_id b = fst c \<and> unreferenced (sv_db sv) (fst c)
     then (sv\<lparr>sv_db := fst (deleteBlob_tx (sv_db sv) (fst c)), sv_disk := remove_file (snd c) (sv_disk sv)\<rparr>, Inr True)
     else (sv\<lparr>sv_db := fst (deleteBlob_tx (sv_db sv) (fst c))\<rparr>, Inr False))"
proof -
  have "(count_rows (\<lambda>b. b_id b = fst c \<and> unreferenced (sv_db sv) (fst c)) (blobs (sv_db sv)) = 0) =
      (\<not> (\<exists>b\<in>set (blobs (sv_db sv)). b_id b = fst c \<and> unreferenced (sv_db sv) (fst c)))"
    by (auto simp: count_rows_def filter_empty_conv)
  then show ?thesis by (simp add: deleteBlob_def deleteBlob_tx_def Let_def)
qed

lemma deleteBlob_inv:
  assumes inv: "server_inv H sv" and c: "snd c = blob_path (fst c)"
  shows "server_inv H (fst (deleteBlob sv c))"
proof -
  have v: "vault_inv (sv_db sv)" and st: "storage_inv H sv" using inv by (simp_all add: server_inv_def)
  let ?s = "fst (deleteBlob_tx (sv_db sv) (fst c))"
  have keep: "vault_inv ?s" using v
    by (subst vault_inv_cong [of _ "sv_db sv"]) (simp_all add: deleteBlob_tx_def)
  have st': "storage_inv H (sv\<lparr>sv_db := ?s, sv_disk := d\<rparr>)"
    if d: "disk_ok d" "\<And>p. file_at d p = (if (\<exists>b\<in>set (blobs (sv_db sv)). b_id b = fst c \<and> unreferenced (sv_db sv) (fst c)) \<and> p = snd c
        then None else file_at (sv_disk sv) p)" for d
  proof (rule storage_inv_remove [OF st, where pn = "\<lambda>_. False" and pf = "\<lambda>_. False" and ps = "\<lambda>_. False" and pc = "\<lambda>_. False"
        and pb = "\<lambda>b. b_id b = fst c \<and> unreferenced (sv_db sv) (fst c)"])
    fix f b assume "f \<in> set (file_versions (sv_db sv))" "b \<in> set (blobs (sv_db sv))" "b_id b = f_blob_id f"
    then show "\<not> (b_id b = fst c \<and> unreferenced (sv_db sv) (fst c))" by (auto simp: unreferenced_def)
  next
    fix b assume "b \<in> set (blobs (sv_db sv))" "\<not> (b_id b = fst c \<and> unreferenced (sv_db sv) (fst c))"
    then show "file_at (sv_disk (sv\<lparr>sv_db := ?s, sv_disk := d\<rparr>)) (blob_path (b_id b)) = file_at (sv_disk sv) (blob_path (b_id b))"
      by (auto simp: d(2) c)
  qed (simp_all add: d(1) deleteBlob_tx_def d(2) c)
  show ?thesis
  proof (cases "\<exists>b\<in>set (blobs (sv_db sv)). b_id b = fst c \<and> unreferenced (sv_db sv) (fst c)")
    case True
    have "storage_inv H (sv\<lparr>sv_db := ?s, sv_disk := remove_file (snd c) (sv_disk sv)\<rparr>)"
      by (rule st') (use storage_invD(1) [OF st] True in simp_all)
    with keep show ?thesis unfolding deleteBlob_eq if_P [OF True] by (simp add: server_inv_def)
  next
    case False
    have "storage_inv H (sv\<lparr>sv_db := ?s, sv_disk := sv_disk sv\<rparr>)"
      by (rule st') (use storage_invD(1) [OF st] False in auto)
    with keep show ?thesis unfolding deleteBlob_eq if_not_P [OF False] by (simp add: server_inv_def)
  qed
qed

lemma eligible_iff:
  "c \<in> set (eligible pol now s) \<longleftrightarrow> (\<exists>marked b. (fst c, marked) \<in> set (gc_blob_candidates s) \<and>
     stamp marked \<le> stamp (now - OrphanBlobGrace pol) \<and> b \<in> set (blobs s) \<and> b_id b = fst c \<and>
     unreferenced s (fst c) \<and> snd c = b_storage_rel_path b)"
proof -
  let ?f = "\<lambda>(i, marked). if stamp marked \<le> stamp (now - OrphanBlobGrace pol)
    then map (\<lambda>b. (i, b_storage_rel_path b)) (filter (\<lambda>b. b_id b = i \<and> unreferenced s (b_id b)) (blobs s)) else []"
  have one: "c \<in> set (?f (i, m)) \<longleftrightarrow> i = fst c \<and> stamp m \<le> stamp (now - OrphanBlobGrace pol) \<and>
      (\<exists>b. b \<in> set (blobs s) \<and> b_id b = fst c \<and> unreferenced s (fst c) \<and> snd c = b_storage_rel_path b)" for i m
    by (cases c) auto
  have "c \<in> set (eligible pol now s) \<longleftrightarrow> (\<exists>x\<in>set (gc_blob_candidates s). c \<in> set (?f x))" by (simp add: eligible_def)
  also have "\<dots> \<longleftrightarrow> (\<exists>i m. (i, m) \<in> set (gc_blob_candidates s) \<and> c \<in> set (?f (i, m)))" by (simp only: split_paired_Ex Bex_def)
  finally show ?thesis unfolding one by blast
qed

lemma markBlobs_frame [simp]:
  "blobs (markBlobs now s) = blobs s" "file_versions (markBlobs now s) = file_versions s" "nodes (markBlobs now s) = nodes s"
  "upload_sessions (markBlobs now s) = upload_sessions s" "upload_chunks (markBlobs now s) = upload_chunks s"
  "sync_changes (markBlobs now s) = sync_changes s" "sync_seq (markBlobs now s) = sync_seq s" "shares (markBlobs now s) = shares s"
  "folder_keys (markBlobs now s) = folder_keys s" "users (markBlobs now s) = users s"
  "gc_orphan_blob_files (markBlobs now s) = gc_orphan_blob_files s"
  by (simp_all add: markBlobs_def Let_def)

lemma markBlobs_inv: "server_inv H sv \<Longrightarrow> server_inv H (sv\<lparr>sv_db := markBlobs now (sv_db sv)\<rparr>)"
  unfolding server_inv_def
  by (auto intro: storage_inv_same simp: vault_inv_cong [of "markBlobs now (sv_db sv)" "sv_db sv"])

lemma collectUnreferencedBlobs_inv:
  assumes inv: "server_inv H sv"
  shows "server_inv H (fst (collectUnreferencedBlobs U pol now sv))"
proof -
  let ?sv = "sv\<lparr>sv_db := markBlobs now (sv_db sv)\<rparr>" and ?cs = "eligible pol now (markBlobs now (sv_db sv))"
  have inv': "server_inv H ?sv" by (rule markBlobs_inv [OF inv])
  then have "\<forall>b\<in>set (blobs (sv_db ?sv)). b_storage_rel_path b = blob_path (b_id b)"
    by (simp add: server_inv_def storage_inv_def blobs_stored_def)
  then have "snd c = blob_path (fst c)" if "c \<in> set ?cs" for c using that by (auto simp: eligible_iff)
  then have "server_inv H (fst (each deleteBlob ?cs ?sv 0))"
    by (intro each_inv [where P = "server_inv H"] inv' deleteBlob_inv)
  with inv' show ?thesis by (simp add: collectUnreferencedBlobs_def Let_def)
qed

lemma safeBlobPath_not_chunk: "safeBlobPath U p \<Longrightarrow> p \<noteq> chunk_path i k"
  by (auto simp: safeBlobPath_def prefix_def chunk_path_def uploadDir_def)

lemma markOrphan_frame [simp]:
  "blobs (markOrphan U now x s) = blobs s" "file_versions (markOrphan U now x s) = file_versions s"
  "nodes (markOrphan U now x s) = nodes s" "upload_sessions (markOrphan U now x s) = upload_sessions s"
  "upload_chunks (markOrphan U now x s) = upload_chunks s" "sync_changes (markOrphan U now x s) = sync_changes s"
  "sync_seq (markOrphan U now x s) = sync_seq s" "shares (markOrphan U now x s) = shares s"
  "folder_keys (markOrphan U now x s) = folder_keys s" "users (markOrphan U now x s) = users s"
  "gc_blob_candidates (markOrphan U now x s) = gc_blob_candidates s"
  by (simp_all add: markOrphan_def Let_def)

lemma markOrphans_frame [simp]:
  "blobs (fold (markOrphan U now) xs s) = blobs s" "file_versions (fold (markOrphan U now) xs s) = file_versions s"
  "nodes (fold (markOrphan U now) xs s) = nodes s" "upload_sessions (fold (markOrphan U now) xs s) = upload_sessions s"
  "upload_chunks (fold (markOrphan U now) xs s) = upload_chunks s" "sync_changes (fold (markOrphan U now) xs s) = sync_changes s"
  "sync_seq (fold (markOrphan U now) xs s) = sync_seq s" "shares (fold (markOrphan U now) xs s) = shares s"
  "folder_keys (fold (markOrphan U now) xs s) = folder_keys s" "users (fold (markOrphan U now) xs s) = users s"
  "gc_blob_candidates (fold (markOrphan U now) xs s) = gc_blob_candidates s"
  by (induction xs arbitrary: s) simp_all

lemma server_inv_marks:
  assumes inv: "server_inv H sv" and d: "sv_disk sv' = sv_disk sv"
    and "nodes (sv_db sv') = nodes (sv_db sv)" "blobs (sv_db sv') = blobs (sv_db sv)"
    "file_versions (sv_db sv') = file_versions (sv_db sv)" "upload_sessions (sv_db sv') = upload_sessions (sv_db sv)"
    "upload_chunks (sv_db sv') = upload_chunks (sv_db sv)" "sync_changes (sv_db sv') = sync_changes (sv_db sv)"
    "sync_seq (sv_db sv') = sync_seq (sv_db sv)" "shares (sv_db sv') = shares (sv_db sv)" "folder_keys (sv_db sv') = folder_keys (sv_db sv)"
  shows "server_inv H sv'"
proof -
  have "vault_inv (sv_db sv') = vault_inv (sv_db sv)" by (rule vault_inv_cong) (fact assms)+
  moreover have "storage_inv H sv" using inv by (simp add: server_inv_def)
  then have "storage_inv H sv'" by (rule storage_inv_same) (fact assms)+
  ultimately show ?thesis using inv by (simp add: server_inv_def)
qed

lemma deleteOrphan_inv:
  assumes inv: "server_inv H sv" and p: "safeBlobPath U p"
  shows "server_inv H (fst (deleteOrphan sv p))"
proof -
  let ?s = "(sv_db sv)\<lparr>gc_orphan_blob_files := del (\<lambda>x. fst x = p) (gc_orphan_blob_files (sv_db sv))\<rparr>"
  let ?sv = "sv\<lparr>sv_db := ?s\<rparr>"
  have inv': "server_inv H ?sv" by (rule server_inv_marks [OF inv]) simp_all
  then have st: "storage_inv H ?sv" by (simp add: server_inv_def)
  show ?thesis
  proof (cases "path_recorded (sv_db sv) p")
    case False
    have "storage_inv H (?sv\<lparr>sv_disk := remove_file p (sv_disk ?sv)\<rparr>)"
    proof (rule storage_inv_disk [OF st])
      show "disk_ok (remove_file p (sv_disk ?sv))" using storage_invD(1) [OF st] by simp
      fix i assume "i \<in> b_id ` set (blobs (sv_db ?sv))"
      then obtain b where "b \<in> set (blobs (sv_db sv))" "b_id b = i" "b_storage_rel_path b = blob_path i"
        using storage_invD(2) [OF st] by (auto simp: blobs_stored_def)
      with False have "p \<noteq> blob_path i" by (auto simp: path_recorded_def)
      then show "file_at (remove_file p (sv_disk ?sv)) (blob_path i) = file_at (sv_disk ?sv) (blob_path i)" by simp
    next
      fix r k show "file_at (remove_file p (sv_disk ?sv)) (chunk_path (us_id r) k) = file_at (sv_disk ?sv) (chunk_path (us_id r) k)"
        using safeBlobPath_not_chunk [OF p] by auto
    qed
    with inv' False show ?thesis by (simp add: deleteOrphan_def Let_def server_inv_def)
  qed (use inv' in \<open>simp add: deleteOrphan_def Let_def\<close>)
qed

lemma collectOrphanBlobFiles_inv:
  assumes inv: "server_inv H sv"
  shows "server_inv H (fst (collectOrphanBlobFiles U pol now sv))"
proof -
  let ?sv = "sv\<lparr>sv_db := fold (markOrphan U now) (read_dir ''blobs'' (sv_disk sv)) (sv_db sv)\<rparr>"
  let ?ps = "map fst (filter (\<lambda>x. stamp (snd x) \<le> stamp (now - OrphanBlobGrace pol)) (gc_orphan_blob_files (sv_db ?sv)))"
  have inv': "server_inv H ?sv" by (rule server_inv_marks [OF inv]) simp_all
  have eq: "collectOrphanBlobFiles U pol now sv =
    (if \<exists>p\<in>set ?ps. \<not> safeBlobPath U p then (?sv, Inl (Internal ''unsafe orphan blob path in database''))
     else each deleteOrphan ?ps ?sv 0)" by (simp only: collectOrphanBlobFiles_def Let_def)
  show ?thesis
  proof (cases "\<exists>p\<in>set ?ps. \<not> safeBlobPath U p")
    case True
    then show ?thesis using inv' unfolding eq if_P [OF True] by simp
  next
    case False
    have "server_inv H (fst (each deleteOrphan ?ps ?sv 0))"
    proof (rule each_inv [where P = "server_inv H", OF inv'])
      fix sv1 p assume "server_inv H sv1" "p \<in> set ?ps"
      with False show "server_inv H (fst (deleteOrphan sv1 p))" by (blast intro: deleteOrphan_inv)
    qed
    then show ?thesis unfolding eq if_not_P [OF False] .
  qed
qed

section \<open>The pass\<close>

lemma RunMaintenance_inv:
  assumes inv: "server_inv H sv"
  shows "server_inv H (fst (RunMaintenance U pol now sv))"
  unfolding RunMaintenance_def
  by (rule sbind_inv, rule cleanupExpired_inv [OF inv], clarsimp split: prod.split,
      rule sbind_inv, erule cleanupExpiredUploads_inv, rule sbind_inv, erule cleanupExpiredTrash_inv,
      rule sbind_inv, erule pruneFileVersions_inv, rule sbind_inv, erule collectUnreferencedBlobs_inv,
      rule sbind_inv, erule collectOrphanBlobFiles_inv, simp)

end
