(* ===== verification/HB_Maintenance_Props.thy ===== *)
theory HB_Maintenance_Props
  imports HB_Maintenance_Inv HB_Demo_Store
begin

text \<open>
  What maintenance does: a pass removes nothing that is live or referenced, empties exactly the expired
  part of Trash, bounds the versions of a file, and deletes ciphertext only after it stayed unreferenced
  for the grace period - but then does delete it.
\<close>

section \<open>What a pass keeps\<close>

definition expired_below :: "db \<Rightarrow> time \<Rightarrow> id \<Rightarrow> bool" where
  "expired_below s cutoff j \<longleftrightarrow> (\<exists>i. in_trash s i cutoff \<and> (j, i) \<in> (par (nodes s))\<^sup>*)"

definition tidied :: "time \<Rightarrow> server \<Rightarrow> server \<Rightarrow> bool" where
  "tidied cutoff sv sv' \<longleftrightarrow>
     set (nodes (sv_db sv')) \<subseteq> set (nodes (sv_db sv)) \<and>
     set (file_versions (sv_db sv')) \<subseteq> set (file_versions (sv_db sv)) \<and>
     set (blobs (sv_db sv')) \<subseteq> set (blobs (sv_db sv)) \<and>
     set (upload_sessions (sv_db sv')) \<subseteq> set (upload_sessions (sv_db sv)) \<and>
     (\<forall>b\<in>set (blobs (sv_db sv')). file_at (sv_disk sv') (b_storage_rel_path b) = file_at (sv_disk sv) (b_storage_rel_path b)) \<and>
     (\<forall>n\<in>set (nodes (sv_db sv)). \<not> expired_below (sv_db sv) cutoff (n_id n) \<longrightarrow> n \<in> set (nodes (sv_db sv')))"

lemma par_subset: "set ns' \<subseteq> set ns \<Longrightarrow> par ns' \<subseteq> par ns"
  by (auto simp: par_def)

lemma expired_below_mono:
  assumes "set (nodes s') \<subseteq> set (nodes s)" "expired_below s' cutoff j"
  shows "expired_below s cutoff j"
  using assms(2) rtrancl_mono [OF par_subset [OF assms(1)]] assms(1)
  unfolding expired_below_def in_trash_def by blast

lemma tidied_refl: "tidied cutoff sv sv"
  by (simp add: tidied_def)

lemma tidied_trans:
  assumes "tidied cutoff sv sv1" "tidied cutoff sv1 sv2"
  shows "tidied cutoff sv sv2"
proof -
  have "n \<in> set (nodes (sv_db sv2))" if "n \<in> set (nodes (sv_db sv))" "\<not> expired_below (sv_db sv) cutoff (n_id n)" for n
    using that assms expired_below_mono [of "sv_db sv1" "sv_db sv" cutoff "n_id n"] unfolding tidied_def by blast
  with assms show ?thesis unfolding tidied_def by (metis subset_iff)
qed

lemma tidied_same:
  assumes "nodes (sv_db sv') = nodes (sv_db sv)" "set (file_versions (sv_db sv')) \<subseteq> set (file_versions (sv_db sv))"
    "blobs (sv_db sv') = blobs (sv_db sv)" "set (upload_sessions (sv_db sv')) \<subseteq> set (upload_sessions (sv_db sv))"
    "\<And>b. b \<in> set (blobs (sv_db sv)) \<Longrightarrow> file_at (sv_disk sv') (b_storage_rel_path b) = file_at (sv_disk sv) (b_storage_rel_path b)"
  shows "tidied cutoff sv sv'"
  using assms by (simp add: tidied_def)

lemma blob_paths:
  assumes "server_inv H sv" "b \<in> set (blobs (sv_db sv))"
  shows "b_storage_rel_path b = blob_path (b_id b)"
  using assms by (simp add: server_inv_def storage_inv_def blobs_stored_def)

text \<open>An operation that keeps the invariant and tidies can be looped and chained.\<close>

definition tidy :: "(bytes \<Rightarrow> string) \<Rightarrow> time \<Rightarrow> server \<Rightarrow> server \<Rightarrow> bool" where
  "tidy H cutoff sv sv' \<longleftrightarrow> server_inv H sv' \<and> tidied cutoff sv sv'"

lemma tidyI: "server_inv H sv' \<Longrightarrow> tidied cutoff sv sv' \<Longrightarrow> tidy H cutoff sv sv'"
  by (simp add: tidy_def)

lemma tidy_trans: "tidy H cutoff sv sv1 \<Longrightarrow> tidy H cutoff sv1 sv2 \<Longrightarrow> tidy H cutoff sv sv2"
  by (auto simp: tidy_def intro: tidied_trans)

lemma tidy_refl: "server_inv H sv \<Longrightarrow> tidy H cutoff sv sv"
  by (simp add: tidy_def tidied_refl)

lemma tidy_inv: "tidy H cutoff sv sv' \<Longrightarrow> server_inv H sv'"
  by (simp add: tidy_def)

lemma tidy_each:
  assumes "server_inv H sv" "\<And>sv x. server_inv H sv \<Longrightarrow> x \<in> set xs \<Longrightarrow> tidy H cutoff sv (fst (f sv x))"
  shows "tidy H cutoff sv (fst (each f xs sv n))"
proof (rule each_inv [where P = "tidy H cutoff sv"])
  show "tidy H cutoff sv sv" by (rule tidy_refl [OF assms(1)])
  fix sv1 x assume "tidy H cutoff sv sv1" "x \<in> set xs"
  then show "tidy H cutoff sv (fst (f sv1 x))" using assms(2) tidy_inv tidy_trans by blast
qed

lemma tidy_marks:
  assumes inv: "server_inv H sv" and inv': "server_inv H sv'"
    and "nodes (sv_db sv') = nodes (sv_db sv)" "file_versions (sv_db sv') = file_versions (sv_db sv)"
    "blobs (sv_db sv') = blobs (sv_db sv)" "upload_sessions (sv_db sv') = upload_sessions (sv_db sv)" "sv_disk sv' = sv_disk sv"
  shows "tidy H cutoff sv sv'"
  by (rule tidyI [OF inv' tidied_same]) (simp_all add: assms)

lemma tidy_expired: "server_inv H sv \<Longrightarrow> tidy H cutoff sv (fst (cleanupExpired now sv))"
  by (rule tidy_marks) (simp_all add: cleanupExpired_inv, simp_all add: cleanupExpired_def Let_def deleteBefore_def)

lemma tidy_upload:
  assumes inv: "server_inv H sv"
  shows "tidy H cutoff sv (fst (expireUpload now sv i))"
proof -
  have d: "distinct (map us_id (upload_sessions (sv_db sv)))" using inv by (simp add: server_inv_def storage_inv_def sessions_ok_def)
  show ?thesis
    by (rule tidyI [OF expireUpload_inv [OF inv] tidied_same])
      (simp_all add: expireUpload_eq [OF d] blob_paths [OF inv] del: file_at_remove_all)
qed

lemma tidy_uploads: "server_inv H sv \<Longrightarrow> tidy H cutoff sv (fst (cleanupExpiredUploads U now sv))"
  unfolding cleanupExpiredUploads_def Let_def by (simp add: tidy_refl tidy_each tidy_upload)

lemma tidy_prune:
  assumes inv: "server_inv H sv"
  shows "tidy H cutoff sv (fst (pruneFileVersions pol now sv))"
proof -
  have d: "distinct (map f_id (file_versions (sv_db sv)))" using inv by (simp add: server_inv_def storage_inv_def versions_ok_def)
  show ?thesis
    by (rule tidyI [OF pruneFileVersions_inv [OF inv] tidied_same]) (auto simp: pruneFileVersions_eq [OF d])
qed

lemma tidy_blob:
  assumes inv: "server_inv H sv" and c: "snd c = blob_path (fst c)"
  shows "tidy H cutoff sv (fst (deleteBlob sv c))"
proof (rule tidyI [OF deleteBlob_inv [OF inv c]])
  show "tidied cutoff sv (fst (deleteBlob sv c))"
    using blob_paths [OF inv] by (auto simp: tidied_def deleteBlob_eq deleteBlob_tx_def c)
qed

lemma tidy_blobs:
  assumes inv: "server_inv H sv"
  shows "tidy H cutoff sv (fst (collectUnreferencedBlobs U pol now sv))"
proof -
  let ?sv = "sv\<lparr>sv_db := markBlobs now (sv_db sv)\<rparr>" and ?cs = "eligible pol now (markBlobs now (sv_db sv))"
  have inv': "server_inv H ?sv" by (rule markBlobs_inv [OF inv])
  have m: "tidy H cutoff sv ?sv" by (rule tidy_marks [OF inv inv']) simp_all
  have "snd c = blob_path (fst c)" if "c \<in> set ?cs" for c using that blob_paths [OF inv'] by (auto simp: eligible_iff)
  then have "tidy H cutoff ?sv (fst (each deleteBlob ?cs ?sv 0))" by (intro tidy_each inv' tidy_blob)
  with m have "tidy H cutoff sv (fst (each deleteBlob ?cs ?sv 0))" by (rule tidy_trans)
  with m show ?thesis by (simp add: collectUnreferencedBlobs_def Let_def)
qed

lemma tidy_orphan:
  assumes inv: "server_inv H sv" and p: "safeBlobPath U p"
  shows "tidy H cutoff sv (fst (deleteOrphan sv p))"
proof (rule tidyI [OF deleteOrphan_inv [OF inv p]])
  show "tidied cutoff sv (fst (deleteOrphan sv p))"
    by (auto simp: tidied_def deleteOrphan_def Let_def path_recorded_def)
qed

lemma tidy_orphans:
  assumes inv: "server_inv H sv"
  shows "tidy H cutoff sv (fst (collectOrphanBlobFiles U pol now sv))"
proof -
  let ?sv = "sv\<lparr>sv_db := fold (markOrphan U now) (read_dir ''blobs'' (sv_disk sv)) (sv_db sv)\<rparr>"
  let ?ps = "map fst (filter (\<lambda>x. stamp (snd x) \<le> stamp (now - OrphanBlobGrace pol)) (gc_orphan_blob_files (sv_db ?sv)))"
  have inv': "server_inv H ?sv" by (rule server_inv_marks [OF inv]) simp_all
  have m: "tidy H cutoff sv ?sv" by (rule tidy_marks [OF inv inv']) simp_all
  have eq: "collectOrphanBlobFiles U pol now sv =
    (if \<exists>p\<in>set ?ps. \<not> safeBlobPath U p then (?sv, Inl (Internal ''unsafe orphan blob path in database''))
     else each deleteOrphan ?ps ?sv 0)" by (simp only: collectOrphanBlobFiles_def Let_def)
  show ?thesis
  proof (cases "\<exists>p\<in>set ?ps. \<not> safeBlobPath U p")
    case True
    then show ?thesis using m unfolding eq if_P [OF True] by simp
  next
    case False
    have "tidy H cutoff ?sv (fst (each deleteOrphan ?ps ?sv 0))"
      by (rule tidy_each [OF inv']) (use False in \<open>blast intro: tidy_orphan\<close>)
    with m show ?thesis unfolding eq if_not_P [OF False] by (rule tidy_trans)
  qed
qed

lemma tidy_purge:
  assumes inv: "server_inv H sv"
  shows "tidy H cutoff sv (fst (purgeSubtree U now cutoff sv i))"
proof (rule tidyI [OF purgeSubtree_inv [OF inv]])
  have v: "vault_inv (sv_db sv)" using inv by (simp add: server_inv_def)
  have "tidied cutoff sv (purge_server now cutoff sv i)"
    using purged_iff [OF v, of _ i cutoff] blob_paths [OF inv]
    by (auto simp: tidied_def purge_server_def Let_def expired_below_def)
  then show "tidied cutoff sv (fst (purgeSubtree U now cutoff sv i))"
    by (simp add: purgeSubtree_eq [OF v] tidied_refl)
qed

lemma tidy_trash: "server_inv H sv \<Longrightarrow> tidy H (now - TrashRetention pol) sv (fst (cleanupExpiredTrash U pol now sv))"
  unfolding cleanupExpiredTrash_def Let_def by (rule tidy_each) (simp_all add: tidy_purge)

lemma tidy_sbind:
  assumes "tidy H cutoff sv (fst m)" "\<And>sv1 x. server_inv H sv1 \<Longrightarrow> tidy H cutoff sv1 (fst (f sv1 x))"
  shows "tidy H cutoff sv (fst (sbind m f))"
  using assms tidy_inv tidy_trans by (cases m, cases "snd m") fastforce+

lemma tidy_run:
  assumes inv: "server_inv H sv"
  shows "tidy H (now - TrashRetention pol) sv (fst (RunMaintenance U pol now sv))"
  unfolding RunMaintenance_def
  by (rule tidy_sbind, rule tidy_expired [OF inv], clarsimp split: prod.split,
      rule tidy_sbind, erule tidy_uploads, rule tidy_sbind, erule tidy_trash,
      rule tidy_sbind, erule tidy_prune, rule tidy_sbind, erule tidy_blobs,
      rule tidy_sbind, erule tidy_orphans, simp add: tidy_refl)

lemma OpenNodeBlob_found:
  assumes inv: "server_inv H sv" and f: "f \<in> set (file_versions (sv_db sv))" and b: "b \<in> set (blobs (sv_db sv))" "b_id b = f_blob_id f"
  shows "OpenNodeBlob (sv_db sv) (f_node_id f) (f_id f) = Inr (b_storage_rel_path b, b_ciphertext_size b)"
proof -
  have df: "distinct (map f_id (file_versions (sv_db sv)))" and db: "distinct (map b_id (blobs (sv_db sv)))"
    using inv by (simp_all add: server_inv_def storage_inv_def versions_ok_def blobs_stored_def)
  have vb: "(g, c) \<in> set (version_blobs (sv_db sv)) \<longleftrightarrow> g \<in> set (file_versions (sv_db sv)) \<and> c \<in> set (blobs (sv_db sv)) \<and> b_id c = f_blob_id g"
    for g c by (auto simp: version_blobs_def)
  let ?P = "\<lambda>(g, c :: blob_row). f_node_id g = f_node_id f \<and> f_id g = f_id f"
  have "(f, b) \<in> set (version_blobs (sv_db sv))" "?P (f, b)" using f b by (simp_all add: vb)
  from find_witness [of "(f, b)" _ ?P, OF this] obtain x where x: "find ?P (version_blobs (sv_db sv)) = Some x"
    "x \<in> set (version_blobs (sv_db sv))" "?P x" by blast
  obtain g c where gc: "x = (g, c)" by (cases x)
  have g: "g \<in> set (file_versions (sv_db sv))" "c \<in> set (blobs (sv_db sv))" "b_id c = f_blob_id g" "f_id g = f_id f"
    using x(2,3) unfolding gc vb by simp_all
  have "g = f" by (rule distinct_map_eq [OF df g(1) f g(4)])
  moreover from this have "c = b" using g(3) b(2) by (intro distinct_map_eq [OF db g(2) b(1)]) simp
  ultimately show ?thesis using x(1) by (simp add: OpenNodeBlob_def gc)
qed

lemma current_version:
  assumes inv: "server_inv H sv" and n: "n \<in> set (nodes (sv_db sv))" "n_current_version_id n = Some v"
  obtains f b where "f \<in> set (file_versions (sv_db sv))" "f_id f = v" "f_node_id f = n_id n"
    "b \<in> set (blobs (sv_db sv))" "b_id b = f_blob_id f"
proof -
  have "current_ok (sv_db sv)" "versions_ok (sv_db sv)" using inv by (simp_all add: server_inv_def storage_inv_def)
  with n obtain f where f: "f \<in> set (file_versions (sv_db sv))" "f_id f = v" "f_node_id f = n_id n"
    unfolding current_ok_def by blast
  with \<open>versions_ok (sv_db sv)\<close> obtain b where "b \<in> set (blobs (sv_db sv))" "b_id b = f_blob_id f"
    unfolding versions_ok_def by force
  with f show thesis by (rule that)
qed


section \<open>Emptying Trash\<close>

lemma each_all:
  assumes "P s" "\<And>s x. P s \<Longrightarrow> x \<in> set xs \<Longrightarrow> (\<exists>b s'. f s x = (s', Inr b) \<and> P s' \<and> Q x s')"
    and keep: "\<And>s x y. P s \<Longrightarrow> y \<in> set xs \<Longrightarrow> Q x s \<Longrightarrow> Q x (fst (f s y))"
  shows "\<exists>s' k. each f xs s n = (s', Inr k) \<and> P s' \<and> (\<forall>x\<in>set xs. Q x s') \<and> (\<forall>x. Q x s \<longrightarrow> Q x s')"
  using assms
proof (induction xs arbitrary: s n)
  case (Cons x xs)
  from Cons.prems(2) [OF Cons.prems(1) list.set_intros(1)]
  obtain b s1 where s1: "f s x = (s1, Inr b)" "P s1" "Q x s1" by blast
  have "\<exists>s' k. each f xs s1 (if b then n + 1 else n) = (s', Inr k) \<and> P s' \<and> (\<forall>x\<in>set xs. Q x s') \<and> (\<forall>x. Q x s1 \<longrightarrow> Q x s')"
    by (rule Cons.IH [OF s1(2)]) (simp_all add: Cons.prems)
  moreover have "Q y s1" if "Q y s" for y using Cons.prems(3) [OF Cons.prems(1) _ that, of x] s1(1) by simp
  ultimately show ?case using s1 by auto
qed simp

definition parseable_uploads :: "uuid_pkg \<Rightarrow> db \<Rightarrow> bool" where
  "parseable_uploads U s \<longleftrightarrow> (\<forall>r\<in>set (upload_sessions s). uuid_Parse U (us_id r) \<noteq> None)"

lemma purgeSubtree_ok:
  assumes v: "vault_inv (sv_db sv)" and U: "parseable_uploads U (sv_db sv)"
  shows "purgeSubtree U now cutoff sv i = (purge_server now cutoff sv i, Inr (in_trash (sv_db sv) i cutoff))"
  using U unfolding purgeSubtree_eq [OF v] parseable_uploads_def by (auto simp: target_uploads_iff)

lemma purge_server_nodes [simp]:
  "nodes (sv_db (purge_server now cutoff sv i)) = del (\<lambda>n. n_id n \<in> purged (sv_db sv) i cutoff) (nodes (sv_db sv))"
  by (simp add: purge_server_def Let_def)

lemma purge_server_parseable: "parseable_uploads U (sv_db sv) \<Longrightarrow> parseable_uploads U (sv_db (purge_server now cutoff sv i))"
  by (simp add: purge_server_def Let_def parseable_uploads_def)

text \<open>Trash is emptied exactly: a pass over Trash succeeds, and removes a node if and only if it, or a folder
  above it, has been in Trash for the retention period. No node is left behind half deleted.\<close>

theorem trash_expiry_exact:
  assumes inv: "server_inv H sv" and U: "parseable_uploads U (sv_db sv)"
  shows "\<exists>sv' k. cleanupExpiredTrash U pol now sv = (sv', Inr k) \<and>
    set (nodes (sv_db sv')) = {n \<in> set (nodes (sv_db sv)). \<not> expired_below (sv_db sv) (now - TrashRetention pol) (n_id n)}"
proof -
  let ?cutoff = "now - TrashRetention pol"
  let ?due = "\<lambda>n. case n_deleted_at n of None \<Rightarrow> False | Some t \<Rightarrow> stamp t \<le> stamp ?cutoff"
  let ?ids = "map n_id (sort_key (\<lambda>n. stamp (the (n_deleted_at n))) (filter ?due (nodes (sv_db sv))))"
  let ?P = "\<lambda>sv1. tidy H ?cutoff sv sv1 \<and> parseable_uploads U (sv_db sv1)"
  let ?Q = "\<lambda>i sv1. i \<notin> n_id ` set (nodes (sv_db sv1))"
  have ids: "i \<in> set ?ids \<longleftrightarrow> in_trash (sv_db sv) i ?cutoff" for i
    by (auto simp: in_trash_def split: option.split_asm)
  have d: "distinct (map n_id (nodes (sv_db sv)))" using inv vault_invD(8) by (simp add: server_inv_def)
  have step: "\<exists>b s'. purgeSubtree U now ?cutoff sv1 i = (s', Inr b) \<and> ?P s' \<and> ?Q i s'"
    if P: "?P sv1" and i: "i \<in> set ?ids" for sv1 i
  proof -
    have inv1: "server_inv H sv1" and v1: "vault_inv (sv_db sv1)" and sub: "set (nodes (sv_db sv1)) \<subseteq> set (nodes (sv_db sv))"
      using P by (auto simp: tidy_def server_inv_def tidied_def)
    note eq = purgeSubtree_ok [OF v1 conjunct2 [OF P]]
    have "tidy H ?cutoff sv1 (purge_server now ?cutoff sv1 i)" using tidy_purge [OF inv1, of ?cutoff U now i] by (simp add: eq)
    with P have "?P (purge_server now ?cutoff sv1 i)" using tidy_trans purge_server_parseable by blast
    moreover have "i \<in> purged (sv_db sv1) i ?cutoff" if here: "i \<in> n_id ` set (nodes (sv_db sv1))"
    proof -
      from here obtain n where n: "n \<in> set (nodes (sv_db sv1))" "n_id n = i" by blast
      from i obtain r t where r: "r \<in> set (nodes (sv_db sv))" "n_id r = i" "n_deleted_at r = Some t" "stamp t \<le> stamp ?cutoff"
        unfolding ids in_trash_def by blast
      have "n = r" using n r(2) sub by (intro distinct_map_eq [OF d _ r(1)]) auto
      with n r have "in_trash (sv_db sv1) i ?cutoff" unfolding in_trash_def by blast
      with here show ?thesis unfolding purged_iff [OF v1] by simp
    qed
    then have "?Q i (purge_server now ?cutoff sv1 i)" by auto
    ultimately show ?thesis using eq by blast
  qed
  have keep: "?Q x (fst (purgeSubtree U now ?cutoff sv1 y))" if "?P sv1" "y \<in> set ?ids" "?Q x sv1" for sv1 x y
  proof -
    have "server_inv H sv1" using that(1) by (simp add: tidy_def)
    from tidy_purge [OF this, of ?cutoff U now y] that(3) show ?thesis by (auto simp: tidy_def tidied_def)
  qed
  have "?P sv" using tidy_refl [OF inv] U by simp
  then have "\<exists>sv' k. each (purgeSubtree U now ?cutoff) ?ids sv 0 = (sv', Inr k) \<and> ?P sv' \<and> (\<forall>i\<in>set ?ids. ?Q i sv') \<and>
      (\<forall>i. ?Q i sv \<longrightarrow> ?Q i sv')" by (rule each_all [OF _ step keep])
  then obtain sv' k where e: "each (purgeSubtree U now ?cutoff) ?ids sv 0 = (sv', Inr k)" and P': "?P sv'"
    and gone: "\<forall>i\<in>set ?ids. ?Q i sv'" by (elim exE conjE) (rule that, assumption, rule conjI)
  have v': "vault_inv (sv_db sv')" and td: "tidied ?cutoff sv sv'" using P' by (auto simp: tidy_def server_inv_def)
  have up: "(j, i) \<in> (par (nodes (sv_db sv)))\<^sup>* \<Longrightarrow> j \<in> n_id ` set (nodes (sv_db sv')) \<Longrightarrow> i \<in> n_id ` set (nodes (sv_db sv'))" for j i
  proof (induction rule: rtrancl_induct)
    case (step a b)
    then obtain m where m: "m \<in> set (nodes (sv_db sv'))" "n_id m = a" by blast
    from step(2) obtain r where r: "r \<in> set (nodes (sv_db sv))" "n_id r = a" "n_parent_id r = Some b" by (auto simp: par_def)
    have "m = r" using m r td by (intro distinct_map_eq [OF d _ r(1)]) (auto simp: tidied_def)
    with m r vault_invD(9) [OF v'] show ?case by (force simp: parents_ok_def)
  qed
  have "set (nodes (sv_db sv')) = {n \<in> set (nodes (sv_db sv)). \<not> expired_below (sv_db sv) ?cutoff (n_id n)}"
  proof (intro equalityI subsetI)
    fix n assume n: "n \<in> set (nodes (sv_db sv'))"
    have "\<not> expired_below (sv_db sv) ?cutoff (n_id n)"
    proof
      assume "expired_below (sv_db sv) ?cutoff (n_id n)"
      then obtain i where "i \<in> set ?ids" "(n_id n, i) \<in> (par (nodes (sv_db sv)))\<^sup>*" unfolding expired_below_def ids by blast
      with up gone n show False by blast
    qed
    with n td show "n \<in> {n \<in> set (nodes (sv_db sv)). \<not> expired_below (sv_db sv) ?cutoff (n_id n)}" by (auto simp: tidied_def)
  qed (use td in \<open>auto simp: tidied_def\<close>)
  with e show ?thesis by (auto simp: cleanupExpiredTrash_def Let_def)
qed

text \<open>Permanent deletion by hand: it works exactly for the owner's own entries in Trash, and then removes the
  entry with everything below it and nothing else, with their versions, shares, favorites and open uploads,
  and tells the owner's feed about each removed node. In every other case nothing changes.\<close>

theorem PurgeTrashEntry_exact:
  assumes inv: "server_inv H sv" and U: "parseable_uploads U (sv_db sv)"
    and branch: "branch = {j \<in> n_id ` set (nodes (sv_db sv)). (j, i) \<in> (par (nodes (sv_db sv)))\<^sup>*}"
  shows "if \<exists>n\<in>set (nodes (sv_db sv)). n_id n = i \<and> n_owner_id n = u \<and> n_deleted_at n \<noteq> None
    then \<exists>sv'. PurgeTrashEntry U now sv u i = (sv', Inr ()) \<and>
      nodes (sv_db sv') = del (\<lambda>n. n_id n \<in> branch) (nodes (sv_db sv)) \<and>
      file_versions (sv_db sv') = del (\<lambda>f. f_node_id f \<in> branch) (file_versions (sv_db sv)) \<and>
      shares (sv_db sv') = del (\<lambda>sh. sh_node_id sh \<in> branch) (shares (sv_db sv)) \<and>
      upload_sessions (sv_db sv') = del (\<lambda>r. us_target_node_id r \<in> branch) (upload_sessions (sv_db sv)) \<and>
      blobs (sv_db sv') = blobs (sv_db sv) \<and>
      (\<exists>cs. sync_changes (sv_db sv') = sync_changes (sv_db sv) @ cs \<and> c_node_id ` set cs = branch \<and>
        (\<forall>c\<in>set cs. c_operation c = ''PURGE'' \<and> c_user_scope_id c = u))
    else PurgeTrashEntry U now sv u i = (sv, Inl MaintenanceNotInTrash)"
proof -
  have v: "vault_inv (sv_db sv)" using inv by (simp add: server_inv_def)
  note D = vault_invD [OF v]
  show ?thesis
  proof (cases "\<exists>n\<in>set (nodes (sv_db sv)). n_id n = i \<and> n_owner_id n = u \<and> n_deleted_at n \<noteq> None")
    case True
    then obtain n t where n: "n \<in> set (nodes (sv_db sv))" "n_id n = i" "n_owner_id n = u" "n_deleted_at n = Some t" by blast
    have node: "node_of (sv_db sv) i = Some n" using n by (simp add: node_of_iff [OF D(8)])
    have tr: "in_trash (sv_db sv) i t" using n unfolding in_trash_def by blast
    let ?ns = "trashSubtree (sv_db sv) i t"
    have T: "n_id ` set ?ns = branch" using purged_iff [OF v, of _ i t] tr unfolding purged_def branch by auto
    have eq: "PurgeTrashEntry U now sv u i = (purge_server now t sv i, Inr ())"
      using purgeSubtree_ok [OF v U] tr by (simp add: PurgeTrashEntry_def node n(3,4))
    have own: "n_owner_id m = u" if "m \<in> set ?ns" for m
    proof -
      have "m \<in> set (nodes (sv_db sv))" "(n_id m, i) \<in> (par (nodes (sv_db sv)))\<^sup>*"
        using that subtree_iff [OF D(8) n(1,2)] unfolding trashSubtree_subtree [OF v tr] by blast+
      from forest_same_owner [OF D(1) this(2,1) refl n(1,2)] n(3) show ?thesis by simp
    qed
    have cs: "c_node_id ` set (purge_changes now q xs) = n_id ` set xs \<and>
      (\<forall>c\<in>set (purge_changes now q xs). c_operation c = ''PURGE'' \<and> c_user_scope_id c \<in> n_owner_id ` set xs)" for q xs
      by (induction xs arbitrary: q) auto
    show ?thesis unfolding if_P [OF True]
    proof (intro exI conjI)
      show "PurgeTrashEntry U now sv u i = (purge_server now t sv i, Inr ())" by (rule eq)
      show "sync_changes (sv_db (purge_server now t sv i)) = sync_changes (sv_db sv) @ purge_changes now (sync_seq (sv_db sv)) ?ns"
        by (simp add: purge_server_def Let_def)
      show "c_node_id ` set (purge_changes now (sync_seq (sv_db sv)) ?ns) = branch" using cs T by simp
      show "\<forall>c\<in>set (purge_changes now (sync_seq (sv_db sv)) ?ns). c_operation c = ''PURGE'' \<and> c_user_scope_id c = u"
        using cs [of "sync_seq (sv_db sv)" ?ns] own by fastforce
    qed (simp_all add: purge_server_def Let_def T purged_def)
  next
    case False
    then show ?thesis unfolding if_not_P [OF False]
      by (auto simp: PurgeTrashEntry_def dest!: node_of_Some split: option.split)
  qed
qed

section \<open>Version retention\<close>

lemma concat_single_rows:
  "(\<And>x. x \<in> set xs \<Longrightarrow> f x = [] \<or> f x = [x]) \<Longrightarrow> concat (map f xs) = filter (\<lambda>x. f x \<noteq> []) xs"
  by (induction xs) auto

lemma filter_key_single:
  assumes "distinct (map k rows)"
  shows "filter (\<lambda>r. k r = x \<and> P r) rows = [] \<or> (\<exists>r. filter (\<lambda>r. k r = x \<and> P r) rows = [r])"
  using assms
proof (induction rows)
  case (Cons a rows)
  have "filter (\<lambda>r. k r = k a \<and> P r) rows = []"
    using Cons.prems by (auto simp: filter_empty_conv dest: image_eqI [OF sym, of k])
  with Cons show ?case by auto
qed simp

lemma old_versions_distinct:
  assumes d: "distinct (map n_id (nodes s))" "distinct (map f_id (file_versions s))"
  shows "distinct (old_versions s)"
proof -
  have "map (\<lambda>_. f) (filter (\<lambda>n. n_id n = f_node_id f \<and> P n) (nodes s)) = [] \<or>
      map (\<lambda>_. f) (filter (\<lambda>n. n_id n = f_node_id f \<and> P n) (nodes s)) = [f]" for f :: file_version_row and P
    using filter_key_single [OF d(1), of "f_node_id f" P] by auto
  then show ?thesis unfolding old_versions_def
    by (subst concat_single_rows) (use d(2) in \<open>auto simp: distinct_map\<close>)
qed

text \<open>The non-current versions of a node, and the rank as a cardinality.\<close>

definition old_of :: "db \<Rightarrow> node_row \<Rightarrow> file_version_row set" where
  "old_of s n = {f \<in> set (file_versions s). f_node_id f = n_id n \<and> n_current_version_id n \<noteq> Some (f_id f)}"

lemma old_versions_of:
  assumes d: "distinct (map n_id (nodes s))" and n: "n \<in> set (nodes s)" "n_current_version_id n = Some v"
  shows "f \<in> set (old_versions s) \<and> f_node_id f = n_id n \<longleftrightarrow> f \<in> old_of s n"
proof
  assume f: "f \<in> set (old_versions s) \<and> f_node_id f = n_id n"
  then obtain m w where m: "m \<in> set (nodes s)" "n_id m = f_node_id f" "n_current_version_id m = Some w" "f_id f \<noteq> w"
    unfolding old_versions_iff by blast
  have "m = n" by (rule distinct_map_eq [OF d m(1) n(1)]) (simp add: m(2) f)
  with m f show "f \<in> old_of s n" by (auto simp: old_of_def old_versions_iff)
next
  assume "f \<in> old_of s n"
  with n show "f \<in> set (old_versions s) \<and> f_node_id f = n_id n" by (auto simp: old_of_def old_versions_iff)
qed

lemma older_rank_card:
  assumes d: "distinct (map n_id (nodes s))" "distinct (map f_id (file_versions s))"
    and n: "n \<in> set (nodes s)" "n_current_version_id n = Some v" and f: "f_node_id f = n_id n"
  shows "older_rank s f = 1 + card {g \<in> old_of s n. version_key f < version_key g}"
proof -
  have "set (filter (\<lambda>g. f_node_id g = f_node_id f \<and> version_key f < version_key g) (old_versions s)) =
      {g \<in> old_of s n. version_key f < version_key g}"
    using old_versions_of [OF d(1) n] f by auto
  moreover have "distinct (filter (\<lambda>g. f_node_id g = f_node_id f \<and> version_key f < version_key g) (old_versions s))"
    by (rule distinct_filter [OF old_versions_distinct [OF d]])
  then have "length (filter (\<lambda>g. f_node_id g = f_node_id f \<and> version_key f < version_key g) (old_versions s)) =
      card (set (filter (\<lambda>g. f_node_id g = f_node_id f \<and> version_key f < version_key g) (old_versions s)))"
    by (rule distinct_card [symmetric])
  ultimately show ?thesis by (simp only: older_rank_def count_rows_def)
qed

lemma few_with_few_above:
  fixes key :: "'a \<Rightarrow> 'k::linorder"
  assumes A: "finite A" "inj_on key A"
  shows "card {x \<in> A. card {y \<in> A. key x < key y} < m} \<le> m"
proof (cases "{x \<in> A. card {y \<in> A. key x < key y} < m} = {}")
  case False
  let ?B = "{x \<in> A. card {y \<in> A. key x < key y} < m}"
  have fin: "finite ?B" using A by simp
  define k where "k = Min (key ` ?B)"
  have "k \<in> key ` ?B" unfolding k_def by (rule Min_in) (use fin False in auto)
  then obtain x where x: "x \<in> ?B" "key x = k" by blast
  have "?B \<subseteq> insert x {y \<in> A. key x < key y}"
  proof
    fix y assume y: "y \<in> ?B"
    then have "k \<le> key y" unfolding k_def by (intro Min_le) (use fin in auto)
    moreover have "y = x" if "key y = k" using A(2) x y that by (auto dest: inj_onD)
    ultimately show "y \<in> insert x {y \<in> A. key x < key y}" using x y by (auto simp: less_le)
  qed
  then have "card ?B \<le> card (insert x {y \<in> A. key x < key y})" by (rule card_mono [rotated]) (use A in simp)
  also have "\<dots> \<le> Suc (card {y \<in> A. key x < key y})" by (rule card_insert_le_m1) simp_all
  also have "\<dots> \<le> m" using x(1) by simp
  finally show ?thesis .
next
  case True
  show ?thesis unfolding True by simp
qed

text \<open>C24: Version retention is exact: of a file with a current version, that version is kept, and among the others
  exactly those that are young enough and among the newest \<open>MaxFileVersions - 1\<close>; so no more than
  \<open>MaxFileVersions\<close> remain, and files without a current version keep all of theirs.\<close>

theorem version_retention:
  assumes inv: "server_inv H sv" and r: "pruneFileVersions pol now sv = (sv', r)" and pol: "1 \<le> MaxFileVersions pol"
    and n: "n \<in> set (nodes (sv_db sv))"
  shows "(\<forall>f\<in>set (file_versions (sv_db sv)). f_node_id f = n_id n \<longrightarrow>
      (f \<in> set (file_versions (sv_db sv')) \<longleftrightarrow>
        n_current_version_id n = None \<or> n_current_version_id n = Some (f_id f) \<or>
        stamp (now - VersionRetention pol) \<le> stamp (f_created_at f) \<and>
        int (card {g \<in> old_of (sv_db sv) n. version_key f < version_key g}) < MaxFileVersions pol - 1)) \<and>
    (n_current_version_id n \<noteq> None \<longrightarrow> int (card {f \<in> set (file_versions (sv_db sv')). f_node_id f = n_id n}) \<le> MaxFileVersions pol)"
proof -
  let ?s = "sv_db sv"
  have d: "distinct (map n_id (nodes ?s))" and df: "distinct (map f_id (file_versions ?s))"
    using inv vault_invD(8) by (simp_all add: server_inv_def storage_inv_def versions_ok_def)
  have sv': "set (file_versions (sv_db sv')) = {f \<in> set (file_versions ?s). \<not> prunable pol now ?s f}"
    using r pruneFileVersions_eq [OF df, of pol now] by auto
  show ?thesis
  proof (cases "n_current_version_id n")
    case None
    have "f \<notin> set (old_versions ?s)" if f: "f_node_id f = n_id n" for f
    proof
      assume "f \<in> set (old_versions ?s)"
      then obtain m w where m: "m \<in> set (nodes ?s)" "n_id m = f_node_id f" "n_current_version_id m = Some w" unfolding old_versions_iff by blast
      have "m = n" by (rule distinct_map_eq [OF d m(1) n]) (simp add: m(2) f)
      with m None show False by simp
    qed
    then show ?thesis using None by (auto simp: sv' prunable_def)
  next
    case (Some v)
    note of = old_versions_of [OF d n Some] and rank = older_rank_card [OF d df n Some]
    have keep: "prunable pol now ?s f \<longleftrightarrow> f \<in> old_of ?s n \<and> \<not> (stamp (now - VersionRetention pol) \<le> stamp (f_created_at f) \<and>
        int (card {g \<in> old_of ?s n. version_key f < version_key g}) < MaxFileVersions pol - 1)" if f: "f_node_id f = n_id n" for f
      using of [of f] f rank [OF f] unfolding prunable_def by (auto simp: not_le not_less)
    have fin: "finite (old_of ?s n)" by (simp add: old_of_def)
    have inj: "inj_on version_key (old_of ?s n)"
    proof (rule inj_onI)
      fix f g assume "f \<in> old_of ?s n" "g \<in> old_of ?s n" "version_key f = version_key g"
      then show "f = g" by (intro distinct_map_eq [OF df]) (simp_all add: old_of_def version_key_def)
    qed
    let ?few = "{f \<in> old_of ?s n. card {g \<in> old_of ?s n. version_key f < version_key g} < nat (MaxFileVersions pol - 1)}"
    have "{f \<in> set (file_versions (sv_db sv')). f_node_id f = n_id n} \<subseteq> {f \<in> set (file_versions ?s). f_id f = v} \<union> ?few"
      using keep Some by (auto simp: sv' old_of_def)
    then have "card {f \<in> set (file_versions (sv_db sv')). f_node_id f = n_id n} \<le> card ({f \<in> set (file_versions ?s). f_id f = v} \<union> ?few)"
      by (rule card_mono [rotated]) (use fin in simp)
    also have "\<dots> \<le> card {f \<in> set (file_versions ?s). f_id f = v} + card ?few" by (rule card_Un_le)
    also have "card {f \<in> set (file_versions ?s). f_id f = v} \<le> 1"
    proof -
      have "f = g" if "f \<in> set (file_versions ?s)" "g \<in> set (file_versions ?s)" "f_id f = v" "f_id g = v" for f g
        using that by (intro distinct_map_eq [OF df]) simp_all
      then have "card {f \<in> set (file_versions ?s). f_id f = v} \<le> Suc 0" by (subst card_le_Suc0_iff_eq) auto
      then show ?thesis by simp
    qed
    also have "card ?few \<le> nat (MaxFileVersions pol - 1)" by (rule few_with_few_above [OF fin inj])
    finally have "int (card {f \<in> set (file_versions (sv_db sv')). f_node_id f = n_id n}) \<le> MaxFileVersions pol" using pol by simp
    moreover have "f \<in> set (file_versions (sv_db sv')) \<longleftrightarrow> n_current_version_id n = Some (f_id f) \<or>
        stamp (now - VersionRetention pol) \<le> stamp (f_created_at f) \<and>
        int (card {g \<in> old_of ?s n. version_key f < version_key g}) < MaxFileVersions pol - 1"
      if "f \<in> set (file_versions ?s)" "f_node_id f = n_id n" for f
      using that keep [OF that(2)] by (auto simp: sv' old_of_def)
    ultimately show ?thesis using Some by simp
  qed
qed

section \<open>Witnesses\<close>

text \<open>In \<open>demo_store\<close> only \<open>old\<close> is in Trash, and nothing lies below it.\<close>

lemma demo_store_par: "par (nodes (sv_db demo_store)) \<subseteq> {(''doc'', ''top''), (''old'', ''top'')}"
  by (auto simp: par_def demo_store_def demo_store_nodes_def demo_nodes_def demo_node_def)

lemma demo_doc_live: "\<not> expired_below (sv_db demo_store) cutoff ''doc''"
proof
  assume "expired_below (sv_db demo_store) cutoff ''doc''"
  then obtain i where i: "in_trash (sv_db demo_store) i cutoff" "(''doc'', i) \<in> (par (nodes (sv_db demo_store)))\<^sup>*"
    unfolding expired_below_def by blast
  from i(1) have "i = ''old''" by (auto simp: in_trash_def demo_store_def demo_store_nodes_def demo_nodes_def demo_node_def)
  with i(2) have "(''doc'', ''old'') \<in> {(''doc'', ''top''), (''old'', ''top'')}\<^sup>*" using rtrancl_mono [OF demo_store_par] by auto
  then show False
    by (cases rule: converse_rtranclE) (auto elim: converse_rtranclE)
qed

lemma demo_store_parseable: "parseable_uploads demo_uuid (sv_db demo_store)"
  by (simp add: parseable_uploads_def demo_store_def demo_def empty_db_def)


theorem trash_expiry_exact_witness:
  "\<exists>sv' k. cleanupExpiredTrash demo_uuid demo_policy 100000000000 demo_store = (sv', Inr k) \<and>
    ''doc'' \<in> n_id ` set (nodes (sv_db sv'))"
proof -
  have "''doc'' \<in> n_id ` set (nodes (sv_db demo_store))" by (simp add: demo_store_def demo_store_nodes_def demo_nodes_def demo_node_def)
  with trash_expiry_exact [OF demo_store_inv demo_store_parseable, of demo_policy 100000000000] demo_doc_live
  show ?thesis by (auto simp: image_iff) metis
qed

theorem PurgeTrashEntry_exact_witness:
  "\<exists>sv'. PurgeTrashEntry demo_uuid 100 demo_store ''alice'' ''old'' = (sv', Inr ()) \<and>
    blobs (sv_db sv') = blobs (sv_db demo_store)"
proof -
  have "\<exists>n\<in>set (nodes (sv_db demo_store)). n_id n = ''old'' \<and> n_owner_id n = ''alice'' \<and> n_deleted_at n \<noteq> None"
    by (simp add: demo_store_def demo_store_nodes_def demo_nodes_def demo_node_def)
  from PurgeTrashEntry_exact [OF demo_store_inv demo_store_parseable refl, of "''old''" "''alice''" 100, unfolded if_P [OF this]]
  show ?thesis by blast
qed

theorem version_retention_witness:
  "let sv' = fst (pruneFileVersions demo_policy 5000000000 demo_store) in
   card {f \<in> set (file_versions (sv_db sv')). f_node_id f = ''doc''} \<le> 2"
proof -
  let ?n = "demo_node ''doc'' (Some ''top'') ''FILE'' 2 None\<lparr>n_current_version_id := Some ''v3''\<rparr>"
  have n: "?n \<in> set (nodes (sv_db demo_store))" "n_id ?n = ''doc''" "n_current_version_id ?n = Some ''v3''"
    by (simp_all add: demo_store_def demo_store_nodes_def demo_nodes_def demo_node_def)
  have "1 \<le> MaxFileVersions demo_policy" by (simp add: demo_policy_def)
  from version_retention [OF demo_store_inv prod.collapse [symmetric] this n(1), of 5000000000] n(2,3)
  show ?thesis unfolding Let_def by (simp add: demo_policy_def)
qed

end
