(* ===== verification/HB_GC.thy ===== *)
theory HB_GC
  imports HB_Maintenance_Props
begin

text \<open>
  Garbage collection of ciphertext: the two-pass scheme of \<open>collectUnreferencedBlobs\<close> and
  \<open>collectOrphanBlobFiles\<close>, within a whole pass. Nothing is deleted without a mark a grace period old, and
  what stays unreferenced is deleted in the end.
\<close>

section \<open>The stages before garbage collection\<close>

definition gc_same :: "server \<Rightarrow> server \<Rightarrow> bool" where
  "gc_same sv sv' \<longleftrightarrow> blobs (sv_db sv') = blobs (sv_db sv) \<and>
     gc_blob_candidates (sv_db sv') = gc_blob_candidates (sv_db sv) \<and>
     gc_orphan_blob_files (sv_db sv') = gc_orphan_blob_files (sv_db sv) \<and>
     set (file_versions (sv_db sv')) \<subseteq> set (file_versions (sv_db sv)) \<and>
     (\<forall>i. file_at (sv_disk sv') (blob_path i) = file_at (sv_disk sv) (blob_path i))"

definition early :: "(bytes \<Rightarrow> string) \<Rightarrow> server \<Rightarrow> server \<Rightarrow> bool" where
  "early H sv sv' \<longleftrightarrow> server_inv H sv' \<and> gc_same sv sv'"

lemma early_refl: "server_inv H sv \<Longrightarrow> early H sv sv"
  by (simp add: early_def gc_same_def)

lemma early_trans: "early H sv sv1 \<Longrightarrow> early H sv1 sv2 \<Longrightarrow> early H sv sv2"
  by (simp add: early_def gc_same_def) blast

lemma early_each:
  assumes "server_inv H sv" "\<And>sv x. server_inv H sv \<Longrightarrow> early H sv (fst (f sv x))"
  shows "early H sv (fst (each f xs sv n))"
proof (rule each_inv [where P = "early H sv"])
  show "early H sv sv" by (rule early_refl [OF assms(1)])
  fix sv1 x assume e: "early H sv sv1"
  then have "server_inv H sv1" by (simp add: early_def)
  with e assms(2) show "early H sv (fst (f sv1 x))" using early_trans by blast
qed

lemma early_expired: "server_inv H sv \<Longrightarrow> early H sv (fst (cleanupExpired now sv))"
  using cleanupExpired_inv [of H sv now] by (simp add: early_def gc_same_def) (simp add: cleanupExpired_def Let_def deleteBefore_def)

lemma early_upload:
  assumes inv: "server_inv H sv"
  shows "early H sv (fst (expireUpload now sv i))"
proof -
  have d: "distinct (map us_id (upload_sessions (sv_db sv)))" using inv by (simp add: server_inv_def storage_inv_def sessions_ok_def)
  show ?thesis using expireUpload_inv [OF inv, of now i]
    by (simp add: early_def gc_same_def) (simp add: expireUpload_eq [OF d] del: file_at_remove_all)
qed

lemma early_uploads: "server_inv H sv \<Longrightarrow> early H sv (fst (cleanupExpiredUploads U now sv))"
  unfolding cleanupExpiredUploads_def Let_def by (simp add: early_refl early_each early_upload)

lemma early_purge:
  assumes inv: "server_inv H sv"
  shows "early H sv (fst (purgeSubtree U now cutoff sv i))"
proof -
  have v: "vault_inv (sv_db sv)" using inv by (simp add: server_inv_def)
  have "gc_same sv (purge_server now cutoff sv i)" by (auto simp: gc_same_def purge_server_def Let_def)
  then show ?thesis using purge_server_inv [OF inv, of now cutoff i] early_refl [OF inv]
    by (simp add: purgeSubtree_eq [OF v] early_def)
qed

lemma early_trash: "server_inv H sv \<Longrightarrow> early H sv (fst (cleanupExpiredTrash U pol now sv))"
  unfolding cleanupExpiredTrash_def Let_def by (rule early_each) (simp_all add: early_purge)

lemma early_prune:
  assumes inv: "server_inv H sv"
  shows "early H sv (fst (pruneFileVersions pol now sv))"
proof -
  have d: "distinct (map f_id (file_versions (sv_db sv)))" using inv by (simp add: server_inv_def storage_inv_def versions_ok_def)
  show ?thesis using pruneFileVersions_inv [OF inv, of pol now]
    by (simp add: early_def gc_same_def) (auto simp: pruneFileVersions_eq [OF d])
qed

text \<open>A pass is the stages before garbage collection (reaching \<open>sv4\<close>), the blob collection and the file
  collection, as far as it gets.\<close>

definition before_gc :: "uuid_pkg \<Rightarrow> Policy \<Rightarrow> time \<Rightarrow> server \<Rightarrow> server \<times> (err + (nat \<times> nat \<times> nat) \<times> nat \<times> nat \<times> nat)" where
  "before_gc U pol now sv =
     sbind (cleanupExpired now sv) (\<lambda>sv1 t.
     sbind (cleanupExpiredUploads U now sv1) (\<lambda>sv2 u.
     sbind (cleanupExpiredTrash U pol now sv2) (\<lambda>sv3 i.
     sbind (pruneFileVersions pol now sv3) (\<lambda>sv4 p. (sv4, Inr (t, u, i, p))))))"

lemma sbind_assoc: "sbind (sbind m f) g = sbind m (\<lambda>s x. sbind (f s x) g)"
  by (cases m, cases "snd m") (auto simp: sbind_def)

lemma early_sbind:
  assumes "early H sv (fst m)" "\<And>sv1 x. server_inv H sv1 \<Longrightarrow> early H sv1 (fst (f sv1 x))"
  shows "early H sv (fst (sbind m f))"
proof (cases "snd m")
  case (Inl e)
  then show ?thesis using assms(1) by (simp add: fst_sbind)
next
  case (Inr x)
  have "server_inv H (fst m)" using assms(1) by (simp add: early_def)
  from early_trans [OF assms(1) assms(2) [OF this]] Inr show ?thesis by (simp add: fst_sbind)
qed

lemma before_gc_early: "server_inv H sv \<Longrightarrow> early H sv (fst (before_gc U pol now sv))"
  unfolding before_gc_def
  by (rule early_sbind, erule early_expired, rule early_sbind, erule early_uploads, rule early_sbind, erule early_trash,
      rule early_sbind, erule early_prune, simp add: early_refl)

lemma Run_stages:
  "RunMaintenance U pol now sv = sbind (before_gc U pol now sv) (\<lambda>sv4 x.
     sbind (collectUnreferencedBlobs U pol now sv4) (\<lambda>sv5 bs. sbind (collectOrphanBlobFiles U pol now sv5) (\<lambda>sv6 os.
       (sv6, Inr (case x of ((a, r, n), u, i, p) \<Rightarrow> \<lparr>ExpiredUploads = u, ExpiredAccessTokens = a, ExpiredRefreshTokens = r,
          ExpiredOperations = n, ExpiredTrashItems = i, PrunedFileVersions = p,
          UnreferencedBlobs = bs, OrphanBlobFiles = os\<rparr>)))))"
  unfolding RunMaintenance_def before_gc_def sbind_assoc
  by (intro arg_cong2 [where f = sbind] refl ext) (simp add: split_beta)

lemma Run_reaches:
  obtains "fst (RunMaintenance U pol now sv) = fst (before_gc U pol now sv)"
  | "fst (RunMaintenance U pol now sv) = fst (collectUnreferencedBlobs U pol now (fst (before_gc U pol now sv)))"
  | "fst (RunMaintenance U pol now sv) =
      fst (collectOrphanBlobFiles U pol now (fst (collectUnreferencedBlobs U pol now (fst (before_gc U pol now sv)))))"
proof (cases "snd (before_gc U pol now sv)")
  case (Inl e)
  then show thesis by (intro that(1)) (simp add: Run_stages fst_sbind)
next
  case a: (Inr x)
  show thesis
  proof (cases "snd (collectUnreferencedBlobs U pol now (fst (before_gc U pol now sv)))")
    case (Inl e)
    with a show thesis by (intro that(2)) (simp add: Run_stages fst_sbind)
  next
    case b: (Inr y)
    let ?o = "collectOrphanBlobFiles U pol now (fst (collectUnreferencedBlobs U pol now (fst (before_gc U pol now sv))))"
    show thesis by (cases "snd ?o"; intro that(3)) (simp_all add: Run_stages fst_sbind a b)
  qed
qed

section \<open>Garbage collection\<close>

lemma mark_row_mem: "x \<in> set (mark_row k now rows) \<Longrightarrow> x \<in> set rows \<or> x = (k, now)"
  by (auto simp: mark_row_def split: if_split_asm)

lemma mark_row_has: "\<exists>m. (k, m) \<in> set (mark_row k now rows)"
  by (force simp: mark_row_def)

lemma mark_row_mono: "set rows \<subseteq> set (mark_row k now rows)"
  by (auto simp: mark_row_def)

lemma mark_rows_mem: "x \<in> set (fold (\<lambda>b. mark_row (b_id b) now) bs rows) \<Longrightarrow> x \<in> set rows \<or> snd x = now"
proof (induction bs arbitrary: rows)
  case (Cons b bs)
  then have "x \<in> set (mark_row (b_id b) now rows) \<or> snd x = now" by simp
  then show ?case by (auto dest: mark_row_mem)
qed simp

lemma mark_rows_mono: "set rows \<subseteq> set (fold (\<lambda>b. mark_row (b_id b) now) bs rows)"
  by (induction bs arbitrary: rows) (use mark_row_mono in \<open>fastforce+\<close>)

lemma mark_rows_has: "b \<in> set bs \<Longrightarrow> \<exists>m. (b_id b, m) \<in> set (fold (\<lambda>b. mark_row (b_id b) now) bs rows)"
proof (induction bs arbitrary: rows)
  case (Cons c bs)
  show ?case
  proof (cases "b \<in> set bs")
    case True
    from Cons.IH [OF this] show ?thesis by simp
  next
    case False
    with Cons.prems have "b = c" by simp
    with mark_row_has [of "b_id c" now rows] mark_rows_mono show ?thesis by fastforce
  qed
qed simp

lemma markBlobs_old: "(i, m) \<in> set (gc_blob_candidates (markBlobs now s)) \<Longrightarrow> (i, m) \<in> set (gc_blob_candidates s) \<or> m = now"
  by (auto simp: markBlobs_def Let_def dest: mark_rows_mem)

lemma markBlobs_has:
  assumes "b \<in> set (blobs s)" "unreferenced s (b_id b)"
  shows "\<exists>m. (b_id b, m) \<in> set (gc_blob_candidates (markBlobs now s))"
proof -
  have "b \<in> set (filter (\<lambda>b. unreferenced s (b_id b)) (blobs s))" using assms by simp
  from mark_rows_has [OF this] obtain m where
    "(b_id b, m) \<in> set (fold (\<lambda>b. mark_row (b_id b) now) (filter (\<lambda>b. unreferenced s (b_id b)) (blobs s)) (gc_blob_candidates s))" by blast
  with assms show ?thesis by (auto simp: markBlobs_def Let_def unreferenced_def)
qed

lemma old_stamp: "nanos_per_second \<le> g \<Longrightarrow> \<not> stamp now \<le> stamp (now - g)"
  using stamp_less_one_second [of "now - g" now] by (simp add: not_le)

lemma markOrphan_old: "x \<in> set (gc_orphan_blob_files (markOrphan U now name s)) \<Longrightarrow> x \<in> set (gc_orphan_blob_files s) \<or> snd x = now"
  by (auto simp: markOrphan_def Let_def split: if_split_asm dest: mark_row_mem)

lemma markOrphans_old: "x \<in> set (gc_orphan_blob_files (fold (markOrphan U now) xs s)) \<Longrightarrow> x \<in> set (gc_orphan_blob_files s) \<or> snd x = now"
proof (induction xs arbitrary: s)
  case (Cons name xs)
  then have "x \<in> set (gc_orphan_blob_files (markOrphan U now name s)) \<or> snd x = now" by simp
  then show ?case by (auto dest: markOrphan_old)
qed simp

text \<open>What a collection may remove: blobs with a mark of at least the grace period, and their files.\<close>

definition gc_lost :: "id set \<Rightarrow> server \<Rightarrow> server \<Rightarrow> bool" where
  "gc_lost M sv sv' \<longleftrightarrow> (\<forall>b\<in>set (blobs (sv_db sv)) - set (blobs (sv_db sv')). b_id b \<in> M) \<and>
     (\<forall>i. file_at (sv_disk sv) (blob_path i) \<noteq> None \<longrightarrow> file_at (sv_disk sv') (blob_path i) = None \<longrightarrow> i \<in> M)"

lemma gc_lost_refl: "gc_lost M sv sv"
  by (auto simp: gc_lost_def)

lemma gc_lost_trans: "gc_lost M sv sv1 \<Longrightarrow> gc_lost M sv1 sv2 \<Longrightarrow> gc_lost M sv sv2"
  unfolding gc_lost_def by blast

lemma gc_lost_mono: "gc_lost M sv sv' \<Longrightarrow> M \<subseteq> N \<Longrightarrow> gc_lost N sv sv'"
  unfolding gc_lost_def by blast

lemma gc_lost_each:
  assumes "\<And>sv x. x \<in> set xs \<Longrightarrow> gc_lost M sv (fst (f sv x))"
  shows "gc_lost M sv (fst (each f xs sv n))"
  by (rule each_inv [where P = "gc_lost M sv"]) (use assms gc_lost_refl gc_lost_trans in blast)+

lemma deleteBlob_lost: "snd c = blob_path (fst c) \<Longrightarrow> gc_lost {fst c} sv (fst (deleteBlob sv c))"
  by (auto simp: gc_lost_def deleteBlob_eq deleteBlob_tx_def)

lemma deleteOrphan_lost: "gc_lost {i. blob_path i = p} sv (fst (deleteOrphan sv p))"
  by (auto simp: gc_lost_def deleteOrphan_def Let_def)

definition marked_blobs :: "Policy \<Rightarrow> time \<Rightarrow> db \<Rightarrow> id set" where
  "marked_blobs pol now s = {i. \<exists>m. (i, m) \<in> set (gc_blob_candidates s) \<and> stamp m \<le> stamp (now - OrphanBlobGrace pol)}"

definition marked_files :: "Policy \<Rightarrow> time \<Rightarrow> db \<Rightarrow> id set" where
  "marked_files pol now s = {i. \<exists>m. (blob_path i, m) \<in> set (gc_orphan_blob_files s) \<and> stamp m \<le> stamp (now - OrphanBlobGrace pol)}"

lemma collectBlobs_lost:
  assumes inv: "server_inv H sv" and g: "nanos_per_second \<le> OrphanBlobGrace pol"
  shows "gc_lost (marked_blobs pol now (sv_db sv)) sv (fst (collectUnreferencedBlobs U pol now sv))"
    and "gc_orphan_blob_files (sv_db (fst (collectUnreferencedBlobs U pol now sv))) = gc_orphan_blob_files (sv_db sv)"
proof -
  let ?sv = "sv\<lparr>sv_db := markBlobs now (sv_db sv)\<rparr>" and ?cs = "eligible pol now (markBlobs now (sv_db sv))"
  have inv': "server_inv H ?sv" by (rule markBlobs_inv [OF inv])
  have c: "snd c = blob_path (fst c)" "fst c \<in> marked_blobs pol now (sv_db sv)" if "c \<in> set ?cs" for c
  proof -
    from that obtain m b where mb: "(fst c, m) \<in> set (gc_blob_candidates (markBlobs now (sv_db sv)))"
      "stamp m \<le> stamp (now - OrphanBlobGrace pol)" "b \<in> set (blobs (sv_db sv))" "b_id b = fst c" "snd c = b_storage_rel_path b"
      unfolding eligible_iff by auto
    with blob_paths [OF inv] show "snd c = blob_path (fst c)" by simp
    from markBlobs_old [OF mb(1)] mb(2) old_stamp [OF g] show "fst c \<in> marked_blobs pol now (sv_db sv)"
      by (auto simp: marked_blobs_def)
  qed
  have m: "gc_lost M sv ?sv" for M by (auto simp: gc_lost_def)
  have "gc_lost (marked_blobs pol now (sv_db sv)) ?sv (fst (each deleteBlob ?cs ?sv 0))"
    by (rule gc_lost_each) (use c deleteBlob_lost gc_lost_mono in blast)
  from gc_lost_trans [OF m this] m [of "marked_blobs pol now (sv_db sv)"]
  show "gc_lost (marked_blobs pol now (sv_db sv)) sv (fst (collectUnreferencedBlobs U pol now sv))"
    by (simp add: collectUnreferencedBlobs_def Let_def)
  have "gc_orphan_blob_files (sv_db (fst (each deleteBlob ?cs ?sv 0))) = gc_orphan_blob_files (sv_db sv)"
    by (rule each_inv) (simp_all add: deleteBlob_eq deleteBlob_tx_def)
  then show "gc_orphan_blob_files (sv_db (fst (collectUnreferencedBlobs U pol now sv))) = gc_orphan_blob_files (sv_db sv)"
    by (simp add: collectUnreferencedBlobs_def Let_def)
qed

lemma collectOrphans_lost:
  assumes g: "nanos_per_second \<le> OrphanBlobGrace pol"
  shows "gc_lost (marked_files pol now (sv_db sv)) sv (fst (collectOrphanBlobFiles U pol now sv))"
proof -
  let ?sv = "sv\<lparr>sv_db := fold (markOrphan U now) (read_dir ''blobs'' (sv_disk sv)) (sv_db sv)\<rparr>"
  let ?ps = "map fst (filter (\<lambda>x. stamp (snd x) \<le> stamp (now - OrphanBlobGrace pol)) (gc_orphan_blob_files (sv_db ?sv)))"
  let ?M = "marked_files pol now (sv_db sv)"
  have eq: "collectOrphanBlobFiles U pol now sv =
    (if \<exists>p\<in>set ?ps. \<not> safeBlobPath U p then (?sv, Inl (Internal ''unsafe orphan blob path in database''))
     else each deleteOrphan ?ps ?sv 0)" by (simp only: collectOrphanBlobFiles_def Let_def)
  have m: "gc_lost ?M sv ?sv" by (auto simp: gc_lost_def)
  have "{i. blob_path i = p} \<subseteq> ?M" if p: "p \<in> set ?ps" for p
  proof
    fix i assume "i \<in> {i. blob_path i = p}"
    with p obtain x where x: "x \<in> set (gc_orphan_blob_files (sv_db ?sv))" "stamp (snd x) \<le> stamp (now - OrphanBlobGrace pol)"
      "fst x = blob_path i" by auto
    from x(1) markOrphans_old [of x U now _ "sv_db sv"] have "x \<in> set (gc_orphan_blob_files (sv_db sv)) \<or> snd x = now" by simp
    with x(2) old_stamp [OF g] have "x \<in> set (gc_orphan_blob_files (sv_db sv))" by auto
    then have "(blob_path i, snd x) \<in> set (gc_orphan_blob_files (sv_db sv))" using x(3) by (metis prod.collapse)
    with x(2) show "i \<in> ?M" by (auto simp: marked_files_def)
  qed
  then have "gc_lost ?M ?sv (fst (each deleteOrphan ?ps ?sv 0))"
    by (intro gc_lost_each) (use deleteOrphan_lost gc_lost_mono in blast)
  from gc_lost_trans [OF m this] m show ?thesis unfolding eq by simp
qed

lemma two_passes:
  assumes inv: "server_inv H sv" and grace: "nanos_per_second \<le> OrphanBlobGrace pol"
    and sv': "sv' = fst (RunMaintenance U pol now sv)"
  shows "(\<forall>b\<in>set (blobs (sv_db sv)) - set (blobs (sv_db sv')). b_id b \<in> marked_blobs pol now (sv_db sv)) \<and>
    (\<forall>i. file_at (sv_disk sv) (blob_path i) \<noteq> None \<longrightarrow> file_at (sv_disk sv') (blob_path i) = None \<longrightarrow>
       i \<in> marked_blobs pol now (sv_db sv) \<or> i \<in> marked_files pol now (sv_db sv))"
proof -
  let ?M = "marked_blobs pol now (sv_db sv)" and ?F = "marked_files pol now (sv_db sv)"
  let ?sv4 = "fst (before_gc U pol now sv)"
  let ?sv5 = "fst (collectUnreferencedBlobs U pol now ?sv4)"
  have e: "early H sv ?sv4" by (rule before_gc_early [OF inv])
  then have inv4: "server_inv H ?sv4" and same: "gc_same sv ?sv4" by (simp_all add: early_def)
  have M: "marked_blobs pol now (sv_db ?sv4) = ?M" using same by (simp add: gc_same_def marked_blobs_def)
  have l4: "gc_lost ?M sv ?sv4" using same by (auto simp: gc_same_def gc_lost_def)
  have l5: "gc_lost ?M sv ?sv5"
    by (rule gc_lost_trans [OF l4]) (use collectBlobs_lost(1) [OF inv4 grace, of now U] M in simp)
  have F: "marked_files pol now (sv_db ?sv5) = ?F"
    using collectBlobs_lost(2) [OF inv4 grace, of U now] same by (simp add: gc_same_def marked_files_def)
  have l6: "gc_lost ?F ?sv5 (fst (collectOrphanBlobFiles U pol now ?sv5))"
    using collectOrphans_lost [OF grace, of now ?sv5 U] F by simp
  have blobs6: "blobs (sv_db (fst (collectOrphanBlobFiles U pol now ?sv5))) = blobs (sv_db ?sv5)"
  proof -
    have "blobs (sv_db (fst (each deleteOrphan ps s 0))) = blobs (sv_db ?sv5)" if "blobs (sv_db s) = blobs (sv_db ?sv5)" for ps s
      by (rule each_inv) (use that in \<open>simp_all add: deleteOrphan_def Let_def\<close>)
    then show ?thesis by (simp add: collectOrphanBlobFiles_def Let_def)
  qed
  from Run_reaches [of U pol now sv, folded sv'] show ?thesis
  proof cases
    case 1
    with l4 show ?thesis by (auto simp: gc_lost_def)
  next
    case 2
    with l5 show ?thesis by (auto simp: gc_lost_def)
  next
    case 3
    with l5 l6 blobs6 show ?thesis unfolding gc_lost_def by auto
  qed
qed


lemma unreferenced_cong: "file_versions s' = file_versions s \<Longrightarrow> unreferenced s' i = unreferenced s i"
  by (simp add: unreferenced_def)

lemma unreferenced_mono: "set (file_versions s') \<subseteq> set (file_versions s) \<Longrightarrow> unreferenced s i \<Longrightarrow> unreferenced s' i"
  by (auto simp: unreferenced_def)

lemma deleteBlob_frame [simp]:
  "file_versions (sv_db (fst (deleteBlob sv c))) = file_versions (sv_db sv)"
  "set (blobs (sv_db (fst (deleteBlob sv c)))) = {b \<in> set (blobs (sv_db sv)). \<not> (b_id b = fst c \<and> unreferenced (sv_db sv) (fst c))}"
  "set (gc_blob_candidates (sv_db (fst (deleteBlob sv c)))) = {x \<in> set (gc_blob_candidates (sv_db sv)). fst x \<noteq> fst c}"
  by (auto simp: deleteBlob_eq deleteBlob_tx_def)

lemma collectBlobs_marks:
  assumes inv: "server_inv H sv" and sv': "sv' = fst (collectUnreferencedBlobs U pol now sv)"
    and b: "b \<in> set (blobs (sv_db sv'))" "unreferenced (sv_db sv') (b_id b)"
  shows "\<exists>m. (b_id b, m) \<in> set (gc_blob_candidates (sv_db sv')) \<and> ((b_id b, m) \<in> set (gc_blob_candidates (sv_db sv)) \<or> m = now)"
proof -
  let ?sv = "sv\<lparr>sv_db := markBlobs now (sv_db sv)\<rparr>" and ?cs = "eligible pol now (markBlobs now (sv_db sv))"
  let ?C = "set (gc_blob_candidates (markBlobs now (sv_db sv)))"
  let ?P = "\<lambda>s :: server. set (gc_blob_candidates (sv_db s)) \<subseteq> ?C \<and>
    (\<forall>b\<in>set (blobs (sv_db s)). unreferenced (sv_db s) (b_id b) \<longrightarrow> (\<exists>m. (b_id b, m) \<in> set (gc_blob_candidates (sv_db s))))"
  have start: "?P ?sv" using markBlobs_has [of _ "sv_db sv" now] by (auto simp: unreferenced_cong [of "markBlobs now (sv_db sv)" "sv_db sv"])
  have "?P (fst (each deleteBlob ?cs ?sv 0))"
  proof (rule each_inv [where P = ?P, OF start])
    fix s c assume P: "?P s"
    have un: "unreferenced (sv_db (fst (deleteBlob s c))) i = unreferenced (sv_db s) i" for i
      by (rule unreferenced_cong) simp
    from P show "?P (fst (deleteBlob s c))" unfolding deleteBlob_frame un by force
  qed
  with start have "?P sv'" unfolding sv' collectUnreferencedBlobs_def Let_def by (simp split: if_split)
  with b obtain m where "(b_id b, m) \<in> set (gc_blob_candidates (sv_db sv'))" "(b_id b, m) \<in> ?C" by blast
  then show ?thesis using markBlobs_old by blast
qed

lemma collectBlobs_gone:
  assumes inv: "server_inv H sv" and r: "collectUnreferencedBlobs U pol now sv = (sv', Inr k)"
    and m: "(b_id b, m) \<in> set (gc_blob_candidates (sv_db sv))" "stamp m \<le> stamp (now - OrphanBlobGrace pol)"
    and b: "b \<in> set (blobs (sv_db sv))" "unreferenced (sv_db sv) (b_id b)"
  shows "b_id b \<notin> b_id ` set (blobs (sv_db sv')) \<and> file_at (sv_disk sv') (blob_path (b_id b)) = None"
proof -
  let ?sv = "sv\<lparr>sv_db := markBlobs now (sv_db sv)\<rparr>" and ?cs = "eligible pol now (markBlobs now (sv_db sv))"
  let ?P = "\<lambda>s :: server. file_versions (sv_db s) = file_versions (sv_db sv) \<and>
    (\<forall>c\<in>set ?cs. fst c \<in> b_id ` set (blobs (sv_db s)) \<or> file_at (sv_disk s) (snd c) = None)"
  let ?Q = "\<lambda>c (s :: server). fst c \<notin> b_id ` set (blobs (sv_db s)) \<and> file_at (sv_disk s) (snd c) = None"
  have c: "snd c = blob_path (fst c)" "unreferenced (sv_db sv) (fst c)" "fst c \<in> b_id ` set (blobs (sv_db sv))" if "c \<in> set ?cs" for c
    using that blob_paths [OF inv] unreferenced_cong [of "markBlobs now (sv_db sv)" "sv_db sv"] unfolding eligible_iff
    by (auto intro: rev_image_eqI)
  have "\<exists>x\<in>set ?cs. \<not> safeBlobPath U (snd x) \<Longrightarrow> False" using r by (simp add: collectUnreferencedBlobs_def Let_def)
  then have e: "each deleteBlob ?cs ?sv 0 = (sv', Inr k)" using r
    by (simp add: collectUnreferencedBlobs_def Let_def split: if_split_asm)
  have "(b_id b, m) \<in> set (gc_blob_candidates (markBlobs now (sv_db sv)))"
    using m(1) b mark_rows_mono [of "gc_blob_candidates (sv_db sv)" now "filter (\<lambda>b. unreferenced (sv_db sv) (b_id b)) (blobs (sv_db sv))"]
    by (auto simp: markBlobs_def Let_def unreferenced_def)
  with m(2) b have elig: "(b_id b, b_storage_rel_path b) \<in> set ?cs"
    unfolding eligible_iff by (auto simp: unreferenced_cong [of "markBlobs now (sv_db sv)" "sv_db sv"])
  have start: "?P ?sv" using c(3) by auto
  have del: "set (blobs (sv_db (fst (deleteBlob s x)))) = {b \<in> set (blobs (sv_db s)). b_id b \<noteq> fst x}"
    "sv_disk (fst (deleteBlob s x)) = (if fst x \<in> b_id ` set (blobs (sv_db s)) then remove_file (snd x) (sv_disk s) else sv_disk s)"
    if "?P s" "x \<in> set ?cs" for s x
  proof -
    have un: "unreferenced (sv_db s) (fst x)" using that c(2) [OF that(2)] unreferenced_cong [of "sv_db s" "sv_db sv"] by simp
    then have ex: "(\<exists>b\<in>set (blobs (sv_db s)). b_id b = fst x \<and> unreferenced (sv_db s) (fst x)) = (fst x \<in> b_id ` set (blobs (sv_db s)))"
      by (auto simp: image_iff) metis
    show "set (blobs (sv_db (fst (deleteBlob s x)))) = {b \<in> set (blobs (sv_db s)). b_id b \<noteq> fst x}" using un by auto
    show "sv_disk (fst (deleteBlob s x)) = (if fst x \<in> b_id ` set (blobs (sv_db s)) then remove_file (snd x) (sv_disk s) else sv_disk s)"
      unfolding deleteBlob_eq ex by simp
  qed
  have step: "\<exists>k s'. deleteBlob s x = (s', Inr k) \<and> ?P s' \<and> ?Q x s'" if P: "?P s" and x: "x \<in> set ?cs" for s x
  proof -
    have "\<exists>k. snd (deleteBlob s x) = Inr k" unfolding deleteBlob_eq by (auto split: if_split)
    then obtain k where k: "snd (deleteBlob s x) = Inr k" by blast
    have Q: "?Q x (fst (deleteBlob s x))" using P x unfolding del [OF P x] by auto
    have "fst y \<in> b_id ` set (blobs (sv_db (fst (deleteBlob s x)))) \<or> file_at (sv_disk (fst (deleteBlob s x))) (snd y) = None"
      if y: "y \<in> set ?cs" for y
    proof (cases "fst y = fst x")
      case True
      then show ?thesis using Q c(1) [OF x] c(1) [OF y] by simp
    next
      case False
      then show ?thesis using P y unfolding del [OF P x] by auto
    qed
    with P Q k show ?thesis by (intro exI [of _ k] exI [of _ "fst (deleteBlob s x)"]) (simp add: prod_eq_iff)
  qed
  have keep: "?Q x (fst (deleteBlob s y))" if "?P s" "y \<in> set ?cs" "?Q x s" for s x y
    using that unfolding del [OF that(1,2)] by auto
  have "\<exists>s' k. each deleteBlob ?cs ?sv 0 = (s', Inr k) \<and> ?P s' \<and> (\<forall>x\<in>set ?cs. ?Q x s') \<and> (\<forall>x. ?Q x ?sv \<longrightarrow> ?Q x s')"
    by (rule each_all [OF start step keep])
  then have "\<forall>x\<in>set ?cs. ?Q x sv'" unfolding e by auto
  from bspec [OF this elig] show ?thesis using blob_paths [OF inv b(1)] by simp
qed

lemma collectOrphans_frame:
  "blobs (sv_db (fst (collectOrphanBlobFiles U pol now sv))) = blobs (sv_db sv)"
  "file_versions (sv_db (fst (collectOrphanBlobFiles U pol now sv))) = file_versions (sv_db sv)"
  "gc_blob_candidates (sv_db (fst (collectOrphanBlobFiles U pol now sv))) = gc_blob_candidates (sv_db sv)"
  "file_at (sv_disk sv) p = None \<Longrightarrow> file_at (sv_disk (fst (collectOrphanBlobFiles U pol now sv))) p = None"
proof -
  let ?P = "\<lambda>s :: server. blobs (sv_db s) = blobs (sv_db sv) \<and> file_versions (sv_db s) = file_versions (sv_db sv) \<and>
    gc_blob_candidates (sv_db s) = gc_blob_candidates (sv_db sv) \<and> (\<forall>p. file_at (sv_disk sv) p = None \<longrightarrow> file_at (sv_disk s) p = None)"
  have "?P (fst (each deleteOrphan ps s 0))" if "?P s" for ps s
    by (rule each_inv [where P = ?P, OF that]) (auto simp: deleteOrphan_def Let_def)
  then have "?P (fst (collectOrphanBlobFiles U pol now sv))" by (simp add: collectOrphanBlobFiles_def Let_def)
  then show "blobs (sv_db (fst (collectOrphanBlobFiles U pol now sv))) = blobs (sv_db sv)"
    "file_versions (sv_db (fst (collectOrphanBlobFiles U pol now sv))) = file_versions (sv_db sv)"
    "gc_blob_candidates (sv_db (fst (collectOrphanBlobFiles U pol now sv))) = gc_blob_candidates (sv_db sv)"
    "file_at (sv_disk sv) p = None \<Longrightarrow> file_at (sv_disk (fst (collectOrphanBlobFiles U pol now sv))) p = None"
    by blast+
qed

lemma collectBlobs_versions [simp]:
  "file_versions (sv_db (fst (collectUnreferencedBlobs U pol now sv))) = file_versions (sv_db sv)"
proof -
  have "file_versions (sv_db (fst (each deleteBlob cs s 0))) = file_versions (sv_db sv)"
    if "file_versions (sv_db s) = file_versions (sv_db sv)" for cs s
    by (rule each_inv) (use that in simp_all)
  then show ?thesis by (simp add: collectUnreferencedBlobs_def Let_def)
qed

lemma sbind_Inr: "sbind m f = (s', Inr y) \<Longrightarrow> \<exists>s x. m = (s, Inr x) \<and> f s x = (s', Inr y)"
  by (cases m, cases "snd m") auto

lemma Run_done:
  assumes "RunMaintenance U pol now sv = (sv', Inr r)"
  obtains sv4 x sv5 k where "before_gc U pol now sv = (sv4, Inr x)" "collectUnreferencedBlobs U pol now sv4 = (sv5, Inr k)"
    "sv' = fst (collectOrphanBlobFiles U pol now sv5)"
proof -
  from sbind_Inr [OF assms [unfolded Run_stages]] obtain sv4 x where a: "before_gc U pol now sv = (sv4, Inr x)"
    and rest: "sbind (collectUnreferencedBlobs U pol now sv4) (\<lambda>sv5 bs. sbind (collectOrphanBlobFiles U pol now sv5) (\<lambda>sv6 os.
       (sv6, Inr (case x of ((a, r, n), u, i, p) \<Rightarrow> \<lparr>ExpiredUploads = u, ExpiredAccessTokens = a, ExpiredRefreshTokens = r,
          ExpiredOperations = n, ExpiredTrashItems = i, PrunedFileVersions = p,
          UnreferencedBlobs = bs, OrphanBlobFiles = os\<rparr>)))) = (sv', Inr r)" by blast
  from sbind_Inr [OF rest] obtain sv5 k where b: "collectUnreferencedBlobs U pol now sv4 = (sv5, Inr k)"
    and rest2: "sbind (collectOrphanBlobFiles U pol now sv5) (\<lambda>sv6 os.
       (sv6, Inr (case x of ((a, r, n), u, i, p) \<Rightarrow> \<lparr>ExpiredUploads = u, ExpiredAccessTokens = a, ExpiredRefreshTokens = r,
          ExpiredOperations = n, ExpiredTrashItems = i, PrunedFileVersions = p,
          UnreferencedBlobs = k, OrphanBlobFiles = os\<rparr>))) = (sv', Inr r)" by blast
  from sbind_Inr [OF rest2] have "sv' = fst (collectOrphanBlobFiles U pol now sv5)" by auto
  with a b show thesis by (rule that)
qed

text \<open>Unreachable ciphertext is really reclaimed: a blob no version refers to after a successful pass is gone,
  record and file, after the next successful pass that comes a grace period (and a second, the precision at
  which the text timestamps are in order) later - whatever the server did in between, unless a version refers
  to the blob again. The clock must not have been set back behind an existing mark.\<close>

theorem gc_reclaims:
  assumes inv: "server_inv H sv0" and r1: "RunMaintenance U pol t1 sv0 = (sv1, Inr r)"
    and b: "b \<in> set (blobs (sv_db sv1))" "unreferenced (sv_db sv1) (b_id b)"
    and clock: "\<forall>x\<in>set (gc_blob_candidates (sv_db sv0)). snd x \<le> t1" and later: "t1 + OrphanBlobGrace pol + nanos_per_second \<le> t2"
    and between: "server_inv H sv2" "b \<in> set (blobs (sv_db sv2))" "unreferenced (sv_db sv2) (b_id b)"
      "gc_blob_candidates (sv_db sv2) = gc_blob_candidates (sv_db sv1)"
    and r2: "RunMaintenance U pol t2 sv2 = (sv3, Inr r')"
  shows "b_id b \<notin> b_id ` set (blobs (sv_db sv3)) \<and> file_at (sv_disk sv3) (b_storage_rel_path b) = None"
proof -
  from r1 obtain sv4 x sv5 k where s: "before_gc U pol t1 sv0 = (sv4, Inr x)" "collectUnreferencedBlobs U pol t1 sv4 = (sv5, Inr k)"
    "sv1 = fst (collectOrphanBlobFiles U pol t1 sv5)" by (rule Run_done)
  have e: "early H sv0 sv4" using before_gc_early [OF inv, of U pol t1] s(1) by simp
  then have inv4: "server_inv H sv4" and same: "gc_same sv0 sv4" by (simp_all add: early_def)
  have sv5: "sv5 = fst (collectUnreferencedBlobs U pol t1 sv4)" using s(2) by simp
  have "b \<in> set (blobs (sv_db sv5))" using b(1) by (simp add: s(3) collectOrphans_frame)
  moreover have "unreferenced (sv_db sv5) (b_id b)" using b(2) unfolding s(3) by (simp add: unreferenced_def collectOrphans_frame)
  ultimately obtain m where m: "(b_id b, m) \<in> set (gc_blob_candidates (sv_db sv5))"
    "(b_id b, m) \<in> set (gc_blob_candidates (sv_db sv4)) \<or> m = t1"
    using collectBlobs_marks [OF inv4 sv5] by blast
  have "m \<le> t1" using m(2) same clock by (auto simp: gc_same_def)
  then have old: "stamp m \<le> stamp (t2 - OrphanBlobGrace pol)"
    using later by (intro less_imp_le [OF stamp_less_one_second]) simp
  from r2 obtain sv4' x' sv5' k' where s': "before_gc U pol t2 sv2 = (sv4', Inr x')"
    "collectUnreferencedBlobs U pol t2 sv4' = (sv5', Inr k')" "sv3 = fst (collectOrphanBlobFiles U pol t2 sv5')" by (rule Run_done)
  have "early H sv2 sv4'" using before_gc_early [OF between(1), of U pol t2] s'(1) by simp
  then have inv4': "server_inv H sv4'" and same': "gc_same sv2 sv4'" by (simp_all add: early_def)
  have "gc_blob_candidates (sv_db sv1) = gc_blob_candidates (sv_db sv5)" by (simp add: s(3) collectOrphans_frame)
  with m(1) same' between(4) have "(b_id b, m) \<in> set (gc_blob_candidates (sv_db sv4'))" by (simp add: gc_same_def)
  moreover have "b \<in> set (blobs (sv_db sv4'))" "unreferenced (sv_db sv4') (b_id b)"
    using same' between(2,3) unreferenced_mono by (auto simp: gc_same_def)
  ultimately have "b_id b \<notin> b_id ` set (blobs (sv_db sv5')) \<and> file_at (sv_disk sv5') (blob_path (b_id b)) = None"
    by (intro collectBlobs_gone [OF inv4' s'(2) _ old])
  then show ?thesis using blob_paths [OF between(1,2)] by (simp add: s'(3) collectOrphans_frame)
qed

section \<open>A pass completes\<close>

lemma each_Inr:
  assumes "\<And>s x. x \<in> set xs \<Longrightarrow> \<exists>b. snd (f s x) = Inr b"
  shows "\<exists>k. snd (each f xs s n) = Inr k"
  using assms
proof (induction xs arbitrary: s n)
  case (Cons x xs)
  from Cons.prems [of x s] obtain b where "f s x = (fst (f s x), Inr b)" by (auto simp: prod_eq_iff)
  moreover have "\<exists>k. snd (each f xs (fst (f s x)) (if b then n + 1 else n)) = Inr k"
    by (rule Cons.IH) (simp add: Cons.prems)
  ultimately show ?case by (metis each.simps(2) sbind_simps(2))
qed simp

definition well_named :: "uuid_pkg \<Rightarrow> db \<Rightarrow> bool" where
  "well_named U s \<longleftrightarrow> parseable_uploads U s \<and>
     (\<forall>b\<in>set (blobs s). uuid_Parse U (b_id b) \<noteq> None \<and> CHR ''/'' \<notin> set (b_id b)) \<and>
     (\<forall>x\<in>set (gc_orphan_blob_files s). safeBlobPath U (fst x))"

lemma safe_blob_path: "uuid_Parse U i \<noteq> None \<Longrightarrow> CHR ''/'' \<notin> set i \<Longrightarrow> safeBlobPath U (blob_path i)"
  by (auto simp: safeBlobPath_def blob_path_def suffix_def count_list_0_iff)

lemma markOrphan_safe:
  "\<forall>x\<in>set (gc_orphan_blob_files s). safeBlobPath U (fst x) \<Longrightarrow> \<forall>x\<in>set (gc_orphan_blob_files (markOrphan U now name s)). safeBlobPath U (fst x)"
  by (auto simp: markOrphan_def Let_def dest!: mark_row_mem)

lemma markOrphans_safe:
  "\<forall>x\<in>set (gc_orphan_blob_files s). safeBlobPath U (fst x) \<Longrightarrow>
   \<forall>x\<in>set (gc_orphan_blob_files (fold (markOrphan U now) xs s)). safeBlobPath U (fst x)"
proof (induction xs arbitrary: s)
  case (Cons name xs)
  from Cons.IH [OF markOrphan_safe [OF Cons.prems]] show ?case by simp
qed simp

lemma collectOrphans_Inr:
  assumes "\<forall>x\<in>set (gc_orphan_blob_files (sv_db sv)). safeBlobPath U (fst x)"
  shows "\<exists>k. snd (collectOrphanBlobFiles U pol now sv) = Inr k"
proof -
  let ?s = "fold (markOrphan U now) (read_dir ''blobs'' (sv_disk sv)) (sv_db sv)"
  let ?ps = "map fst (filter (\<lambda>x. stamp (snd x) \<le> stamp (now - OrphanBlobGrace pol)) (gc_orphan_blob_files ?s))"
  have "\<not> (\<exists>p\<in>set ?ps. \<not> safeBlobPath U p)" using markOrphans_safe [OF assms, of now "read_dir ''blobs'' (sv_disk sv)"] by auto
  moreover have "\<exists>k. snd (each deleteOrphan ?ps (sv\<lparr>sv_db := ?s\<rparr>) 0) = Inr k"
    by (rule each_Inr) (auto simp: deleteOrphan_def Let_def)
  ultimately show ?thesis by (simp add: collectOrphanBlobFiles_def Let_def)
qed

lemma collectBlobs_Inr:
  assumes inv: "server_inv H sv" and named: "\<forall>b\<in>set (blobs (sv_db sv)). safeBlobPath U (blob_path (b_id b))"
  shows "\<exists>k. snd (collectUnreferencedBlobs U pol now sv) = Inr k"
proof -
  let ?sv = "sv\<lparr>sv_db := markBlobs now (sv_db sv)\<rparr>" and ?cs = "eligible pol now (markBlobs now (sv_db sv))"
  have "\<not> (\<exists>c\<in>set ?cs. \<not> safeBlobPath U (snd c))" using named blob_paths [OF inv] by (auto simp: eligible_iff)
  moreover have "\<exists>k. snd (each deleteBlob ?cs ?sv 0) = Inr k"
    by (rule each_Inr) (auto simp: deleteBlob_eq)
  ultimately show ?thesis by (simp add: collectUnreferencedBlobs_def Let_def)
qed

lemma expireUpload_sessions:
  assumes "server_inv H sv"
  shows "set (upload_sessions (sv_db (fst (expireUpload now sv i)))) \<subseteq> set (upload_sessions (sv_db sv))"
    "\<exists>b. snd (expireUpload now sv i) = Inr b"
proof -
  have d: "distinct (map us_id (upload_sessions (sv_db sv)))" using assms by (simp add: server_inv_def storage_inv_def sessions_ok_def)
  show "set (upload_sessions (sv_db (fst (expireUpload now sv i)))) \<subseteq> set (upload_sessions (sv_db sv))"
    "\<exists>b. snd (expireUpload now sv i) = Inr b" by (auto simp: expireUpload_eq [OF d])
qed

lemma cleanupUploads_done:
  assumes inv: "server_inv H sv" and U: "parseable_uploads U (sv_db sv)"
  shows "\<exists>sv' k. cleanupExpiredUploads U now sv = (sv', Inr k) \<and> parseable_uploads U (sv_db sv')"
proof -
  let ?ids = "map us_id (filter (upload_expired now) (upload_sessions (sv_db sv)))"
  let ?P = "\<lambda>s. server_inv H s \<and> parseable_uploads U (sv_db s)"
  have "\<exists>s' k. each (expireUpload now) ?ids sv 0 = (s', Inr k) \<and> ?P s' \<and> (\<forall>x\<in>set ?ids. True) \<and> (\<forall>x :: id. True \<longrightarrow> True)"
  proof (rule each_all [where P = ?P and Q = "\<lambda>_ _. True"])
    fix s x assume P: "?P s"
    from expireUpload_sessions(2) [of H s now x] P obtain b where "snd (expireUpload now s x) = Inr b" by blast
    moreover have "?P (fst (expireUpload now s x))"
      using P expireUpload_inv [of H s now x] expireUpload_sessions(1) [of H s now x] by (auto simp: parseable_uploads_def)
    ultimately show "\<exists>b s'. expireUpload now s x = (s', Inr b) \<and> ?P s' \<and> True"
      by (intro exI [of _ b] exI [of _ "fst (expireUpload now s x)"]) (simp add: prod_eq_iff)
  qed (simp_all add: inv U)
  moreover have "\<not> (\<exists>i\<in>set ?ids. uuid_Parse U i = None)" using U by (auto simp: parseable_uploads_def)
  ultimately show ?thesis by (auto simp: cleanupExpiredUploads_def Let_def)
qed

lemma completes:
  assumes inv: "server_inv H sv" and named: "well_named U (sv_db sv)"
  shows "\<exists>sv' r. RunMaintenance U pol now sv = (sv', Inr r)"
proof -
  obtain sv1 t where c: "cleanupExpired now sv = (sv1, Inr t)" and "upload_sessions (sv_db sv1) = upload_sessions (sv_db sv)"
    by (simp add: cleanupExpired_def Let_def deleteBefore_def)
  have inv1: "server_inv H sv1" using cleanupExpired_inv [OF inv, of now] c by simp
  note \<open>upload_sessions (sv_db sv1) = upload_sessions (sv_db sv)\<close>
  then have "parseable_uploads U (sv_db sv1)" using named by (simp add: well_named_def parseable_uploads_def)
  from cleanupUploads_done [OF inv1 this] obtain sv2 u where u: "cleanupExpiredUploads U now sv1 = (sv2, Inr u)"
    and U2: "parseable_uploads U (sv_db sv2)" by blast
  have inv2: "server_inv H sv2" using cleanupExpiredUploads_inv [OF inv1, of U now] u by simp
  from trash_expiry_exact [OF inv2 U2] obtain sv3 i where i: "cleanupExpiredTrash U pol now sv2 = (sv3, Inr i)" by blast
  obtain sv4 p where p: "pruneFileVersions pol now sv3 = (sv4, Inr p)" by (simp add: pruneFileVersions_def Let_def)
  have b: "before_gc U pol now sv = (sv4, Inr (t, u, i, p))" by (simp add: before_gc_def c u i p)
  have e: "early H sv sv4" using before_gc_early [OF inv, of U pol now] by (simp add: b)
  then have inv4: "server_inv H sv4" and same: "gc_same sv sv4" by (simp_all add: early_def)
  have "\<exists>k. snd (collectUnreferencedBlobs U pol now sv4) = Inr k"
    by (rule collectBlobs_Inr [OF inv4]) (use same named in \<open>simp add: gc_same_def well_named_def safe_blob_path\<close>)
  then obtain sv5 k where k: "collectUnreferencedBlobs U pol now sv4 = (sv5, Inr k)" by (auto simp: prod_eq_iff)
  have "gc_orphan_blob_files (sv_db sv5) = gc_orphan_blob_files (sv_db sv4)"
  proof -
    have "gc_orphan_blob_files (sv_db (fst (each deleteBlob cs s 0))) = gc_orphan_blob_files (sv_db sv4)"
      if "gc_orphan_blob_files (sv_db s) = gc_orphan_blob_files (sv_db sv4)" for cs s
      by (rule each_inv) (use that in \<open>simp_all add: deleteBlob_eq deleteBlob_tx_def\<close>)
    then have "gc_orphan_blob_files (sv_db (fst (collectUnreferencedBlobs U pol now sv4))) = gc_orphan_blob_files (sv_db sv4)"
      by (simp add: collectUnreferencedBlobs_def Let_def)
    then show ?thesis by (simp add: k)
  qed
  with same named have "\<exists>o'. snd (collectOrphanBlobFiles U pol now sv5) = Inr o'"
    by (intro collectOrphans_Inr) (simp add: gc_same_def well_named_def)
  then obtain sv6 o' where o': "collectOrphanBlobFiles U pol now sv5 = (sv6, Inr o')" by (auto simp: prod_eq_iff)
  show ?thesis by (simp add: Run_stages b k o')
qed

text \<open>C25: On a consistent server whose stored IDs are UUIDs a maintenance pass always completes: none of its checks
  of stored names fires, no foreign key is violated, and every stage runs. So the stages it must not skip - the
  blob collection after the purge of Trash - do run.\<close>

theorem maintenance_completes:
  assumes "server_inv H sv" "well_named U (sv_db sv)"
  shows "\<exists>sv' r. RunMaintenance U pol now sv = (sv', Inr r)"
  by (rule completes [OF assms])

text \<open>And the next one completes as well.\<close>

lemma well_named_run:
  assumes inv: "server_inv H sv" and named: "well_named U (sv_db sv)"
  shows "well_named U (sv_db (fst (RunMaintenance U pol now sv)))"
proof -
  let ?safe = "\<lambda>s. \<forall>x\<in>set (gc_orphan_blob_files s). safeBlobPath U (fst x)"
  let ?sv4 = "fst (before_gc U pol now sv)"
  let ?sv5 = "fst (collectUnreferencedBlobs U pol now ?sv4)"
  have s4: "?safe (sv_db ?sv4)" using before_gc_early [OF inv, of U pol now] named by (simp add: early_def gc_same_def well_named_def)
  have d: "?safe (sv_db (fst (each deleteBlob cs s 0)))" if "?safe (sv_db s)" for cs s
    by (rule each_inv [where P = "\<lambda>s. ?safe (sv_db s)"]) (use that in \<open>simp_all add: deleteBlob_eq deleteBlob_tx_def\<close>)
  from s4 d [of "?sv4\<lparr>sv_db := markBlobs now (sv_db ?sv4)\<rparr>" "eligible pol now (markBlobs now (sv_db ?sv4))"]
  have s5: "?safe (sv_db ?sv5)" by (simp add: collectUnreferencedBlobs_def Let_def)
  have o': "?safe (sv_db (fst (each deleteOrphan ps s 0)))" if "?safe (sv_db s)" for ps s
    by (rule each_inv [where P = "\<lambda>s. ?safe (sv_db s)"]) (use that in \<open>simp_all add: deleteOrphan_def Let_def\<close>)
  let ?s = "fold (markOrphan U now) (read_dir ''blobs'' (sv_disk ?sv5)) (sv_db ?sv5)"
  from markOrphans_safe [OF s5, of now "read_dir ''blobs'' (sv_disk ?sv5)"]
    o' [of "?sv5\<lparr>sv_db := ?s\<rparr>" "map fst (filter (\<lambda>x. stamp (snd x) \<le> stamp (now - OrphanBlobGrace pol)) (gc_orphan_blob_files ?s))"]
  have s6: "?safe (sv_db (fst (collectOrphanBlobFiles U pol now ?sv5)))"
    by (simp add: collectOrphanBlobFiles_def Let_def)
  from Run_reaches [of U pol now sv] s4 s5 s6 have "?safe (sv_db (fst (RunMaintenance U pol now sv)))"
    by cases simp_all
  with tidy_run [OF inv, of now pol U] named show ?thesis
    unfolding well_named_def parseable_uploads_def tidy_def tidied_def by blast
qed

section \<open>Witnesses\<close>


lemma demo_store_named: "well_named demo_uuid (sv_db demo_store)"
  by (simp add: well_named_def demo_store_parseable)
    (simp add: demo_store_def demo_def empty_db_def demo_blob_def demo_uuid_def)

theorem maintenance_completes_witness:
  "\<exists>sv' r. RunMaintenance demo_uuid demo_policy 100000000000 demo_store = (sv', Inr r)"
  by (rule maintenance_completes [OF demo_store_inv demo_store_named])

text \<open>\<open>c5\<close>, which no version refers to, is gone after the second pass.\<close>

theorem gc_reclaims_witness:
  "let sv1 = fst (RunMaintenance demo_uuid demo_policy 100000000000 demo_store);
       sv3 = fst (RunMaintenance demo_uuid demo_policy 110000000000 sv1)
   in ''c5'' \<in> b_id ` set (blobs (sv_db sv1)) \<and> ''c5'' \<notin> b_id ` set (blobs (sv_db sv3)) \<and> file_at (sv_disk sv3) (blob_path ''c5'') = None"
proof -
  let ?r1 = "RunMaintenance demo_uuid demo_policy 100000000000 demo_store"
  let ?r2 = "RunMaintenance demo_uuid demo_policy 110000000000 (fst ?r1)"
  define b where "b = demo_blob ''c5'' ''lost''"
  have inv1: "server_inv demo_hash (fst ?r1)" by (rule RunMaintenance_inv [OF demo_store_inv])
  have named1: "well_named demo_uuid (sv_db (fst ?r1))" by (rule well_named_run [OF demo_store_inv demo_store_named])
  from completes [OF demo_store_inv demo_store_named, of demo_policy 100000000000] completes [OF inv1 named1, of demo_policy 110000000000]
  obtain a1 a2 where r: "?r1 = (fst ?r1, Inr a1)" "?r2 = (fst ?r2, Inr a2)" by (metis fst_conv)
  have b0: "b \<in> set (blobs (sv_db demo_store))" "unreferenced (sv_db demo_store) (b_id b)"
    by (simp_all add: b_def demo_store_def demo_blob_def demo_version_def unreferenced_def)
  have g: "nanos_per_second \<le> OrphanBlobGrace demo_policy" by (simp add: demo_policy_def nanos_per_second_def)
  have "marked_blobs demo_policy 100000000000 (sv_db demo_store) = {}"
    by (simp add: marked_blobs_def demo_store_def demo_def empty_db_def)
  with two_passes [OF demo_store_inv g refl, of demo_uuid 100000000000] b0(1) have b1: "b \<in> set (blobs (sv_db (fst ?r1)))" by blast
  have b2: "unreferenced (sv_db (fst ?r1)) (b_id b)"
    by (rule unreferenced_mono [OF _ b0(2)]) (use tidy_run [OF demo_store_inv] in \<open>auto simp: tidy_def tidied_def\<close>)
  have clock: "\<forall>x\<in>set (gc_blob_candidates (sv_db demo_store)). snd x \<le> 100000000000"
    by (simp add: demo_store_def demo_def empty_db_def)
  have later: "100000000000 + OrphanBlobGrace demo_policy + nanos_per_second \<le> 110000000000"
    by (simp add: demo_policy_def nanos_per_second_def)
  have "b_id b = ''c5''" "b_storage_rel_path b = blob_path ''c5''" by (simp_all add: b_def demo_blob_def)
  with gc_reclaims [OF demo_store_inv r(1) b1 b2 clock later inv1 b1 b2 refl r(2)] b1 show ?thesis unfolding Let_def by force
qed

end
