(* ===== verification/HB_System.thy ===== *)
theory HB_System
  imports HB_Sharing_Inv HB_Maintenance_Props
begin

text \<open>
  The services together. All of them work on one database and one storage directory, in transactions that
  interleave in any order; a command of \<open>system_cmd\<close> is one request to the node, sharing or upload
  service, a permanent deletion, or a maintenance pass. \<open>system_inv\<close> is the invariant of the whole:
  \<open>server_inv\<close> (vault and storage), \<open>users_ok\<close> and \<open>keys_ok\<close> (accounts and folder keys), and \<open>typed\<close>:
  the CHECK constraints of the schema, and that only files have content and uploads. That each service keeps
  the parts the others rely on is shown from frames: what it leaves alone of the others' tables.
\<close>

section \<open>Typing of the stored rows\<close>

definition node_types :: "string set" where
  "node_types = {''FILE'', ''DIRECTORY''}"

definition session_states :: "string set" where
  "session_states = {''OPEN'', ''COMMITTING'', ''COMPLETED'', ''ABORTED'', ''EXPIRED''}"

definition is_file :: "db \<Rightarrow> id \<Rightarrow> bool" where
  "is_file s i \<longleftrightarrow> (\<exists>n\<in>set (nodes s). n_id n = i) \<and> (\<forall>n\<in>set (nodes s). n_id n = i \<longrightarrow> n_node_type n = ''FILE'')"

definition typed :: "db \<Rightarrow> bool" where
  "typed s \<longleftrightarrow> (\<forall>n\<in>set (nodes s). n_node_type n \<in> node_types) \<and>
     (\<forall>sh\<in>set (shares s). sh_permission sh \<in> {PermissionRead, PermissionReadWrite}) \<and>
     (\<forall>r\<in>set (upload_sessions s). us_status r \<in> session_states \<and> is_file s (us_target_node_id r)) \<and>
     (\<forall>f\<in>set (file_versions s). is_file s (f_node_id f))"

lemma typedI:
  assumes "\<And>n. n \<in> set (nodes s) \<Longrightarrow> n_node_type n \<in> node_types"
    "\<And>sh. sh \<in> set (shares s) \<Longrightarrow> sh_permission sh \<in> {PermissionRead, PermissionReadWrite}"
    "\<And>r. r \<in> set (upload_sessions s) \<Longrightarrow> us_status r \<in> session_states"
    "\<And>r. r \<in> set (upload_sessions s) \<Longrightarrow> is_file s (us_target_node_id r)"
    "\<And>f. f \<in> set (file_versions s) \<Longrightarrow> is_file s (f_node_id f)"
  shows "typed s"
  using assms by (simp add: typed_def)

lemma typedD:
  assumes "typed s"
  shows "n \<in> set (nodes s) \<Longrightarrow> n_node_type n \<in> node_types"
    "sh \<in> set (shares s) \<Longrightarrow> sh_permission sh \<in> {PermissionRead, PermissionReadWrite}"
    "r \<in> set (upload_sessions s) \<Longrightarrow> us_status r \<in> session_states"
    "r \<in> set (upload_sessions s) \<Longrightarrow> is_file s (us_target_node_id r)"
    "f \<in> set (file_versions s) \<Longrightarrow> is_file s (f_node_id f)"
  using assms by (simp_all add: typed_def)

definition accounts_ok :: "db \<Rightarrow> bool" where
  "accounts_ok s \<longleftrightarrow> users_ok s \<and> keys_ok s \<and> typed s"

definition system_inv :: "(bytes \<Rightarrow> string) \<Rightarrow> server \<Rightarrow> bool" where
  "system_inv H sv \<longleftrightarrow> server_inv H sv \<and> accounts_ok (sv_db sv)"

lemma system_invD:
  assumes "system_inv H sv"
  shows "server_inv H sv" "vault_inv (sv_db sv)" "storage_inv H sv" "sharing_inv (sv_db sv)" "typed (sv_db sv)"
    "users_ok (sv_db sv)" "keys_ok (sv_db sv)"
  using assms by (simp_all add: system_inv_def server_inv_def sharing_inv_def accounts_ok_def)

lemma system_invI: "server_inv H sv \<Longrightarrow> users_ok (sv_db sv) \<Longrightarrow> keys_ok (sv_db sv) \<Longrightarrow> typed (sv_db sv) \<Longrightarrow> system_inv H sv"
  by (simp add: system_inv_def accounts_ok_def)

lemma users_ok_cong: "users s' = users s \<Longrightarrow> devices s' = devices s \<Longrightarrow> shares s' = shares s \<Longrightarrow> users_ok s' = users_ok s"
  by (simp add: users_ok_def)

lemma keys_ok_cong: "folder_keys s' = folder_keys s \<Longrightarrow> keys_ok s' = keys_ok s"
  by (simp add: keys_ok_def)

lemma is_file_cong: "nodes s' = nodes s \<Longrightarrow> is_file s' = is_file s"
  by (simp add: is_file_def fun_eq_iff)

section \<open>What node commands leave alone\<close>

definition file_ref :: "node_row \<Rightarrow> id \<times> string \<times> id option" where
  "file_ref n = (n_id n, n_node_type n, n_current_version_id n)"

definition version_ref :: "file_version_row \<Rightarrow> id \<times> id \<times> id" where
  "version_ref f = (f_id f, f_node_id f, f_blob_id f)"

definition node_frame :: "db \<Rightarrow> db \<Rightarrow> bool" where
  "node_frame s s' \<longleftrightarrow> blobs s' = blobs s \<and> upload_sessions s' = upload_sessions s \<and> upload_chunks s' = upload_chunks s \<and>
     users s' = users s \<and> devices s' = devices s \<and> shares s' = shares s \<and> folder_keys s' = folder_keys s \<and>
     map version_ref (file_versions s') = map version_ref (file_versions s) \<and>
     (\<exists>new. map file_ref (nodes s') = map file_ref (nodes s) @ new \<and>
        (\<forall>(i, ty, cur)\<in>set new. i \<notin> n_id ` set (nodes s) \<and> ty \<in> node_types \<and> cur = None))"

lemma node_frame_upd:
  assumes "\<And>n. n_id (f n) = n_id n \<and> n_node_type (f n) = n_node_type n \<and> n_current_version_id (f n) = n_current_version_id n"
  shows "node_frame s (commits s (upd p f (nodes s)) c q)"
proof -
  have "map file_ref (upd p f (nodes s)) = map file_ref (nodes s)" using assms by (intro map_upd) (simp add: file_ref_def)
  then show ?thesis by (simp add: node_frame_def commits_def)
qed

lemma map_ref_parts:
  "map version_ref xs = map version_ref ys \<Longrightarrow> map f_id xs = map f_id ys"
  "map file_ref ns = map file_ref ms @ new \<Longrightarrow> map n_id ns = map n_id ms @ map fst new"
proof -
  have "map fst (map version_ref xs) = map f_id xs" "map fst (map file_ref ns) = map n_id ns" for xs ns
    by (simp_all add: version_ref_def file_ref_def comp_def)
  then show "map version_ref xs = map version_ref ys \<Longrightarrow> map f_id xs = map f_id ys"
    "map file_ref ns = map file_ref ms @ new \<Longrightarrow> map n_id ns = map n_id ms @ map fst new"
    by (metis, metis map_append)
qed

lemma frame_version:
  assumes "map version_ref xs = map version_ref ys" "f \<in> set xs"
  shows "\<exists>g\<in>set ys. version_ref g = version_ref f"
proof -
  have "version_ref f \<in> set (map version_ref ys)" using assms by (metis imageI list.set_map)
  then show ?thesis by force
qed

lemma frame_node:
  assumes "map file_ref ns = map file_ref ms @ new" "n \<in> set ns"
  shows "(\<exists>m\<in>set ms. file_ref m = file_ref n) \<or> file_ref n \<in> set new"
proof -
  have "file_ref n \<in> set (map file_ref ms @ new)" using assms by (metis imageI list.set_map)
  then show ?thesis by force
qed

lemma frame_node_kept:
  assumes "map file_ref ns = map file_ref ms @ new" "m \<in> set ms"
  shows "\<exists>n\<in>set ns. file_ref n = file_ref m"
proof -
  have "file_ref m \<in> set (map file_ref ns)" using assms by simp
  then show ?thesis by force
qed

lemma node_frame_storage:
  assumes frame: "node_frame (sv_db sv) s'" and st: "storage_inv H sv"
  shows "storage_inv H (sv\<lparr>sv_db := s'\<rparr>)"
proof -
  note S = storage_invD [OF st]
  from frame obtain new where same: "blobs s' = blobs (sv_db sv)" "upload_sessions s' = upload_sessions (sv_db sv)"
      "upload_chunks s' = upload_chunks (sv_db sv)"
    and vs: "map version_ref (file_versions s') = map version_ref (file_versions (sv_db sv))"
    and ns: "map file_ref (nodes s') = map file_ref (nodes (sv_db sv)) @ new"
    and new: "\<forall>(i, ty, cur)\<in>set new. i \<notin> n_id ` set (nodes (sv_db sv)) \<and> ty \<in> node_types \<and> cur = None"
    unfolding node_frame_def by blast
  have ids: "map f_id (file_versions s') = map f_id (file_versions (sv_db sv))" by (rule map_ref_parts(1) [OF vs])
  then have idset: "f_id ` set (file_versions s') = f_id ` set (file_versions (sv_db sv))" by (metis list.set_map)
  have "versions_ok s'" unfolding versions_ok_def
  proof (intro conjI ballI)
    show "distinct (map f_id (file_versions s'))" using S(3) by (simp add: ids versions_ok_def)
    fix f assume "f \<in> set (file_versions s')"
    then obtain g where g: "g \<in> set (file_versions (sv_db sv))" "version_ref g = version_ref f" using frame_version [OF vs] by blast
    with S(3) obtain m where m: "m \<in> set (nodes (sv_db sv))" "n_id m = f_node_id f"
      unfolding versions_ok_def version_ref_def by force
    from frame_node_kept [OF ns m(1)] m(2) show "f_node_id f \<in> n_id ` set (nodes s')" by (force simp: file_ref_def)
    from g(1) S(3) have "f_blob_id g \<in> b_id ` set (blobs (sv_db sv))" by (simp add: versions_ok_def)
    with g(2) show "f_blob_id f \<in> b_id ` set (blobs s')" by (simp add: version_ref_def same)
  qed
  moreover have "current_ok s'" unfolding current_ok_def
  proof (intro ballI allI impI)
    fix n v assume n: "n \<in> set (nodes s')" "n_current_version_id n = Some v"
    with new have "file_ref n \<notin> set new" by (auto simp: file_ref_def)
    with frame_node [OF ns n(1)] obtain m where m: "m \<in> set (nodes (sv_db sv))" "file_ref m = file_ref n" by blast
    with n(2) S(4) obtain g where g: "g \<in> set (file_versions (sv_db sv))" "f_id g = v" "f_node_id g = n_id n"
      unfolding current_ok_def file_ref_def by force
    from frame_version [OF vs [symmetric] g(1)] g(2,3)
    show "\<exists>f\<in>set (file_versions s'). f_id f = v \<and> f_node_id f = n_id n" by (force simp: version_ref_def)
  qed
  moreover have "sessions_ok s'" using S(5) by (simp add: sessions_ok_def same idset)
  moreover have "blobs_stored H (sv\<lparr>sv_db := s'\<rparr>)" using S(2) by (simp add: blobs_stored_def same)
  moreover have "chunks_ok H (sv\<lparr>sv_db := s'\<rparr>)" using S(6) by (simp add: chunks_ok_def same)
  ultimately show ?thesis using S(1) by (simp add: storage_inv_def)
qed

lemma frame_is_file:
  assumes ns: "map file_ref (nodes s') = map file_ref (nodes s) @ new" and new: "\<forall>(i, ty, cur)\<in>set new. i \<notin> n_id ` set (nodes s)"
    and i: "is_file s i"
  shows "is_file s' i"
proof -
  from i obtain m where m: "m \<in> set (nodes s)" "n_id m = i" by (auto simp: is_file_def)
  from frame_node_kept [OF ns m(1)] m(2) have "\<exists>n\<in>set (nodes s'). n_id n = i" by (auto simp: file_ref_def)
  moreover have "n_node_type n = ''FILE''" if n: "n \<in> set (nodes s')" "n_id n = i" for n
  proof -
    have "file_ref n \<notin> set new" using new m n(2) by (auto simp: file_ref_def)
    with frame_node [OF ns n(1)] obtain k where "k \<in> set (nodes s)" "file_ref k = file_ref n" by blast
    with i n(2) show ?thesis by (auto simp: is_file_def file_ref_def)
  qed
  ultimately show ?thesis by (simp add: is_file_def)
qed

lemma node_frame_accounts:
  assumes frame: "node_frame s s'" and ok: "accounts_ok s"
  shows "accounts_ok s'"
proof -
  from frame obtain new where same: "upload_sessions s' = upload_sessions s" "users s' = users s" "devices s' = devices s"
      "shares s' = shares s" "folder_keys s' = folder_keys s"
    and vs: "map version_ref (file_versions s') = map version_ref (file_versions s)"
    and ns: "map file_ref (nodes s') = map file_ref (nodes s) @ new"
    and new: "\<forall>(i, ty, cur)\<in>set new. i \<notin> n_id ` set (nodes s) \<and> ty \<in> node_types \<and> cur = None"
    unfolding node_frame_def by blast
  have "\<forall>(i, ty, cur)\<in>set new. i \<notin> n_id ` set (nodes s)" using new by fast
  then have fl: "is_file s i \<Longrightarrow> is_file s' i" for i by (rule frame_is_file [OF ns])
  have t: "typed s" using ok by (simp add: accounts_ok_def)
  have "typed s'"
  proof (rule typedI)
    fix n assume "n \<in> set (nodes s')"
    from frame_node [OF ns this] show "n_node_type n \<in> node_types"
    proof
      assume "\<exists>m\<in>set (nodes s). file_ref m = file_ref n"
      with typedD(1) [OF t] show ?thesis by (metis file_ref_def prod.inject)
    qed (use new in \<open>auto simp: file_ref_def\<close>)
  next
    fix f assume "f \<in> set (file_versions s')"
    then obtain g where "g \<in> set (file_versions s)" "version_ref g = version_ref f" using frame_version [OF vs] by blast
    with fl typedD(5) [OF t, of g] show "is_file s' (f_node_id f)" by (simp add: version_ref_def)
  qed (use typedD [OF t] fl same in simp_all)
  then show ?thesis using ok users_ok_cong [OF same(2-4)] keys_ok_cong [OF same(5)] by (simp add: accounts_ok_def)
qed

lemma node_frame_refl [simp]: "node_frame s s"
  by (simp add: node_frame_def)

lemma node_frame_trans:
  assumes "node_frame s s1" "node_frame s1 s2"
  shows "node_frame s s2"
proof -
  from assms(1) obtain a where a: "map file_ref (nodes s1) = map file_ref (nodes s) @ a"
    "\<forall>(i, ty, cur)\<in>set a. i \<notin> n_id ` set (nodes s) \<and> ty \<in> node_types \<and> cur = None" unfolding node_frame_def by blast
  from assms(2) obtain b where b: "map file_ref (nodes s2) = map file_ref (nodes s1) @ b"
    "\<forall>(i, ty, cur)\<in>set b. i \<notin> n_id ` set (nodes s1) \<and> ty \<in> node_types \<and> cur = None" unfolding node_frame_def by blast
  have ids: "n_id ` set (nodes s) \<subseteq> n_id ` set (nodes s1)"
  proof (rule image_subsetI)
    fix m assume "m \<in> set (nodes s)"
    from frame_node_kept [OF a(1) this] obtain n where "n \<in> set (nodes s1)" "file_ref n = file_ref m" by blast
    then show "n_id m \<in> n_id ` set (nodes s1)" by (intro rev_image_eqI [of n]) (simp_all add: file_ref_def)
  qed
  have "i \<notin> n_id ` set (nodes s) \<and> ty \<in> node_types \<and> cur = None" if "(i, ty, cur) \<in> set b" for i ty cur
    using bspec [OF b(2) that] ids by blast
  then have "\<forall>(i, ty, cur)\<in>set b. i \<notin> n_id ` set (nodes s) \<and> ty \<in> node_types \<and> cur = None"
    unfolding Ball_def split_paired_All prod.case by (intro allI impI)
  with a(2) have "\<forall>(i, ty, cur)\<in>set (a @ b). i \<notin> n_id ` set (nodes s) \<and> ty \<in> node_types \<and> cur = None"
    by (simp only: set_append ball_Un)
  moreover have "map file_ref (nodes s2) = map file_ref (nodes s) @ a @ b" using a(1) b(1) by simp
  ultimately have "\<exists>new. map file_ref (nodes s2) = map file_ref (nodes s) @ new \<and>
     (\<forall>(i, ty, cur)\<in>set new. i \<notin> n_id ` set (nodes s) \<and> ty \<in> node_types \<and> cur = None)" by blast
  with assms show ?thesis by (simp add: node_frame_def)
qed

lemma node_frame_create:
  assumes "n_id m \<notin> n_id ` set (nodes s)" "n_node_type m \<in> node_types" "n_current_version_id m = None"
  shows "node_frame s (commits s (nodes s @ [m]) c q)"
proof -
  have "\<exists>new. map file_ref (nodes s @ [m]) = map file_ref (nodes s) @ new \<and>
     (\<forall>(i, ty, cur)\<in>set new. i \<notin> n_id ` set (nodes s) \<and> ty \<in> node_types \<and> cur = None)"
    using assms by (intro exI [of _ "[file_ref m]"]) (simp add: file_ref_def)
  then show ?thesis by (simp add: node_frame_def) (simp add: commits_def)
qed

lemma Create_type:
  "Create_tx U now s inp = Inr (Committed i s') \<Longrightarrow> ci_NodeType inp \<in> node_types"
  by (auto simp: Create_tx_def node_types_def simp del: if_Inl_eq split: if_split_asm)

lemma rekey_versions_refs:
  "rekey_versions U s w u i vs = Inr s' \<Longrightarrow> map version_ref (file_versions s') = map version_ref (file_versions s)"
proof (induction vs arbitrary: s)
  case (Cons v vs)
  have upd: "map version_ref (upd p (\<lambda>f. f\<lparr>f_wrapped_file_key := k, f_key_scope_id := j, f_key_version := w\<rparr>) fs) =
      map version_ref fs" for p k j w fs by (rule map_upd) (simp add: version_ref_def)
  from Cons.prems obtain s1 where "rekey_versions U s1 w u i vs = Inr s'"
    "map version_ref (file_versions s1) = map version_ref (file_versions s)" by (auto simp: upd)
  with Cons.IH show ?case by metis
qed simp

lemma rekey_item_frame:
  assumes "rekey_item U now s u item = Inr s'"
  shows "node_frame s s'"
proof -
  from assms obtain r s1 where vs: "rekey_versions U s u u (ri_NodeID item) (ri_Versions item) = Inr s1"
    and s': "s' = set_node (ri_NodeID item) (rekeyed_row item u (sync_seq s1 + 1) now)
      (snd (recordChange now s1 u (ri_NodeID item) ''UPDATE''))"
    by (auto simp: rekey_item_def recordChange_def Let_def rekeyed_row_def [abs_def])
  from rekey_versions_frame [OF vs] obtain fv where s1: "s1 = s\<lparr>file_versions := fv\<rparr>" by blast
  have "map version_ref fv = map version_ref (file_versions s)" using rekey_versions_refs [OF vs] s1 by simp
  moreover have "map file_ref (upd p (rekeyed_row item u v now) (nodes s)) = map file_ref (nodes s)" for p v
    by (rule map_upd) (simp add: file_ref_def rekeyed_row_def)
  ultimately show ?thesis by (simp add: node_frame_def s' s1 set_node_def recordChange_def Let_def)
qed

lemma rekey_items_frame: "rekey_items U now s u items = Inr s' \<Longrightarrow> node_frame s s'"
proof (induction items arbitrary: s)
  case (Cons item items)
  then obtain s1 where s1: "rekey_item U now s u item = Inr s1" "rekey_items U now s1 u items = Inr s'" by auto
  show ?case by (rule node_frame_trans [OF rekey_item_frame [OF s1(1)] Cons.IH [OF s1(2)]])
qed simp

lemma tx_frame:
  shows "Create_tx U now s ci = Inr (Committed i s') \<Longrightarrow> node_frame s s'"
    and "Update_tx U now s ui = Inr (Committed i s') \<Longrightarrow> node_frame s s'"
    and "Delete_tx U now s u d j op v = Inr (Committed i s') \<Longrightarrow> node_frame s s'"
    and "Restore_tx U now s u d j op = Inr (Committed i s') \<Longrightarrow> node_frame s s'"
proof -
  show "node_frame s s'" if c: "Create_tx U now s ci = Inr (Committed i s')"
    using c
  proof (rule Create_committed)
    fix owner scope assume "ci_ID ci \<notin> n_id ` set (nodes s)"
      and s': "s' = commits s (nodes s @ [created_row now s ci owner scope]) (change_of now s owner (ci_ID ci) ''CREATE'')
        (operation_of now s (ci_OperationID ci) (ci_OwnerID ci) (ci_DeviceID ci) ''NODE_CREATE'' (ci_ID ci))"
    with Create_type [OF c] show ?thesis unfolding s' by (intro node_frame_create) (simp_all add: created_row_def)
  qed
  show "Update_tx U now s ui = Inr (Committed i s') \<Longrightarrow> node_frame s s'"
    by (erule Update_committed) (hypsubst, rule node_frame_upd, simp)
  show "Delete_tx U now s u d j op v = Inr (Committed i s') \<Longrightarrow> node_frame s s'"
    by (erule Delete_committed) (hypsubst, rule node_frame_upd, simp)
  show "Restore_tx U now s u d j op = Inr (Committed i s') \<Longrightarrow> node_frame s s'"
    by (erule Restore_committed) (hypsubst, rule node_frame_upd, simp add: restored_row_def)
qed

lemma node_exec_frame: "node_frame s (fst (node_exec U c s))"
proof -
  obtain now cmd where c: "c = (now, cmd)" by (cases c)
  show ?thesis
  proof (cases cmd)
    case (CreateCmd inp)
    show ?thesis by (rule tx_cases [of "Create_tx U now s inp"])
      (use tx_frame in \<open>auto simp: c CreateCmd Create_def\<close>)
  next
    case (UpdateCmd inp)
    show ?thesis by (rule tx_cases [of "Update_tx U now s inp"])
      (use tx_frame in \<open>auto simp: c UpdateCmd Update_def\<close>)
  next
    case (DeleteCmd u d i op v)
    show ?thesis by (rule tx_cases [of "Delete_tx U now s u d i op v"])
      (use tx_frame in \<open>auto simp: c DeleteCmd Delete_def\<close>)
  next
    case (RestoreCmd u d i op)
    show ?thesis by (rule tx_cases [of "Restore_tx U now s u d i op"])
      (use tx_frame in \<open>auto simp: c RestoreCmd Restore_def\<close>)
  next
    case (RekeyCmd inp)
    show ?thesis using rekey_items_frame [OF Rekey_tx_done(4)]
      by (auto simp: c RekeyCmd Rekey_def split: sum.split)
  qed
qed

text \<open>So node commands keep the whole invariant.\<close>

lemma node_keeps_system:
  assumes inv: "system_inv H sv" and U: "uuid_laws U" and ok: "node_ok c (sv_db sv)"
  shows "system_inv H (sv\<lparr>sv_db := fst (node_exec U c (sv_db sv))\<rparr>)"
proof -
  let ?s = "fst (node_exec U c (sv_db sv))"
  note I = system_invD [OF inv]
  have "vault_inv ?s" using node_service.inv_exec [of "sv_db sv" U c] I(2) U ok by simp
  moreover have "storage_inv H (sv\<lparr>sv_db := ?s\<rparr>)" by (rule node_frame_storage [OF node_exec_frame I(3)])
  moreover have "accounts_ok ?s"
    by (rule node_frame_accounts [OF node_exec_frame]) (use I in \<open>simp add: accounts_ok_def\<close>)
  ultimately show ?thesis by (simp add: system_inv_def server_inv_def)
qed

section \<open>Sharing commands\<close>

definition sharing_frame :: "db \<Rightarrow> db \<Rightarrow> bool" where
  "sharing_frame s s' \<longleftrightarrow> nodes s' = nodes s \<and> blobs s' = blobs s \<and> file_versions s' = file_versions s \<and>
     upload_sessions s' = upload_sessions s \<and> upload_chunks s' = upload_chunks s \<and>
     sh_permission ` set (shares s') \<subseteq> sh_permission ` set (shares s) \<union> {PermissionRead, PermissionReadWrite}"

lemma sharing_frame_refl [simp]: "sharing_frame s s"
  by (auto simp: sharing_frame_def)

lemma grant_frame:
  assumes "CreateGrant_tx U now fresh s inp = Inr (Granted i s')"
  shows "sharing_frame s s'"
  using assms
proof (rule CreateGrant_granted)
  fix ev ops assume "g_Permission inp = PermissionRead \<or> g_Permission inp = PermissionReadWrite"
    and s': "s' = s\<lparr>shares := shares s @ [share_of now (fresh 0) inp], share_device_envelopes := ev, processed_operations := ops\<rparr>"
  then show ?thesis by (auto simp: sharing_frame_def s' share_of_def)
qed

lemma envelopes_frame:
  assumes "AddEnvelopes_tx U now fresh s u d i es = Inr s'"
  shows "sharing_frame s s'"
proof -
  from assms obtain k where "insertEnvelopes fresh k s i es now = Inr s'"
    by (auto simp: AddEnvelopes_tx_def split: if_split_asm option.split_asm)
  then obtain ev where "s' = s\<lparr>share_device_envelopes := ev\<rparr>" using insertEnvelopes_frame by blast
  then show ?thesis by (auto simp: sharing_frame_def)
qed

lemma folder_key_frame:
  assumes "CreateFolderKey_tx U now s u d i v env = Inr (Some s')"
  shows "sharing_frame s s'"
  using assms by (rule CreateFolderKey_stored) (auto simp: sharing_frame_def)

lemma revoke_frame: "sharing_frame s (s\<lparr>shares := revoke_rows now i u (shares s), share_device_envelopes := ev\<rparr>)"
  by (auto simp: sharing_frame_def revoke_rows_def set_upd)

lemma sharing_exec_frame: "sharing_frame s (fst (sharing_exec U draws c s))"
proof -
  obtain now k cmd where c: "c = (now, k, cmd)" by (cases c)
  show ?thesis
  proof (cases cmd)
    case (FolderKeyCmd u d i v env)
    with folder_key_frame show ?thesis
      by (auto simp: c CreateFolderKey_def split: sum.split option.split)
  next
    case (GrantCmd inp)
    with grant_frame show ?thesis
      by (auto simp: c CreateGrant_def split: sum.split grant_tx.split)
  next
    case (EnvelopesCmd u d i es)
    with envelopes_frame show ?thesis by (auto simp: c AddEnvelopes_def split: sum.split)
  next
    case (RevokeCmd u d i)
    from Revoke_cases [of U now s u d i] revoke_frame [of s] show ?thesis by (auto simp: c RevokeCmd)
  qed
qed

lemma sharing_keeps_system:
  assumes inv: "system_inv H sv" and U: "uuid_laws U" "draws_ok U draws"
  shows "system_inv H (sv\<lparr>sv_db := fst (sharing_exec U draws c (sv_db sv))\<rparr>)"
proof -
  let ?s = "fst (sharing_exec U draws c (sv_db sv))"
  note I = system_invD [OF inv]
  have fr: "sharing_frame (sv_db sv) ?s" by (rule sharing_exec_frame)
  have sh: "sharing_inv ?s" using sharing_service.inv_exec [of "sv_db sv" U draws c] I(4) U by simp
  have st: "storage_inv H (sv\<lparr>sv_db := ?s\<rparr>)"
    by (rule storage_inv_same [OF I(3)]) (use fr in \<open>simp_all add: sharing_frame_def\<close>)
  have same: "nodes ?s = nodes (sv_db sv)" "upload_sessions ?s = upload_sessions (sv_db sv)" "file_versions ?s = file_versions (sv_db sv)"
    using fr unfolding sharing_frame_def by iprover+
  note fl = is_file_cong [OF same(1)]
  have "typed ?s"
  proof (rule typedI, unfold same fl)
    fix sh assume "sh \<in> set (shares ?s)"
    then have "sh_permission sh \<in> sh_permission ` set (shares ?s)" by (rule imageI)
    with fr have "sh_permission sh \<in> sh_permission ` set (shares (sv_db sv)) \<union> {PermissionRead, PermissionReadWrite}"
      unfolding sharing_frame_def by blast
    then consider "sh_permission sh \<in> {PermissionRead, PermissionReadWrite}"
      | x where "x \<in> set (shares (sv_db sv))" "sh_permission sh = sh_permission x" by blast
    then show "sh_permission sh \<in> {PermissionRead, PermissionReadWrite}"
      by cases (use typedD(2) [OF I(5)] in simp_all)
  qed (rule typedD [OF I(5)], assumption)+
  with sh st show ?thesis by (simp add: system_inv_def server_inv_def accounts_ok_def sharing_inv_def)
qed

section \<open>Upload commands\<close>

definition node_kind :: "node_row \<Rightarrow> id \<times> string" where
  "node_kind n = (n_id n, n_node_type n)"

lemma is_file_kinds:
  "is_file s i \<longleftrightarrow> i \<in> fst ` set (map node_kind (nodes s)) \<and> (\<forall>ty. (i, ty) \<in> set (map node_kind (nodes s)) \<longrightarrow> ty = ''FILE'')"
  by (auto simp: is_file_def node_kind_def image_iff, metis)

lemma accounts_step:
  assumes ok: "accounts_ok s" and "users s' = users s" "devices s' = devices s" "shares s' = shares s" "folder_keys s' = folder_keys s"
    and kinds: "map node_kind (nodes s') = map node_kind (nodes s)"
    and sessions: "\<And>r. r \<in> set (upload_sessions s') \<Longrightarrow> us_status r \<in> session_states \<and> is_file s (us_target_node_id r)"
    and versions: "\<And>f. f \<in> set (file_versions s') \<Longrightarrow> is_file s (f_node_id f)"
  shows "accounts_ok s'"
proof -
  have t: "typed s" using ok by (simp add: accounts_ok_def)
  have same: "is_file s' = is_file s" by (rule ext) (simp only: is_file_kinds kinds)
  have "typed s'"
  proof (rule typedI)
    fix n assume "n \<in> set (nodes s')"
    then have "node_kind n \<in> set (map node_kind (nodes s))" unfolding kinds [symmetric] by simp
    with typedD(1) [OF t] show "n_node_type n \<in> node_types" by (auto simp: node_kind_def)
  qed (use typedD(2) [OF t] assms(4) sessions versions in \<open>simp_all add: same\<close>)
  then show ?thesis using ok users_ok_cong [OF assms(2-4)] keys_ok_cong [OF assms(5)] by (simp add: accounts_ok_def)
qed

lemma live_file_is_file:
  assumes d: "distinct (map n_id (nodes s))" and n: "live_file s i = Some n"
  shows "is_file s i"
proof -
  note L = live_fileD [OF d n]
  have "m = n" if "m \<in> set (nodes s)" "n_id m = i" for m
    by (rule distinct_map_eq [OF d that(1) L(4)]) (simp add: that(2) L(5))
  with L show ?thesis unfolding is_file_def by blast
qed

lemma CreateUpload_session:
  assumes d: "distinct (map n_id (nodes s))" and c: "CreateUpload_tx U svc now newID s inp = Inr (session, s')"
  obtains row where "s' = s\<lparr>upload_sessions := upload_sessions s @ [row]\<rparr>" "us_status row = ''OPEN''"
    "is_file s (us_target_node_id row)"
proof -
  from c have v: "validateActorAndTarget s (cu_UserID inp) (cu_DeviceID inp) (cu_TargetNodeID inp) = Inr ()"
    by (auto simp: CreateUpload_tx_def split: if_split_asm)
  then obtain n where "live_file s (cu_TargetNodeID inp) = Some n"
    by (auto simp: validateActorAndTarget_def split: if_split_asm option.split_asm)
  then have "is_file s (cu_TargetNodeID inp)" by (rule live_file_is_file [OF d])
  moreover from c obtain row where "s' = s\<lparr>upload_sessions := upload_sessions s @ [row]\<rparr>" "us_status row = ''OPEN''"
    "us_target_node_id row = cu_TargetNodeID inp" by (auto simp: CreateUpload_tx_def split: if_split_asm)
  ultimately show thesis using that by simp
qed

lemma complete_accounts:
  assumes ok: "accounts_ok s" and d: "distinct (map n_id (nodes s))"
    and c: "complete_tx U now s up inp session expected sz dig = Inr (Completed r s')"
  shows "accounts_ok s'"
  using d c
proof (rule complete_tx_done)
  fix n assume n: "live_file s (targetNodeID session) = Some n"
    and s': "s' = upload_commit now s up inp session (n_owner_id n) sz dig"
  have t: "typed s" using ok by (simp add: accounts_ok_def)
  show ?thesis unfolding s'
  proof (rule accounts_step [OF ok])
    show "map node_kind (nodes (upload_commit now s up inp session (n_owner_id n) sz dig)) = map node_kind (nodes s)"
      unfolding upload_commit_simps by (rule map_upd) (simp add: node_kind_def)
  next
    fix r assume "r \<in> set (upload_sessions (upload_commit now s up inp session (n_owner_id n) sz dig))"
    then obtain r0 where "r0 \<in> set (upload_sessions s)" "r = r0 \<or> r = complete_session now r0"
      by (auto simp: set_upd split: if_split_asm)
    with typedD(3,4) [OF t, of r0] show "us_status r \<in> session_states \<and> is_file s (us_target_node_id r)"
      by (auto simp: complete_session_def session_states_def)
  next
    fix f assume "f \<in> set (file_versions (upload_commit now s up inp session (n_owner_id n) sz dig))"
    then have "f \<in> set (file_versions s) \<or> f_node_id f = targetNodeID session" by (auto simp: new_version_def)
    with typedD(5) [OF t, of f] live_file_is_file [OF d n] show "is_file s (f_node_id f)" by auto
  qed simp_all
qed

lemma abort_accounts:
  assumes ok: "accounts_ok (sv_db sv)"
  shows "accounts_ok (sv_db (fst (AbortUpload U sv u d i)))"
proof (cases "fst (AbortUpload U sv u d i) = sv")
  case False
  have t: "typed (sv_db sv)" using ok by (simp add: accounts_ok_def)
  from False have eq: "sv_db (fst (AbortUpload U sv u d i)) = (sv_db sv)\<lparr>upload_sessions :=
        upd (\<lambda>r. us_id r = i) (\<lambda>r. r\<lparr>us_status := ''ABORTED''\<rparr>) (upload_sessions (sv_db sv))\<rparr>"
    by (auto simp: AbortUpload_def split: if_split_asm sum.split_asm)
  show ?thesis unfolding eq
  proof (rule accounts_step [OF ok])
    fix r assume "r \<in> set (upload_sessions ((sv_db sv)\<lparr>upload_sessions :=
        upd (\<lambda>r. us_id r = i) (\<lambda>r. r\<lparr>us_status := ''ABORTED''\<rparr>) (upload_sessions (sv_db sv))\<rparr>))"
    then obtain r0 where "r0 \<in> set (upload_sessions (sv_db sv))" "r = r0 \<or> r = r0\<lparr>us_status := ''ABORTED''\<rparr>"
      by (auto simp: set_upd split: if_split_asm)
    with typedD(3,4) [OF t, of r0] show "us_status r \<in> session_states \<and> is_file (sv_db sv) (us_target_node_id r)"
      by (auto simp: session_states_def)
  qed (use typedD(5) [OF t] in simp_all)
qed (simp add: ok)

lemma upload_accounts:
  assumes ok: "accounts_ok (sv_db sv)" and inv: "server_inv H sv"
  shows "accounts_ok (sv_db (fst (upload_exec U H svc draw c sv)))"
proof -
  have t: "typed (sv_db sv)" using ok by (simp add: accounts_ok_def)
  have d: "distinct (map n_id (nodes (sv_db sv)))" using inv vault_invD(8) by (simp add: server_inv_def)
  obtain now k cmd where c: "c = (now, k, cmd)" by (cases c)
  show ?thesis
  proof (cases cmd)
    case (CreateUploadCmd inp)
    show ?thesis
    proof (cases "CreateUpload_tx U svc now (draw k) (sv_db sv) inp")
      case (Inl e)
      with ok show ?thesis by (simp add: c CreateUploadCmd CreateUpload_def)
    next
      case (Inr x)
      then obtain session s' where tx: "CreateUpload_tx U svc now (draw k) (sv_db sv) inp = Inr (session, s')" by (cases x) auto
      have "accounts_ok s'" using d tx
      proof (rule CreateUpload_session)
        fix row assume row: "us_status row = ''OPEN''" "is_file (sv_db sv) (us_target_node_id row)"
          and s': "s' = (sv_db sv)\<lparr>upload_sessions := upload_sessions (sv_db sv) @ [row]\<rparr>"
        show ?thesis unfolding s'
        proof (rule accounts_step [OF ok])
          fix r assume "r \<in> set (upload_sessions ((sv_db sv)\<lparr>upload_sessions := upload_sessions (sv_db sv) @ [row]\<rparr>))"
          then have "r \<in> set (upload_sessions (sv_db sv)) \<or> r = row" by auto
          with row typedD(3,4) [OF t, of r] show "us_status r \<in> session_states \<and> is_file (sv_db sv) (us_target_node_id r)"
            by (auto simp: session_states_def)
        qed (use typedD(5) [OF t] in simp_all)
      qed
      with tx show ?thesis by (simp add: c CreateUploadCmd CreateUpload_def)
    qed
  next
    case (PutChunkCmd u de i no x)
    obtain sv' r where p: "PutChunk U H now sv u de i no x = (sv', r)" by fastforce
    then have "accounts_ok (sv_db sv')"
    proof (cases rule: PutChunk_cases)
      case (2 session row)
      show ?thesis unfolding 2(10)
        by (rule accounts_step [OF ok]) (use typedD(3-5) [OF t] in simp_all)
    qed (simp add: ok)
    with p show ?thesis by (simp add: c PutChunkCmd)
  next
    case (AbortCmd u de i)
    with abort_accounts [OF ok] show ?thesis by (simp add: c)
  next
    case (CompleteCmd i inp)
    obtain sv' res where p: "CompleteUpload U H svc now sv i inp = (sv', res)" by fastforce
    with inv have "accounts_ok (sv_db sv')"
    proof (cases rule: CompleteUpload_cases)
      case (stored session expected chunks sz dk dig r s')
      with complete_accounts [OF ok d stored(3)] show ?thesis by simp
    qed (simp_all add: ok)
    with p show ?thesis by (simp add: c CompleteCmd)
  qed
qed

lemma upload_keeps_system:
  assumes inv: "system_inv H sv" and U: "uuid_laws U" "\<forall>k. ValidUUID U (draw k)"
  shows "system_inv H (fst (upload_exec U H svc draw c sv))"
proof -
  have "server_inv H (fst (upload_exec U H svc draw c sv))"
    using upload_service.inv_exec [of H sv U draw svc c] system_invD(1) [OF inv] U by simp
  moreover have "accounts_ok (sv_db (fst (upload_exec U H svc draw c sv)))"
    by (rule upload_accounts) (use inv in \<open>simp_all add: system_inv_def\<close>)
  ultimately show ?thesis by (simp add: system_inv_def)
qed

section \<open>Maintenance\<close>

text \<open>Deleting rows, all keys of a folder or none, and nothing that a kept row refers to.\<close>

lemma accounts_remove:
  assumes ok: "accounts_ok s" and users: "users s' = users s" "devices s' = devices s"
    and ns: "nodes s' = del (\<lambda>n. n_id n \<in> T) (nodes s)" and shs: "set (shares s') \<subseteq> set (shares s)"
    and keys: "folder_keys s' = del (\<lambda>k. K (k_folder_id k)) (folder_keys s)"
    and sessions: "\<And>r. r \<in> set (upload_sessions s') \<Longrightarrow> r \<in> set (upload_sessions s) \<and> us_target_node_id r \<notin> T"
    and versions: "\<And>f. f \<in> set (file_versions s') \<Longrightarrow> f \<in> set (file_versions s) \<and> f_node_id f \<notin> T"
  shows "accounts_ok s'"
proof -
  have t: "typed s" and u: "users_ok s" and k: "keys_ok s" using ok by (simp_all add: accounts_ok_def)
  have fl: "is_file s' i" if "is_file s i" "i \<notin> T" for i using that by (auto simp: is_file_def ns del_member)
  have "typed s'"
  proof (rule typedI)
    fix n assume "n \<in> set (nodes s')"
    then show "n_node_type n \<in> node_types" using typedD(1) [OF t] by (simp add: ns del_member)
  next
    fix sh assume "sh \<in> set (shares s')"
    with shs typedD(2) [OF t] show "sh_permission sh \<in> {PermissionRead, PermissionReadWrite}" by blast
  next
    fix r assume "r \<in> set (upload_sessions s')"
    with sessions have r: "r \<in> set (upload_sessions s)" "us_target_node_id r \<notin> T" by blast+
    show "us_status r \<in> session_states" by (rule typedD(3) [OF t r(1)])
    show "is_file s' (us_target_node_id r)" by (rule fl [OF typedD(4) [OF t r(1)] r(2)])
  next
    fix f assume "f \<in> set (file_versions s')"
    with versions have f: "f \<in> set (file_versions s)" "f_node_id f \<notin> T" by blast+
    show "is_file s' (f_node_id f)" by (rule fl [OF typedD(5) [OF t f(1)] f(2)])
  qed
  moreover have "users_ok s'" using u shs unfolding users_ok_def users by blast
  moreover have "keys_ok s'" unfolding keys_ok_def
  proof (intro conjI ballI impI)
    show "distinct (map (\<lambda>k. (k_folder_id k, k_key_version k)) (folder_keys s'))"
      using k unfolding keys_ok_def keys by (intro distinct_map_del) blast
    fix x assume x: "x \<in> set (folder_keys s')"
    with k show "1 \<le> k_key_version x" by (simp add: keys_ok_def keys del_member)
    assume "1 < k_key_version x"
    with k x obtain y where "y \<in> set (folder_keys s)" "k_folder_id y = k_folder_id x" "k_key_version y = k_key_version x - 1"
      by (auto simp: keys_ok_def keys del_member)
    with x show "\<exists>y\<in>set (folder_keys s'). k_folder_id y = k_folder_id x \<and> k_key_version y = k_key_version x - 1"
      by (auto simp: keys del_member)
  qed
  ultimately show ?thesis by (simp add: accounts_ok_def)
qed

end
