(* ===== verification/HB_System_Props.thy ===== *)
theory HB_System_Props
  imports HB_System
begin

text \<open>
  The whole system. \<open>system_exec\<close> runs one request of any service or a maintenance pass; the services share
  one database and one storage directory, so a run is any interleaving of their transactions. The
  properties hold of every such run: the invariant of the whole and what it means for a client.
\<close>

section \<open>Maintenance keeps the accounts\<close>

lemma system_marks:
  assumes inv: "system_inv H sv" and inv': "server_inv H sv'"
    and "nodes (sv_db sv') = nodes (sv_db sv)" "users (sv_db sv') = users (sv_db sv)" "devices (sv_db sv') = devices (sv_db sv)"
      "shares (sv_db sv') = shares (sv_db sv)" "folder_keys (sv_db sv') = folder_keys (sv_db sv)"
    and sub: "set (upload_sessions (sv_db sv')) \<subseteq> set (upload_sessions (sv_db sv))"
      "set (file_versions (sv_db sv')) \<subseteq> set (file_versions (sv_db sv))"
  shows "system_inv H sv'"
proof -
  have "accounts_ok (sv_db sv')"
    by (rule accounts_remove [where s = "sv_db sv" and T = "{}" and K = "\<lambda>_. False"])
      (use inv sub in \<open>auto simp: system_inv_def assms(3-7)\<close>)
  with inv' show ?thesis by (simp add: system_inv_def)
qed

lemma system_expired:
  assumes inv: "system_inv H sv"
  shows "system_inv H (fst (cleanupExpired now sv))"
  by (rule system_marks [OF inv cleanupExpired_inv [OF system_invD(1) [OF inv]]])
    (simp_all add: cleanupExpired_def Let_def deleteBefore_def)

lemma system_upload:
  assumes inv: "system_inv H sv"
  shows "system_inv H (fst (expireUpload now sv i))"
proof -
  have d: "distinct (map us_id (upload_sessions (sv_db sv)))" by (rule storage_invD(7) [OF system_invD(3) [OF inv]])
  show ?thesis
    by (rule system_marks [OF inv expireUpload_inv [OF system_invD(1) [OF inv]]]) (auto simp: expireUpload_eq [OF d] del_member)
qed

lemma system_uploads: "system_inv H sv \<Longrightarrow> system_inv H (fst (cleanupExpiredUploads U now sv))"
  unfolding cleanupExpiredUploads_def Let_def by (simp add: each_inv [where P = "system_inv H"] system_upload)

lemma system_purge:
  assumes inv: "system_inv H sv"
  shows "system_inv H (fst (purgeSubtree U now cutoff sv i))"
proof -
  let ?sv = "purge_server now cutoff sv i" and ?T = "purged (sv_db sv) i cutoff"
  let ?unused = "folder_key_unused (sv_db sv) (map n_id (trashSubtree (sv_db sv) i cutoff))"
  note I = system_invD [OF inv]
  have "accounts_ok (sv_db ?sv)"
  proof (rule accounts_remove [where s = "sv_db sv" and T = ?T and K = "\<lambda>j. j \<in> ?T \<and> ?unused j"])
    show "accounts_ok (sv_db sv)" using inv by (simp add: system_inv_def)
  qed (auto simp: purge_server_def Let_def del_member purged_def)
  then have "system_inv H ?sv" using purge_server_inv [OF I(1)] by (simp add: system_inv_def)
  with inv show ?thesis by (simp add: purgeSubtree_eq [OF I(2)])
qed

lemma system_trash: "system_inv H sv \<Longrightarrow> system_inv H (fst (cleanupExpiredTrash U pol now sv))"
  unfolding cleanupExpiredTrash_def Let_def by (rule each_inv [where P = "system_inv H"]) (simp_all add: system_purge)

lemma system_purge_entry: "system_inv H sv \<Longrightarrow> system_inv H (fst (PurgeTrashEntry U now sv u i))"
  using system_purge by (simp add: PurgeTrashEntry_def fst_sbind split: option.split sum.split)

lemma system_prune:
  assumes inv: "system_inv H sv"
  shows "system_inv H (fst (pruneFileVersions pol now sv))"
proof -
  have d: "distinct (map f_id (file_versions (sv_db sv)))"
    using storage_invD(3) [OF system_invD(3) [OF inv]] by (simp add: versions_ok_def)
  show ?thesis
    by (rule system_marks [OF inv pruneFileVersions_inv [OF system_invD(1) [OF inv]]])
      (auto simp: pruneFileVersions_eq [OF d] del_member)
qed

text \<open>The two collections touch blobs and files only.\<close>

lemma system_blob:
  assumes inv: "system_inv H sv" and c: "snd c = blob_path (fst c)"
  shows "system_inv H (fst (deleteBlob sv c))"
  by (rule system_marks [OF inv deleteBlob_inv [OF system_invD(1) [OF inv] c]])
    (simp_all add: deleteBlob_def deleteBlob_tx_def Let_def)

lemma system_blobs:
  assumes inv: "system_inv H sv"
  shows "system_inv H (fst (collectUnreferencedBlobs U pol now sv))"
proof -
  let ?sv = "sv\<lparr>sv_db := markBlobs now (sv_db sv)\<rparr>" and ?cs = "eligible pol now (markBlobs now (sv_db sv))"
  have inv': "system_inv H ?sv"
    by (rule system_marks [OF inv markBlobs_inv [OF system_invD(1) [OF inv]]]) (simp_all, simp add: markBlobs_def Let_def)
  have "\<forall>b\<in>set (blobs (sv_db ?sv)). b_storage_rel_path b = blob_path (b_id b)"
    using storage_invD(2) [OF system_invD(3) [OF inv']] by (simp add: blobs_stored_def)
  then have "snd c = blob_path (fst c)" if "c \<in> set ?cs" for c using that by (auto simp: eligible_iff)
  then have "system_inv H (fst (each deleteBlob ?cs ?sv 0))"
    by (intro each_inv [where P = "system_inv H"] inv' system_blob)
  with inv' show ?thesis by (simp add: collectUnreferencedBlobs_def Let_def)
qed

lemma markOrphan_devices: "devices (fold (markOrphan U now) xs s) = devices s"
  by (induction xs arbitrary: s) (simp_all add: markOrphan_def Let_def)

lemma system_orphans:
  assumes inv: "system_inv H sv"
  shows "system_inv H (fst (collectOrphanBlobFiles U pol now sv))"
proof -
  let ?sv = "sv\<lparr>sv_db := fold (markOrphan U now) (read_dir ''blobs'' (sv_disk sv)) (sv_db sv)\<rparr>"
  let ?ps = "map fst (filter (\<lambda>x. stamp (snd x) \<le> stamp (now - OrphanBlobGrace pol)) (gc_orphan_blob_files (sv_db ?sv)))"
  have m: "server_inv H ?sv" by (rule server_inv_marks [OF system_invD(1) [OF inv]]) simp_all
  have inv': "system_inv H ?sv" by (rule system_marks [OF inv m]) (simp_all add: markOrphan_devices)
  have eq: "collectOrphanBlobFiles U pol now sv =
    (if \<exists>p\<in>set ?ps. \<not> safeBlobPath U p then (?sv, Inl (Internal ''unsafe orphan blob path in database''))
     else each deleteOrphan ?ps ?sv 0)" by (simp only: collectOrphanBlobFiles_def Let_def)
  have "system_inv H (fst (each deleteOrphan ?ps ?sv 0))" if "\<forall>p\<in>set ?ps. safeBlobPath U p"
  proof (rule each_inv [where P = "system_inv H", OF inv'])
    fix sv1 p assume s: "system_inv H sv1" and "p \<in> set ?ps"
    with that have "server_inv H (fst (deleteOrphan sv1 p))" by (blast intro: deleteOrphan_inv system_invD(1))
    then show "system_inv H (fst (deleteOrphan sv1 p))"
      by (rule system_marks [OF s]) (simp_all add: deleteOrphan_def Let_def)
  qed
  with inv' show ?thesis unfolding eq by (simp only: split: if_split) (simp del: set_map)
qed

lemma system_maintenance:
  assumes inv: "system_inv H sv"
  shows "system_inv H (fst (RunMaintenance U pol now sv))"
  unfolding RunMaintenance_def
  by (rule sbind_inv, rule system_expired [OF inv], clarsimp split: prod.split,
      rule sbind_inv, erule system_uploads, rule sbind_inv, erule system_trash,
      rule sbind_inv, erule system_prune, rule sbind_inv, erule system_blobs,
      rule sbind_inv, erule system_orphans, simp)

section \<open>One server\<close>

datatype system_cmd =
    NodeRequest node_cmd
  | SharingRequest sharing_cmd
  | UploadRequest upload_cmd
  | PurgeRequest id id
  | Maintain Policy

text \<open>Command number \<open>k\<close> draws the UUIDs \<open>draws k 0\<close>, \<open>draws k 1\<close>, and so on.\<close>

fun system_exec :: "uuid_pkg \<Rightarrow> (bytes \<Rightarrow> string) \<Rightarrow> UploadService \<Rightarrow> (nat \<Rightarrow> nat \<Rightarrow> id) \<Rightarrow> time \<times> nat \<times> system_cmd \<Rightarrow>
    server \<Rightarrow> server \<times> (err + unit)" where
  "system_exec U H svc draws (now, k, NodeRequest c) sv =
     map_prod (\<lambda>s. sv\<lparr>sv_db := s\<rparr>) (map_sum id (\<lambda>_. ())) (node_exec U (now, c) (sv_db sv))"
| "system_exec U H svc draws (now, k, SharingRequest c) sv =
     map_prod (\<lambda>s. sv\<lparr>sv_db := s\<rparr>) id (sharing_exec U draws (now, k, c) (sv_db sv))"
| "system_exec U H svc draws (now, k, UploadRequest c) sv = upload_exec U H svc (\<lambda>j. draws j 0) (now, k, c) sv"
| "system_exec U H svc draws (now, k, PurgeRequest u i) sv = PurgeTrashEntry U now sv u i"
| "system_exec U H svc draws (now, k, Maintain pol) sv =
     map_prod id (map_sum id (\<lambda>_. ())) (RunMaintenance U pol now sv)"

fun system_ok :: "time \<times> nat \<times> system_cmd \<Rightarrow> server \<Rightarrow> bool" where
  "system_ok (now, k, NodeRequest c) sv = node_ok (now, c) (sv_db sv)"
| "system_ok (now, k, _) sv = True"

interpretation system: service "system_exec U H svc draws" system_ok
  "\<lambda>sv. system_inv H sv \<and> uuid_laws U \<and> draws_ok U draws" for U H svc draws
proof
  fix sv and c :: "time \<times> nat \<times> system_cmd"
  assume inv: "system_inv H sv \<and> uuid_laws U \<and> draws_ok U draws" and ok: "system_ok c sv"
  obtain now k cmd where c: "c = (now, k, cmd)" by (cases c)
  have "system_inv H (fst (system_exec U H svc draws c sv))"
  proof (cases cmd)
    case (NodeRequest x)
    with node_keeps_system [of H sv U "(now, x)"] inv ok show ?thesis by (simp add: c)
  next
    case (SharingRequest x)
    with sharing_keeps_system [of H sv U draws "(now, k, x)"] inv show ?thesis by (simp add: c)
  next
    case (UploadRequest x)
    with upload_keeps_system [of H sv U "\<lambda>j. draws j 0" svc "(now, k, x)"] inv show ?thesis by (simp add: c draws_ok_def)
  next
    case (PurgeRequest u i)
    with system_purge_entry inv show ?thesis by (simp add: c)
  next
    case (Maintain pol)
    with system_maintenance inv show ?thesis by (simp add: c)
  qed
  with inv show "system_inv H (fst (system_exec U H svc draws c sv)) \<and> uuid_laws U \<and> draws_ok U draws" by simp
qed

lemma demo_store_system: "system_inv demo_hash demo_store"
proof (rule system_invI [OF demo_store_inv])
  show "users_ok (sv_db demo_store)" using demo_sharing_inv
    by (subst users_ok_cong [of _ demo]) (simp_all add: demo_store_def sharing_inv_def)
  show "keys_ok (sv_db demo_store)" using demo_sharing_inv
    by (subst keys_ok_cong [of _ demo]) (simp_all add: demo_store_def sharing_inv_def)
  show "typed (sv_db demo_store)"
    by (simp add: typed_def is_file_def node_types_def session_states_def demo_store_def demo_store_nodes_def
        demo_version_def PermissionRead_def PermissionReadWrite_def demo_defs)
qed

definition demo_draws :: "nat \<Rightarrow> nat \<Rightarrow> id" where
  "demo_draws k j = ''u'' @ replicate k CHR ''a'' @ replicate j CHR ''b''"

lemma demo_draws_ok: "draws_ok demo_uuid demo_draws"
  by (auto simp: draws_ok_def demo_draws_def)

text \<open>Bob adds a file, Alice revokes his share, a pass of maintenance runs, Alice deletes a file for good.\<close>

definition demo_run :: "(time \<times> nat \<times> system_cmd) list" where
  "demo_run = [(100, 0, NodeRequest (CreateCmd (bob_adds ''new''))), (101, 1, SharingRequest (RevokeCmd ''alice'' ''a1'' ''s1'')),
     (100000000000, 2, Maintain demo_policy), (100000000001, 3, PurgeRequest ''alice'' ''old'')]"

lemma demo_run_ok: "run_ok system_ok (system_exec demo_uuid demo_hash demo_uploads demo_draws) demo_run demo_store"
  by (simp add: demo_run_def keyed_def bob_adds_def demo_store_def demo_defs)



section \<open>What clients rely on\<close>

lemma content_of:
  assumes inv: "system_inv H sv" and n: "n \<in> set (nodes (sv_db sv))" "n_current_version_id n = Some v"
  shows "n_node_type n = ''FILE'' \<and> (\<exists>b c. b \<in> set (blobs (sv_db sv)) \<and>
    OpenNodeBlob (sv_db sv) (n_id n) v = Inr (b_storage_rel_path b, int (length c)) \<and>
    file_at (sv_disk sv) (b_storage_rel_path b) = Some c \<and> H c = b_ciphertext_sha256 b)"
proof -
  note I = system_invD [OF inv]
  from I(1) n obtain f b where f: "f \<in> set (file_versions (sv_db sv))" "f_id f = v" "f_node_id f = n_id n"
    and b: "b \<in> set (blobs (sv_db sv))" "b_id b = f_blob_id f" by (rule current_version)
  from storage_invD(2) [OF I(3)] b(1) obtain c where c: "b_storage_rel_path b = blob_path (b_id b)"
    "file_at (sv_disk sv) (blob_path (b_id b)) = Some c" "int (length c) = b_ciphertext_size b" "H c = b_ciphertext_sha256 b"
    unfolding blobs_stored_def by blast
  have "is_file (sv_db sv) (n_id n)" using typedD(5) [OF I(5) f(1)] f(3) by simp
  with n(1) have "n_node_type n = ''FILE''" by (simp add: is_file_def)
  moreover have "OpenNodeBlob (sv_db sv) (n_id n) v = Inr (b_storage_rel_path b, int (length c))"
    using OpenNodeBlob_found [OF I(1) f(1) b] f c(3) by simp
  ultimately show ?thesis using b(1) c by auto
qed

lemma answers_of:
  assumes inv: "system_inv H sv"
  shows "Get (sv_db sv) u i = Inr n \<Longrightarrow> N_NodeType n \<in> node_types \<and> (N_CurrentVersionID n \<noteq> None \<longrightarrow> N_NodeType n = ''FILE'')"
    and "ShareGrant (sv_db sv) u i = Inr (Some g) \<Longrightarrow> Permission g \<in> {PermissionRead, PermissionReadWrite}"
    and "GetUpload (sv_db sv) u d i = Inr x \<Longrightarrow> S_Status x \<in> session_states \<and> S_ID x = i"
proof -
  note I = system_invD [OF inv]
  show "N_NodeType n \<in> node_types \<and> (N_CurrentVersionID n \<noteq> None \<longrightarrow> N_NodeType n = ''FILE'')"
    if "Get (sv_db sv) u i = Inr n"
  proof -
    from that obtain r where r: "node_of (sv_db sv) i = Some r" "n = scanNode r" using Get_iff [OF I(2)] by blast
    have "r \<in> set (nodes (sv_db sv))" using node_of_Some [OF r(1)] by blast
    with typedD(1) [OF I(5)] content_of [OF inv] show ?thesis by (auto simp: r(2))
  qed
  show "Permission g \<in> {PermissionRead, PermissionReadWrite}" if "ShareGrant (sv_db sv) u i = Inr (Some g)"
  proof -
    from ShareGrant_sound [OF vault_invD(1) [OF I(2)] that] obtain sh where sh: "nearest_live_share (sv_db sv) u i sh"
      "g = \<lparr>RootID = sh_node_id sh, Permission = sh_permission sh\<rparr>" by blast
    then have "sh \<in> set (shares (sv_db sv))" by (simp add: nearest_live_share_def)
    with typedD(2) [OF I(5)] show ?thesis by (simp add: sh(2))
  qed
  show "S_Status x \<in> session_states \<and> S_ID x = i" if "GetUpload (sv_db sv) u d i = Inr x"
  proof -
    from that obtain session where s: "sessionForDevice (sv_db sv) u d i = Inr session"
      "S_Status x = S_Status session" "S_ID x = S_ID session" by (auto simp: GetUpload_def)
    from s(1) obtain r where "r \<in> set (upload_sessions (sv_db sv))" "S_Status session = us_status r" by (rule sessionForDevice_row)
    with typedD(3) [OF I(5)] have "S_Status session \<in> session_states" by simp
    moreover have "S_ID session = i" using s(1)
      by (auto simp: sessionForDevice_def split: option.split_asm dest!: find_SomeD)
    ultimately show ?thesis by (simp add: s)
  qed
qed


definition demo_short :: "(time \<times> nat \<times> system_cmd) list" where
  "demo_short = [(100, 0, NodeRequest (CreateCmd (bob_adds ''new''))), (101, 1, PurgeRequest ''alice'' ''old'')]"

lemma demo_short_ok: "run_ok system_ok (system_exec demo_uuid demo_hash demo_uploads demo_draws) demo_short demo_store"
  by (simp add: demo_short_def keyed_def bob_adds_def demo_store_def demo_defs)

lemma demo_short_doc:
  "list_ex (\<lambda>n. n_id n = ''doc'' \<and> n_current_version_id n = Some ''v3'')
    (nodes (sv_db (run_cmds (system_exec demo_uuid demo_hash demo_uploads demo_draws) demo_short demo_store)))"
  by code_simp



lemma demo_short_bob:
  "map_sum (\<lambda>_. ()) (map_option Permission) (ShareGrant (sv_db (run_cmds (system_exec demo_uuid demo_hash demo_uploads demo_draws)
    demo_short demo_store)) ''bob'' ''new'') = Inr (Some ''READ_WRITE'')"
  by code_simp


end
