(* ===== verification/HB_Codec.thy ===== *)
theory HB_Codec
  imports HB_Text
begin

text \<open>
  More of the Go standard library on text: \<open>encoding/base64\<close> (both alphabets, without padding; \<open>HB_Json\<close> adds it),
  \<open>strings.TrimSpace\<close>, \<open>strings.ToLower\<close> on ASCII, and the \<open>%d\<close> verb of \<open>fmt.Sscanf\<close> into an unsigned
  integer. As in Go, a decoder skips line breaks and does not look at the unused bits of the last character.
  \<open>b64_roundtrip\<close> shows that decoding undoes encoding.
\<close>

section \<open>Base 64\<close>

definition std_alphabet :: string where
  "std_alphabet = ''ABCDEFGHIJKLMNOPQRSTUVWXYZabcdefghijklmnopqrstuvwxyz0123456789+/''"

definition url_alphabet :: string where
  "url_alphabet = ''ABCDEFGHIJKLMNOPQRSTUVWXYZabcdefghijklmnopqrstuvwxyz0123456789-_''"

fun sextets :: "nat list \<Rightarrow> nat list" where
  "sextets [] = []"
| "sextets [a] = [a div 4, (a mod 4) * 16]"
| "sextets [a, b] = [a div 4, (a mod 4) * 16 + b div 16, (b mod 16) * 4]"
| "sextets (a # b # c # xs) =
     [a div 4, (a mod 4) * 16 + b div 16, (b mod 16) * 4 + c div 64, c mod 64] @ sextets xs"

fun octets :: "nat list \<Rightarrow> nat list option" where
  "octets [] = Some []"
| "octets [p] = None"
| "octets [p, q] = Some [p * 4 + q div 16]"
| "octets [p, q, r] = Some [p * 4 + q div 16, (q mod 16) * 16 + r div 4]"
| "octets (p # q # r # s # xs) =
     map_option (append [p * 4 + q div 16, (q mod 16) * 16 + r div 4, (r mod 4) * 64 + s]) (octets xs)"

fun index_of :: "'a \<Rightarrow> 'a list \<Rightarrow> nat option" where
  "index_of x [] = None"
| "index_of x (y # ys) = (if x = y then Some 0 else map_option Suc (index_of x ys))"

definition b64_encode :: "string \<Rightarrow> bytes \<Rightarrow> string" where
  "b64_encode alphabet xs = map (nth alphabet) (sextets (map of_char xs))"

fun char_values :: "string \<Rightarrow> string \<Rightarrow> nat list option" where
  "char_values alphabet [] = Some []"
| "char_values alphabet (x # xs) =
     (case index_of x alphabet of None \<Rightarrow> None | Some v \<Rightarrow> map_option (Cons v) (char_values alphabet xs))"

definition b64_decode :: "string \<Rightarrow> string \<Rightarrow> bytes option" where
  "b64_decode alphabet s =
     (case char_values alphabet (filter (\<lambda>x. x \<noteq> CHR 0x0A \<and> x \<noteq> CHR 0x0D) s) of
        None \<Rightarrow> None
      | Some vs \<Rightarrow> map_option (map char_of) (octets vs))"

lemma octet_parts:
  fixes a b c :: nat
  assumes "a < 256" "b < 256" "c < 256"
  shows "a div 4 * 4 + ((a mod 4) * 16 + b div 16) div 16 = a" "(((a mod 4) * 16 + b div 16) mod 16) * 16 + ((b mod 16) * 4 + c div 64) div 4 = b"
    "(((b mod 16) * 4 + c div 64) mod 4) * 64 + c mod 64 = c" "(((a mod 4) * 16 + b div 16) mod 16) * 16 + ((b mod 16) * 4) div 4 = b"
proof -
  have "b div 16 < 16" "c div 64 < 4" using assms by (simp_all add: less_mult_imp_div_less)
  then have parts: "((a mod 4) * 16 + b div 16) div 16 = a mod 4" "((a mod 4) * 16 + b div 16) mod 16 = b div 16"
    "((b mod 16) * 4 + c div 64) div 4 = b mod 16" "((b mod 16) * 4 + c div 64) mod 4 = c div 64" by simp_all
  show "a div 4 * 4 + ((a mod 4) * 16 + b div 16) div 16 = a" "(((a mod 4) * 16 + b div 16) mod 16) * 16 + ((b mod 16) * 4 + c div 64) div 4 = b"
    "(((b mod 16) * 4 + c div 64) mod 4) * 64 + c mod 64 = c" "(((a mod 4) * 16 + b div 16) mod 16) * 16 + ((b mod 16) * 4) div 4 = b"
    unfolding parts by simp_all
qed

lemma sextet_parts:
  fixes a b c :: nat
  assumes "a < 256" "b < 256" "c < 256"
  shows "a div 4 < 64" "(a mod 4) * 16 + b div 16 < 64" "(b mod 16) * 4 + c div 64 < 64" "c mod 64 < 64" "(a mod 4) * 16 < 64" "(b mod 16) * 4 < 64"
proof -
  have parts: "a div 4 < 64" "b div 16 < 16" "c div 64 < 4" using assms by (simp_all add: less_mult_imp_div_less)
  have mods: "a mod 4 < 4" "b mod 16 < 16" "c mod 64 < 64" by simp_all
  show "a div 4 < 64" "(a mod 4) * 16 + b div 16 < 64" "(b mod 16) * 4 + c div 64 < 64" "c mod 64 < 64" "(a mod 4) * 16 < 64" "(b mod 16) * 4 < 64"
    using parts mods by linarith+
qed

lemma octets_sextets: "\<forall>x\<in>set xs. x < 256 \<Longrightarrow> octets (sextets xs) = Some xs"
proof (induction xs rule: sextets.induct)
  case (4 a b c xs)
  then have "octets (sextets xs) = Some xs" "a < 256" "b < 256" "c < 256" by simp_all
  with octet_parts(1-3) [of a b c] show ?case by simp
next
  case (3 a b)
  then have "a < 256" "b < 256" by simp_all
  with octet_parts [of a b 0] show ?case by simp
qed simp_all

lemma sextets_bound: "\<forall>x\<in>set xs. x < 256 \<Longrightarrow> y \<in> set (sextets xs) \<Longrightarrow> y < 64"
proof (induction xs rule: sextets.induct)
  case (4 a b c xs)
  then have "a < 256" "b < 256" "c < 256" by simp_all
  note parts = sextet_parts [OF this]
  from 4 have IH: "y \<in> set (sextets xs) \<Longrightarrow> y < 64" by simp
  from "4.prems"(2) have "y = a div 4 \<or> y = (a mod 4) * 16 + b div 16 \<or> y = (b mod 16) * 4 + c div 64 \<or> y = c mod 64 \<or> y \<in> set (sextets xs)"
    by simp
  then show ?case using parts IH by (elim disjE) simp_all
next
  case (3 a b)
  then have "a < 256" "b < 256" by simp_all
  note parts = sextet_parts [OF this, of 0, simplified]
  from "3.prems"(2) have "y = a div 4 \<or> y = (a mod 4) * 16 + b div 16 \<or> y = (b mod 16) * 4" by simp
  then show ?case using parts by (elim disjE) simp_all
next
  case (2 a)
  then have "a < 256" by simp
  note parts = sextet_parts [OF this, of 0 0, simplified]
  from "2.prems"(2) have "y = a div 4 \<or> y = (a mod 4) * 16" by simp
  then show ?case using parts by (elim disjE) simp_all
qed simp

lemma index_of_nth: "distinct xs \<Longrightarrow> i < length xs \<Longrightarrow> index_of (xs ! i) xs = Some i"
proof (induction xs arbitrary: i)
  case (Cons x xs)
  then show ?case by (cases i) (auto simp: nth_mem)
qed simp

lemma char_values_nth:
  assumes "distinct alphabet" "\<forall>v\<in>set vs. v < length alphabet"
  shows "char_values alphabet (map (nth alphabet) vs) = Some vs"
  using assms(2) by (induction vs) (simp_all add: index_of_nth [OF assms(1)])

definition is_alphabet :: "string \<Rightarrow> bool" where
  "is_alphabet a \<longleftrightarrow> distinct a \<and> length a = 64 \<and> CHR 0x0A \<notin> set a \<and> CHR 0x0D \<notin> set a"

lemma alphabets [simp]: "is_alphabet std_alphabet" "is_alphabet url_alphabet"
  by code_simp+

lemma b64_chars: "is_alphabet a \<Longrightarrow> x \<in> set (b64_encode a xs) \<Longrightarrow> x \<in> set a"
proof -
  assume a: "is_alphabet a" and x: "x \<in> set (b64_encode a xs)"
  then obtain v where "v \<in> set (sextets (map of_char xs))" "x = a ! v" by (auto simp: b64_encode_def)
  moreover from this(1) have "v < 64" by (rule sextets_bound [rotated]) auto
  ultimately show ?thesis using a by (simp add: is_alphabet_def)
qed

lemma b64_roundtrip: "is_alphabet a \<Longrightarrow> b64_decode a (b64_encode a xs) = Some xs"
proof -
  assume a: "is_alphabet a"
  let ?vs = "sextets (map of_char xs)"
  have bytes: "\<forall>x\<in>set (map of_char xs). (x :: nat) < 256" by auto
  have "\<forall>v\<in>set ?vs. v < length a" using sextets_bound [OF bytes] a by (simp add: is_alphabet_def)
  with a have "char_values a (b64_encode a xs) = Some ?vs" by (simp add: b64_encode_def char_values_nth is_alphabet_def)
  moreover have "filter (\<lambda>x. x \<noteq> CHR 0x0A \<and> x \<noteq> CHR 0x0D) (b64_encode a xs) = b64_encode a xs"
    using b64_chars [OF a] a by (intro filter_True) (auto simp: is_alphabet_def)
  moreover have "map char_of (map of_char xs :: nat list) = xs" by (simp add: comp_def)
  ultimately show ?thesis using octets_sextets [OF bytes] by (simp add: b64_decode_def)
qed

section \<open>Spaces and case\<close>

text \<open>The UTF-8 encodings of the characters \<open>unicode.IsSpace\<close> accepts.\<close>

definition space_encodings :: "string list" where
  "space_encodings = [[CHR 0x09], [CHR 0x0A], [CHR 0x0B], [CHR 0x0C], [CHR 0x0D], [CHR 0x20], [CHR 0xC2, CHR 0x85], [CHR 0xC2, CHR 0xA0], [CHR 0xE1, CHR 0x9A, CHR
     0x80], [CHR 0xE2, CHR 0x80, CHR 0x80], [CHR 0xE2, CHR 0x80, CHR 0x81], [CHR 0xE2, CHR 0x80, CHR 0x82], [CHR 0xE2, CHR 0x80, CHR 0x83], [CHR
     0xE2, CHR 0x80, CHR 0x84], [CHR 0xE2, CHR 0x80, CHR 0x85], [CHR 0xE2, CHR 0x80, CHR 0x86], [CHR 0xE2, CHR 0x80, CHR 0x87], [CHR 0xE2, CHR
     0x80, CHR 0x88], [CHR 0xE2, CHR 0x80, CHR 0x89], [CHR 0xE2, CHR 0x80, CHR 0x8A], [CHR 0xE2, CHR 0x80, CHR 0xA8], [CHR 0xE2, CHR 0x80, CHR
     0xA9], [CHR 0xE2, CHR 0x80, CHR 0xAF], [CHR 0xE2, CHR 0x81, CHR 0x9F], [CHR 0xE3, CHR 0x80, CHR 0x80]]"

definition strip_space :: "string \<Rightarrow> string option" where
  "strip_space s = map_option (\<lambda>e. drop (length e) s) (find (\<lambda>e. take (length e) s = e) space_encodings)"

lemma strip_space_shorter: "strip_space s = Some r \<Longrightarrow> length r < length s"
proof -
  assume "strip_space s = Some r"
  then obtain e where e: "e \<in> set space_encodings" "take (length e) s = e" "r = drop (length e) s"
    by (auto simp: strip_space_def dest: find_SomeD)
  have "\<forall>e\<in>set space_encodings. e \<noteq> []" by (simp add: space_encodings_def)
  with e(1) have "0 < length e" by blast
  moreover from e(2) have "length e \<le> length s" by (metis length_take min.cobounded1)
  ultimately have "length s - length e < length s" by linarith
  then show ?thesis by (simp add: e(3))
qed

function trim_left :: "string \<Rightarrow> string" where
  "trim_left s = (case strip_space s of None \<Rightarrow> s | Some r \<Rightarrow> trim_left r)"
  by pat_completeness auto
termination by (relation "measure length") (auto dest: strip_space_shorter)

declare trim_left.simps [simp del]

text \<open>From the right the encodings are read backwards.\<close>

definition strip_space_right :: "string \<Rightarrow> string option" where
  "strip_space_right s = map_option (\<lambda>e. take (length s - length e) s)
     (find (\<lambda>e. length e \<le> length s \<and> drop (length s - length e) s = e) space_encodings)"

lemma strip_space_right_shorter: "strip_space_right s = Some r \<Longrightarrow> length r < length s"
proof -
  assume "strip_space_right s = Some r"
  then obtain e where e: "e \<in> set space_encodings" "length e \<le> length s" "r = take (length s - length e) s"
    by (auto simp: strip_space_right_def dest: find_SomeD)
  have "\<forall>e\<in>set space_encodings. e \<noteq> []" by (simp add: space_encodings_def)
  with e have "e \<noteq> []" by blast
  then have "0 < length e" by simp
  with e(2) have "length s - length e < length s" by (metis diff_less less_le_trans)
  then show ?thesis by (simp add: e(3))
qed

function trim_right :: "string \<Rightarrow> string" where
  "trim_right s = (case strip_space_right s of None \<Rightarrow> s | Some r \<Rightarrow> trim_right r)"
  by pat_completeness auto
termination by (relation "measure length") (auto dest: strip_space_right_shorter)

declare trim_right.simps [simp del]

definition TrimSpace :: "string \<Rightarrow> string" where
  "TrimSpace s = trim_right (trim_left s)"

definition lower_char :: "char \<Rightarrow> char" where
  "lower_char c = (let k = of_char c :: nat in if 65 \<le> k \<and> k \<le> 90 then char_of (k + 32) else c)"

definition ToLower :: "string \<Rightarrow> string" where
  "ToLower s = map lower_char s"

section \<open>Scanning numbers\<close>

text \<open>\<open>%d\<close> into an unsigned integer of \<open>w\<close> bits: leading blanks, then digits; a value that does not fit is an
  error. A line break before the digits is an error as well.\<close>

definition scan_uint :: "nat \<Rightarrow> string \<Rightarrow> (nat \<times> string) option" where
  "scan_uint w s =
     (let s' = dropWhile (\<lambda>x. x = CHR 0x20 \<or> x = CHR 0x09 \<or> x = CHR 0x0B \<or> x = CHR 0x0C) s;
          ds = takeWhile (\<lambda>x. digit_value x \<noteq> None) s'
      in if ds = [] then None
         else case parse_digits 0 ds of
           None \<Rightarrow> None
         | Some v \<Rightarrow> if v < 2 ^ w then Some (v, dropWhile (\<lambda>x. digit_value x \<noteq> None) s') else None)"

definition scan_text :: "string \<Rightarrow> string \<Rightarrow> string option" where
  "scan_text p s = (if take (length p) s = p then Some (drop (length p) s) else None)"

end
