(* ===== verification/HB_Auth.thy ===== *)
theory HB_Auth
  imports HB_Schema HB_Codec
begin

text \<open>
  Accounts and passwords (internal/auth/auth.go). Argon2id (golang.org/x/crypto/argon2) is a parameter:
  \<open>argon password salt time memory threads keyLen\<close>; the salts and the UUIDs drawn are arguments.
  \<open>password_verifies\<close> shows that a stored hash accepts its password, and exactly those with the same digest;
  \<open>accounts_within_limits\<close> that the accounts stay unique and bounded.
\<close>

type_synonym argon_pkg = "bytes \<Rightarrow> bytes \<Rightarrow> nat \<Rightarrow> nat \<Rightarrow> nat \<Rightarrow> nat \<Rightarrow> bytes"

section \<open>Passwords\<close>

definition argonTime :: nat where "argonTime = 3"
definition argonMemory :: nat where "argonMemory = 64 * 1024"
definition argonThreads :: nat where "argonThreads = 4"
definition argonKeyLen :: nat where "argonKeyLen = 32"

definition HashPassword :: "argon_pkg \<Rightarrow> bytes \<Rightarrow> string \<Rightarrow> string" where
  "HashPassword argon salt password =
     ''$argon2id$v=19$m='' @ FormatInt (int argonMemory) @ '',t='' @ FormatInt (int argonTime) @ '',p='' @
     FormatInt (int argonThreads) @ ''$'' @ b64_encode std_alphabet salt @ ''$'' @
     b64_encode std_alphabet (argon password salt argonTime argonMemory argonThreads argonKeyLen)"

text \<open>\<open>fmt.Sscanf(parts[3], "m=%d,t=%d,p=%d", ...)\<close> into two \<open>uint32\<close> and a \<open>uint8\<close>.\<close>

definition scan_params :: "string \<Rightarrow> (nat \<times> nat \<times> nat) option" where
  "scan_params s =
     (case scan_text ''m='' s of None \<Rightarrow> None | Some s1 \<Rightarrow>
      case scan_uint 32 s1 of None \<Rightarrow> None | Some (memory, s2) \<Rightarrow>
      case scan_text '',t='' s2 of None \<Rightarrow> None | Some s3 \<Rightarrow>
      case scan_uint 32 s3 of None \<Rightarrow> None | Some (iterations, s4) \<Rightarrow>
      case scan_text '',p='' s4 of None \<Rightarrow> None | Some s5 \<Rightarrow>
      case scan_uint 8 s5 of None \<Rightarrow> None | Some (threads, _) \<Rightarrow> Some (memory, iterations, threads))"

definition VerifyPassword :: "argon_pkg \<Rightarrow> string \<Rightarrow> string \<Rightarrow> bool" where
  "VerifyPassword argon encoded password =
     (case split_at CHR ''$'' encoded of
        [_, name, version, params, saltEncoded, hashEncoded] \<Rightarrow>
          if name \<noteq> ''argon2id'' \<or> version \<noteq> ''v=19'' then False
          else (case scan_params params of
            None \<Rightarrow> False
          | Some (memory, iterations, threads) \<Rightarrow>
              if memory < 8 * 1024 \<or> iterations = 0 \<or> threads = 0 then False
              else (case b64_decode std_alphabet saltEncoded of
                None \<Rightarrow> False
              | Some salt \<Rightarrow>
                  (case b64_decode std_alphabet hashEncoded of
                    None \<Rightarrow> False
                  | Some expected \<Rightarrow>
                      if length expected \<noteq> argonKeyLen then False
                      else argon password salt iterations memory threads (length expected) = expected)))
      | _ \<Rightarrow> False)"

definition validatePassword :: "string \<Rightarrow> err + unit" where
  "validatePassword password =
     (if length password < 12 \<or> length password > 1024
      then Inl (Internal ''password must contain 12 to 1024 characters'') else Inr ())"

section \<open>User names\<close>

definition name_char :: "char \<Rightarrow> bool" where
  "name_char c \<longleftrightarrow> (let k = of_char c :: nat in 97 \<le> k \<and> k \<le> 122 \<or> 65 \<le> k \<and> k \<le> 90 \<or> 48 \<le> k \<and> k \<le> 57) \<or>
     c = CHR ''-'' \<or> c = CHR ''_'' \<or> c = CHR ''.''"

definition normalizeUsername :: "string \<Rightarrow> err + string \<times> string" where
  "normalizeUsername input =
     (let value = TrimSpace input
      in if length value < 3 \<or> length value > 64
         then Inl (Internal ''username must contain 3 to 64 characters'')
         else if \<not> (\<forall>c\<in>set value. name_char c)
         then Inl (Internal ''username may only contain letters, digits, dots, hyphens, and underscores'')
         else Inr (value, ToLower value))"

section \<open>Creating accounts\<close>

record User =
  usr_ID :: id
  usr_Username :: string
  usr_Role :: string

definition insertUser :: "db \<Rightarrow> user_row \<Rightarrow> err + db" where
  "insertUser s u =
     (if \<exists>x\<in>set (users s). u_id x = u_id u \<or> u_username_norm x = u_username_norm u
      then Inl (Internal ''UNIQUE constraint failed: users'') else Inr (s\<lparr>users := users s @ [u]\<rparr>))"

definition new_user :: "time \<Rightarrow> id \<Rightarrow> string \<Rightarrow> string \<Rightarrow> string \<Rightarrow> string \<Rightarrow> user_row" where
  "new_user now i username normalized hash role = \<lparr>u_id = i, u_username = username, u_username_norm = normalized,
     u_password_hash = hash, u_role = role, u_status = ''ACTIVE'', u_created_at = now, u_updated_at = now\<rparr>"

definition BootstrapAdmin :: "argon_pkg \<Rightarrow> time \<Rightarrow> id \<Rightarrow> bytes \<Rightarrow> db \<Rightarrow> string \<Rightarrow> string \<Rightarrow> err + User \<times> db" where
  "BootstrapAdmin argon now newID salt s name password =
     ebind (normalizeUsername name) (\<lambda>(username, normalized).
     ebind (validatePassword password) (\<lambda>_.
     if length (users s) \<noteq> 0
     then Inl (Internal ''bootstrap admin is only allowed before the first user exists'')
     else ebind (insertUser s (new_user now newID username normalized (HashPassword argon salt password) ''ADMIN'')) (\<lambda>s'.
       Inr (\<lparr>usr_ID = newID, usr_Username = username, usr_Role = ''ADMIN''\<rparr>, s'))))"

definition CreateUser :: "argon_pkg \<Rightarrow> int \<Rightarrow> time \<Rightarrow> id \<Rightarrow> bytes \<Rightarrow> db \<Rightarrow> string \<Rightarrow> string \<Rightarrow> err + User \<times> db" where
  "CreateUser argon maxUsers now newID salt s name password =
     ebind (normalizeUsername name) (\<lambda>(username, normalized).
     ebind (validatePassword password) (\<lambda>_.
     if count_rows (\<lambda>u. u_role u = ''ADMIN'' \<and> u_status u = ''ACTIVE'') (users s) = 0
     then Inl (Internal ''create an active bootstrap admin before creating family user accounts'')
     else if int (length (users s)) \<ge> maxUsers
     then Inl (Internal (''user limit of '' @ FormatInt maxUsers @ '' reached''))
     else ebind (insertUser s (new_user now newID username normalized (HashPassword argon salt password) ''USER'')) (\<lambda>s'.
       Inr (\<lparr>usr_ID = newID, usr_Username = username, usr_Role = ''USER''\<rparr>, s'))))"

section \<open>Stored hashes verify\<close>

lemma dollar_free [simp]: "CHR ''$'' \<notin> set (b64_encode std_alphabet xs)"
proof -
  have "CHR ''$'' \<notin> set std_alphabet" by (simp add: std_alphabet_def)
  with b64_chars [OF alphabets(1)] show ?thesis by blast
qed

lemma params_text: "FormatInt (int argonMemory) = ''65536''" "FormatInt (int argonTime) = ''3''" "FormatInt (int argonThreads) = ''4''"
  by (simp_all add: FormatInt_def argonMemory_def argonTime_def argonThreads_def digits.simps digit_def) code_simp+

lemma scan_params_stored: "scan_params ''m=65536,t=3,p=4'' = Some (argonMemory, argonTime, argonThreads)"
  by (simp add: scan_params_def scan_text_def scan_uint_def digit_value_def argonMemory_def argonTime_def argonThreads_def)

lemma split_HashPassword:
  "split_at CHR ''$'' (HashPassword argon salt password) =
     [[], ''argon2id'', ''v=19'', ''m=65536,t=3,p=4'', b64_encode std_alphabet salt,
      b64_encode std_alphabet (argon password salt argonTime argonMemory argonThreads argonKeyLen)]"
  by (simp add: HashPassword_def params_text split_at_join split_at_plain)

lemma VerifyPassword_hash:
  assumes "length (argon password salt argonTime argonMemory argonThreads argonKeyLen) = argonKeyLen"
  shows "VerifyPassword argon (HashPassword argon salt password) q \<longleftrightarrow>
    argon q salt argonTime argonMemory argonThreads argonKeyLen = argon password salt argonTime argonMemory argonThreads argonKeyLen"
  using assms
  by (simp add: VerifyPassword_def split_HashPassword scan_params_stored b64_roundtrip argonMemory_def argonTime_def argonThreads_def)

text \<open>A stored password verifies: what \<open>HashPassword\<close> stores - parameters, salt and digest in one line - is
  read back by \<open>VerifyPassword\<close> as written, so it accepts the password, and any other only if Argon2id gives
  both the same digest under the stored salt.\<close>

theorem password_verifies:
  assumes "\<forall>p s t m th n. length (argon p s t m th n) = n"
  shows "VerifyPassword argon (HashPassword argon salt password) password \<and>
    (VerifyPassword argon (HashPassword argon salt password) q \<longrightarrow>
       argon q salt argonTime argonMemory argonThreads argonKeyLen = argon password salt argonTime argonMemory argonThreads argonKeyLen)"
  using VerifyPassword_hash [of argon password salt] assms by simp

definition demo_argon :: argon_pkg where
  "demo_argon p s t m th n = replicate n (hd (p @ ''x''))"

theorem password_verifies_witness:
  "VerifyPassword demo_argon (HashPassword demo_argon ''0123456789abcdef'' ''correct horse battery'') ''correct horse battery''"
proof -
  have "\<forall>p s t m th n. length (demo_argon p s t m th n) = n" by (simp add: demo_argon_def)
  from password_verifies [OF this] show ?thesis by blast
qed

section \<open>Accounts\<close>

definition accounts_inv :: "int \<Rightarrow> db \<Rightarrow> bool" where
  "accounts_inv m s \<longleftrightarrow> distinct (map u_id (users s)) \<and> distinct (map u_username_norm (users s)) \<and>
     (\<forall>u\<in>set (users s). u_username_norm u = ToLower (u_username u) \<and> 3 \<le> length (u_username u) \<and> length (u_username u) \<le> 64 \<and>
        (\<forall>c\<in>set (u_username u). name_char c)) \<and>
     (case users s of [] \<Rightarrow> True | a # us \<Rightarrow> u_role a = ''ADMIN'' \<and> (\<forall>u\<in>set us. u_role u = ''USER'')) \<and>
     int (length (users s)) \<le> max 1 m"

lemma normalizeUsername_Inr:
  "normalizeUsername name = Inr (username, normalized) \<Longrightarrow> normalized = ToLower username \<and> 3 \<le> length username \<and>
     length username \<le> 64 \<and> (\<forall>c\<in>set username. name_char c)"
  by (auto simp: normalizeUsername_def Let_def split: if_split_asm)

lemma BootstrapAdmin_accounts:
  assumes "BootstrapAdmin argon now i salt s name password = Inr (u, s')"
  shows "accounts_inv m s'"
  using assms
  by (auto simp: BootstrapAdmin_def insertUser_def accounts_inv_def new_user_def dest!: normalizeUsername_Inr split: if_split_asm)

lemma CreateUser_accounts:
  assumes inv: "accounts_inv m s" and c: "CreateUser argon m now i salt s name password = Inr (u, s')"
  shows "accounts_inv m s'"
proof -
  from c obtain username normalized where n: "normalizeUsername name = Inr (username, normalized)"
    and admin: "count_rows (\<lambda>u. u_role u = ''ADMIN'' \<and> u_status u = ''ACTIVE'') (users s) \<noteq> 0" and lim: "int (length (users s)) < m"
    and new: "\<forall>x\<in>set (users s). u_id x \<noteq> i \<and> u_username_norm x \<noteq> normalized"
    and s': "s' = s\<lparr>users := users s @ [new_user now i username normalized (HashPassword argon salt password) ''USER'']\<rparr>"
    by (auto simp: CreateUser_def insertUser_def new_user_def split: if_split_asm)
  from admin obtain a us where us: "users s = a # us" by (cases "users s") simp_all
  show ?thesis
    using inv normalizeUsername_Inr [OF n] lim new by (auto simp: accounts_inv_def s' us new_user_def)
qed

datatype account_cmd = BootstrapCmd id bytes string string | CreateUserCmd id bytes string string

fun account_exec :: "argon_pkg \<Rightarrow> int \<Rightarrow> time \<times> account_cmd \<Rightarrow> db \<Rightarrow> db \<times> (err + User)" where
  "account_exec argon m (now, BootstrapCmd i salt name password) s =
     (case BootstrapAdmin argon now i salt s name password of Inl e \<Rightarrow> (s, Inl e) | Inr (u, s') \<Rightarrow> (s', Inr u))"
| "account_exec argon m (now, CreateUserCmd i salt name password) s =
     (case CreateUser argon m now i salt s name password of Inl e \<Rightarrow> (s, Inl e) | Inr (u, s') \<Rightarrow> (s', Inr u))"

interpretation account_service: transactional "account_exec argon m" "\<lambda>_ _. True" "accounts_inv m" for argon m
proof
  fix s and c :: "time \<times> account_cmd"
  assume inv: "accounts_inv m s"
  obtain now cmd where c: "c = (now, cmd)" by (cases c)
  show "accounts_inv m (fst (account_exec argon m c s))"
    by (cases cmd) (auto simp: c inv split: sum.split dest: BootstrapAdmin_accounts CreateUser_accounts [OF inv])
next
  fix s and c :: "time \<times> account_cmd" and e
  obtain now cmd where c: "c = (now, cmd)" by (cases c)
  show "snd (account_exec argon m c s) = Inl e \<Longrightarrow> fst (account_exec argon m c s) = s"
    by (cases cmd) (auto simp: c split: sum.split sum.split_asm)
qed

text \<open>Accounts stay within their limits: whatever accounts are requested, there are never more than the
  configured number (and the administrator), user names are well formed and no two of them differ in case
  only, and only the first account is an administrator.\<close>

theorem accounts_within_limits:
  assumes "accounts_inv m s"
  shows "accounts_inv m (run_cmds (account_exec argon m) cs s)"
proof -
  have "run_ok (\<lambda>_ _. True) (account_exec argon m) cs s" by (induction cs arbitrary: s) simp_all
  from account_service.inv_run [OF assms this] show ?thesis .
qed

theorem accounts_within_limits_witness:
  "accounts_inv 2 (run_cmds (account_exec demo_argon 2)
     [(1, BootstrapCmd ''i1'' ''salt'' '' Alice '' ''a long password''), (2, CreateUserCmd ''i2'' ''salt'' ''bob'' ''another password''),
      (3, CreateUserCmd ''i3'' ''salt'' ''eve'' ''another password'')] empty_db)"
  by (rule accounts_within_limits) (simp add: accounts_inv_def empty_db_def)

end
