(* ===== verification/HB_Runs.thy ===== *)
theory HB_Runs
  imports HB_Prelude
begin

text \<open>
  Runs of a step relation. \<open>stable\<close> is the interface of a claim that lasts: an invariant every step keeps and
  a fact the allowed steps keep; it then holds after any run of allowed steps.
\<close>

inductive runs :: "('op \<Rightarrow> 's \<Rightarrow> 's \<Rightarrow> bool) \<Rightarrow> 'op list \<Rightarrow> 's \<Rightarrow> 's \<Rightarrow> bool" for step where
  runs_Nil: "runs step [] l l"
| runs_Cons: "step op l l1 \<Longrightarrow> runs step ops l1 l' \<Longrightarrow> runs step (op # ops) l l'"

inductive_simps runs_Nil_iff [simp]: "runs step [] l l'"
inductive_simps runs_Cons_iff [simp]: "runs step (op # ops) l l'"

lemma runs_append: "runs step (xs @ ys) l l' \<longleftrightarrow> (\<exists>l1. runs step xs l l1 \<and> runs step ys l1 l')"
  by (induction xs arbitrary: l) auto

locale stable =
  fixes step :: "'op \<Rightarrow> 's \<Rightarrow> 's \<Rightarrow> bool"
    and inv :: "'s \<Rightarrow> bool"
    and allowed :: "'op \<Rightarrow> bool"
    and fact :: "'s \<Rightarrow> bool"
  assumes inv_step: "inv l \<Longrightarrow> step op l l' \<Longrightarrow> inv l'"
    and fact_step: "inv l \<Longrightarrow> fact l \<Longrightarrow> allowed op \<Longrightarrow> step op l l' \<Longrightarrow> fact l'"
begin

lemma inv_runs: "runs step ops l l' \<Longrightarrow> inv l \<Longrightarrow> inv l'"
  by (induction rule: runs.induct) (blast intro: inv_step)+

lemma fact_runs: "runs step ops l l' \<Longrightarrow> inv l \<Longrightarrow> fact l \<Longrightarrow> \<forall>op\<in>set ops. allowed op \<Longrightarrow> fact l'"
  by (induction rule: runs.induct) (auto intro: inv_step fact_step)

end

end
