(* ===== verification/HB_Limiter.thy ===== *)
theory HB_Limiter
  imports HB_Runs "HOL-Library.Multiset"
begin

text \<open>
  The in-memory login throttle (internal/auth/limiter.go). A limiter maps a key (a user name, an address, or
  both) to an \<open>attemptEntry\<close>; its operations run under one mutex, so each is one step.

  \<^item> \<open>entries\<close> is the Go map as a list, in the order a \<open>range\<close> loop would meet the keys. Go picks that order
    anew for every loop: the step relation \<open>limiter_step\<close> may reorder the list before every operation.
  \<^item> \<open>zero_time\<close> is \<open>time.Time{}\<close> (year 1), \<open>time_sub\<close> is \<open>Time.Sub\<close> with its saturation at 64 bits.
  \<^item> \<open>backoff\<close> and \<open>maxInFlight\<close> are fields of the limiter, as in the code.
\<close>

section \<open>Time\<close>

definition zero_time :: time where
  "zero_time = - 62135596800 * nanos_per_second"

definition time_sub :: "time \<Rightarrow> time \<Rightarrow> int" where
  "time_sub a b = max (- (2 ^ 63)) (min (2 ^ 63 - 1) (a - b))"

definition second :: int where "second = nanos_per_second"
definition minute :: int where "minute = 60 * second"

lemma time_sub_exact: "- (2 ^ 63) \<le> a - b \<Longrightarrow> a - b < 2 ^ 63 \<Longrightarrow> time_sub a b = a - b"
  by (simp add: time_sub_def)

section \<open>The limiter\<close>

definition maxLimiterEntries :: nat where "maxLimiterEntries = 10000"
definition limiterIdleAfter :: int where "limiterIdleAfter = 15 * minute"

record attemptEntry =
  consecutiveFailures :: int
  blockedUntil :: time
  lastFailure :: time
  inFlight :: int

record attemptLimiter =
  entries :: "(string \<times> attemptEntry) list"
  backoff :: "int \<Rightarrow> int"
  maxInFlight :: int

definition newAttemptLimiter :: "(int \<Rightarrow> int) \<Rightarrow> int \<Rightarrow> attemptLimiter" where
  "newAttemptLimiter b m = \<lparr>entries = [], backoff = b, maxInFlight = m\<rparr>"

definition emptyEntry :: attemptEntry where
  "emptyEntry = \<lparr>consecutiveFailures = 0, blockedUntil = zero_time, lastFailure = zero_time, inFlight = 0\<rparr>"

definition lookup_key :: "string \<Rightarrow> (string \<times> 'e) list \<Rightarrow> 'e option" where
  "lookup_key k es = map_of es k"

definition delete_key :: "string \<Rightarrow> (string \<times> 'e) list \<Rightarrow> (string \<times> 'e) list" where
  "delete_key k es = filter (\<lambda>x. fst x \<noteq> k) es"

text \<open>An entry is a pointer in Go: changing it changes what the map holds.\<close>

definition update_key :: "string \<Rightarrow> ('e \<Rightarrow> 'e) \<Rightarrow> (string \<times> 'e) list \<Rightarrow> (string \<times> 'e) list" where
  "update_key k f es = map (\<lambda>(j, e). (j, if j = k then f e else e)) es"

definition busy :: "time \<Rightarrow> attemptEntry \<Rightarrow> bool" where
  "busy now e \<longleftrightarrow> inFlight e > 0 \<or> now < blockedUntil e"

text \<open>The pruning loop of \<open>insert\<close>: \<open>oldest\<close> is \<open>(oldestKey, oldest)\<close>, \<open>None\<close> while \<open>oldestKey\<close> is empty.\<close>

fun prune_loop :: "time \<Rightarrow> (string \<times> attemptEntry) list \<Rightarrow> (string \<times> time) option \<Rightarrow>
    (string \<times> attemptEntry) list \<times> (string \<times> time) option" where
  "prune_loop now [] oldest = ([], oldest)"
| "prune_loop now ((k, e) # es) oldest =
     (if busy now e then (let (kept, o') = prune_loop now es oldest in ((k, e) # kept, o'))
      else if time_sub now (lastFailure e) > limiterIdleAfter then prune_loop now es oldest
      else (let (kept, o') = prune_loop now es
              (case oldest of None \<Rightarrow> Some (k, lastFailure e)
               | Some (k', t) \<Rightarrow> if lastFailure e < t then Some (k, lastFailure e) else oldest)
            in ((k, e) # kept, o')))"

definition limiter_insert :: "attemptLimiter \<Rightarrow> string \<Rightarrow> attemptEntry \<Rightarrow> time \<Rightarrow> attemptLimiter" where
  "limiter_insert l key entry now =
     (let es = (if length (entries l) \<ge> maxLimiterEntries
                then (let (kept, oldest) = prune_loop now (entries l) None
                      in if length kept \<ge> maxLimiterEntries
                         then (case oldest of None \<Rightarrow> kept | Some (k, _) \<Rightarrow> delete_key k kept) else kept)
                else entries l)
      in l\<lparr>entries := delete_key key es @ [(key, entry)]\<rparr>)"

definition limiter_begin :: "attemptLimiter \<Rightarrow> string \<Rightarrow> time \<Rightarrow> attemptLimiter \<times> bool" where
  "limiter_begin l key now =
     (if key = [] then (l, True)
      else case lookup_key key (entries l) of
        Some entry \<Rightarrow>
          if now < blockedUntil entry then (l, False)
          else if maxInFlight l > 0 \<and> inFlight entry \<ge> maxInFlight l then (l, False)
          else (l\<lparr>entries := update_key key (\<lambda>e. e\<lparr>inFlight := inFlight e + 1\<rparr>) (entries l)\<rparr>, True)
      | None \<Rightarrow> (limiter_insert l key (emptyEntry\<lparr>inFlight := 1\<rparr>) now, True))"

definition limiter_end :: "attemptLimiter \<Rightarrow> string \<Rightarrow> attemptLimiter" where
  "limiter_end l key =
     (if key = [] then l
      else case lookup_key key (entries l) of
        None \<Rightarrow> l
      | Some entry \<Rightarrow>
          (let n = (if inFlight entry > 0 then inFlight entry - 1 else inFlight entry)
           in if n = 0 \<and> consecutiveFailures entry = 0 then l\<lparr>entries := delete_key key (entries l)\<rparr>
              else l\<lparr>entries := update_key key (\<lambda>e. e\<lparr>inFlight := n\<rparr>) (entries l)\<rparr>))"

definition failed_entry :: "(int \<Rightarrow> int) \<Rightarrow> time \<Rightarrow> attemptEntry \<Rightarrow> attemptEntry" where
  "failed_entry b now e = e\<lparr>consecutiveFailures := consecutiveFailures e + 1, lastFailure := now,
     blockedUntil := now + b (consecutiveFailures e + 1)\<rparr>"

definition recordFailure :: "attemptLimiter \<Rightarrow> string \<Rightarrow> time \<Rightarrow> attemptLimiter" where
  "recordFailure l key now =
     (if key = [] then l
      else case lookup_key key (entries l) of
        Some _ \<Rightarrow> l\<lparr>entries := update_key key (failed_entry (backoff l) now) (entries l)\<rparr>
      | None \<Rightarrow> limiter_insert l key (failed_entry (backoff l) now emptyEntry) now)"

definition recordSuccess :: "attemptLimiter \<Rightarrow> string \<Rightarrow> attemptLimiter" where
  "recordSuccess l key =
     (if key = [] then l
      else case lookup_key key (entries l) of
        None \<Rightarrow> l
      | Some entry \<Rightarrow>
          if inFlight entry = 0 then l\<lparr>entries := delete_key key (entries l)\<rparr>
          else l\<lparr>entries := update_key key (\<lambda>e. e\<lparr>consecutiveFailures := 0, blockedUntil := zero_time\<rparr>) (entries l)\<rparr>)"

definition limiter_size :: "attemptLimiter \<Rightarrow> nat" where
  "limiter_size l = length (entries l)"

section \<open>Backoffs\<close>

definition loginBackoff :: "int \<Rightarrow> int" where
  "loginBackoff n = (if n < 3 then 0 else if n < 5 then second else if n < 8 then 10 * second else minute)"

definition accountBackoff :: "int \<Rightarrow> int" where
  "accountBackoff n = (if n < 20 then 0 else if n < 50 then 5 * second else 30 * second)"

definition addressBackoff :: "int \<Rightarrow> int" where
  "addressBackoff n = (if n < 10 then 0 else if n < 20 then 5 * second else if n < 40 then 30 * second else 5 * minute)"

lemmas backoff_defs = loginBackoff_def accountBackoff_def addressBackoff_def minute_def second_def nanos_per_second_def

lemma backoffs_mono:
  "m \<le> n \<Longrightarrow> loginBackoff m \<le> loginBackoff n"
  "m \<le> n \<Longrightarrow> accountBackoff m \<le> accountBackoff n"
  "m \<le> n \<Longrightarrow> addressBackoff m \<le> addressBackoff n"
  by (simp_all add: backoff_defs)

section \<open>Entries\<close>

lemma lookup_delete [simp]: "lookup_key j (delete_key k es) = (if j = k then None else lookup_key j es)"
  by (induction es) (auto simp: lookup_key_def delete_key_def)

lemma lookup_update [simp]: "lookup_key j (update_key k f es) = (if j = k then map_option f (lookup_key j es) else lookup_key j es)"
  by (induction es) (auto simp: lookup_key_def update_key_def)

lemma lookup_snoc: "k \<notin> fst ` set es \<Longrightarrow> lookup_key j (es @ [(k, e)]) = (if j = k then Some e else lookup_key j es)"
  unfolding lookup_key_def map_of_append by (auto simp: map_add_def dest: map_of_SomeD intro: rev_image_eqI split: option.split)

lemma keys_delete [simp]: "fst ` set (delete_key k es) = fst ` set es - {k}"
  by (force simp: delete_key_def)

lemma keys_update [simp]: "map fst (update_key k f es) = map fst es"
  by (simp add: update_key_def comp_def split_def)

lemma distinct_delete: "distinct (map fst es) \<Longrightarrow> distinct (map fst (delete_key k es))"
  by (simp add: delete_key_def distinct_map_filter)

lemma length_delete:
  assumes "distinct (map fst es)"
  shows "length (delete_key k es) = length es - (if k \<in> fst ` set es then 1 else 0)"
proof -
  have len: "length xs = card (fst ` set xs)" if "distinct (map fst xs)" for xs :: "(string \<times> 'a) list"
    using distinct_card [OF that] by simp
  show ?thesis unfolding len [OF assms] len [OF distinct_delete [OF assms]] by simp
qed

lemma lookup_iff: "distinct (map fst es) \<Longrightarrow> lookup_key k es = Some e \<longleftrightarrow> (k, e) \<in> set es"
  by (simp add: lookup_key_def)

lemma lookup_one: "distinct (map fst es) \<Longrightarrow> lookup_key k es = Some e \<Longrightarrow> (k, e') \<in> set es \<Longrightarrow> e' = e"
  by (simp add: lookup_iff) (metis eq_key_imp_eq_value)

lemma prune_loop_filter:
  "fst (prune_loop now es o') = filter (\<lambda>x. busy now (snd x) \<or> time_sub now (lastFailure (snd x)) \<le> limiterIdleAfter) es"
proof (induction es arbitrary: o')
  case (Cons x es)
  then show ?case by (cases x) (simp add: Let_def split_def)
qed simp

text \<open>The victim is an idle entry, and there is one unless every kept entry is busy.\<close>

lemma prune_loop_oldest:
  "snd (prune_loop now es o') = Some (k, t) \<Longrightarrow> o' = Some (k, t) \<or> (\<exists>e. (k, e) \<in> set es \<and> \<not> busy now e)"
proof (induction es arbitrary: o')
  case (Cons x es)
  obtain j e where x: "x = (j, e)" by (cases x)
  show ?case
  proof (cases "busy now e \<or> time_sub now (lastFailure e) > limiterIdleAfter")
    case True
    then have "snd (prune_loop now es o') = Some (k, t)"
      using Cons.prems by (auto simp: x Let_def split_def split: if_split_asm)
    from Cons.IH [OF this] show ?thesis by auto
  next
    case False
    let ?o = "case o' of None \<Rightarrow> Some (j, lastFailure e) | Some (k', t) \<Rightarrow> if lastFailure e < t then Some (j, lastFailure e) else o'"
    have "snd (prune_loop now es ?o) = Some (k, t)" using Cons.prems False by (simp add: x Let_def split_def)
    from Cons.IH [OF this] False show ?thesis by (auto simp: x split: option.split_asm if_split_asm)
  qed
qed simp

lemma prune_loop_none:
  "snd (prune_loop now es o') = None \<Longrightarrow> o' = None \<and> (\<forall>x\<in>set (fst (prune_loop now es o')). busy now (snd x))"
proof (induction es arbitrary: o')
  case (Cons x es)
  obtain j e where x: "x = (j, e)" by (cases x)
  show ?case
  proof (cases "busy now e \<or> time_sub now (lastFailure e) > limiterIdleAfter")
    case True
    then have "snd (prune_loop now es o') = None"
      using Cons.prems by (auto simp: x Let_def split_def split: if_split_asm)
    from Cons.IH [OF this] True show ?thesis by (auto simp: x Let_def split_def)
  next
    case False
    let ?o = "case o' of None \<Rightarrow> Some (j, lastFailure e) | Some (k', t) \<Rightarrow> if lastFailure e < t then Some (j, lastFailure e) else o'"
    have "snd (prune_loop now es ?o) = None" using Cons.prems False by (simp add: x Let_def split_def)
    from Cons.IH [OF this] show ?thesis by (auto split: option.split_asm if_split_asm)
  qed
qed simp

section \<open>Steps\<close>

datatype limiter_op = Begin string time | End string | Failure string time | Success string

fun limiter_exec :: "limiter_op \<Rightarrow> attemptLimiter \<Rightarrow> attemptLimiter" where
  "limiter_exec (Begin k t) l = fst (limiter_begin l k t)"
| "limiter_exec (End k) l = limiter_end l k"
| "limiter_exec (Failure k t) l = recordFailure l k t"
| "limiter_exec (Success k) l = recordSuccess l k"

fun op_time :: "limiter_op \<Rightarrow> time option" where
  "op_time (Begin k t) = Some t"
| "op_time (Failure k t) = Some t"
| "op_time _ = None"

inductive limiter_step :: "limiter_op \<Rightarrow> attemptLimiter \<Rightarrow> attemptLimiter \<Rightarrow> bool" where
  "mset es = mset (entries l) \<Longrightarrow> limiter_step op l (limiter_exec op (l\<lparr>entries := es\<rparr>))"

inductive_cases limiter_stepE: "limiter_step op l l'"

definition entry_ok :: "(int \<Rightarrow> int) \<Rightarrow> attemptEntry \<Rightarrow> bool" where
  "entry_ok b e \<longleftrightarrow> 0 \<le> inFlight e \<and> 0 \<le> consecutiveFailures e \<and> (inFlight e = 0 \<longrightarrow> consecutiveFailures e \<noteq> 0) \<and>
     blockedUntil e = (if consecutiveFailures e = 0 then zero_time else lastFailure e + b (consecutiveFailures e))"

text \<open>The invariant of a limiter: keys are unique and not empty, an entry without attempts in flight has failures, and
  the block of an entry is its backoff after its last failure.\<close>

definition limiter_inv :: "attemptLimiter \<Rightarrow> bool" where
  "limiter_inv l \<longleftrightarrow> distinct (map fst (entries l)) \<and> [] \<notin> fst ` set (entries l) \<and>
     (\<forall>x\<in>set (entries l). entry_ok (backoff l) (snd x))"

lemma limiter_inv_new [simp]: "limiter_inv (newAttemptLimiter b m)"
  by (simp add: limiter_inv_def newAttemptLimiter_def)

lemma limiter_inv_perm: "limiter_inv l \<Longrightarrow> mset es = mset (entries l) \<Longrightarrow> limiter_inv (l\<lparr>entries := es\<rparr>)"
  by (auto simp: limiter_inv_def dest: mset_eq_setD) (metis mset_eq_imp_distinct_iff mset_map)

lemma in_delete: "x \<in> set (delete_key k es) \<longleftrightarrow> x \<in> set es \<and> fst x \<noteq> k"
  by (auto simp: delete_key_def)

lemma in_update: "x \<in> set (update_key k f es) \<Longrightarrow> x \<in> set es \<or> (\<exists>e. (k, e) \<in> set es \<and> x = (k, f e))"
  by (auto simp: update_key_def split: if_split_asm)

lemma limiter_inv_delete: "limiter_inv l \<Longrightarrow> limiter_inv (l\<lparr>entries := delete_key k (entries l)\<rparr>)"
  by (auto simp: limiter_inv_def distinct_delete in_delete)

lemma limiter_inv_update:
  assumes "limiter_inv l" "\<And>e. (k, e) \<in> set (entries l) \<Longrightarrow> entry_ok (backoff l) e \<Longrightarrow> entry_ok (backoff l) (f e)"
  shows "limiter_inv (l\<lparr>entries := update_key k f (entries l)\<rparr>)"
proof -
  have "fst ` set (update_key k f (entries l)) = fst ` set (entries l)" by (metis keys_update list.set_map)
  moreover have "entry_ok (backoff l) (snd x)" if "x \<in> set (update_key k f (entries l))" for x
    using in_update [OF that] assms unfolding limiter_inv_def by fastforce
  ultimately show ?thesis using assms(1) by (simp add: limiter_inv_def)
qed

definition pruned_entries :: "attemptLimiter \<Rightarrow> time \<Rightarrow> (string \<times> attemptEntry) list" where
  "pruned_entries l now = (if length (entries l) \<ge> maxLimiterEntries
     then (let (kept, oldest) = prune_loop now (entries l) None
           in if length kept \<ge> maxLimiterEntries then (case oldest of None \<Rightarrow> kept | Some (k, _) \<Rightarrow> delete_key k kept) else kept)
     else entries l)"

lemma limiter_insert_eq: "limiter_insert l key e now = l\<lparr>entries := delete_key key (pruned_entries l now) @ [(key, e)]\<rparr>"
  by (simp add: limiter_insert_def pruned_entries_def)

lemma pruned_entries_ok:
  assumes "distinct (map fst (entries l))"
  shows "distinct (map fst (pruned_entries l now))" "set (pruned_entries l now) \<subseteq> set (entries l)"
    "length (pruned_entries l now) \<le> length (entries l)"
  using assms
  by (auto simp: pruned_entries_def Let_def split_def prune_loop_filter distinct_delete distinct_map_filter in_delete
      delete_key_def intro: order_trans [OF length_filter_le] split: option.split)

lemma pruned_keeps_busy:
  assumes d: "distinct (map fst (entries l))" and e: "(k, e) \<in> set (entries l)" "busy now e"
  shows "(k, e) \<in> set (pruned_entries l now)"
proof -
  let ?p = "prune_loop now (entries l) None"
  have "(k, e) \<in> set (fst ?p)" using e by (simp add: prune_loop_filter)
  moreover have "j \<noteq> k" if "snd ?p = Some (j, t)" for j t
  proof
    assume "j = k"
    with prune_loop_oldest [OF that] obtain e' where "(k, e') \<in> set (entries l)" "\<not> busy now e'" by auto
    with e d show False by (metis eq_key_imp_eq_value)
  qed
  ultimately show ?thesis using e
    by (auto simp: pruned_entries_def Let_def split_def in_delete split: option.split)
qed

lemma pruned_bounded:
  assumes d: "distinct (map fst (entries l))"
  shows "length (pruned_entries l now) < maxLimiterEntries \<or> length (pruned_entries l now) < length (entries l) \<or>
    (\<forall>x\<in>set (entries l). busy now (snd x)) \<and> length (entries l) \<ge> maxLimiterEntries"
proof (cases "length (entries l) \<ge> maxLimiterEntries")
  case True
  let ?p = "prune_loop now (entries l) None"
  have sub: "length (fst ?p) \<le> length (entries l)" by (simp add: prune_loop_filter)
  have dp: "distinct (map fst (fst ?p))" using d by (simp add: prune_loop_filter distinct_map_filter)
  show ?thesis
  proof (cases "length (fst ?p) \<ge> maxLimiterEntries")
    case full: True
    show ?thesis
    proof (cases "snd ?p")
      case None
      from prune_loop_none [OF None] have all: "\<forall>x\<in>set (fst ?p). busy now (snd x)" by blast
      show ?thesis
      proof (cases "length (fst ?p) = length (entries l)")
        case same: True
        let ?keep = "\<lambda>x :: string \<times> attemptEntry. busy now (snd x) \<or> time_sub now (lastFailure (snd x)) \<le> limiterIdleAfter"
        from same have "\<forall>x\<in>set (entries l). ?keep x" unfolding prune_loop_filter
          using length_filter_less [of _ "entries l" ?keep] by (metis (no_types) less_irrefl)
        then have "fst ?p = entries l" unfolding prune_loop_filter by (rule filter_True)
        with all True show ?thesis by simp
      next
        case False
        with sub True full None show ?thesis by (simp add: pruned_entries_def Let_def split_def)
      qed
    next
      case (Some y)
      obtain j t where y: "y = (j, t)" by (cases y)
      have "length (delete_key j (fst ?p)) < length (entries l)"
      proof (cases "j \<in> fst ` set (fst ?p)")
        case in_kept: True
        then have "0 < length (fst ?p)" by (cases "fst ?p") auto
        moreover have "length (delete_key j (fst ?p)) = length (fst ?p) - 1" using in_kept by (simp add: length_delete [OF dp])
        ultimately show ?thesis using sub by linarith
      next
        case False
        with prune_loop_oldest [of now "entries l" None j t] Some y obtain e where e: "(j, e) \<in> set (entries l)" by auto
        with False have "(j, e) \<notin> set (fst ?p)" by force
        let ?keep = "\<lambda>x :: string \<times> attemptEntry. busy now (snd x) \<or> time_sub now (lastFailure (snd x)) \<le> limiterIdleAfter"
        from e \<open>(j, e) \<notin> set (fst ?p)\<close> have "\<not> ?keep (j, e)" by (simp add: prune_loop_filter)
        then have "length (fst ?p) < length (entries l)" unfolding prune_loop_filter by (rule length_filter_less [OF e])
        moreover have "length (delete_key j (fst ?p)) \<le> length (fst ?p)" by (simp add: delete_key_def)
        ultimately show ?thesis by linarith
      qed
      with True full Some y show ?thesis by (simp add: pruned_entries_def Let_def split_def)
    qed
  next
    case False
    with True show ?thesis by (simp add: pruned_entries_def Let_def split_def)
  qed
qed (simp add: pruned_entries_def)

section \<open>Operations keep the invariant\<close>

lemma entry_ok_empty [simp]: "entry_ok b (emptyEntry\<lparr>inFlight := 1\<rparr>)"
  by (simp add: entry_ok_def emptyEntry_def)

lemma entry_ok_failed: "entry_ok b e \<or> e = emptyEntry \<Longrightarrow> entry_ok b (failed_entry b t e)"
  by (auto simp: entry_ok_def failed_entry_def emptyEntry_def)

lemma limiter_inv_insert:
  assumes inv: "limiter_inv l" and k: "k \<noteq> []" and e: "entry_ok (backoff l) e"
  shows "limiter_inv (limiter_insert l k e t)"
proof -
  have d: "distinct (map fst (entries l))" using inv by (simp add: limiter_inv_def)
  note P = pruned_entries_ok [OF d, of t]
  have "fst ` set (delete_key k (pruned_entries l t)) \<subseteq> fst ` set (entries l) - {k}" using P(2) by auto
  moreover have "\<forall>x\<in>set (delete_key k (pruned_entries l t)). entry_ok (backoff l) (snd x)"
    using P(2) inv by (auto simp: in_delete limiter_inv_def)
  ultimately show ?thesis using inv k e
    by (auto simp: limiter_insert_eq limiter_inv_def distinct_delete [OF P(1)])
qed

lemma limiter_exec_inv:
  assumes inv: "limiter_inv l"
  shows "limiter_inv (limiter_exec op l)"
proof (cases op)
  case (Begin k t)
  have "limiter_inv (l\<lparr>entries := update_key k (\<lambda>e. e\<lparr>inFlight := inFlight e + 1\<rparr>) (entries l)\<rparr>)"
    by (rule limiter_inv_update [OF inv]) (simp add: entry_ok_def)
  with inv limiter_inv_insert [OF inv, of k _ t] show ?thesis
    by (auto simp: Begin limiter_begin_def split: option.split)
next
  case (End k)
  show ?thesis
  proof (cases "lookup_key k (entries l)")
    case (Some e)
    let ?n = "if inFlight e > 0 then inFlight e - 1 else inFlight e"
    have one: "e' = e" if "(k, e') \<in> set (entries l)" for e'
      using lookup_one [OF _ Some that] inv by (simp add: limiter_inv_def)
    have "limiter_inv (l\<lparr>entries := update_key k (\<lambda>e. e\<lparr>inFlight := ?n\<rparr>) (entries l)\<rparr>)"
      if "\<not> (?n = 0 \<and> consecutiveFailures e = 0)"
      by (rule limiter_inv_update [OF inv]) (use that one in \<open>auto simp: entry_ok_def split: if_split_asm\<close>)
    with Some inv limiter_inv_delete [OF inv] show ?thesis by (simp add: End limiter_end_def Let_def)
  qed (simp add: End limiter_end_def inv)
next
  case (Failure k t)
  have "limiter_inv (l\<lparr>entries := update_key k (failed_entry (backoff l) t) (entries l)\<rparr>)"
    by (rule limiter_inv_update [OF inv]) (simp add: entry_ok_failed)
  with inv limiter_inv_insert [OF inv, of k _ t] show ?thesis
    by (auto simp: Failure recordFailure_def entry_ok_failed split: option.split)
next
  case (Success k)
  show ?thesis
  proof (cases "lookup_key k (entries l)")
    case (Some e)
    have one: "e' = e" if "(k, e') \<in> set (entries l)" for e'
      using lookup_one [OF _ Some that] inv by (simp add: limiter_inv_def)
    have "limiter_inv (l\<lparr>entries := update_key k (\<lambda>e. e\<lparr>consecutiveFailures := 0, blockedUntil := zero_time\<rparr>) (entries l)\<rparr>)"
      if "inFlight e \<noteq> 0"
      by (rule limiter_inv_update [OF inv]) (use that one in \<open>auto simp: entry_ok_def\<close>)
    with Some inv limiter_inv_delete [OF inv] show ?thesis by (simp add: Success recordSuccess_def)
  qed (simp add: Success recordSuccess_def inv)
qed

lemma limiter_backoff [simp]: "backoff (limiter_exec op l) = backoff l"
  by (cases op) (auto simp: limiter_begin_def limiter_end_def recordFailure_def recordSuccess_def limiter_insert_eq Let_def split: option.split)

section \<open>A throttled key stays throttled\<close>

text \<open>Key \<open>k\<close> failed \<open>n\<close> times in a row, last at \<open>t0\<close>: it is blocked for \<open>B n\<close> from then.\<close>

definition throttled :: "(int \<Rightarrow> int) \<Rightarrow> string \<Rightarrow> int \<Rightarrow> time \<Rightarrow> attemptLimiter \<Rightarrow> bool" where
  "throttled B k n t0 l \<longleftrightarrow> backoff l = B \<and>
     (\<exists>e. lookup_key k (entries l) = Some e \<and> n \<le> consecutiveFailures e \<and> t0 + B n \<le> blockedUntil e)"

definition during :: "(int \<Rightarrow> int) \<Rightarrow> string \<Rightarrow> int \<Rightarrow> time \<Rightarrow> limiter_op \<Rightarrow> bool" where
  "during B k n t0 op \<longleftrightarrow> op \<noteq> Success k \<and> (case op_time op of None \<Rightarrow> True | Some t \<Rightarrow> t0 \<le> t \<and> t < t0 + B n)"

lemma throttled_insert:
  assumes inv: "limiter_inv l" and th: "throttled B k n t0 l" and t: "t < t0 + B n" and j: "lookup_key j (entries l) = None"
  shows "throttled B k n t0 (limiter_insert l j x t)"
proof -
  have d: "distinct (map fst (entries l))" using inv by (simp add: limiter_inv_def)
  from th obtain e where e: "lookup_key k (entries l) = Some e" "n \<le> consecutiveFailures e" "t0 + B n \<le> blockedUntil e"
    by (auto simp: throttled_def)
  then have "(k, e) \<in> set (pruned_entries l t)"
    using t by (intro pruned_keeps_busy [OF d]) (simp_all add: lookup_iff [OF d] busy_def)
  moreover have "k \<noteq> j" using e j by auto
  ultimately have "(k, e) \<in> set (delete_key j (pruned_entries l t) @ [(j, x)])" by (simp add: in_delete)
  moreover have "distinct (map fst (delete_key j (pruned_entries l t) @ [(j, x)]))"
    using pruned_entries_ok(1) [OF d] by (simp add: distinct_delete)
  ultimately have "lookup_key k (entries (limiter_insert l j x t)) = Some e"
    by (simp add: limiter_insert_eq lookup_iff)
  with th e show ?thesis by (auto simp: throttled_def limiter_insert_eq)
qed

lemma throttled_exec:
  assumes inv: "limiter_inv l" and th: "throttled B k n t0 l" and ok: "during B k n t0 op" and n: "1 \<le> n" and B: "mono B"
  shows "throttled B k n t0 (limiter_exec op l)"
proof -
  from th obtain e where e: "lookup_key k (entries l) = Some e" "n \<le> consecutiveFailures e" "t0 + B n \<le> blockedUntil e"
    and b: "backoff l = B" by (auto simp: throttled_def)
  show ?thesis
  proof (cases op)
    case (Begin j t)
    with ok have t: "t < t0 + B n" by (simp add: during_def)
    show ?thesis
    proof (cases "lookup_key j (entries l)")
      case None
      with throttled_insert [OF inv th t None] th show ?thesis by (simp add: Begin limiter_begin_def)
    next
      case (Some e')
      have "throttled B k n t0 (l\<lparr>entries := update_key j (\<lambda>e. e\<lparr>inFlight := inFlight e + 1\<rparr>) (entries l)\<rparr>)"
        using e b by (auto simp: throttled_def)
      with Some th show ?thesis by (simp add: Begin limiter_begin_def)
    qed
  next
    case (End j)
    show ?thesis
    proof (cases "lookup_key j (entries l)")
      case (Some e')
      have "throttled B k n t0 (l\<lparr>entries := update_key j (\<lambda>e. e\<lparr>inFlight := m\<rparr>) (entries l)\<rparr>)" for m
        using e b by (auto simp: throttled_def)
      moreover have "j = k \<Longrightarrow> consecutiveFailures e' \<noteq> 0" using Some e n by auto
      then have "throttled B k n t0 (l\<lparr>entries := delete_key j (entries l)\<rparr>)" if "consecutiveFailures e' = 0"
        using that e b by (auto simp: throttled_def)
      ultimately show ?thesis using Some th by (simp add: End limiter_end_def Let_def)
    qed (simp add: End limiter_end_def th)
  next
    case (Failure j t)
    with ok have t: "t0 \<le> t" "t < t0 + B n" by (simp_all add: during_def)
    show ?thesis
    proof (cases "lookup_key j (entries l)")
      case None
      with throttled_insert [OF inv th t(2) None] th show ?thesis by (simp add: Failure recordFailure_def)
    next
      case (Some e')
      have "B n \<le> B (consecutiveFailures e + 1)" using e(2) by (intro monoD [OF B]) simp
      with t(1) have "t0 + B n \<le> t + B (consecutiveFailures e + 1)" by linarith
      then have "throttled B k n t0 (l\<lparr>entries := update_key j (failed_entry B t) (entries l)\<rparr>)"
        using e b by (auto simp: throttled_def failed_entry_def)
      with Some th show ?thesis by (simp add: Failure recordFailure_def b)
    qed
  next
    case (Success j)
    with ok have j: "j \<noteq> k" by (simp add: during_def)
    have "throttled B k n t0 (l\<lparr>entries := delete_key j (entries l)\<rparr>)"
      "throttled B k n t0 (l\<lparr>entries := update_key j (\<lambda>e. e\<lparr>consecutiveFailures := 0, blockedUntil := zero_time\<rparr>) (entries l)\<rparr>)"
      using j e b by (auto simp: throttled_def)
    with th show ?thesis by (simp add: Success recordSuccess_def split: option.split)
  qed
qed

lemma throttled_perm: "throttled B k n t0 l \<Longrightarrow> limiter_inv l \<Longrightarrow> mset es = mset (entries l) \<Longrightarrow> throttled B k n t0 (l\<lparr>entries := es\<rparr>)"
proof -
  assume th: "throttled B k n t0 l" and inv: "limiter_inv l" and es: "mset es = mset (entries l)"
  have d: "distinct (map fst (entries l))" "distinct (map fst es)"
    using inv limiter_inv_perm [OF inv es] by (simp_all add: limiter_inv_def)
  have "lookup_key k es = lookup_key k (entries l)"
    using mset_eq_setD [OF es] lookup_iff [OF d(1), of k] lookup_iff [OF d(2), of k] by (metis not_Some_eq)
  with th show ?thesis by (simp add: throttled_def)
qed

interpretation limiter: stable limiter_step limiter_inv "during B k n t0" "\<lambda>l. throttled B k n t0 l \<and> 1 \<le> n \<and> mono B" for B k n t0
proof
  show "limiter_inv l'" if "limiter_inv l" "limiter_step op l l'" for l op l'
    using that(2) by cases (simp add: limiter_exec_inv limiter_inv_perm that(1))
  fix l op l' assume inv: "limiter_inv l" and f: "throttled B k n t0 l \<and> 1 \<le> n \<and> mono B" and ok: "during B k n t0 op"
    and st: "limiter_step op l l'"
  from st show "throttled B k n t0 l' \<and> 1 \<le> n \<and> mono B"
  proof cases
    case (1 es)
    note inv' = limiter_inv_perm [OF inv 1(2)] and th' = throttled_perm [OF _ inv 1(2)]
    from f throttled_exec [OF inv' th' ok] show ?thesis by (simp add: 1(1))
  qed
qed

section \<open>The properties\<close>

text \<open>C29: A throttled key stays throttled: once a user name or address has failed \<open>n\<close> times in a row, no attempt
  for it is admitted until the backoff for \<open>n\<close> failures is over - whatever attempts for other keys begin, fail,
  succeed and end meanwhile, however full the table is and in whatever order Go walks it. Only a success for
  the same key lifts the block.\<close>

theorem throttle_holds:
  assumes inv: "limiter_inv l" and b: "backoff l \<in> {loginBackoff, accountBackoff, addressBackoff}"
    and e: "lookup_key k (entries l) = Some e" "consecutiveFailures e = n" "1 \<le> n" "lastFailure e = t0"
    and run: "runs limiter_step ops l l'" and quiet: "\<forall>op\<in>set ops. during (backoff l) k n t0 op"
    and t: "t < t0 + backoff l n"
  shows "limiter_begin l' k t = (l', False)"
proof -
  let ?B = "backoff l"
  have d: "distinct (map fst (entries l))" using inv by (simp add: limiter_inv_def)
  have mono: "mono ?B" using b backoffs_mono by (auto simp: mono_def)
  from lookup_iff [OF d] e(1) inv have "entry_ok ?B e" "k \<noteq> []" by (force simp: limiter_inv_def)+
  with e have "throttled ?B k n t0 l" by (simp add: throttled_def entry_ok_def)
  with limiter.fact_runs [OF run inv _ quiet] e(3) mono have "throttled ?B k n t0 l'" by blast
  with t \<open>k \<noteq> []\<close> show ?thesis by (auto simp: throttled_def limiter_begin_def)
qed

text \<open>The table is bounded: an attempt makes a table of \<open>maxLimiterEntries\<close> or more keys larger only if every
  single key in it is blocked or has an attempt in flight at that moment; then it grows by one.\<close>

theorem limiter_bounded:
  assumes inv: "limiter_inv l" and st: "limiter_step op l l'"
  shows "limiter_size l' \<le> max maxLimiterEntries (limiter_size l) \<or>
    limiter_size l' = limiter_size l + 1 \<and> (\<exists>t. op_time op = Some t \<and> (\<forall>x\<in>set (entries l). busy t (snd x)))"
  using st
proof cases
  case (1 es)
  let ?l = "l\<lparr>entries := es\<rparr>"
  have inv': "limiter_inv ?l" and len: "length es = length (entries l)" and set: "set es = set (entries l)"
    using limiter_inv_perm [OF inv 1(2)] mset_eq_length [OF 1(2)] mset_eq_setD [OF 1(2)] by simp_all
  have d: "distinct (map fst (entries ?l))" using inv' by (simp add: limiter_inv_def)
  have ins: "limiter_size (limiter_insert ?l k x t) \<le> max maxLimiterEntries (limiter_size l) \<or>
    limiter_size (limiter_insert ?l k x t) = limiter_size l + 1 \<and> (\<forall>x\<in>set (entries l). busy t (snd x))" for k x t
  proof -
    have "length (delete_key k (pruned_entries ?l t)) \<le> length (pruned_entries ?l t)" by (simp add: delete_key_def)
    with pruned_bounded [OF d, of t] pruned_entries_ok(3) [OF d, of t] show ?thesis
      by (auto simp: limiter_size_def limiter_insert_eq len set)
  qed
  have smaller: "length (update_key k f es) = length (entries l)" "length (delete_key k es) \<le> length (entries l)"
    for k and f :: "attemptEntry \<Rightarrow> attemptEntry" using len by (simp_all add: update_key_def) (simp add: delete_key_def flip: len)
  show ?thesis
  proof (cases op)
    case (Begin k t)
    with ins [of k _ t] smaller len show ?thesis
      by (auto simp: 1(1) limiter_begin_def limiter_size_def le_max_iff_disj split: option.split)
  next
    case (End k)
    with smaller len show ?thesis
      by (auto simp: 1(1) limiter_end_def limiter_size_def le_max_iff_disj Let_def split: option.split)
  next
    case (Failure k t)
    with ins [of k _ t] smaller len show ?thesis
      by (auto simp: 1(1) recordFailure_def limiter_size_def le_max_iff_disj split: option.split)
  next
    case (Success k)
    with smaller len show ?thesis
      by (auto simp: 1(1) recordSuccess_def limiter_size_def le_max_iff_disj split: option.split)
  qed
qed

section \<open>A run\<close>

text \<open>Three failed guesses for \<open>bob\<close>, then an attempt for \<open>eve\<close>, within the second.\<close>

definition demo_entry :: attemptEntry where
  "demo_entry = \<lparr>consecutiveFailures = 3, blockedUntil = 5 + second, lastFailure = 5, inFlight = 0\<rparr>"

definition demo_limiter :: attemptLimiter where
  "demo_limiter = \<lparr>entries = [(''bob'', demo_entry)],
     backoff = loginBackoff, maxInFlight = 1\<rparr>"

lemma demo_limiter_inv: "limiter_inv demo_limiter"
  by (simp add: limiter_inv_def demo_limiter_def demo_entry_def entry_ok_def backoff_defs)

lemma demo_limiter_step: "limiter_step op l (limiter_exec op l)"
  using limiter_step.intros [of "entries l" l op] by simp

theorem throttle_holds_witness:
  "limiter_begin (limiter_exec (Begin ''eve'' 6) demo_limiter) ''bob'' 7 = (limiter_exec (Begin ''eve'' 6) demo_limiter, False)"
proof -
  have e: "lookup_key ''bob'' (entries demo_limiter) = Some demo_entry" "consecutiveFailures demo_entry = 3" "(1 :: int) \<le> 3"
    "lastFailure demo_entry = 5" "backoff demo_limiter \<in> {loginBackoff, accountBackoff, addressBackoff}"
    by (simp_all add: demo_limiter_def demo_entry_def lookup_key_def)
  have run: "runs limiter_step [Begin ''eve'' 6] demo_limiter (limiter_exec (Begin ''eve'' 6) demo_limiter)"
    using demo_limiter_step [of "Begin ''eve'' 6" demo_limiter] by simp
  show ?thesis
    by (rule throttle_holds [OF demo_limiter_inv e(5,1-4) run]) (simp_all add: during_def demo_limiter_def backoff_defs)
qed

theorem limiter_bounded_witness: "limiter_size (limiter_exec (Begin ''eve'' 6) demo_limiter) \<le> maxLimiterEntries"
  using limiter_bounded [OF demo_limiter_inv demo_limiter_step, of "Begin ''eve'' 6"]
  by (simp add: limiter_size_def demo_limiter_def maxLimiterEntries_def limiter_begin_def lookup_key_def limiter_insert_def delete_key_def)

end
