(* ===== verification/HB_Session.thy ===== *)
theory HB_Session
  imports HB_Auth HB_Limiter
begin

text \<open>
  Sign-in, sessions and devices (internal/auth/session.go). \<open>AuthService\<close> holds what the Go \<open>Service\<close> is
  configured with: Argon2id, the token hash (SHA-256, a parameter), the uuid package, the limit on accounts, the
  lifetime of an access token and the hash checked for unknown names. \<open>auth_state\<close> is the database with the three limiters. The random bytes and
  UUIDs a session draws are an argument (\<open>TokenDraws\<close>).

  \<open>Login\<close> runs in phases that other requests may interleave with: \<open>login_admit\<close> (the limiters), \<open>login_lookup\<close>
  and the password check on the database of that moment, then \<open>Login_tx\<close>, a transaction that checks the account
  again, and \<open>login_release\<close>.
\<close>

section \<open>Data\<close>

definition refreshTokenTTL :: int where "refreshTokenTTL = 30 * 24 * 60 * minute"
definition refreshRetryGrace :: int where "refreshRetryGrace = minute"
definition recordSyncInterval :: int where "recordSyncInterval = minute"

record AuthService =
  as_argon :: argon_pkg
  as_hash :: "string \<Rightarrow> bytes"
  as_uuid :: uuid_pkg
  as_maxUsers :: int
  as_accessTokenTTL :: int
  as_dummyPasswordHash :: string

record auth_state =
  au_db :: db
  au_login :: attemptLimiter
  au_account :: attemptLimiter
  au_address :: attemptLimiter

record TokenDraws =
  td_access :: bytes
  td_refresh :: bytes
  td_refreshTokenID :: id
  td_accessTokenID :: id

record DeviceRegistration =
  reg_ID :: id
  reg_Name :: string
  reg_Platform :: string
  reg_PublicKey :: bytes
  reg_KeyVersion :: int

record Device =
  dev_ID :: id
  dev_UserID :: id
  dev_Name :: string
  dev_Platform :: string
  dev_PublicKey :: bytes
  dev_KeyVersion :: int
  dev_CreatedAt :: time
  dev_LastSeenAt :: time
  dev_LastSyncAt :: "time option"
  dev_RevokedAt :: "time option"

record ShareableDevice =
  sd_ID :: id
  sd_Platform :: string
  sd_PublicKey :: bytes
  sd_KeyVersion :: int

record AuthSession =
  ses_User :: User
  ses_Device :: Device
  ses_AccessToken :: string
  ses_AccessTokenExpiresAt :: time
  ses_RefreshToken :: string
  ses_RefreshTokenExpiresAt :: time
  ses_refreshTokenID :: id
  ses_accessTokenID :: id

definition maxConcurrentAttemptsPerAddress :: int where "maxConcurrentAttemptsPerAddress = 4"
definition maxConcurrentAttemptsPerAccount :: int where "maxConcurrentAttemptsPerAccount = 4"

definition initial_limiters :: "db \<Rightarrow> auth_state" where
  "initial_limiters s = \<lparr>au_db = s, au_login = newAttemptLimiter loginBackoff 1,
     au_account = newAttemptLimiter accountBackoff maxConcurrentAttemptsPerAccount,
     au_address = newAttemptLimiter addressBackoff maxConcurrentAttemptsPerAddress\<rparr>"

section \<open>Devices\<close>

definition scanDevice :: "device_row \<Rightarrow> Device" where
  "scanDevice d = \<lparr>dev_ID = d_id d, dev_UserID = d_user_id d, dev_Name = d_name d, dev_Platform = d_platform d,
     dev_PublicKey = d_e2ee_public_key d, dev_KeyVersion = d_e2ee_key_version d, dev_CreatedAt = d_created_at d,
     dev_LastSeenAt = d_last_seen_at d, dev_LastSyncAt = d_last_sync_at d, dev_RevokedAt = d_revoked_at d\<rparr>"

definition device_of :: "db \<Rightarrow> id \<Rightarrow> id \<Rightarrow> device_row option" where
  "device_of s deviceID userID = find (\<lambda>d. d_id d = deviceID \<and> d_user_id d = userID) (devices s)"

definition loadDevice :: "db \<Rightarrow> id \<Rightarrow> id \<Rightarrow> err + Device" where
  "loadDevice s deviceID userID =
     (case device_of s deviceID userID of None \<Rightarrow> Inl AuthTokenInvalid | Some d \<Rightarrow> Inr (scanDevice d))"

definition GetDevice :: "db \<Rightarrow> id \<Rightarrow> id \<Rightarrow> err + Device" where
  "GetDevice s userID deviceID =
     (case device_of s deviceID userID of None \<Rightarrow> Inl AuthNotFound | Some d \<Rightarrow> Inr (scanDevice d))"

definition user_of :: "db \<Rightarrow> id \<Rightarrow> user_row option" where
  "user_of s i = find (\<lambda>u. u_id u = i) (users s)"

definition scanUser :: "user_row \<Rightarrow> User" where
  "scanUser u = \<lparr>usr_ID = u_id u, usr_Username = u_username u, usr_Role = u_role u\<rparr>"

definition GetUser :: "db \<Rightarrow> id \<Rightarrow> err + User" where
  "GetUser s i = (case user_of s i of None \<Rightarrow> Inl AuthNotFound | Some u \<Rightarrow> Inr (scanUser u))"

definition ListDevices :: "db \<Rightarrow> id \<Rightarrow> Device list" where
  "ListDevices s userID = map scanDevice (sort_key (\<lambda>d. stamp (d_created_at d)) (filter (\<lambda>d. d_user_id d = userID) (devices s)))"

definition ListShareableDevices :: "db \<Rightarrow> id \<Rightarrow> ShareableDevice list" where
  "ListShareableDevices s userID =
     map (\<lambda>d. \<lparr>sd_ID = d_id d, sd_Platform = d_platform d, sd_PublicKey = d_e2ee_public_key d, sd_KeyVersion = d_e2ee_key_version d\<rparr>)
       (sort_key (\<lambda>d. stamp (d_created_at d)) (concat (map (\<lambda>d. map (\<lambda>_. d)
         (filter (\<lambda>u. u_id u = d_user_id d \<and> d_user_id d = userID \<and> d_revoked_at d = None \<and> u_status u = ''ACTIVE'') (users s))) (devices s))))"

definition validateDeviceRegistration :: "uuid_pkg \<Rightarrow> DeviceRegistration \<Rightarrow> err + unit" where
  "validateDeviceRegistration U d =
     (if (case uuid_Parse U (reg_ID d) of None \<Rightarrow> True | Some p \<Rightarrow> uuid_String U p \<noteq> reg_ID d)
      then Inl (Validation ''device id must be a valid UUID'')
      else if length (reg_Name d) = 0 \<or> length (reg_Name d) > 128
      then Inl (Validation ''device name must contain 1 to 128 characters'')
      else if reg_Platform d \<noteq> ''WINDOWS'' \<and> reg_Platform d \<noteq> ''ANDROID'' \<and> reg_Platform d \<noteq> ''OTHER''
      then Inl (Validation ''device platform must be WINDOWS, ANDROID, or OTHER'')
      else if length (reg_PublicKey d) = 0 \<or> length (reg_PublicKey d) > 4096
      then Inl (Validation ''device public key is required'')
      else if reg_KeyVersion d < 1
      then Inl (Validation ''device key version must be at least 1'')
      else Inr ())"

definition upsertDevice :: "time \<Rightarrow> db \<Rightarrow> id \<Rightarrow> DeviceRegistration \<Rightarrow> err + Device \<times> db" where
  "upsertDevice now s userID reg =
     (case loadDevice s (reg_ID reg) userID of
        Inl _ \<Rightarrow>
          if count_rows (\<lambda>d. d_id d = reg_ID reg \<and> d_user_id d \<noteq> userID) (devices s) > 0 then Inl AuthDeviceConflict
          else Inr (\<lparr>dev_ID = reg_ID reg, dev_UserID = userID, dev_Name = reg_Name reg, dev_Platform = reg_Platform reg,
                 dev_PublicKey = reg_PublicKey reg, dev_KeyVersion = reg_KeyVersion reg, dev_CreatedAt = now, dev_LastSeenAt = now,
                 dev_LastSyncAt = None, dev_RevokedAt = None\<rparr>,
               s\<lparr>devices := devices s @ [\<lparr>d_id = reg_ID reg, d_user_id = userID, d_name = reg_Name reg, d_platform = reg_Platform reg,
                 d_e2ee_public_key = reg_PublicKey reg, d_e2ee_key_version = reg_KeyVersion reg, d_created_at = now,
                 d_last_seen_at = now, d_last_sync_at = None, d_revoked_at = None\<rparr>]\<rparr>)
      | Inr existing \<Rightarrow>
          if dev_RevokedAt existing \<noteq> None then Inl AuthDeviceRevoked
          else if dev_PublicKey existing \<noteq> reg_PublicKey reg \<or> dev_KeyVersion existing \<noteq> reg_KeyVersion reg
          then Inl AuthDeviceConflict
          else Inr (existing\<lparr>dev_Name := reg_Name reg, dev_LastSeenAt := now\<rparr>,
               s\<lparr>devices := upd (\<lambda>d. d_id d = dev_ID existing) (\<lambda>d. d\<lparr>d_name := reg_Name reg, d_last_seen_at := now\<rparr>) (devices s)\<rparr>))"

section \<open>Tokens\<close>

definition randomToken :: "bytes \<Rightarrow> string" where
  "randomToken buf = b64_encode url_alphabet buf"

definition issueTokens :: "AuthService \<Rightarrow> TokenDraws \<Rightarrow> time \<Rightarrow> db \<Rightarrow> User \<Rightarrow> Device \<Rightarrow> err + AuthSession \<times> db" where
  "issueTokens svc draws now s user device =
     (let accessToken = randomToken (td_access draws);
          refreshToken = randomToken (td_refresh draws);
          accessExpires = now + as_accessTokenTTL svc;
          refreshExpires = now + refreshTokenTTL
      in if \<exists>a\<in>set (access_tokens s). at_id a = td_accessTokenID draws \<or> at_token_hash a = as_hash svc accessToken
         then Inl (Internal ''UNIQUE constraint failed: access_tokens'')
         else if \<exists>r\<in>set (refresh_tokens s). rt_id r = td_refreshTokenID draws
         then Inl (Internal ''UNIQUE constraint failed: refresh_tokens.id'')
         else Inr (\<lparr>ses_User = user, ses_Device = device, ses_AccessToken = accessToken, ses_AccessTokenExpiresAt = accessExpires,
                ses_RefreshToken = refreshToken, ses_RefreshTokenExpiresAt = refreshExpires,
                ses_refreshTokenID = td_refreshTokenID draws, ses_accessTokenID = td_accessTokenID draws\<rparr>,
              s\<lparr>access_tokens := access_tokens s @ [\<lparr>at_id = td_accessTokenID draws, at_user_id = usr_ID user, at_device_id = dev_ID device,
                  at_token_hash = as_hash svc accessToken, at_created_at = now, at_expires_at = accessExpires\<rparr>],
                refresh_tokens := refresh_tokens s @ [\<lparr>rt_id = td_refreshTokenID draws, rt_user_id = usr_ID user, rt_device_id = dev_ID device,
                  rt_token_hash = as_hash svc refreshToken, rt_created_at = now, rt_expires_at = refreshExpires,
                  rt_revoked_at = None, rt_rotated_to = None\<rparr>]\<rparr>))"

definition revokeDeviceTokens :: "db \<Rightarrow> id \<Rightarrow> time \<Rightarrow> db" where
  "revokeDeviceTokens s deviceID now =
     s\<lparr>refresh_tokens := upd (\<lambda>r. rt_device_id r = deviceID \<and> rt_revoked_at r = None) (\<lambda>r. r\<lparr>rt_revoked_at := Some now\<rparr>) (refresh_tokens s),
       access_tokens := del (\<lambda>a. at_device_id a = deviceID) (access_tokens s)\<rparr>"

section \<open>Login\<close>

definition attempt_key :: "string \<Rightarrow> string \<Rightarrow> string" where
  "attempt_key normalized clientAddr = normalized @ ''|'' @ clientAddr"

definition login_admit :: "auth_state \<Rightarrow> time \<Rightarrow> string \<Rightarrow> string \<Rightarrow> auth_state \<times> bool" where
  "login_admit st now clientAddr normalized =
     (let (a, ok) = limiter_begin (au_address st) clientAddr now
      in if \<not> ok then (st\<lparr>au_address := a\<rparr>, False)
         else let (c, ok) = limiter_begin (au_account st) normalized now
         in if \<not> ok then (st\<lparr>au_address := limiter_end a clientAddr, au_account := c\<rparr>, False)
            else let (l, ok) = limiter_begin (au_login st) (attempt_key normalized clientAddr) now
            in if \<not> ok then (st\<lparr>au_address := limiter_end a clientAddr, au_account := limiter_end c normalized, au_login := l\<rparr>, False)
               else (st\<lparr>au_address := a, au_account := c, au_login := l\<rparr>, True))"

definition login_release :: "auth_state \<Rightarrow> string \<Rightarrow> string \<Rightarrow> auth_state" where
  "login_release st clientAddr normalized =
     st\<lparr>au_login := limiter_end (au_login st) (attempt_key normalized clientAddr),
        au_account := limiter_end (au_account st) normalized,
        au_address := limiter_end (au_address st) clientAddr\<rparr>"

definition login_failed :: "auth_state \<Rightarrow> time \<Rightarrow> string \<Rightarrow> string \<Rightarrow> auth_state" where
  "login_failed st now clientAddr normalized =
     st\<lparr>au_login := recordFailure (au_login st) (attempt_key normalized clientAddr) now,
        au_account := recordFailure (au_account st) normalized now,
        au_address := recordFailure (au_address st) clientAddr now\<rparr>"

definition login_succeeded :: "auth_state \<Rightarrow> string \<Rightarrow> string \<Rightarrow> auth_state" where
  "login_succeeded st clientAddr normalized =
     st\<lparr>au_login := recordSuccess (au_login st) (attempt_key normalized clientAddr),
        au_account := recordSuccess (au_account st) normalized,
        au_address := recordSuccess (au_address st) clientAddr\<rparr>"

definition login_lookup :: "db \<Rightarrow> string \<Rightarrow> user_row option" where
  "login_lookup s normalized = find (\<lambda>u. u_username_norm u = normalized) (users s)"

definition Login_tx :: "AuthService \<Rightarrow> TokenDraws \<Rightarrow> time \<Rightarrow> db \<Rightarrow> User \<Rightarrow> string \<Rightarrow> DeviceRegistration \<Rightarrow> err + AuthSession \<times> db" where
  "Login_tx svc draws now s user passwordHash reg =
     (case user_of s (usr_ID user) of
        None \<Rightarrow> Inl AuthInvalidCredentials
      | Some current \<Rightarrow>
          if u_password_hash current \<noteq> passwordHash then Inl AuthInvalidCredentials
          else if u_status current \<noteq> ''ACTIVE'' then Inl AuthAccountDisabled
          else ebind (upsertDevice now s (usr_ID user) reg) (\<lambda>(dev, s1). issueTokens svc draws now s1 user dev))"

definition login_attempt :: "AuthService \<Rightarrow> TokenDraws \<Rightarrow> time \<Rightarrow> auth_state \<Rightarrow> string \<Rightarrow> string \<Rightarrow> string \<Rightarrow> DeviceRegistration \<Rightarrow>
    auth_state \<times> (err + AuthSession)" where
  "login_attempt svc draws now st clientAddr normalized password reg =
     (case login_lookup (au_db st) normalized of
        None \<Rightarrow> (let _ = VerifyPassword (as_argon svc) (as_dummyPasswordHash svc) password
                 in (login_failed st now clientAddr normalized, Inl AuthInvalidCredentials))
      | Some u \<Rightarrow>
          if \<not> VerifyPassword (as_argon svc) (u_password_hash u) password
          then (login_failed st now clientAddr normalized, Inl AuthInvalidCredentials)
          else if u_status u \<noteq> ''ACTIVE'' then (st, Inl AuthAccountDisabled)
          else (case Login_tx svc draws now (au_db st) (scanUser u) (u_password_hash u) reg of
              Inl e \<Rightarrow> (st, Inl e)
            | Inr (session, s') \<Rightarrow> (login_succeeded (st\<lparr>au_db := s'\<rparr>) clientAddr normalized, Inr session)))"

definition Login :: "AuthService \<Rightarrow> TokenDraws \<Rightarrow> time \<Rightarrow> auth_state \<Rightarrow> string \<Rightarrow> string \<Rightarrow> string \<Rightarrow> DeviceRegistration \<Rightarrow>
    auth_state \<times> (err + AuthSession)" where
  "Login svc draws now st clientAddr username password device =
     (case normalizeUsername username of
        Inl _ \<Rightarrow> (st, Inl AuthInvalidCredentials)
      | Inr (_, normalized) \<Rightarrow>
          (case validateDeviceRegistration (as_uuid svc) device of
             Inl e \<Rightarrow> (st, Inl e)
           | Inr _ \<Rightarrow>
               (let (st1, ok) = login_admit st now clientAddr normalized
                in if \<not> ok then (st1, Inl AuthRateLimited)
                   else let (st2, r) = login_attempt svc draws now st1 clientAddr normalized password device
                        in (login_release st2 clientAddr normalized, r))))"

section \<open>Refresh, logout and bearer tokens\<close>

definition refresh_row :: "AuthService \<Rightarrow> db \<Rightarrow> string \<Rightarrow> refresh_token_row option" where
  "refresh_row svc s token = find (\<lambda>r. rt_token_hash r = as_hash svc token) (refresh_tokens s)"

definition supersede :: "time \<Rightarrow> db \<Rightarrow> id \<Rightarrow> AuthSession \<Rightarrow> db" where
  "supersede now s deviceID session =
     (let supersededUntil = now + refreshRetryGrace
      in s\<lparr>refresh_tokens := upd (\<lambda>r. rt_device_id r = deviceID \<and> rt_revoked_at r = None \<and> rt_id r \<noteq> ses_refreshTokenID session)
             (\<lambda>r. r\<lparr>rt_revoked_at := Some now, rt_rotated_to := Some (ses_refreshTokenID session)\<rparr>) (refresh_tokens s),
           access_tokens := upd (\<lambda>a. at_device_id a = deviceID \<and> at_id a \<noteq> ses_accessTokenID session \<and> stamp (at_expires_at a) > stamp supersededUntil)
             (\<lambda>a. a\<lparr>at_expires_at := supersededUntil\<rparr>) (access_tokens s)\<rparr>)"

definition reissue :: "AuthService \<Rightarrow> TokenDraws \<Rightarrow> time \<Rightarrow> db \<Rightarrow> id \<Rightarrow> id \<Rightarrow> db \<times> (err + AuthSession)" where
  "reissue svc draws now s userID deviceID =
     (case user_of s userID of
        None \<Rightarrow> (s, Inl AuthTokenInvalid)
      | Some u \<Rightarrow>
          if u_status u \<noteq> ''ACTIVE'' then (s, Inl AuthAccountDisabled)
          else (case loadDevice s deviceID userID of
             Inl e \<Rightarrow> (s, Inl e)
           | Inr dev \<Rightarrow>
               if dev_RevokedAt dev \<noteq> None then (s, Inl AuthDeviceRevoked)
               else (case issueTokens svc draws now s (scanUser u) dev of
                  Inl e \<Rightarrow> (s, Inl e)
                | Inr (session, s1) \<Rightarrow> (supersede now s1 deviceID session, Inr session))))"

definition Refresh :: "AuthService \<Rightarrow> TokenDraws \<Rightarrow> time \<Rightarrow> db \<Rightarrow> string \<Rightarrow> db \<times> (err + AuthSession)" where
  "Refresh svc draws now s token =
     (if token = [] then (s, Inl AuthTokenInvalid)
      else case refresh_row svc s token of
        None \<Rightarrow> (s, Inl AuthTokenInvalid)
      | Some r \<Rightarrow>
          if \<not> now < rt_expires_at r then (s, Inl AuthTokenInvalid)
          else (case rt_revoked_at r of
             None \<Rightarrow> reissue svc draws now s (rt_user_id r) (rt_device_id r)
           | Some revoked \<Rightarrow>
               if rt_rotated_to r = None then (s, Inl AuthTokenInvalid)
               else if time_sub now revoked > refreshRetryGrace
               then (revokeDeviceTokens s (rt_device_id r) now, Inl AuthTokenInvalid)
               else reissue svc draws now s (rt_user_id r) (rt_device_id r)))"

definition Logout :: "AuthService \<Rightarrow> time \<Rightarrow> db \<Rightarrow> string \<Rightarrow> db \<times> (err + unit)" where
  "Logout svc now s token =
     (if token = [] then (s, Inr ())
      else case find (\<lambda>r. rt_token_hash r = as_hash svc token \<and> rt_revoked_at r = None) (refresh_tokens s) of
        None \<Rightarrow> (s, Inr ())
      | Some r \<Rightarrow>
          (s\<lparr>refresh_tokens := upd (\<lambda>x. rt_token_hash x = as_hash svc token) (\<lambda>x. x\<lparr>rt_revoked_at := Some now\<rparr>) (refresh_tokens s),
             access_tokens := del (\<lambda>a. at_device_id a = rt_device_id r) (access_tokens s)\<rparr>, Inr ()))"

definition Authenticate :: "AuthService \<Rightarrow> time \<Rightarrow> db \<Rightarrow> string \<Rightarrow> err + id \<times> id" where
  "Authenticate svc now s token =
     (if token = [] then Inl AuthTokenInvalid
      else case find (\<lambda>a. at_token_hash a = as_hash svc token) (access_tokens s) of
        None \<Rightarrow> Inl AuthTokenInvalid
      | Some a \<Rightarrow>
          (case user_of s (at_user_id a) of None \<Rightarrow> Inl AuthTokenInvalid
           | Some u \<Rightarrow>
               (case find (\<lambda>d. d_id d = at_device_id a) (devices s) of None \<Rightarrow> Inl AuthTokenInvalid
                | Some d \<Rightarrow>
                    if \<not> now < at_expires_at a then Inl AuthTokenInvalid
                    else if u_status u \<noteq> ''ACTIVE'' then Inl AuthTokenInvalid
                    else if d_revoked_at d \<noteq> None then Inl AuthDeviceRevoked
                    else Inr (at_user_id a, at_device_id a))))"

section \<open>Device records\<close>

definition RecordSync :: "time \<Rightarrow> db \<Rightarrow> id \<Rightarrow> id \<Rightarrow> db \<times> (err + unit)" where
  "RecordSync now s userID deviceID =
     (let live = (\<lambda>d. d_id d = deviceID \<and> d_user_id d = userID \<and> d_revoked_at d = None)
      in case find live (devices s) of
        None \<Rightarrow> (s, Inl AuthNotFound)
      | Some d \<Rightarrow>
          if (case d_last_sync_at d of None \<Rightarrow> False
              | Some lastSync \<Rightarrow> 0 \<le> time_sub now lastSync \<and> time_sub now lastSync < recordSyncInterval)
          then (s, Inr ())
          else if count_rows live (devices s) \<noteq> 1
          then (s\<lparr>devices := upd live (\<lambda>d. d\<lparr>d_last_sync_at := Some now\<rparr>) (devices s)\<rparr>, Inl AuthNotFound)
          else (s\<lparr>devices := upd live (\<lambda>d. d\<lparr>d_last_sync_at := Some now\<rparr>) (devices s)\<rparr>, Inr ()))"

definition RevokeDevice :: "time \<Rightarrow> db \<Rightarrow> id \<Rightarrow> id \<Rightarrow> db \<times> (err + unit)" where
  "RevokeDevice now s userID deviceID =
     (let live = (\<lambda>d. d_id d = deviceID \<and> d_user_id d = userID \<and> d_revoked_at d = None)
      in if count_rows live (devices s) = 0 then (s, Inl AuthNotFound)
         else (s\<lparr>devices := upd live (\<lambda>d. d\<lparr>d_revoked_at := Some now\<rparr>) (devices s),
                 refresh_tokens := upd (\<lambda>r. rt_device_id r = deviceID \<and> rt_revoked_at r = None) (\<lambda>r. r\<lparr>rt_revoked_at := Some now\<rparr>)
                   (refresh_tokens s)\<rparr>, Inr ()))"

end
