(* ===== verification/HB_Session_Props.thy ===== *)
theory HB_Session_Props
  imports HB_Session HB_Sharing HB_Maintenance HB_Demo
begin

text \<open>
  What sessions guarantee. \<open>session_cmd\<close> lists the transactions that touch accounts, devices and tokens: sign-in
  (the transaction of a \<open>Login\<close>, with whatever user and password hash it read before), refresh, logout, sync marks,
  device revocation, account creation, and the deletion of expired tokens by maintenance. Requests of different
  clients interleave as any sequence of them.

  \<open>session_frame\<close> is what every transaction guarantees about the rows it leaves; the properties follow from it by
  induction over the sequence.
\<close>

section \<open>Commands\<close>

datatype session_cmd =
    SignIn TokenDraws User string DeviceRegistration
  | RefreshToken TokenDraws string
  | LogoutToken string
  | SyncMark id id
  | RevokeDev id id
  | AccountRequest account_cmd
  | ExpireTokens

fun session_exec :: "AuthService \<Rightarrow> time \<times> session_cmd \<Rightarrow> db \<Rightarrow> db \<times> (err + AuthSession option)" where
  "session_exec svc (now, SignIn draws user hash reg) s =
     (case Login_tx svc draws now s user hash reg of Inl e \<Rightarrow> (s, Inl e) | Inr (ses, s') \<Rightarrow> (s', Inr (Some ses)))"
| "session_exec svc (now, RefreshToken draws token) s = map_prod id (map_sum id Some) (Refresh svc draws now s token)"
| "session_exec svc (now, LogoutToken token) s = map_prod id (map_sum id (\<lambda>_. None)) (Logout svc now s token)"
| "session_exec svc (now, SyncMark u d) s = map_prod id (map_sum id (\<lambda>_. None)) (RecordSync now s u d)"
| "session_exec svc (now, RevokeDev u d) s = map_prod id (map_sum id (\<lambda>_. None)) (RevokeDevice now s u d)"
| "session_exec svc (now, AccountRequest c) s =
     map_prod id (map_sum id (\<lambda>_. None)) (account_exec (as_argon svc) (as_maxUsers svc) (now, c) s)"
| "session_exec svc (now, ExpireTokens) s =
     map_prod sv_db (map_sum id (\<lambda>_. None)) (cleanupExpired now \<lparr>sv_db = s, sv_disk = []\<rparr>)"

text \<open>The side condition of a run: the random bytes drawn for a refresh token give a hash not in the table (the schema
  does not enforce it; the hash of an access token has a unique index).\<close>

fun fresh_draws :: "AuthService \<Rightarrow> time \<times> session_cmd \<Rightarrow> db \<Rightarrow> bool" where
  "fresh_draws svc (now, SignIn draws user hash reg) s \<longleftrightarrow> as_hash svc (randomToken (td_refresh draws)) \<notin> rt_token_hash ` set (refresh_tokens s)"
| "fresh_draws svc (now, RefreshToken draws token) s \<longleftrightarrow> as_hash svc (randomToken (td_refresh draws)) \<notin> rt_token_hash ` set (refresh_tokens s)"
| "fresh_draws svc (now, _) s \<longleftrightarrow> True"

text \<open>The answer to command \<open>k\<close> of a run, and the database it found.\<close>

definition state_at :: "AuthService \<Rightarrow> (time \<times> session_cmd) list \<Rightarrow> db \<Rightarrow> nat \<Rightarrow> db" where
  "state_at svc cs s k = run_cmds (session_exec svc) (take k cs) s"

definition answer_at :: "AuthService \<Rightarrow> (time \<times> session_cmd) list \<Rightarrow> db \<Rightarrow> nat \<Rightarrow> err + AuthSession option" where
  "answer_at svc cs s k = snd (session_exec svc (cs ! k) (state_at svc cs s k))"

section \<open>Invariant and frame\<close>

definition owned_device :: "db \<Rightarrow> id \<Rightarrow> id \<Rightarrow> bool" where
  "owned_device s u d \<longleftrightarrow> (\<exists>x\<in>set (devices s). d_id x = d \<and> d_user_id x = u)"

definition live_device :: "db \<Rightarrow> id \<Rightarrow> id \<Rightarrow> bool" where
  "live_device s u d \<longleftrightarrow> (\<exists>x\<in>set (devices s). d_id x = d \<and> d_user_id x = u \<and> d_revoked_at x = None)"

definition tokens_ok :: "db \<Rightarrow> bool" where
  "tokens_ok s \<longleftrightarrow> distinct (map u_id (users s)) \<and> distinct (map d_id (devices s)) \<and> distinct (map rt_id (refresh_tokens s)) \<and>
     distinct (map rt_token_hash (refresh_tokens s)) \<and> distinct (map at_id (access_tokens s)) \<and> distinct (map at_token_hash (access_tokens s))"

definition session_inv :: "db \<Rightarrow> bool" where
  "session_inv s \<longleftrightarrow> tokens_ok s \<and>
     (\<forall>a\<in>set (access_tokens s). owned_device s (at_user_id a) (at_device_id a)) \<and>
     (\<forall>r\<in>set (refresh_tokens s). owned_device s (rt_user_id r) (rt_device_id r))"

text \<open>An access token row may be cut short, a refresh token row revoked once; both otherwise stay as issued.\<close>

definition access_from :: "access_token_row \<Rightarrow> access_token_row \<Rightarrow> bool" where
  "access_from a a' \<longleftrightarrow> at_id a' = at_id a \<and> at_user_id a' = at_user_id a \<and> at_device_id a' = at_device_id a \<and>
     at_token_hash a' = at_token_hash a \<and> stamp (at_expires_at a') \<le> stamp (at_expires_at a)"

definition refresh_from :: "refresh_token_row \<Rightarrow> refresh_token_row \<Rightarrow> bool" where
  "refresh_from r r' \<longleftrightarrow> rt_id r' = rt_id r \<and> rt_user_id r' = rt_user_id r \<and> rt_device_id r' = rt_device_id r \<and>
     rt_token_hash r' = rt_token_hash r \<and> rt_expires_at r' = rt_expires_at r \<and> (rt_revoked_at r \<noteq> None \<longrightarrow> r' = r)"

definition issued_access :: "AuthService \<Rightarrow> AuthSession \<Rightarrow> access_token_row \<Rightarrow> bool" where
  "issued_access svc ses a \<longleftrightarrow> at_id a = ses_accessTokenID ses \<and> at_user_id a = usr_ID (ses_User ses) \<and>
     at_device_id a = dev_ID (ses_Device ses) \<and> at_token_hash a = as_hash svc (ses_AccessToken ses) \<and>
     at_expires_at a = ses_AccessTokenExpiresAt ses"

definition issued_refresh :: "AuthService \<Rightarrow> AuthSession \<Rightarrow> refresh_token_row \<Rightarrow> bool" where
  "issued_refresh svc ses r \<longleftrightarrow> rt_id r = ses_refreshTokenID ses \<and> rt_user_id r = usr_ID (ses_User ses) \<and>
     rt_device_id r = dev_ID (ses_Device ses) \<and> rt_token_hash r = as_hash svc (ses_RefreshToken ses) \<and>
     rt_expires_at r = ses_RefreshTokenExpiresAt ses \<and> rt_revoked_at r = None \<and> rt_rotated_to r = None"

definition device_from :: "device_row \<Rightarrow> device_row \<Rightarrow> bool" where
  "device_from d d' \<longleftrightarrow> d_id d' = d_id d \<and> d_user_id d' = d_user_id d \<and> (d_revoked_at d \<noteq> None \<longrightarrow> d_revoked_at d' \<noteq> None)"

definition session_frame :: "AuthService \<Rightarrow> err + AuthSession option \<Rightarrow> db \<Rightarrow> db \<Rightarrow> bool" where
  "session_frame svc ans s s' \<longleftrightarrow>
     (\<forall>d\<in>set (devices s). \<exists>d'\<in>set (devices s'). device_from d d') \<and>
     (\<forall>a'\<in>set (access_tokens s'). (\<exists>a\<in>set (access_tokens s). access_from a a') \<or> (\<exists>ses. ans = Inr (Some ses) \<and> issued_access svc ses a')) \<and>
     (\<forall>r'\<in>set (refresh_tokens s'). (\<exists>r\<in>set (refresh_tokens s). refresh_from r r') \<or> (\<exists>ses. ans = Inr (Some ses) \<and> issued_refresh svc ses r')) \<and>
     (\<forall>ses. ans = Inr (Some ses) \<longrightarrow> live_device s' (usr_ID (ses_User ses)) (dev_ID (ses_Device ses)))"

lemma session_frameD:
  assumes "session_frame svc ans s s'"
  shows "\<forall>d\<in>set (devices s). \<exists>d'\<in>set (devices s'). device_from d d'"
    and "a' \<in> set (access_tokens s') \<Longrightarrow> (\<exists>a\<in>set (access_tokens s). access_from a a') \<or> (\<exists>ses. ans = Inr (Some ses) \<and> issued_access svc ses a')"
    and "r' \<in> set (refresh_tokens s') \<Longrightarrow> (\<exists>r\<in>set (refresh_tokens s). refresh_from r r') \<or> (\<exists>ses. ans = Inr (Some ses) \<and> issued_refresh svc ses r')"
    and "ans = Inr (Some ses) \<Longrightarrow> live_device s' (usr_ID (ses_User ses)) (dev_ID (ses_Device ses))"
  using assms by (simp_all add: session_frame_def)

lemma from_refl [simp]: "access_from a a" "refresh_from r r" "device_from d d"
  by (simp_all add: access_from_def refresh_from_def device_from_def)

lemma access_from_trans: "access_from a b \<Longrightarrow> access_from b c \<Longrightarrow> access_from a c"
  by (auto simp: access_from_def)

lemma device_from_trans: "device_from a b \<Longrightarrow> device_from b c \<Longrightarrow> device_from a c"
  by (auto simp: device_from_def)

lemma upd_from:
  assumes "\<And>r. p r \<Longrightarrow> R r (f r)" "\<And>r. R r r"
  shows "\<forall>r\<in>set rows. \<exists>r'\<in>set (upd p f rows). R r r'" "\<forall>r'\<in>set (upd p f rows). \<exists>r\<in>set rows. R r r'"
proof -
  show "\<forall>r\<in>set rows. \<exists>r'\<in>set (upd p f rows). R r r'"
  proof
    fix r assume r: "r \<in> set rows"
    have "(if p r then f r else r) \<in> set (upd p f rows)" unfolding upd_def set_map using r by (rule imageI)
    moreover have "R r (if p r then f r else r)" using assms by simp
    ultimately show "\<exists>r'\<in>set (upd p f rows). R r r'" by blast
  qed
  show "\<forall>r'\<in>set (upd p f rows). \<exists>r\<in>set rows. R r r'" using assms by (auto simp: upd_def)
qed

lemma live_owned: "live_device s u d \<Longrightarrow> owned_device s u d"
  by (auto simp: live_device_def owned_device_def)

lemma owned_mono: "\<forall>d\<in>set (devices s). \<exists>d'\<in>set (devices s'). device_from d d' \<Longrightarrow> owned_device s u i \<Longrightarrow> owned_device s' u i"
  by (auto simp: owned_device_def device_from_def)

lemma issued_not_two:
  assumes "distinct (map d_id (devices s))" "owned_device s u d" "owned_device s v d"
  shows "u = v"
  using assms distinct_map_eq [OF assms(1)] by (auto simp: owned_device_def)

section \<open>What each transaction does\<close>

lemma upsertDevice_Inr:
  assumes u: "upsertDevice now s u reg = Inr (dev, s1)"
  obtains ds where "s1 = s\<lparr>devices := ds\<rparr>" "\<forall>d\<in>set (devices s). \<exists>d'\<in>set ds. device_from d d'"
    "distinct (map d_id (devices s)) \<longrightarrow> distinct (map d_id ds)" "dev_ID dev = reg_ID reg" "dev_RevokedAt dev = None"
    "\<exists>x\<in>set ds. d_id x = reg_ID reg \<and> d_user_id x = u \<and> d_revoked_at x = None"
proof (cases "device_of s (reg_ID reg) u")
  case None
  with u obtain d where new: "count_rows (\<lambda>d. d_id d = reg_ID reg \<and> d_user_id d \<noteq> u) (devices s) = 0"
    and d: "s1 = s\<lparr>devices := devices s @ [d]\<rparr>" "d_id d = reg_ID reg" "d_user_id d = u" "d_revoked_at d = None"
    and dev: "dev_ID dev = reg_ID reg" "dev_RevokedAt dev = None"
    by (auto simp: upsertDevice_def loadDevice_def split: if_split_asm)
  have "reg_ID reg \<notin> d_id ` set (devices s)"
    using None new by (auto simp: device_of_def find_None_iff count_rows_def filter_empty_conv)
  with d dev show ?thesis by (intro that [of "devices s @ [d]"]) (auto intro!: bexI)
next
  case (Some d)
  let ?f = "\<lambda>d. d\<lparr>d_name := reg_Name reg, d_last_seen_at := now\<rparr>"
  have d: "d \<in> set (devices s)" "d_id d = reg_ID reg" "d_user_id d = u"
    using find_SomeD [OF Some [unfolded device_of_def]] by simp_all
  from Some u d have s1: "s1 = s\<lparr>devices := upd (\<lambda>x. d_id x = reg_ID reg) ?f (devices s)\<rparr>" "d_revoked_at d = None"
      "dev_ID dev = reg_ID reg" "dev_RevokedAt dev = None"
    by (auto simp: upsertDevice_def loadDevice_def scanDevice_def split: if_split_asm)
  show ?thesis
  proof (rule that [OF s1(1) _ _ s1(3,4)])
    show "\<forall>x\<in>set (devices s). \<exists>x'\<in>set (upd (\<lambda>x. d_id x = reg_ID reg) ?f (devices s)). device_from x x'"
      by (rule upd_from) (simp_all add: device_from_def)
    show "distinct (map d_id (devices s)) \<longrightarrow> distinct (map d_id (upd (\<lambda>x. d_id x = reg_ID reg) ?f (devices s)))"
      by (simp add: map_upd)
    show "\<exists>x\<in>set (upd (\<lambda>x. d_id x = reg_ID reg) ?f (devices s)). d_id x = reg_ID reg \<and> d_user_id x = u \<and> d_revoked_at x = None"
      by (rule bexI [of _ "?f d"]) (use d s1 in \<open>auto simp: set_upd\<close>)
  qed
qed

lemma issueTokens_Inr:
  assumes "issueTokens svc draws now s user dev = Inr (ses, s')"
  obtains a r where "s' = s\<lparr>access_tokens := access_tokens s @ [a], refresh_tokens := refresh_tokens s @ [r]\<rparr>"
    "issued_access svc ses a" "issued_refresh svc ses r" "ses_User ses = user" "ses_Device ses = dev"
    "at_id a \<notin> at_id ` set (access_tokens s)" "at_token_hash a \<notin> at_token_hash ` set (access_tokens s)"
    "rt_id r \<notin> rt_id ` set (refresh_tokens s)" "ses_AccessTokenExpiresAt ses = now + as_accessTokenTTL svc"
    "ses_RefreshTokenExpiresAt ses = now + refreshTokenTTL"
proof -
  let ?a = "last (access_tokens s')" and ?r = "last (refresh_tokens s')"
  from assms have new: "\<not> (\<exists>a\<in>set (access_tokens s). at_id a = td_accessTokenID draws \<or> at_token_hash a = as_hash svc (randomToken (td_access draws)))"
      "\<not> (\<exists>r\<in>set (refresh_tokens s). rt_id r = td_refreshTokenID draws)"
    by (simp_all add: issueTokens_def Let_def split: if_split_asm)
  with assms show ?thesis
    by (intro that [of ?r ?a]) (auto simp: issueTokens_def Let_def issued_access_def issued_refresh_def)
qed

text \<open>A refresh either fails and changes nothing, ends the sessions of a device whose chain is reused, or reissues.\<close>

definition reused :: "time \<Rightarrow> refresh_token_row \<Rightarrow> bool" where
  "reused now r \<longleftrightarrow> now < rt_expires_at r \<and> rt_rotated_to r \<noteq> None \<and>
     (case rt_revoked_at r of None \<Rightarrow> False | Some t \<Rightarrow> time_sub now t > refreshRetryGrace)"

lemma reused_iff: "reused now r \<longleftrightarrow> now < rt_expires_at r \<and> rt_rotated_to r \<noteq> None \<and>
    (\<exists>t. rt_revoked_at r = Some t \<and> time_sub now t > refreshRetryGrace)"
  by (simp add: reused_def split: option.split)

lemma reissue_Inl: "reissue svc draws now s u d = (s', Inl e) \<Longrightarrow> s' = s"
  by (auto simp: reissue_def split: option.split_asm sum.split_asm if_split_asm)

lemma reissue_Inr:
  assumes "reissue svc draws now s u d = (s', Inr ses)"
  obtains usr s1 where "user_of s u = Some usr" "u_status usr = ''ACTIVE''" "usr_ID (ses_User ses) = u" "dev_ID (ses_Device ses) = d"
    "live_device s u d" "issueTokens svc draws now s (scanUser usr) (ses_Device ses) = Inr (ses, s1)" "s' = supersede now s1 d ses"
proof -
  from assms obtain usr dev where u: "user_of s u = Some usr" "u_status usr = ''ACTIVE''" and dev: "loadDevice s d u = Inr dev" "dev_RevokedAt dev = None"
    by (auto simp: reissue_def split: option.split_asm sum.split_asm if_split_asm)
  with assms obtain s1 where i: "issueTokens svc draws now s (scanUser usr) dev = Inr (ses, s1)" and s': "s' = supersede now s1 d ses"
    by (auto simp: reissue_def split: sum.split_asm)
  from dev obtain x where x: "device_of s d u = Some x" "dev = scanDevice x" by (auto simp: loadDevice_def split: option.split_asm)
  from find_SomeD [OF x(1) [unfolded device_of_def]] have xd: "x \<in> set (devices s)" "d_id x = d" "d_user_id x = u" by simp_all
  have "live_device s u d" unfolding live_device_def using xd x(2) dev(2) by (auto simp: scanDevice_def)
  moreover have "u_id usr = u" using find_SomeD [OF u(1) [unfolded user_of_def]] by simp
  moreover have "ses_User ses = scanUser usr" "ses_Device ses = dev" using issueTokens_Inr [OF i] by auto
  ultimately show ?thesis using u i s' x(2) xd by (intro that) (auto simp: scanUser_def scanDevice_def)
qed

lemma Refresh_cases:
  assumes "Refresh svc draws now s token = (s', ans)"
  obtains (fail) e where "s' = s" "ans = Inl e"
  | (reuse) r where "refresh_row svc s token = Some r" "reused now r" "s' = revokeDeviceTokens s (rt_device_id r) now" "ans = Inl AuthTokenInvalid"
  | (reissue) r ses where "refresh_row svc s token = Some r" "now < rt_expires_at r" "rt_revoked_at r = None \<or> rt_rotated_to r \<noteq> None"
      "\<not> reused now r" "ans = Inr ses" "HB_Session.reissue svc draws now s (rt_user_id r) (rt_device_id r) = (s', Inr ses)"
proof -
  have re: thesis if "refresh_row svc s token = Some r" "now < rt_expires_at r" "rt_revoked_at r = None \<or> rt_rotated_to r \<noteq> None"
      "\<not> reused now r" "HB_Session.reissue svc draws now s (rt_user_id r) (rt_device_id r) = (s', ans)" for r
    using that reissue(1) [of r] fail reissue_Inl by (cases ans) blast+
  show ?thesis
  proof (cases "token = [] \<or> refresh_row svc s token = None")
    case True
    with assms have "s' = s" "ans = Inl AuthTokenInvalid" by (auto simp: Refresh_def split: if_split_asm)
    then show ?thesis by (rule fail)
  next
    case False
    then obtain r where r: "refresh_row svc s token = Some r" and t: "token \<noteq> []" by auto
    note R = assms [unfolded Refresh_def, simplified t r, simplified]
    show ?thesis
    proof (cases "now < rt_expires_at r \<and> (rt_revoked_at r = None \<or> rt_rotated_to r \<noteq> None)")
      case False
      with R have "s' = s" "ans = Inl AuthTokenInvalid" by (auto split: if_split_asm option.split_asm)
      then show ?thesis by (rule fail)
    next
      case True
      show ?thesis
      proof (cases "reused now r")
        case True
        with R have "s' = revokeDeviceTokens s (rt_device_id r) now" "ans = Inl AuthTokenInvalid"
          by (auto simp: reused_iff split: if_split_asm option.split_asm)
        with r True show ?thesis by (rule reuse)
      next
        case False
        with R True have "HB_Session.reissue svc draws now s (rt_user_id r) (rt_device_id r) = (s', ans)"
          by (auto simp: reused_iff split: if_split_asm option.split_asm)
        with r True False show ?thesis by (intro re) simp_all
      qed
    qed
  qed
qed

subsection \<open>The frame of each command\<close>

lemma frame_refl: "session_frame svc (Inl e) s s"
  by (auto simp: session_frame_def intro: from_refl)

lemma frame_issue:
  assumes "session_frame svc (Inl e) s s1" "live_device s1 u d"
    and "issueTokens svc draws now s1 usr dev = Inr (ses, s2)" "usr_ID usr = u" "dev_ID dev = d"
  shows "session_frame svc (Inr (Some ses)) s s2"
proof -
  from issueTokens_Inr [OF assms(3)] obtain a r where s2: "s2 = s1\<lparr>access_tokens := access_tokens s1 @ [a], refresh_tokens := refresh_tokens s1 @ [r]\<rparr>"
    and i: "issued_access svc ses a" "issued_refresh svc ses r" "ses_User ses = usr" "ses_Device ses = dev" by metis
  show ?thesis using assms(1,2,4,5) i by (auto simp: session_frame_def s2 live_device_def)
qed

lemma frame_supersede:
  assumes f: "session_frame svc (Inr (Some ses)) s s1"
  shows "session_frame svc (Inr (Some ses)) s (supersede now s1 (dev_ID (ses_Device ses)) ses)"
proof -
  let ?s = "supersede now s1 (dev_ID (ses_Device ses)) ses"
  let ?cut = "\<lambda>a. at_device_id a = dev_ID (ses_Device ses) \<and> at_id a \<noteq> ses_accessTokenID ses \<and> stamp (at_expires_at a) > stamp (now + refreshRetryGrace)"
  let ?dead = "\<lambda>r. rt_device_id r = dev_ID (ses_Device ses) \<and> rt_revoked_at r = None \<and> rt_id r \<noteq> ses_refreshTokenID ses"
  have acc: "\<exists>a\<in>set (access_tokens s1). (access_from a a') \<and> (issued_access svc ses a \<longrightarrow> a' = a)" if "a' \<in> set (access_tokens ?s)" for a'
  proof -
    from that obtain a where a: "a \<in> set (access_tokens s1)" "a' = (if ?cut a then a\<lparr>at_expires_at := now + refreshRetryGrace\<rparr> else a)"
      by (auto simp: supersede_def Let_def upd_def)
    have "access_from a a'" by (auto simp: a(2) access_from_def intro: less_imp_le)
    moreover have "issued_access svc ses a \<longrightarrow> a' = a" by (simp add: a(2) issued_access_def)
    ultimately show ?thesis using a(1) by blast
  qed
  have ref: "\<exists>r\<in>set (refresh_tokens s1). refresh_from r r' \<and> (issued_refresh svc ses r \<longrightarrow> r' = r)" if "r' \<in> set (refresh_tokens ?s)" for r'
  proof -
    from that obtain r where r: "r \<in> set (refresh_tokens s1)"
        "r' = (if ?dead r then r\<lparr>rt_revoked_at := Some now, rt_rotated_to := Some (ses_refreshTokenID ses)\<rparr> else r)"
      by (auto simp: supersede_def Let_def upd_def)
    have "refresh_from r r'" by (simp add: r(2) refresh_from_def)
    moreover have "issued_refresh svc ses r \<longrightarrow> r' = r" by (simp add: r(2) issued_refresh_def)
    ultimately show ?thesis using r(1) by blast
  qed
  have dev: "devices ?s = devices s1" by (simp add: supersede_def Let_def)
  have "(\<exists>a\<in>set (access_tokens s). access_from a a') \<or> issued_access svc ses a'" if "a' \<in> set (access_tokens ?s)" for a'
  proof -
    from acc [OF that] obtain a where a: "a \<in> set (access_tokens s1)" "access_from a a'" "issued_access svc ses a \<longrightarrow> a' = a" by blast
    show ?thesis
    proof (cases "issued_access svc ses a")
      case False
      with a(1) f obtain a0 where "a0 \<in> set (access_tokens s)" "access_from a0 a" by (auto simp: session_frame_def)
      with a(2) show ?thesis by (intro disjI1 bexI [of _ a0]) (rule access_from_trans)
    qed (use a in simp)
  qed
  moreover have "(\<exists>r\<in>set (refresh_tokens s). refresh_from r r') \<or> issued_refresh svc ses r'" if "r' \<in> set (refresh_tokens ?s)" for r'
  proof -
    from ref [OF that] obtain r where r: "r \<in> set (refresh_tokens s1)" "refresh_from r r'" "issued_refresh svc ses r \<longrightarrow> r' = r" by blast
    show ?thesis
    proof (cases "issued_refresh svc ses r")
      case False
      with r(1) f obtain r0 where "r0 \<in> set (refresh_tokens s)" "refresh_from r0 r" by (auto simp: session_frame_def)
      with r(2) show ?thesis by (intro disjI1 bexI [of _ r0]) (auto simp: refresh_from_def)
    qed (use r in simp)
  qed
  ultimately show ?thesis using f by (simp add: session_frame_def dev live_device_def)
qed

lemma frame_shrink:
  assumes "\<forall>d\<in>set (devices s). \<exists>d'\<in>set (devices s'). device_from d d'"
    and "\<forall>a'\<in>set (access_tokens s'). \<exists>a\<in>set (access_tokens s). access_from a a'"
    and "\<forall>r'\<in>set (refresh_tokens s'). \<exists>r\<in>set (refresh_tokens s). refresh_from r r'"
    and "\<forall>ses. ans \<noteq> Inr (Some ses)"
  shows "session_frame svc ans s s'"
  using assms by (simp add: session_frame_def)

lemma frame_same:
  "devices s' = devices s \<Longrightarrow> access_tokens s' = access_tokens s \<Longrightarrow> refresh_tokens s' = refresh_tokens s \<Longrightarrow>
    \<forall>ses. ans \<noteq> Inr (Some ses) \<Longrightarrow> session_frame svc ans s s'"
  by (rule frame_shrink) (auto intro: from_refl)

lemma del_from: "(\<And>r. R r r) \<Longrightarrow> \<forall>r'\<in>set (del p rows). \<exists>r\<in>set rows. R r r'"
  by auto

lemma revoke_from:
  "\<forall>r'\<in>set (upd (\<lambda>r. P r \<and> rt_revoked_at r = None) (\<lambda>r. r\<lparr>rt_revoked_at := Some now\<rparr>) rows). \<exists>r\<in>set rows. refresh_from r r'"
  by (rule upd_from) (simp_all add: refresh_from_def)

lemma revokeDeviceTokens_frame: "\<forall>ses. ans \<noteq> Inr (Some ses) \<Longrightarrow> session_frame svc ans s (revokeDeviceTokens s d now)"
proof (rule frame_shrink)
  show "\<forall>r'\<in>set (refresh_tokens (revokeDeviceTokens s d now)). \<exists>r\<in>set (refresh_tokens s). refresh_from r r'"
    unfolding revokeDeviceTokens_def by (simp add: revoke_from)
qed (auto simp: revokeDeviceTokens_def intro: from_refl)

lemma Login_tx_Inr:
  assumes "Login_tx svc draws now s user hash reg = Inr (ses, s')"
  obtains usr dev s1 where "user_of s (usr_ID user) = Some usr" "u_password_hash usr = hash" "u_status usr = ''ACTIVE''"
    "upsertDevice now s (usr_ID user) reg = Inr (dev, s1)" "issueTokens svc draws now s1 user dev = Inr (ses, s')"
  using assms by (auto simp: Login_tx_def split: option.split_asm if_split_asm)

lemma frame_SignIn:
  assumes "Login_tx svc draws now s user hash reg = Inr (ses, s')"
  shows "session_frame svc (Inr (Some ses)) s s'"
proof -
  from assms obtain dev s1 where u: "upsertDevice now s (usr_ID user) reg = Inr (dev, s1)"
    and i: "issueTokens svc draws now s1 user dev = Inr (ses, s')" by (rule Login_tx_Inr)
  from u obtain ds where s1: "s1 = s\<lparr>devices := ds\<rparr>" and from_ds: "\<forall>d\<in>set (devices s). \<exists>d'\<in>set ds. device_from d d'"
    and dev: "dev_ID dev = reg_ID reg" and live: "\<exists>x\<in>set ds. d_id x = reg_ID reg \<and> d_user_id x = usr_ID user \<and> d_revoked_at x = None"
    by (rule upsertDevice_Inr)
  have "session_frame svc (Inl undefined) s s1" by (rule frame_shrink) (auto simp: s1 from_ds intro: from_refl)
  moreover have "live_device s1 (usr_ID user) (dev_ID dev)" using live by (simp add: live_device_def s1 dev)
  ultimately show ?thesis using i by (rule frame_issue) simp_all
qed

lemma frame_Refresh: "session_frame svc (map_sum id Some (snd (Refresh svc draws now s token))) s (fst (Refresh svc draws now s token))"
proof -
  obtain s' ans where R: "Refresh svc draws now s token = (s', ans)" by fastforce
  from R show ?thesis
  proof (cases rule: Refresh_cases)
    case (fail e)
    then show ?thesis by (simp add: R frame_refl)
  next
    case (reuse r)
    then show ?thesis by (simp add: R revokeDeviceTokens_frame)
  next
    case (reissue r ses)
    from reissue(6) obtain usr s1 where "user_of s (rt_user_id r) = Some usr" and id: "usr_ID (ses_User ses) = rt_user_id r" "dev_ID (ses_Device ses) = rt_device_id r"
      and live: "live_device s (rt_user_id r) (rt_device_id r)" and i: "issueTokens svc draws now s (scanUser usr) (ses_Device ses) = Inr (ses, s1)"
      and s': "s' = supersede now s1 (rt_device_id r) ses" by (rule reissue_Inr)
    from issueTokens_Inr [OF i] have "ses_User ses = scanUser usr" by metis
    with i id live have "session_frame svc (Inr (Some ses)) s s1" by (intro frame_issue [OF frame_refl]) simp_all
    from frame_supersede [OF this, of now] show ?thesis by (simp add: R s' reissue(5) id)
  qed
qed

lemma logout_from:
  assumes d: "distinct (map rt_token_hash rows)" and r: "find (\<lambda>r. rt_token_hash r = h \<and> rt_revoked_at r = None) rows = Some r"
  shows "\<forall>r'\<in>set (upd (\<lambda>x. rt_token_hash x = h) (\<lambda>x. x\<lparr>rt_revoked_at := Some now\<rparr>) rows). \<exists>r\<in>set rows. refresh_from r r'"
proof -
  from find_SomeD [OF r] have r: "r \<in> set rows" "rt_token_hash r = h" "rt_revoked_at r = None" by simp_all
  have "upd (\<lambda>x. rt_token_hash x = h) (\<lambda>x. x\<lparr>rt_revoked_at := Some now\<rparr>) rows =
      upd (\<lambda>x. rt_token_hash x = h \<and> rt_revoked_at x = None) (\<lambda>x. x\<lparr>rt_revoked_at := Some now\<rparr>) rows"
    unfolding upd_def
  proof (rule map_cong [OF refl])
    fix x assume "x \<in> set rows"
    with distinct_map_eq [OF d this r(1)] r(2,3)
    show "(if rt_token_hash x = h then x\<lparr>rt_revoked_at := Some now\<rparr> else x) =
        (if rt_token_hash x = h \<and> rt_revoked_at x = None then x\<lparr>rt_revoked_at := Some now\<rparr> else x)"
      by (cases "rt_token_hash x = h") simp_all
  qed
  then show ?thesis by (simp add: revoke_from)
qed

lemma frame_Logout:
  assumes "distinct (map rt_token_hash (refresh_tokens s))"
  shows "session_frame svc (map_sum id (\<lambda>_. None) (snd (Logout svc now s token))) s (fst (Logout svc now s token))"
proof (cases "find (\<lambda>r. rt_token_hash r = as_hash svc token \<and> rt_revoked_at r = None) (refresh_tokens s)")
  case None
  then show ?thesis by (intro frame_same) (simp_all add: Logout_def)
next
  case (Some r)
  show ?thesis
  proof (cases "token = []")
    case True
    then show ?thesis by (intro frame_same) (simp_all add: Logout_def)
  next
    case False
    show ?thesis
    proof (rule frame_shrink)
      show "\<forall>r'\<in>set (refresh_tokens (fst (Logout svc now s token))). \<exists>r\<in>set (refresh_tokens s). refresh_from r r'"
        using False Some by (simp add: Logout_def logout_from [OF assms Some])
    qed (use False Some in \<open>auto simp: Logout_def intro: from_refl\<close>)
  qed
qed

lemma frame_RecordSync: "session_frame svc (map_sum id (\<lambda>_. None) (snd (RecordSync now s u d))) s (fst (RecordSync now s u d))"
proof (rule frame_shrink)
  let ?live = "\<lambda>x. d_id x = d \<and> d_user_id x = u \<and> d_revoked_at x = None"
  have "devices (fst (RecordSync now s u d)) = devices s \<or>
      devices (fst (RecordSync now s u d)) = upd ?live (\<lambda>d. d\<lparr>d_last_sync_at := Some now\<rparr>) (devices s)"
    by (simp add: RecordSync_def Let_def split: option.split)
  moreover have "\<forall>x\<in>set (devices s). \<exists>x'\<in>set (upd ?live (\<lambda>d. d\<lparr>d_last_sync_at := Some now\<rparr>) (devices s)). device_from x x'"
    by (rule upd_from) (simp_all add: device_from_def)
  ultimately show "\<forall>x\<in>set (devices s). \<exists>x'\<in>set (devices (fst (RecordSync now s u d))). device_from x x'"
    by (auto intro: from_refl)
qed (auto simp: RecordSync_def Let_def intro: from_refl split: option.split if_split_asm)

lemma frame_RevokeDevice: "session_frame svc (map_sum id (\<lambda>_. None) (snd (RevokeDevice now s u d))) s (fst (RevokeDevice now s u d))"
proof (rule frame_shrink)
  let ?live = "\<lambda>x. d_id x = d \<and> d_user_id x = u \<and> d_revoked_at x = None"
  have "\<forall>x\<in>set (devices s). \<exists>x'\<in>set (upd ?live (\<lambda>d. d\<lparr>d_revoked_at := Some now\<rparr>) (devices s)). device_from x x'"
    by (rule upd_from) (simp_all add: device_from_def)
  then show "\<forall>x\<in>set (devices s). \<exists>x'\<in>set (devices (fst (RevokeDevice now s u d))). device_from x x'"
    by (auto simp: RevokeDevice_def Let_def intro: from_refl)
  show "\<forall>r'\<in>set (refresh_tokens (fst (RevokeDevice now s u d))). \<exists>r\<in>set (refresh_tokens s). refresh_from r r'"
    by (auto simp: RevokeDevice_def Let_def revoke_from intro: from_refl)
qed (auto simp: RevokeDevice_def Let_def intro: from_refl)

lemma account_exec_cases:
  obtains (same) "fst (account_exec argon m c s) = s"
  | (added) u where "fst (account_exec argon m c s) = s\<lparr>users := users s @ [u]\<rparr>" "u_id u \<notin> u_id ` set (users s)"
proof -
  obtain now cmd where c: "c = (now, cmd)" by (cases c)
  have "fst (account_exec argon m c s) = s \<or> (\<exists>u. insertUser s u = Inr (fst (account_exec argon m c s)))"
    by (cases cmd) (auto simp: c BootstrapAdmin_def CreateUser_def split: sum.split if_split_asm)
  then show ?thesis
  proof (elim disjE exE)
    fix u assume "insertUser s u = Inr (fst (account_exec argon m c s))"
    then have "fst (account_exec argon m c s) = s\<lparr>users := users s @ [u]\<rparr> \<and> u_id u \<notin> u_id ` set (users s)"
      by (auto simp: insertUser_def split: if_split_asm)
    then show ?thesis using added by blast
  qed (rule same)
qed

lemma account_exec_tables:
  "devices (fst (account_exec argon m c s)) = devices s" "access_tokens (fst (account_exec argon m c s)) = access_tokens s"
  "refresh_tokens (fst (account_exec argon m c s)) = refresh_tokens s"
  by (rule account_exec_cases [of argon m c s]; simp)+

lemma no_session [simp]: "map_sum id (\<lambda>_. None) r \<noteq> Inr (Some x)"
  by (cases r) simp_all

lemma session_exec_frame:
  assumes "session_inv s"
  shows "session_frame svc (snd (session_exec svc c s)) s (fst (session_exec svc c s))"
proof -
  obtain now cmd where c: "c = (now, cmd)" by (cases c)
  show ?thesis
  proof (cases cmd)
    case (SignIn draws user hash reg)
    then show ?thesis using frame_SignIn [of svc draws now s user hash reg] by (simp add: c frame_refl split: sum.split prod.split)
  next
    case (LogoutToken token)
    then show ?thesis using frame_Logout assms by (simp add: c session_inv_def tokens_ok_def)
  next
    case (AccountRequest a)
    then show ?thesis by (intro frame_same) (simp_all add: c account_exec_tables)
  next
    case ExpireTokens
    then show ?thesis by (intro frame_shrink) (auto simp: c cleanupExpired_def deleteBefore_def Let_def intro: from_refl)
  qed (simp_all add: c frame_Refresh frame_RecordSync frame_RevokeDevice)
qed

subsection \<open>The invariant\<close>

lemma session_inv_step:
  assumes inv: "session_inv s" and f: "session_frame svc ans s s'" and k: "tokens_ok s'"
  shows "session_inv s'"
proof -
  note own = owned_mono [OF session_frameD(1) [OF f]]
  note new = session_frameD(4) [OF f, THEN live_owned]
  have "owned_device s' (at_user_id a') (at_device_id a')" if "a' \<in> set (access_tokens s')" for a'
    using session_frameD(2) [OF f that]
  proof (elim disjE exE bexE conjE)
    fix a assume "a \<in> set (access_tokens s)" "access_from a a'"
    with inv own show ?thesis by (simp add: session_inv_def access_from_def)
  next
    fix ses assume "ans = Inr (Some ses)" "issued_access svc ses a'"
    with new show ?thesis by (simp add: issued_access_def)
  qed
  moreover have "owned_device s' (rt_user_id r') (rt_device_id r')" if "r' \<in> set (refresh_tokens s')" for r'
    using session_frameD(3) [OF f that]
  proof (elim disjE exE bexE conjE)
    fix r assume "r \<in> set (refresh_tokens s)" "refresh_from r r'"
    with inv own show ?thesis by (simp add: session_inv_def refresh_from_def)
  next
    fix ses assume "ans = Inr (Some ses)" "issued_refresh svc ses r'"
    with new show ?thesis by (simp add: issued_refresh_def)
  qed
  ultimately show ?thesis using k by (simp add: session_inv_def)
qed

lemma keys_issue:
  assumes k: "tokens_ok s" and i: "issueTokens svc draws now s user dev = Inr (ses, s')"
    and fresh: "as_hash svc (randomToken (td_refresh draws)) \<notin> rt_token_hash ` set (refresh_tokens s)"
  shows "tokens_ok s'"
proof -
  have ses: "ses_RefreshToken ses = randomToken (td_refresh draws)" using i by (auto simp: issueTokens_def Let_def split: if_split_asm)
  from i obtain a r where s': "s' = s\<lparr>access_tokens := access_tokens s @ [a], refresh_tokens := refresh_tokens s @ [r]\<rparr>"
    and r: "issued_refresh svc ses r" and new: "at_id a \<notin> at_id ` set (access_tokens s)"
      "at_token_hash a \<notin> at_token_hash ` set (access_tokens s)" "rt_id r \<notin> rt_id ` set (refresh_tokens s)"
    by (rule issueTokens_Inr)
  from r fresh have "rt_token_hash r \<notin> rt_token_hash ` set (refresh_tokens s)" by (simp add: issued_refresh_def ses)
  with k new show ?thesis by (simp add: tokens_ok_def s')
qed

lemma keys_supersede: "tokens_ok s \<Longrightarrow> tokens_ok (supersede now s d ses)"
  by (simp add: tokens_ok_def supersede_def Let_def map_upd)

lemma keys_revokeTokens: "tokens_ok s \<Longrightarrow> tokens_ok (revokeDeviceTokens s d now)"
  by (simp add: tokens_ok_def revokeDeviceTokens_def map_upd distinct_map_del)

lemma keys_Refresh:
  assumes k: "tokens_ok s" and ok: "fresh_draws svc (now, RefreshToken draws token) s"
  shows "tokens_ok (fst (Refresh svc draws now s token))"
proof -
  obtain s' ans where R: "Refresh svc draws now s token = (s', ans)" by fastforce
  from R show ?thesis
  proof (cases rule: Refresh_cases)
    case (reissue r ses)
    from reissue(6) obtain usr s1 where i: "issueTokens svc draws now s (scanUser usr) (ses_Device ses) = Inr (ses, s1)"
      and s': "s' = supersede now s1 (rt_device_id r) ses" by (rule reissue_Inr)
    show ?thesis using keys_issue [OF k i] ok by (simp add: R s' keys_supersede)
  qed (simp_all add: R k keys_revokeTokens)
qed

lemma keys_SignIn:
  assumes k: "tokens_ok s" and ok: "fresh_draws svc (now, SignIn draws user hash reg) s"
    and l: "Login_tx svc draws now s user hash reg = Inr (ses, s')"
  shows "tokens_ok s'"
proof -
  from l obtain dev s1 where u: "upsertDevice now s (usr_ID user) reg = Inr (dev, s1)"
    and i: "issueTokens svc draws now s1 user dev = Inr (ses, s')" by (rule Login_tx_Inr)
  from u obtain ds where s1: "s1 = s\<lparr>devices := ds\<rparr>" "distinct (map d_id (devices s)) \<longrightarrow> distinct (map d_id ds)" by (rule upsertDevice_Inr)
  then have "tokens_ok s1" using k by (simp add: tokens_ok_def)
  from keys_issue [OF this i] ok show ?thesis by (simp add: s1)
qed

lemma keys_account: "tokens_ok s \<Longrightarrow> tokens_ok (fst (account_exec argon m c s))"
  by (rule account_exec_cases [of argon m c s]) (simp_all add: tokens_ok_def)

lemma keys_exec:
  assumes k: "tokens_ok s" and ok: "fresh_draws svc c s"
  shows "tokens_ok (fst (session_exec svc c s))"
proof -
  obtain now cmd where c: "c = (now, cmd)" by (cases c)
  show ?thesis
  proof (cases cmd)
    case (SignIn draws user hash reg)
    with k ok show ?thesis using keys_SignIn [OF k] by (simp add: c split: sum.split prod.split)
  next
    case (RefreshToken draws token)
    with k ok keys_Refresh [OF k] show ?thesis by (simp add: c)
  next
    case (AccountRequest a)
    with k show ?thesis by (simp add: c keys_account)
  qed (use k in \<open>auto simp: c tokens_ok_def Logout_def RecordSync_def RevokeDevice_def cleanupExpired_def deleteBefore_def Let_def
        map_upd distinct_map_del split: option.split\<close>)
qed

interpretation session_service: service "session_exec svc" "fresh_draws svc" session_inv for svc
  by unfold_locales (rule session_inv_step, assumption, rule session_exec_frame, assumption, rule keys_exec, simp_all add: session_inv_def)

section \<open>Authentication\<close>

lemma Authenticate_Inr:
  assumes "Authenticate svc now s token = Inr (u, d)"
  obtains a usr where "a \<in> set (access_tokens s)" "at_token_hash a = as_hash svc token" "at_user_id a = u" "at_device_id a = d"
    "now < at_expires_at a" "usr \<in> set (users s)" "u_id usr = u" "u_status usr = ''ACTIVE''"
    "\<exists>x. find (\<lambda>x. d_id x = d) (devices s) = Some x \<and> d_revoked_at x = None"
proof -
  from assms obtain a usr x where f: "find (\<lambda>a. at_token_hash a = as_hash svc token) (access_tokens s) = Some a"
      "user_of s (at_user_id a) = Some usr" "find (\<lambda>x. d_id x = at_device_id a) (devices s) = Some x"
    and a: "now < at_expires_at a" "u_status usr = ''ACTIVE''" "d_revoked_at x = None" "u = at_user_id a" "d = at_device_id a"
    by (auto simp: Authenticate_def split: if_split_asm option.split_asm)
  from find_SomeD [OF f(1)] find_SomeD [OF f(2) [unfolded user_of_def]] f(3) a show ?thesis
    by (intro that [of a usr]) auto
qed

definition device_revoked :: "db \<Rightarrow> id \<Rightarrow> bool" where
  "device_revoked s d \<longleftrightarrow> (\<exists>x\<in>set (devices s). d_id x = d \<and> d_revoked_at x \<noteq> None)"

lemma device_revoked_frame: "session_frame svc ans s s' \<Longrightarrow> device_revoked s d \<Longrightarrow> device_revoked s' d"
  using session_frameD(1) [of svc ans s s'] by (fastforce simp: device_revoked_def device_from_def)

lemma revoked_one:
  assumes "tokens_ok s" "device_revoked s d" "x \<in> set (devices s)" "d_id x = d"
  shows "d_revoked_at x \<noteq> None"
proof -
  from assms(2) obtain y where "y \<in> set (devices s)" "d_id y = d" "d_revoked_at y \<noteq> None" by (auto simp: device_revoked_def)
  with distinct_map_eq [of d_id "devices s" x y] assms show ?thesis by (simp add: tokens_ok_def)
qed

lemma revoked_not_live: "tokens_ok s \<Longrightarrow> device_revoked s d \<Longrightarrow> \<not> live_device s u d"
  by (auto simp: live_device_def dest: revoked_one)

lemma revoked_refused:
  assumes k: "tokens_ok s" and r: "device_revoked s d"
  shows "Authenticate svc now s token \<noteq> Inr (u, d)" "validateDeviceOwnership s u d = Inl NodesForbidden"
    "requireActiveDevice s u d = Inl SharingForbidden" "validateActorAndTarget s u d n = Inl UploadsForbidden"
proof -
  note one = revoked_one [OF k r]
  show "Authenticate svc now s token \<noteq> Inr (u, d)"
  proof
    assume "Authenticate svc now s token = Inr (u, d)"
    then obtain x where "find (\<lambda>x. d_id x = d) (devices s) = Some x" "d_revoked_at x = None" by (auto elim: Authenticate_Inr)
    with find_SomeD [OF this(1)] one [of x] show False by simp
  qed
  have "count_rows (\<lambda>x. d_id x = d \<and> d_user_id x = u \<and> d_revoked_at x = None) (devices s) = 0"
    using one by (auto simp: count_rows_def filter_empty_conv)
  then show "validateDeviceOwnership s u d = Inl NodesForbidden" "validateActorAndTarget s u d n = Inl UploadsForbidden"
    by (simp_all add: validateDeviceOwnership_def validateActorAndTarget_def)
  show "requireActiveDevice s u d = Inl SharingForbidden" using one by (auto simp: requireActiveDevice_def)
qed

lemma RevokeDevice_revokes: "RevokeDevice now s u d = (s', Inr ()) \<Longrightarrow> device_revoked s' d"
proof -
  let ?live = "\<lambda>x. d_id x = d \<and> d_user_id x = u \<and> d_revoked_at x = None" and ?f = "\<lambda>x. x\<lparr>d_revoked_at := Some now\<rparr>"
  assume r: "RevokeDevice now s u d = (s', Inr ())"
  then have "count_rows ?live (devices s) \<noteq> 0" and s': "devices s' = upd ?live ?f (devices s)"
    by (auto simp: RevokeDevice_def Let_def split: if_split_asm)
  then obtain x where x: "x \<in> set (devices s)" "?live x" by (auto simp: count_rows_def filter_empty_conv)
  then have "?f x \<in> set (devices s')" unfolding s' upd_def set_map by (auto intro: rev_image_eqI [of x])
  with x(2) show ?thesis unfolding device_revoked_def by (intro bexI [of _ "?f x"]) simp_all
qed

lemma revoked_run:
  assumes "session_inv s" "device_revoked s d" "run_ok (fresh_draws svc) (session_exec svc) cs s"
  shows "device_revoked (run_cmds (session_exec svc) cs s) d"
  using assms
proof (induction cs arbitrary: s)
  case (Cons c cs)
  from session_service.inv_exec [OF Cons.prems(1)] Cons.prems device_revoked_frame [OF session_exec_frame [OF Cons.prems(1)]]
  show ?case by (simp add: Cons.IH)
qed simp

text \<open>C31: A revoked device is locked out for good: after \<open>RevokeDevice\<close>, whatever accounts and devices do - including
  further sign-ins and refreshes with the right password and tokens - no bearer token is accepted for the device,
  no sign-in or refresh answers with a session of it, and the node, sharing and upload services refuse it.\<close>

theorem revoked_device_locked_out:
  assumes inv: "session_inv s" and revoked: "RevokeDevice t s u d = (s1, Inr ())"
    and ok: "run_ok (fresh_draws svc) (session_exec svc) cs s1" and s': "s' = run_cmds (session_exec svc) cs s1"
  shows "Authenticate svc now s' token \<noteq> Inr (v, d) \<and>
    (fresh_draws svc c s' \<longrightarrow> snd (session_exec svc c s') = Inr (Some ses) \<longrightarrow> dev_ID (ses_Device ses) \<noteq> d) \<and>
    validateDeviceOwnership s' v d = Inl NodesForbidden \<and> requireActiveDevice s' v d = Inl SharingForbidden \<and>
    validateActorAndTarget s' v d n = Inl UploadsForbidden"
proof -
  have inv1: "session_inv s1" using session_service.inv_exec [OF inv, of svc "(t, RevokeDev u d)"] revoked by simp
  have inv': "session_inv s'" unfolding s' by (rule session_service.inv_run [OF inv1 ok])
  have r: "device_revoked s' d" unfolding s' by (rule revoked_run [OF inv1 RevokeDevice_revokes [OF revoked] ok])
  have "dev_ID (ses_Device ses) \<noteq> d" if "fresh_draws svc c s'" "snd (session_exec svc c s') = Inr (Some ses)"
  proof
    assume "dev_ID (ses_Device ses) = d"
    with session_frameD(4) [OF session_exec_frame [OF inv'] that(2)] have "live_device (fst (session_exec svc c s')) (usr_ID (ses_User ses)) d" by simp
    moreover have "tokens_ok (fst (session_exec svc c s'))" using session_service.inv_exec [OF inv' that(1)] by (simp add: session_inv_def)
    moreover have "device_revoked (fst (session_exec svc c s')) d" by (rule device_revoked_frame [OF session_exec_frame [OF inv'] r])
    ultimately show False using revoked_not_live by blast
  qed
  with revoked_refused [OF _ r] inv' show ?thesis by (simp add: session_inv_def)
qed

text \<open>What ends the sessions of a device: a logout with its live refresh token, the reuse of a rotated one, its revocation.\<close>

fun ends_sessions :: "AuthService \<Rightarrow> id \<Rightarrow> time \<times> session_cmd \<Rightarrow> db \<Rightarrow> bool" where
  "ends_sessions svc d (now, LogoutToken token) s \<longleftrightarrow> token \<noteq> [] \<and>
     (\<exists>r\<in>set (refresh_tokens s). rt_token_hash r = as_hash svc token \<and> rt_revoked_at r = None \<and> rt_device_id r = d)"
| "ends_sessions svc d (now, RefreshToken draws token) s \<longleftrightarrow> token \<noteq> [] \<and>
     (\<exists>r\<in>set (refresh_tokens s). rt_token_hash r = as_hash svc token \<and> reused now r \<and> rt_device_id r = d)"
| "ends_sessions svc d (now, RevokeDev u i) s \<longleftrightarrow> i = d \<and> (\<exists>x\<in>set (devices s). d_id x = d \<and> d_user_id x = u \<and> d_revoked_at x = None)"
| "ends_sessions svc d (now, _) s \<longleftrightarrow> False"

lemma find_unique_key:
  assumes "distinct (map k rows)" "r \<in> set rows" "k r = x" "P r"
  shows "find (\<lambda>r. k r = x \<and> P r) rows = Some r"
proof -
  from find_witness [of r rows "\<lambda>r. k r = x \<and> P r"] assms obtain y where y: "find (\<lambda>r. k r = x \<and> P r) rows = Some y" "y \<in> set rows" "k y = x"
    by auto
  with distinct_map_eq [OF assms(1) y(2) assms(2)] assms(3) show ?thesis by simp
qed

lemma Refresh_reuse:
  assumes k: "tokens_ok s" and r: "r \<in> set (refresh_tokens s)" "rt_token_hash r = as_hash svc token" "reused now r" "token \<noteq> []"
  shows "Refresh svc draws now s token = (revokeDeviceTokens s (rt_device_id r) now, Inl AuthTokenInvalid)"
proof -
  from k have d: "distinct (map rt_token_hash (refresh_tokens s))" by (simp add: tokens_ok_def)
  from find_unique_key [OF d r(1,2), of "\<lambda>_. True"] have "refresh_row svc s token = Some r" by (simp add: refresh_row_def)
  with r show ?thesis by (auto simp: Refresh_def reused_iff)
qed

lemma Logout_live:
  assumes k: "tokens_ok s" and r: "r \<in> set (refresh_tokens s)" "rt_token_hash r = as_hash svc token" "rt_revoked_at r = None" "token \<noteq> []"
  shows "Logout svc now s token =
    (s\<lparr>refresh_tokens := upd (\<lambda>x. rt_token_hash x = as_hash svc token) (\<lambda>x. x\<lparr>rt_revoked_at := Some now\<rparr>) (refresh_tokens s),
       access_tokens := del (\<lambda>a. at_device_id a = rt_device_id r) (access_tokens s)\<rparr>, Inr ())"
proof -
  from k have d: "distinct (map rt_token_hash (refresh_tokens s))" by (simp add: tokens_ok_def)
  from find_unique_key [OF d r(1,2), of "\<lambda>r. rt_revoked_at r = None"] r show ?thesis by (simp add: Logout_def)
qed

lemma ends_sessions_effect:
  assumes k: "tokens_ok s" and e: "ends_sessions svc d c s"
  shows "(\<forall>a\<in>set (access_tokens (fst (session_exec svc c s))). at_device_id a \<noteq> d) \<or> device_revoked (fst (session_exec svc c s)) d"
proof -
  obtain now cmd where c: "c = (now, cmd)" by (cases c)
  show ?thesis
  proof (cases cmd)
    case (LogoutToken token)
    with e obtain r where r: "r \<in> set (refresh_tokens s)" "rt_token_hash r = as_hash svc token" "rt_revoked_at r = None" "token \<noteq> []"
      and d: "rt_device_id r = d" by (auto simp: c)
    show ?thesis by (simp add: c LogoutToken Logout_live [OF k r] d)
  next
    case (RefreshToken draws token)
    with e obtain r where r: "r \<in> set (refresh_tokens s)" "rt_token_hash r = as_hash svc token" "reused now r" "token \<noteq> []"
      and d: "rt_device_id r = d" by (auto simp: c)
    show ?thesis by (simp add: c RefreshToken Refresh_reuse [OF k r] d revokeDeviceTokens_def)
  next
    case (RevokeDev u i)
    with e have "count_rows (\<lambda>x. d_id x = d \<and> d_user_id x = u \<and> d_revoked_at x = None) (devices s) \<noteq> 0"
      by (auto simp: c count_rows_def filter_empty_conv)
    then obtain s' where "RevokeDevice now s u d = (s', Inr ())" by (simp add: RevokeDevice_def Let_def)
    from RevokeDevice_revokes [OF this] show ?thesis using e RevokeDev \<open>RevokeDevice now s u d = (s', Inr ())\<close> by (simp add: c)
  qed (use e in \<open>simp_all add: c\<close>)
qed

lemma run_snoc: "run_cmds exec (cs @ [c]) s = fst (exec c (run_cmds exec cs s))"
  by (induction cs arbitrary: s) simp_all

lemma run_ok_snoc: "run_ok ok exec (cs @ [c]) s \<longleftrightarrow> run_ok ok exec cs s \<and> ok c (run_cmds exec cs s)"
  by (induction cs arbitrary: s) auto

lemma at_snoc [simp]:
  "k \<le> length cs \<Longrightarrow> state_at svc (cs @ [c]) s k = state_at svc cs s k"
  "k < length cs \<Longrightarrow> answer_at svc (cs @ [c]) s k = answer_at svc cs s k"
  by (simp_all add: state_at_def answer_at_def nth_append)

definition issued_in :: "AuthService \<Rightarrow> (time \<times> session_cmd) list \<Rightarrow> db \<Rightarrow> access_token_row \<Rightarrow> nat \<Rightarrow> AuthSession \<Rightarrow> bool" where
  "issued_in svc cs s a k ses \<longleftrightarrow> k < length cs \<and> answer_at svc cs s k = Inr (Some ses) \<and> (\<exists>a0. issued_access svc ses a0 \<and> access_from a0 a) \<and>
     (\<forall>j. k < j \<and> j < length cs \<and> ends_sessions svc (at_device_id a) (cs ! j) (state_at svc cs s j) \<longrightarrow>
        device_revoked (run_cmds (session_exec svc) cs s) (at_device_id a))"

lemma access_issued:
  assumes inv: "session_inv s" and none: "access_tokens s = []" and ok: "run_ok (fresh_draws svc) (session_exec svc) cs s"
  shows "a \<in> set (access_tokens (run_cmds (session_exec svc) cs s)) \<Longrightarrow> \<exists>k ses. issued_in svc cs s a k ses"
  using ok
proof (induction cs arbitrary: a rule: rev_induct)
  case Nil
  then show ?case by (simp add: none)
next
  case (snoc c cs)
  let ?s = "run_cmds (session_exec svc) cs s"
  from snoc.prems(2) have ok: "run_ok (fresh_draws svc) (session_exec svc) cs s" by (simp add: run_ok_snoc)
  have inv': "session_inv ?s" by (rule session_service.inv_run [OF inv ok])
  have st: "state_at svc (cs @ [c]) s (length cs) = ?s" by (simp add: state_at_def)
  note f = session_exec_frame [OF inv', of svc c]
  have a: "a \<in> set (access_tokens (fst (session_exec svc c ?s)))" using snoc.prems(1) by (simp add: run_snoc)
  from session_frameD(2) [OF f a] show ?case
  proof (elim disjE exE bexE conjE)
    fix ses assume "snd (session_exec svc c ?s) = Inr (Some ses)" "issued_access svc ses a"
    then have "issued_in svc (cs @ [c]) s a (length cs) ses"
      by (auto simp: issued_in_def answer_at_def st intro: from_refl)
    then show ?thesis by blast
  next
    fix b assume b: "b \<in> set (access_tokens ?s)" "access_from b a"
    from snoc.IH [OF b(1) ok] obtain k ses a0 where k: "k < length cs" "answer_at svc cs s k = Inr (Some ses)" "issued_access svc ses a0"
        "access_from a0 b" and ends: "\<And>j. k < j \<Longrightarrow> j < length cs \<Longrightarrow> ends_sessions svc (at_device_id b) (cs ! j) (state_at svc cs s j) \<Longrightarrow>
          device_revoked ?s (at_device_id b)" unfolding issued_in_def by blast
    have dev: "at_device_id b = at_device_id a" using b(2) by (simp add: access_from_def)
    have "device_revoked (fst (session_exec svc c ?s)) (at_device_id a)"
      if j: "k < j" "j < length (cs @ [c])" "ends_sessions svc (at_device_id a) ((cs @ [c]) ! j) (state_at svc (cs @ [c]) s j)" for j
    proof (cases "j = length cs")
      case True
      with j(3) have "ends_sessions svc (at_device_id a) c ?s" by (simp add: st)
      from ends_sessions_effect [OF _ this] inv' a show ?thesis by (auto simp: session_inv_def)
    next
      case False
      with j have "j < length cs" by simp
      with j(1,3) ends [of j] show ?thesis by (simp add: nth_append dev device_revoked_frame [OF f])
    qed
    then have "issued_in svc (cs @ [c]) s a k ses"
      using k access_from_trans [OF k(4) b(2)] unfolding issued_in_def by (auto simp: run_snoc)
    then show ?thesis by blast
  qed
qed

lemma stamp_le_second: "stamp a \<le> stamp b \<Longrightarrow> a < b + second"
  using stamp_le_seconds [of a b] unfolding second_def nanos_per_second_def by linarith

text \<open>C30: Only issued tokens authenticate: starting from a server without access tokens, a bearer token that
  \<open>Authenticate\<close> accepts was issued (the token, up to its hash) by an earlier sign-in or refresh to exactly this
  account and device, is used within a second of its lifetime, and since then the sessions of the device were not ended: not by
  a logout with a live token of it, not by reuse of a rotated token, not by its revocation. The account is active.\<close>

theorem session_authentic:
  assumes inv: "session_inv s" and none: "access_tokens s = []" and ok: "run_ok (fresh_draws svc) (session_exec svc) cs s"
    and s': "s' = run_cmds (session_exec svc) cs s" and auth: "Authenticate svc now s' token = Inr (u, d)"
  shows "(\<exists>k ses. k < length cs \<and> answer_at svc cs s k = Inr (Some ses) \<and> as_hash svc (ses_AccessToken ses) = as_hash svc token \<and>
       usr_ID (ses_User ses) = u \<and> dev_ID (ses_Device ses) = d \<and> now < ses_AccessTokenExpiresAt ses + second \<and>
       (\<forall>j. k < j \<and> j < length cs \<longrightarrow> \<not> ends_sessions svc d (cs ! j) (state_at svc cs s j))) \<and>
     (\<exists>usr\<in>set (users s'). u_id usr = u \<and> u_status usr = ''ACTIVE'')"
proof -
  have inv': "session_inv s'" unfolding s' by (rule session_service.inv_run [OF inv ok])
  from auth obtain a usr where a: "a \<in> set (access_tokens s')" "at_token_hash a = as_hash svc token" "at_user_id a = u" "at_device_id a = d"
      "now < at_expires_at a" and usr: "usr \<in> set (users s')" "u_id usr = u" "u_status usr = ''ACTIVE''" by (rule Authenticate_Inr)
  from access_issued [OF inv none ok a(1) [unfolded s']] obtain k ses where i: "issued_in svc cs s a k ses" by blast
  then obtain a0 where k: "k < length cs" "answer_at svc cs s k = Inr (Some ses)" "issued_access svc ses a0" "access_from a0 a"
    by (auto simp: issued_in_def)
  have "\<not> device_revoked s' d" using revoked_refused(1) [of s' d svc now token u] inv' auth by (auto simp: session_inv_def)
  then have "\<not> ends_sessions svc d (cs ! j) (state_at svc cs s j)" if "k < j" "j < length cs" for j
    using i that a(4) unfolding issued_in_def s' by blast
  moreover have "now < ses_AccessTokenExpiresAt ses + second"
    using k(3,4) a(5) stamp_le_second [of "at_expires_at a" "at_expires_at a0"] by (simp add: issued_access_def access_from_def)
  moreover have "as_hash svc (ses_AccessToken ses) = as_hash svc token" "usr_ID (ses_User ses) = u" "dev_ID (ses_Device ses) = d"
    using k(3,4) a(2-4) by (simp_all add: issued_access_def access_from_def)
  ultimately show ?thesis using k(1,2) usr by blast
qed

section \<open>A worked example\<close>

definition demo_auth :: AuthService where
  "demo_auth = \<lparr>as_argon = demo_argon, as_hash = (\<lambda>t. t), as_uuid = demo_uuid, as_maxUsers = 5, as_accessTokenTTL = 15 * minute,
     as_dummyPasswordHash = []\<rparr>"

definition demo_accounts :: db where
  "demo_accounts = empty_db\<lparr>users := [new_user 0 ''alice'' ''Alice'' ''alice'' ''hash'' ''ADMIN'']\<rparr>"

definition demo_alice :: User where
  "demo_alice = \<lparr>usr_ID = ''alice'', usr_Username = ''Alice'', usr_Role = ''ADMIN''\<rparr>"

definition demo_laptop :: DeviceRegistration where
  "demo_laptop = \<lparr>reg_ID = ''laptop'', reg_Name = ''Laptop'', reg_Platform = ''WINDOWS'', reg_PublicKey = ''key'', reg_KeyVersion = 1\<rparr>"

definition demo_token :: "string \<Rightarrow> TokenDraws" where
  "demo_token x = \<lparr>td_access = ''a'' @ x, td_refresh = ''r'' @ x, td_refreshTokenID = ''rt'' @ x, td_accessTokenID = ''at'' @ x\<rparr>"

definition demo_sessions :: "(time \<times> session_cmd) list" where
  "demo_sessions = [(0, SignIn (demo_token ''1'') demo_alice ''hash'' demo_laptop),
     (100 * second, RefreshToken (demo_token ''2'') (randomToken ''r1''))]"

lemma demo_accounts_inv: "session_inv demo_accounts" "access_tokens demo_accounts = []"
  by (simp_all add: session_inv_def tokens_ok_def demo_accounts_def empty_db_def)

lemma demo_sessions_ok: "run_ok (fresh_draws demo_auth) (session_exec demo_auth) demo_sessions demo_accounts"
  by code_simp

lemma demo_auth_ok:
  "Authenticate demo_auth (200 * second) (run_cmds (session_exec demo_auth) demo_sessions demo_accounts) (randomToken ''a2'') = Inr (''alice'', ''laptop'')"
  by code_simp

theorem session_authentic_witness:
  "\<exists>k ses. k < length demo_sessions \<and> answer_at demo_auth demo_sessions demo_accounts k = Inr (Some ses) \<and> usr_ID (ses_User ses) = ''alice'' \<and>
     dev_ID (ses_Device ses) = ''laptop''"
  using session_authentic [OF demo_accounts_inv demo_sessions_ok refl demo_auth_ok] by blast

theorem revoked_device_locked_out_witness:
  "Authenticate demo_auth (201 * second) (run_cmds (session_exec demo_auth) [(200 * second, RefreshToken (demo_token ''3'') (randomToken ''r2''))]
     (fst (RevokeDevice (150 * second) (run_cmds (session_exec demo_auth) demo_sessions demo_accounts) ''alice'' ''laptop'')))
     (randomToken ''a2'') \<noteq> Inr (''alice'', ''laptop'')"
proof -
  let ?s = "run_cmds (session_exec demo_auth) demo_sessions demo_accounts"
  let ?c = "[(200 * second, RefreshToken (demo_token ''3'') (randomToken ''r2''))]"
  obtain s1 r where s1: "RevokeDevice (150 * second) ?s ''alice'' ''laptop'' = (s1, r)" by fastforce
  moreover have "snd (RevokeDevice (150 * second) ?s ''alice'' ''laptop'') = Inr ()" by code_simp
  ultimately have r: "RevokeDevice (150 * second) ?s ''alice'' ''laptop'' = (s1, Inr ())" by simp
  have "run_ok (fresh_draws demo_auth) (session_exec demo_auth) ?c (fst (RevokeDevice (150 * second) ?s ''alice'' ''laptop''))" by code_simp
  then have ok: "run_ok (fresh_draws demo_auth) (session_exec demo_auth) ?c s1" by (simp add: r)
  have inv: "session_inv ?s" by (rule session_service.inv_run [OF demo_accounts_inv(1) demo_sessions_ok])
  from revoked_device_locked_out [OF inv r ok refl] show ?thesis unfolding r fst_conv by blast
qed

end
