(* ===== verification/HB_Refresh.thy ===== *)
theory HB_Refresh
  imports HB_Session_Props
begin

text \<open>
  The refresh chain of a device. \<open>refresh_rotates\<close>: after a refresh one refresh token of the device is live.
  \<open>ended_sessions_stay_ended\<close>: once a logout or the reuse of a rotated token has ended the sessions of a device and the
  grace period has passed, only a new sign-in revives it. The last section shows that the grace period itself is a gap: a
  rotated token is accepted in it even after the session was ended.
\<close>

section \<open>Rotation\<close>

lemma supersede_tables:
  "access_tokens (supersede now s d ses) = upd (\<lambda>a. at_device_id a = d \<and> at_id a \<noteq> ses_accessTokenID ses \<and>
     stamp (at_expires_at a) > stamp (now + refreshRetryGrace)) (\<lambda>a. a\<lparr>at_expires_at := now + refreshRetryGrace\<rparr>) (access_tokens s)"
  "refresh_tokens (supersede now s d ses) = upd (\<lambda>r. rt_device_id r = d \<and> rt_revoked_at r = None \<and> rt_id r \<noteq> ses_refreshTokenID ses)
     (\<lambda>r. r\<lparr>rt_revoked_at := Some now, rt_rotated_to := Some (ses_refreshTokenID ses)\<rparr>) (refresh_tokens s)"
  "users (supersede now s d ses) = users s" "devices (supersede now s d ses) = devices s"
  by (simp_all add: supersede_def Let_def)

lemma filter_upd_none:
  assumes "\<And>r. r \<in> set rows \<Longrightarrow> q r \<Longrightarrow> p r" "\<And>r. p r \<Longrightarrow> \<not> q (f r)"
  shows "filter q (upd p f rows) = []"
  using assms by (auto simp: upd_def filter_empty_conv)

lemma filter_upd_other:
  assumes "\<And>r. p r \<Longrightarrow> \<not> q r \<and> \<not> q (f r)"
  shows "filter q (upd p f rows) = filter q rows"
  using assms by (induction rows) auto

lemma upd_append: "upd p f (xs @ ys) = upd p f xs @ upd p f ys"
  by (simp add: upd_def)

lemma randomToken_nonempty: "b \<noteq> [] \<Longrightarrow> randomToken b \<noteq> []"
proof -
  have "sextets xs \<noteq> []" if "xs \<noteq> []" for xs using that by (induction xs rule: sextets.induct) simp_all
  then show "b \<noteq> [] \<Longrightarrow> randomToken b \<noteq> []" by (simp add: randomToken_def b64_encode_def)
qed

lemma issueTokens_tokens:
  "issueTokens svc draws now s user dev = Inr (ses, s') \<Longrightarrow>
    ses_AccessToken ses = randomToken (td_access draws) \<and> ses_RefreshToken ses = randomToken (td_refresh draws)"
  by (auto simp: issueTokens_def Let_def split: if_split_asm)

lemma Authenticate_row:
  assumes k: "tokens_ok s" and a: "a \<in> set (access_tokens s)" "now < at_expires_at a" and t: "token \<noteq> []" "at_token_hash a = as_hash svc token"
    and u: "user_of s (at_user_id a) = Some usr" "u_status usr = ''ACTIVE''" and l: "live_device s v (at_device_id a)"
  shows "Authenticate svc now s token = Inr (at_user_id a, at_device_id a)"
proof -
  from k have d: "distinct (map at_token_hash (access_tokens s))" "distinct (map d_id (devices s))" by (simp_all add: tokens_ok_def)
  from l obtain x where "x \<in> set (devices s)" "d_id x = at_device_id a" "d_revoked_at x = None" by (auto simp: live_device_def)
  then have "find (\<lambda>x. d_id x = at_device_id a) (devices s) = Some x" "d_revoked_at x = None" by (simp_all add: find_key_iff [OF d(2)])
  moreover have "find (\<lambda>a. at_token_hash a = as_hash svc token) (access_tokens s) = Some a" using a t by (simp add: find_key_iff [OF d(1)])
  ultimately show ?thesis using a t u by (simp add: Authenticate_def)
qed

text \<open>What a successful refresh leaves, table by table.\<close>

lemma rotated_tokens:
  assumes k: "tokens_ok s" and i: "issueTokens svc draws now s user dev = Inr (ses, s1)" and d: "dev_ID dev = d"
    and s': "s' = supersede now s1 d ses"
  shows "map rt_token_hash (filter (\<lambda>r. rt_device_id r = d \<and> rt_revoked_at r = None) (refresh_tokens s')) = [as_hash svc (ses_RefreshToken ses)]"
    and "filter (\<lambda>r. rt_device_id r \<noteq> d) (refresh_tokens s') = filter (\<lambda>r. rt_device_id r \<noteq> d) (refresh_tokens s)"
    and "filter (\<lambda>a. at_device_id a \<noteq> d) (access_tokens s') = filter (\<lambda>a. at_device_id a \<noteq> d) (access_tokens s)"
    and "\<forall>a\<in>set (access_tokens s'). at_device_id a = d \<longrightarrow> at_token_hash a = as_hash svc (ses_AccessToken ses) \<or>
       at_expires_at a < now + refreshRetryGrace + second"
    and "\<exists>a\<in>set (access_tokens s'). issued_access svc ses a"
proof -
  from i obtain a r where s1: "s1 = s\<lparr>access_tokens := access_tokens s @ [a], refresh_tokens := refresh_tokens s @ [r]\<rparr>"
    and a: "issued_access svc ses a" and r: "issued_refresh svc ses r" and dev: "ses_Device ses = dev"
    and new: "rt_id r \<notin> rt_id ` set (refresh_tokens s)" "at_id a \<notin> at_id ` set (access_tokens s)" by (rule issueTokens_Inr)
  let ?dead = "\<lambda>r. rt_device_id r = d \<and> rt_revoked_at r = None \<and> rt_id r \<noteq> ses_refreshTokenID ses"
  let ?cut = "\<lambda>a. at_device_id a = d \<and> at_id a \<noteq> ses_accessTokenID ses \<and> stamp (at_expires_at a) > stamp (now + refreshRetryGrace)"
  let ?kill = "\<lambda>r. r\<lparr>rt_revoked_at := Some now, rt_rotated_to := Some (ses_refreshTokenID ses)\<rparr>"
  let ?short = "\<lambda>a. a\<lparr>at_expires_at := now + refreshRetryGrace\<rparr>"
  have r': "rt_device_id r = d" "rt_id r = ses_refreshTokenID ses" "rt_revoked_at r = None" "rt_token_hash r = as_hash svc (ses_RefreshToken ses)"
    using r d dev by (simp_all add: issued_refresh_def)
  have a': "at_device_id a = d" "at_id a = ses_accessTokenID ses" using a d dev by (simp_all add: issued_access_def)
  have fresh: "rt_id x \<noteq> ses_refreshTokenID ses" if "x \<in> set (refresh_tokens s)" for x
    using new(1) that r'(2) by force
  have fresh_a: "at_id x \<noteq> ses_accessTokenID ses" if "x \<in> set (access_tokens s)" for x
    using new(2) that a'(2) by force
  have R: "refresh_tokens s' = upd ?dead ?kill (refresh_tokens s) @ [r]" using r' by (simp add: s' supersede_tables s1 upd_append)
  have A: "access_tokens s' = upd ?cut ?short (access_tokens s) @ [a]" using a' by (simp add: s' supersede_tables s1 upd_append)
  have "filter (\<lambda>r. rt_device_id r = d \<and> rt_revoked_at r = None) (upd ?dead ?kill (refresh_tokens s)) = []"
    by (rule filter_upd_none) (use fresh in simp_all)
  then show "map rt_token_hash (filter (\<lambda>r. rt_device_id r = d \<and> rt_revoked_at r = None) (refresh_tokens s')) = [as_hash svc (ses_RefreshToken ses)]"
    using r' by (simp add: R)
  have "filter (\<lambda>r. rt_device_id r \<noteq> d) (upd ?dead ?kill (refresh_tokens s)) = filter (\<lambda>r. rt_device_id r \<noteq> d) (refresh_tokens s)"
    by (rule filter_upd_other) simp
  then show "filter (\<lambda>r. rt_device_id r \<noteq> d) (refresh_tokens s') = filter (\<lambda>r. rt_device_id r \<noteq> d) (refresh_tokens s)"
    using r' by (simp add: R)
  have "filter (\<lambda>a. at_device_id a \<noteq> d) (upd ?cut ?short (access_tokens s)) = filter (\<lambda>a. at_device_id a \<noteq> d) (access_tokens s)"
    by (rule filter_upd_other) simp
  then show "filter (\<lambda>a. at_device_id a \<noteq> d) (access_tokens s') = filter (\<lambda>a. at_device_id a \<noteq> d) (access_tokens s)"
    using a' by (simp add: A)
  show "\<exists>a\<in>set (access_tokens s'). issued_access svc ses a" using a by (auto simp: A)
  have "at_expires_at x < now + refreshRetryGrace + second" if x: "x \<in> set (upd ?cut ?short (access_tokens s))" "at_device_id x = d" for x
  proof -
    from x(1) obtain y where y: "y \<in> set (access_tokens s)" "x = (if ?cut y then ?short y else y)" by (auto simp: upd_def)
    show ?thesis
    proof (cases "?cut y")
      case True
      with y(2) show ?thesis by (simp add: second_def nanos_per_second_def)
    next
      case False
      from y(2) have xy: "x = y" unfolding if_not_P [OF False] .
      with False x(2) fresh_a [OF y(1)] have "stamp (at_expires_at x) \<le> stamp (now + refreshRetryGrace)" by (simp add: not_less)
      then show ?thesis by (rule stamp_le_second)
    qed
  qed
  with a show "\<forall>a\<in>set (access_tokens s'). at_device_id a = d \<longrightarrow> at_token_hash a = as_hash svc (ses_AccessToken ses) \<or>
       at_expires_at a < now + refreshRetryGrace + second" by (auto simp: A issued_access_def)
qed

text \<open>A refresh rotates the token: the presented token and every other refresh token of the device are revoked, exactly
  one new one is live, the earlier access tokens of the device end with the grace period, the new one works at once, and
  the tokens of other devices are untouched.\<close>

theorem refresh_rotates:
  assumes inv: "session_inv s" and ok: "fresh_draws svc (now, RefreshToken draws token) s"
    and pos: "0 < as_accessTokenTTL svc" "td_access draws \<noteq> []"
    and R: "Refresh svc draws now s token = (s', Inr ses)" and d: "d = dev_ID (ses_Device ses)"
  shows "map rt_token_hash (filter (\<lambda>r. rt_device_id r = d \<and> rt_revoked_at r = None) (refresh_tokens s')) = [as_hash svc (ses_RefreshToken ses)] \<and>
    as_hash svc (ses_RefreshToken ses) \<noteq> as_hash svc token \<and>
    (\<exists>r\<in>set (refresh_tokens s). rt_token_hash r = as_hash svc token \<and> rt_device_id r = d) \<and>
    (\<forall>a\<in>set (access_tokens s'). at_device_id a = d \<longrightarrow> at_token_hash a = as_hash svc (ses_AccessToken ses) \<or>
       at_expires_at a < now + refreshRetryGrace + second) \<and>
    Authenticate svc now s' (ses_AccessToken ses) = Inr (usr_ID (ses_User ses), d) \<and>
    filter (\<lambda>r. rt_device_id r \<noteq> d) (refresh_tokens s') = filter (\<lambda>r. rt_device_id r \<noteq> d) (refresh_tokens s) \<and>
    filter (\<lambda>a. at_device_id a \<noteq> d) (access_tokens s') = filter (\<lambda>a. at_device_id a \<noteq> d) (access_tokens s)"
proof -
  have keys: "tokens_ok s" "tokens_ok s'" using inv keys_Refresh [of s svc now draws token] ok R by (simp_all add: session_inv_def)
  from R obtain r where r: "refresh_row svc s token = Some r" and re: "reissue svc draws now s (rt_user_id r) (rt_device_id r) = (s', Inr ses)"
    by (cases rule: Refresh_cases) auto
  from re obtain usr s1 where usr: "user_of s (rt_user_id r) = Some usr" "u_status usr = ''ACTIVE''" "usr_ID (ses_User ses) = rt_user_id r"
    and dev: "dev_ID (ses_Device ses) = rt_device_id r" and live: "live_device s (rt_user_id r) (rt_device_id r)"
    and i: "issueTokens svc draws now s (scanUser usr) (ses_Device ses) = Inr (ses, s1)" and s': "s' = supersede now s1 (rt_device_id r) ses"
    by (rule reissue_Inr)
  from r have row: "r \<in> set (refresh_tokens s)" "rt_token_hash r = as_hash svc token" unfolding refresh_row_def by (auto dest: find_SomeD)
  have ses: "ses_AccessToken ses = randomToken (td_access draws)" "ses_RefreshToken ses = randomToken (td_refresh draws)"
    using issueTokens_tokens [OF i] by simp_all
  note T = rotated_tokens [OF keys(1) i dev s', unfolded dev [symmetric], folded d]
  from T(5) obtain a where a: "a \<in> set (access_tokens s')" "issued_access svc ses a" by blast
  from i obtain a0 r0 where s1: "s1 = s\<lparr>access_tokens := access_tokens s @ [a0], refresh_tokens := refresh_tokens s @ [r0]\<rparr>"
    and exp: "ses_AccessTokenExpiresAt ses = now + as_accessTokenTTL svc" by (rule issueTokens_Inr)
  have "Authenticate svc now s' (ses_AccessToken ses) = Inr (at_user_id a, at_device_id a)"
  proof (rule Authenticate_row [OF keys(2) a(1)])
    show "user_of s' (at_user_id a) = Some usr" using usr a(2) by (simp add: user_of_def s' supersede_tables s1 issued_access_def)
    show "live_device s' (rt_user_id r) (at_device_id a)" using live a(2) dev by (simp add: live_device_def s' supersede_tables s1 issued_access_def)
  qed (use a(2) pos exp usr ses randomToken_nonempty in \<open>simp_all add: issued_access_def\<close>)
  then have "Authenticate svc now s' (ses_AccessToken ses) = Inr (usr_ID (ses_User ses), d)" using a(2) d by (simp add: issued_access_def)
  moreover have "as_hash svc (ses_RefreshToken ses) \<noteq> as_hash svc token" using ok row ses(2) by force
  moreover have "\<exists>r\<in>set (refresh_tokens s). rt_token_hash r = as_hash svc token \<and> rt_device_id r = d" using row dev d by auto
  ultimately show ?thesis using T(1-4) by (intro conjI)
qed

lemma demo_first_ok:
  "run_ok (fresh_draws demo_auth) (session_exec demo_auth) (take 1 demo_sessions) demo_accounts"
  "fresh_draws demo_auth (100 * second, RefreshToken (demo_token ''2'') (randomToken ''r1''))
     (run_cmds (session_exec demo_auth) (take 1 demo_sessions) demo_accounts)"
  by code_simp+

lemma demo_refresh:
  "map_prod (\<lambda>_. ()) (map_sum id (\<lambda>ses. (ses_RefreshToken ses, dev_ID (ses_Device ses))))
     (Refresh demo_auth (demo_token ''2'') (100 * second) (run_cmds (session_exec demo_auth) (take 1 demo_sessions) demo_accounts) (randomToken ''r1'')) =
   ((), Inr (randomToken ''r2'', ''laptop''))"
  by code_simp

theorem refresh_rotates_witness:
  "map rt_token_hash (filter (\<lambda>r. rt_device_id r = ''laptop'' \<and> rt_revoked_at r = None)
     (refresh_tokens (fst (Refresh demo_auth (demo_token ''2'') (100 * second)
       (run_cmds (session_exec demo_auth) (take 1 demo_sessions) demo_accounts) (randomToken ''r1''))))) = [randomToken ''r2'']"
proof -
  let ?s = "run_cmds (session_exec demo_auth) (take 1 demo_sessions) demo_accounts"
  obtain s' r where r: "Refresh demo_auth (demo_token ''2'') (100 * second) ?s (randomToken ''r1'') = (s', r)" by fastforce
  with demo_refresh obtain ses where ses: "r = Inr ses" "ses_RefreshToken ses = randomToken ''r2''" "''laptop'' = dev_ID (ses_Device ses)"
    by (cases r) auto
  have inv: "session_inv ?s" by (rule session_service.inv_run [OF demo_accounts_inv(1) demo_first_ok(1)])
  have pos: "0 < as_accessTokenTTL demo_auth" "td_access (demo_token ''2'') \<noteq> []"
    by (simp_all add: demo_auth_def demo_token_def minute_def second_def nanos_per_second_def)
  from refresh_rotates [OF inv demo_first_ok(2) pos r [unfolded ses(1)] ses(3)] show ?thesis
    unfolding r fst_conv using ses(2) by (simp add: demo_auth_def)
qed

section \<open>Ended sessions\<close>

text \<open>A device without access tokens whose refresh tokens were all revoked by time \<open>t\<close>.\<close>

definition ended :: "id \<Rightarrow> time \<Rightarrow> db \<Rightarrow> bool" where
  "ended d t s \<longleftrightarrow> (\<forall>a\<in>set (access_tokens s). at_device_id a \<noteq> d) \<and>
     (\<forall>r\<in>set (refresh_tokens s). rt_device_id r = d \<longrightarrow> (\<exists>x. rt_revoked_at r = Some x \<and> x \<le> t))"

fun quiet :: "id \<Rightarrow> time \<Rightarrow> time \<times> session_cmd \<Rightarrow> bool" where
  "quiet d t (now, SignIn draws user hash reg) \<longleftrightarrow> reg_ID reg \<noteq> d \<and> t + refreshRetryGrace < now"
| "quiet d t (now, _) \<longleftrightarrow> t + refreshRetryGrace < now"

lemma grace_over: "x \<le> t \<Longrightarrow> t + refreshRetryGrace < now \<Longrightarrow> refreshRetryGrace < time_sub now x"
  by (simp add: time_sub_def refreshRetryGrace_def minute_def second_def nanos_per_second_def)

lemma quiet_no_session:
  assumes e: "ended d t s" and q: "quiet d t c" and a: "snd (session_exec svc c s) = Inr (Some ses)"
  shows "dev_ID (ses_Device ses) \<noteq> d"
proof -
  obtain now cmd where c: "c = (now, cmd)" by (cases c)
  show ?thesis
  proof (cases cmd)
    case (SignIn draws user hash reg)
    with a obtain s' where "Login_tx svc draws now s user hash reg = Inr (ses, s')" by (auto simp: c split: sum.split_asm)
    then obtain dev s1 where u: "upsertDevice now s (usr_ID user) reg = Inr (dev, s1)" and i: "issueTokens svc draws now s1 user dev = Inr (ses, s')"
      by (rule Login_tx_Inr)
    from u have "dev_ID dev = reg_ID reg" by (rule upsertDevice_Inr)
    moreover from i have "ses_Device ses = dev" by (rule issueTokens_Inr)
    ultimately show ?thesis using q by (simp add: c SignIn)
  next
    case (RefreshToken draws token)
    obtain s' ans where R: "Refresh svc draws now s token = (s', ans)" by fastforce
    with a have "ans = Inr ses" by (cases ans) (simp_all add: c RefreshToken)
    with R obtain r where row: "refresh_row svc s token = Some r" and r: "now < rt_expires_at r" "rt_revoked_at r = None \<or> rt_rotated_to r \<noteq> None" "\<not> reused now r"
      and re: "reissue svc draws now s (rt_user_id r) (rt_device_id r) = (s', Inr ses)" by (cases rule: Refresh_cases) auto
    from re have dev: "dev_ID (ses_Device ses) = rt_device_id r" by (rule reissue_Inr)
    have "r \<in> set (refresh_tokens s)" using row unfolding refresh_row_def by (auto dest: find_SomeD)
    show ?thesis
    proof
      assume "dev_ID (ses_Device ses) = d"
      with e dev \<open>r \<in> _\<close> obtain x where x: "rt_revoked_at r = Some x" "x \<le> t" by (auto simp: ended_def)
      with grace_over [OF x(2), of now] q r show False by (simp add: c RefreshToken reused_iff)
    qed
  qed (use a in \<open>simp_all add: c\<close>)
qed

lemma ended_step:
  assumes inv: "session_inv s" and e: "ended d t s" and q: "quiet d t c"
  shows "ended d t (fst (session_exec svc c s))"
proof -
  note f = session_exec_frame [OF inv, of svc c] and no = quiet_no_session [OF e q]
  have "at_device_id a \<noteq> d" if "a \<in> set (access_tokens (fst (session_exec svc c s)))" for a
    using session_frameD(2) [OF f that]
  proof (elim disjE bexE exE conjE)
    fix a0 assume "a0 \<in> set (access_tokens s)" "access_from a0 a"
    with e show ?thesis by (simp add: ended_def access_from_def)
  next
    fix ses assume "snd (session_exec svc c s) = Inr (Some ses)" "issued_access svc ses a"
    with no [OF this(1)] show ?thesis by (simp add: issued_access_def)
  qed
  moreover have "\<exists>x. rt_revoked_at r = Some x \<and> x \<le> t" if "r \<in> set (refresh_tokens (fst (session_exec svc c s)))" "rt_device_id r = d" for r
    using session_frameD(3) [OF f that(1)]
  proof (elim disjE bexE exE conjE)
    fix r0 assume r0: "r0 \<in> set (refresh_tokens s)" "refresh_from r0 r"
    with that(2) e obtain x where "rt_revoked_at r0 = Some x" "x \<le> t" by (auto simp: ended_def refresh_from_def)
    with r0(2) show ?thesis by (simp add: refresh_from_def)
  next
    fix ses assume "snd (session_exec svc c s) = Inr (Some ses)" "issued_refresh svc ses r"
    with no [OF this(1)] that(2) show ?thesis by (simp add: issued_refresh_def)
  qed
  ultimately show ?thesis by (simp add: ended_def)
qed

interpretation ended_service: service "session_exec svc" "\<lambda>c s. fresh_draws svc c s \<and> quiet d t c" "\<lambda>s. session_inv s \<and> ended d t s" for svc d t
  by unfold_locales (simp add: session_service.inv_exec ended_step)

text \<open>A logout with the only live refresh token of a device, or the reuse of a rotated one, ends its sessions.\<close>

definition ends_all :: "AuthService \<Rightarrow> id \<Rightarrow> time \<times> session_cmd \<Rightarrow> db \<Rightarrow> bool" where
  "ends_all svc d c s \<longleftrightarrow> ends_sessions svc d c s \<and>
     (case snd c of RefreshToken _ _ \<Rightarrow> True
      | LogoutToken token \<Rightarrow> (\<forall>r\<in>set (refresh_tokens s). rt_device_id r = d \<and> rt_revoked_at r = None \<longrightarrow> rt_token_hash r = as_hash svc token)
      | _ \<Rightarrow> False)"

lemma ends_all_ended:
  assumes k: "tokens_ok s" and e: "ends_all svc d (t, cmd) s"
    and past: "\<forall>r\<in>set (refresh_tokens s). \<forall>x. rt_revoked_at r = Some x \<longrightarrow> x \<le> t"
  shows "ended d t (fst (session_exec svc (t, cmd) s))"
proof (cases cmd)
  case (LogoutToken token)
  with e obtain r where r: "r \<in> set (refresh_tokens s)" "rt_token_hash r = as_hash svc token" "rt_revoked_at r = None" "token \<noteq> []"
    and d: "rt_device_id r = d" and only: "\<forall>r\<in>set (refresh_tokens s). rt_device_id r = d \<and> rt_revoked_at r = None \<longrightarrow> rt_token_hash r = as_hash svc token"
    by (auto simp: ends_all_def)
  have "\<exists>y. rt_revoked_at x = Some y \<and> y \<le> t"
    if "x \<in> set (upd (\<lambda>x. rt_token_hash x = as_hash svc token) (\<lambda>x. x\<lparr>rt_revoked_at := Some t\<rparr>) (refresh_tokens s))" "rt_device_id x = d" for x
  proof -
    from that(1) obtain z where z: "z \<in> set (refresh_tokens s)" "x = (if rt_token_hash z = as_hash svc token then z\<lparr>rt_revoked_at := Some t\<rparr> else z)"
      by (auto simp: upd_def)
    show ?thesis
    proof (cases "rt_token_hash z = as_hash svc token")
      case False
      with z that(2) only obtain y where "rt_revoked_at z = Some y" by fastforce
      with False z past show ?thesis by simp
    qed (simp add: z(2))
  qed
  then show ?thesis by (simp add: LogoutToken Logout_live [OF k r] d ended_def)
next
  case (RefreshToken draws token)
  with e obtain r where r: "r \<in> set (refresh_tokens s)" "rt_token_hash r = as_hash svc token" "reused t r" "token \<noteq> []" and d: "rt_device_id r = d"
    by (auto simp: ends_all_def)
  let ?live = "\<lambda>r. rt_device_id r = d \<and> rt_revoked_at r = None"
  have "\<exists>y. rt_revoked_at x = Some y \<and> y \<le> t"
    if "x \<in> set (upd ?live (\<lambda>r. r\<lparr>rt_revoked_at := Some t\<rparr>) (refresh_tokens s))" "rt_device_id x = d" for x
  proof -
    from that(1) obtain z where z: "z \<in> set (refresh_tokens s)" "x = (if ?live z then z\<lparr>rt_revoked_at := Some t\<rparr> else z)" by (auto simp: upd_def)
    show ?thesis
    proof (cases "rt_revoked_at z")
      case None
      with z(2) that(2) show ?thesis by (auto split: if_split_asm)
    next
      case (Some y)
      with z past show ?thesis by simp
    qed
  qed
  then show ?thesis by (simp add: RefreshToken Refresh_reuse [OF k r] d revokeDeviceTokens_def ended_def)
qed (use e in \<open>simp_all add: ends_all_def\<close>)


text \<open>The chain of the worked example: \<open>r1\<close> was rotated to \<open>r2\<close>; two minutes later \<open>r1\<close> is presented again.\<close>

definition demo_chain :: db where
  "demo_chain = run_cmds (session_exec demo_auth) demo_sessions demo_accounts"

lemma demo_chain_inv: "session_inv demo_chain"
  unfolding demo_chain_def by (rule session_service.inv_run [OF demo_accounts_inv(1) demo_sessions_ok])

definition demo_reuse :: "time \<times> session_cmd" where
  "demo_reuse = (200 * second, RefreshToken (demo_token ''3'') (randomToken ''r1''))"

definition demo_later :: "(time \<times> session_cmd) list" where
  "demo_later = [(300 * second, RefreshToken (demo_token ''4'') (randomToken ''r2''))]"

lemma demo_reuse_facts:
  "\<forall>r\<in>set (refresh_tokens demo_chain). \<forall>x. rt_revoked_at r = Some x \<longrightarrow> x \<le> 200 * second"
  "ends_all demo_auth ''laptop'' demo_reuse demo_chain" "fresh_draws demo_auth demo_reuse demo_chain"
  "run_ok (\<lambda>c s. fresh_draws demo_auth c s \<and> quiet ''laptop'' (200 * second) c) (session_exec demo_auth) demo_later
     (fst (session_exec demo_auth demo_reuse demo_chain))"
proof -
  have "list_all (\<lambda>r. case rt_revoked_at r of None \<Rightarrow> True | Some x \<Rightarrow> x \<le> 200 * second) (refresh_tokens demo_chain)" by code_simp
  then show "\<forall>r\<in>set (refresh_tokens demo_chain). \<forall>x. rt_revoked_at r = Some x \<longrightarrow> x \<le> 200 * second"
    by (auto simp: list_all_iff split: option.split_asm)
qed code_simp+


section \<open>The grace period is a gap\<close>

text \<open>A gap: \<open>r1\<close> was rotated to \<open>r2\<close> at 100 s. The user logs out with \<open>r2\<close> at 110 s, which deletes every access token of the
  device and revokes \<open>r2\<close>. A refresh with the rotated \<open>r1\<close> at 120 s still answers with a new session: the rows a
  logout leaves do not tell the superseded tokens that the session is over.\<close>

theorem logout_leaves_predecessor:
  "case session_exec demo_auth (120 * second, RefreshToken (demo_token ''3'') (randomToken ''r1''))
       (fst (session_exec demo_auth (110 * second, LogoutToken (randomToken ''r2'')) demo_chain)) of
     (s, Inr (Some ses)) \<Rightarrow> Authenticate demo_auth (120 * second) s (ses_AccessToken ses) = Inr (''alice'', ''laptop'')
   | _ \<Rightarrow> False"
  by code_simp

text \<open>The same holds when the reuse of an older token has revoked everything: \<open>r2\<close> is rotated to \<open>r3\<close> at 200 s, the reuse
  of \<open>r1\<close> at 210 s revokes all tokens of the device, and at 220 s \<open>r2\<close>, which whoever rotated it holds, starts a new session.\<close>

theorem reuse_leaves_predecessor:
  "case session_exec demo_auth (220 * second, RefreshToken (demo_token ''5'') (randomToken ''r2''))
       (fst (session_exec demo_auth (210 * second, RefreshToken (demo_token ''4'') (randomToken ''r1''))
         (fst (session_exec demo_auth (200 * second, RefreshToken (demo_token ''3'') (randomToken ''r2'')) demo_chain)))) of
     (s, Inr (Some ses)) \<Rightarrow> Authenticate demo_auth (220 * second) s (ses_AccessToken ses) = Inr (''alice'', ''laptop'')
   | _ \<Rightarrow> False"
  by code_simp

end
