(* ===== verification/HB_Login.thy ===== *)
theory HB_Login
  imports HB_Session_Props
begin

text \<open>
  Signing in, with its three limiters. \<open>login_checks\<close>: what a session proves about the account, the password and the
  device. \<open>login_counts\<close>: on every branch of \<open>Login\<close>, early returns included, the slots taken from the limiters are given
  back, and a wrong password is counted in all three of them.
\<close>

section \<open>Slots and failures of a limiter\<close>

definition in_flight :: "attemptLimiter \<Rightarrow> string \<Rightarrow> int" where
  "in_flight l k = (case lookup_key k (entries l) of None \<Rightarrow> 0 | Some e \<Rightarrow> inFlight e)"

definition failures :: "attemptLimiter \<Rightarrow> string \<Rightarrow> int" where
  "failures l k = (case lookup_key k (entries l) of None \<Rightarrow> 0 | Some e \<Rightarrow> consecutiveFailures e)"

definition admits :: "attemptLimiter \<Rightarrow> string \<Rightarrow> time \<Rightarrow> bool" where
  "admits l k now \<longleftrightarrow> k = [] \<or> (case lookup_key k (entries l) of None \<Rightarrow> True
     | Some e \<Rightarrow> \<not> now < blockedUntil e \<and> \<not> (maxInFlight l > 0 \<and> inFlight e \<ge> maxInFlight l))"

lemma begin_admits: "snd (limiter_begin l k now) = admits l k now"
  by (simp add: limiter_begin_def admits_def split: option.split)

lemma begin_refused: "\<not> admits l k now \<Longrightarrow> limiter_begin l k now = (l, False)"
  by (auto simp: limiter_begin_def admits_def split: option.split_asm)

lemma limiter_inv_distinct: "limiter_inv l \<Longrightarrow> distinct (map fst (entries l))"
  by (simp add: limiter_inv_def)

lemma limiter_inv_flight: "limiter_inv l \<Longrightarrow> lookup_key k (entries l) = Some e \<Longrightarrow> 0 \<le> inFlight e"
  by (auto simp: limiter_inv_def entry_ok_def lookup_key_def dest: map_of_SomeD)

lemma lookup_key_in: "lookup_key k es = Some e \<Longrightarrow> (k, e) \<in> set es"
  by (simp add: lookup_key_def map_of_SomeD)

lemma lookup_key_None: "lookup_key k es = None \<longleftrightarrow> k \<notin> fst ` set es"
  by (simp add: lookup_key_def map_of_eq_None_iff)

text \<open>Pruning drops no entry with an attempt in flight.\<close>

lemma in_flight_insert:
  assumes inv: "limiter_inv l" and none: "lookup_key k (entries l) = None"
  shows "in_flight (limiter_insert l k e now) j = (if j = k then inFlight e else in_flight l j)"
    and "lookup_key k (entries (limiter_insert l k e now)) = Some e"
proof -
  let ?p = "pruned_entries l now"
  note d = limiter_inv_distinct [OF inv] and P = pruned_entries_ok [OF limiter_inv_distinct [OF inv], of now]
  have "k \<notin> fst ` set ?p" using P(2) none unfolding lookup_key_None by auto
  then have look: "lookup_key j (entries (limiter_insert l k e now)) = (if j = k then Some e else lookup_key j ?p)" for j
    by (simp add: limiter_insert_eq lookup_snoc)
  then show "lookup_key k (entries (limiter_insert l k e now)) = Some e" by simp
  have "(case lookup_key j ?p of None \<Rightarrow> 0 | Some e \<Rightarrow> inFlight e) = in_flight l j"
  proof (cases "lookup_key j (entries l)")
    case None
    then have "lookup_key j ?p = None" using P(2) unfolding lookup_key_None by auto
    with None show ?thesis by (simp add: in_flight_def)
  next
    case (Some x)
    show ?thesis
    proof (cases "inFlight x > 0")
      case True
      from pruned_keeps_busy [OF d lookup_key_in [OF Some], of now] True have "(j, x) \<in> set ?p" by (simp add: busy_def)
      then have "lookup_key j ?p = Some x" using lookup_iff [OF P(1)] by simp
      with Some show ?thesis by (simp add: in_flight_def)
    next
      case False
      with limiter_inv_flight [OF inv Some] have zero: "inFlight x = 0" by simp
      have "y = x" if "lookup_key j ?p = Some y" for y
        using lookup_one [OF d Some, of y] lookup_key_in [OF that] P(2) by auto
      with Some zero show ?thesis by (auto simp: in_flight_def split: option.split)
    qed
  qed
  with look [of j] show "in_flight (limiter_insert l k e now) j = (if j = k then inFlight e else in_flight l j)"
    by (simp add: in_flight_def)
qed

lemma begin_flight:
  assumes inv: "limiter_inv l" and ok: "admits l k now"
  shows "in_flight (fst (limiter_begin l k now)) j = in_flight l j + (if j = k \<and> k \<noteq> [] then 1 else 0)"
    and "k \<noteq> [] \<Longrightarrow> failures (fst (limiter_begin l k now)) k = failures l k"
proof -
  have "in_flight (fst (limiter_begin l k now)) j = in_flight l j + (if j = k \<and> k \<noteq> [] then 1 else 0) \<and>
    (k \<noteq> [] \<longrightarrow> failures (fst (limiter_begin l k now)) k = failures l k)"
  proof (cases "k = []")
    case False
    show ?thesis
    proof (cases "lookup_key k (entries l)")
      case None
      have "in_flight l k = 0" "failures l k = 0" by (simp_all add: in_flight_def failures_def None)
      then show ?thesis using in_flight_insert [OF inv None] False None
        by (simp add: limiter_begin_def failures_def emptyEntry_def)
    next
      case (Some e)
      then show ?thesis using ok False by (auto simp: limiter_begin_def admits_def in_flight_def failures_def split: option.split)
    qed
  qed (simp add: limiter_begin_def)
  then show "in_flight (fst (limiter_begin l k now)) j = in_flight l j + (if j = k \<and> k \<noteq> [] then 1 else 0)"
    "k \<noteq> [] \<Longrightarrow> failures (fst (limiter_begin l k now)) k = failures l k" by simp_all
qed

lemma end_flight:
  assumes "limiter_inv l"
  shows "in_flight (limiter_end l k) j = in_flight l j - (if j = k \<and> k \<noteq> [] \<and> in_flight l k > 0 then 1 else 0)"
    and "failures (limiter_end l k) j = failures l j"
  using limiter_inv_flight [OF assms, of k]
  by (auto simp: limiter_end_def in_flight_def failures_def Let_def split: option.split)

lemma failure_flight:
  assumes inv: "limiter_inv l"
  shows "in_flight (recordFailure l k now) j = in_flight l j"
    and "k \<noteq> [] \<Longrightarrow> failures (recordFailure l k now) k = failures l k + 1"
proof -
  have "in_flight (recordFailure l k now) j = in_flight l j \<and> (k \<noteq> [] \<longrightarrow> failures (recordFailure l k now) k = failures l k + 1)"
  proof (cases "lookup_key k (entries l)")
    case None
    then have "in_flight l k = 0" "failures l k = 0" by (simp_all add: in_flight_def failures_def)
    then show ?thesis using in_flight_insert [OF inv None] None
      by (simp add: recordFailure_def failures_def failed_entry_def emptyEntry_def)
  qed (auto simp: recordFailure_def in_flight_def failures_def failed_entry_def)
  then show "in_flight (recordFailure l k now) j = in_flight l j" "k \<noteq> [] \<Longrightarrow> failures (recordFailure l k now) k = failures l k + 1"
    by simp_all
qed

lemma success_flight: "in_flight (recordSuccess l k) j = in_flight l j"
  by (auto simp: recordSuccess_def in_flight_def split: option.split)

lemma limiter_inv_ops [intro]:
  "limiter_inv l \<Longrightarrow> limiter_inv (fst (limiter_begin l k now))"
  "limiter_inv l \<Longrightarrow> limiter_inv (limiter_end l k)"
  "limiter_inv l \<Longrightarrow> limiter_inv (recordFailure l k now)"
  "limiter_inv l \<Longrightarrow> limiter_inv (recordSuccess l k)"
  using limiter_exec_inv [of l "Begin k now"] limiter_exec_inv [of l "End k"] limiter_exec_inv [of l "Failure k now"]
    limiter_exec_inv [of l "Success k"] by simp_all

lemma give_back:
  assumes inv: "limiter_inv l" "limiter_inv l'" and ok: "admits l k now"
    and same: "\<And>j. in_flight l' j = in_flight (fst (limiter_begin l k now)) j"
  shows "in_flight (limiter_end l' k) j = in_flight l j"
proof -
  have "0 \<le> in_flight l k" using limiter_inv_flight [OF inv(1)] by (auto simp: in_flight_def split: option.split)
  then show ?thesis by (simp add: end_flight [OF inv(2)] same begin_flight [OF inv(1) ok])
qed

section \<open>Login\<close>

definition limiters_inv :: "auth_state \<Rightarrow> bool" where
  "limiters_inv st \<longleftrightarrow> limiter_inv (au_login st) \<and> limiter_inv (au_account st) \<and> limiter_inv (au_address st)"

definition slots :: "auth_state \<Rightarrow> string \<Rightarrow> int \<times> int \<times> int" where
  "slots st j = (in_flight (au_login st) j, in_flight (au_account st) j, in_flight (au_address st) j)"

definition login_admits :: "auth_state \<Rightarrow> time \<Rightarrow> string \<Rightarrow> string \<Rightarrow> bool" where
  "login_admits st now clientAddr normalized \<longleftrightarrow> admits (au_address st) clientAddr now \<and> admits (au_account st) normalized now \<and>
     admits (au_login st) (attempt_key normalized clientAddr) now"

lemma login_admit_ok:
  assumes "login_admits st now addr norm"
  shows "login_admit st now addr norm =
    (st\<lparr>au_address := fst (limiter_begin (au_address st) addr now), au_account := fst (limiter_begin (au_account st) norm now),
        au_login := fst (limiter_begin (au_login st) (attempt_key norm addr) now)\<rparr>, True)"
  using assms by (simp add: login_admit_def login_admits_def Let_def split_def begin_admits)

lemma login_admit_refused:
  assumes inv: "limiters_inv st" and no: "\<not> login_admits st now addr norm"
  shows "snd (login_admit st now addr norm) = False" "au_db (fst (login_admit st now addr norm)) = au_db st"
    "slots (fst (login_admit st now addr norm)) j = slots st j" "limiters_inv (fst (login_admit st now addr norm))"
proof -
  have give: "in_flight (limiter_end (fst (limiter_begin l k now)) k) j = in_flight l j" if "limiter_inv l" "admits l k now" for l k
    using that by (intro give_back) auto
  have "snd (login_admit st now addr norm) = False \<and> au_db (fst (login_admit st now addr norm)) = au_db st \<and>
    slots (fst (login_admit st now addr norm)) j = slots st j \<and> limiters_inv (fst (login_admit st now addr norm))"
    using no inv give [of "au_address st" addr] give [of "au_account st" norm]
    by (auto simp: login_admit_def login_admits_def Let_def split_def begin_admits begin_refused slots_def limiters_inv_def)
  then show "snd (login_admit st now addr norm) = False" "au_db (fst (login_admit st now addr norm)) = au_db st"
    "slots (fst (login_admit st now addr norm)) j = slots st j" "limiters_inv (fst (login_admit st now addr norm))" by simp_all
qed

text \<open>What the attempt itself does between taking the slots and giving them back.\<close>

lemma login_attempt_cases:
  obtains (unknown) "login_lookup (au_db st) norm = None"
      "login_attempt svc draws now st addr norm pw reg = (login_failed st now addr norm, Inl AuthInvalidCredentials)"
  | (wrong) u where "login_lookup (au_db st) norm = Some u" "\<not> VerifyPassword (as_argon svc) (u_password_hash u) pw"
      "login_attempt svc draws now st addr norm pw reg = (login_failed st now addr norm, Inl AuthInvalidCredentials)"
  | (refused) u e where "login_lookup (au_db st) norm = Some u" "VerifyPassword (as_argon svc) (u_password_hash u) pw"
      "u_status u \<noteq> ''ACTIVE'' \<and> e = AuthAccountDisabled \<or> Login_tx svc draws now (au_db st) (scanUser u) (u_password_hash u) reg = Inl e"
      "login_attempt svc draws now st addr norm pw reg = (st, Inl e)"
  | (signed_in) u ses s' where "login_lookup (au_db st) norm = Some u" "VerifyPassword (as_argon svc) (u_password_hash u) pw"
      "Login_tx svc draws now (au_db st) (scanUser u) (u_password_hash u) reg = Inr (ses, s')"
      "login_attempt svc draws now st addr norm pw reg = (login_succeeded (st\<lparr>au_db := s'\<rparr>) addr norm, Inr ses)"
proof (cases "login_lookup (au_db st) norm")
  case None
  then show ?thesis using unknown by (simp add: login_attempt_def)
next
  case (Some u)
  note A = login_attempt_def [of svc draws now st addr norm pw reg, unfolded Some, simplified]
  show ?thesis
  proof (cases "VerifyPassword (as_argon svc) (u_password_hash u) pw")
    case v: True
    show ?thesis
    proof (cases "u_status u = ''ACTIVE''")
      case True
      show ?thesis
      proof (cases "Login_tx svc draws now (au_db st) (scanUser u) (u_password_hash u) reg")
        case (Inl e)
        with Some v True show ?thesis by (intro refused [of u e]) (simp_all add: A)
      next
        case (Inr p)
        with Some v True show ?thesis by (intro signed_in [of u "fst p" "snd p"]) (simp_all add: A split_def)
      qed
    next
      case False
      with Some v show ?thesis by (intro refused [of u AuthAccountDisabled]) (simp_all add: A)
    qed
  next
    case False
    with Some show ?thesis by (intro wrong [of u]) (simp_all add: A)
  qed
qed

lemma login_attempt_slots:
  assumes "limiters_inv st"
  shows "slots (fst (login_attempt svc draws now st addr norm pw reg)) j = slots st j"
    and "limiters_inv (fst (login_attempt svc draws now st addr norm pw reg))"
proof -
  have f: "slots (login_failed st now addr norm) j = slots st j" "limiters_inv (login_failed st now addr norm)"
    using assms by (auto simp: slots_def limiters_inv_def login_failed_def failure_flight)
  have s: "slots (login_succeeded (st\<lparr>au_db := s'\<rparr>) addr norm) j = slots st j" "limiters_inv (login_succeeded (st\<lparr>au_db := s'\<rparr>) addr norm)" for s'
    using assms by (auto simp: slots_def limiters_inv_def login_succeeded_def success_flight)
  have "slots (fst (login_attempt svc draws now st addr norm pw reg)) j = slots st j \<and>
      limiters_inv (fst (login_attempt svc draws now st addr norm pw reg))"
    by (cases rule: login_attempt_cases [of st norm svc draws now addr pw reg]) (simp_all add: f s assms)
  then show "slots (fst (login_attempt svc draws now st addr norm pw reg)) j = slots st j"
    "limiters_inv (fst (login_attempt svc draws now st addr norm pw reg))" by simp_all
qed

lemma Login_cases:
  obtains (early) e where "(\<exists>x. normalizeUsername name = Inl x) \<or> e \<noteq> AuthInvalidCredentials" "Login svc draws now st addr name pw reg = (st, Inl e)"
  | (refused) username norm where "normalizeUsername name = Inr (username, norm)" "\<not> login_admits st now addr norm"
      "Login svc draws now st addr name pw reg = (fst (login_admit st now addr norm), Inl AuthRateLimited)"
  | (attempt) username norm st2 r where "normalizeUsername name = Inr (username, norm)" "validateDeviceRegistration (as_uuid svc) reg = Inr ()"
      "login_admits st now addr norm"
      "login_attempt svc draws now (fst (login_admit st now addr norm)) addr norm pw reg = (st2, r)"
      "Login svc draws now st addr name pw reg = (login_release st2 addr norm, r)"
proof (cases "normalizeUsername name")
  case (Inl e)
  then show ?thesis using early by (simp add: Login_def)
next
  case (Inr p)
  obtain username norm where p: "p = (username, norm)" by (cases p)
  show ?thesis
  proof (cases "validateDeviceRegistration (as_uuid svc) reg")
    case (Inl e)
    then have "e \<noteq> AuthInvalidCredentials" by (auto simp: validateDeviceRegistration_def split: if_split_asm)
    then show ?thesis using Inl Inr p early [of e] by (simp add: Login_def)
  next
    case v: (Inr unit)
    have admit: "snd (login_admit st now addr norm) = login_admits st now addr norm"
      by (simp add: login_admit_def login_admits_def Let_def split_def begin_admits)
    obtain st2 r where a: "login_attempt svc draws now (fst (login_admit st now addr norm)) addr norm pw reg = (st2, r)" by fastforce
    show ?thesis
    proof (cases "login_admits st now addr norm")
      case True
      with Inr p v admit a show ?thesis by (intro attempt [of username norm st2 r]) (simp_all add: Login_def Let_def split_def)
    next
      case False
      with Inr p v admit show ?thesis by (intro refused [of username norm]) (simp_all add: Login_def Let_def split_def)
    qed
  qed
qed

lemma release_slots:
  assumes inv: "limiters_inv st" "limiters_inv st2" and ok: "login_admits st now addr norm"
    and same: "\<And>j. slots st2 j = slots (fst (login_admit st now addr norm)) j"
  shows "slots (login_release st2 addr norm) j = slots st j"
  using inv ok same
  by (auto simp: slots_def login_release_def login_admit_ok login_admits_def limiters_inv_def intro!: give_back)

lemma admit_inv:
  assumes "limiters_inv st" "login_admits st now addr norm"
  shows "limiters_inv (fst (login_admit st now addr norm))"
  using assms by (auto simp: limiters_inv_def login_admit_ok)

definition three_failures :: "auth_state \<Rightarrow> string \<Rightarrow> string \<Rightarrow> int \<times> int \<times> int" where
  "three_failures st clientAddr normalized = (failures (au_login st) (attempt_key normalized clientAddr),
     failures (au_account st) normalized, failures (au_address st) clientAddr)"

lemma failed_counts:
  assumes inv: "limiters_inv st" and ok: "login_admits st now addr norm" and ne: "norm \<noteq> []" "addr \<noteq> []"
  shows "three_failures (login_release (login_failed (fst (login_admit st now addr norm)) now addr norm) addr norm) addr norm =
    (case three_failures st addr norm of (a, b, c) \<Rightarrow> (a + 1, b + 1, c + 1))"
proof -
  have one: "failures (limiter_end (recordFailure (fst (limiter_begin l k now)) k now) k) k = failures l k + 1"
    if "limiter_inv l" "admits l k now" "k \<noteq> []" for l k
  proof -
    have b: "limiter_inv (fst (limiter_begin l k now))" and f: "limiter_inv (recordFailure (fst (limiter_begin l k now)) k now)"
      using that by auto
    show ?thesis by (simp add: end_flight(2) [OF f] failure_flight(2) [OF b that(3)] begin_flight(2) [OF that])
  qed
  show ?thesis
    using inv ok ne
    by (simp add: three_failures_def login_release_def login_failed_def login_admit_ok login_admits_def limiters_inv_def one attempt_key_def)
qed

lemma no_invalid_at_commit:
  assumes k: "tokens_ok s" and u: "login_lookup s norm = Some u"
  shows "Login_tx svc draws now s (scanUser u) (u_password_hash u) reg \<noteq> Inl AuthInvalidCredentials"
proof -
  have "u \<in> set (users s)" using find_SomeD [OF u [unfolded login_lookup_def]] by simp
  with k have "user_of s (u_id u) = Some u" unfolding user_of_def by (simp add: find_key_iff tokens_ok_def)
  moreover have "upsertDevice now s v reg \<noteq> Inl AuthInvalidCredentials" for v
    by (auto simp: upsertDevice_def split: sum.split)
  moreover have "issueTokens svc draws now s1 v dev \<noteq> Inl AuthInvalidCredentials" for s1 v dev
    by (simp add: issueTokens_def Let_def)
  ultimately show ?thesis by (auto simp: Login_tx_def scanUser_def ebind_eq_Inl split: if_split_asm)
qed

lemma upsertDevice_checks:
  assumes d: "distinct (map d_id (devices s))" and u: "upsertDevice now s u reg = Inr (dev, s1)" and x: "x \<in> set (devices s)" "d_id x = reg_ID reg"
  shows "d_user_id x = u \<and> d_revoked_at x = None \<and> d_e2ee_public_key x = reg_PublicKey reg \<and> d_e2ee_key_version x = reg_KeyVersion reg"
proof (cases "device_of s (reg_ID reg) u")
  case None
  with u have "count_rows (\<lambda>d. d_id d = reg_ID reg \<and> d_user_id d \<noteq> u) (devices s) = 0"
    by (auto simp: upsertDevice_def loadDevice_def split: if_split_asm)
  with None x show ?thesis by (auto simp: device_of_def find_None_iff count_rows_def filter_empty_conv)
next
  case (Some y)
  from find_SomeD [OF Some [unfolded device_of_def]] have y: "y \<in> set (devices s)" "d_id y = reg_ID reg" "d_user_id y = u" by simp_all
  from distinct_map_eq [OF d x(1) y(1)] x(2) y(2) have "x = y" by simp
  with Some u y show ?thesis by (auto simp: upsertDevice_def loadDevice_def scanDevice_def split: if_split_asm)
qed

lemma norm_nonempty: "normalizeUsername name = Inr (username, norm) \<Longrightarrow> norm \<noteq> []"
  using normalizeUsername_Inr [of name username norm] by (auto simp: ToLower_def)

text \<open>Every attempt is accounted for: whatever branch \<open>Login\<close> takes, it gives back the slots it took in the three
  limiters, so no failed or refused attempt can lock anybody out by leaking one; an attempt that fails changes nothing in the
  database; and an unknown user or a wrong password is counted as one failure by all three limiters, unless they refused it
  before the password was looked at.\<close>

theorem login_counts:
  assumes inv: "limiters_inv st" "tokens_ok (au_db st)" and addr: "addr \<noteq> []"
    and L: "Login svc draws now st addr name pw reg = (st', r)"
  shows "(\<forall>j. slots st' j = slots st j) \<and> limiters_inv st' \<and>
    (\<forall>e. r = Inl e \<longrightarrow> au_db st' = au_db st) \<and>
    (\<forall>username norm. normalizeUsername name = Inr (username, norm) \<longrightarrow> r = Inl AuthInvalidCredentials \<longrightarrow>
       three_failures st' addr norm = (case three_failures st addr norm of (a, b, c) \<Rightarrow> (a + 1, b + 1, c + 1)))"
proof (cases rule: Login_cases [of name svc draws now st addr pw reg])
  case (early e)
  with L inv show ?thesis by auto
next
  case (refused username norm)
  with L login_admit_refused [OF inv(1) refused(2)] show ?thesis by auto
next
  case (attempt username norm st2 q)
  let ?st1 = "fst (login_admit st now addr norm)"
  have st': "st' = login_release st2 addr norm" and r: "r = q" using L attempt(5) by simp_all
  note inv1 = admit_inv [OF inv(1) attempt(3)]
  have db1: "au_db ?st1 = au_db st" by (simp add: login_admit_ok [OF attempt(3)])
  have s2: "\<And>j. slots st2 j = slots ?st1 j" "limiters_inv st2"
    using login_attempt_slots [OF inv1, of svc draws now addr norm pw reg] by (simp_all add: attempt(4))
  have "slots st' j = slots st j" for j unfolding st' by (rule release_slots [OF inv(1) s2(2) attempt(3) s2(1)])
  moreover have "limiters_inv st'" using s2(2) by (auto simp: st' login_release_def limiters_inv_def)
  moreover have "(\<forall>e. r = Inl e \<longrightarrow> au_db st' = au_db st) \<and> (r = Inl AuthInvalidCredentials \<longrightarrow>
       three_failures st' addr norm = (case three_failures st addr norm of (a, b, c) \<Rightarrow> (a + 1, b + 1, c + 1)))"
  proof (cases rule: login_attempt_cases [of ?st1 norm svc draws now addr pw reg])
    case unknown
    then show ?thesis using attempt(4) failed_counts [OF inv(1) attempt(3) norm_nonempty [OF attempt(1)] addr] db1
      by (auto simp: st' login_release_def login_failed_def)
  next
    case (wrong u)
    then show ?thesis using attempt(4) failed_counts [OF inv(1) attempt(3) norm_nonempty [OF attempt(1)] addr] db1
      by (auto simp: st' login_release_def login_failed_def)
  next
    case (refused u e)
    with no_invalid_at_commit [of "au_db st" norm u svc draws now reg] inv(2) attempt(4) db1 show ?thesis
      by (auto simp: st' r login_release_def)
  next
    case (signed_in u ses s')
    with attempt(4) show ?thesis by (auto simp: r)
  qed
  ultimately show ?thesis using attempt(1) by simp
qed

text \<open>C33: A session proves the sign-in: \<open>Login\<close> answers with one only if the three limiters admit the attempt, the stored hash of
  the account of that user name accepts the password, the account is active, and the device ID is new or belongs to
  this account, unrevoked, with the same public key and key version.\<close>

theorem login_checks:
  assumes k: "tokens_ok (au_db st)" and L: "Login svc draws now st addr name pw reg = (st', Inr ses)"
  shows "\<exists>u\<in>set (users (au_db st)). \<exists>username norm. normalizeUsername name = Inr (username, norm) \<and> u_username_norm u = norm \<and>
    login_admits st now addr norm \<and> VerifyPassword (as_argon svc) (u_password_hash u) pw \<and> u_status u = ''ACTIVE'' \<and>
    ses_User ses = scanUser u \<and> dev_ID (ses_Device ses) = reg_ID reg \<and>
    (\<forall>d\<in>set (devices (au_db st)). d_id d = reg_ID reg \<longrightarrow> d_user_id d = u_id u \<and> d_revoked_at d = None \<and>
       d_e2ee_public_key d = reg_PublicKey reg \<and> d_e2ee_key_version d = reg_KeyVersion reg)"
proof (cases rule: Login_cases [of name svc draws now st addr pw reg])
  case (attempt username norm st2 q)
  let ?st1 = "fst (login_admit st now addr norm)"
  have db1: "au_db ?st1 = au_db st" by (simp add: login_admit_ok [OF attempt(3)])
  have a: "login_attempt svc draws now ?st1 addr norm pw reg = (st2, Inr ses)" using L attempt(4,5) by simp
  from a show ?thesis
  proof (cases rule: login_attempt_cases [of ?st1 norm svc draws now addr pw reg])
    case (signed_in u ses' s')
    from find_SomeD [OF signed_in(1) [unfolded login_lookup_def]] have u: "u \<in> set (users (au_db st))" "u_username_norm u = norm"
      by (simp_all add: db1)
    have tx: "Login_tx svc draws now (au_db st) (scanUser u) (u_password_hash u) reg = Inr (ses, s')" using signed_in(3,4) a db1 by simp
    then obtain usr dev s1 where usr: "user_of (au_db st) (u_id u) = Some usr" "u_status usr = ''ACTIVE''"
      and up: "upsertDevice now (au_db st) (u_id u) reg = Inr (dev, s1)" and i: "issueTokens svc draws now s1 (scanUser u) dev = Inr (ses, s')"
      by (rule Login_tx_Inr) (simp add: scanUser_def)
    from k have ku: "distinct (map u_id (users (au_db st)))" and kd: "distinct (map d_id (devices (au_db st)))" by (simp_all add: tokens_ok_def)
    have "usr = u" using usr(1) u(1) unfolding user_of_def find_key_iff [OF ku] using distinct_map_eq [OF ku, of usr u] by simp
    moreover from up have "dev_ID dev = reg_ID reg" by (rule upsertDevice_Inr)
    moreover from i have "ses_User ses = scanUser u" by (rule issueTokens_Inr)
    moreover from i have "ses_Device ses = dev" by (rule issueTokens_Inr)
    ultimately show ?thesis using attempt(1,3) u signed_in(2) usr(2) upsertDevice_checks [OF kd up] by blast
  qed simp_all
qed (use L in simp_all)

section \<open>A worked example\<close>

definition demo_hash_text :: string where
  "demo_hash_text = HashPassword demo_argon ''0123456789abcdef'' ''correct horse battery''"

definition demo_login :: auth_state where
  "demo_login = initial_limiters (empty_db\<lparr>users := [new_user 0 ''alice'' ''Alice'' ''alice'' demo_hash_text ''ADMIN'']\<rparr>)"

lemma demo_login_inv: "limiters_inv demo_login" "tokens_ok (au_db demo_login)"
  by (simp_all add: limiters_inv_def demo_login_def initial_limiters_def tokens_ok_def empty_db_def)

lemma demo_verifies: "VerifyPassword demo_argon demo_hash_text ''correct horse battery''"
  unfolding demo_hash_text_def by (subst VerifyPassword_hash) (simp_all add: demo_argon_def)

lemma demo_strip: "strip_space ''Bob'' = None" "strip_space_right ''Bob'' = None" "strip_space_right ''Alice'' = None"
  "strip_space ''Alice '' = None" "strip_space '' Alice '' = Some ''Alice ''" "strip_space_right ''Alice '' = Some ''Alice''"
  by (simp_all add: strip_space_def strip_space_right_def space_encodings_def)

lemma demo_trim: "TrimSpace ''Bob'' = ''Bob''" "TrimSpace '' Alice '' = ''Alice''"
proof -
  have a: "trim_left ''Alice '' = ''Alice ''" "trim_right ''Alice'' = ''Alice''"
    by (subst trim_left.simps, simp add: demo_strip) (subst trim_right.simps, simp add: demo_strip)
  have "trim_left '' Alice '' = ''Alice ''" by (subst trim_left.simps) (simp add: demo_strip a)
  then show "TrimSpace '' Alice '' = ''Alice''" unfolding TrimSpace_def by (simp, subst trim_right.simps) (simp add: demo_strip a)
  show "TrimSpace ''Bob'' = ''Bob''"
    unfolding TrimSpace_def by (subst trim_left.simps, simp add: demo_strip) (subst trim_right.simps, simp add: demo_strip)
qed

lemma demo_normal: "normalizeUsername '' Alice '' = Inr (''Alice'', ''alice'')" "normalizeUsername ''Bob'' = Inr (''Bob'', ''bob'')"
  by (simp_all add: normalizeUsername_def demo_trim name_char_def Let_def ToLower_def lower_char_def char_of_def bit_0)

lemma demo_login_ok:
  "\<exists>st' ses. Login demo_auth (demo_token ''1'') 0 demo_login ''10.0.0.1'' '' Alice '' ''correct horse battery'' demo_laptop = (st', Inr ses)"
proof -
  have v: "validateDeviceRegistration (as_uuid demo_auth) demo_laptop = Inr ()" by code_simp
  have a: "login_admits demo_login 0 ''10.0.0.1'' ''alice''"
    by (simp add: login_admits_def admits_def demo_login_def initial_limiters_def newAttemptLimiter_def lookup_key_def)
  let ?u = "new_user 0 ''alice'' ''Alice'' ''alice'' demo_hash_text ''ADMIN''"
  have db: "au_db (fst (login_admit demo_login 0 ''10.0.0.1'' ''alice'')) = au_db demo_login" by (simp add: login_admit_ok [OF a])
  have u: "login_lookup (au_db demo_login) ''alice'' = Some ?u" "u_status ?u = ''ACTIVE''" "u_password_hash ?u = demo_hash_text"
    by (simp_all add: login_lookup_def demo_login_def initial_limiters_def new_user_def)
  obtain ses s' where tx: "Login_tx demo_auth (demo_token ''1'') 0 (au_db demo_login) (scanUser ?u) demo_hash_text demo_laptop = Inr (ses, s')"
    by (simp add: Login_tx_def user_of_def scanUser_def demo_login_def initial_limiters_def new_user_def upsertDevice_def loadDevice_def
        device_of_def empty_db_def issueTokens_def Let_def)
  have "as_argon demo_auth = demo_argon" by (simp add: demo_auth_def)
  then have "\<exists>st' ses. login_attempt demo_auth (demo_token ''1'') 0 (fst (login_admit demo_login 0 ''10.0.0.1'' ''alice'')) ''10.0.0.1'' ''alice''
      ''correct horse battery'' demo_laptop = (st', Inr ses)"
    by (simp add: login_attempt_def db u tx demo_verifies)
  then show ?thesis
    by (cases rule: Login_cases [of "'' Alice ''" demo_auth "demo_token ''1''" 0 demo_login "''10.0.0.1''" "''correct horse battery''" demo_laptop])
       (use a v demo_normal in \<open>auto simp: Login_def Let_def split_def login_admit_ok [OF a]\<close>)
qed

theorem login_checks_witness:
  "\<exists>u\<in>set (users (au_db demo_login)). u_id u = ''alice'' \<and> VerifyPassword demo_argon (u_password_hash u) ''correct horse battery''"
proof -
  from demo_login_ok obtain st' ses where
    "Login demo_auth (demo_token ''1'') 0 demo_login ''10.0.0.1'' '' Alice '' ''correct horse battery'' demo_laptop = (st', Inr ses)" by blast
  from login_checks [OF demo_login_inv(2) this] show ?thesis
    by (auto simp: demo_login_def initial_limiters_def new_user_def demo_auth_def)
qed

lemma demo_unknown:
  "snd (Login demo_auth (demo_token ''1'') 0 demo_login ''10.0.0.1'' ''Bob'' ''guess'' demo_laptop) = Inl AuthInvalidCredentials"
proof -
  have v: "validateDeviceRegistration (as_uuid demo_auth) demo_laptop = Inr ()" by code_simp
  have a: "login_admits demo_login 0 ''10.0.0.1'' ''bob''"
    by (simp add: login_admits_def admits_def demo_login_def initial_limiters_def newAttemptLimiter_def lookup_key_def)
  have db: "au_db (fst (login_admit demo_login 0 ''10.0.0.1'' ''bob'')) = au_db demo_login" by (simp add: login_admit_ok [OF a])
  have "login_lookup (au_db demo_login) ''bob'' = None"
    by (simp add: login_lookup_def demo_login_def initial_limiters_def new_user_def)
  with db have "snd (login_attempt demo_auth (demo_token ''1'') 0 (fst (login_admit demo_login 0 ''10.0.0.1'' ''bob'')) ''10.0.0.1'' ''bob''
      ''guess'' demo_laptop) = Inl AuthInvalidCredentials" by (simp add: login_attempt_def)
  then show ?thesis by (simp add: Login_def demo_normal v login_admit_ok [OF a] split_def)
qed

theorem login_counts_witness:
  "three_failures (fst (Login demo_auth (demo_token ''1'') 0 demo_login ''10.0.0.1'' ''Bob'' ''guess'' demo_laptop)) ''10.0.0.1'' ''bob'' = (1, 1, 1)"
proof -
  obtain st' r where L: "Login demo_auth (demo_token ''1'') 0 demo_login ''10.0.0.1'' ''Bob'' ''guess'' demo_laptop = (st', r)" by fastforce
  with demo_unknown have r: "r = Inl AuthInvalidCredentials" by simp
  have "three_failures demo_login ''10.0.0.1'' ''bob'' = (0, 0, 0)"
    by (simp add: three_failures_def failures_def demo_login_def initial_limiters_def newAttemptLimiter_def lookup_key_def)
  with login_counts [OF demo_login_inv _ L] demo_normal(2) r show ?thesis unfolding L fst_conv by simp
qed

end
