(* ===== verification/HB_Favorites.thy ===== *)
theory HB_Favorites
  imports HB_Nodes HB_Demo
begin

text \<open>
  Favorites (internal/favorites/service.go): which nodes each account marked. \<open>favorites_listing\<close> compares the
  listing with what the node service lets the account read; \<open>favorites_stay_bounded\<close> covers sequences of requests.
\<close>

section \<open>Operations\<close>

definition MaxFavorites :: nat where "MaxFavorites = 10000"

record Favorite =
  Fav_NodeID :: id
  Fav_CreatedAt :: time

definition requireVisible :: "db \<Rightarrow> id \<Rightarrow> id \<Rightarrow> err + unit" where
  "requireVisible s userID nodeID =
     (case node_of s nodeID of
        None \<Rightarrow> Inl FavoritesNotFound
      | Some n \<Rightarrow>
          if n_deleted_at n \<noteq> None then Inl FavoritesNotFound
          else if n_owner_id n = userID then Inr ()
          else ebind (ShareGrant s userID nodeID) (\<lambda>grant. case grant of None \<Rightarrow> Inl FavoritesNotFound | Some _ \<Rightarrow> Inr ()))"

definition AddFavorite :: "uuid_pkg \<Rightarrow> time \<Rightarrow> db \<Rightarrow> id \<Rightarrow> id \<Rightarrow> err + db" where
  "AddFavorite U now s userID nodeID =
     (if \<not> ValidUUID U userID \<or> \<not> ValidUUID U nodeID then Inl (Validation ''user and node IDs must be valid UUIDs'')
      else ebind (requireVisible s userID nodeID) (\<lambda>_.
        if count_rows (\<lambda>f. fav_user_id f = userID) (favorites s) \<ge> MaxFavorites
        then Inl (Validation ''too many favorites; remove some first'')
        else if \<exists>f\<in>set (favorites s). fav_user_id f = userID \<and> fav_node_id f = nodeID then Inr s
        else Inr (s\<lparr>favorites := favorites s @ [\<lparr>fav_user_id = userID, fav_node_id = nodeID, fav_created_at = now\<rparr>]\<rparr>)))"

definition RemoveFavorite :: "uuid_pkg \<Rightarrow> db \<Rightarrow> id \<Rightarrow> id \<Rightarrow> err + db" where
  "RemoveFavorite U s userID nodeID =
     (if \<not> ValidUUID U userID \<or> \<not> ValidUUID U nodeID then Inl (Validation ''user and node IDs must be valid UUIDs'')
      else Inr (s\<lparr>favorites := del (\<lambda>f. fav_user_id f = userID \<and> fav_node_id f = nodeID) (favorites s)\<rparr>))"

text \<open>The joined rows \<open>(favorite, owner)\<close>, newest first, and the loop that drops what the account cannot see.\<close>

definition favorite_rows :: "db \<Rightarrow> id \<Rightarrow> (Favorite \<times> id) list" where
  "favorite_rows s userID =
     rev (sort_key (\<lambda>r. stamp (Fav_CreatedAt (fst r))) (rev (concat (map (\<lambda>f.
       map (\<lambda>n. (\<lparr>Fav_NodeID = fav_node_id f, Fav_CreatedAt = fav_created_at f\<rparr>, n_owner_id n))
         (filter (\<lambda>n. n_id n = fav_node_id f \<and> n_deleted_at n = None) (nodes s)))
       (filter (\<lambda>f. fav_user_id f = userID) (favorites s))))))"

fun visible_loop :: "db \<Rightarrow> id \<Rightarrow> (Favorite \<times> id) list \<Rightarrow> err + Favorite list" where
  "visible_loop s userID [] = Inr []"
| "visible_loop s userID ((f, ownerID) # rows) =
     (if ownerID \<noteq> userID
      then ebind (ShareGrant s userID (Fav_NodeID f)) (\<lambda>grant. case grant of
             None \<Rightarrow> visible_loop s userID rows
           | Some _ \<Rightarrow> ebind (visible_loop s userID rows) (\<lambda>fs. Inr (f # fs)))
      else ebind (visible_loop s userID rows) (\<lambda>fs. Inr (f # fs)))"

definition ListFavorites :: "uuid_pkg \<Rightarrow> db \<Rightarrow> id \<Rightarrow> err + Favorite list" where
  "ListFavorites U s userID =
     (if \<not> ValidUUID U userID then Inl (Validation ''user ID must be a valid UUID'')
      else visible_loop s userID (favorite_rows s userID))"

section \<open>The listing\<close>

definition grants :: "db \<Rightarrow> id \<Rightarrow> Favorite \<times> id \<Rightarrow> bool" where
  "grants s u r \<longleftrightarrow> snd r = u \<or> (\<exists>g. ShareGrant s u (Fav_NodeID (fst r)) = Inr (Some g))"

lemma visible_loop_filter:
  assumes "forest (nodes s)"
  shows "visible_loop s u rows = Inr (map fst (filter (grants s u) rows))"
proof (induction rows)
  case (Cons r rows)
  obtain f p where r: "r = (f, p)" by (cases r)
  from ShareGrant_returns [OF assms, of u "Fav_NodeID f"] obtain g where "ShareGrant s u (Fav_NodeID f) = Inr g" by blast
  with Cons show ?case by (cases g) (auto simp: r grants_def)
qed simp

lemma in_favorite_rows:
  "r \<in> set (favorite_rows s u) \<longleftrightarrow> (\<exists>f\<in>set (favorites s). \<exists>n\<in>set (nodes s). fav_user_id f = u \<and> n_id n = fav_node_id f \<and>
     n_deleted_at n = None \<and> r = (\<lparr>Fav_NodeID = fav_node_id f, Fav_CreatedAt = fav_created_at f\<rparr>, n_owner_id n))"
  by (auto simp: favorite_rows_def)

lemma requireVisible_iff:
  assumes "forest (nodes s)"
  shows "requireVisible s u i = Inr () \<longleftrightarrow> (\<exists>n\<in>set (nodes s). n_id n = i \<and> n_deleted_at n = None \<and>
    (n_owner_id n = u \<or> (\<exists>g. ShareGrant s u i = Inr (Some g))))"
proof (cases "node_of s i")
  case None
  then have "requireVisible s u i \<noteq> Inr ()" by (simp add: requireVisible_def)
  with None show ?thesis unfolding node_of_None by blast
next
  case (Some n)
  from assms have d: "distinct (map n_id (nodes s))" by (simp add: forest_def)
  from Some have n: "n \<in> set (nodes s)" "n_id n = i" by (simp_all add: node_of_iff [OF d])
  have one: "m = n" if "m \<in> set (nodes s)" "n_id m = i" for m using distinct_map_eq [OF d that(1) n(1)] that(2) n(2) by simp
  from ShareGrant_returns [OF assms, of u i] obtain g where "ShareGrant s u i = Inr g" by blast
  then have "requireVisible s u i = Inr () \<longleftrightarrow> n_deleted_at n = None \<and> (n_owner_id n = u \<or> (\<exists>g. ShareGrant s u i = Inr (Some g)))"
    by (cases g) (auto simp: requireVisible_def Some)
  with n one show ?thesis by blast
qed

lemma requireVisible_Get:
  "requireVisible s u i = Inr () \<longleftrightarrow> (\<exists>n. Get s u i = Inr n \<and> \<not> IsDeleted n)"
proof (cases "node_of s i")
  case (Some r)
  have f: "N_OwnerID (scanNode r) = n_owner_id r" "IsDeleted (scanNode r) \<longleftrightarrow> n_deleted_at r \<noteq> None" by (simp_all add: scanNode_def IsDeleted_def)
  show ?thesis
  proof (cases "ShareGrant s u i")
    case (Inr g)
    then show ?thesis by (cases g) (auto simp: requireVisible_def Get_def Let_def Some f)
  qed (auto simp: requireVisible_def Get_def Let_def Some f)
qed (simp add: requireVisible_def Get_def)

lemma in_listing:
  assumes "forest (nodes s)"
  shows "v \<in> set (map fst (filter (grants s u) (favorite_rows s u))) \<longleftrightarrow> (\<exists>f\<in>set (favorites s). fav_user_id f = u \<and>
     v = \<lparr>Fav_NodeID = fav_node_id f, Fav_CreatedAt = fav_created_at f\<rparr> \<and> requireVisible s u (fav_node_id f) = Inr ())" (is "?L \<longleftrightarrow> ?R")
proof
  assume ?L
  then obtain r where "r \<in> set (favorite_rows s u)" "grants s u r" "v = fst r" by auto
  then obtain f n where f: "f \<in> set (favorites s)" "fav_user_id f = u" and n: "n \<in> set (nodes s)" "n_id n = fav_node_id f" "n_deleted_at n = None"
      and v: "v = \<lparr>Fav_NodeID = fav_node_id f, Fav_CreatedAt = fav_created_at f\<rparr>"
      and g: "n_owner_id n = u \<or> (\<exists>g. ShareGrant s u (fav_node_id f) = Inr (Some g))"
    unfolding in_favorite_rows grants_def by (elim bexE conjE) simp
  have "requireVisible s u (fav_node_id f) = Inr ()" unfolding requireVisible_iff [OF assms] using n g by blast
  with f v show ?R by blast
next
  assume ?R
  then obtain f where f: "f \<in> set (favorites s)" "fav_user_id f = u" and v: "v = \<lparr>Fav_NodeID = fav_node_id f, Fav_CreatedAt = fav_created_at f\<rparr>"
    and "requireVisible s u (fav_node_id f) = Inr ()" by blast
  then obtain n where n: "n \<in> set (nodes s)" "n_id n = fav_node_id f" "n_deleted_at n = None"
      and g: "n_owner_id n = u \<or> (\<exists>g. ShareGrant s u (fav_node_id f) = Inr (Some g))"
    unfolding requireVisible_iff [OF assms] by blast
  have "(v, n_owner_id n) \<in> set (favorite_rows s u)" unfolding in_favorite_rows using f n v by blast
  moreover have "grants s u (v, n_owner_id n)" using g by (simp add: grants_def v)
  ultimately show ?L by (auto intro!: rev_image_eqI [of "(v, n_owner_id n)"])
qed

text \<open>C34: The favorites an account lists are exactly those it stored whose node it can read now: a stored favorite is
  listed if and only if the node service answers \<open>Get\<close> with the node and the node is not in Trash. So a favorite
  disappears with the node or the share and comes back with it. The list runs from the newest to the oldest.\<close>

theorem favorites_listing:
  assumes "vault_inv s" and "ValidUUID U u"
  shows "\<exists>fs. ListFavorites U s u = Inr fs \<and>
    (\<forall>i t. \<lparr>Fav_NodeID = i, Fav_CreatedAt = t\<rparr> \<in> set fs \<longleftrightarrow>
       (\<exists>f\<in>set (favorites s). fav_user_id f = u \<and> fav_node_id f = i \<and> fav_created_at f = t) \<and>
       (\<exists>n. Get s u i = Inr n \<and> \<not> IsDeleted n)) \<and>
    sorted (rev (map (\<lambda>f. stamp (Fav_CreatedAt f)) fs))"
proof -
  have forest: "forest (nodes s)" using assms(1) by (simp add: vault_inv_def)
  let ?fs = "map fst (filter (grants s u) (favorite_rows s u))"
  have eq: "\<lparr>Fav_NodeID = i, Fav_CreatedAt = t\<rparr> = \<lparr>Fav_NodeID = a, Fav_CreatedAt = b\<rparr> \<longleftrightarrow> a = i \<and> b = t" for i t a b by auto
  have "ListFavorites U s u = Inr ?fs" using assms(2) by (simp add: ListFavorites_def visible_loop_filter [OF forest])
  moreover have "\<lparr>Fav_NodeID = i, Fav_CreatedAt = t\<rparr> \<in> set ?fs \<longleftrightarrow>
       (\<exists>f\<in>set (favorites s). fav_user_id f = u \<and> fav_node_id f = i \<and> fav_created_at f = t) \<and> (\<exists>n. Get s u i = Inr n \<and> \<not> IsDeleted n)" for i t
    unfolding requireVisible_Get [symmetric] in_listing [OF forest] eq by metis
  moreover have "sorted (rev (map (\<lambda>f. stamp (Fav_CreatedAt f)) ?fs))"
  proof -
    have "sorted (map (\<lambda>r. stamp (Fav_CreatedAt (fst r))) (rev (favorite_rows s u)))" by (simp add: favorite_rows_def)
    then have "sorted (map (\<lambda>r. stamp (Fav_CreatedAt (fst r))) (filter (grants s u) (rev (favorite_rows s u))))" by (rule sorted_filter)
    then show ?thesis by (simp add: rev_filter rev_map comp_def)
  qed
  ultimately show ?thesis by blast
qed

section \<open>Requests\<close>

datatype favorite_cmd = AddRequest id id | RemoveRequest id id

fun favorite_exec :: "uuid_pkg \<Rightarrow> time \<times> favorite_cmd \<Rightarrow> db \<Rightarrow> db \<times> (err + unit)" where
  "favorite_exec U (now, AddRequest u i) s = (case AddFavorite U now s u i of Inl e \<Rightarrow> (s, Inl e) | Inr s' \<Rightarrow> (s', Inr ()))"
| "favorite_exec U (now, RemoveRequest u i) s = (case RemoveFavorite U s u i of Inl e \<Rightarrow> (s, Inl e) | Inr s' \<Rightarrow> (s', Inr ()))"

definition favorites_inv :: "db \<Rightarrow> bool" where
  "favorites_inv s \<longleftrightarrow> distinct (map (\<lambda>f. (fav_user_id f, fav_node_id f)) (favorites s)) \<and>
     (\<forall>u. count_rows (\<lambda>f. fav_user_id f = u) (favorites s) \<le> MaxFavorites)"

lemma AddFavorite_cases:
  assumes "AddFavorite U now s u i = Inr s'"
  obtains (there) "s' = s" "\<exists>f\<in>set (favorites s). fav_user_id f = u \<and> fav_node_id f = i"
  | (added) "s' = s\<lparr>favorites := favorites s @ [\<lparr>fav_user_id = u, fav_node_id = i, fav_created_at = now\<rparr>]\<rparr>"
      "\<not> (\<exists>f\<in>set (favorites s). fav_user_id f = u \<and> fav_node_id f = i)"
      "count_rows (\<lambda>f. fav_user_id f = u) (favorites s) < MaxFavorites" "requireVisible s u i = Inr ()"
proof -
  from assms have v: "requireVisible s u i = Inr ()" and c: "\<not> count_rows (\<lambda>f. fav_user_id f = u) (favorites s) \<ge> MaxFavorites"
    and s': "s' = (if \<exists>f\<in>set (favorites s). fav_user_id f = u \<and> fav_node_id f = i then s
      else s\<lparr>favorites := favorites s @ [\<lparr>fav_user_id = u, fav_node_id = i, fav_created_at = now\<rparr>]\<rparr>)"
    by (auto simp: AddFavorite_def split: if_split_asm)
  show ?thesis
  proof (cases "\<exists>f\<in>set (favorites s). fav_user_id f = u \<and> fav_node_id f = i")
    case True
    with s' show ?thesis by (intro there) simp_all
  next
    case False
    with s' v c show ?thesis by (intro added) simp_all
  qed
qed

lemma favorites_inv_del: "favorites_inv s \<Longrightarrow> favorites_inv (s\<lparr>favorites := del p (favorites s)\<rparr>)"
  by (auto simp: favorites_inv_def intro: order_trans [OF count_rows_del_le])

interpretation favorite_service: transactional "favorite_exec U" "\<lambda>_ _. True" favorites_inv for U
proof
  fix c :: "time \<times> favorite_cmd" and s
  assume inv: "favorites_inv s"
  obtain now cmd where c: "c = (now, cmd)" by (cases c)
  show "favorites_inv (fst (favorite_exec U c s))"
  proof (cases cmd)
    case (AddRequest u i)
    show ?thesis
    proof (cases "AddFavorite U now s u i")
      case (Inr s')
      then have "favorites_inv s'"
        by (cases rule: AddFavorite_cases) (use inv in \<open>auto simp: favorites_inv_def count_rows_def\<close>)
      with Inr show ?thesis by (simp add: c AddRequest)
    qed (simp add: c AddRequest inv)
  next
    case (RemoveRequest u i)
    show ?thesis using inv favorites_inv_del [OF inv] by (simp add: c RemoveRequest RemoveFavorite_def)
  qed
next
  fix c :: "time \<times> favorite_cmd" and s e
  obtain now cmd where c: "c = (now, cmd)" by (cases c)
  show "snd (favorite_exec U c s) = Inl e \<Longrightarrow> fst (favorite_exec U c s) = s"
    by (cases cmd) (auto simp: c split: sum.split sum.split_asm)
qed

text \<open>However favorites are added and removed, no account ever has more than \<open>MaxFavorites\<close> and none twice; every
  favorite stored by a run was there before or was added for a node its account could read at that moment.\<close>

theorem favorites_stay_bounded:
  assumes inv: "favorites_inv s" and s': "s' = run_cmds (favorite_exec U) cs s"
  shows "count_rows (\<lambda>f. fav_user_id f = u) (favorites s') \<le> MaxFavorites \<and>
    distinct (map (\<lambda>f. (fav_user_id f, fav_node_id f)) (favorites s')) \<and> s' = s\<lparr>favorites := favorites s'\<rparr> \<and>
    (\<forall>f\<in>set (favorites s'). f \<in> set (favorites s) \<or> (\<exists>n. Get s (fav_user_id f) (fav_node_id f) = Inr n \<and> \<not> IsDeleted n))"
proof -
  have only: "fst (favorite_exec U c s) = s\<lparr>favorites := favorites (fst (favorite_exec U c s))\<rparr> \<and>
      (\<forall>f\<in>set (favorites (fst (favorite_exec U c s))). f \<in> set (favorites s) \<or> requireVisible s (fav_user_id f) (fav_node_id f) = Inr ())" for c s
  proof -
    obtain now cmd where c: "c = (now, cmd)" by (cases c)
    show ?thesis
    proof (cases cmd)
      case (AddRequest v i)
      show ?thesis
      proof (cases "AddFavorite U now s v i")
        case (Inr s1)
        then have exec: "fst (favorite_exec U c s) = s1" by (simp add: c AddRequest)
        from Inr show ?thesis unfolding exec by (cases rule: AddFavorite_cases) auto
      qed (simp add: c AddRequest)
    qed (auto simp: c RemoveFavorite_def)
  qed
  have vis: "requireVisible (t\<lparr>favorites := fs\<rparr>) v i = requireVisible t v i" for t fs v i
  proof -
    have "ShareGrant (t\<lparr>favorites := fs\<rparr>) v i = ShareGrant t v i" by (rule ShareGrant_cong) simp_all
    then show ?thesis unfolding requireVisible_def node_of_def by (simp cong: if_cong option.case_cong)
  qed
  have "s' = s\<lparr>favorites := favorites s'\<rparr> \<and>
      (\<forall>f\<in>set (favorites s'). f \<in> set (favorites s) \<or> requireVisible s (fav_user_id f) (fav_node_id f) = Inr ())"
    unfolding s'
  proof (induction cs arbitrary: s)
    case (Cons c cs)
    let ?t = "fst (favorite_exec U c s)"
    from only [of c s] obtain fs where t: "?t = s\<lparr>favorites := fs\<rparr>" by blast
    with only [of c s] have fs: "\<forall>f\<in>set fs. f \<in> set (favorites s) \<or> requireVisible s (fav_user_id f) (fav_node_id f) = Inr ()" by simp
    define R where "R = run_cmds (favorite_exec U) cs ?t"
    from Cons [of ?t, folded R_def] have R: "R = s\<lparr>favorites := fs\<rparr>\<lparr>favorites := favorites R\<rparr>"
      and in_R: "\<forall>f\<in>set (favorites R). f \<in> set fs \<or> requireVisible s (fav_user_id f) (fav_node_id f) = Inr ()"
      unfolding t vis by simp_all
    from R have "R = s\<lparr>favorites := favorites R\<rparr>" by simp
    moreover from in_R fs have "\<forall>f\<in>set (favorites R). f \<in> set (favorites s) \<or> requireVisible s (fav_user_id f) (fav_node_id f) = Inr ()" by blast
    ultimately show ?case unfolding run_cmds.simps R_def [symmetric] by (intro conjI)
  qed simp
  moreover have "run_ok (\<lambda>_ _. True) (favorite_exec U) cs s" by (induction cs arbitrary: s) simp_all
  then have "favorites_inv s'" unfolding s' by (rule favorite_service.inv_run [OF inv])
  ultimately show ?thesis unfolding requireVisible_Get by (simp add: favorites_inv_def)
qed

section \<open>Examples\<close>

definition demo_marked :: db where
  "demo_marked = fst (favorite_exec demo_uuid (1, AddRequest ''bob'' ''doc'') demo)"

lemma demo_marked_inv: "vault_inv demo_marked"
proof -
  have eq: "demo_marked = demo\<lparr>favorites := [\<lparr>fav_user_id = ''bob'', fav_node_id = ''doc'', fav_created_at = 1\<rparr>]\<rparr>"
    unfolding demo_marked_def by code_simp
  have "vault_inv demo_marked = vault_inv demo" unfolding eq by (rule vault_inv_cong) simp_all
  with demo_inv show ?thesis by simp
qed

theorem favorites_listing_witness:
  "\<exists>fs. ListFavorites demo_uuid demo_marked ''bob'' = Inr fs \<and> \<lparr>Fav_NodeID = ''doc'', Fav_CreatedAt = 1\<rparr> \<in> set fs"
proof -
  have "ValidUUID demo_uuid ''bob''" by simp
  from favorites_listing [OF demo_marked_inv this] obtain fs where fs: "ListFavorites demo_uuid demo_marked ''bob'' = Inr fs"
    and iff: "\<And>i t. \<lparr>Fav_NodeID = i, Fav_CreatedAt = t\<rparr> \<in> set fs \<longleftrightarrow>
       (\<exists>f\<in>set (favorites demo_marked). fav_user_id f = ''bob'' \<and> fav_node_id f = i \<and> fav_created_at f = t) \<and>
       (\<exists>n. Get demo_marked ''bob'' i = Inr n \<and> \<not> IsDeleted n)" by blast
  have "list_ex (\<lambda>f. fav_user_id f = ''bob'' \<and> fav_node_id f = ''doc'' \<and> fav_created_at f = 1) (favorites demo_marked)" by code_simp
  then have "\<exists>f\<in>set (favorites demo_marked). fav_user_id f = ''bob'' \<and> fav_node_id f = ''doc'' \<and> fav_created_at f = 1"
    unfolding list_ex_iff .
  moreover have "case Get demo_marked ''bob'' ''doc'' of Inl _ \<Rightarrow> False | Inr n \<Rightarrow> \<not> IsDeleted n" by code_simp
  then have "\<exists>n. Get demo_marked ''bob'' ''doc'' = Inr n \<and> \<not> IsDeleted n" by (auto split: sum.split_asm)
  ultimately show ?thesis using fs iff by blast
qed

theorem favorites_stay_bounded_witness:
  "distinct (map (\<lambda>f. (fav_user_id f, fav_node_id f))
     (favorites (run_cmds (favorite_exec demo_uuid) [(1, AddRequest ''bob'' ''doc''), (2, AddRequest ''bob'' ''doc'')] demo)))"
proof -
  have "favorites_inv demo" by (simp add: favorites_inv_def demo_defs)
  from favorites_stay_bounded [OF this refl] show ?thesis by blast
qed

text \<open>Adding a favorite again is a no-op below the limit, but not at it: the count is checked before the existing row is
  looked for, so a retry of the request that stored the last favorite allowed is refused.\<close>

lemma retry_refused_at_limit:
  assumes "ValidUUID U u" "ValidUUID U i" "requireVisible s u i = Inr ()" "count_rows (\<lambda>f. fav_user_id f = u) (favorites s) = MaxFavorites"
  shows "AddFavorite U now s u i = Inl (Validation ''too many favorites; remove some first'')"
  using assms by (simp add: AddFavorite_def)

end
