(* ===== verification/HB_Identity.thy ===== *)
theory HB_Identity
  imports HB_Schema
begin

text \<open>
  Account identities: the statements an account's Ed25519 key signs (internal/deviceauth/certificate.go), the vault-key
  envelopes and device certificates (internal/provisioning/service.go), and the recovery bundles
  (internal/recovery/service.go). SHA-256 and Ed25519 verification are parameters (\<open>crypto_pkg\<close>).

  \<open>statements_unambiguous\<close>: a signed statement determines what it says. \<open>identity_pinned\<close>: once an account has a
  certificate, every certificate and every recovery bundle accepted later is signed by the same key.
\<close>

record crypto_pkg =
  cr_sha256 :: "bytes \<Rightarrow> bytes"
  cr_ed25519_verify :: "bytes \<Rightarrow> bytes \<Rightarrow> bytes \<Rightarrow> bool"

section \<open>Statements\<close>

definition SignatureVersion :: int where "SignatureVersion = 1"
definition PublicKeySize :: nat where "PublicKeySize = 32"
definition SignatureSize :: nat where "SignatureSize = 64"

text \<open>\<open>binary.BigEndian.PutUint16\<close> and \<open>PutUint32\<close>: \<open>k\<close> bytes, the most significant first.\<close>

fun big_endian :: "nat \<Rightarrow> nat \<Rightarrow> bytes" where
  "big_endian 0 n = []"
| "big_endian (Suc k) n = big_endian k (n div 256) @ [char_of (n mod 256)]"

definition Statement :: "uuid_pkg \<Rightarrow> id \<Rightarrow> id \<Rightarrow> int \<Rightarrow> bytes \<Rightarrow> bytes option" where
  "Statement U userID deviceID keyVersion devicePublicKey =
     (if keyVersion < 1 \<or> keyVersion > 2 ^ 32 - 1 \<or> length devicePublicKey \<noteq> 32 then None
      else case uuid_Parse U userID of None \<Rightarrow> None | Some userUUID \<Rightarrow>
           case uuid_Parse U deviceID of None \<Rightarrow> None | Some deviceUUID \<Rightarrow>
           Some (''HBXDS'' @ big_endian 2 (nat SignatureVersion) @ userUUID @ deviceUUID @ big_endian 4 (nat keyVersion) @ devicePublicKey))"

definition Verify :: "crypto_pkg \<Rightarrow> uuid_pkg \<Rightarrow> bytes \<Rightarrow> bytes \<Rightarrow> id \<Rightarrow> id \<Rightarrow> int \<Rightarrow> bytes \<Rightarrow> bool" where
  "Verify C U accountPublicKey signature userID deviceID keyVersion devicePublicKey =
     (if length accountPublicKey \<noteq> PublicKeySize \<or> length signature \<noteq> SignatureSize then False
      else case Statement U userID deviceID keyVersion devicePublicKey of
        None \<Rightarrow> False
      | Some statement \<Rightarrow> cr_ed25519_verify C accountPublicKey statement signature)"

definition RecoveryBundleStatement :: "crypto_pkg \<Rightarrow> uuid_pkg \<Rightarrow> id \<Rightarrow> bytes \<Rightarrow> bytes option" where
  "RecoveryBundleStatement C U userID bundle =
     (case uuid_Parse U userID of
        None \<Rightarrow> None
      | Some userUUID \<Rightarrow> if length bundle = 0 then None
          else Some (''HBXRB'' @ big_endian 2 (nat SignatureVersion) @ userUUID @ cr_sha256 C bundle))"

definition VerifyRecoveryBundle :: "crypto_pkg \<Rightarrow> uuid_pkg \<Rightarrow> bytes \<Rightarrow> bytes \<Rightarrow> id \<Rightarrow> bytes \<Rightarrow> bool" where
  "VerifyRecoveryBundle C U accountPublicKey signature userID bundle =
     (if length accountPublicKey \<noteq> PublicKeySize \<or> length signature \<noteq> SignatureSize then False
      else case RecoveryBundleStatement C U userID bundle of
        None \<Rightarrow> False
      | Some statement \<Rightarrow> cr_ed25519_verify C accountPublicKey statement signature)"

lemma length_big_endian [simp]: "length (big_endian k n) = k"
  by (induction k arbitrary: n) simp_all

lemma big_endian_inj: "big_endian k m = big_endian k n \<Longrightarrow> m < 256 ^ k \<Longrightarrow> n < 256 ^ k \<Longrightarrow> m = n"
proof (induction k arbitrary: m n)
  case (Suc k)
  have "big_endian k (m div 256) = big_endian k (n div 256)" and c: "char_of (m mod 256) = (char_of (n mod 256) :: char)"
    using Suc.prems(1) by simp_all
  moreover have "m div 256 < 256 ^ k" "n div 256 < 256 ^ k" using Suc.prems(2,3) by (simp_all add: less_mult_imp_div_less mult.commute)
  ultimately have "m div 256 = n div 256" using Suc.IH by blast
  moreover have "of_char (char_of (m mod 256) :: char) = (of_char (char_of (n mod 256) :: char) :: nat)" using c by simp
  then have "m mod 256 = n mod 256" by simp
  ultimately show ?case by (metis mult_div_mod_eq)
qed simp

definition uuid_bytes :: "uuid_pkg \<Rightarrow> bool" where
  "uuid_bytes U \<longleftrightarrow> (\<forall>v p. uuid_Parse U v = Some p \<longrightarrow> length p = 16)"

text \<open>A signed statement is unambiguous: equal device statements name the same account, device, key version and key;
  equal recovery statements name the same account and bundle digest; and no statement of one kind is one of the
  other, so a signature can be used only for what it was made for.\<close>

theorem statements_unambiguous:
  assumes U: "uuid_bytes U"
  shows "(Statement U u d v k = Some x \<longrightarrow> Statement U u' d' v' k' = Some x \<longrightarrow>
      uuid_Parse U u = uuid_Parse U u' \<and> uuid_Parse U d = uuid_Parse U d' \<and> v = v' \<and> k = k') \<and>
    (RecoveryBundleStatement C U u b = Some y \<longrightarrow> RecoveryBundleStatement C U u' b' = Some y \<longrightarrow>
      uuid_Parse U u = uuid_Parse U u' \<and> cr_sha256 C b = cr_sha256 C b') \<and>
    (Statement U u d v k = Some x \<longrightarrow> RecoveryBundleStatement C U u' b' \<noteq> Some x)"
proof -
  have len: "length p = 16" if "uuid_Parse U w = Some p" for w p using U that by (simp add: uuid_bytes_def)
  have "uuid_Parse U u = uuid_Parse U u' \<and> uuid_Parse U d = uuid_Parse U d' \<and> v = v' \<and> k = k'"
    if s: "Statement U u d v k = Some x" "Statement U u' d' v' k' = Some x"
  proof -
    from s obtain p q p' q' where p: "uuid_Parse U u = Some p" "uuid_Parse U d = Some q" "uuid_Parse U u' = Some p'" "uuid_Parse U d' = Some q'"
      and eq: "p @ q @ big_endian 4 (nat v) @ k = p' @ q' @ big_endian 4 (nat v') @ k'" and v: "1 \<le> v" "v < 2 ^ 32" "1 \<le> v'" "v' < 2 ^ 32"
      by (auto simp: Statement_def split: if_split_asm option.split_asm)
    from eq len [OF p(1)] len [OF p(2)] len [OF p(3)] len [OF p(4)] have "p = p'" "q = q'" "big_endian 4 (nat v) = big_endian 4 (nat v')" "k = k'"
      by (simp_all add: append_eq_append_conv)
    moreover from this(3) have "nat v = nat v'" by (rule big_endian_inj) (use v in \<open>simp_all add: nat_less_iff\<close>)
    ultimately show ?thesis using p v by simp
  qed
  moreover have "uuid_Parse U u = uuid_Parse U u' \<and> cr_sha256 C b = cr_sha256 C b'"
    if s: "RecoveryBundleStatement C U u b = Some y" "RecoveryBundleStatement C U u' b' = Some y"
  proof -
    from s obtain p p' where p: "uuid_Parse U u = Some p" "uuid_Parse U u' = Some p'" and eq: "p @ cr_sha256 C b = p' @ cr_sha256 C b'"
      by (auto simp: RecoveryBundleStatement_def split: if_split_asm option.split_asm)
    from eq len [OF p(1)] len [OF p(2)] p show ?thesis by (simp add: append_eq_append_conv)
  qed
  moreover have "RecoveryBundleStatement C U u' b' \<noteq> Some x" if "Statement U u d v k = Some x"
    using that by (auto simp: Statement_def RecoveryBundleStatement_def split: if_split_asm option.split_asm)
  ultimately show ?thesis by blast
qed

definition demo_raw_uuid :: uuid_pkg where
  "demo_raw_uuid = \<lparr>uuid_Parse = (\<lambda>v. Some (replicate 16 (hd (v @ ''x'')))), uuid_String = (\<lambda>b. b), uuid_Validate = (\<lambda>_. True)\<rparr>"

definition demo_crypto :: crypto_pkg where
  "demo_crypto = \<lparr>cr_sha256 = (\<lambda>b. b), cr_ed25519_verify = (\<lambda>key _ signature. signature = key @ key)\<rparr>"

theorem statements_unambiguous_witness:
  "RecoveryBundleStatement demo_crypto demo_raw_uuid ''u'' ''bundle'' \<noteq> Statement demo_raw_uuid ''u'' ''d'' 1 (replicate 32 CHR ''k'')"
proof -
  have U: "uuid_bytes demo_raw_uuid" by (simp add: uuid_bytes_def demo_raw_uuid_def)
  obtain x where x: "Statement demo_raw_uuid ''u'' ''d'' 1 (replicate 32 CHR ''k'') = Some x" by (simp add: Statement_def demo_raw_uuid_def)
  from statements_unambiguous [OF U] x show ?thesis by metis
qed

section \<open>Vault-key envelopes and certificates\<close>

record Certification =
  cert_SignatureVersion :: int
  cert_AccountPublicKey :: bytes
  cert_DeviceSignature :: bytes

record Envelope =
  env_ID :: id
  env_VaultID :: id
  env_TargetUserID :: id
  env_TargetDeviceID :: id
  env_KeyVersion :: int
  env_Ciphertext :: bytes
  env_CreatedAt :: time
  env_Certification :: "Certification option"

definition certified :: "id \<Rightarrow> vault_envelope_row \<Rightarrow> bool" where
  "certified userID e \<longleftrightarrow> ve_target_user_id e = userID \<and> ve_signature_version e \<noteq> None \<and> ve_revoked_at e = None"

text \<open>\<open>ORDER BY created_at,id LIMIT 1\<close> over the certified rows of the account.\<close>

definition established_key :: "db \<Rightarrow> id \<Rightarrow> bytes option" where
  "established_key s userID =
     (case sort_key (\<lambda>e. (stamp (ve_created_at e), ve_id e)) (filter (certified userID) (vault_key_envelopes s)) of
        [] \<Rightarrow> None | e # _ \<Rightarrow> Some (ve_account_identity_public_key e))"

definition UploadAuthenticated :: "crypto_pkg \<Rightarrow> uuid_pkg \<Rightarrow> time \<Rightarrow> id \<Rightarrow> db \<Rightarrow> id \<Rightarrow> id \<Rightarrow> id \<Rightarrow> int \<Rightarrow> bytes \<Rightarrow> bytes \<Rightarrow> int \<Rightarrow>
    Certification option \<Rightarrow> err + Envelope \<times> db" where
  "UploadAuthenticated C U now newID s vaultID targetUserID targetDeviceID keyVersion ciphertext devicePublicKey deviceKeyVersion certification =
     (if vaultID = [] \<or> targetUserID = [] \<or> targetDeviceID = [] \<or> keyVersion < 1
      then Inl (Validation ''vault id, target user id, target device id, and key version are required'')
      else if length ciphertext = 0 \<or> length ciphertext > 2 ^ 20
      then Inl (Validation ''envelope ciphertext is required and must be reasonably sized'')
      else if (case certification of None \<Rightarrow> False | Some c \<Rightarrow> cert_SignatureVersion c \<noteq> SignatureVersion \<or>
        \<not> Verify C U (cert_AccountPublicKey c) (cert_DeviceSignature c) targetUserID targetDeviceID deviceKeyVersion devicePublicKey)
      then Inl (Validation ''device key certificate is invalid'')
      else if (case certification of None \<Rightarrow> False | Some c \<Rightarrow>
        (case established_key s targetUserID of None \<Rightarrow> False | Some established \<Rightarrow> established \<noteq> cert_AccountPublicKey c))
      then Inl ProvisioningIdentityConflict
      else if \<exists>e\<in>set (vault_key_envelopes s). ve_id e = newID
      then Inl (Internal ''UNIQUE constraint failed: vault_key_envelopes.id'')
      else Inr (\<lparr>env_ID = newID, env_VaultID = vaultID, env_TargetUserID = targetUserID, env_TargetDeviceID = targetDeviceID,
             env_KeyVersion = keyVersion, env_Ciphertext = ciphertext, env_CreatedAt = now, env_Certification = certification\<rparr>,
           s\<lparr>vault_key_envelopes := vault_key_envelopes s @ [\<lparr>ve_id = newID, ve_vault_id = vaultID, ve_target_user_id = targetUserID,
             ve_target_device_id = targetDeviceID, ve_key_version = keyVersion, ve_ciphertext = ciphertext, ve_created_at = now,
             ve_revoked_at = None, ve_signature_version = map_option cert_SignatureVersion certification,
             ve_account_identity_public_key = (case certification of None \<Rightarrow> [] | Some c \<Rightarrow> cert_AccountPublicKey c),
             ve_device_key_signature = (case certification of None \<Rightarrow> [] | Some c \<Rightarrow> cert_DeviceSignature c)\<rparr>]\<rparr>))"

definition UploadEnvelope :: "crypto_pkg \<Rightarrow> uuid_pkg \<Rightarrow> time \<Rightarrow> id \<Rightarrow> db \<Rightarrow> id \<Rightarrow> id \<Rightarrow> id \<Rightarrow> int \<Rightarrow> bytes \<Rightarrow> err + Envelope \<times> db" where
  "UploadEnvelope C U now newID s vaultID targetUserID targetDeviceID keyVersion ciphertext =
     UploadAuthenticated C U now newID s vaultID targetUserID targetDeviceID keyVersion ciphertext [] 0 None"

definition row_certification :: "vault_envelope_row \<Rightarrow> Certification option" where
  "row_certification e = map_option (\<lambda>v. \<lparr>cert_SignatureVersion = v, cert_AccountPublicKey = ve_account_identity_public_key e,
     cert_DeviceSignature = ve_device_key_signature e\<rparr>) (ve_signature_version e)"

definition scan_envelope :: "vault_envelope_row \<Rightarrow> Envelope" where
  "scan_envelope e = \<lparr>env_ID = ve_id e, env_VaultID = ve_vault_id e, env_TargetUserID = ve_target_user_id e,
     env_TargetDeviceID = ve_target_device_id e, env_KeyVersion = ve_key_version e, env_Ciphertext = ve_ciphertext e,
     env_CreatedAt = ve_created_at e, env_Certification = row_certification e\<rparr>"

definition LatestEnvelope :: "db \<Rightarrow> id \<Rightarrow> err + Envelope" where
  "LatestEnvelope s targetDeviceID =
     (case rev (sort_key (\<lambda>e. (stamp (ve_created_at e), ve_id e))
        (filter (\<lambda>e. ve_target_device_id e = targetDeviceID \<and> ve_revoked_at e = None) (vault_key_envelopes s))) of
        [] \<Rightarrow> Inl ProvisioningNotFound | e # _ \<Rightarrow> Inr (scan_envelope e))"

definition LatestCertifications :: "db \<Rightarrow> id \<Rightarrow> id \<Rightarrow> Certification option" where
  "LatestCertifications s targetUserID =
     fold (\<lambda>e result. result(ve_target_device_id e := row_certification e))
       (sort_key (\<lambda>e. (stamp (ve_created_at e), ve_id e)) (filter (certified targetUserID) (vault_key_envelopes s))) Map.empty"

definition ActiveEnvelopeDeviceIDs :: "db \<Rightarrow> id \<Rightarrow> id set" where
  "ActiveEnvelopeDeviceIDs s targetUserID =
     ve_target_device_id ` set (filter (\<lambda>e. ve_target_user_id e = targetUserID \<and> ve_revoked_at e = None) (vault_key_envelopes s))"

section \<open>Recovery bundles\<close>

definition MaxBundleSize :: nat where "MaxBundleSize = 4096"

record Bundle =
  bun_Bundle :: bytes
  bun_UpdatedAt :: time
  bun_UpdatedByDeviceID :: id

definition bundle_of :: "db \<Rightarrow> id \<Rightarrow> recovery_row option" where
  "bundle_of s userID = find (\<lambda>r. rb_user_id r = userID) (recovery_bundles s)"

definition GetBundle :: "db \<Rightarrow> id \<Rightarrow> err + Bundle" where
  "GetBundle s userID = (case bundle_of s userID of
     None \<Rightarrow> Inl RecoveryNotFound
   | Some r \<Rightarrow> Inr \<lparr>bun_Bundle = rb_bundle r, bun_UpdatedAt = rb_updated_at r, bun_UpdatedByDeviceID = rb_updated_by_device_id r\<rparr>)"

definition establishedIdentity :: "db \<Rightarrow> id \<Rightarrow> bytes option" where
  "establishedIdentity s userID = (case established_key s userID of
     Some key \<Rightarrow> Some key | None \<Rightarrow> map_option rb_account_identity_public_key (bundle_of s userID))"

definition PutBundle :: "crypto_pkg \<Rightarrow> uuid_pkg \<Rightarrow> time \<Rightarrow> db \<Rightarrow> id \<Rightarrow> id \<Rightarrow> bytes \<Rightarrow> bytes \<Rightarrow> bytes \<Rightarrow> err + db" where
  "PutBundle C U now s userID deviceID bundle accountPublicKey signature =
     (if length bundle = 0 \<or> length bundle > MaxBundleSize
      then Inl (Validation ''recovery bundle is required and must be at most 4096 bytes'')
      else if \<not> VerifyRecoveryBundle C U accountPublicKey signature userID bundle
      then Inl (Validation ''recovery bundle signature is invalid'')
      else if (case establishedIdentity s userID of None \<Rightarrow> False | Some expected \<Rightarrow> expected \<noteq> accountPublicKey)
      then Inl RecoveryIdentityConflict
      else let row = \<lparr>rb_user_id = userID, rb_bundle = bundle, rb_account_identity_public_key = accountPublicKey, rb_signature = signature,
             rb_updated_at = now, rb_updated_by_device_id = deviceID\<rparr>
           in if bundle_of s userID \<noteq> None
              then Inr (s\<lparr>recovery_bundles := upd (\<lambda>r. rb_user_id r = userID) (\<lambda>_. row) (recovery_bundles s)\<rparr>)
              else Inr (s\<lparr>recovery_bundles := recovery_bundles s @ [row]\<rparr>))"

section \<open>Requests\<close>

datatype identity_cmd =
    UploadRequest id id id id int bytes bytes int "Certification option"
  | PutRequest id id bytes bytes bytes

fun identity_exec :: "crypto_pkg \<Rightarrow> uuid_pkg \<Rightarrow> time \<times> identity_cmd \<Rightarrow> db \<Rightarrow> db \<times> (err + unit)" where
  "identity_exec C U (now, UploadRequest newID vault user device version ciphertext deviceKey deviceVersion cert) s =
     (case UploadAuthenticated C U now newID s vault user device version ciphertext deviceKey deviceVersion cert of
        Inl e \<Rightarrow> (s, Inl e) | Inr (_, s') \<Rightarrow> (s', Inr ()))"
| "identity_exec C U (now, PutRequest user device bundle key signature) s =
     (case PutBundle C U now s user device bundle key signature of Inl e \<Rightarrow> (s, Inl e) | Inr s' \<Rightarrow> (s', Inr ()))"

text \<open>The invariant: certificates verify and agree on the key of their account; stored bundles are signed; one bundle per account.\<close>

definition certificate_ok :: "crypto_pkg \<Rightarrow> uuid_pkg \<Rightarrow> vault_envelope_row \<Rightarrow> bool" where
  "certificate_ok C U e \<longleftrightarrow> (\<exists>version key. Verify C U (ve_account_identity_public_key e) (ve_device_key_signature e)
     (ve_target_user_id e) (ve_target_device_id e) version key)"

definition bundle_ok :: "crypto_pkg \<Rightarrow> uuid_pkg \<Rightarrow> recovery_row \<Rightarrow> bool" where
  "bundle_ok C U r \<longleftrightarrow> length (rb_bundle r) \<le> MaxBundleSize \<and>
     VerifyRecoveryBundle C U (rb_account_identity_public_key r) (rb_signature r) (rb_user_id r) (rb_bundle r)"

definition certificates_agree :: "vault_envelope_row list \<Rightarrow> bool" where
  "certificates_agree es \<longleftrightarrow> (\<forall>u. \<forall>e\<in>set es. \<forall>e'\<in>set es. certified u e \<longrightarrow> certified u e' \<longrightarrow>
     ve_account_identity_public_key e = ve_account_identity_public_key e')"

definition identity_inv :: "crypto_pkg \<Rightarrow> uuid_pkg \<Rightarrow> db \<Rightarrow> bool" where
  "identity_inv C U s \<longleftrightarrow> distinct (map ve_id (vault_key_envelopes s)) \<and> distinct (map rb_user_id (recovery_bundles s)) \<and>
     list_all (\<lambda>e. certified (ve_target_user_id e) e \<longrightarrow> certificate_ok C U e) (vault_key_envelopes s) \<and>
     certificates_agree (vault_key_envelopes s) \<and> list_all (bundle_ok C U) (recovery_bundles s)"

lemma certificates_agreeD:
  "certificates_agree es \<Longrightarrow> e \<in> set es \<Longrightarrow> e' \<in> set es \<Longrightarrow> certified u e \<Longrightarrow> certified u e' \<Longrightarrow>
    ve_account_identity_public_key e = ve_account_identity_public_key e'"
  unfolding certificates_agree_def by blast

lemma certificates_agree_snoc:
  assumes "certificates_agree es" "\<And>u e. e \<in> set es \<Longrightarrow> certified u e \<Longrightarrow> certified u x \<Longrightarrow>
    ve_account_identity_public_key x = ve_account_identity_public_key e"
  shows "certificates_agree (es @ [x])"
  unfolding certificates_agree_def
proof (intro allI ballI impI)
  fix u e e' assume e: "e \<in> set (es @ [x])" "e' \<in> set (es @ [x])" and c: "certified u e" "certified u e'"
  consider "e \<in> set es" "e' \<in> set es" | "e \<in> set es" "e' = x" | "e = x" "e' \<in> set es" | "e = x" "e' = x" using e by auto
  then show "ve_account_identity_public_key e = ve_account_identity_public_key e'"
  proof cases
    case 1
    with c show ?thesis using certificates_agreeD [OF assms(1)] by blast
  next
    case 2
    with c assms(2) [of e u] show ?thesis by simp
  next
    case 3
    with c assms(2) [of e' u] show ?thesis by simp
  qed simp
qed

lemma established_None: "established_key s u = None \<longleftrightarrow> \<not> (\<exists>e\<in>set (vault_key_envelopes s). certified u e)"
proof -
  let ?l = "sort_key (\<lambda>e. (stamp (ve_created_at e), ve_id e)) (filter (certified u) (vault_key_envelopes s))"
  have "established_key s u = None \<longleftrightarrow> set ?l = {}" by (cases ?l) (simp_all add: established_key_def)
  then show ?thesis by auto
qed

lemma established_Some:
  assumes "established_key s u = Some k"
  shows "\<exists>e\<in>set (vault_key_envelopes s). certified u e \<and> ve_account_identity_public_key e = k"
proof -
  let ?l = "sort_key (\<lambda>e. (stamp (ve_created_at e), ve_id e)) (filter (certified u) (vault_key_envelopes s))"
  from assms obtain e es where e: "?l = e # es" "ve_account_identity_public_key e = k" by (cases ?l) (simp_all add: established_key_def)
  then have "e \<in> set ?l" by simp
  with e(2) show ?thesis by auto
qed

lemma established_iff:
  assumes "identity_inv C U s"
  shows "established_key s u = Some k \<longleftrightarrow> (\<exists>e\<in>set (vault_key_envelopes s). certified u e \<and> ve_account_identity_public_key e = k)"
proof
  assume "\<exists>e\<in>set (vault_key_envelopes s). certified u e \<and> ve_account_identity_public_key e = k"
  then obtain e where e: "e \<in> set (vault_key_envelopes s)" "certified u e" "ve_account_identity_public_key e = k" by blast
  then obtain k' where k': "established_key s u = Some k'" using established_None by fastforce
  from established_Some [OF this] obtain e' where "e' \<in> set (vault_key_envelopes s)" "certified u e'" "ve_account_identity_public_key e' = k'" by blast
  with e certificates_agreeD [of "vault_key_envelopes s" e e' u] assms have "k' = k" by (simp add: identity_inv_def)
  with k' show "established_key s u = Some k" by simp
qed (rule established_Some)

lemma UploadAuthenticated_Inr:
  assumes "UploadAuthenticated C U now i s vault u d v ct dk dv cert = Inr (env, s')"
  obtains row where "s' = s\<lparr>vault_key_envelopes := vault_key_envelopes s @ [row]\<rparr>" "ve_id row \<notin> ve_id ` set (vault_key_envelopes s)"
    "\<forall>w. certified w row \<longrightarrow> w = u \<and> certificate_ok C U row \<and>
       (\<forall>k. established_key s u = Some k \<longrightarrow> ve_account_identity_public_key row = k)"
proof -
  let ?row = "last (vault_key_envelopes s')"
  from assms have new: "\<not> (\<exists>e\<in>set (vault_key_envelopes s). ve_id e = i)"
    and c: "\<And>c. cert = Some c \<Longrightarrow> Verify C U (cert_AccountPublicKey c) (cert_DeviceSignature c) u d dv dk \<and>
      (\<forall>k. established_key s u = Some k \<longrightarrow> k = cert_AccountPublicKey c)"
    and s': "vault_key_envelopes s' = vault_key_envelopes s @ [?row]" "s' = s\<lparr>vault_key_envelopes := vault_key_envelopes s'\<rparr>"
    and row: "ve_id ?row = i" "ve_target_user_id ?row = u" "ve_target_device_id ?row = d" "ve_signature_version ?row = map_option cert_SignatureVersion cert"
      "ve_account_identity_public_key ?row = (case cert of None \<Rightarrow> [] | Some c \<Rightarrow> cert_AccountPublicKey c)"
      "ve_device_key_signature ?row = (case cert of None \<Rightarrow> [] | Some c \<Rightarrow> cert_DeviceSignature c)"
    by (auto simp: UploadAuthenticated_def split: if_split_asm option.split_asm)
  have "w = u \<and> certificate_ok C U ?row \<and> (\<forall>k. established_key s u = Some k \<longrightarrow> ve_account_identity_public_key ?row = k)" if "certified w ?row" for w
  proof -
    from that row obtain x where x: "cert = Some x" "w = u" by (auto simp: certified_def)
    from c [OF x(1)] row x show ?thesis by (auto simp: certificate_ok_def)
  qed
  then have "\<forall>w. certified w ?row \<longrightarrow> w = u \<and> certificate_ok C U ?row \<and>
       (\<forall>k. established_key s u = Some k \<longrightarrow> ve_account_identity_public_key ?row = k)" by blast
  moreover have "ve_id ?row \<notin> ve_id ` set (vault_key_envelopes s)" using new row(1) by auto
  moreover have "s' = s\<lparr>vault_key_envelopes := vault_key_envelopes s @ [?row]\<rparr>" using s' by simp
  ultimately show ?thesis by (intro that [of ?row])
qed

lemma PutBundle_Inr:
  assumes "PutBundle C U now s u d b k sig = Inr s'"
  obtains row bs where "s' = s\<lparr>recovery_bundles := bs\<rparr>" "rb_user_id row = u" "bundle_ok C U row"
    "rb_account_identity_public_key row = k"
    "\<forall>x. establishedIdentity s u = Some x \<longrightarrow> x = k"
    "bs = upd (\<lambda>r. rb_user_id r = u) (\<lambda>_. row) (recovery_bundles s) \<or>
     bs = recovery_bundles s @ [row] \<and> u \<notin> rb_user_id ` set (recovery_bundles s)"
proof -
  let ?row = "\<lparr>rb_user_id = u, rb_bundle = b, rb_account_identity_public_key = k, rb_signature = sig, rb_updated_at = now, rb_updated_by_device_id = d\<rparr>"
  from assms have ok: "length b \<le> MaxBundleSize" "VerifyRecoveryBundle C U k sig u b" "\<And>x. establishedIdentity s u = Some x \<Longrightarrow> x = k"
    and s': "s' = s\<lparr>recovery_bundles := if bundle_of s u \<noteq> None then upd (\<lambda>r. rb_user_id r = u) (\<lambda>_. ?row) (recovery_bundles s)
      else recovery_bundles s @ [?row]\<rparr>"
    by (auto simp: PutBundle_def Let_def split: if_split_asm)
  show ?thesis
  proof (rule that [OF s'])
    show "(if bundle_of s u \<noteq> None then upd (\<lambda>r. rb_user_id r = u) (\<lambda>_. ?row) (recovery_bundles s) else recovery_bundles s @ [?row]) =
          upd (\<lambda>r. rb_user_id r = u) (\<lambda>_. ?row) (recovery_bundles s) \<or>
        (if bundle_of s u \<noteq> None then upd (\<lambda>r. rb_user_id r = u) (\<lambda>_. ?row) (recovery_bundles s) else recovery_bundles s @ [?row]) =
          recovery_bundles s @ [?row] \<and> u \<notin> rb_user_id ` set (recovery_bundles s)"
      using find_key_None [of rb_user_id u "recovery_bundles s"] by (simp add: bundle_of_def)
  qed (use ok in \<open>simp_all add: bundle_ok_def\<close>)
qed

lemma upload_keeps_identity:
  assumes inv: "identity_inv C U s" and up: "UploadAuthenticated C U now i s vault u d v ct dk dv cert = Inr (env, s')"
  shows "identity_inv C U s'"
proof -
  from up obtain row where s': "s' = s\<lparr>vault_key_envelopes := vault_key_envelopes s @ [row]\<rparr>" and new: "ve_id row \<notin> ve_id ` set (vault_key_envelopes s)"
    and row: "\<forall>w. certified w row \<longrightarrow> w = u \<and> certificate_ok C U row \<and> (\<forall>k. established_key s u = Some k \<longrightarrow> ve_account_identity_public_key row = k)"
    by (rule UploadAuthenticated_Inr)
  have same: "ve_account_identity_public_key row = ve_account_identity_public_key e" if "e \<in> set (vault_key_envelopes s)" "certified w e" "certified w row" for e w
  proof -
    from that have "established_key s w = Some (ve_account_identity_public_key e)" unfolding established_iff [OF inv] by blast
    with row that(3) show ?thesis by blast
  qed
  have "certificates_agree (vault_key_envelopes s @ [row])"
    by (rule certificates_agree_snoc [OF _ same]) (use inv in \<open>simp_all add: identity_inv_def\<close>)
  with inv new row show ?thesis by (simp add: identity_inv_def s')
qed

lemma put_keeps_identity:
  assumes inv: "identity_inv C U s" and put: "PutBundle C U now s u d b k sig = Inr s'"
  shows "identity_inv C U s'"
proof -
  from put obtain row bs where s': "s' = s\<lparr>recovery_bundles := bs\<rparr>" and row: "rb_user_id row = u" "bundle_ok C U row"
    and bs: "bs = upd (\<lambda>r. rb_user_id r = u) (\<lambda>_. row) (recovery_bundles s) \<or>
      bs = recovery_bundles s @ [row] \<and> u \<notin> rb_user_id ` set (recovery_bundles s)" by (rule PutBundle_Inr)
  have "map rb_user_id (upd (\<lambda>r. rb_user_id r = u) (\<lambda>_. row) (recovery_bundles s)) = map rb_user_id (recovery_bundles s)"
    by (rule map_upd) (simp add: row)
  moreover have "list_all (bundle_ok C U) (upd (\<lambda>r. rb_user_id r = u) (\<lambda>_. row) (recovery_bundles s))"
    using inv row(2) by (auto simp: identity_inv_def upd_def list_all_iff)
  ultimately show ?thesis using bs inv row by (elim disjE conjE) (simp_all add: identity_inv_def s')
qed

interpretation identity_service: transactional "identity_exec C U" "\<lambda>_ _. True" "identity_inv C U" for C U
proof
  fix c :: "time \<times> identity_cmd" and s
  assume inv: "identity_inv C U s"
  obtain now cmd where c: "c = (now, cmd)" by (cases c)
  show "identity_inv C U (fst (identity_exec C U c s))"
    by (cases cmd) (auto simp: c inv split: sum.split dest: upload_keeps_identity [OF inv] put_keeps_identity [OF inv])
next
  fix c :: "time \<times> identity_cmd" and s e
  obtain now cmd where c: "c = (now, cmd)" by (cases c)
  show "snd (identity_exec C U c s) = Inl e \<Longrightarrow> fst (identity_exec C U c s) = s"
    by (cases cmd) (auto simp: c split: sum.split sum.split_asm)
qed

text \<open>What a request can add for an account whose key is established.\<close>

lemma identity_step:
  assumes inv: "identity_inv C U s" and K: "established_key s u = Some K" and s': "s' = fst (identity_exec C U c s)"
  shows "established_key s' u = Some K"
    and "\<forall>r\<in>set (recovery_bundles s'). rb_user_id r = u \<longrightarrow> r \<in> set (recovery_bundles s) \<or> rb_account_identity_public_key r = K"
proof -
  obtain now cmd where c: "c = (now, cmd)" by (cases c)
  have inv': "identity_inv C U s'" unfolding s' by (rule identity_service.inv_exec [OF inv]) simp
  have "(\<forall>e\<in>set (vault_key_envelopes s). e \<in> set (vault_key_envelopes s')) \<and>
    (\<forall>r\<in>set (recovery_bundles s'). rb_user_id r = u \<longrightarrow> r \<in> set (recovery_bundles s) \<or> rb_account_identity_public_key r = K)"
  proof (cases cmd)
    case (UploadRequest i vault v d ver ct dk dv cert)
    show ?thesis
    proof (cases "UploadAuthenticated C U now i s vault v d ver ct dk dv cert")
      case (Inr p)
      obtain env t where p: "p = (env, t)" by (cases p)
      then have st: "s' = t" by (simp add: s' c UploadRequest Inr)
      from Inr p obtain row where "t = s\<lparr>vault_key_envelopes := vault_key_envelopes s @ [row]\<rparr>" by (metis UploadAuthenticated_Inr)
      then show ?thesis by (simp add: st)
    qed (simp add: s' c UploadRequest)
  next
    case (PutRequest v d b k sig)
    show ?thesis
    proof (cases "PutBundle C U now s v d b k sig")
      case (Inr t)
      then have st: "s' = t" by (simp add: s' c PutRequest)
      from Inr obtain row bs where t: "t = s\<lparr>recovery_bundles := bs\<rparr>" and row: "rb_user_id row = v" "bundle_ok C U row" "rb_account_identity_public_key row = k"
        and k: "\<forall>x. establishedIdentity s v = Some x \<longrightarrow> x = k"
        and bs: "bs = upd (\<lambda>r. rb_user_id r = v) (\<lambda>_. row) (recovery_bundles s) \<or>
          bs = recovery_bundles s @ [row] \<and> v \<notin> rb_user_id ` set (recovery_bundles s)" by (rule PutBundle_Inr)
      have "r \<in> set (recovery_bundles s) \<or> r = row" if "r \<in> set bs" for r using bs that by (auto simp: upd_def)
      moreover have "v = u \<Longrightarrow> k = K" using k K by (simp add: establishedIdentity_def)
      ultimately show ?thesis using row by (auto simp: st t)
    qed (simp add: s' c PutRequest)
  qed
  moreover from K have "\<exists>e\<in>set (vault_key_envelopes s). certified u e \<and> ve_account_identity_public_key e = K" by (rule established_Some)
  ultimately show "established_key s' u = Some K"
    "\<forall>r\<in>set (recovery_bundles s'). rb_user_id r = u \<longrightarrow> r \<in> set (recovery_bundles s) \<or> rb_account_identity_public_key r = K"
    unfolding established_iff [OF inv'] by blast+
qed

lemma fold_last:
  "fold (\<lambda>e result. result(f e := g e)) es m d = Some c \<Longrightarrow> m d = Some c \<or> (\<exists>e\<in>set es. f e = d \<and> g e = Some c)"
proof (induction es arbitrary: m)
  case (Cons e es)
  then have "fold (\<lambda>e result. result(f e := g e)) es (m(f e := g e)) d = Some c" by (simp only: fold_simps)
  from Cons.IH [OF this] show ?case by (auto split: if_split_asm)
qed simp

lemma LatestCertifications_sound:
  assumes inv: "identity_inv C U s" and K: "established_key s u = Some K" and c: "LatestCertifications s u d = Some cert"
  shows "cert_AccountPublicKey cert = K \<and> (\<exists>version key. Verify C U K (cert_DeviceSignature cert) u d version key)"
proof -
  from fold_last [OF c [unfolded LatestCertifications_def]] obtain e where e: "e \<in> set (vault_key_envelopes s)" "certified u e"
      "ve_target_device_id e = d" "row_certification e = Some cert" by auto
  have u: "ve_target_user_id e = u" using e(2) by (simp add: certified_def)
  from e(4) have cert: "cert_AccountPublicKey cert = ve_account_identity_public_key e" "cert_DeviceSignature cert = ve_device_key_signature e"
    by (auto simp: row_certification_def)
  from established_iff [OF inv, of u "ve_account_identity_public_key e"] e K have "ve_account_identity_public_key e = K" by auto
  moreover have "certificate_ok C U e" using inv e u by (auto simp: identity_inv_def list_all_iff)
  ultimately show ?thesis using cert e(3) u by (auto simp: certificate_ok_def)
qed

text \<open>C35: The identity of an account is pinned by its first certificate: whatever envelopes, certificates and recovery
  bundles anybody uploads afterwards, every device certificate the server hands out for the account carries that key and
  a signature that verifies for the account and the device, and every recovery bundle stored afterwards is signed by it.\<close>

theorem identity_pinned:
  assumes inv: "identity_inv C U s" and K: "established_key s u = Some K" and s': "s' = run_cmds (identity_exec C U) cs s"
  shows "(\<forall>d cert. LatestCertifications s' u d = Some cert \<longrightarrow> cert_AccountPublicKey cert = K \<and>
       (\<exists>version key. Verify C U K (cert_DeviceSignature cert) u d version key)) \<and>
    (\<forall>r\<in>set (recovery_bundles s'). rb_user_id r = u \<longrightarrow> r \<in> set (recovery_bundles s) \<or>
       rb_account_identity_public_key r = K \<and> VerifyRecoveryBundle C U K (rb_signature r) u (rb_bundle r))"
proof -
  have "identity_inv C U s' \<and> established_key s' u = Some K \<and>
      (\<forall>r\<in>set (recovery_bundles s'). rb_user_id r = u \<longrightarrow> r \<in> set (recovery_bundles s) \<or> rb_account_identity_public_key r = K)"
    unfolding s' using inv K
  proof (induction cs arbitrary: s)
    case (Cons c cs)
    let ?t = "fst (identity_exec C U c s)"
    note step = identity_step [OF Cons.prems refl, of c]
    have inv_t: "identity_inv C U ?t" by (rule identity_service.inv_exec [OF Cons.prems(1)]) simp
    from Cons.IH [OF inv_t step(1)] step(2) show ?case by simp blast
  qed simp
  then have inv': "identity_inv C U s'" and K': "established_key s' u = Some K"
    and b: "\<forall>r\<in>set (recovery_bundles s'). rb_user_id r = u \<longrightarrow> r \<in> set (recovery_bundles s) \<or> rb_account_identity_public_key r = K" by blast+
  have "VerifyRecoveryBundle C U (rb_account_identity_public_key r) (rb_signature r) (rb_user_id r) (rb_bundle r)" if "r \<in> set (recovery_bundles s')" for r
    using inv' that by (auto simp: identity_inv_def list_all_iff bundle_ok_def)
  with b LatestCertifications_sound [OF inv' K'] show ?thesis by metis
qed

section \<open>Examples\<close>

definition demo_key :: "char \<Rightarrow> bytes" where "demo_key c = replicate 32 c"

definition demo_certify :: "id \<Rightarrow> char \<Rightarrow> identity_cmd" where
  "demo_certify i c = UploadRequest i ''vault'' ''alice'' ''laptop'' 1 ''secret'' (demo_key CHR ''d'') 1
     (Some \<lparr>cert_SignatureVersion = 1, cert_AccountPublicKey = demo_key c, cert_DeviceSignature = demo_key c @ demo_key c\<rparr>)"

definition demo_put :: "char \<Rightarrow> identity_cmd" where
  "demo_put c = PutRequest ''alice'' ''laptop'' (''bundle'' @ [c]) (demo_key c) (demo_key c @ demo_key c)"

definition demo_certified :: db where
  "demo_certified = fst (identity_exec demo_crypto demo_raw_uuid (1, demo_certify ''e1'' CHR ''A'') empty_db)"

lemma demo_signatures:
  "Verify demo_crypto demo_raw_uuid (demo_key c) (demo_key c @ demo_key c) u d 1 (demo_key k)"
  "b \<noteq> [] \<Longrightarrow> VerifyRecoveryBundle demo_crypto demo_raw_uuid (demo_key c) (demo_key c @ demo_key c) u b"
  by (simp_all add: Verify_def VerifyRecoveryBundle_def RecoveryBundleStatement_def Statement_def demo_crypto_def demo_raw_uuid_def
      demo_key_def PublicKeySize_def SignatureSize_def)

lemma demo_key_eq [simp]: "demo_key c = demo_key d \<longleftrightarrow> c = d"
  by (simp add: demo_key_def)

lemmas demo_identity_simps = demo_certify_def demo_put_def UploadAuthenticated_def PutBundle_def demo_signatures SignatureVersion_def
  MaxBundleSize_def established_key_def establishedIdentity_def bundle_of_def certified_def empty_db_def Let_def

theorem identity_pinned_witness:
  "\<exists>r. recovery_bundles (run_cmds (identity_exec demo_crypto demo_raw_uuid) [(2, demo_put CHR ''B''), (3, demo_put CHR ''A'')] demo_certified) = [r] \<and>
     rb_account_identity_public_key r = demo_key CHR ''A''"
proof -
  have "identity_inv demo_crypto demo_raw_uuid empty_db" by (simp add: identity_inv_def certificates_agree_def empty_db_def)
  then have inv: "identity_inv demo_crypto demo_raw_uuid demo_certified"
    unfolding demo_certified_def by (rule identity_service.inv_exec) simp
  have K: "established_key demo_certified ''alice'' = Some (demo_key CHR ''A'')" by (simp add: demo_certified_def demo_identity_simps)
  let ?s = "run_cmds (identity_exec demo_crypto demo_raw_uuid) [(2, demo_put CHR ''B''), (3, demo_put CHR ''A'')] demo_certified"
  have "map rb_user_id (recovery_bundles ?s) = [''alice'']" "recovery_bundles demo_certified = []"
    by (simp_all add: demo_certified_def demo_identity_simps)
  then obtain r where r: "recovery_bundles ?s = [r]" "rb_user_id r = ''alice''" "r \<notin> set (recovery_bundles demo_certified)" by auto
  have "r \<in> set (recovery_bundles ?s)" unfolding r(1) by simp
  from conjunct2 [OF identity_pinned [OF inv K refl], THEN bspec, OF this] r(2,3)
  have "rb_account_identity_public_key r = demo_key CHR ''A''" by blast
  with r(1) show ?thesis by blast
qed

text \<open>The pinning starts with the first certificate only. A bundle signed by key \<open>A\<close> is stored; then a certificate of key
  \<open>B\<close> is accepted, because \<open>UploadAuthenticated\<close> does not look at the stored bundle; from then on \<open>B\<close> is the
  established key, and a bundle signed by \<open>B\<close> replaces the first one. None of this needs key \<open>A\<close>.\<close>

theorem bundle_identity_replaced:
  "let s1 = fst (identity_exec demo_crypto demo_raw_uuid (1, demo_put CHR ''A'') empty_db);
       s2 = fst (identity_exec demo_crypto demo_raw_uuid (2, demo_certify ''e1'' CHR ''B'') s1);
       s3 = fst (identity_exec demo_crypto demo_raw_uuid (3, demo_put CHR ''B'') s2)
   in establishedIdentity s1 ''alice'' = Some (demo_key CHR ''A'') \<and>
      snd (identity_exec demo_crypto demo_raw_uuid (2, demo_put CHR ''B'') s1) = Inl RecoveryIdentityConflict \<and>
      map_option rb_bundle (bundle_of s3 ''alice'') = Some ''bundleB''"
  by (simp add: demo_identity_simps)

end
