(* ===== verification/HB_Frames.thy ===== *)
theory HB_Frames
  imports HB_System_Props HB_Session_Props HB_Identity HB_Favorites
begin

text \<open>
  Who writes what. The tables fall into three parts: the accounts (\<open>accounts_of\<close>: users, devices, tokens,
  envelopes and recovery bundles), the vault (\<open>vault_of\<close>: everything the node, sharing, upload and maintenance
  services keep) and the favorites. Each service leaves the parts of the others alone, maintenance excepted, which
  deletes expired tokens and the favorites of purged nodes. These frames let the invariants of the services be put
  together.
\<close>

definition accounts_of :: "db \<Rightarrow> user_row list \<times> device_row list \<times> refresh_token_row list \<times> access_token_row list \<times>
    vault_envelope_row list \<times> recovery_row list" where
  "accounts_of s = (users s, devices s, refresh_tokens s, access_tokens s, vault_key_envelopes s, recovery_bundles s)"

definition vault_of :: "db \<Rightarrow> (node_row list \<times> blob_row list \<times> file_version_row list \<times> change_row list \<times> int \<times> operation_row list) \<times>
    upload_session_row list \<times> upload_chunk_row list \<times> share_row list \<times> share_envelope_row list \<times> folder_key_row list \<times>
    (id \<times> time) list \<times> (string \<times> time) list" where
  "vault_of s = ((nodes s, blobs s, file_versions s, sync_changes s, sync_seq s, processed_operations s), upload_sessions s, upload_chunks s,
     shares s, share_device_envelopes s, folder_keys s, gc_blob_candidates s, gc_orphan_blob_files s)"

definition others_same :: "db \<Rightarrow> db \<Rightarrow> bool" where
  "others_same s s' \<longleftrightarrow> accounts_of s' = accounts_of s \<and> favorites s' = favorites s"

lemma others_same_refl [simp]: "others_same s s"
  by (simp add: others_same_def)

lemma others_same_trans: "others_same s s1 \<Longrightarrow> others_same s1 s2 \<Longrightarrow> others_same s s2"
  by (simp add: others_same_def)

text \<open>Updates of vault tables.\<close>

lemma others_same_updates [simp]:
  "others_same s (s'\<lparr>nodes := a\<rparr>) = others_same s s'" "others_same s (s'\<lparr>blobs := b\<rparr>) = others_same s s'"
  "others_same s (s'\<lparr>file_versions := c\<rparr>) = others_same s s'" "others_same s (s'\<lparr>sync_changes := d\<rparr>) = others_same s s'"
  "others_same s (s'\<lparr>sync_seq := e\<rparr>) = others_same s s'" "others_same s (s'\<lparr>processed_operations := f\<rparr>) = others_same s s'"
  "others_same s (s'\<lparr>upload_sessions := g\<rparr>) = others_same s s'" "others_same s (s'\<lparr>upload_chunks := h\<rparr>) = others_same s s'"
  "others_same s (s'\<lparr>shares := i\<rparr>) = others_same s s'" "others_same s (s'\<lparr>share_device_envelopes := j\<rparr>) = others_same s s'"
  "others_same s (s'\<lparr>folder_keys := k\<rparr>) = others_same s s'" "others_same s (s'\<lparr>gc_blob_candidates := l\<rparr>) = others_same s s'"
  "others_same s (s'\<lparr>gc_orphan_blob_files := m\<rparr>) = others_same s s'"
  by (simp_all add: others_same_def accounts_of_def)

lemma vault_of_updates [simp]:
  "vault_of (s\<lparr>users := a\<rparr>) = vault_of s" "vault_of (s\<lparr>devices := b\<rparr>) = vault_of s" "vault_of (s\<lparr>refresh_tokens := c\<rparr>) = vault_of s"
  "vault_of (s\<lparr>access_tokens := d\<rparr>) = vault_of s" "vault_of (s\<lparr>vault_key_envelopes := e\<rparr>) = vault_of s"
  "vault_of (s\<lparr>recovery_bundles := f\<rparr>) = vault_of s" "vault_of (s\<lparr>favorites := g\<rparr>) = vault_of s"
  by (simp_all add: vault_of_def)

lemma vault_ofD:
  assumes "vault_of s' = vault_of s"
  shows "nodes s' = nodes s" "blobs s' = blobs s" "file_versions s' = file_versions s" "sync_changes s' = sync_changes s"
    "sync_seq s' = sync_seq s" "processed_operations s' = processed_operations s" "upload_sessions s' = upload_sessions s"
    "upload_chunks s' = upload_chunks s" "shares s' = shares s" "share_device_envelopes s' = share_device_envelopes s"
    "folder_keys s' = folder_keys s"
  using assms by (simp_all add: vault_of_def)

lemma accounts_ofD:
  assumes "accounts_of s' = accounts_of s"
  shows "users s' = users s" "devices s' = devices s" "refresh_tokens s' = refresh_tokens s" "access_tokens s' = access_tokens s"
    "vault_key_envelopes s' = vault_key_envelopes s" "recovery_bundles s' = recovery_bundles s"
  using assms by (simp_all add: accounts_of_def)

section \<open>The vault services\<close>

lemma commits_others [simp]: "others_same s (commits s' ns c q) = others_same s s'"
  by (simp add: commits_def)

lemma rekey_item_others:
  assumes "rekey_item U now s u item = Inr s'"
  shows "others_same s s'"
proof -
  from assms obtain r s1 where vs: "rekey_versions U s u u (ri_NodeID item) (ri_Versions item) = Inr s1"
    and s': "s' = set_node (ri_NodeID item) (rekeyed_row item u (sync_seq s1 + 1) now)
      (snd (recordChange now s1 u (ri_NodeID item) ''UPDATE''))"
    by (auto simp: rekey_item_def recordChange_def Let_def rekeyed_row_def [abs_def])
  from rekey_versions_frame [OF vs] obtain fv where s1: "s1 = s\<lparr>file_versions := fv\<rparr>" by blast
  show ?thesis by (simp add: s' s1 set_node_def recordChange_def Let_def)
qed

lemma rekey_items_others: "rekey_items U now s u items = Inr s' \<Longrightarrow> others_same s s'"
proof (induction items arbitrary: s)
  case (Cons item items)
  then obtain s1 where s1: "rekey_item U now s u item = Inr s1" "rekey_items U now s1 u items = Inr s'" by auto
  show ?case by (rule others_same_trans [OF rekey_item_others [OF s1(1)] Cons.IH [OF s1(2)]])
qed simp

lemma tx_others:
  shows "Create_tx U now s ci = Inr (Committed i s') \<Longrightarrow> others_same s s'"
    and "Update_tx U now s ui = Inr (Committed i s') \<Longrightarrow> others_same s s'"
    and "Delete_tx U now s u d j op v = Inr (Committed i s') \<Longrightarrow> others_same s s'"
    and "Restore_tx U now s u d j op = Inr (Committed i s') \<Longrightarrow> others_same s s'"
  by (erule Create_committed, simp, erule Update_committed, simp, erule Delete_committed, simp, erule Restore_committed, simp)

lemma node_exec_others: "others_same s (fst (node_exec U c s))"
proof -
  obtain now cmd where c: "c = (now, cmd)" by (cases c)
  show ?thesis
  proof (cases cmd)
    case (CreateCmd inp)
    show ?thesis by (rule tx_cases [of "Create_tx U now s inp"]) (use tx_others in \<open>auto simp: c CreateCmd Create_def\<close>)
  next
    case (UpdateCmd inp)
    show ?thesis by (rule tx_cases [of "Update_tx U now s inp"]) (use tx_others in \<open>auto simp: c UpdateCmd Update_def\<close>)
  next
    case (DeleteCmd u d i op v)
    show ?thesis by (rule tx_cases [of "Delete_tx U now s u d i op v"]) (use tx_others in \<open>auto simp: c DeleteCmd Delete_def\<close>)
  next
    case (RestoreCmd u d i op)
    show ?thesis by (rule tx_cases [of "Restore_tx U now s u d i op"]) (use tx_others in \<open>auto simp: c RestoreCmd Restore_def\<close>)
  next
    case (RekeyCmd inp)
    show ?thesis using rekey_items_others [OF Rekey_tx_done(4)] by (auto simp: c RekeyCmd Rekey_def split: sum.split)
  qed
qed

lemma sharing_exec_others: "others_same s (fst (sharing_exec U draws c s))"
proof -
  obtain now k cmd where c: "c = (now, k, cmd)" by (cases c)
  show ?thesis
  proof (cases cmd)
    case (FolderKeyCmd u d i v env)
    have "others_same s s'" if "CreateFolderKey_tx U now s u d i v env = Inr (Some s')" for s'
      using that by (rule CreateFolderKey_stored) simp
    then show ?thesis by (auto simp: c FolderKeyCmd CreateFolderKey_def split: sum.split option.split)
  next
    case (GrantCmd inp)
    have "others_same s s'" if "CreateGrant_tx U now (draws k) s inp = Inr (Granted i s')" for i s'
      using that by (rule CreateGrant_granted) simp
    then show ?thesis by (auto simp: c GrantCmd CreateGrant_def split: sum.split grant_tx.split)
  next
    case (EnvelopesCmd u d i es)
    have "others_same s s'" if "AddEnvelopes_tx U now (draws k) s u d i es = Inr s'" for s'
    proof -
      from that obtain n where "insertEnvelopes (draws k) n s i es now = Inr s'"
        by (auto simp: AddEnvelopes_tx_def split: if_split_asm option.split_asm)
      then obtain ev where "s' = s\<lparr>share_device_envelopes := ev\<rparr>" using insertEnvelopes_frame by blast
      then show ?thesis by simp
    qed
    then show ?thesis by (auto simp: c EnvelopesCmd AddEnvelopes_def split: sum.split)
  next
    case (RevokeCmd u d i)
    from Revoke_cases [of U now s u d i] show ?thesis by (auto simp: c RevokeCmd)
  qed
qed

lemma upload_exec_others:
  assumes inv: "server_inv H sv"
  shows "others_same (sv_db sv) (sv_db (fst (upload_exec U H svc draw c sv)))"
proof -
  obtain now k cmd where c: "c = (now, k, cmd)" by (cases c)
  have d: "distinct (map n_id (nodes (sv_db sv)))" using inv vault_invD(8) by (simp add: server_inv_def)
  show ?thesis
  proof (cases cmd)
    case (CreateUploadCmd inp)
    have "others_same (sv_db sv) s'" if "CreateUpload_tx U svc now (draw k) (sv_db sv) inp = Inr (session, s')" for session s'
      using d that by (rule CreateUpload_session) simp
    then show ?thesis by (auto simp: c CreateUploadCmd CreateUpload_def split: sum.split)
  next
    case (PutChunkCmd u de i no x)
    obtain sv' r where p: "PutChunk U H now sv u de i no x = (sv', r)" by fastforce
    then have "others_same (sv_db sv) (sv_db sv')" by (cases rule: PutChunk_cases) simp_all
    with p show ?thesis by (simp add: c PutChunkCmd)
  next
    case (AbortCmd u de i)
    then show ?thesis by (simp add: c AbortUpload_def split: sum.split)
  next
    case (CompleteCmd i inp)
    obtain sv' res where p: "CompleteUpload U H svc now sv i inp = (sv', res)" by fastforce
    with inv have "others_same (sv_db sv) (sv_db sv')"
    proof (cases rule: CompleteUpload_cases)
      case (stored session expected chunks sz dk dig r s')
      from d stored(3) have "others_same (sv_db sv) s'"
      proof (rule complete_tx_done)
        fix n assume "s' = upload_commit now (sv_db sv) i inp session (n_owner_id n) sz dig"
        then show ?thesis by (simp add: upload_commit_def)
      qed
      then show ?thesis by (simp add: stored(4))
    qed simp_all
    with p show ?thesis by (simp add: c CompleteCmd)
  qed
qed

section \<open>Maintenance\<close>

text \<open>What a pass may do to the other parts: delete expired tokens and favorites.\<close>

definition tidied_from :: "db \<Rightarrow> db \<Rightarrow> bool" where
  "tidied_from s s' \<longleftrightarrow> users s' = users s \<and> devices s' = devices s \<and> vault_key_envelopes s' = vault_key_envelopes s \<and>
     recovery_bundles s' = recovery_bundles s \<and> (\<exists>p. refresh_tokens s' = filter p (refresh_tokens s)) \<and>
     (\<exists>p. access_tokens s' = filter p (access_tokens s)) \<and> (\<exists>p. favorites s' = filter p (favorites s))"

lemma filter_self: "\<exists>p. xs = filter p xs"
  by (rule exI [of _ "\<lambda>_. True"]) simp

lemma tidied_from_same: "others_same s s' \<Longrightarrow> tidied_from s s'"
  using accounts_ofD [of s' s] by (simp add: tidied_from_def others_same_def filter_self)

lemma filter_again: "\<exists>p. ys = filter p xs \<Longrightarrow> \<exists>p. zs = filter p ys \<Longrightarrow> \<exists>p. zs = filter p xs"
  by (metis filter_filter)

lemma tidied_from_trans: "tidied_from s s1 \<Longrightarrow> tidied_from s1 s2 \<Longrightarrow> tidied_from s s2"
  unfolding tidied_from_def by (intro conjI; (elim conjE)?; (rule filter_again)?; simp)

lemma purge_server_tidied: "tidied_from (sv_db sv) (sv_db (purge_server now cutoff sv i))"
proof -
  let ?p = "\<lambda>x. \<not> fav_node_id x \<in> set (map n_id (trashSubtree (sv_db sv) i cutoff))"
  have "favorites (sv_db (purge_server now cutoff sv i)) = filter ?p (favorites (sv_db sv))"
    by (simp add: purge_server_def purge_rows_def Let_def del_def)
  then show ?thesis using filter_self [of "refresh_tokens (sv_db sv)"] filter_self [of "access_tokens (sv_db sv)"]
    unfolding tidied_from_def by (intro conjI exI [of _ ?p]) (simp_all add: purge_server_def purge_rows_def Let_def)
qed

lemma cleanupExpired_tidied: "tidied_from (sv_db sv) (sv_db (fst (cleanupExpired now sv)))"
  using filter_self [of "favorites (sv_db sv)"]
  by (auto simp: tidied_from_def cleanupExpired_def deleteBefore_def del_def Let_def)

definition tidies :: "(bytes \<Rightarrow> string) \<Rightarrow> db \<Rightarrow> server \<Rightarrow> bool" where
  "tidies H s0 sv \<longleftrightarrow> system_inv H sv \<and> tidied_from s0 (sv_db sv)"

lemma tidies_step: "tidies H s0 sv \<Longrightarrow> system_inv H sv' \<Longrightarrow> tidied_from (sv_db sv) (sv_db sv') \<Longrightarrow> tidies H s0 sv'"
  using tidied_from_trans by (auto simp: tidies_def)

lemma tidies_same: "tidies H s0 sv \<Longrightarrow> system_inv H sv' \<Longrightarrow> others_same (sv_db sv) (sv_db sv') \<Longrightarrow> tidies H s0 sv'"
  using tidies_step tidied_from_same by blast

lemma purgeSubtree_tidies:
  assumes t: "tidies H s0 sv"
  shows "tidies H s0 (fst (purgeSubtree U now cutoff sv i))"
proof (rule tidies_step [OF t])
  have inv: "system_inv H sv" using t by (simp add: tidies_def)
  show "system_inv H (fst (purgeSubtree U now cutoff sv i))" by (rule system_purge [OF inv])
  show "tidied_from (sv_db sv) (sv_db (fst (purgeSubtree U now cutoff sv i)))"
    using purge_server_tidied tidied_from_same by (simp add: purgeSubtree_eq [OF system_invD(2) [OF inv]])
qed

lemma PurgeTrashEntry_tidies: "tidies H s0 sv \<Longrightarrow> tidies H s0 (fst (PurgeTrashEntry U now sv u i))"
  using purgeSubtree_tidies by (simp add: PurgeTrashEntry_def fst_sbind split: option.split sum.split)

lemma markOrphan_others: "others_same s (fold (markOrphan U now) xs s') = others_same s s'"
  by (induction xs arbitrary: s') (simp_all add: markOrphan_def Let_def)

text \<open>A pass step by step; each of its steps keeps the invariant of the whole and tidies.\<close>

lemma maintenance_tidies:
  assumes t: "tidies H s0 sv"
  shows "tidies H s0 (fst (cleanupExpired now sv))" "tidies H s0 (fst (cleanupExpiredUploads U now sv))"
    "tidies H s0 (fst (cleanupExpiredTrash U pol now sv))" "tidies H s0 (fst (pruneFileVersions pol now sv))"
    "tidies H s0 (fst (collectUnreferencedBlobs U pol now sv))" "tidies H s0 (fst (collectOrphanBlobFiles U pol now sv))"
proof -
  have inv: "system_inv H sv" using t by (simp add: tidies_def)
  show "tidies H s0 (fst (cleanupExpired now sv))"
    by (rule tidies_step [OF t system_expired [OF inv] cleanupExpired_tidied])
  have up: "tidies H s0 (fst (expireUpload now sv1 i))" if "tidies H s0 sv1" for sv1 i
  proof -
    have i1: "system_inv H sv1" using that by (simp add: tidies_def)
    have d: "distinct (map us_id (upload_sessions (sv_db sv1)))" by (rule storage_invD(7) [OF system_invD(3) [OF i1]])
    show ?thesis by (rule tidies_same [OF that system_upload [OF i1]]) (simp add: expireUpload_eq [OF d])
  qed
  then show "tidies H s0 (fst (cleanupExpiredUploads U now sv))"
    unfolding cleanupExpiredUploads_def Let_def by (simp add: each_inv [where P = "tidies H s0"] t)
  show "tidies H s0 (fst (cleanupExpiredTrash U pol now sv))"
    unfolding cleanupExpiredTrash_def Let_def by (rule each_inv [where P = "tidies H s0"]) (simp_all add: purgeSubtree_tidies t)
  have d: "distinct (map f_id (file_versions (sv_db sv)))"
    using storage_invD(3) [OF system_invD(3) [OF inv]] by (simp add: versions_ok_def)
  show "tidies H s0 (fst (pruneFileVersions pol now sv))"
    by (rule tidies_same [OF t system_prune [OF inv]]) (simp add: pruneFileVersions_eq [OF d])
  show "tidies H s0 (fst (collectUnreferencedBlobs U pol now sv))"
  proof (rule tidies_same [OF t system_blobs [OF inv]])
    let ?P = "\<lambda>sv1. others_same (sv_db sv) (sv_db sv1)"
    have "?P (fst (each deleteBlob cs sv1 0))" if "?P sv1" for cs sv1
      by (rule each_inv [where P = ?P]) (simp_all add: that deleteBlob_def deleteBlob_tx_def Let_def)
    then show "?P (fst (collectUnreferencedBlobs U pol now sv))"
      by (simp add: collectUnreferencedBlobs_def markBlobs_def Let_def)
  qed
  show "tidies H s0 (fst (collectOrphanBlobFiles U pol now sv))"
  proof (rule tidies_same [OF t system_orphans [OF inv]])
    let ?P = "\<lambda>sv1. others_same (sv_db sv) (sv_db sv1)"
    have "?P (fst (each deleteOrphan cs sv1 0))" if "?P sv1" for cs sv1
      by (rule each_inv [where P = ?P]) (simp_all add: that deleteOrphan_def Let_def)
    then show "?P (fst (collectOrphanBlobFiles U pol now sv))"
      by (simp add: collectOrphanBlobFiles_def markOrphan_others Let_def)
  qed
qed

lemma RunMaintenance_tidies:
  assumes "tidies H s0 sv"
  shows "tidies H s0 (fst (RunMaintenance U pol now sv))"
  unfolding RunMaintenance_def
  by (rule sbind_inv, rule maintenance_tidies(1) [OF assms], clarsimp split: prod.split,
      rule sbind_inv, erule maintenance_tidies(2), rule sbind_inv, erule maintenance_tidies(3),
      rule sbind_inv, erule maintenance_tidies(4), rule sbind_inv, erule maintenance_tidies(5),
      rule sbind_inv, erule maintenance_tidies(6), simp)

section \<open>Sessions, accounts, favorites and certificates\<close>

text \<open>What a session command may do: it adds devices of known users, never changes a device's key, and leaves the rest.\<close>

definition device_key :: "device_row \<Rightarrow> id \<times> id \<times> int \<times> bytes" where
  "device_key d = (d_id d, d_user_id d, d_e2ee_key_version d, d_e2ee_public_key d)"

definition session_step :: "db \<Rightarrow> db \<Rightarrow> bool" where
  "session_step s s' \<longleftrightarrow> vault_of s' = vault_of s \<and> favorites s' = favorites s \<and> vault_key_envelopes s' = vault_key_envelopes s \<and>
     recovery_bundles s' = recovery_bundles s \<and> users s' = users s \<and>
     device_key ` set (devices s) \<subseteq> device_key ` set (devices s') \<and>
     d_user_id ` set (devices s') \<subseteq> d_user_id ` set (devices s) \<union> u_id ` set (users s)"

lemma session_step_refl [simp]: "session_step s s"
  by (simp add: session_step_def)

lemma device_key_upd: "(\<And>d. device_key (f d) = device_key d) \<Longrightarrow> device_key ` set (upd p f ds) = device_key ` set ds"
  by (rule image_upd)

lemma device_user_upd: "(\<And>d. device_key (f d) = device_key d) \<Longrightarrow> d_user_id ` set (upd p f ds) = d_user_id ` set ds"
  by (rule image_upd) (simp add: device_key_def)

lemma session_step_devices:
  assumes "\<And>d. device_key (f d) = device_key d"
  shows "session_step s (s\<lparr>devices := upd p f (devices s)\<rparr>)"
  using device_key_upd [of f] device_user_upd [of f] assms by (simp add: session_step_def)

lemma session_step_tokens [simp]:
  "session_step s (s'\<lparr>refresh_tokens := a\<rparr>) = session_step s s'" "session_step s (s'\<lparr>access_tokens := b\<rparr>) = session_step s s'"
  by (simp_all add: session_step_def)

lemma subset_chain: "A \<subseteq> B \<union> C \<Longrightarrow> D \<subseteq> A \<union> C \<Longrightarrow> D \<subseteq> B \<union> C"
  by blast

lemma session_step_trans:
  assumes a: "session_step s s1" and b: "session_step s1 s2"
  shows "session_step s s2"
proof -
  have "d_user_id ` set (devices s2) \<subseteq> d_user_id ` set (devices s) \<union> u_id ` set (users s)"
    by (rule subset_chain [of "d_user_id ` set (devices s1)"]) (use a b in \<open>simp_all add: session_step_def\<close>)
  moreover have "device_key ` set (devices s) \<subseteq> device_key ` set (devices s2)"
    by (rule order_trans [of _ "device_key ` set (devices s1)"]) (use a b in \<open>simp_all only: session_step_def\<close>)
  ultimately show ?thesis using a b by (simp add: session_step_def)
qed

lemma upsertDevice_step:
  assumes u: "upsertDevice now s u reg = Inr (dev, s1)" and user: "u \<in> u_id ` set (users s)"
  shows "session_step s s1"
proof (cases "device_of s (reg_ID reg) u")
  case None
  with u user show ?thesis by (auto simp: upsertDevice_def loadDevice_def session_step_def split: if_split_asm)
next
  case (Some d)
  with u have s1: "s1 = s\<lparr>devices := upd (\<lambda>x. d_id x = d_id d) (\<lambda>d. d\<lparr>d_name := reg_Name reg, d_last_seen_at := now\<rparr>) (devices s)\<rparr>"
    by (auto simp: upsertDevice_def loadDevice_def scanDevice_def split: if_split_asm)
  show ?thesis unfolding s1 by (rule session_step_devices) (simp add: device_key_def)
qed

lemma issueTokens_step: "issueTokens svc draws now s user dev = Inr (ses, s') \<Longrightarrow> session_step s s'"
  by (erule issueTokens_Inr) (hypsubst, simp)

lemma Login_tx_step:
  assumes "Login_tx svc draws now s user hash reg = Inr (ses, s')"
  shows "session_step s s'"
proof -
  from assms obtain usr dev s1 where u: "user_of s (usr_ID user) = Some usr"
    and s1: "upsertDevice now s (usr_ID user) reg = Inr (dev, s1)" and s': "issueTokens svc draws now s1 user dev = Inr (ses, s')"
    by (rule Login_tx_Inr)
  from find_SomeD [OF u [unfolded user_of_def]] have "usr_ID user \<in> u_id ` set (users s)" by force
  from session_step_trans [OF upsertDevice_step [OF s1 this] issueTokens_step [OF s']] show ?thesis .
qed

lemma Refresh_step: "session_step s (fst (Refresh svc draws now s token))"
proof -
  obtain s' ans where R: "Refresh svc draws now s token = (s', ans)" by fastforce
  from R show ?thesis
  proof (cases rule: Refresh_cases)
    case (reissue r ses)
    from reissue(6) show ?thesis
      by (rule reissue_Inr) (use issueTokens_step in \<open>auto simp: R supersede_def Let_def\<close>)
  qed (simp_all add: R revokeDeviceTokens_def)
qed

lemma RecordSync_step: "session_step s (fst (RecordSync now s u d))"
proof -
  have "session_step s (s\<lparr>devices := upd p (\<lambda>d. d\<lparr>d_last_sync_at := Some now\<rparr>) (devices s)\<rparr>)" for p
    by (rule session_step_devices) (simp add: device_key_def)
  then show ?thesis by (simp add: RecordSync_def Let_def split: option.split)
qed

lemma RevokeDevice_step: "session_step s (fst (RevokeDevice now s u d))"
proof -
  have "session_step s (s\<lparr>devices := upd p (\<lambda>d. d\<lparr>d_revoked_at := Some now\<rparr>) (devices s)\<rparr>)" for p
    by (rule session_step_devices) (simp add: device_key_def)
  then show ?thesis by (simp add: RevokeDevice_def Let_def)
qed

lemma session_exec_step:
  assumes "\<forall>now. c \<noteq> (now, ExpireTokens)" "\<forall>now x. c \<noteq> (now, AccountRequest x)"
  shows "session_step s (fst (session_exec svc c s))"
proof -
  obtain now cmd where c: "c = (now, cmd)" by (cases c)
  show ?thesis
    by (cases cmd) (use assms in \<open>auto simp: c Refresh_step RecordSync_step RevokeDevice_step Logout_def
      split: sum.split option.split dest: Login_tx_step\<close>)
qed

text \<open>Favorite commands write favorites only, certificate commands envelopes and bundles only.\<close>

lemma favorite_exec_frame: "vault_of (fst (favorite_exec U c s)) = vault_of s \<and> accounts_of (fst (favorite_exec U c s)) = accounts_of s"
proof -
  obtain now cmd where c: "c = (now, cmd)" by (cases c)
  have add: "vault_of s' = vault_of s \<and> accounts_of s' = accounts_of s" if "AddFavorite U now s u i = Inr s'" for u i s'
    using that by (cases rule: AddFavorite_cases) (simp_all add: accounts_of_def)
  show ?thesis
  proof (cases cmd)
    case (AddRequest u i)
    with add show ?thesis by (simp add: c split: sum.split)
  next
    case (RemoveRequest u i)
    then show ?thesis by (simp add: c RemoveFavorite_def accounts_of_def)
  qed
qed

definition certificate_step :: "db \<Rightarrow> db \<Rightarrow> bool" where
  "certificate_step s s' \<longleftrightarrow> (\<exists>es bs. s' = s\<lparr>vault_key_envelopes := es, recovery_bundles := bs\<rparr>)"

lemma identity_exec_frame: "certificate_step s (fst (identity_exec C U c s))"
proof -
  obtain now cmd where c: "c = (now, cmd)" by (cases c)
  have same: "certificate_step s s" unfolding certificate_step_def
    by (intro exI [of _ "vault_key_envelopes s"] exI [of _ "recovery_bundles s"]) simp
  show ?thesis
  proof (cases cmd)
    case (UploadRequest i vault u d v ct dk dv cert)
    have "certificate_step s s'" if u: "UploadAuthenticated C U now i s vault u d v ct dk dv cert = Inr (env, s')" for env s'
    proof -
      from u obtain row where "s' = s\<lparr>vault_key_envelopes := vault_key_envelopes s @ [row]\<rparr>" by (rule UploadAuthenticated_Inr)
      then show ?thesis unfolding certificate_step_def
        by (intro exI [of _ "vault_key_envelopes s @ [row]"] exI [of _ "recovery_bundles s"]) simp
    qed
    with same show ?thesis by (simp add: c UploadRequest split: sum.split prod.split)
  next
    case (PutRequest u d bun key signature)
    have "certificate_step s (s\<lparr>recovery_bundles := bs\<rparr>)" for bs unfolding certificate_step_def
      by (intro exI [of _ "vault_key_envelopes s"] exI [of _ bs]) simp
    with same show ?thesis by (simp add: c PutRequest PutBundle_def Let_def split: sum.split)
  qed
qed

end
