(* ===== verification/HB_Json.thy ===== *)
theory HB_Json
  imports HB_Codec
begin

text \<open>
  What the HTTP API exchanges. \<open>json\<close> is a JSON value (a number as its literal); its text is \<open>encoding/json\<close>'s
  business. A \<open>reader\<close> is what \<open>Decode\<close> does with a value for a Go type: it takes the value the variable holds
  and gives the new one, or \<open>None\<close> for a value of the wrong type. As in Go, \<open>null\<close> leaves scalars and structs
  alone and clears pointers and slices, an unknown key is skipped, a key matches a field by its exact name or else
  without regard to case (ASCII), and a repeated key is read again on top of the first.

  \<open>StdEncoding\<close> is base64 with padding, \<open>FormatTime\<close> the layout \<open>time.RFC3339Nano\<close> in UTC for the years 0 to 9999.
\<close>

section \<open>JSON values\<close>

datatype json =
    JNull
  | JBool bool
  | JNumber string
  | JString string
  | JArray "json list"
  | JObject "(string \<times> json) list"

type_synonym 'a reader = "json \<Rightarrow> 'a \<Rightarrow> 'a option"

definition read_string :: "string reader" where
  "read_string j v = (case j of JNull \<Rightarrow> Some v | JString s \<Rightarrow> Some s | _ \<Rightarrow> None)"

definition read_int :: "int reader" where
  "read_int j v = (case j of JNull \<Rightarrow> Some v | JNumber n \<Rightarrow> ParseInt n | _ \<Rightarrow> None)"

definition read_bool :: "bool reader" where
  "read_bool j v = (case j of JNull \<Rightarrow> Some v | JBool b \<Rightarrow> Some b | _ \<Rightarrow> None)"

definition read_pointer :: "'a reader \<Rightarrow> 'a \<Rightarrow> 'a option reader" where
  "read_pointer rd zero j v =
     (if j = JNull then Some None else map_option Some (rd j (case v of None \<Rightarrow> zero | Some x \<Rightarrow> x)))"

definition read_list :: "'a reader \<Rightarrow> 'a \<Rightarrow> 'a list reader" where
  "read_list rd zero j v =
     (case j of JNull \<Rightarrow> Some [] | JArray js \<Rightarrow> those (map (\<lambda>x. rd x zero) js) | _ \<Rightarrow> None)"

definition field_for :: "(string \<times> 'f) list \<Rightarrow> string \<Rightarrow> 'f option" where
  "field_for fields key =
     (case map_of fields key of
        Some rd \<Rightarrow> Some rd
      | None \<Rightarrow> map_option snd (find (\<lambda>f. ToLower (fst f) = ToLower key) fields))"

fun read_members :: "(string \<times> 'r reader) list \<Rightarrow> (string \<times> json) list \<Rightarrow> 'r \<Rightarrow> 'r option" where
  "read_members fields [] r = Some r"
| "read_members fields ((key, j) # ms) r =
     (case field_for fields key of
        None \<Rightarrow> read_members fields ms r
      | Some rd \<Rightarrow> (case rd j r of None \<Rightarrow> None | Some r' \<Rightarrow> read_members fields ms r'))"

definition read_object :: "(string \<times> 'r reader) list \<Rightarrow> 'r reader" where
  "read_object fields j r = (case j of JNull \<Rightarrow> Some r | JObject ms \<Rightarrow> read_members fields ms r | _ \<Rightarrow> None)"

text \<open>A field of a struct: its name, its reader, how to get it and how to set it.\<close>

definition field :: "string \<Rightarrow> 'a reader \<Rightarrow> ('r \<Rightarrow> 'a) \<Rightarrow> ('a \<Rightarrow> 'r \<Rightarrow> 'r) \<Rightarrow> string \<times> 'r reader" where
  "field name rd get put = (name, \<lambda>j r. map_option (\<lambda>x. put x r) (rd j (get r)))"

section \<open>Writing\<close>

definition json_int :: "int \<Rightarrow> json" where
  "json_int i = JNumber (FormatInt i)"

definition json_pointer :: "string \<Rightarrow> ('a \<Rightarrow> json) \<Rightarrow> 'a option \<Rightarrow> (string \<times> json) list" where
  "json_pointer name f v = (case v of None \<Rightarrow> [] | Some x \<Rightarrow> [(name, f x)])"

definition json_nonempty :: "string \<Rightarrow> string \<Rightarrow> (string \<times> json) list" where
  "json_nonempty name s = (if s = [] then [] else [(name, JString s)])"

section \<open>Base 64 with padding\<close>

definition StdEncode :: "bytes \<Rightarrow> string" where
  "StdEncode xs = b64_encode std_alphabet xs @ replicate ((3 - length xs mod 3) mod 3) CHR ''=''"

definition StdDecode :: "string \<Rightarrow> bytes option" where
  "StdDecode s =
     (let s' = filter (\<lambda>x. x \<noteq> CHR 0x0A \<and> x \<noteq> CHR 0x0D) s;
          body = takeWhile (\<lambda>x. x \<noteq> CHR ''='') s';
          padding = dropWhile (\<lambda>x. x \<noteq> CHR ''='') s';
          m = length body mod 4
      in if m = 0 \<and> padding = [] \<or> m = 2 \<and> padding = ''=='' \<or> m = 3 \<and> padding = ''=''
         then b64_decode std_alphabet body else None)"

lemma length_sextets: "length (sextets xs) mod 4 = (if length xs mod 3 = 0 then 0 else length xs mod 3 + 1)"
  by (induction xs rule: sextets.induct) simp_all

lemma takeWhile_stop: "x \<notin> set xs \<Longrightarrow> takeWhile (\<lambda>y. y \<noteq> x) (xs @ replicate n x) = xs \<and> dropWhile (\<lambda>y. y \<noteq> x) (xs @ replicate n x) = replicate n x"
  by (cases n) (auto simp: takeWhile_append dropWhile_append takeWhile_eq_all_conv dropWhile_eq_Nil_conv)

lemma std_chars: "CHR ''='' \<notin> set std_alphabet"
  by code_simp

lemma StdDecode_StdEncode [simp]: "StdDecode (StdEncode xs) = Some xs"
proof -
  let ?b = "b64_encode std_alphabet xs" and ?n = "(3 - length xs mod 3) mod 3"
  have chars: "x \<in> set std_alphabet" if "x \<in> set ?b" for x by (rule b64_chars [OF alphabets(1) that])
  have nl: "CHR 0x0A \<notin> set std_alphabet" "CHR 0x0D \<notin> set std_alphabet" using alphabets(1) by (simp_all add: is_alphabet_def)
  have plain: "filter (\<lambda>x. x \<noteq> CHR 0x0A \<and> x \<noteq> CHR 0x0D) (StdEncode xs) = StdEncode xs"
  proof (rule filter_True, intro ballI)
    fix x assume "x \<in> set (StdEncode xs)"
    then have "x \<in> set std_alphabet \<or> x = CHR ''=''" using chars by (auto simp: StdEncode_def)
    then show "x \<noteq> CHR 0x0A \<and> x \<noteq> CHR 0x0D" using nl by auto
  qed
  have split: "takeWhile (\<lambda>x. x \<noteq> CHR ''='') (StdEncode xs) = ?b \<and> dropWhile (\<lambda>x. x \<noteq> CHR ''='') (StdEncode xs) = replicate ?n CHR ''=''"
    unfolding StdEncode_def by (rule takeWhile_stop) (use chars std_chars in blast)
  have len: "length ?b mod 4 = (if length xs mod 3 = 0 then 0 else length xs mod 3 + 1)"
    using length_sextets [of "map of_char xs"] by (simp add: b64_encode_def)
  have "length xs mod 3 < 3" by simp
  then consider "length xs mod 3 = 0" | "length xs mod 3 = 1" | "length xs mod 3 = 2" by linarith
  then have "length ?b mod 4 = 0 \<and> replicate ?n CHR ''='' = [] \<or> length ?b mod 4 = 2 \<and> replicate ?n CHR ''='' = ''=='' \<or>
      length ?b mod 4 = 3 \<and> replicate ?n CHR ''='' = ''=''"
    by cases (simp_all add: len numeral_2_eq_2)
  then show ?thesis unfolding StdDecode_def Let_def plain split [THEN conjunct1] split [THEN conjunct2]
    by (simp only: if_True b64_roundtrip [OF alphabets(1)])
qed

section \<open>Timestamps\<close>

definition pad :: "nat \<Rightarrow> int \<Rightarrow> string" where
  "pad w i = (let ds = FormatInt i in replicate (w - length ds) CHR ''0'' @ ds)"

text \<open>Year, month and day of a day counted from 1970-01-01.\<close>

definition civil :: "int \<Rightarrow> int \<times> int \<times> int" where
  "civil day =
     (let z = day + 719468;
          era = z div 146097;
          doe = z mod 146097;
          yoe = (doe - doe div 1460 + doe div 36524 - doe div 146096) div 365;
          doy = doe - (365 * yoe + yoe div 4 - yoe div 100);
          mp = (5 * doy + 2) div 153;
          d = doy - (153 * mp + 2) div 5 + 1;
          m = (if mp < 10 then mp + 3 else mp - 9);
          y = yoe + era * 400 + (if m \<le> 2 then 1 else 0)
      in (y, m, d))"

definition FormatTime :: "time \<Rightarrow> string" where
  "FormatTime t =
     (let secs = t div nanos_per_second;
          (y, m, d) = civil (secs div 86400);
          sod = secs mod 86400
      in pad 4 y @ ''-'' @ pad 2 m @ ''-'' @ pad 2 d @ ''T'' @ pad 2 (sod div 3600) @ '':'' @
         pad 2 (sod mod 3600 div 60) @ '':'' @ pad 2 (sod mod 60) @ map char_of (frac_text (t mod nanos_per_second)))"

definition json_time :: "time \<Rightarrow> json" where
  "json_time t = JString (FormatTime t)"

end
