(* ===== verification/HB_Api.thy ===== *)
theory HB_Api
  imports HB_Json HB_Identity HB_Favorites HB_Session HB_Sync HB_Sharing HB_Uploads HB_Maintenance
begin

text \<open>
  The frame of the HTTP API (internal/httpapi): what the handlers share. A \<open>request\<close> holds what the handlers read of
  an \<open>http.Request\<close>: its method, the segments of its path, the query, the Authorization header, the peer address and
  the body, seen as the JSON value \<open>decodeJSON\<close> finds (\<open>None\<close>: malformed, or beyond the size limit) and as the
  bytes of a chunk. \<open>rq_UserID\<close> and \<open>rq_DeviceID\<close> are the context values \<open>authenticated\<close> sets. A page cursor in the
  query is taken as decoded (see \<open>HB_Nodes\<close>).

  \<open>API\<close> is the Go struct of that name with the configuration of its services. A \<open>call\<close> carries what one request draws:
  the clock reading, random bytes and UUIDs. A handler takes both, the request and the state of the server, and
  gives the new state with the response.
\<close>

section \<open>Requests and responses\<close>

datatype cursor = NoCursor | BadCursor | CursorAt page_key

datatype chunk_body = ChunkBytes bytes | ChunkUnreadable

record request =
  rq_Method :: string
  rq_Path :: "string list"
  rq_Query :: "string \<Rightarrow> string"
  rq_After :: cursor
  rq_Authorization :: string
  rq_RemoteAddr :: string
  rq_Json :: "json option"
  rq_Chunk :: chunk_body
  rq_PathValue :: "string \<Rightarrow> string"
  rq_UserID :: id
  rq_DeviceID :: id

datatype payload = NoPayload | JsonPayload json | TextPayload string | StreamPayload bytes

record response =
  rs_Status :: int
  rs_NextAfter :: "page_key option"
  rs_ETag :: "string option"
  rs_Payload :: payload

record API =
  api_auth :: AuthService
  api_crypto :: crypto_pkg
  api_digest :: "bytes \<Rightarrow> string"
  api_uploads :: UploadService
  api_sync :: SyncService

record call =
  cl_now :: time
  cl_requestID :: id
  cl_tokens :: TokenDraws
  cl_ids :: "nat \<Rightarrow> id"

record api_state =
  ap_server :: server
  ap_login :: attemptLimiter
  ap_account :: attemptLimiter
  ap_address :: attemptLimiter

type_synonym handler = "API \<Rightarrow> call \<Rightarrow> request \<Rightarrow> api_state \<Rightarrow> api_state \<times> response"

abbreviation ap_db :: "api_state \<Rightarrow> db" where
  "ap_db st \<equiv> sv_db (ap_server st)"

abbreviation api_uuid :: "API \<Rightarrow> uuid_pkg" where
  "api_uuid a \<equiv> as_uuid (api_auth a)"

definition set_db :: "db \<Rightarrow> api_state \<Rightarrow> api_state" where
  "set_db s st = st\<lparr>ap_server := (ap_server st)\<lparr>sv_db := s\<rparr>\<rparr>"

definition auth_part :: "api_state \<Rightarrow> auth_state" where
  "auth_part st = \<lparr>au_db = ap_db st, au_login = ap_login st, au_account = ap_account st, au_address = ap_address st\<rparr>"

definition set_auth_part :: "auth_state \<Rightarrow> api_state \<Rightarrow> api_state" where
  "set_auth_part au st = (set_db (au_db au) st)\<lparr>ap_login := au_login au, ap_account := au_account au, ap_address := au_address au\<rparr>"

lemma state_simps [simp]:
  "ap_db (set_db s st) = s" "sv_disk (ap_server (set_db s st)) = sv_disk (ap_server st)"
  "ap_login (set_db s st) = ap_login st" "ap_account (set_db s st) = ap_account st" "ap_address (set_db s st) = ap_address st"
  "set_db (ap_db st) st = st" "set_auth_part (auth_part st) st = st" "auth_part (set_auth_part au st) = au"
  "au_db (auth_part st) = ap_db st"
  by (simp_all add: set_db_def set_auth_part_def auth_part_def)

section \<open>Writing responses\<close>

definition respond :: "int \<Rightarrow> payload \<Rightarrow> response" where
  "respond status body = \<lparr>rs_Status = status, rs_NextAfter = None, rs_ETag = None, rs_Payload = body\<rparr>"

definition writeJSON :: "int \<Rightarrow> json \<Rightarrow> response" where
  "writeJSON status body = respond status (JsonPayload body)"

definition noContent :: response where
  "noContent = respond 204 NoPayload"

definition writeError :: "call \<Rightarrow> int \<Rightarrow> string \<Rightarrow> string \<Rightarrow> response" where
  "writeError cl status code message =
     writeJSON status (JObject [(''error'', JObject [(''code'', JString code), (''message'', JString message),
       (''requestId'', JString (cl_requestID cl))])])"

definition writeInternalError :: "call \<Rightarrow> string \<Rightarrow> response" where
  "writeInternalError cl message = writeError cl 500 ''INTERNAL_ERROR'' message"

definition writeServiceError :: "call \<Rightarrow> err \<Rightarrow> response" where
  "writeServiceError cl e = (case e of
     Validation message \<Rightarrow> writeError cl 400 ''VALIDATION_ERROR'' message
   | AuthInvalidCredentials \<Rightarrow> writeError cl 401 ''AUTH_INVALID_CREDENTIALS'' ''invalid username or password''
   | AuthAccountDisabled \<Rightarrow> writeError cl 403 ''FORBIDDEN'' ''account is disabled''
   | AuthDeviceRevoked \<Rightarrow> writeError cl 403 ''AUTH_DEVICE_REVOKED'' ''device has been revoked''
   | AuthDeviceConflict \<Rightarrow> writeError cl 409 ''VALIDATION_ERROR'' ''device id is already registered to a different account or key''
   | AuthTokenInvalid \<Rightarrow> writeError cl 401 ''AUTH_TOKEN_EXPIRED'' ''token is invalid, expired, or revoked''
   | AuthNotFound \<Rightarrow> writeError cl 404 ''NOT_FOUND'' ''not found''
   | AuthRateLimited \<Rightarrow> writeError cl 429 ''AUTH_RATE_LIMITED'' ''too many failed login attempts; try again shortly''
   | NodesNotFound \<Rightarrow> writeError cl 404 ''NOT_FOUND'' ''node not found''
   | NodesForbidden \<Rightarrow> writeError cl 403 ''FORBIDDEN'' ''node does not belong to this account''
   | NodesRevisionConflict \<Rightarrow> writeError cl 409 ''REVISION_CONFLICT'' ''node revision conflict''
   | NodesInvalidParent \<Rightarrow> writeError cl 400 ''VALIDATION_ERROR'' ''parent must be an existing, non-deleted directory owned by this account''
   | UploadsNotFound \<Rightarrow> writeError cl 404 ''UPLOAD_NOT_FOUND'' ''upload session not found''
   | UploadsForbidden \<Rightarrow> writeError cl 403 ''FORBIDDEN'' ''upload session does not belong to this device''
   | UploadsInvalidState \<Rightarrow> writeError cl 409 ''UPLOAD_EXPIRED'' ''upload session is not open''
   | UploadsChunkConflict \<Rightarrow> writeError cl 409 ''UPLOAD_CHUNK_INVALID'' ''chunk already exists with a different ciphertext digest''
   | UploadsMissingChunks \<Rightarrow> writeError cl 400 ''UPLOAD_CHUNK_INVALID'' ''upload has missing ciphertext chunks''
   | UploadsRevisionConflict \<Rightarrow> writeError cl 409 ''REVISION_CONFLICT'' ''node revision conflict''
   | UploadsIDConflict \<Rightarrow> writeError cl 409 ''UPLOAD_ID_CONFLICT'' ''blob or file version id is already in use''
   | UploadsTooManyUploads \<Rightarrow> writeError cl 429 ''UPLOAD_LIMIT_REACHED'' ''too many unfinished uploads from this device; let them finish or expire''
   | UploadsTargetNodeMissing \<Rightarrow> writeError cl 404 ''NOT_FOUND'' ''target file node not found''
   | SyncInvalidCursor \<Rightarrow> writeError cl 400 ''SYNC_CURSOR_INVALID'' ''sync cursor is invalid''
   | ProvisioningNotFound \<Rightarrow> writeError cl 404 ''NOT_FOUND'' ''no key envelope is available yet''
   | ProvisioningIdentityConflict \<Rightarrow> writeError cl 409 ''DEVICE_IDENTITY_CONFLICT'' ''account identity does not match existing device certificates''
   | RecoveryNotFound \<Rightarrow> writeError cl 404 ''NOT_FOUND'' ''no recovery bundle is stored for this account''
   | RecoveryIdentityConflict \<Rightarrow> writeError cl 409 ''DEVICE_IDENTITY_CONFLICT'' ''recovery bundle is not signed by this account's identity''
   | SharingNotFound \<Rightarrow> writeError cl 404 ''NOT_FOUND'' ''share or recipient was not found''
   | SharingTargetNotFound \<Rightarrow> writeError cl 404 ''NOT_FOUND'' ''share or recipient was not found''
   | SharingForbidden \<Rightarrow> writeError cl 403 ''FORBIDDEN'' ''share is not owned by this account''
   | FavoritesNotFound \<Rightarrow> writeError cl 404 ''NOT_FOUND'' ''node not found''
   | MaintenanceNotInTrash \<Rightarrow> writeError cl 404 ''NOT_FOUND'' ''node is not in the trash''
   | SharingKeyConflict \<Rightarrow> writeError cl 409 ''REVISION_CONFLICT'' ''this folder key version already exists''
   | SharingAlreadyShared \<Rightarrow> writeError cl 409 ''REVISION_CONFLICT'' ''folder is already shared with this account''
   | Internal _ \<Rightarrow> writeInternalError cl ''an internal error occurred''
   | Diverges \<Rightarrow> writeInternalError cl ''an internal error occurred'')"

section \<open>Steps of a handler\<close>

text \<open>An early return with a response, and the answer of a service.\<close>

definition check :: "api_state \<Rightarrow> response + 'a \<Rightarrow> ('a \<Rightarrow> api_state \<times> response) \<Rightarrow> api_state \<times> response" where
  "check st m k = (case m of Inl resp \<Rightarrow> (st, resp) | Inr x \<Rightarrow> k x)"

definition served :: "call \<Rightarrow> err + 'a \<Rightarrow> ('a \<Rightarrow> response) \<Rightarrow> response" where
  "served cl r k = (case r of Inl e \<Rightarrow> writeServiceError cl e | Inr x \<Rightarrow> k x)"

definition in_db :: "call \<Rightarrow> api_state \<Rightarrow> db \<times> (err + 'a) \<Rightarrow> ('a \<Rightarrow> response) \<Rightarrow> api_state \<times> response" where
  "in_db cl st r k = (set_db (fst r) st, served cl (snd r) k)"

definition in_server :: "call \<Rightarrow> api_state \<Rightarrow> server \<times> (err + 'a) \<Rightarrow> ('a \<Rightarrow> response) \<Rightarrow> api_state \<times> response" where
  "in_server cl st r k = (st\<lparr>ap_server := fst r\<rparr>, served cl (snd r) k)"

text \<open>A service call that returns the new database only when it succeeds.\<close>

definition committed :: "db \<Rightarrow> err + db \<Rightarrow> db \<times> (err + unit)" where
  "committed s r = (case r of Inl e \<Rightarrow> (s, Inl e) | Inr s' \<Rightarrow> (s', Inr ()))"

definition committed_with :: "db \<Rightarrow> err + 'a \<times> db \<Rightarrow> db \<times> (err + 'a)" where
  "committed_with s r = (case r of Inl e \<Rightarrow> (s, Inl e) | Inr (x, s') \<Rightarrow> (s', Inr x))"

section \<open>Reading requests\<close>

definition bearerToken :: "request \<Rightarrow> string" where
  "bearerToken r = (if take 7 (rq_Authorization r) = ''Bearer '' then drop 7 (rq_Authorization r) else [])"

text \<open>\<open>net.SplitHostPort\<close>: the host before the last colon, an IPv6 host in brackets.\<close>

definition SplitHost :: "string \<Rightarrow> string option" where
  "SplitHost hostport =
     (if CHR '':'' \<notin> set hostport then None
      else let port = rev (takeWhile (\<lambda>c. c \<noteq> CHR '':'') (rev hostport));
               front = take (length hostport - length port - 1) hostport
           in if hd hostport = CHR ''['' then
                (if CHR '']'' \<notin> set hostport then None
                 else let host = takeWhile (\<lambda>c. c \<noteq> CHR '']'') (tl hostport)
                      in if front = CHR ''['' # host @ '']'' \<and> CHR ''['' \<notin> set host \<and> CHR ''['' \<notin> set port \<and> CHR '']'' \<notin> set port
                         then Some host else None)
              else if CHR '':'' \<in> set front \<or> CHR ''['' \<in> set hostport \<or> CHR '']'' \<in> set hostport then None
              else Some front)"

definition clientAddress :: "request \<Rightarrow> string" where
  "clientAddress r = (case SplitHost (rq_RemoteAddr r) of None \<Rightarrow> rq_RemoteAddr r | Some host \<Rightarrow> host)"

definition canonicalUUID :: "API \<Rightarrow> string \<Rightarrow> bool" where
  "canonicalUUID a v = (case uuid_Parse (api_uuid a) v of None \<Rightarrow> False | Some parsed \<Rightarrow> uuid_String (api_uuid a) parsed = v)"

definition decodeJSON :: "call \<Rightarrow> request \<Rightarrow> 'r reader \<Rightarrow> 'r \<Rightarrow> response + 'r" where
  "decodeJSON cl r rd zero =
     (case (case rq_Json r of None \<Rightarrow> None | Some j \<Rightarrow> rd j zero) of
        None \<Rightarrow> Inl (writeError cl 400 ''VALIDATION_ERROR'' ''malformed JSON request body'')
      | Some x \<Rightarrow> Inr x)"

definition decode64 :: "call \<Rightarrow> string \<Rightarrow> string \<Rightarrow> response + bytes" where
  "decode64 cl message s =
     (case StdDecode s of None \<Rightarrow> Inl (writeError cl 400 ''VALIDATION_ERROR'' message) | Some x \<Rightarrow> Inr x)"

definition pathUUID :: "API \<Rightarrow> call \<Rightarrow> request \<Rightarrow> string \<Rightarrow> response + id" where
  "pathUUID a cl r name =
     (let i = rq_PathValue r name
      in if canonicalUUID a i then Inr i else Inl (writeError cl 400 ''VALIDATION_ERROR'' (''invalid '' @ name)))"

definition pathDeviceID :: "API \<Rightarrow> call \<Rightarrow> request \<Rightarrow> response + id" where
  "pathDeviceID a cl r =
     (let i = rq_PathValue r ''id''
      in if canonicalUUID a i then Inr i else Inl (writeError cl 400 ''VALIDATION_ERROR'' ''invalid device id''))"

definition pathInt :: "call \<Rightarrow> request \<Rightarrow> string \<Rightarrow> response + int" where
  "pathInt cl r name =
     (case ParseInt (rq_PathValue r name) of
        None \<Rightarrow> Inl (writeError cl 400 ''VALIDATION_ERROR'' (''invalid '' @ name))
      | Some n \<Rightarrow> if n < 0 then Inl (writeError cl 400 ''VALIDATION_ERROR'' (''invalid '' @ name)) else Inr n)"

definition queryInt64 :: "call \<Rightarrow> request \<Rightarrow> string \<Rightarrow> int \<Rightarrow> response + int" where
  "queryInt64 cl r name def =
     (let raw = rq_Query r name
      in if raw = [] then Inr def
         else case ParseInt raw of
           None \<Rightarrow> Inl (writeError cl 400 ''VALIDATION_ERROR'' (''invalid '' @ name))
         | Some n \<Rightarrow> Inr n)"

definition queryInt :: "call \<Rightarrow> request \<Rightarrow> string \<Rightarrow> int \<Rightarrow> response + int" where
  "queryInt cl r name def =
     (let raw = rq_Query r name
      in if raw = [] then Inr def
         else case ParseInt raw of
           None \<Rightarrow> Inl (writeError cl 400 ''VALIDATION_ERROR'' (''invalid '' @ name))
         | Some n \<Rightarrow> Inr n)"

section \<open>Authentication\<close>

definition authenticated :: "handler \<Rightarrow> handler" where
  "authenticated next a cl r st =
     (let token = bearerToken r
      in if token = [] then (st, writeError cl 401 ''AUTH_TOKEN_EXPIRED'' ''missing or malformed Authorization header'')
         else case Authenticate (api_auth a) (cl_now cl) (ap_db st) token of
           Inl e \<Rightarrow> (st, writeServiceError cl e)
         | Inr (userID, deviceID) \<Rightarrow> next a cl (r\<lparr>rq_UserID := userID, rq_DeviceID := deviceID\<rparr>) st)"

section \<open>Facts about the steps\<close>

lemma check_simps [simp]:
  "check st (Inl resp) k = (st, resp)"
  "check st (Inr x) k = k x"
  by (simp_all add: check_def)

lemma fst_check: "fst (check st m k) = (case m of Inl _ \<Rightarrow> st | Inr x \<Rightarrow> fst (k x))"
  by (simp add: check_def split: sum.split)

lemma fst_steps [simp]:
  "fst (in_db cl st r k) = set_db (fst r) st"
  "fst (in_server cl st v k') = st\<lparr>ap_server := fst v\<rparr>"
  by (simp_all add: in_db_def in_server_def)

lemma canonical_valid: "canonicalUUID a i = ValidUUID (api_uuid a) i"
  by (simp add: canonicalUUID_def ValidUUID_def)

end
