(* ===== verification/HB_Wire.thy ===== *)
theory HB_Wire
  imports HB_Api
begin

text \<open>
  The structs of the wire (internal/httpapi): a record per request body with its zero value and its reader, which
  knows the fields by their JSON names, and a function per response struct that gives its JSON value. Fields with
  \<open>omitempty\<close> are left out when empty.
\<close>

section \<open>Request structs\<close>

record deviceRegistrationBody =
  db_ID :: string
  db_Name :: string
  db_Platform :: string
  db_PublicKey :: string
  db_KeyVersion :: int

definition zero_deviceRegistrationBody :: deviceRegistrationBody where
  "zero_deviceRegistrationBody = \<lparr>db_ID = [], db_Name = [], db_Platform = [], db_PublicKey = [], db_KeyVersion = 0\<rparr>"

definition read_deviceRegistrationBody :: "deviceRegistrationBody reader" where
  "read_deviceRegistrationBody = read_object [
     field ''id'' read_string db_ID (\<lambda>x r. r\<lparr>db_ID := x\<rparr>),
     field ''name'' read_string db_Name (\<lambda>x r. r\<lparr>db_Name := x\<rparr>),
     field ''platform'' read_string db_Platform (\<lambda>x r. r\<lparr>db_Platform := x\<rparr>),
     field ''publicKey'' read_string db_PublicKey (\<lambda>x r. r\<lparr>db_PublicKey := x\<rparr>),
     field ''keyVersion'' read_int db_KeyVersion (\<lambda>x r. r\<lparr>db_KeyVersion := x\<rparr>)]"

record loginRequest =
  lr_Username :: string
  lr_Password :: string
  lr_Device :: deviceRegistrationBody

definition zero_loginRequest :: loginRequest where
  "zero_loginRequest = \<lparr>lr_Username = [], lr_Password = [], lr_Device = zero_deviceRegistrationBody\<rparr>"

definition read_loginRequest :: "loginRequest reader" where
  "read_loginRequest = read_object [
     field ''username'' read_string lr_Username (\<lambda>x r. r\<lparr>lr_Username := x\<rparr>),
     field ''password'' read_string lr_Password (\<lambda>x r. r\<lparr>lr_Password := x\<rparr>),
     field ''device'' read_deviceRegistrationBody lr_Device (\<lambda>x r. r\<lparr>lr_Device := x\<rparr>)]"

record refreshTokenRequest =
  rr_RefreshToken :: string

definition zero_refreshTokenRequest :: refreshTokenRequest where
  "zero_refreshTokenRequest = \<lparr>rr_RefreshToken = []\<rparr>"

definition read_refreshTokenRequest :: "refreshTokenRequest reader" where
  "read_refreshTokenRequest = read_object [
     field ''refreshToken'' read_string rr_RefreshToken (\<lambda>x r. r\<lparr>rr_RefreshToken := x\<rparr>)]"

record uploadEnvelopeRequest =
  ue_VaultID :: string
  ue_KeyVersion :: int
  ue_Ciphertext :: string
  ue_SignatureVersion :: int
  ue_AccountIdentityPublicKey :: string
  ue_PublicKeySignature :: string

definition zero_uploadEnvelopeRequest :: uploadEnvelopeRequest where
  "zero_uploadEnvelopeRequest = \<lparr>ue_VaultID = [], ue_KeyVersion = 0, ue_Ciphertext = [], ue_SignatureVersion = 0, ue_AccountIdentityPublicKey = [], ue_PublicKeySignature = []\<rparr>"

definition read_uploadEnvelopeRequest :: "uploadEnvelopeRequest reader" where
  "read_uploadEnvelopeRequest = read_object [
     field ''vaultId'' read_string ue_VaultID (\<lambda>x r. r\<lparr>ue_VaultID := x\<rparr>),
     field ''keyVersion'' read_int ue_KeyVersion (\<lambda>x r. r\<lparr>ue_KeyVersion := x\<rparr>),
     field ''ciphertext'' read_string ue_Ciphertext (\<lambda>x r. r\<lparr>ue_Ciphertext := x\<rparr>),
     field ''signatureVersion'' read_int ue_SignatureVersion (\<lambda>x r. r\<lparr>ue_SignatureVersion := x\<rparr>),
     field ''accountIdentityPublicKey'' read_string ue_AccountIdentityPublicKey (\<lambda>x r. r\<lparr>ue_AccountIdentityPublicKey := x\<rparr>),
     field ''publicKeySignature'' read_string ue_PublicKeySignature (\<lambda>x r. r\<lparr>ue_PublicKeySignature := x\<rparr>)]"

record createNodeRequest =
  cn_ID :: string
  cn_OperationID :: string
  cn_ParentID :: "string option"
  cn_NodeType :: string
  cn_MetadataCiphertext :: string
  cn_MetadataKeyVersion :: int
  cn_MetadataKeyScopeID :: string

definition zero_createNodeRequest :: createNodeRequest where
  "zero_createNodeRequest = \<lparr>cn_ID = [], cn_OperationID = [], cn_ParentID = None, cn_NodeType = [], cn_MetadataCiphertext = [], cn_MetadataKeyVersion = 0, cn_MetadataKeyScopeID = []\<rparr>"

definition read_createNodeRequest :: "createNodeRequest reader" where
  "read_createNodeRequest = read_object [
     field ''id'' read_string cn_ID (\<lambda>x r. r\<lparr>cn_ID := x\<rparr>),
     field ''operationId'' read_string cn_OperationID (\<lambda>x r. r\<lparr>cn_OperationID := x\<rparr>),
     field ''parentId'' (read_pointer read_string []) cn_ParentID (\<lambda>x r. r\<lparr>cn_ParentID := x\<rparr>),
     field ''nodeType'' read_string cn_NodeType (\<lambda>x r. r\<lparr>cn_NodeType := x\<rparr>),
     field ''metadataCiphertext'' read_string cn_MetadataCiphertext (\<lambda>x r. r\<lparr>cn_MetadataCiphertext := x\<rparr>),
     field ''metadataKeyVersion'' read_int cn_MetadataKeyVersion (\<lambda>x r. r\<lparr>cn_MetadataKeyVersion := x\<rparr>),
     field ''metadataKeyScopeId'' read_string cn_MetadataKeyScopeID (\<lambda>x r. r\<lparr>cn_MetadataKeyScopeID := x\<rparr>)]"

record updateNodeRequest =
  un_OperationID :: string
  un_ExpectedRevision :: int
  un_MetadataCiphertext :: "string option"
  un_MetadataKeyVersion :: int
  un_MetadataKeyScopeID :: string
  un_MoveParent :: bool
  un_ParentID :: "string option"

definition zero_updateNodeRequest :: updateNodeRequest where
  "zero_updateNodeRequest = \<lparr>un_OperationID = [], un_ExpectedRevision = 0, un_MetadataCiphertext = None, un_MetadataKeyVersion = 0, un_MetadataKeyScopeID = [], un_MoveParent = False, un_ParentID = None\<rparr>"

definition read_updateNodeRequest :: "updateNodeRequest reader" where
  "read_updateNodeRequest = read_object [
     field ''operationId'' read_string un_OperationID (\<lambda>x r. r\<lparr>un_OperationID := x\<rparr>),
     field ''expectedRevision'' read_int un_ExpectedRevision (\<lambda>x r. r\<lparr>un_ExpectedRevision := x\<rparr>),
     field ''metadataCiphertext'' (read_pointer read_string []) un_MetadataCiphertext (\<lambda>x r. r\<lparr>un_MetadataCiphertext := x\<rparr>),
     field ''metadataKeyVersion'' read_int un_MetadataKeyVersion (\<lambda>x r. r\<lparr>un_MetadataKeyVersion := x\<rparr>),
     field ''metadataKeyScopeId'' read_string un_MetadataKeyScopeID (\<lambda>x r. r\<lparr>un_MetadataKeyScopeID := x\<rparr>),
     field ''moveParent'' read_bool un_MoveParent (\<lambda>x r. r\<lparr>un_MoveParent := x\<rparr>),
     field ''parentId'' (read_pointer read_string []) un_ParentID (\<lambda>x r. r\<lparr>un_ParentID := x\<rparr>)]"

record rekeyVersionRequest =
  kv_ID :: string
  kv_WrappedFileKey :: string
  kv_KeyScopeID :: string
  kv_KeyVersion :: int

definition zero_rekeyVersionRequest :: rekeyVersionRequest where
  "zero_rekeyVersionRequest = \<lparr>kv_ID = [], kv_WrappedFileKey = [], kv_KeyScopeID = [], kv_KeyVersion = 0\<rparr>"

definition read_rekeyVersionRequest :: "rekeyVersionRequest reader" where
  "read_rekeyVersionRequest = read_object [
     field ''id'' read_string kv_ID (\<lambda>x r. r\<lparr>kv_ID := x\<rparr>),
     field ''wrappedFileKey'' read_string kv_WrappedFileKey (\<lambda>x r. r\<lparr>kv_WrappedFileKey := x\<rparr>),
     field ''keyScopeId'' read_string kv_KeyScopeID (\<lambda>x r. r\<lparr>kv_KeyScopeID := x\<rparr>),
     field ''keyVersion'' read_int kv_KeyVersion (\<lambda>x r. r\<lparr>kv_KeyVersion := x\<rparr>)]"

record rekeyItemRequest =
  ki_NodeID :: string
  ki_ExpectedRevision :: int
  ki_MetadataCiphertext :: string
  ki_MetadataKeyVersion :: int
  ki_MetadataKeyScopeID :: string
  ki_FileVersions :: "rekeyVersionRequest list"

definition zero_rekeyItemRequest :: rekeyItemRequest where
  "zero_rekeyItemRequest = \<lparr>ki_NodeID = [], ki_ExpectedRevision = 0, ki_MetadataCiphertext = [], ki_MetadataKeyVersion = 0, ki_MetadataKeyScopeID = [], ki_FileVersions = []\<rparr>"

definition read_rekeyItemRequest :: "rekeyItemRequest reader" where
  "read_rekeyItemRequest = read_object [
     field ''nodeId'' read_string ki_NodeID (\<lambda>x r. r\<lparr>ki_NodeID := x\<rparr>),
     field ''expectedRevision'' read_int ki_ExpectedRevision (\<lambda>x r. r\<lparr>ki_ExpectedRevision := x\<rparr>),
     field ''metadataCiphertext'' read_string ki_MetadataCiphertext (\<lambda>x r. r\<lparr>ki_MetadataCiphertext := x\<rparr>),
     field ''metadataKeyVersion'' read_int ki_MetadataKeyVersion (\<lambda>x r. r\<lparr>ki_MetadataKeyVersion := x\<rparr>),
     field ''metadataKeyScopeId'' read_string ki_MetadataKeyScopeID (\<lambda>x r. r\<lparr>ki_MetadataKeyScopeID := x\<rparr>),
     field ''fileVersions'' (read_list read_rekeyVersionRequest zero_rekeyVersionRequest) ki_FileVersions (\<lambda>x r. r\<lparr>ki_FileVersions := x\<rparr>)]"

record rekeyRequest =
  kr_Items :: "rekeyItemRequest list"

definition zero_rekeyRequest :: rekeyRequest where
  "zero_rekeyRequest = \<lparr>kr_Items = []\<rparr>"

definition read_rekeyRequest :: "rekeyRequest reader" where
  "read_rekeyRequest = read_object [
     field ''items'' (read_list read_rekeyItemRequest zero_rekeyItemRequest) kr_Items (\<lambda>x r. r\<lparr>kr_Items := x\<rparr>)]"

record deleteOrRestoreRequest =
  dr_OperationID :: string
  dr_ExpectedRevision :: int

definition zero_deleteOrRestoreRequest :: deleteOrRestoreRequest where
  "zero_deleteOrRestoreRequest = \<lparr>dr_OperationID = [], dr_ExpectedRevision = 0\<rparr>"

definition read_deleteOrRestoreRequest :: "deleteOrRestoreRequest reader" where
  "read_deleteOrRestoreRequest = read_object [
     field ''operationId'' read_string dr_OperationID (\<lambda>x r. r\<lparr>dr_OperationID := x\<rparr>),
     field ''expectedRevision'' read_int dr_ExpectedRevision (\<lambda>x r. r\<lparr>dr_ExpectedRevision := x\<rparr>)]"

record createUploadRequest =
  cur_TargetNodeID :: string
  cur_FileVersionID :: string
  cur_BlobID :: string
  cur_ExpectedRevision :: "int option"
  cur_ChunkSize :: int
  cur_ChunkCount :: int
  cur_MetadataKeyVersion :: int
  cur_MetadataCiphertext :: string
  cur_WrappedFileKey :: string
  cur_E2eeHeader :: string

definition zero_createUploadRequest :: createUploadRequest where
  "zero_createUploadRequest = \<lparr>cur_TargetNodeID = [], cur_FileVersionID = [], cur_BlobID = [], cur_ExpectedRevision = None, cur_ChunkSize = 0, cur_ChunkCount = 0, cur_MetadataKeyVersion = 0, cur_MetadataCiphertext = [], cur_WrappedFileKey = [], cur_E2eeHeader = []\<rparr>"

definition read_createUploadRequest :: "createUploadRequest reader" where
  "read_createUploadRequest = read_object [
     field ''targetNodeId'' read_string cur_TargetNodeID (\<lambda>x r. r\<lparr>cur_TargetNodeID := x\<rparr>),
     field ''fileVersionId'' read_string cur_FileVersionID (\<lambda>x r. r\<lparr>cur_FileVersionID := x\<rparr>),
     field ''blobId'' read_string cur_BlobID (\<lambda>x r. r\<lparr>cur_BlobID := x\<rparr>),
     field ''expectedRevision'' (read_pointer read_int 0) cur_ExpectedRevision (\<lambda>x r. r\<lparr>cur_ExpectedRevision := x\<rparr>),
     field ''chunkSize'' read_int cur_ChunkSize (\<lambda>x r. r\<lparr>cur_ChunkSize := x\<rparr>),
     field ''chunkCount'' read_int cur_ChunkCount (\<lambda>x r. r\<lparr>cur_ChunkCount := x\<rparr>),
     field ''metadataKeyVersion'' read_int cur_MetadataKeyVersion (\<lambda>x r. r\<lparr>cur_MetadataKeyVersion := x\<rparr>),
     field ''metadataCiphertext'' read_string cur_MetadataCiphertext (\<lambda>x r. r\<lparr>cur_MetadataCiphertext := x\<rparr>),
     field ''wrappedFileKey'' read_string cur_WrappedFileKey (\<lambda>x r. r\<lparr>cur_WrappedFileKey := x\<rparr>),
     field ''e2eeHeader'' read_string cur_E2eeHeader (\<lambda>x r. r\<lparr>cur_E2eeHeader := x\<rparr>)]"

record completeUploadRequest =
  cor_OperationID :: string
  cor_KeyScopeID :: string
  cor_KeyVersion :: int
  cor_ExpectedRevision :: "int option"
  cor_SyncPayloadCiphertext :: string

definition zero_completeUploadRequest :: completeUploadRequest where
  "zero_completeUploadRequest = \<lparr>cor_OperationID = [], cor_KeyScopeID = [], cor_KeyVersion = 0, cor_ExpectedRevision = None, cor_SyncPayloadCiphertext = []\<rparr>"

definition read_completeUploadRequest :: "completeUploadRequest reader" where
  "read_completeUploadRequest = read_object [
     field ''operationId'' read_string cor_OperationID (\<lambda>x r. r\<lparr>cor_OperationID := x\<rparr>),
     field ''keyScopeId'' read_string cor_KeyScopeID (\<lambda>x r. r\<lparr>cor_KeyScopeID := x\<rparr>),
     field ''keyVersion'' read_int cor_KeyVersion (\<lambda>x r. r\<lparr>cor_KeyVersion := x\<rparr>),
     field ''expectedRevision'' (read_pointer read_int 0) cor_ExpectedRevision (\<lambda>x r. r\<lparr>cor_ExpectedRevision := x\<rparr>),
     field ''syncPayloadCiphertext'' read_string cor_SyncPayloadCiphertext (\<lambda>x r. r\<lparr>cor_SyncPayloadCiphertext := x\<rparr>)]"

record shareEnvelopeRequest =
  ser_TargetDeviceID :: string
  ser_KeyVersion :: int
  ser_Ciphertext :: string
  ser_OwnerIdentityPublicKey :: string
  ser_OwnerSignature :: string

definition zero_shareEnvelopeRequest :: shareEnvelopeRequest where
  "zero_shareEnvelopeRequest = \<lparr>ser_TargetDeviceID = [], ser_KeyVersion = 0, ser_Ciphertext = [], ser_OwnerIdentityPublicKey = [], ser_OwnerSignature = []\<rparr>"

definition read_shareEnvelopeRequest :: "shareEnvelopeRequest reader" where
  "read_shareEnvelopeRequest = read_object [
     field ''targetDeviceId'' read_string ser_TargetDeviceID (\<lambda>x r. r\<lparr>ser_TargetDeviceID := x\<rparr>),
     field ''keyVersion'' read_int ser_KeyVersion (\<lambda>x r. r\<lparr>ser_KeyVersion := x\<rparr>),
     field ''ciphertext'' read_string ser_Ciphertext (\<lambda>x r. r\<lparr>ser_Ciphertext := x\<rparr>),
     field ''ownerIdentityPublicKey'' read_string ser_OwnerIdentityPublicKey (\<lambda>x r. r\<lparr>ser_OwnerIdentityPublicKey := x\<rparr>),
     field ''ownerSignature'' read_string ser_OwnerSignature (\<lambda>x r. r\<lparr>ser_OwnerSignature := x\<rparr>)]"

record createShareRequest =
  csr_OperationID :: string
  csr_NodeID :: string
  csr_TargetUserID :: string
  csr_Permission :: string
  csr_Envelopes :: "shareEnvelopeRequest list"

definition zero_createShareRequest :: createShareRequest where
  "zero_createShareRequest = \<lparr>csr_OperationID = [], csr_NodeID = [], csr_TargetUserID = [], csr_Permission = [], csr_Envelopes = []\<rparr>"

definition read_createShareRequest :: "createShareRequest reader" where
  "read_createShareRequest = read_object [
     field ''operationId'' read_string csr_OperationID (\<lambda>x r. r\<lparr>csr_OperationID := x\<rparr>),
     field ''nodeId'' read_string csr_NodeID (\<lambda>x r. r\<lparr>csr_NodeID := x\<rparr>),
     field ''targetUserId'' read_string csr_TargetUserID (\<lambda>x r. r\<lparr>csr_TargetUserID := x\<rparr>),
     field ''permission'' read_string csr_Permission (\<lambda>x r. r\<lparr>csr_Permission := x\<rparr>),
     field ''envelopes'' (read_list read_shareEnvelopeRequest zero_shareEnvelopeRequest) csr_Envelopes (\<lambda>x r. r\<lparr>csr_Envelopes := x\<rparr>)]"

record addShareEnvelopesRequest =
  asr_Envelopes :: "shareEnvelopeRequest list"

definition zero_addShareEnvelopesRequest :: addShareEnvelopesRequest where
  "zero_addShareEnvelopesRequest = \<lparr>asr_Envelopes = []\<rparr>"

definition read_addShareEnvelopesRequest :: "addShareEnvelopesRequest reader" where
  "read_addShareEnvelopesRequest = read_object [
     field ''envelopes'' (read_list read_shareEnvelopeRequest zero_shareEnvelopeRequest) asr_Envelopes (\<lambda>x r. r\<lparr>asr_Envelopes := x\<rparr>)]"

record createFolderKeyRequest =
  cfr_KeyVersion :: int
  cfr_OwnerEnvelope :: string

definition zero_createFolderKeyRequest :: createFolderKeyRequest where
  "zero_createFolderKeyRequest = \<lparr>cfr_KeyVersion = 0, cfr_OwnerEnvelope = []\<rparr>"

definition read_createFolderKeyRequest :: "createFolderKeyRequest reader" where
  "read_createFolderKeyRequest = read_object [
     field ''keyVersion'' read_int cfr_KeyVersion (\<lambda>x r. r\<lparr>cfr_KeyVersion := x\<rparr>),
     field ''ownerEnvelope'' read_string cfr_OwnerEnvelope (\<lambda>x r. r\<lparr>cfr_OwnerEnvelope := x\<rparr>)]"

record recoveryBundleRequest =
  rbr_Bundle :: string
  rbr_AccountIdentityPublicKey :: string
  rbr_Signature :: string

definition zero_recoveryBundleRequest :: recoveryBundleRequest where
  "zero_recoveryBundleRequest = \<lparr>rbr_Bundle = [], rbr_AccountIdentityPublicKey = [], rbr_Signature = []\<rparr>"

definition read_recoveryBundleRequest :: "recoveryBundleRequest reader" where
  "read_recoveryBundleRequest = read_object [
     field ''bundle'' read_string rbr_Bundle (\<lambda>x r. r\<lparr>rbr_Bundle := x\<rparr>),
     field ''accountIdentityPublicKey'' read_string rbr_AccountIdentityPublicKey (\<lambda>x r. r\<lparr>rbr_AccountIdentityPublicKey := x\<rparr>),
     field ''signature'' read_string rbr_Signature (\<lambda>x r. r\<lparr>rbr_Signature := x\<rparr>)]"

section \<open>Response structs\<close>

definition sessionResponse :: "AuthSession \<Rightarrow> json" where
  "sessionResponse s = JObject [
     (''user'', JObject [(''id'', JString (usr_ID (ses_User s))), (''username'', JString (usr_Username (ses_User s))),
       (''role'', JString (usr_Role (ses_User s)))]),
     (''device'', JObject [(''id'', JString (dev_ID (ses_Device s))), (''platform'', JString (dev_Platform (ses_Device s)))]),
     (''accessToken'', JString (ses_AccessToken s)),
     (''accessTokenExpiresAt'', json_time (ses_AccessTokenExpiresAt s)),
     (''refreshToken'', JString (ses_RefreshToken s)),
     (''refreshTokenExpiresAt'', json_time (ses_RefreshTokenExpiresAt s))]"

text \<open>The three certificate fields of a device, all left out without a certificate.\<close>

definition certificate_fields :: "Certification option \<Rightarrow> (string \<times> json) list" where
  "certificate_fields certificate = (case certificate of
     None \<Rightarrow> []
   | Some c \<Rightarrow>
       (if cert_SignatureVersion c = 0 then [] else [(''signatureVersion'', json_int (cert_SignatureVersion c))]) @
       json_nonempty ''accountIdentityPublicKey'' (StdEncode (cert_AccountPublicKey c)) @
       json_nonempty ''publicKeySignature'' (StdEncode (cert_DeviceSignature c)))"

definition deviceResponse :: "Device \<Rightarrow> bool \<Rightarrow> Certification option \<Rightarrow> json" where
  "deviceResponse d hasVaultKey certificate = JObject ([
     (''id'', JString (dev_ID d)), (''name'', JString (dev_Name d)), (''platform'', JString (dev_Platform d)),
     (''publicKey'', JString (StdEncode (dev_PublicKey d))), (''keyVersion'', json_int (dev_KeyVersion d)),
     (''createdAt'', json_time (dev_CreatedAt d)), (''lastSeenAt'', json_time (dev_LastSeenAt d))] @
     json_pointer ''lastSyncAt'' json_time (dev_LastSyncAt d) @ json_pointer ''revokedAt'' json_time (dev_RevokedAt d) @
     [(''hasVaultKey'', JBool hasVaultKey)] @ certificate_fields certificate)"

definition shareDeviceResponse :: "ShareableDevice \<Rightarrow> Certification option \<Rightarrow> json" where
  "shareDeviceResponse d certificate = JObject ([
     (''id'', JString (sd_ID d)), (''platform'', JString (sd_Platform d)), (''publicKey'', JString (StdEncode (sd_PublicKey d))),
     (''keyVersion'', json_int (sd_KeyVersion d))] @ certificate_fields certificate)"

definition nodeResponse :: "Node \<Rightarrow> json" where
  "nodeResponse n = JObject (
     [(''id'', JString (N_ID n))] @ json_pointer ''parentId'' JString (N_ParentID n) @
     [(''nodeType'', JString (N_NodeType n)), (''metadataCiphertext'', JString (StdEncode (N_MetadataCiphertext n))),
      (''metadataKeyVersion'', json_int (N_MetadataKeyVersion n)), (''metadataKeyScopeId'', JString (N_MetadataKeyScopeID n))] @
     json_pointer ''currentVersionId'' JString (N_CurrentVersionID n) @
     [(''revision'', json_int (N_Revision n)), (''createdAt'', json_time (N_CreatedAt n)), (''updatedAt'', json_time (N_UpdatedAt n))] @
     json_pointer ''deletedAt'' json_time (N_DeletedAt n))"

text \<open>A nil slice is written as \<open>null\<close>: a session without chunks has one.\<close>

definition uploadSessionResponse :: "Session \<Rightarrow> json" where
  "uploadSessionResponse s = JObject [(''id'', JString (S_ID s)), (''chunkCount'', json_int (S_ChunkCount s)),
     (''receivedChunks'', if S_ReceivedChunks s = [] then JNull else JArray (map json_int (S_ReceivedChunks s)))]"

definition completeUploadResponse :: "CompleteResult \<Rightarrow> json" where
  "completeUploadResponse c = JObject [(''blobId'', JString (cr_BlobID c)), (''fileVersionId'', JString (cr_FileVersionID c)),
     (''revision'', json_int (cr_Revision c))]"

definition fileVersionResponse :: "FileVersion \<Rightarrow> json" where
  "fileVersionResponse v = JObject [(''id'', JString (fv_ID v)), (''blobId'', JString (fv_BlobID v)),
     (''e2eeHeader'', JString (StdEncode (fv_E2EEHeader v))), (''wrappedFileKey'', JString (StdEncode (fv_WrappedFileKey v))),
     (''keyScopeId'', JString (fv_KeyScopeID v)), (''keyVersion'', json_int (fv_KeyVersion v)), (''createdAt'', json_time (fv_CreatedAt v)),
     (''createdByDeviceId'', JString (fv_CreatedByDeviceID v)), (''revision'', json_int (fv_Revision v)),
     (''chunkCount'', json_int (fv_ChunkCount v)), (''ciphertextSize'', json_int (fv_CiphertextSize v))]"

definition shareEnvelopeResponse :: "DeviceEnvelope \<Rightarrow> json" where
  "shareEnvelopeResponse e = JObject ([(''targetDeviceId'', JString (e_TargetDeviceID e)), (''keyVersion'', json_int (e_KeyVersion e)),
     (''ciphertext'', JString (StdEncode (e_Ciphertext e)))] @
     json_nonempty ''ownerIdentityPublicKey'' (StdEncode (e_OwnerIdentityPublicKey e)) @
     json_nonempty ''ownerSignature'' (StdEncode (e_OwnerSignature e)))"

definition shareResponse :: "Share \<Rightarrow> json" where
  "shareResponse s = JObject [(''id'', JString (s_ID s)), (''nodeId'', JString (s_NodeID s)), (''ownerUserId'', JString (s_OwnerUserID s)),
     (''ownerUsername'', JString (s_OwnerUsername s)), (''targetUserId'', JString (s_TargetUserID s)),
     (''targetUsername'', JString (s_TargetUsername s)), (''permission'', JString (s_Permission s)),
     (''createdAt'', json_time (s_CreatedAt s)), (''envelopes'', JArray (map shareEnvelopeResponse (s_Envelopes s)))]"

definition folderKeyResponse :: "FolderKey \<Rightarrow> json" where
  "folderKeyResponse k = JObject [(''folderId'', JString (fk_FolderID k)), (''keyVersion'', json_int (fk_KeyVersion k)),
     (''ownerEnvelope'', JString (StdEncode (fk_OwnerEnvelope k))), (''createdAt'', json_time (fk_CreatedAt k))]"

definition favoriteResponse :: "Favorite \<Rightarrow> json" where
  "favoriteResponse f = JObject [(''nodeId'', JString (Fav_NodeID f)), (''createdAt'', json_time (Fav_CreatedAt f))]"

definition recoveryBundleResponse :: "Bundle \<Rightarrow> json" where
  "recoveryBundleResponse b = JObject [(''bundle'', JString (StdEncode (bun_Bundle b))), (''updatedAt'', json_time (bun_UpdatedAt b)),
     (''updatedByDeviceId'', JString (bun_UpdatedByDeviceID b))]"

definition syncChangeResponse :: "Change \<Rightarrow> json" where
  "syncChangeResponse c = JObject ([(''revision'', json_int (ch_Revision c))] @ json_pointer ''nodeId'' JString (ch_NodeID c) @
     [(''operation'', JString (ch_Operation c))] @ json_nonempty ''payload'' (StdEncode (ch_Payload c)) @
     [(''createdAt'', json_time (ch_CreatedAt c))])"

definition syncChangesResponse :: "Page \<Rightarrow> json" where
  "syncChangesResponse p = JObject [(''changes'', JArray (map syncChangeResponse (pg_Changes p))),
     (''nextAfter'', json_int (pg_NextAfter p)), (''hasMore'', JBool (pg_HasMore p))]"

end
