(* ===== verification/HB_Handlers.thy ===== *)
theory HB_Handlers
  imports HB_Wire
begin

text \<open>
  The handlers of the HTTP API (internal/httpapi) under the names of the Go methods, and the routes of \<open>New\<close>.
  A handler checks its path and body, calls the services and writes the response; \<open>check\<close> is an early return,
  \<open>in_db\<close> and \<open>in_server\<close> take over the state a service left and write its error or result. \<open>serve\<close> is one request:
  \<open>http.ServeMux\<close> picks the most specific of the patterns that match, a \<open>GET\<close> pattern also for \<open>HEAD\<close>.
  The redirects of the mux for paths that are not clean, and the range requests \<open>http.ServeContent\<close> answers from the
  streamed file, are left to the standard library.
\<close>

definition resp_bind :: "response + 'a \<Rightarrow> ('a \<Rightarrow> response + 'b) \<Rightarrow> response + 'b" where
  "resp_bind m f = (case m of Inl resp \<Rightarrow> Inl resp | Inr x \<Rightarrow> f x)"

section \<open>Sessions\<close>

definition login :: handler where
  "login a cl r st =
     check st (decodeJSON cl r read_loginRequest zero_loginRequest) (\<lambda>req.
     check st (decode64 cl ''device.publicKey must be base64-encoded'' (db_PublicKey (lr_Device req))) (\<lambda>publicKey.
     let (au, res) = Login (api_auth a) (cl_tokens cl) (cl_now cl) (auth_part st) (clientAddress r) (lr_Username req) (lr_Password req)
           \<lparr>reg_ID = db_ID (lr_Device req), reg_Name = db_Name (lr_Device req), reg_Platform = db_Platform (lr_Device req),
            reg_PublicKey = publicKey, reg_KeyVersion = db_KeyVersion (lr_Device req)\<rparr>
     in (set_auth_part au st, served cl res (\<lambda>session. writeJSON 200 (sessionResponse session)))))"

definition refresh :: handler where
  "refresh a cl r st =
     check st (decodeJSON cl r read_refreshTokenRequest zero_refreshTokenRequest) (\<lambda>req.
     in_db cl st (Refresh (api_auth a) (cl_tokens cl) (cl_now cl) (ap_db st) (rr_RefreshToken req))
       (\<lambda>session. writeJSON 200 (sessionResponse session)))"

definition logout :: handler where
  "logout a cl r st =
     check st (decodeJSON cl r read_refreshTokenRequest zero_refreshTokenRequest) (\<lambda>req.
     let (s', res) = Logout (api_auth a) (cl_now cl) (ap_db st) (rr_RefreshToken req)
     in (set_db s' st, case res of Inl e \<Rightarrow> writeInternalError cl ''failed to logout'' | Inr _ \<Rightarrow> noContent))"

definition getMe :: handler where
  "getMe a cl r st = (st, served cl (GetUser (ap_db st) (rq_UserID r)) (\<lambda>user.
     writeJSON 200 (JObject [(''id'', JString (usr_ID user)), (''role'', JString (usr_Role user)),
       (''username'', JString (usr_Username user))])))"

section \<open>Devices\<close>

definition listShareDevices :: handler where
  "listShareDevices a cl r st =
     check st (pathUUID a cl r ''id'') (\<lambda>userID.
     let devices = ListShareableDevices (ap_db st) userID
     in if devices = [] then (st, writeError cl 404 ''NOT_FOUND'' ''no active recipient device found'')
        else let certificates = LatestCertifications (ap_db st) userID
             in (st, writeJSON 200 (JArray (map (\<lambda>d. shareDeviceResponse d (certificates (sd_ID d))) devices))))"

definition listDevices :: handler where
  "listDevices a cl r st =
     (let userID = rq_UserID r;
          approved = ActiveEnvelopeDeviceIDs (ap_db st) userID;
          certificates = LatestCertifications (ap_db st) userID
      in (st, writeJSON 200 (JArray (map (\<lambda>d. deviceResponse d (dev_ID d \<in> approved) (certificates (dev_ID d)))
           (ListDevices (ap_db st) userID)))))"

definition revokeDevice :: handler where
  "revokeDevice a cl r st =
     check st (pathDeviceID a cl r) (\<lambda>targetDeviceID.
     in_db cl st (RevokeDevice (cl_now cl) (ap_db st) (rq_UserID r) targetDeviceID) (\<lambda>_. noContent))"

definition uploadKeyEnvelope :: handler where
  "uploadKeyEnvelope a cl r st =
     check st (pathDeviceID a cl r) (\<lambda>targetDeviceID.
     check st (decodeJSON cl r read_uploadEnvelopeRequest zero_uploadEnvelopeRequest) (\<lambda>req.
     check st (decode64 cl ''ciphertext must be base64-encoded'' (ue_Ciphertext req)) (\<lambda>ciphertext.
     let userID = rq_UserID r
     in case GetDevice (ap_db st) userID targetDeviceID of
          Inl e \<Rightarrow> (st, writeServiceError cl e)
        | Inr target \<Rightarrow>
            if dev_RevokedAt target \<noteq> None then (st, writeServiceError cl AuthDeviceRevoked)
            else if ue_SignatureVersion req = 0 \<or> ue_AccountIdentityPublicKey req = [] \<or> ue_PublicKeySignature req = []
            then (st, writeError cl 400 ''VALIDATION_ERROR'' ''a device key certificate is required for new key envelopes'')
            else
              check st (decode64 cl ''accountIdentityPublicKey must be base64-encoded'' (ue_AccountIdentityPublicKey req)) (\<lambda>accountPublicKey.
              check st (decode64 cl ''publicKeySignature must be base64-encoded'' (ue_PublicKeySignature req)) (\<lambda>deviceSignature.
              in_db cl st (committed_with (ap_db st) (UploadAuthenticated (api_crypto a) (api_uuid a) (cl_now cl) (cl_ids cl 0) (ap_db st)
                  (ue_VaultID req) userID targetDeviceID (ue_KeyVersion req) ciphertext (dev_PublicKey target) (dev_KeyVersion target)
                  (Some \<lparr>cert_SignatureVersion = ue_SignatureVersion req, cert_AccountPublicKey = accountPublicKey,
                         cert_DeviceSignature = deviceSignature\<rparr>)))
                (\<lambda>envelope. writeJSON 201 (JObject [(''id'', JString (env_ID envelope))])))))))"

definition downloadKeyEnvelope :: handler where
  "downloadKeyEnvelope a cl r st =
     check st (pathDeviceID a cl r) (\<lambda>targetDeviceID.
     if targetDeviceID \<noteq> rq_DeviceID r
     then (st, writeError cl 403 ''FORBIDDEN'' ''a device may only download its own key envelope'')
     else (st, served cl (LatestEnvelope (ap_db st) targetDeviceID) (\<lambda>envelope.
       served cl (GetDevice (ap_db st) (rq_UserID r) targetDeviceID) (\<lambda>target.
         let base = [(''id'', JString (env_ID envelope)), (''vaultId'', JString (env_VaultID envelope)),
               (''keyVersion'', json_int (env_KeyVersion envelope)), (''ciphertext'', JString (StdEncode (env_Ciphertext envelope)))]
         in writeJSON 200 (JObject (case env_Certification envelope of
              None \<Rightarrow> base
            | Some c \<Rightarrow> base @ [(''signatureVersion'', json_int (cert_SignatureVersion c)),
                (''deviceKeyVersion'', json_int (dev_KeyVersion target)),
                (''accountIdentityPublicKey'', JString (StdEncode (cert_AccountPublicKey c))),
                (''publicKeySignature'', JString (StdEncode (cert_DeviceSignature c)))]))))))"

section \<open>Nodes\<close>

definition writeNodes :: "Node list \<Rightarrow> response" where
  "writeNodes ns = writeJSON 200 (JArray (map nodeResponse ns))"

definition createNode :: handler where
  "createNode a cl r st =
     check st (decodeJSON cl r read_createNodeRequest zero_createNodeRequest) (\<lambda>req.
     check st (decode64 cl ''metadataCiphertext must be base64-encoded'' (cn_MetadataCiphertext req)) (\<lambda>metadata.
     in_db cl st (Create (api_uuid a) (cl_now cl) (ap_db st)
         \<lparr>ci_ID = cn_ID req, ci_OwnerID = rq_UserID r, ci_DeviceID = rq_DeviceID r, ci_OperationID = cn_OperationID req,
          ci_ParentID = cn_ParentID req, ci_NodeType = cn_NodeType req, ci_MetadataCiphertext = metadata,
          ci_MetadataKeyVersion = cn_MetadataKeyVersion req, ci_MetadataKeyScopeID = cn_MetadataKeyScopeID req\<rparr>)
       (\<lambda>node. writeJSON 201 (nodeResponse node))))"

definition getNode :: handler where
  "getNode a cl r st =
     check st (pathUUID a cl r ''id'') (\<lambda>i.
     (st, served cl (Get (ap_db st) (rq_UserID r) i) (\<lambda>node. writeJSON 200 (nodeResponse node))))"

definition list_page :: "call \<Rightarrow> api_state \<Rightarrow> err + (Node list \<times> page_key option) \<Rightarrow> api_state \<times> response" where
  "list_page cl st res = (st, served cl res (\<lambda>(children, next_after). (writeNodes children)\<lparr>rs_NextAfter := next_after\<rparr>))"

text \<open>A malformed cursor is refused by the service after its other checks.\<close>

definition listChildren :: handler where
  "listChildren a cl r st =
     check st (let raw = rq_Query r ''parentId''
               in if raw = [] then Inr None
                  else if \<not> canonicalUUID a raw then Inl (writeError cl 400 ''VALIDATION_ERROR'' ''invalid parentId'')
                  else Inr (Some raw)) (\<lambda>parentID.
     check st (queryInt cl r ''limit'' 0) (\<lambda>limit.
     if limit < 0 \<or> limit > MaxPageSize then (st, writeError cl 400 ''VALIDATION_ERROR'' ''invalid limit'')
     else if rq_After r \<noteq> NoCursor \<and> limit = 0 then (st, writeError cl 400 ''VALIDATION_ERROR'' ''after requires limit'')
     else let ownedOnly = (rq_Query r ''ownedOnly'' = ''true'')
          in if ownedOnly \<and> parentID \<noteq> None
             then (st, writeError cl 400 ''VALIDATION_ERROR'' ''ownedOnly is valid only for root nodes'')
             else let list = (\<lambda>cursor. if ownedOnly
                        then ListOwnedRootsPage (ap_db st) (rq_UserID r) \<lparr>pr_Limit = limit, pr_After = cursor\<rparr>
                        else ListChildrenPage (ap_db st) (rq_UserID r) parentID \<lparr>pr_Limit = limit, pr_After = cursor\<rparr>)
                  in (case rq_After r of
                        NoCursor \<Rightarrow> list_page cl st (list None)
                      | CursorAt key \<Rightarrow> list_page cl st (list (Some key))
                      | BadCursor \<Rightarrow> list_page cl st (ebind (list None) (\<lambda>_. Inl (Validation ''invalid page cursor''))))))"

definition listTrash :: handler where
  "listTrash a cl r st = (st, writeNodes (ListTrash (ap_db st) (rq_UserID r)))"

definition updateNode :: handler where
  "updateNode a cl r st =
     check st (pathUUID a cl r ''id'') (\<lambda>i.
     check st (decodeJSON cl r read_updateNodeRequest zero_updateNodeRequest) (\<lambda>req.
     check st (case un_MetadataCiphertext req of
          None \<Rightarrow> Inr []
        | Some text \<Rightarrow> decode64 cl ''metadataCiphertext must be base64-encoded'' text) (\<lambda>metadata.
     in_db cl st (Update (api_uuid a) (cl_now cl) (ap_db st)
         \<lparr>ui_UserID = rq_UserID r, ui_DeviceID = rq_DeviceID r, ui_OperationID = un_OperationID req, ui_NodeID = i,
          ui_ExpectedRevision = un_ExpectedRevision req, ui_MetadataCiphertext = metadata,
          ui_MetadataKeyVersion = un_MetadataKeyVersion req, ui_MetadataKeyScopeID = un_MetadataKeyScopeID req,
          ui_MoveParent = un_MoveParent req, ui_ParentID = un_ParentID req\<rparr>)
       (\<lambda>node. writeJSON 200 (nodeResponse node)))))"

fun decode_versions :: "call \<Rightarrow> rekeyVersionRequest list \<Rightarrow> response + RekeyVersion list" where
  "decode_versions cl [] = Inr []"
| "decode_versions cl (v # vs) =
     resp_bind (decode64 cl ''wrappedFileKey must be base64-encoded'' (kv_WrappedFileKey v)) (\<lambda>wrapped.
     resp_bind (decode_versions cl vs) (\<lambda>versions.
     Inr (\<lparr>rv_ID = kv_ID v, rv_WrappedFileKey = wrapped, rv_KeyScopeID = kv_KeyScopeID v, rv_KeyVersion = kv_KeyVersion v\<rparr> # versions)))"

fun decode_items :: "call \<Rightarrow> rekeyItemRequest list \<Rightarrow> response + RekeyItem list" where
  "decode_items cl [] = Inr []"
| "decode_items cl (item # items) =
     resp_bind (decode64 cl ''metadataCiphertext must be base64-encoded'' (ki_MetadataCiphertext item)) (\<lambda>metadata.
     resp_bind (decode_versions cl (ki_FileVersions item)) (\<lambda>versions.
     resp_bind (decode_items cl items) (\<lambda>rest.
     Inr (\<lparr>ri_NodeID = ki_NodeID item, ri_ExpectedRevision = ki_ExpectedRevision item, ri_MetadataCiphertext = metadata,
           ri_MetadataKeyVersion = ki_MetadataKeyVersion item, ri_MetadataKeyScopeID = ki_MetadataKeyScopeID item,
           ri_Versions = versions\<rparr> # rest))))"

definition rekeyNodes :: handler where
  "rekeyNodes a cl r st =
     check st (decodeJSON cl r read_rekeyRequest zero_rekeyRequest) (\<lambda>req.
     check st (decode_items cl (kr_Items req)) (\<lambda>items.
     in_db cl st (Rekey (api_uuid a) (cl_now cl) (ap_db st)
         \<lparr>rk_UserID = rq_UserID r, rk_DeviceID = rq_DeviceID r, rk_Items = items\<rparr>) writeNodes))"

definition deleteNode :: handler where
  "deleteNode a cl r st =
     check st (pathUUID a cl r ''id'') (\<lambda>i.
     check st (decodeJSON cl r read_deleteOrRestoreRequest zero_deleteOrRestoreRequest) (\<lambda>req.
     in_db cl st (Delete (api_uuid a) (cl_now cl) (ap_db st) (rq_UserID r) (rq_DeviceID r) i (dr_OperationID req) (dr_ExpectedRevision req))
       (\<lambda>_. noContent)))"

definition restoreNode :: handler where
  "restoreNode a cl r st =
     check st (pathUUID a cl r ''id'') (\<lambda>i.
     check st (decodeJSON cl r read_deleteOrRestoreRequest zero_deleteOrRestoreRequest) (\<lambda>req.
     in_db cl st (Restore (api_uuid a) (cl_now cl) (ap_db st) (rq_UserID r) (rq_DeviceID r) i (dr_OperationID req))
       (\<lambda>node. writeJSON 200 (nodeResponse node))))"

section \<open>Sharing\<close>

fun decodeShareEnvelopes :: "call \<Rightarrow> shareEnvelopeRequest list \<Rightarrow> response + DeviceEnvelope list" where
  "decodeShareEnvelopes cl [] = Inr []"
| "decodeShareEnvelopes cl (e # es) =
     (case (StdDecode (ser_Ciphertext e), StdDecode (ser_OwnerIdentityPublicKey e), StdDecode (ser_OwnerSignature e)) of
        (Some ciphertext, Some identity, Some signature) \<Rightarrow>
          resp_bind (decodeShareEnvelopes cl es) (\<lambda>envelopes.
          Inr (\<lparr>e_TargetDeviceID = ser_TargetDeviceID e, e_KeyVersion = ser_KeyVersion e, e_Ciphertext = ciphertext,
                e_OwnerIdentityPublicKey = identity, e_OwnerSignature = signature\<rparr> # envelopes))
      | _ \<Rightarrow> Inl (writeError cl 400 ''VALIDATION_ERROR'' ''share envelope fields must be base64-encoded''))"

definition createShare :: handler where
  "createShare a cl r st =
     check st (decodeJSON cl r read_createShareRequest zero_createShareRequest) (\<lambda>req.
     check st (decodeShareEnvelopes cl (csr_Envelopes req)) (\<lambda>envelopes.
     in_db cl st (CreateGrant (api_uuid a) (cl_now cl) (cl_ids cl) (ap_db st)
         \<lparr>g_OwnerUserID = rq_UserID r, g_OwnerDeviceID = rq_DeviceID r, g_OperationID = csr_OperationID req, g_NodeID = csr_NodeID req,
          g_TargetUserID = csr_TargetUserID req, g_Permission = csr_Permission req, g_Envelopes = envelopes\<rparr>)
       (\<lambda>share. writeJSON 201 (shareResponse share))))"

definition addShareEnvelopes :: handler where
  "addShareEnvelopes a cl r st =
     check st (pathUUID a cl r ''id'') (\<lambda>shareID.
     check st (decodeJSON cl r read_addShareEnvelopesRequest zero_addShareEnvelopesRequest) (\<lambda>req.
     check st (decodeShareEnvelopes cl (asr_Envelopes req)) (\<lambda>envelopes.
     in_db cl st (AddEnvelopes (api_uuid a) (cl_now cl) (cl_ids cl) (ap_db st) (rq_UserID r) (rq_DeviceID r) shareID envelopes)
       (\<lambda>share. writeJSON 200 (shareResponse share)))))"

definition writeShares :: "Share list \<Rightarrow> response" where
  "writeShares shs = writeJSON 200 (JArray (map shareResponse shs))"

definition listIncomingShares :: handler where
  "listIncomingShares a cl r st = (st, served cl (ListIncoming (api_uuid a) (ap_db st) (rq_UserID r) (rq_DeviceID r)) writeShares)"

definition listOutgoingShares :: handler where
  "listOutgoingShares a cl r st = (st, served cl (ListOutgoing (api_uuid a) (ap_db st) (rq_UserID r)) writeShares)"

definition revokeShare :: handler where
  "revokeShare a cl r st =
     check st (pathUUID a cl r ''id'') (\<lambda>shareID.
     in_db cl st (Revoke (api_uuid a) (cl_now cl) (ap_db st) (rq_UserID r) (rq_DeviceID r) shareID) (\<lambda>_. noContent))"

definition createFolderKey :: handler where
  "createFolderKey a cl r st =
     check st (pathUUID a cl r ''id'') (\<lambda>folderID.
     check st (decodeJSON cl r read_createFolderKeyRequest zero_createFolderKeyRequest) (\<lambda>req.
     check st (decode64 cl ''ownerEnvelope must be base64-encoded'' (cfr_OwnerEnvelope req)) (\<lambda>envelope.
     in_db cl st (CreateFolderKey (api_uuid a) (cl_now cl) (ap_db st) (rq_UserID r) (rq_DeviceID r) folderID (cfr_KeyVersion req) envelope)
       (\<lambda>key. writeJSON 201 (folderKeyResponse key)))))"

definition listFolderKeys :: handler where
  "listFolderKeys a cl r st = (st, served cl (ListFolderKeys (api_uuid a) (ap_db st) (rq_UserID r))
     (\<lambda>keys. writeJSON 200 (JArray (map folderKeyResponse keys))))"

section \<open>Uploads and content\<close>

definition createUpload :: handler where
  "createUpload a cl r st =
     check st (decodeJSON cl r read_createUploadRequest zero_createUploadRequest) (\<lambda>req.
     case (StdDecode (cur_MetadataCiphertext req), StdDecode (cur_WrappedFileKey req), StdDecode (cur_E2eeHeader req)) of
       (Some metadata, Some wrappedKey, Some header) \<Rightarrow>
         in_server cl st (CreateUpload (api_uuid a) (api_uploads a) (cl_now cl) (cl_ids cl 0) (ap_server st)
             \<lparr>cu_UserID = rq_UserID r, cu_DeviceID = rq_DeviceID r, cu_TargetNodeID = cur_TargetNodeID req,
              cu_FileVersionID = cur_FileVersionID req, cu_BlobID = cur_BlobID req, cu_ExpectedRevision = cur_ExpectedRevision req,
              cu_ChunkSize = cur_ChunkSize req, cu_ChunkCount = cur_ChunkCount req, cu_MetadataKeyVersion = cur_MetadataKeyVersion req,
              cu_MetadataCiphertext = metadata, cu_WrappedFileKey = wrappedKey, cu_E2EEHeader = header\<rparr>)
           (\<lambda>session. writeJSON 201 (uploadSessionResponse session))
     | _ \<Rightarrow> (st, writeError cl 400 ''VALIDATION_ERROR'' ''metadataCiphertext, wrappedFileKey, and e2eeHeader must be base64-encoded''))"

definition getUpload :: handler where
  "getUpload a cl r st =
     check st (pathUUID a cl r ''id'') (\<lambda>i.
     (st, served cl (GetUpload (ap_db st) (rq_UserID r) (rq_DeviceID r) i) (\<lambda>session. writeJSON 200 (uploadSessionResponse session))))"

definition maxChunkBodyBytes :: int where
  "maxChunkBodyBytes = MaxChunkCiphertextSize"

definition putUploadChunk :: handler where
  "putUploadChunk a cl r st =
     check st (pathUUID a cl r ''id'') (\<lambda>i.
     check st (pathInt cl r ''chunkNo'') (\<lambda>chunkNo.
     case rq_Chunk r of
       ChunkUnreadable \<Rightarrow> (st, writeError cl 400 ''UPLOAD_CHUNK_INVALID'' ''could not read chunk body'')
     | ChunkBytes ciphertext \<Rightarrow>
         if int (length ciphertext) > maxChunkBodyBytes
         then (st, writeError cl 413 ''UPLOAD_CHUNK_INVALID'' ''chunk exceeds the maximum ciphertext chunk size'')
         else in_server cl st (PutChunk (api_uuid a) (api_digest a) (cl_now cl) (ap_server st) (rq_UserID r) (rq_DeviceID r) i chunkNo ciphertext)
           (\<lambda>_. noContent)))"

definition completeUpload :: handler where
  "completeUpload a cl r st =
     check st (pathUUID a cl r ''id'') (\<lambda>i.
     check st (decodeJSON cl r read_completeUploadRequest zero_completeUploadRequest) (\<lambda>req.
     check st (if cor_SyncPayloadCiphertext req = [] then Inr []
               else decode64 cl ''syncPayloadCiphertext must be base64-encoded'' (cor_SyncPayloadCiphertext req)) (\<lambda>payload.
     in_server cl st (CompleteUpload (api_uuid a) (api_digest a) (api_uploads a) (cl_now cl) (ap_server st) i
         \<lparr>co_UserID = rq_UserID r, co_DeviceID = rq_DeviceID r, co_OperationID = cor_OperationID req, co_KeyScopeID = cor_KeyScopeID req,
          co_ExpectedRevision = cor_ExpectedRevision req, co_KeyVersion = cor_KeyVersion req, co_SyncPayloadCiphertext = payload\<rparr>)
       (\<lambda>result. writeJSON 200 (completeUploadResponse result)))))"

definition abortUpload :: handler where
  "abortUpload a cl r st =
     check st (pathUUID a cl r ''id'') (\<lambda>i.
     in_server cl st (AbortUpload (api_uuid a) (ap_server st) (rq_UserID r) (rq_DeviceID r) i) (\<lambda>_. noContent))"

text \<open>The file behind a version, checked against its recorded size; the version ID is the entity tag.\<close>

definition stream_blob :: "call \<Rightarrow> server \<Rightarrow> id \<Rightarrow> string \<times> int \<Rightarrow> response" where
  "stream_blob cl sv versionID blob = (case file_at (sv_disk sv) (fst blob) of
     None \<Rightarrow> writeInternalError cl ''stored ciphertext is missing''
   | Some content \<Rightarrow>
       if int (length content) \<noteq> snd blob then writeInternalError cl ''stored ciphertext is damaged''
       else \<lparr>rs_Status = 200, rs_NextAfter = None, rs_ETag = Some (''\"'' @ versionID @ ''\"''), rs_Payload = StreamPayload content\<rparr>)"

definition downloadFileContent :: handler where
  "downloadFileContent a cl r st =
     check st (pathUUID a cl r ''id'') (\<lambda>i.
     (st, served cl (Get (ap_db st) (rq_UserID r) i) (\<lambda>node.
        case (if N_NodeType node \<noteq> ''FILE'' \<or> IsDeleted node then None else N_CurrentVersionID node) of
          None \<Rightarrow> writeError cl 404 ''NOT_FOUND'' ''node has no file content yet''
        | Some current \<Rightarrow>
            let wanted = rq_Query r ''versionId''
            in if wanted \<noteq> [] \<and> \<not> canonicalUUID a wanted
               then writeError cl 400 ''VALIDATION_ERROR'' ''versionId must be a UUID''
               else let versionID = (if wanted = [] then current else wanted)
                    in served cl (OpenNodeBlob (ap_db st) i versionID) (stream_blob cl (ap_server st) versionID))))"

definition listFileVersions :: handler where
  "listFileVersions a cl r st =
     check st (pathUUID a cl r ''id'') (\<lambda>i.
     (st, served cl (Get (ap_db st) (rq_UserID r) i) (\<lambda>node.
        if N_NodeType node \<noteq> ''FILE'' then writeError cl 400 ''VALIDATION_ERROR'' ''node is not a file''
        else writeJSON 200 (JArray (map fileVersionResponse (ListVersions (ap_db st) i))))))"

section \<open>Feed, favorites, Trash and recovery\<close>

definition syncChanges :: handler where
  "syncChanges a cl r st =
     check st (queryInt64 cl r ''after'' 0) (\<lambda>after_revision.
     check st (queryInt cl r ''pageSize'' 0) (\<lambda>pageSize.
     case Changes (api_sync a) (ap_db st) (rq_UserID r) after_revision pageSize of
       Inl e \<Rightarrow> (st, writeServiceError cl e)
     | Inr page \<Rightarrow> in_db cl st (RecordSync (cl_now cl) (ap_db st) (rq_UserID r) (rq_DeviceID r))
         (\<lambda>_. writeJSON 200 (syncChangesResponse page))))"

definition listFavorites :: handler where
  "listFavorites a cl r st = (st, served cl (ListFavorites (api_uuid a) (ap_db st) (rq_UserID r))
     (\<lambda>fs. writeJSON 200 (JArray (map favoriteResponse fs))))"

definition addFavorite :: handler where
  "addFavorite a cl r st =
     check st (pathUUID a cl r ''id'') (\<lambda>i.
     in_db cl st (committed (ap_db st) (AddFavorite (api_uuid a) (cl_now cl) (ap_db st) (rq_UserID r) i)) (\<lambda>_. noContent))"

definition removeFavorite :: handler where
  "removeFavorite a cl r st =
     check st (pathUUID a cl r ''id'') (\<lambda>i.
     in_db cl st (committed (ap_db st) (RemoveFavorite (api_uuid a) (ap_db st) (rq_UserID r) i)) (\<lambda>_. noContent))"

definition purgeTrashEntry :: handler where
  "purgeTrashEntry a cl r st =
     check st (pathUUID a cl r ''id'') (\<lambda>i.
     in_server cl st (PurgeTrashEntry (api_uuid a) (cl_now cl) (ap_server st) (rq_UserID r) i) (\<lambda>_. noContent))"

definition getRecoveryBundle :: handler where
  "getRecoveryBundle a cl r st = (st, served cl (GetBundle (ap_db st) (rq_UserID r))
     (\<lambda>bundle. writeJSON 200 (recoveryBundleResponse bundle)))"

definition putRecoveryBundle :: handler where
  "putRecoveryBundle a cl r st =
     check st (decodeJSON cl r read_recoveryBundleRequest zero_recoveryBundleRequest) (\<lambda>req.
     check st (decode64 cl ''bundle must be base64-encoded'' (rbr_Bundle req)) (\<lambda>bundle.
     check st (decode64 cl ''accountIdentityPublicKey must be base64-encoded'' (rbr_AccountIdentityPublicKey req)) (\<lambda>publicKey.
     check st (decode64 cl ''signature must be base64-encoded'' (rbr_Signature req)) (\<lambda>signature.
     in_db cl st (committed (ap_db st) (PutBundle (api_crypto a) (api_uuid a) (cl_now cl) (ap_db st) (rq_UserID r) (rq_DeviceID r)
         bundle publicKey signature)) (\<lambda>_. noContent)))))"

section \<open>Routes\<close>

definition routes :: "(string \<times> string \<times> handler) list" where
  "routes = [
     (''POST'', ''/api/v1/auth/login'', login),
     (''POST'', ''/api/v1/auth/refresh'', refresh),
     (''POST'', ''/api/v1/auth/logout'', logout),
     (''GET'', ''/api/v1/users/me'', authenticated getMe),
     (''GET'', ''/api/v1/users/me/recovery'', authenticated getRecoveryBundle),
     (''PUT'', ''/api/v1/users/me/recovery'', authenticated putRecoveryBundle),
     (''GET'', ''/api/v1/users/{id}/share-devices'', authenticated listShareDevices),
     (''POST'', ''/api/v1/shares'', authenticated createShare),
     (''GET'', ''/api/v1/shares/incoming'', authenticated listIncomingShares),
     (''GET'', ''/api/v1/shares/outgoing'', authenticated listOutgoingShares),
     (''DELETE'', ''/api/v1/shares/{id}'', authenticated revokeShare),
     (''POST'', ''/api/v1/shares/{id}/envelopes'', authenticated addShareEnvelopes),
     (''GET'', ''/api/v1/folder-keys'', authenticated listFolderKeys),
     (''POST'', ''/api/v1/nodes/{id}/folder-keys'', authenticated createFolderKey),
     (''POST'', ''/api/v1/nodes/rekey'', authenticated rekeyNodes),
     (''GET'', ''/api/v1/devices'', authenticated listDevices),
     (''DELETE'', ''/api/v1/devices/{id}'', authenticated revokeDevice),
     (''POST'', ''/api/v1/devices/{id}/key-envelope'', authenticated uploadKeyEnvelope),
     (''GET'', ''/api/v1/devices/{id}/key-envelope'', authenticated downloadKeyEnvelope),
     (''POST'', ''/api/v1/nodes'', authenticated createNode),
     (''GET'', ''/api/v1/nodes/children'', authenticated listChildren),
     (''GET'', ''/api/v1/nodes/{id}'', authenticated getNode),
     (''PATCH'', ''/api/v1/nodes/{id}'', authenticated updateNode),
     (''DELETE'', ''/api/v1/nodes/{id}'', authenticated deleteNode),
     (''POST'', ''/api/v1/nodes/{id}/restore'', authenticated restoreNode),
     (''GET'', ''/api/v1/trash'', authenticated listTrash),
     (''DELETE'', ''/api/v1/trash/{id}'', authenticated purgeTrashEntry),
     (''GET'', ''/api/v1/favorites'', authenticated listFavorites),
     (''PUT'', ''/api/v1/favorites/{id}'', authenticated addFavorite),
     (''DELETE'', ''/api/v1/favorites/{id}'', authenticated removeFavorite),
     (''GET'', ''/api/v1/sync/changes'', authenticated syncChanges),
     (''POST'', ''/api/v1/uploads'', authenticated createUpload),
     (''GET'', ''/api/v1/uploads/{id}'', authenticated getUpload),
     (''PUT'', ''/api/v1/uploads/{id}/chunks/{chunkNo}'', authenticated putUploadChunk),
     (''POST'', ''/api/v1/uploads/{id}/complete'', authenticated completeUpload),
     (''DELETE'', ''/api/v1/uploads/{id}'', authenticated abortUpload),
     (''GET'', ''/api/v1/files/{id}/content'', authenticated downloadFileContent),
     (''GET'', ''/api/v1/files/{id}/versions'', authenticated listFileVersions)]"

text \<open>Matching of one pattern: a wildcard takes a segment that is not empty and binds its name.\<close>

definition wildcard :: "string \<Rightarrow> string option" where
  "wildcard seg = (if seg \<noteq> [] \<and> hd seg = CHR ''{'' then Some (butlast (tl seg)) else None)"

fun match_path :: "string list \<Rightarrow> string list \<Rightarrow> (string \<times> string) list option" where
  "match_path [] [] = Some []"
| "match_path (p # ps) (x # xs) =
     (case wildcard p of
        None \<Rightarrow> if p = x then match_path ps xs else None
      | Some name \<Rightarrow> if x = [] then None else map_option (Cons (name, x)) (match_path ps xs))"
| "match_path _ _ = None"

definition match_method :: "string \<Rightarrow> string \<Rightarrow> bool" where
  "match_method pattern method \<longleftrightarrow> pattern = method \<or> pattern = ''GET'' \<and> method = ''HEAD''"

text \<open>Patterns of the same shape differ in literals where the other has a wildcard; fewer wildcards is more specific.\<close>

definition wildcards :: "string \<Rightarrow> nat" where
  "wildcards pattern = length (filter (\<lambda>c. c = CHR ''{'') pattern)"

definition segments :: "string \<Rightarrow> string list" where
  "segments path = tl (split_at CHR ''/'' path)"

definition mux :: "request \<Rightarrow> ((string \<times> string) list \<times> handler) option" where
  "mux r =
     (let matching = filter (\<lambda>(m, p, h). match_method m (rq_Method r) \<and> match_path (segments p) (rq_Path r) \<noteq> None) routes
      in case sort_key (\<lambda>(m, p, h). wildcards p) matching of
           [] \<Rightarrow> None
         | (m, p, h) # _ \<Rightarrow> map_option (\<lambda>vals. (vals, h)) (match_path (segments p) (rq_Path r)))"

definition serve :: handler where
  "serve a cl r st =
     (case mux r of
        Some (vals, h) \<Rightarrow> h a cl (r\<lparr>rq_PathValue := \<lambda>name. case map_of vals name of None \<Rightarrow> [] | Some v \<Rightarrow> v\<rparr>) st
      | None \<Rightarrow>
          if \<exists>(m, p, h)\<in>set routes. match_path (segments p) (rq_Path r) \<noteq> None
          then (st, respond 405 (TextPayload ''Method Not Allowed''))
          else (st, respond 404 (TextPayload ''404 page not found'')))"

end
