(* ===== verification/HB_Api_Inv.thy ===== *)
theory HB_Api_Inv
  imports HB_Frames HB_Handlers HB_Login
begin

text \<open>
  The invariant of the whole server at its HTTP interface. \<open>api_inv\<close> puts the invariants of all services together and
  adds what only their composition gives, \<open>certificates_current\<close>: every stored device certificate verifies for the key
  its device has. Every handler keeps it: a handler that reads leaves the state alone, one that writes runs one
  command of one service, whose frame (\<open>HB_Frames\<close>) keeps the other services' parts.
\<close>

definition certificate_current :: "crypto_pkg \<Rightarrow> uuid_pkg \<Rightarrow> db \<Rightarrow> vault_envelope_row \<Rightarrow> bool" where
  "certificate_current C U s e \<longleftrightarrow> (\<exists>version key. (ve_target_device_id e, ve_target_user_id e, version, key) \<in> device_key ` set (devices s) \<and>
     Verify C U (ve_account_identity_public_key e) (ve_device_key_signature e) (ve_target_user_id e) (ve_target_device_id e) version key)"

definition certificates_current :: "crypto_pkg \<Rightarrow> uuid_pkg \<Rightarrow> db \<Rightarrow> bool" where
  "certificates_current C U s \<longleftrightarrow> (\<forall>e\<in>set (vault_key_envelopes s). ve_signature_version e \<noteq> None \<longrightarrow> certificate_current C U s e)"

definition db_inv :: "API \<Rightarrow> db \<Rightarrow> bool" where
  "db_inv a s \<longleftrightarrow> session_inv s \<and> accounts_inv (as_maxUsers (api_auth a)) s \<and> favorites_inv s \<and>
     identity_inv (api_crypto a) (api_uuid a) s \<and> certificates_current (api_crypto a) (api_uuid a) s"

definition api_inv :: "API \<Rightarrow> api_state \<Rightarrow> bool" where
  "api_inv a st \<longleftrightarrow> system_inv (api_digest a) (ap_server st) \<and> db_inv a (ap_db st) \<and> limiters_inv (auth_part st)"

text \<open>The side condition of a request: the UUIDs it draws are UUIDs, the refresh token it draws is new, and it does not
  create a node under the ID of a folder whose keys outlived it (see \<open>node_ok\<close>).\<close>

definition created_id :: "request \<Rightarrow> id option" where
  "created_id r =
     (if rq_Method r = ''POST'' \<and> rq_Path r = [''api'', ''v1'', ''nodes'']
      then (case rq_Json r of None \<Rightarrow> None | Some j \<Rightarrow> map_option cn_ID (read_createNodeRequest j zero_createNodeRequest))
      else None)"

definition request_ok :: "API \<Rightarrow> call \<Rightarrow> request \<Rightarrow> api_state \<Rightarrow> bool" where
  "request_ok a cl r st \<longleftrightarrow> (\<forall>k. ValidUUID (api_uuid a) (cl_ids cl k)) \<and>
     as_hash (api_auth a) (randomToken (td_refresh (cl_tokens cl))) \<notin> rt_token_hash ` set (refresh_tokens (ap_db st)) \<and>
     (case created_id r of None \<Rightarrow> True | Some i \<Rightarrow> \<not> keyed (ap_db st) i)"

lemma api_invD:
  assumes "api_inv a st"
  shows "system_inv (api_digest a) (ap_server st)" "db_inv a (ap_db st)" "session_inv (ap_db st)"
    "accounts_inv (as_maxUsers (api_auth a)) (ap_db st)" "favorites_inv (ap_db st)"
    "identity_inv (api_crypto a) (api_uuid a) (ap_db st)" "certificates_current (api_crypto a) (api_uuid a) (ap_db st)"
    "limiters_inv (auth_part st)"
  using assms by (simp_all add: api_inv_def db_inv_def)

section \<open>Congruences\<close>

lemma accounts_inv_cong: "users s' = users s \<Longrightarrow> accounts_inv m s' = accounts_inv m s"
  by (simp add: accounts_inv_def)

lemma identity_inv_cong:
  "vault_key_envelopes s' = vault_key_envelopes s \<Longrightarrow> recovery_bundles s' = recovery_bundles s \<Longrightarrow>
    identity_inv C U s' = identity_inv C U s"
  by (simp add: identity_inv_def)

lemma favorites_inv_cong: "favorites s' = favorites s \<Longrightarrow> favorites_inv s' = favorites_inv s"
  by (simp add: favorites_inv_def)

lemma certificates_current_mono:
  assumes "certificates_current C U s" "vault_key_envelopes s' = vault_key_envelopes s"
    "device_key ` set (devices s) \<subseteq> device_key ` set (devices s')"
  shows "certificates_current C U s'"
proof -
  have "certificate_current C U s' e" if "certificate_current C U s e" for e
    using that unfolding certificate_current_def by (elim exE conjE, intro exI conjI) (rule subsetD [OF assms(3)])
  with assms(1,2) show ?thesis by (simp add: certificates_current_def)
qed

lemma session_inv_filter:
  assumes inv: "session_inv s" and same: "users s' = users s" "devices s' = devices s"
    and r: "refresh_tokens s' = filter p (refresh_tokens s)" and acc: "access_tokens s' = filter q (access_tokens s)"
  shows "session_inv s'"
  using inv by (simp add: session_inv_def tokens_ok_def owned_device_def same r acc distinct_map_filter)

lemma count_filter_le: "count_rows p (filter q rows) \<le> count_rows p rows"
  by (induction rows) (auto simp: le_SucI)

lemma favorites_inv_filter:
  assumes inv: "favorites_inv s" and f: "favorites s' = filter p (favorites s)"
  shows "favorites_inv s'"
proof -
  have "count_rows q (favorites s') \<le> count_rows q (favorites s)" for q unfolding f by (rule count_filter_le)
  with inv show ?thesis unfolding favorites_inv_def f by (meson distinct_map_filter le_trans)
qed

lemma db_inv_tidied:
  assumes inv: "db_inv a s" and t: "tidied_from s s'"
  shows "db_inv a s'"
proof -
  from t obtain p q f where same: "users s' = users s" "devices s' = devices s" "vault_key_envelopes s' = vault_key_envelopes s"
      "recovery_bundles s' = recovery_bundles s"
    and p: "refresh_tokens s' = filter p (refresh_tokens s)" and q: "access_tokens s' = filter q (access_tokens s)"
    and f: "favorites s' = filter f (favorites s)" by (auto simp: tidied_from_def)
  have "certificates_current (api_crypto a) (api_uuid a) s'"
    by (rule certificates_current_mono [of _ _ s]) (use inv same in \<open>simp_all add: db_inv_def\<close>)
  moreover have "session_inv s'" by (rule session_inv_filter [OF _ same(1,2) p q]) (use inv in \<open>simp add: db_inv_def\<close>)
  moreover have "favorites_inv s'" by (rule favorites_inv_filter [OF _ f]) (use inv in \<open>simp add: db_inv_def\<close>)
  ultimately show ?thesis using inv accounts_inv_cong [OF same(1)] identity_inv_cong [OF same(3,4)] by (simp add: db_inv_def)
qed

lemma system_inv_session:
  assumes inv: "system_inv H sv" and v: "vault_of s' = vault_of (sv_db sv)" and u: "users_ok s'"
  shows "system_inv H (sv\<lparr>sv_db := s'\<rparr>)"
proof -
  note V = vault_ofD [OF v]
  have "server_inv H (sv\<lparr>sv_db := s'\<rparr>)" by (rule server_inv_marks [OF system_invD(1) [OF inv]]) (simp_all add: V)
  moreover have "keys_ok s'" using system_invD(7) [OF inv] keys_ok_cong [OF V(11)] by simp
  moreover have "typed s'" using system_invD(5) [OF inv] by (simp add: typed_def V is_file_cong [OF V(1)])
  ultimately show ?thesis using u by (intro system_invI) simp_all
qed

lemma users_ok_step:
  assumes ok: "users_ok s" and step: "session_step s s'"
  shows "users_ok s'"
proof -
  have shares: "shares s' = shares s" and users: "users s' = users s" using step vault_ofD(9) [of s' s] by (simp_all add: session_step_def)
  have known: "d_user_id ` set (devices s) \<subseteq> u_id ` set (users s)" using ok by (auto simp: users_ok_def)
  have "d_user_id ` set (devices s') \<subseteq> d_user_id ` set (devices s) \<union> u_id ` set (users s)"
    using step by (simp add: session_step_def)
  then have "d_user_id ` set (devices s') \<subseteq> u_id ` set (users s)" using known by (rule order_trans [OF _ Un_least]) simp
  then have "\<forall>d\<in>set (devices s'). d_user_id d \<in> u_id ` set (users s)" by (simp add: image_subset_iff)
  with ok show ?thesis by (simp add: users_ok_def shares users)
qed

section \<open>Commands of the services\<close>

lemma auth_part_db [simp]: "limiters_inv (auth_part (set_db s st)) = limiters_inv (auth_part st)"
  by (simp add: limiters_inv_def auth_part_def set_db_def)

lemma auth_part_server [simp]: "limiters_inv (auth_part (st\<lparr>ap_server := sv\<rparr>)) = limiters_inv (auth_part st)"
  by (simp add: limiters_inv_def auth_part_def)

lemma api_vault:
  assumes inv: "api_inv a st" and sv: "system_inv (api_digest a) sv'" and t: "tidied_from (ap_db st) (sv_db sv')"
  shows "api_inv a (st\<lparr>ap_server := sv'\<rparr>)"
  using db_inv_tidied [OF api_invD(2) [OF inv] t] sv api_invD(8) [OF inv] by (simp add: api_inv_def)

lemma api_node:
  assumes inv: "api_inv a st" and U: "uuid_laws (api_uuid a)" and ok: "node_ok c (ap_db st)"
  shows "api_inv a (set_db (fst (node_exec (api_uuid a) c (ap_db st))) st)"
  unfolding set_db_def
  by (rule api_vault [OF inv node_keeps_system [OF api_invD(1) [OF inv] U ok]])
    (simp add: tidied_from_same node_exec_others)

lemma api_sharing:
  assumes inv: "api_inv a st" and U: "uuid_laws (api_uuid a)" and d: "\<forall>k. ValidUUID (api_uuid a) (ids k)"
  shows "api_inv a (set_db (fst (sharing_exec (api_uuid a) (\<lambda>_. ids) (now, 0, c) (ap_db st))) st)"
  unfolding set_db_def
  by (rule api_vault [OF inv sharing_keeps_system [OF api_invD(1) [OF inv] U]])
    (simp_all add: d draws_ok_def tidied_from_same sharing_exec_others)

lemma api_upload:
  assumes inv: "api_inv a st" and U: "uuid_laws (api_uuid a)" and d: "\<forall>k. ValidUUID (api_uuid a) (ids k)"
  shows "api_inv a (st\<lparr>ap_server := fst (upload_exec (api_uuid a) (api_digest a) (api_uploads a) ids (now, 0, c) (ap_server st))\<rparr>)"
  by (rule api_vault [OF inv upload_keeps_system [OF api_invD(1) [OF inv] U d]])
    (rule tidied_from_same [OF upload_exec_others [OF system_invD(1) [OF api_invD(1) [OF inv]]]])

lemma api_tidies:
  assumes inv: "api_inv a st" and t: "tidies (api_digest a) (ap_db st) sv'"
  shows "api_inv a (st\<lparr>ap_server := sv'\<rparr>)"
  by (rule api_vault [OF inv]) (use t in \<open>simp_all add: tidies_def\<close>)

lemma tidies_start: "api_inv a st \<Longrightarrow> tidies (api_digest a) (ap_db st) (ap_server st)"
  by (simp add: tidies_def api_invD(1) tidied_from_same)

lemma db_inv_session:
  assumes inv: "db_inv a s" and step: "session_step s s'" and ses: "session_inv s'"
  shows "db_inv a s'"
proof -
  have same: "users s' = users s" "favorites s' = favorites s" "vault_key_envelopes s' = vault_key_envelopes s"
    "recovery_bundles s' = recovery_bundles s" and keys: "device_key ` set (devices s) \<subseteq> device_key ` set (devices s')"
    using step by (simp_all add: session_step_def)
  have "certificates_current (api_crypto a) (api_uuid a) s'"
    by (rule certificates_current_mono [of _ _ s]) (use inv same keys in \<open>simp_all add: db_inv_def\<close>)
  then show ?thesis using inv ses accounts_inv_cong [OF same(1)] favorites_inv_cong [OF same(2)] identity_inv_cong [OF same(3,4)]
    by (simp add: db_inv_def)
qed

lemma api_session_db:
  assumes inv: "api_inv a st" and step: "session_step (ap_db st) s'" and ses: "session_inv s'"
  shows "api_inv a (set_db s' st)"
proof -
  have "system_inv (api_digest a) (ap_server (set_db s' st))" unfolding set_db_def
    using system_inv_session [OF api_invD(1) [OF inv], of s'] users_ok_step [OF system_invD(6) [OF api_invD(1) [OF inv]] step] step
    by (simp add: session_step_def)
  then show ?thesis using db_inv_session [OF api_invD(2) [OF inv] step ses] api_invD(8) [OF inv] by (simp add: api_inv_def)
qed

lemma api_session:
  assumes inv: "api_inv a st" and ok: "fresh_draws (api_auth a) c (ap_db st)"
    and "\<forall>now. c \<noteq> (now, ExpireTokens)" "\<forall>now x. c \<noteq> (now, AccountRequest x)"
  shows "api_inv a (set_db (fst (session_exec (api_auth a) c (ap_db st))) st)"
  by (rule api_session_db [OF inv session_exec_step [OF assms(3,4)] session_service.inv_exec [OF api_invD(3) [OF inv] ok]])

lemma api_favorite:
  assumes inv: "api_inv a st"
  shows "api_inv a (set_db (fst (favorite_exec (api_uuid a) c (ap_db st))) st)"
proof -
  let ?s = "fst (favorite_exec (api_uuid a) c (ap_db st))"
  have v: "vault_of ?s = vault_of (ap_db st)" and acc: "accounts_of ?s = accounts_of (ap_db st)"
    using favorite_exec_frame by blast+
  note A = accounts_ofD [OF acc]
  have "favorites_inv ?s" by (rule favorite_service.inv_exec [OF api_invD(5) [OF inv]]) simp
  moreover have "session_inv ?s" using api_invD(3) [OF inv] by (simp add: session_inv_def tokens_ok_def owned_device_def A)
  moreover have "certificates_current (api_crypto a) (api_uuid a) ?s"
    by (rule certificates_current_mono [OF api_invD(7) [OF inv]]) (simp_all add: A)
  ultimately have "db_inv a ?s" using inv accounts_inv_cong [OF A(1)] identity_inv_cong [OF A(5,6)] by (simp add: api_inv_def db_inv_def)
  moreover have "users_ok ?s"
    using system_invD(6) [OF api_invD(1) [OF inv]] users_ok_cong [OF A(1,2) vault_ofD(9) [OF v]] by simp
  then have "system_inv (api_digest a) (ap_server (set_db ?s st))" unfolding set_db_def
    using system_inv_session [OF api_invD(1) [OF inv] v] by simp
  ultimately show ?thesis using api_invD(8) [OF inv] by (simp add: api_inv_def)
qed

text \<open>A new certificate has to be current as well.\<close>

lemma api_identity:
  assumes inv: "api_inv a st"
    and cur: "certificates_current (api_crypto a) (api_uuid a) (fst (identity_exec (api_crypto a) (api_uuid a) c (ap_db st)))"
  shows "api_inv a (set_db (fst (identity_exec (api_crypto a) (api_uuid a) c (ap_db st))) st)"
proof -
  let ?s = "fst (identity_exec (api_crypto a) (api_uuid a) c (ap_db st))"
  from identity_exec_frame obtain es bs where s: "?s = (ap_db st)\<lparr>vault_key_envelopes := es, recovery_bundles := bs\<rparr>"
    unfolding certificate_step_def by blast
  have "identity_inv (api_crypto a) (api_uuid a) ?s" by (rule identity_service.inv_exec [OF api_invD(6) [OF inv]]) simp
  moreover have "session_inv ?s" "accounts_inv (as_maxUsers (api_auth a)) ?s" "favorites_inv ?s" "users_ok ?s" unfolding s
    using api_invD(3-5) [OF inv] system_invD(6) [OF api_invD(1) [OF inv]]
    by (simp_all add: session_inv_def tokens_ok_def owned_device_def accounts_inv_def favorites_inv_def users_ok_def)
  moreover have "system_inv (api_digest a) (ap_server (set_db ?s st))" unfolding set_db_def
    using system_inv_session [OF api_invD(1) [OF inv], of ?s] \<open>users_ok ?s\<close> by (simp add: s)
  ultimately show ?thesis using cur api_invD(8) [OF inv] by (simp add: api_inv_def db_inv_def)
qed

end
