(* ===== verification/HB_Api_Run.thy ===== *)
theory HB_Api_Run
  imports HB_Api_Inv HB_Runs
begin

text \<open>
  Every handler keeps \<open>api_inv\<close>, group by group: those that only read, and those of nodes, sharing, uploads, favorites, sessions and
  identities. A request is one step here; the service theories cover finer interleavings of the transactions.
\<close>

definition keeps :: "(string \<Rightarrow> string list \<Rightarrow> bool) \<Rightarrow> handler \<Rightarrow> bool" where
  "keeps P h \<longleftrightarrow> (\<forall>a cl r st. P (rq_Method r) (rq_Path r) \<longrightarrow> uuid_laws (api_uuid a) \<longrightarrow> api_inv a st \<longrightarrow> request_ok a cl r st \<longrightarrow>
     api_inv a (fst (h a cl r st)))"

abbreviation keeps_all :: "handler \<Rightarrow> bool" where
  "keeps_all \<equiv> keeps (\<lambda>_ _. True)"

lemma keeps_weaken: "keeps P h \<Longrightarrow> (\<And>m p. Q m p \<Longrightarrow> P m p) \<Longrightarrow> keeps Q h"
  unfolding keeps_def by blast

lemma keeps_read: "(\<And>a cl r st. fst (h a cl r st) = st) \<Longrightarrow> keeps_all h"
  by (simp add: keeps_def)

lemma request_ok_ctx [simp]:
  "request_ok a cl (r\<lparr>rq_UserID := u, rq_DeviceID := d\<rparr>) st = request_ok a cl r st"
  "request_ok a cl (r\<lparr>rq_PathValue := f\<rparr>) st = request_ok a cl r st"
  by (simp_all add: request_ok_def created_id_def)

lemma keeps_authenticated:
  assumes "keeps P h"
  shows "keeps P (authenticated h)"
  unfolding keeps_def
proof (intro allI impI)
  fix a :: API and cl r st
  assume r: "P (rq_Method r) (rq_Path r)" "uuid_laws (api_uuid a)" "api_inv a st" "request_ok a cl r st"
  have inner: "api_inv a (fst (h a cl (r\<lparr>rq_UserID := u, rq_DeviceID := d\<rparr>) st))" for u d
    using assms [unfolded keeps_def, rule_format, of "r\<lparr>rq_UserID := u, rq_DeviceID := d\<rparr>" a st cl] r by simp
  show "api_inv a (fst (authenticated h a cl r st))"
    using inner r(3) by (simp add: authenticated_def Let_def split: sum.split prod.split)
qed

lemma keepsI:
  assumes "\<And>a cl r st. uuid_laws (api_uuid a) \<Longrightarrow> api_inv a st \<Longrightarrow> request_ok a cl r st \<Longrightarrow> api_inv a (fst (h a cl r st))"
  shows "keeps_all h"
  using assms by (simp add: keeps_def)

section \<open>Handlers that read\<close>

lemma read_handlers:
  "fst (getMe a cl r st) = st" "fst (listShareDevices a cl r st) = st" "fst (listDevices a cl r st) = st"
  "fst (downloadKeyEnvelope a cl r st) = st" "fst (getNode a cl r st) = st" "fst (listTrash a cl r st) = st"
  "fst (listIncomingShares a cl r st) = st" "fst (listOutgoingShares a cl r st) = st" "fst (listFolderKeys a cl r st) = st"
  "fst (getUpload a cl r st) = st" "fst (downloadFileContent a cl r st) = st" "fst (listFileVersions a cl r st) = st"
  "fst (listFavorites a cl r st) = st" "fst (getRecoveryBundle a cl r st) = st"
  by (simp_all add: getMe_def listShareDevices_def listDevices_def downloadKeyEnvelope_def getNode_def listTrash_def
      listIncomingShares_def listOutgoingShares_def listFolderKeys_def getUpload_def downloadFileContent_def
      listFileVersions_def listFavorites_def getRecoveryBundle_def fst_check Let_def split: sum.split)

lemma list_page_state [simp]: "fst (list_page cl st res) = st"
  by (simp add: list_page_def)

lemma read_listChildren: "fst (listChildren a cl r st) = st"
  by (simp add: listChildren_def fst_check Let_def split: sum.split cursor.split)

lemmas keeps_reads = read_handlers [THEN keeps_read] read_listChildren [THEN keeps_read]

section \<open>Handlers of the vault\<close>

lemma node_calls:
  "fst (Create U now s inp) = fst (node_exec U (now, CreateCmd inp) s)" "fst (Update U now s ui) = fst (node_exec U (now, UpdateCmd ui) s)"
  "fst (Delete U now s u d i op v) = fst (node_exec U (now, DeleteCmd u d i op v) s)"
  "fst (Restore U now s u d i op) = fst (node_exec U (now, RestoreCmd u d i op) s)"
  "fst (Rekey U now s rk) = fst (node_exec U (now, RekeyCmd rk) s)"
  by simp_all

lemma keeps_createNode: "keeps (\<lambda>m p. m = ''POST'' \<and> p = [''api'', ''v1'', ''nodes'']) createNode"
  unfolding keeps_def
proof (intro allI impI)
  fix a :: API and cl r st
  assume r: "rq_Method r = ''POST'' \<and> rq_Path r = [''api'', ''v1'', ''nodes'']" and U: "uuid_laws (api_uuid a)"
    and inv: "api_inv a st" and ok: "request_ok a cl r st"
  have new: "\<not> keyed (ap_db st) (cn_ID req)" if "decodeJSON cl r read_createNodeRequest zero_createNodeRequest = Inr req" for req
    using that ok r by (auto simp: decodeJSON_def request_ok_def created_id_def split: option.split_asm)
  show "api_inv a (fst (createNode a cl r st))"
    using api_node [OF inv U] new inv
    by (auto simp: createNode_def fst_check node_calls simp del: node_exec.simps split: sum.split)
qed

lemma keeps_nodes:
  "keeps_all updateNode" "keeps_all deleteNode" "keeps_all restoreNode" "keeps_all rekeyNodes"
  by (rule keepsI; simp add: updateNode_def deleteNode_def restoreNode_def rekeyNodes_def fst_check node_calls api_node
      del: node_exec.simps split: sum.split)+

lemma sharing_calls:
  "fst (CreateFolderKey U now s u d i v env) = fst (sharing_exec U (\<lambda>_. ids) (now, 0, FolderKeyCmd u d i v env) s)"
  "fst (CreateGrant U now ids s g) = fst (sharing_exec U (\<lambda>_. ids) (now, 0, GrantCmd g) s)"
  "fst (AddEnvelopes U now ids s u d i es) = fst (sharing_exec U (\<lambda>_. ids) (now, 0, EnvelopesCmd u d i es) s)"
  "fst (Revoke U now s u d i) = fst (sharing_exec U (\<lambda>_. ids) (now, 0, RevokeCmd u d i) s)"
  by simp_all

lemma request_ids: "request_ok a cl r st \<Longrightarrow> \<forall>k. ValidUUID (api_uuid a) (cl_ids cl k)"
  by (simp add: request_ok_def)

lemma keeps_sharing:
  "keeps_all createShare" "keeps_all addShareEnvelopes" "keeps_all revokeShare" "keeps_all createFolderKey"
proof -
  note api = api_sharing [OF _ _ request_ids]
  show "keeps_all createShare" "keeps_all addShareEnvelopes"
    by (rule keepsI, simp add: createShare_def addShareEnvelopes_def fst_check sharing_calls api
        del: sharing_exec.simps split: sum.split)+
  have direct: "api_inv a (set_db (fst (Revoke (api_uuid a) now (ap_db st) u d i)) st)"
      "api_inv a (set_db (fst (CreateFolderKey (api_uuid a) now (ap_db st) u d i v env)) st)"
    if "uuid_laws (api_uuid a)" "api_inv a st" "request_ok a cl r st" for a :: API and cl r st now u d i v env
    using api [OF that(2,1,3), of now "RevokeCmd u d i"] api [OF that(2,1,3), of now "FolderKeyCmd u d i v env"] by simp_all
  show "keeps_all revokeShare" "keeps_all createFolderKey"
    by (rule keepsI, simp add: revokeShare_def createFolderKey_def fst_check direct split: sum.split)+
qed

section \<open>Uploads, favorites and Trash\<close>

lemma keeps_uploads:
  "keeps_all createUpload" "keeps_all putUploadChunk" "keeps_all completeUpload" "keeps_all abortUpload"
proof -
  note api = api_upload [OF _ _ request_ids]
  have direct: "api_inv a (st\<lparr>ap_server := fst (CreateUpload (api_uuid a) (api_uploads a) now (cl_ids cl 0) (ap_server st) inp)\<rparr>)"
      "api_inv a (st\<lparr>ap_server := fst (PutChunk (api_uuid a) (api_digest a) now (ap_server st) u d i no x)\<rparr>)"
      "api_inv a (st\<lparr>ap_server := fst (AbortUpload (api_uuid a) (ap_server st) u d i)\<rparr>)"
      "api_inv a (st\<lparr>ap_server := fst (CompleteUpload (api_uuid a) (api_digest a) (api_uploads a) now (ap_server st) i co)\<rparr>)"
    if "uuid_laws (api_uuid a)" "api_inv a st" "request_ok a cl r st" for a :: API and cl r st now u d i no x inp co
    using api [OF that(2,1,3), of now "CreateUploadCmd inp"] api [OF that(2,1,3), of now "PutChunkCmd u d i no x"]
      api [OF that(2,1,3), of now "AbortCmd u d i"] api [OF that(2,1,3), of now "CompleteCmd i co"] by simp_all
  show "keeps_all createUpload" "keeps_all putUploadChunk" "keeps_all completeUpload" "keeps_all abortUpload"
    by (rule keepsI, simp add: createUpload_def putUploadChunk_def completeUpload_def abortUpload_def fst_check direct Let_def
        split: sum.split option.split chunk_body.split)+
qed

lemma keeps_favorites: "keeps_all addFavorite" "keeps_all removeFavorite" "keeps_all purgeTrashEntry"
proof -
  have direct: "api_inv a (set_db (fst (committed (ap_db st) (AddFavorite (api_uuid a) now (ap_db st) u i))) st)"
      "api_inv a (set_db (fst (committed (ap_db st) (RemoveFavorite (api_uuid a) (ap_db st) u i))) st)"
      "api_inv a (st\<lparr>ap_server := fst (PurgeTrashEntry (api_uuid a) now (ap_server st) u i)\<rparr>)"
    if inv: "api_inv a st" for a st now u i
    using api_favorite [OF inv, of "(now, AddRequest u i)"] api_favorite [OF inv, of "(now, RemoveRequest u i)"]
      api_tidies [OF inv PurgeTrashEntry_tidies [OF tidies_start [OF inv]]] by (simp_all add: committed_def)
  show "keeps_all addFavorite" "keeps_all removeFavorite" "keeps_all purgeTrashEntry"
    by (rule keepsI, simp add: addFavorite_def removeFavorite_def purgeTrashEntry_def fst_check direct split: sum.split)+
qed

section \<open>Sessions\<close>

lemma session_calls:
  assumes inv: "api_inv a st" and ok: "request_ok a cl r st"
  shows "api_inv a (set_db (fst (Refresh (api_auth a) (cl_tokens cl) now (ap_db st) token)) st)"
    "api_inv a (set_db (fst (Logout (api_auth a) now (ap_db st) token)) st)"
    "api_inv a (set_db (fst (RecordSync now (ap_db st) u d)) st)"
    "api_inv a (set_db (fst (RevokeDevice now (ap_db st) u d)) st)"
  using api_session [OF inv, of "(now, RefreshToken (cl_tokens cl) token)"] api_session [OF inv, of "(now, LogoutToken token)"]
    api_session [OF inv, of "(now, SyncMark u d)"] api_session [OF inv, of "(now, RevokeDev u d)"] ok
  by (simp_all add: request_ok_def)

lemma keeps_sessions: "keeps_all refresh" "keeps_all logout" "keeps_all revokeDevice" "keeps_all syncChanges"
  by (rule keepsI, simp add: refresh_def logout_def revokeDevice_def syncChanges_def fst_check session_calls Let_def split_def
      split: sum.split)+

text \<open>A sign-in runs at most one session command and keeps the limiters in order.\<close>

lemma login_attempt_db:
  obtains "au_db (fst (login_attempt svc draws now au addr norm pw reg)) = au_db au"
  | u h where "au_db (fst (login_attempt svc draws now au addr norm pw reg)) = fst (session_exec svc (now, SignIn draws u h reg) (au_db au))"
proof (cases rule: login_attempt_cases [of au norm svc draws now addr pw reg])
  case (signed_in u ses s')
  then show ?thesis by (intro that(2) [of "scanUser u" "u_password_hash u"]) (simp add: login_succeeded_def)
qed (use that(1) in \<open>simp_all add: login_failed_def\<close>)

lemma Login_db:
  obtains "au_db (fst (Login svc draws now au addr name pw reg)) = au_db au"
  | u h where "au_db (fst (Login svc draws now au addr name pw reg)) = fst (session_exec svc (now, SignIn draws u h reg) (au_db au))"
proof -
  have admit: "au_db (fst (login_admit au now addr norm)) = au_db au" for norm by (simp add: login_admit_def Let_def split_def)
  show thesis
  proof (cases rule: Login_cases [where name = name and svc = svc and reg = reg and draws = draws and now = now and st = au and addr = addr and pw = pw])
    case (early e)
    then show ?thesis using that(1) by simp
  next
    case (refused username norm)
    then show ?thesis using that(1) admit by simp
  next
    case (attempt username norm st2 r)
    have "au_db (fst (Login svc draws now au addr name pw reg)) = au_db st2" using attempt(5) by (simp add: login_release_def)
    moreover have "fst (login_attempt svc draws now (fst (login_admit au now addr norm)) addr norm pw reg) = st2" using attempt(4) by simp
    ultimately show ?thesis
      using that admit by (cases rule: login_attempt_db [of svc draws now "fst (login_admit au now addr norm)" addr norm pw reg]) simp_all
  qed
qed

lemma Login_limiters:
  assumes inv: "limiters_inv au"
  shows "limiters_inv (fst (Login svc draws now au addr name pw reg))"
proof (cases rule: Login_cases [where name = name and svc = svc and reg = reg and draws = draws and now = now and st = au and addr = addr and pw = pw])
  case (early e)
  then show ?thesis using inv by simp
next
  case (refused username norm)
  then show ?thesis using login_admit_refused [OF inv] by simp
next
  case (attempt username norm st2 r)
  from login_attempt_slots(2) [OF admit_inv [OF inv attempt(3)], of svc draws now addr norm pw reg]
  have "limiters_inv st2" by (simp add: attempt(4))
  then show ?thesis by (auto simp: attempt(5) limiters_inv_def login_release_def)
qed

lemma keeps_login: "keeps_all login"
proof (rule keepsI)
  fix a :: API and cl r st
  assume inv: "api_inv a st" and ok: "request_ok a cl r st"
  have "api_inv a (set_auth_part (fst (Login (api_auth a) (cl_tokens cl) (cl_now cl) (auth_part st) addr name pw reg)) st)" for addr name pw reg
  proof -
    let ?au = "fst (Login (api_auth a) (cl_tokens cl) (cl_now cl) (auth_part st) addr name pw reg)"
    have lim: "limiters_inv ?au" by (rule Login_limiters [OF api_invD(8) [OF inv]])
    have db: "api_inv a (set_db (au_db ?au) st)"
    proof (cases rule: Login_db [of "api_auth a" "cl_tokens cl" "cl_now cl" "auth_part st" addr name pw reg])
      case 1
      then show ?thesis using inv by simp
    next
      case (2 u h)
      have "fresh_draws (api_auth a) (cl_now cl, SignIn (cl_tokens cl) u h reg) (ap_db st)" using ok by (simp add: request_ok_def)
      from api_session [OF inv this] show ?thesis by (simp add: 2 del: session_exec.simps)
    qed
    have "ap_server (set_auth_part ?au st) = ap_server (set_db (au_db ?au) st)" by (simp add: set_auth_part_def)
    moreover have "auth_part (set_auth_part ?au st) = ?au" by (rule state_simps)
    ultimately show ?thesis using db lim by (simp add: api_inv_def)
  qed
  with inv show "api_inv a (fst (login a cl r st))" by (simp add: login_def fst_check Let_def split_def split: sum.split)
qed

section \<open>Certificates and bundles\<close>

lemma keeps_putRecoveryBundle: "keeps_all putRecoveryBundle"
proof (rule keepsI)
  fix a :: API and cl r st
  assume inv: "api_inv a st"
  have "api_inv a (set_db (fst (committed (ap_db st) (PutBundle (api_crypto a) (api_uuid a) now (ap_db st) u d bun key sig))) st)" for now u d bun key sig
  proof -
    let ?c = "(now, PutRequest u d bun key sig)"
    have "vault_key_envelopes (fst (identity_exec (api_crypto a) (api_uuid a) ?c (ap_db st))) = vault_key_envelopes (ap_db st)"
      "devices (fst (identity_exec (api_crypto a) (api_uuid a) ?c (ap_db st))) = devices (ap_db st)"
      by (simp_all add: PutBundle_def Let_def)
    then have "certificates_current (api_crypto a) (api_uuid a) (fst (identity_exec (api_crypto a) (api_uuid a) ?c (ap_db st)))"
      by (intro certificates_current_mono [OF api_invD(7) [OF inv]]) simp_all
    from api_identity [OF inv this] show ?thesis by (simp add: committed_def)
  qed
  with inv show "api_inv a (fst (putRecoveryBundle a cl r st))" by (simp add: putRecoveryBundle_def fst_check split: sum.split)
qed

text \<open>The certificate of an upload is checked against the key the device has now.\<close>

lemma UploadAuthenticated_verified:
  assumes u: "UploadAuthenticated C U now i s vault u d v ct dk dv cert = Inr (env, s')"
  obtains row where "s' = s\<lparr>vault_key_envelopes := vault_key_envelopes s @ [row]\<rparr>" "ve_target_device_id row = d" "ve_target_user_id row = u"
    "ve_signature_version row \<noteq> None \<longrightarrow> Verify C U (ve_account_identity_public_key row) (ve_device_key_signature row) u d dv dk"
proof -
  let ?row = "last (vault_key_envelopes s')"
  have "s' = s\<lparr>vault_key_envelopes := vault_key_envelopes s @ [?row]\<rparr> \<and> ve_target_device_id ?row = d \<and> ve_target_user_id ?row = u \<and>
      ve_signature_version ?row = map_option cert_SignatureVersion cert \<and>
      ve_account_identity_public_key ?row = (case cert of None \<Rightarrow> [] | Some c \<Rightarrow> cert_AccountPublicKey c) \<and>
      ve_device_key_signature ?row = (case cert of None \<Rightarrow> [] | Some c \<Rightarrow> cert_DeviceSignature c)"
    using u by (simp add: UploadAuthenticated_def split: if_split_asm) (elim conjE, drule sym [of _ s'], simp)
  moreover have "Verify C U (cert_AccountPublicKey c) (cert_DeviceSignature c) u d dv dk" if "cert = Some c" for c
    using u that by (simp add: UploadAuthenticated_def split: if_split_asm)
  ultimately show ?thesis by (intro that [of ?row]) (auto split: option.split_asm)
qed

lemma upload_current:
  assumes cur: "certificates_current C U s" and dev: "GetDevice s u d = Inr target"
    and up: "UploadAuthenticated C U now i s vault u d v ct (dev_PublicKey target) (dev_KeyVersion target) cert = Inr (env, s')"
  shows "certificates_current C U s'"
  using up
proof (rule UploadAuthenticated_verified)
  fix row assume s': "s' = s\<lparr>vault_key_envelopes := vault_key_envelopes s @ [row]\<rparr>" and row: "ve_target_device_id row = d" "ve_target_user_id row = u"
    and ver: "ve_signature_version row \<noteq> None \<longrightarrow>
      Verify C U (ve_account_identity_public_key row) (ve_device_key_signature row) u d (dev_KeyVersion target) (dev_PublicKey target)"
  from dev obtain x where x: "device_of s d u = Some x" "target = scanDevice x" by (auto simp: GetDevice_def split: option.split_asm)
  from find_SomeD [OF x(1) [unfolded device_of_def]] have xd: "x \<in> set (devices s)" "d_id x = d" "d_user_id x = u" by simp_all
  have "(d, u, dev_KeyVersion target, dev_PublicKey target) \<in> device_key ` set (devices s)"
    by (rule rev_image_eqI [OF xd(1)]) (simp add: device_key_def xd x(2) scanDevice_def)
  then have "ve_signature_version row \<noteq> None \<longrightarrow> certificate_current C U s row"
    using ver unfolding certificate_current_def row by blast
  moreover have "certificate_current C U s' e = certificate_current C U s e" for e by (simp add: certificate_current_def s')
  ultimately show ?thesis using cur by (simp add: certificates_current_def s')
qed

lemma keeps_uploadKeyEnvelope: "keeps_all uploadKeyEnvelope"
proof (rule keepsI)
  fix a :: API and cl r st
  assume inv: "api_inv a st"
  have "api_inv a (set_db (fst (committed_with (ap_db st) (UploadAuthenticated (api_crypto a) (api_uuid a) now i (ap_db st) vault u d v ct
      (dev_PublicKey target) (dev_KeyVersion target) cert))) st)" if dev: "GetDevice (ap_db st) u d = Inr target" for now i vault u d v ct target cert
  proof -
    let ?c = "(now, UploadRequest i vault u d v ct (dev_PublicKey target) (dev_KeyVersion target) cert)"
    have "certificates_current (api_crypto a) (api_uuid a) (fst (identity_exec (api_crypto a) (api_uuid a) ?c (ap_db st)))"
      using api_invD(7) [OF inv] upload_current [OF api_invD(7) [OF inv] dev] by (simp split: sum.split)
    from api_identity [OF inv this] show ?thesis by (simp add: committed_with_def split: sum.split_asm sum.split prod.split_asm)
  qed
  with inv show "api_inv a (fst (uploadKeyEnvelope a cl r st))"
    by (simp add: uploadKeyEnvelope_def fst_check Let_def split: sum.split)
qed

end
