(* ===== verification/HB_Service.thy ===== *)
theory HB_Service
  imports HB_Api_Run HB_Demo_Store
begin

text \<open>
  The running server. \<open>serve\<close> keeps \<open>api_inv\<close> because every route does. An \<open>event\<close> is what can happen to a server:
  a request, a pass of automatic maintenance, or an account the administrator adds on the command line while the
  server runs (internal/auth, called from cmd/homebox). \<open>http_keeps_invariant\<close> is the theorem over all runs of events.
\<close>

section \<open>Every route\<close>

definition routed :: "string \<Rightarrow> string \<Rightarrow> string \<Rightarrow> string list \<Rightarrow> bool" where
  "routed m p method path \<longleftrightarrow> match_method m method \<and> match_path (segments p) path \<noteq> None"

lemma literal_path: "\<forall>p\<in>set ps. wildcard p = None \<Longrightarrow> match_path ps xs \<noteq> None \<longleftrightarrow> xs = ps"
  by (induction ps xs rule: match_path.induct) auto

lemma segments_nodes: "segments ''/api/v1/nodes'' = [''api'', ''v1'', ''nodes'']"
  by code_simp

lemma routed_nodes: "routed ''POST'' ''/api/v1/nodes'' m path \<Longrightarrow> m = ''POST'' \<and> path = [''api'', ''v1'', ''nodes'']"
  using literal_path [of "[''api'', ''v1'', ''nodes'']" path]
  by (simp add: routed_def segments_nodes match_method_def wildcard_def)

lemma keeps_route: "keeps_all h \<Longrightarrow> keeps (routed m p) h"
  by (erule keeps_weaken) simp

lemma routes_keep: "\<forall>(m, p, h)\<in>set routes. keeps (routed m p) h"
proof -
  note all = keeps_reads keeps_nodes keeps_sharing keeps_uploads keeps_favorites keeps_sessions keeps_login
    keeps_putRecoveryBundle keeps_uploadKeyEnvelope
  have create: "keeps (routed ''POST'' ''/api/v1/nodes'') createNode"
    by (rule keeps_weaken [OF keeps_createNode]) (rule routed_nodes)
  show ?thesis unfolding routes_def
    by (simp only: list.set ball_simps prod.case) (intro conjI TrueI keeps_authenticated create all [THEN keeps_route])
qed

lemma mux_route:
  assumes "mux r = Some (vals, h)"
  obtains m p where "(m, p, h) \<in> set routes" "routed m p (rq_Method r) (rq_Path r)"
proof -
  let ?M = "filter (\<lambda>(m, p, h). match_method m (rq_Method r) \<and> match_path (segments p) (rq_Path r) \<noteq> None) routes"
  from assms obtain m p rest where "sort_key (\<lambda>(m, p, h). wildcards p) ?M = (m, p, h) # rest"
    by (auto simp: mux_def Let_def split: list.split_asm)
  then have "(m, p, h) \<in> set (sort_key (\<lambda>(m, p, h). wildcards p) ?M)" by simp
  then have "(m, p, h) \<in> set routes" "routed m p (rq_Method r) (rq_Path r)" by (simp_all add: routed_def)
  then show ?thesis by (rule that)
qed

lemma serve_keeps:
  assumes "uuid_laws (api_uuid a)" "api_inv a st" "request_ok a cl r st"
  shows "api_inv a (fst (serve a cl r st))"
proof (cases "mux r")
  case (Some x)
  obtain vals h where x: "mux r = Some (vals, h)" using Some by (cases x) simp
  from mux_route [OF x] obtain m p where mp: "(m, p, h) \<in> set routes" "routed m p (rq_Method r) (rq_Path r)" .
  from routes_keep mp(1) have "keeps (routed m p) h" by blast
  then have "api_inv a (fst (h a cl (r\<lparr>rq_PathValue := f\<rparr>) st))" for f
    using mp(2) assms unfolding keeps_def by (metis request_ok_ctx(2) request.select_convs(1,2) request.update_convs(9) request.surjective)
  then show ?thesis by (simp add: serve_def x)
next
  case None
  then show ?thesis using assms(2) by (simp add: serve_def)
qed

section \<open>Runs of the server\<close>

datatype event = Request call request | MaintenancePass Policy time | AdminCommand time account_cmd

fun event_exec :: "API \<Rightarrow> event \<Rightarrow> api_state \<Rightarrow> api_state \<times> (err + response option)" where
  "event_exec a (Request cl r) st = map_prod id (\<lambda>resp. Inr (Some resp)) (serve a cl r st)"
| "event_exec a (MaintenancePass pol now) st =
     map_prod (\<lambda>sv. st\<lparr>ap_server := sv\<rparr>) (map_sum id (\<lambda>_. None)) (RunMaintenance (api_uuid a) pol now (ap_server st))"
| "event_exec a (AdminCommand now c) st =
     map_prod (\<lambda>s. set_db s st) (map_sum id (\<lambda>_. None)) (account_exec (as_argon (api_auth a)) (as_maxUsers (api_auth a)) (now, c) (ap_db st))"

fun event_ok :: "API \<Rightarrow> event \<Rightarrow> api_state \<Rightarrow> bool" where
  "event_ok a (Request cl r) st \<longleftrightarrow> request_ok a cl r st"
| "event_ok a _ st \<longleftrightarrow> True"

lemma api_account:
  assumes inv: "api_inv a st"
  shows "api_inv a (set_db (fst (account_exec (as_argon (api_auth a)) (as_maxUsers (api_auth a)) c (ap_db st))) st)"
proof -
  let ?e = "account_exec (as_argon (api_auth a)) (as_maxUsers (api_auth a)) c (ap_db st)"
  let ?s = "fst ?e"
  have acc: "accounts_inv (as_maxUsers (api_auth a)) ?s" by (rule account_service.inv_exec [OF api_invD(4) [OF inv]]) simp
  show ?thesis
  proof (rule account_exec_cases [of "as_argon (api_auth a)" "as_maxUsers (api_auth a)" c "ap_db st"])
    assume "?s = ap_db st"
    then show ?thesis using inv by simp
  next
    fix u assume s: "?s = (ap_db st)\<lparr>users := users (ap_db st) @ [u]\<rparr>" and new: "u_id u \<notin> u_id ` set (users (ap_db st))"
    have "users_ok ?s" using system_invD(6) [OF api_invD(1) [OF inv]] new by (auto simp: users_ok_def s)
    then have "system_inv (api_digest a) (ap_server (set_db ?s st))" unfolding set_db_def
      using system_inv_session [OF api_invD(1) [OF inv], of ?s] by (simp add: s)
    moreover have "session_inv ?s" using api_invD(3) [OF inv] new
      by (auto simp: session_inv_def tokens_ok_def owned_device_def s)
    moreover have "favorites_inv ?s" using api_invD(5) [OF inv] favorites_inv_cong [of ?s "ap_db st"] by (simp add: s)
    moreover have "identity_inv (api_crypto a) (api_uuid a) ?s"
      using api_invD(6) [OF inv] identity_inv_cong [of ?s "ap_db st"] by (simp add: s)
    moreover have "certificates_current (api_crypto a) (api_uuid a) ?s"
      by (rule certificates_current_mono [OF api_invD(7) [OF inv]]) (simp_all add: s)
    ultimately show ?thesis using acc api_invD(8) [OF inv] by (simp add: api_inv_def db_inv_def)
  qed
qed

interpretation api: service "event_exec a" "\<lambda>e st. event_ok a e st \<and> uuid_laws (api_uuid a)" "api_inv a" for a
proof
  fix st and e :: event
  assume inv: "api_inv a st" and ok: "event_ok a e st \<and> uuid_laws (api_uuid a)"
  show "api_inv a (fst (event_exec a e st))"
  proof (cases e)
    case (Request cl r)
    with serve_keeps [OF _ inv] ok show ?thesis by simp
  next
    case (MaintenancePass pol now)
    with api_tidies [OF inv RunMaintenance_tidies [OF tidies_start [OF inv]]] show ?thesis by simp
  next
    case (AdminCommand now c)
    with api_account [OF inv] show ?thesis by simp
  qed
qed


section \<open>A worked example\<close>

text \<open>A server with the vault of \<open>HB_Demo_Store\<close>, a live session on Alice's device, and nobody who failed to sign in.\<close>

definition demo_api :: API where
  "demo_api = \<lparr>api_auth = demo_auth, api_crypto = demo_crypto, api_digest = demo_hash, api_uploads = demo_uploads, api_sync = demo_sync\<rparr>"

definition demo_members :: "user_row list" where
  "demo_members = (demo_user ''alice'')\<lparr>u_role := ''ADMIN''\<rparr> # map demo_user [''bob'', ''carol'']"

definition demo_token_row :: "id \<Rightarrow> id \<Rightarrow> access_token_row" where
  "demo_token_row u d = \<lparr>at_id = u, at_user_id = u, at_device_id = d, at_token_hash = randomToken u, at_created_at = 0, at_expires_at = 1000 * second\<rparr>"

definition demo_live :: db where
  "demo_live = (sv_db demo_store)\<lparr>users := demo_members, access_tokens := [demo_token_row ''alice'' ''a1'', demo_token_row ''bob'' ''b1'']\<rparr>"

definition demo_state :: api_state where
  "demo_state = \<lparr>ap_server = demo_store\<lparr>sv_db := demo_live\<rparr>, ap_login = newAttemptLimiter loginBackoff 1,
     ap_account = newAttemptLimiter accountBackoff maxConcurrentAttemptsPerAccount,
     ap_address = newAttemptLimiter addressBackoff maxConcurrentAttemptsPerAddress\<rparr>"

definition demo_call :: "time \<Rightarrow> call" where
  "demo_call now = \<lparr>cl_now = now, cl_requestID = ''req'', cl_tokens = demo_token ''9'', cl_ids = demo_draws 9\<rparr>"

definition demo_request :: "string \<Rightarrow> string list \<Rightarrow> id \<Rightarrow> json option \<Rightarrow> request" where
  "demo_request method path u body = \<lparr>rq_Method = method, rq_Path = path, rq_Query = (\<lambda>_. []), rq_After = NoCursor,
     rq_Authorization = ''Bearer '' @ randomToken u, rq_RemoteAddr = ''10.0.0.1:4711'', rq_Json = body, rq_Chunk = ChunkUnreadable,
     rq_PathValue = (\<lambda>_. []), rq_UserID = [], rq_DeviceID = []\<rparr>"

lemma demo_live_same: "vault_of demo_live = vault_of (sv_db demo_store)" "favorites demo_live = []" "vault_key_envelopes demo_live = []"
    "recovery_bundles demo_live = []" "refresh_tokens demo_live = []" "devices demo_live = devices demo"
  by (simp add: demo_live_def) (simp_all add: demo_live_def demo_store_def demo_def empty_db_def)

lemma demo_members_facts:
  "map u_id demo_members = [''alice'', ''bob'', ''carol'']" "map u_username_norm demo_members = [''alice'', ''bob'', ''carol'']"
  by (simp_all add: demo_members_def demo_user_def)

lemma demo_tokens_differ: "randomToken ''alice'' \<noteq> randomToken ''bob''"
  by code_simp

lemma demo_accounts_ok: "accounts_inv 5 demo_live"
  by (simp add: accounts_inv_def demo_live_def demo_members_def demo_user_def) code_simp

lemma demo_session_ok: "session_inv demo_live"
  using demo_tokens_differ
  by (simp add: session_inv_def tokens_ok_def owned_device_def demo_live_def demo_store_def demo_token_row_def demo_members_facts demo_defs)

lemma demo_state_inv: "api_inv demo_api demo_state"
proof -
  have users: "users_ok demo_live"
    by (simp add: users_ok_def demo_live_def demo_store_def demo_members_facts demo_defs)
      (simp add: demo_members_def demo_user_def)
  have "system_inv demo_hash (demo_store\<lparr>sv_db := demo_live\<rparr>)"
    by (rule system_inv_session [OF demo_store_system demo_live_same(1) users])
  moreover have "identity_inv demo_crypto demo_uuid demo_live" "favorites_inv demo_live" "certificates_current demo_crypto demo_uuid demo_live"
    by (simp_all add: identity_inv_def certificates_agree_def favorites_inv_def certificates_current_def demo_live_same MaxFavorites_def)
  moreover have "limiters_inv (auth_part demo_state)" by (simp add: limiters_inv_def auth_part_def demo_state_def)
  ultimately show ?thesis using demo_accounts_ok demo_session_ok
    by (simp add: api_inv_def db_inv_def demo_state_def demo_api_def demo_auth_def)
qed

text \<open>Alice adds a folder, a pass of maintenance runs, and the administrator adds an account.\<close>

definition demo_body :: json where
  "demo_body = JObject [(''id'', JString ''new''), (''operationId'', JString ''op9''), (''nodeType'', JString ''DIRECTORY''),
     (''metadataCiphertext'', JString (StdEncode ''m9'')), (''metadataKeyVersion'', JNumber ''1'')]"

definition demo_events :: "event list" where
  "demo_events = [Request (demo_call (500 * second)) (demo_request ''POST'' [''api'', ''v1'', ''nodes''] ''alice'' (Some demo_body)),
     MaintenancePass demo_policy (600 * second), AdminCommand (700 * second) (CreateUserCmd ''dave'' ''salt'' ''dave'' ''another password'')]"

lemma demo_created: "rs_Status (snd (serve demo_api (demo_call (500 * second))
    (demo_request ''POST'' [''api'', ''v1'', ''nodes''] ''alice'' (Some demo_body)) demo_state)) = 201"
  by code_simp

lemma demo_created_id: "created_id (demo_request ''POST'' [''api'', ''v1'', ''nodes''] ''alice'' (Some demo_body)) = Some ''new''"
  by code_simp

lemma demo_events_ok: "run_ok (event_ok demo_api) (event_exec demo_api) demo_events demo_state"
proof -
  have "request_ok demo_api (demo_call (500 * second)) (demo_request ''POST'' [''api'', ''v1'', ''nodes''] ''alice'' (Some demo_body)) demo_state"
    by (simp add: request_ok_def demo_created_id demo_state_def demo_live_same demo_api_def demo_auth_def demo_call_def)
      (simp add: keyed_def demo_draws_def demo_live_def demo_store_def demo_defs)
  then show ?thesis by (simp add: demo_events_def)
qed


end
