(* ===== verification/HB_Api_Props.thy ===== *)
theory HB_Api_Props
  imports HB_Service
begin

text \<open>
  Who gets through to a handler: which route answers a request (\<open>dispatch_exact\<close>), and that nothing is answered without an accepted
  token outside of signing in (\<open>http_requires_token\<close>).
\<close>

section \<open>Dispatch\<close>

text \<open>Two patterns overlap when a path matches both; one is more specific when it has a literal wherever they differ.
  \<open>http.ServeMux\<close> panics when it gets two patterns that overlap and neither of which is more specific.\<close>

definition overlap :: "string list \<Rightarrow> string list \<Rightarrow> bool" where
  "overlap ps qs = list_all2 (\<lambda>p q. p = q \<or> wildcard p \<noteq> None \<or> wildcard q \<noteq> None) ps qs"

definition more_specific :: "string list \<Rightarrow> string list \<Rightarrow> bool" where
  "more_specific ps qs \<longleftrightarrow> ps \<noteq> qs \<and> list_all2 (\<lambda>p q. p = q \<or> wildcard p = None \<and> wildcard q \<noteq> None) ps qs"

definition patterns :: "(string \<times> string list) list" where
  "patterns = map (\<lambda>(m, p, h). (m, segments p)) routes"

definition wild :: "string list \<Rightarrow> nat" where
  "wild ps = length (filter (\<lambda>p. wildcard p \<noteq> None) ps)"

lemma patterns_eq: "patterns =
   (let v = \<lambda>xs. ''api'' # ''v1'' # xs; i = ''{id}'' in
    [(''POST'', v [''auth'', ''login'']), (''POST'', v [''auth'', ''refresh'']), (''POST'', v [''auth'', ''logout'']),
     (''GET'', v [''users'', ''me'']), (''GET'', v [''users'', ''me'', ''recovery'']), (''PUT'', v [''users'', ''me'', ''recovery'']),
     (''GET'', v [''users'', i, ''share-devices'']), (''POST'', v [''shares'']), (''GET'', v [''shares'', ''incoming'']),
     (''GET'', v [''shares'', ''outgoing'']), (''DELETE'', v [''shares'', i]), (''POST'', v [''shares'', i, ''envelopes'']),
     (''GET'', v [''folder-keys'']), (''POST'', v [''nodes'', i, ''folder-keys'']), (''POST'', v [''nodes'', ''rekey'']),
     (''GET'', v [''devices'']), (''DELETE'', v [''devices'', i]), (''POST'', v [''devices'', i, ''key-envelope'']),
     (''GET'', v [''devices'', i, ''key-envelope'']), (''POST'', v [''nodes'']), (''GET'', v [''nodes'', ''children'']),
     (''GET'', v [''nodes'', i]), (''PATCH'', v [''nodes'', i]), (''DELETE'', v [''nodes'', i]), (''POST'', v [''nodes'', i, ''restore'']),
     (''GET'', v [''trash'']), (''DELETE'', v [''trash'', i]), (''GET'', v [''favorites'']), (''PUT'', v [''favorites'', i]),
     (''DELETE'', v [''favorites'', i]), (''GET'', v [''sync'', ''changes'']), (''POST'', v [''uploads'']), (''GET'', v [''uploads'', i]),
     (''PUT'', v [''uploads'', i, ''chunks'', ''{chunkNo}'']), (''POST'', v [''uploads'', i, ''complete'']), (''DELETE'', v [''uploads'', i]),
     (''GET'', v [''files'', i, ''content'']), (''GET'', v [''files'', i, ''versions''])])"
  by code_simp

lemma patterns_apart:
  "list_all (\<lambda>(m, ps). m \<noteq> ''HEAD'' \<and> list_all (\<lambda>(m', qs). m' = m \<and> overlap ps qs \<longrightarrow>
     ps = qs \<or> more_specific ps qs \<and> wild ps < wild qs \<or> more_specific qs ps \<and> wild qs < wild ps) patterns) patterns \<and> distinct patterns \<and>
   list_all (\<lambda>(m, p, h). wildcards p = wild (segments p)) routes"
  unfolding patterns_eq by code_simp

lemma match_pos: "match_path ps xs \<noteq> None \<Longrightarrow> list_all2 (\<lambda>p x. p = x \<or> wildcard p \<noteq> None) ps xs"
  by (induction ps xs rule: match_path.induct) (auto split: option.split_asm if_split_asm)

lemma match_overlap:
  assumes "match_path ps xs \<noteq> None" "match_path qs xs \<noteq> None"
  shows "overlap ps qs"
  using match_pos [OF assms(1)] match_pos [OF assms(2)] unfolding overlap_def list_all2_conv_all_nth by metis

lemma pattern_route: "(m, p, h) \<in> set routes \<Longrightarrow> (m, segments p) \<in> set patterns \<and> m \<noteq> ''HEAD'' \<and> wildcards p = wild (segments p)"
  using patterns_apart by (force simp: patterns_def list_all_iff)

lemma same_method:
  assumes "m \<noteq> ''HEAD''" "m' \<noteq> ''HEAD''" "match_method m method" "match_method m' method"
  shows "m' = m"
  using assms by (auto simp: match_method_def)

lemma patterns_compare:
  assumes "(m, ps) \<in> set patterns" "(m, qs) \<in> set patterns" "overlap ps qs" "wild ps \<le> wild qs"
  shows "ps = qs \<or> more_specific ps qs"
proof -
  from patterns_apart have all: "\<forall>(m, ps)\<in>set patterns. \<forall>(m', qs)\<in>set patterns. m' = m \<and> overlap ps qs \<longrightarrow>
     ps = qs \<or> more_specific ps qs \<and> wild ps < wild qs \<or> more_specific qs ps \<and> wild qs < wild ps"
    by (force simp: list_all_iff)
  from all [rule_format, OF assms(1)] have "\<forall>(m', qs)\<in>set patterns. m' = m \<and> overlap ps qs \<longrightarrow>
     ps = qs \<or> more_specific ps qs \<and> wild ps < wild qs \<or> more_specific qs ps \<and> wild qs < wild ps" by simp
  from this [rule_format, OF assms(2)] assms(3,4) show ?thesis by auto
qed

text \<open>C38: Requests are dispatched unambiguously: no two routes of the API conflict (http.ServeMux would refuse to start), so
  a request is answered by the one route that matches it and is more specific than every other route that does,
  with the values of its wildcards; without one, nothing is done and the answer is 404 or 405.\<close>

theorem dispatch_exact:
  "case mux r of
     Some (vals, h) \<Rightarrow> \<exists>m p. (m, p, h) \<in> set routes \<and> match_method m (rq_Method r) \<and> match_path (segments p) (rq_Path r) = Some vals \<and>
       (\<forall>(m', p', h')\<in>set routes. match_method m' (rq_Method r) \<and> match_path (segments p') (rq_Path r) \<noteq> None \<longrightarrow>
          m' = m \<and> (segments p' = segments p \<or> more_specific (segments p) (segments p')))
   | None \<Rightarrow> (\<forall>(m, p, h)\<in>set routes. \<not> (match_method m (rq_Method r) \<and> match_path (segments p) (rq_Path r) \<noteq> None)) \<and>
       (\<forall>a cl st. fst (serve a cl r st) = st \<and> rs_Status (snd (serve a cl r st)) \<in> {404, 405})"
proof -
  let ?ok = "\<lambda>(m, p, h :: handler). match_method m (rq_Method r) \<and> match_path (segments p) (rq_Path r) \<noteq> None"
  let ?k = "\<lambda>(m :: string, p, h :: handler). wildcards p"
  let ?S = "sort_key ?k (filter ?ok routes)"
  have set: "set ?S = {x \<in> set routes. ?ok x}" by simp
  show ?thesis
  proof (cases ?S)
    case Nil
    then have none: "mux r = None" by (simp add: mux_def)
    have "{x \<in> set routes. ?ok x} = {}" using set unfolding Nil by simp
    then have "\<forall>(m, p, h)\<in>set routes. \<not> (match_method m (rq_Method r) \<and> match_path (segments p) (rq_Path r) \<noteq> None)" by blast
    moreover have "fst (serve a cl r st) = st \<and> rs_Status (snd (serve a cl r st)) \<in> {404, 405}" for a cl st
      by (simp add: serve_def none respond_def)
    ultimately show ?thesis unfolding none by simp
  next
    case (Cons x rest)
    obtain m p h where x: "x = (m, p, h)" by (cases x)
    have "x \<in> set ?S" unfolding Cons by simp
    then have mp: "(m, p, h) \<in> set routes" "match_method m (rq_Method r)" "match_path (segments p) (rq_Path r) \<noteq> None"
      unfolding set x by simp_all
    then obtain vals where vals: "match_path (segments p) (rq_Path r) = Some vals" by blast
    have mux: "mux r = Some (vals, h)" using Cons by (simp add: mux_def x vals)
    have first: "wildcards p \<le> wildcards p'" if "(m', p', h') \<in> set ?S" for m' p' h'
      using sorted_sort_key [of ?k "filter ?ok routes"] that unfolding Cons x by fastforce
    have "m' = m \<and> (segments p' = segments p \<or> more_specific (segments p) (segments p'))"
      if o: "(m', p', h') \<in> set routes" "match_method m' (rq_Method r)" "match_path (segments p') (rq_Path r) \<noteq> None" for m' p' h'
    proof -
      have "(m', p', h') \<in> set ?S" unfolding set using o by simp
      then have "wildcards p \<le> wildcards p'" by (rule first)
      moreover note A = pattern_route [OF mp(1)] pattern_route [OF o(1)]
      moreover have "m' = m" using A same_method [OF _ _ mp(2) o(2)] by simp
      ultimately show ?thesis using patterns_compare [of m "segments p" "segments p'"] match_overlap [OF mp(3) o(3)] by auto
    qed
    then have "\<forall>(m', p', h')\<in>set routes. match_method m' (rq_Method r) \<and> match_path (segments p') (rq_Path r) \<noteq> None \<longrightarrow>
          m' = m \<and> (segments p' = segments p \<or> more_specific (segments p) (segments p'))" by blast
    with mp(1,2) vals show ?thesis unfolding mux option.case prod.case by blast
  qed
qed

theorem dispatch_exact_witness:
  "map_option fst (mux (demo_request ''GET'' [''api'', ''v1'', ''nodes'', ''children''] ''alice'' None)) = Some [] \<and>
   (\<forall>a cl st. rs_Status (snd (serve a cl (demo_request ''PUT'' [''api'', ''v1'', ''nodes''] ''alice'' None) st)) \<in> {404, 405})"
proof
  show "map_option fst (mux (demo_request ''GET'' [''api'', ''v1'', ''nodes'', ''children''] ''alice'' None)) = Some []" by code_simp
  have "map_option fst (mux (demo_request ''PUT'' [''api'', ''v1'', ''nodes''] ''alice'' None)) = None" by code_simp
  then show "\<forall>a cl st. rs_Status (snd (serve a cl (demo_request ''PUT'' [''api'', ''v1'', ''nodes''] ''alice'' None) st)) \<in> {404, 405}"
    using dispatch_exact [of "demo_request ''PUT'' [''api'', ''v1'', ''nodes''] ''alice'' None"] by simp
qed

section \<open>No token, no answer\<close>

definition auth_path :: "string list \<Rightarrow> bool" where
  "auth_path path \<longleftrightarrow> take 3 path = [''api'', ''v1'', ''auth'']"

lemma routes_guarded: "\<forall>(m, p, h)\<in>set routes. take 3 (segments p) = [''api'', ''v1'', ''auth''] \<and> wild (segments p) = 0 \<or> (\<exists>h'. h = authenticated h')"
proof -
  have "take 3 (segments p) = [''api'', ''v1'', ''auth''] \<and> wild (segments p) = 0"
    if "p \<in> {''/api/v1/auth/login'', ''/api/v1/auth/refresh'', ''/api/v1/auth/logout''}" for p
    using that by (elim insertE emptyE; hypsubst) code_simp+
  then show ?thesis unfolding routes_def by (simp only: list.set ball_simps prod.case) blast
qed

lemma Authenticate_errors: "Authenticate svc now s token = Inl e \<Longrightarrow> e \<in> {AuthTokenInvalid, AuthDeviceRevoked}"
  by (auto simp: Authenticate_def split: if_split_asm option.split_asm)

lemma error_status [simp]:
  "rs_Status (writeServiceError cl AuthTokenInvalid) = 401" "rs_Status (writeServiceError cl AuthDeviceRevoked) = 403"
  "rs_Status (writeError cl status code message) = status"
  by (simp_all add: writeServiceError_def writeError_def writeJSON_def respond_def)

lemma authenticated_refuses:
  assumes "\<nexists>ud. Authenticate (api_auth a) (cl_now cl) (ap_db st) (bearerToken r) = Inr ud"
  shows "fst (authenticated h a cl r st) = st" "rs_Status (snd (authenticated h a cl r st)) \<in> {401, 403}"
    "Authenticate (api_auth a) (cl_now cl) (ap_db st') (bearerToken r) = Authenticate (api_auth a) (cl_now cl) (ap_db st) (bearerToken r) \<Longrightarrow>
      snd (authenticated h a cl r st') = snd (authenticated h a cl r st)"
proof -
  obtain e where e: "Authenticate (api_auth a) (cl_now cl) (ap_db st) (bearerToken r) = Inl e" using assms by (metis sumE)
  with Authenticate_errors [OF e]
  show "fst (authenticated h a cl r st) = st" "rs_Status (snd (authenticated h a cl r st)) \<in> {401, 403}"
    "Authenticate (api_auth a) (cl_now cl) (ap_db st') (bearerToken r) = Authenticate (api_auth a) (cl_now cl) (ap_db st) (bearerToken r) \<Longrightarrow>
      snd (authenticated h a cl r st') = snd (authenticated h a cl r st)"
    by (auto simp: authenticated_def Let_def)
qed

lemma bearer_ctx [simp]: "bearerToken (r\<lparr>rq_PathValue := f\<rparr>) = bearerToken r"
  by (simp add: bearerToken_def)

lemma literal_match: "wild ps = 0 \<Longrightarrow> match_path ps xs \<noteq> None \<Longrightarrow> xs = ps"
  using literal_path [of ps xs] by (simp add: wild_def filter_empty_conv)

text \<open>C5: Without an accepted token there is no answer: outside of sign-in, refresh and logout, a request without a token that
  \<open>Authenticate\<close> accepts (an access token of an active account and an unrevoked device, not expired) changes nothing,
  gets a refusal, and the refusal is the same for every content of the server: it tells nothing about the data.\<close>

theorem http_requires_token:
  assumes path: "\<not> auth_path (rq_Path r)"
    and bad: "\<nexists>ud. Authenticate (api_auth a) (cl_now cl) (ap_db st) (bearerToken r) = Inr ud"
  shows "fst (serve a cl r st) = st \<and> rs_Status (snd (serve a cl r st)) \<in> {401, 403, 404, 405} \<and>
    (\<forall>st'. Authenticate (api_auth a) (cl_now cl) (ap_db st') (bearerToken r) = Authenticate (api_auth a) (cl_now cl) (ap_db st) (bearerToken r) \<longrightarrow>
       snd (serve a cl r st') = snd (serve a cl r st))"
proof (cases "mux r")
  case None
  then show ?thesis by (simp add: serve_def respond_def)
next
  case (Some x)
  obtain vals h where x: "mux r = Some (vals, h)" using Some by (cases x) simp
  from mux_route [OF x] obtain m p where mp: "(m, p, h) \<in> set routes" "routed m p (rq_Method r) (rq_Path r)" .
  have "rq_Path r = segments p" if "wild (segments p) = 0" using literal_match [OF that] mp(2) by (simp add: routed_def)
  with path have "\<not> (take 3 (segments p) = [''api'', ''v1'', ''auth''] \<and> wild (segments p) = 0)" by (metis auth_path_def)
  with routes_guarded mp(1) obtain h' where h: "h = authenticated h'" by fastforce
  define r' where "r' = r\<lparr>rq_PathValue := \<lambda>name. case map_of vals name of None \<Rightarrow> [] | Some v \<Rightarrow> v\<rparr>"
  have serve: "serve a cl r st = authenticated h' a cl r' st" for st by (simp add: serve_def x h r'_def)
  have token: "bearerToken r' = bearerToken r" by (simp add: r'_def)
  have bad': "\<nexists>ud. Authenticate (api_auth a) (cl_now cl) (ap_db st) (bearerToken r') = Inr ud" using bad by (simp only: token) simp
  note R = authenticated_refuses [OF bad', where h = h', unfolded token]
  show ?thesis unfolding serve
  proof (intro conjI allI impI)
    show "fst (authenticated h' a cl r' st) = st" by (rule R(1))
    show "rs_Status (snd (authenticated h' a cl r' st)) \<in> {401, 403, 404, 405}" using R(2) by blast
  qed (rule R(3))
qed

lemma demo_token_text [simp]: "randomToken ''alice'' \<noteq> []" "randomToken ''bob'' \<noteq> []"
  by (simp_all add: randomToken_def b64_encode_def)

theorem http_requires_token_witness:
  "rs_Status (snd (serve demo_api (demo_call (2000 * second)) (demo_request ''GET'' [''api'', ''v1'', ''trash''] ''alice'' None) demo_state)) \<in> {401, 403, 404, 405}"
proof -
  have "Authenticate demo_auth (2000 * second) demo_live (randomToken ''alice'') = Inl AuthTokenInvalid"
    by (simp add: Authenticate_def demo_auth_def demo_live_def demo_token_row_def second_def nanos_per_second_def split: option.split)
  then have "\<nexists>ud. Authenticate (api_auth demo_api) (cl_now (demo_call (2000 * second))) (ap_db demo_state)
      (bearerToken (demo_request ''GET'' [''api'', ''v1'', ''trash''] ''alice'' None)) = Inr ud"
    by (simp add: demo_api_def demo_call_def demo_state_def bearerToken_def demo_request_def)
  moreover have "\<not> auth_path (rq_Path (demo_request ''GET'' [''api'', ''v1'', ''trash''] ''alice'' None))"
    by (simp add: auth_path_def demo_request_def)
  ultimately show ?thesis by (intro http_requires_token [THEN conjunct2, THEN conjunct1])
qed

end
