(* ===== verification/HB_Api_Answers.thy ===== *)
theory HB_Api_Answers
  imports HB_Api_Props
begin

text \<open>
  What an answer says about the request: one with an error status has left the database as it was
  (\<open>http_errors_change_nothing\<close>), and ciphertext of files is in no answer but that of the content handler, for
  those who may read the file (\<open>http_content_private\<close>).
\<close>

section \<open>Errors\<close>

definition unchanged :: "api_state \<Rightarrow> api_state \<times> response \<Rightarrow> bool" where
  "unchanged st out \<longleftrightarrow> (400 \<le> rs_Status (snd out) \<longrightarrow> ap_db (fst out) = ap_db st)"

lemma status_simps [simp]:
  "rs_Status (writeJSON status body) = status" "rs_Status noContent = 204" "rs_Status (writeNodes ns) = 200" "rs_Status (writeShares ss) = 200"
  by (simp_all add: writeJSON_def respond_def noContent_def writeNodes_def writeShares_def)

lemma unchanged_ret [simp]: "unchanged st (st, resp)"
  by (simp add: unchanged_def)

lemma unchanged_check: "(\<And>x. m = Inr x \<Longrightarrow> unchanged st (k x)) \<Longrightarrow> unchanged st (check st m k)"
  by (cases m) simp_all

lemma unchanged_in_db:
  "(\<And>e. snd q = Inl e \<Longrightarrow> fst q = ap_db st) \<Longrightarrow> (\<And>x. rs_Status (k x) < 400) \<Longrightarrow> unchanged st (in_db cl st q k)"
  by (auto simp: unchanged_def in_db_def served_def split: sum.split_asm) (metis not_le)

lemma unchanged_in_server:
  "(\<And>e. snd q = Inl e \<Longrightarrow> sv_db (fst q) = ap_db st) \<Longrightarrow> (\<And>x. rs_Status (k x) < 400) \<Longrightarrow> unchanged st (in_server cl st q k)"
  by (auto simp: unchanged_def in_server_def served_def split: sum.split_asm) (metis not_le)

lemma unchanged_state: "fst out = st \<Longrightarrow> unchanged st out"
  by (simp add: unchanged_def)

definition harmless :: "handler \<Rightarrow> bool" where
  "harmless h \<longleftrightarrow> (\<forall>a cl r st. uuid_laws (api_uuid a) \<longrightarrow> api_inv a st \<longrightarrow> request_ok a cl r st \<longrightarrow> unchanged st (h a cl r st))"

lemma harmlessI:
  "(\<And>a cl r st. uuid_laws (api_uuid a) \<Longrightarrow> api_inv a st \<Longrightarrow> request_ok a cl r st \<Longrightarrow> unchanged st (h a cl r st)) \<Longrightarrow> harmless h"
  by (simp add: harmless_def)

lemma harmless_read: "(\<And>a cl r st. fst (h a cl r st) = st) \<Longrightarrow> harmless h"
  by (simp add: harmless_def unchanged_state)

lemma harmless_authenticated:
  assumes "harmless h"
  shows "harmless (authenticated h)"
proof (rule harmlessI)
  fix a :: API and cl r st
  assume r: "uuid_laws (api_uuid a)" "api_inv a st" "request_ok a cl r st"
  have "unchanged st (h a cl (r\<lparr>rq_UserID := u, rq_DeviceID := d\<rparr>) st)" for u d
    using assms r by (simp add: harmless_def)
  then show "unchanged st (authenticated h a cl r st)" by (simp add: authenticated_def Let_def split: sum.split prod.split)
qed

lemmas harmless_reads = read_handlers [THEN harmless_read] read_listChildren [THEN harmless_read]

text \<open>The services: a call that reports an error leaves the database as it was.\<close>

lemma vault_inv_api: "api_inv a st \<Longrightarrow> vault_inv (ap_db st)"
  using api_invD(1) system_invD(1) by (auto simp: server_inv_def)

lemma node_errors:
  assumes "vault_inv s" "uuid_laws U"
  shows "snd (Create U now s ci) = Inl e \<Longrightarrow> fst (Create U now s ci) = s"
    "snd (Update U now s ui) = Inl e \<Longrightarrow> fst (Update U now s ui) = s"
    "snd (Delete U now s u d i op v) = Inl e \<Longrightarrow> fst (Delete U now s u d i op v) = s"
    "snd (Restore U now s u d i op) = Inl e \<Longrightarrow> fst (Restore U now s u d i op) = s"
    "snd (Rekey U now s rk) = Inl e \<Longrightarrow> fst (Rekey U now s rk) = s"
proof -
  note F = node_service.fail_frame [OF conjI [OF assms]]
  show "snd (Create U now s ci) = Inl e \<Longrightarrow> fst (Create U now s ci) = s"
    "snd (Update U now s ui) = Inl e \<Longrightarrow> fst (Update U now s ui) = s"
    "snd (Delete U now s u d i op v) = Inl e \<Longrightarrow> fst (Delete U now s u d i op v) = s"
    "snd (Restore U now s u d i op) = Inl e \<Longrightarrow> fst (Restore U now s u d i op) = s"
    "snd (Rekey U now s rk) = Inl e \<Longrightarrow> fst (Rekey U now s rk) = s"
    using F [of "(now, CreateCmd ci)" e] F [of "(now, UpdateCmd ui)" e] F [of "(now, DeleteCmd u d i op v)" e]
      F [of "(now, RestoreCmd u d i op)" e] F [of "(now, RekeyCmd rk)" e] by simp_all
qed

lemma upload_errors:
  "snd (CreateUpload U svc now i sv inp) = Inl e \<Longrightarrow> sv_db (fst (CreateUpload U svc now i sv inp)) = sv_db sv"
  "snd (PutChunk U H now sv u d i no x) = Inl e \<Longrightarrow> sv_db (fst (PutChunk U H now sv u d i no x)) = sv_db sv"
  "snd (AbortUpload U sv u d i) = Inl e \<Longrightarrow> sv_db (fst (AbortUpload U sv u d i)) = sv_db sv"
  "snd (CompleteUpload U H svc now sv i co) = Inl e \<Longrightarrow> sv_db (fst (CompleteUpload U H svc now sv i co)) = sv_db sv"
proof -
  show "snd (CreateUpload U svc now i sv inp) = Inl e \<Longrightarrow> sv_db (fst (CreateUpload U svc now i sv inp)) = sv_db sv"
    by (auto simp: CreateUpload_def split: sum.split_asm sum.split)
  show "sv_db (fst (PutChunk U H now sv u d i no x)) = sv_db sv" if "snd (PutChunk U H now sv u d i no x) = Inl e"
    using that by (cases rule: PutChunk_cases [OF surjective_pairing [of "PutChunk U H now sv u d i no x"]]) auto
  show "snd (AbortUpload U sv u d i) = Inl e \<Longrightarrow> sv_db (fst (AbortUpload U sv u d i)) = sv_db sv"
    by (auto simp: AbortUpload_def split: sum.split_asm sum.split)
  show "snd (CompleteUpload U H svc now sv i co) = Inl e \<Longrightarrow> sv_db (fst (CompleteUpload U H svc now sv i co)) = sv_db sv"
    by (auto simp: CompleteUpload_def complete_cleanup_def Let_def split: sum.split_asm prepared.split_asm prod.split_asm completion.split_asm)
qed

lemma purge_errors:
  assumes inv: "vault_inv (sv_db sv)" and e: "snd (PurgeTrashEntry U now sv u i) = Inl e"
  shows "sv_db (fst (PurgeTrashEntry U now sv u i)) = sv_db sv"
proof (cases "node_of (sv_db sv) i")
  case (Some n)
  show ?thesis
  proof (cases "n_deleted_at n")
    case (Some t)
    have "in_trash (sv_db sv) i t" unfolding in_trash_def using \<open>node_of (sv_db sv) i = Some n\<close> Some by (auto dest: node_of_Some)
    then show ?thesis using e
      by (auto simp: PurgeTrashEntry_def \<open>node_of (sv_db sv) i = Some n\<close> Some sbind_def purgeSubtree_eq [OF inv] split: if_split_asm)
  qed (simp add: PurgeTrashEntry_def Some)
qed (simp add: PurgeTrashEntry_def)

lemma session_errors:
  "snd (Logout svc now s token) \<noteq> Inl e"
  "snd (RevokeDevice now s u d) = Inl e \<Longrightarrow> fst (RevokeDevice now s u d) = s"
  by (auto simp: Logout_def RevokeDevice_def Let_def split: option.split if_split_asm)

lemma RecordSync_errors:
  assumes inv: "session_inv s" and e: "snd (RecordSync now s u d) = Inl e"
  shows "fst (RecordSync now s u d) = s"
proof -
  let ?live = "\<lambda>x. d_id x = d \<and> d_user_id x = u \<and> d_revoked_at x = None"
  have d: "distinct (map d_id (devices s))" using inv by (simp add: session_inv_def tokens_ok_def)
  have "count_rows ?live (devices s) = 1" if "find ?live (devices s) = Some x" for x
  proof -
    have "card {y \<in> set (devices s). ?live y} = 1"
    proof -
      have X: "x \<in> set (devices s)" "?live x" using find_SomeD [OF that] by blast+
      have one: "y = x" if "y \<in> set (devices s)" "?live y" for y
        by (rule distinct_map_eq [OF d that(1) X(1)]) (simp only: X(2) that(2))
      have "y \<in> {y \<in> set (devices s). ?live y} \<longleftrightarrow> y \<in> {x}" for y using one [of y] X by auto
      then have "{y \<in> set (devices s). ?live y} = {x}" by (rule set_eqI)
      then show ?thesis by simp
    qed
    moreover have "count_rows ?live (devices s) = card (set (filter ?live (devices s)))"
      unfolding count_rows_def by (rule distinct_card [symmetric]) (use d in \<open>simp add: distinct_map\<close>)
    ultimately show ?thesis by simp
  qed
  then show ?thesis using e by (auto simp: RecordSync_def Let_def split: option.split_asm if_split_asm)
qed

lemma Refresh_errors:
  assumes "snd (Refresh svc draws now s token) = Inl e"
  shows "fst (Refresh svc draws now s token) = s \<or> (\<exists>d. fst (Refresh svc draws now s token) = revokeDeviceTokens s d now)"
proof -
  have "fst (reissue svc draws now s u d) = s" if "snd (reissue svc draws now s u d) = Inl e" for u d
    using reissue_Inl [of svc draws now s u d] that by (metis prod.collapse)
  with assms show ?thesis by (auto simp: Refresh_def split: option.split_asm if_split_asm)
qed

lemma login_attempt_errors:
  "snd (login_attempt svc draws now au addr norm pw reg) = Inl e \<Longrightarrow>
    au_db (fst (login_attempt svc draws now au addr norm pw reg)) = au_db au"
  by (cases rule: login_attempt_cases [of au norm svc draws now addr pw reg]) (simp_all add: login_failed_def)

lemma Login_errors:
  assumes "snd (Login svc draws now au addr name pw reg) = Inl e"
  shows "au_db (fst (Login svc draws now au addr name pw reg)) = au_db au"
proof -
  have admit: "au_db (fst (login_admit au now addr norm)) = au_db au" for norm by (simp add: login_admit_def Let_def split_def)
  show ?thesis
  proof (cases rule: Login_cases [where name = name and svc = svc and reg = reg and draws = draws and now = now and st = au and addr = addr and pw = pw])
    case (attempt username norm st2 r)
    with assms login_attempt_errors [of svc draws now "fst (login_admit au now addr norm)" addr norm pw reg e] admit
    show ?thesis by (simp add: login_release_def)
  qed (simp_all add: admit)
qed

section \<open>The handlers\<close>

lemma harmless_nodes: "harmless createNode" "harmless updateNode" "harmless deleteNode" "harmless restoreNode" "harmless rekeyNodes"
  by (rule harmlessI, simp only: createNode_def updateNode_def deleteNode_def restoreNode_def rekeyNodes_def,
      (rule unchanged_check)+, rule unchanged_in_db, erule node_errors [OF vault_inv_api], assumption, assumption, simp)+

lemma sharing_errors:
  assumes "api_inv a st" "uuid_laws (api_uuid a)" "request_ok a cl r st"
  shows "snd (CreateFolderKey (api_uuid a) now (ap_db st) u d i v env) = Inl e \<Longrightarrow> fst (CreateFolderKey (api_uuid a) now (ap_db st) u d i v env) = ap_db st"
    "snd (CreateGrant (api_uuid a) now (cl_ids cl) (ap_db st) g) = Inl e \<Longrightarrow> fst (CreateGrant (api_uuid a) now (cl_ids cl) (ap_db st) g) = ap_db st"
    "snd (AddEnvelopes (api_uuid a) now (cl_ids cl) (ap_db st) u d i es) = Inl e \<Longrightarrow>
      fst (AddEnvelopes (api_uuid a) now (cl_ids cl) (ap_db st) u d i es) = ap_db st"
    "snd (Revoke (api_uuid a) now (ap_db st) u d i) = Inl e \<Longrightarrow> fst (Revoke (api_uuid a) now (ap_db st) u d i) = ap_db st"
proof -
  have "sharing_inv (ap_db st) \<and> uuid_laws (api_uuid a) \<and> draws_ok (api_uuid a) (\<lambda>_. cl_ids cl)"
    using assms vault_inv_api system_invD [OF api_invD(1) [OF assms(1)]] by (simp add: sharing_inv_def draws_ok_def request_ok_def)
  note F = sharing_service.fail_frame [OF this]
  show "snd (CreateFolderKey (api_uuid a) now (ap_db st) u d i v env) = Inl e \<Longrightarrow> fst (CreateFolderKey (api_uuid a) now (ap_db st) u d i v env) = ap_db st"
    "snd (CreateGrant (api_uuid a) now (cl_ids cl) (ap_db st) g) = Inl e \<Longrightarrow> fst (CreateGrant (api_uuid a) now (cl_ids cl) (ap_db st) g) = ap_db st"
    "snd (AddEnvelopes (api_uuid a) now (cl_ids cl) (ap_db st) u d i es) = Inl e \<Longrightarrow>
      fst (AddEnvelopes (api_uuid a) now (cl_ids cl) (ap_db st) u d i es) = ap_db st"
    "snd (Revoke (api_uuid a) now (ap_db st) u d i) = Inl e \<Longrightarrow> fst (Revoke (api_uuid a) now (ap_db st) u d i) = ap_db st"
    using F [of "(now, 0, FolderKeyCmd u d i v env)" e] F [of "(now, 0, GrantCmd g)" e] F [of "(now, 0, EnvelopesCmd u d i es)" e]
      F [of "(now, 0, RevokeCmd u d i)" e] by simp_all
qed

lemma harmless_sharing: "harmless createShare" "harmless addShareEnvelopes" "harmless revokeShare" "harmless createFolderKey"
  by (rule harmlessI, simp only: createShare_def addShareEnvelopes_def revokeShare_def createFolderKey_def,
      (rule unchanged_check)+, rule unchanged_in_db, erule sharing_errors [rotated 3], assumption, assumption, assumption, simp)+

lemma harmless_uploads: "harmless createUpload" "harmless putUploadChunk" "harmless completeUpload" "harmless abortUpload" "harmless purgeTrashEntry"
proof -
  show "harmless createUpload"
    by (rule harmlessI, simp only: createUpload_def, rule unchanged_check)
      (auto split: option.split intro!: unchanged_in_server upload_errors)
  show "harmless putUploadChunk"
    by (rule harmlessI, simp only: putUploadChunk_def, (rule unchanged_check)+)
      (auto split: chunk_body.split intro!: unchanged_in_server upload_errors)
  show "harmless completeUpload"
    by (rule harmlessI, simp only: completeUpload_def, (rule unchanged_check)+, rule unchanged_in_server, erule upload_errors, simp)
  show "harmless abortUpload"
    by (rule harmlessI, simp only: abortUpload_def, (rule unchanged_check)+, rule unchanged_in_server, erule upload_errors, simp)
  show "harmless purgeTrashEntry"
    by (rule harmlessI, simp only: purgeTrashEntry_def, rule unchanged_check, rule unchanged_in_server, rule purge_errors, rule vault_inv_api, assumption+, simp)
qed

lemma committed_errors:
  "snd (committed s r) = Inl e \<Longrightarrow> fst (committed s r) = s" "snd (committed_with s q) = Inl e \<Longrightarrow> fst (committed_with s q) = s"
  by (auto simp: committed_def committed_with_def split: sum.split_asm)

lemma harmless_committed: "harmless addFavorite" "harmless removeFavorite" "harmless putRecoveryBundle" "harmless uploadKeyEnvelope"
proof -
  show "harmless addFavorite" "harmless removeFavorite" "harmless putRecoveryBundle"
    by (rule harmlessI, simp only: addFavorite_def removeFavorite_def putRecoveryBundle_def,
        (rule unchanged_check)+, rule unchanged_in_db, erule committed_errors, simp)+
  show "harmless uploadKeyEnvelope"
    by (rule harmlessI, simp only: uploadKeyEnvelope_def Let_def, intro unchanged_check)
      (auto split: sum.split intro!: unchanged_check unchanged_in_db committed_errors)
qed

lemma harmless_sessions: "harmless login" "harmless logout" "harmless revokeDevice" "harmless syncChanges"
proof -
  show "harmless login"
  proof (rule harmlessI)
    fix a :: API and cl r st
    have "unchanged st (set_auth_part (fst L) st, served cl (snd L) (\<lambda>session. writeJSON 200 (sessionResponse session)))"
      if "L = Login (api_auth a) (cl_tokens cl) (cl_now cl) (auth_part st) addr name pw reg" for L addr name pw reg
      using Login_errors [of "api_auth a" "cl_tokens cl" "cl_now cl" "auth_part st" addr name pw reg]
      by (auto simp: that unchanged_def served_def set_auth_part_def split: sum.split_asm)
    then show "unchanged st (login a cl r st)" unfolding login_def by (intro unchanged_check) (simp add: Let_def split_def)
  qed
  show "harmless logout"
    by (rule harmlessI, simp only: logout_def, rule unchanged_check) (auto simp: unchanged_def Let_def split_def session_errors split: sum.split)
  show "harmless revokeDevice"
    by (rule harmlessI, simp only: revokeDevice_def, rule unchanged_check, rule unchanged_in_db, erule session_errors, simp)
  show "harmless syncChanges"
    by (rule harmlessI, simp only: syncChanges_def, (rule unchanged_check)+)
      (auto split: sum.split intro!: unchanged_in_db RecordSync_errors [OF api_invD(3)])
qed

text \<open>A refused refresh may end the sessions of the device whose token was used a second time; nothing else is changed.\<close>

definition refresh_path :: "request \<Rightarrow> bool" where
  "refresh_path r \<longleftrightarrow> rq_Path r = [''api'', ''v1'', ''auth'', ''refresh'']"

lemma segments_refresh: "segments ''/api/v1/auth/refresh'' = [''api'', ''v1'', ''auth'', ''refresh'']"
  by code_simp

lemma refresh_unchanged:
  "400 \<le> rs_Status (snd (refresh a cl r st)) \<Longrightarrow> ap_db (fst (refresh a cl r st)) = ap_db st \<or>
    (\<exists>d. ap_db (fst (refresh a cl r st)) = revokeDeviceTokens (ap_db st) d (cl_now cl))"
proof (cases "decodeJSON cl r read_refreshTokenRequest zero_refreshTokenRequest")
  case (Inr req)
  assume "400 \<le> rs_Status (snd (refresh a cl r st))"
  then obtain e where "snd (Refresh (api_auth a) (cl_tokens cl) (cl_now cl) (ap_db st) (rr_RefreshToken req)) = Inl e"
    by (auto simp: refresh_def Inr in_db_def served_def split: sum.split_asm)
  from Refresh_errors [OF this] show ?thesis by (simp add: refresh_def Inr in_db_def)
qed (simp add: refresh_def)

lemma harmless_routes: "\<forall>(m, p, h)\<in>set routes. p = ''/api/v1/auth/refresh'' \<and> h = refresh \<or> harmless h"
proof -
  note all = harmless_reads harmless_nodes harmless_sharing harmless_uploads harmless_committed harmless_sessions
  show ?thesis unfolding routes_def
    by (simp only: list.set ball_simps prod.case)
      (simp add: all harmless_authenticated)
qed

text \<open>C8: An error has changed nothing: whatever the request, if its answer has an error status, the database is as it was before.
  Only a refused refresh may have ended the sessions of one device, the device whose old token came back (\<open>refresh_reuse\<close>).\<close>

theorem http_errors_change_nothing:
  assumes "api_inv a st" "uuid_laws (api_uuid a)" "request_ok a cl r st" and err: "400 \<le> rs_Status (snd (serve a cl r st))"
  shows "ap_db (fst (serve a cl r st)) = ap_db st \<or>
    refresh_path r \<and> (\<exists>d. ap_db (fst (serve a cl r st)) = revokeDeviceTokens (ap_db st) d (cl_now cl))"
proof (cases "mux r")
  case None
  then show ?thesis by (simp add: serve_def)
next
  case (Some x)
  obtain vals h where x: "mux r = Some (vals, h)" using Some by (cases x) simp
  from mux_route [OF x] obtain m p where mp: "(m, p, h) \<in> set routes" "routed m p (rq_Method r) (rq_Path r)" .
  define r' where "r' = r\<lparr>rq_PathValue := \<lambda>name. case map_of vals name of None \<Rightarrow> [] | Some v \<Rightarrow> v\<rparr>"
  have serve: "serve a cl r st = h a cl r' st" by (simp add: serve_def x r'_def)
  have "request_ok a cl r' st" using assms(3) by (simp add: r'_def)
  moreover from harmless_routes mp(1) have "p = ''/api/v1/auth/refresh'' \<and> h = refresh \<or> harmless h" by blast
  ultimately show ?thesis
  proof (elim disjE)
    assume ok: "request_ok a cl r' st" and "harmless h"
    then have "unchanged st (h a cl r' st)" using assms(1,2) by (simp add: harmless_def)
    with err show ?thesis by (simp add: serve unchanged_def)
  next
    assume "p = ''/api/v1/auth/refresh'' \<and> h = refresh"
    then have "refresh_path r" "h = refresh"
      using mp(2) literal_match [of "segments ''/api/v1/auth/refresh''" "rq_Path r"]
      by (simp_all add: routed_def refresh_path_def segments_refresh wild_def wildcard_def)
    then show ?thesis using refresh_unchanged [of a cl r' st] err by (simp add: serve)
  qed
qed

section \<open>Content\<close>

text \<open>Answers without ciphertext.\<close>

definition plain :: "response \<Rightarrow> bool" where
  "plain resp \<longleftrightarrow> (case rs_Payload resp of StreamPayload c \<Rightarrow> False | _ \<Rightarrow> True)"

lemma plain_simps [simp]:
  "plain (writeJSON status body)" "plain noContent" "plain (writeError cl status code message)" "plain (writeNodes ns)" "plain (writeShares ss)"
  "plain (respond status (TextPayload text))" "plain (writeInternalError cl message)"
  by (simp_all add: plain_def writeJSON_def respond_def noContent_def writeError_def writeNodes_def writeShares_def writeInternalError_def)

lemma plain_error [simp]: "plain (writeServiceError cl e)"
  by (simp add: writeServiceError_def split: err.split)

lemma plain_after [simp]: "plain (resp\<lparr>rs_NextAfter := x\<rparr>) = plain resp"
  by (simp add: plain_def)

lemma plain_served [intro!]: "(\<And>x. plain (k x)) \<Longrightarrow> plain (served cl r k)"
  by (cases r) (simp_all add: served_def)

lemma plain_steps [simp]:
  "snd (in_db cl st q k) = served cl (snd q) k" "snd (in_server cl st v k') = served cl (snd v) k'"
  by (simp_all add: in_db_def in_server_def)

definition plain_stop :: "response + 'a \<Rightarrow> bool" where
  "plain_stop m \<longleftrightarrow> (case m of Inl resp \<Rightarrow> plain resp | Inr x \<Rightarrow> True)"

lemma plain_check [intro]: "plain_stop m \<Longrightarrow> (\<And>x. plain (snd (k x))) \<Longrightarrow> plain (snd (check st m k))"
  by (cases m) (simp_all add: plain_stop_def)

lemma plain_bind [intro]: "plain_stop m \<Longrightarrow> (\<And>x. plain_stop (f x)) \<Longrightarrow> plain_stop (resp_bind m f)"
  by (cases m) (simp_all add: plain_stop_def resp_bind_def)

lemma plain_readers [simp, intro]:
  "plain_stop (Inr x)" "plain_stop (decodeJSON cl r rd zero)" "plain_stop (decode64 cl message s)" "plain_stop (pathUUID a cl r name)"
  "plain_stop (pathDeviceID a cl r)" "plain_stop (pathInt cl r name)" "plain_stop (queryInt64 cl r name def)" "plain_stop (queryInt cl r name def)"
  "plain_stop (Inl (writeError cl status code message))"
  by (simp_all add: plain_stop_def decodeJSON_def decode64_def pathUUID_def pathDeviceID_def pathInt_def queryInt64_def queryInt_def Let_def
      split: option.split)

lemma plain_versions [simp, intro]: "plain_stop (decode_versions cl vs)"
  by (induction vs) (auto intro!: plain_bind)

lemma plain_items [simp, intro]: "plain_stop (decode_items cl is)"
  by (induction "is") (auto intro!: plain_bind)

lemma plain_envelopes [simp, intro]: "plain_stop (decodeShareEnvelopes cl es)"
  by (induction es) (auto split: option.split intro!: plain_bind)

definition ciphertext_free :: "handler \<Rightarrow> bool" where
  "ciphertext_free h \<longleftrightarrow> (\<forall>a cl r st. plain (snd (h a cl r st)))"

lemma free_authenticated: "ciphertext_free h \<Longrightarrow> ciphertext_free (authenticated h)"
  by (simp add: ciphertext_free_def authenticated_def Let_def split: sum.split prod.split)

lemma free_sessions:
  "ciphertext_free login" "ciphertext_free refresh" "ciphertext_free logout" "ciphertext_free getMe" "ciphertext_free revokeDevice"
  "ciphertext_free listShareDevices" "ciphertext_free listDevices" "ciphertext_free syncChanges"
  by (auto simp: ciphertext_free_def login_def refresh_def logout_def getMe_def revokeDevice_def listShareDevices_def listDevices_def
      syncChanges_def Let_def split_def split: sum.split intro!: plain_check)

lemma free_nodes:
  "ciphertext_free createNode" "ciphertext_free getNode" "ciphertext_free listTrash" "ciphertext_free updateNode" "ciphertext_free rekeyNodes"
  "ciphertext_free deleteNode" "ciphertext_free restoreNode" "ciphertext_free listChildren"
  by (auto simp: ciphertext_free_def createNode_def getNode_def listTrash_def updateNode_def rekeyNodes_def deleteNode_def restoreNode_def
      listChildren_def list_page_def Let_def split: option.split cursor.split intro!: plain_check)

lemma free_sharing:
  "ciphertext_free createShare" "ciphertext_free addShareEnvelopes" "ciphertext_free listIncomingShares" "ciphertext_free listOutgoingShares"
  "ciphertext_free revokeShare" "ciphertext_free createFolderKey" "ciphertext_free listFolderKeys" "ciphertext_free uploadKeyEnvelope"
  "ciphertext_free downloadKeyEnvelope"
  by (auto simp: ciphertext_free_def createShare_def addShareEnvelopes_def listIncomingShares_def listOutgoingShares_def revokeShare_def
      createFolderKey_def listFolderKeys_def uploadKeyEnvelope_def downloadKeyEnvelope_def Let_def split: sum.split 
     intro!: plain_check)

lemma free_storage:
  "ciphertext_free createUpload" "ciphertext_free getUpload" "ciphertext_free putUploadChunk" "ciphertext_free completeUpload"
  "ciphertext_free abortUpload" "ciphertext_free listFileVersions" "ciphertext_free listFavorites" "ciphertext_free addFavorite"
  "ciphertext_free removeFavorite" "ciphertext_free purgeTrashEntry" "ciphertext_free getRecoveryBundle" "ciphertext_free putRecoveryBundle"
  by (auto simp: ciphertext_free_def createUpload_def getUpload_def putUploadChunk_def completeUpload_def abortUpload_def listFileVersions_def
      listFavorites_def addFavorite_def removeFavorite_def purgeTrashEntry_def getRecoveryBundle_def putRecoveryBundle_def
      split: option.split chunk_body.split intro!: plain_check)

lemma free_routes: "\<forall>(m, p, h)\<in>set routes. p = ''/api/v1/files/{id}/content'' \<and> h = authenticated downloadFileContent \<or> ciphertext_free h"
  unfolding routes_def
  by (simp only: list.set ball_simps prod.case) (simp add: free_authenticated free_sessions free_nodes free_sharing free_storage)

lemma segments_content: "segments ''/api/v1/files/{id}/content'' = [''api'', ''v1'', ''files'', ''{id}'', ''content'']"
  by code_simp

lemma match_Nil: "match_path [] path = Some vals \<longleftrightarrow> path = [] \<and> vals = []"
  by (cases path) auto

lemma match_Cons: "match_path (p # ps) path = Some vals \<longleftrightarrow> (\<exists>x xs. path = x # xs \<and> (case wildcard p of
    None \<Rightarrow> p = x \<and> match_path ps xs = Some vals
  | Some name \<Rightarrow> x \<noteq> [] \<and> (\<exists>vs. match_path ps xs = Some vs \<and> vals = (name, x) # vs)))"
  by (cases path) (auto split: option.split)

lemma match_content:
  "match_path [''api'', ''v1'', ''files'', ''{id}'', ''content''] path = Some vals \<Longrightarrow>
    \<exists>i. path = [''api'', ''v1'', ''files'', i, ''content''] \<and> vals = [(''id'', i)]"
  by (auto simp: match_Cons match_Nil wildcard_def)

lemma mux_vals:
  assumes "mux r = Some (vals, h)"
  obtains m p where "(m, p, h) \<in> set routes" "match_path (segments p) (rq_Path r) = Some vals"
proof -
  let ?M = "filter (\<lambda>(m, p, h). match_method m (rq_Method r) \<and> match_path (segments p) (rq_Path r) \<noteq> None) routes"
  from assms obtain m p rest where s: "sort_key (\<lambda>(m, p, h). wildcards p) ?M = (m, p, h) # rest"
    and v: "match_path (segments p) (rq_Path r) = Some vals" by (auto simp: mux_def Let_def split: list.split_asm)
  from s have "(m, p, h) \<in> set (sort_key (\<lambda>(m, p, h). wildcards p) ?M)" by simp
  then have "(m, p, h) \<in> set routes" by simp
  then show ?thesis using v by (rule that)
qed

lemma stream_content:
  assumes "served cl (OpenNodeBlob (sv_db sv) i v) (stream_blob cl sv v) = resp" "\<not> plain resp"
  obtains f b c where "f \<in> set (file_versions (sv_db sv))" "f_node_id f = i" "f_id f = v" "b \<in> set (blobs (sv_db sv))" "b_id b = f_blob_id f"
    "file_at (sv_disk sv) (b_storage_rel_path b) = Some c" "rs_Status resp = 200" "rs_Payload resp = StreamPayload c"
    "rs_ETag resp = Some (''\"'' @ v @ ''\"'')"
proof -
  from assms obtain f b where "find (\<lambda>(f, b :: blob_row). f_node_id f = i \<and> f_id f = v) (version_blobs (sv_db sv)) = Some (f, b)"
    and o: "OpenNodeBlob (sv_db sv) i v = Inr (b_storage_rel_path b, b_ciphertext_size b)"
    by (auto simp: served_def OpenNodeBlob_def split: option.split_asm)
  from find_SomeD [OF this(1)] have fb: "f \<in> set (file_versions (sv_db sv))" "b \<in> set (blobs (sv_db sv))" "b_id b = f_blob_id f"
    "f_node_id f = i" "f_id f = v" by (auto simp: version_blobs_def)
  from assms o obtain c where "file_at (sv_disk sv) (b_storage_rel_path b) = Some c" "rs_Status resp = 200"
    "rs_Payload resp = StreamPayload c" "rs_ETag resp = Some (''\"'' @ v @ ''\"'')"
    by (auto simp: served_def stream_blob_def split: option.split_asm if_split_asm)
  with fb show ?thesis by (intro that)
qed

text \<open>C4: Ciphertext goes only to those who may read the file: an answer that carries the bytes of a file was asked for with an
  accepted token, of an account that owns the file or has a live grant on it or a folder above it; the file is not in
  Trash; the bytes are those stored for the version asked for (the current one by default), with its recorded digest,
  under the version's entity tag; and the request changed nothing.\<close>

theorem http_content_private:
  assumes inv: "api_inv a st" and c: "rs_Payload (snd (serve a cl r st)) = StreamPayload content"
  shows "fst (serve a cl r st) = st \<and> rs_Status (snd (serve a cl r st)) = 200 \<and> (\<exists>u d i n f b.
     Authenticate (api_auth a) (cl_now cl) (ap_db st) (bearerToken r) = Inr (u, d) \<and>
     rq_Path r = [''api'', ''v1'', ''files'', i, ''content''] \<and> node_of (ap_db st) i = Some n \<and> n_node_type n = ''FILE'' \<and> n_deleted_at n = None \<and>
     (n_owner_id n = u \<or> (\<exists>sh. nearest_live_share (ap_db st) u i sh)) \<and>
     f \<in> set (file_versions (ap_db st)) \<and> f_node_id f = i \<and>
     Some (f_id f) = (if rq_Query r ''versionId'' = [] then n_current_version_id n else Some (rq_Query r ''versionId'')) \<and>
     b \<in> set (blobs (ap_db st)) \<and> b_id b = f_blob_id f \<and> api_digest a content = b_ciphertext_sha256 b \<and>
     rs_ETag (snd (serve a cl r st)) = Some (''\"'' @ f_id f @ ''\"''))"
proof -
  have not_plain: "\<not> plain (snd (serve a cl r st))" using c by (simp add: plain_def)
  have "mux r \<noteq> None"
  proof
    assume "mux r = None"
    then have "plain (snd (serve a cl r st))" by (simp add: serve_def)
    with not_plain show False ..
  qed
  then obtain vals h where x: "mux r = Some (vals, h)" by auto
  from mux_vals [OF x] obtain m p where mp: "(m, p, h) \<in> set routes" "match_path (segments p) (rq_Path r) = Some vals" .
  have "\<not> ciphertext_free h" using not_plain by (auto simp: serve_def x ciphertext_free_def)
  with free_routes mp(1) have h: "p = ''/api/v1/files/{id}/content''" "h = authenticated downloadFileContent" by blast+
  from match_content [of "rq_Path r" vals] mp(2) obtain i where i: "rq_Path r = [''api'', ''v1'', ''files'', i, ''content'']" "vals = [(''id'', i)]"
    by (auto simp: h segments_content)
  define r' where "r' = r\<lparr>rq_PathValue := \<lambda>name. case map_of vals name of None \<Rightarrow> [] | Some v \<Rightarrow> v\<rparr>"
  have r': "rq_PathValue r' ''id'' = i" "rq_Query r' = rq_Query r" "bearerToken r' = bearerToken r" by (simp_all add: r'_def i)
  have serve: "serve a cl r st = authenticated downloadFileContent a cl r' st" by (simp add: serve_def x h r'_def)
  from not_plain obtain u d where auth: "Authenticate (api_auth a) (cl_now cl) (ap_db st) (bearerToken r) = Inr (u, d)"
    by (auto simp: serve authenticated_def Let_def r' split: if_split_asm sum.split_asm)
  let ?r = "r'\<lparr>rq_UserID := u, rq_DeviceID := d\<rparr>"
  have "bearerToken r \<noteq> []" using auth by (auto simp: Authenticate_def)
  then have out: "serve a cl r st = downloadFileContent a cl ?r st" by (simp add: serve authenticated_def r' auth)
  have path: "pathUUID a cl ?r ''id'' = Inr i"
    using not_plain by (auto simp: out downloadFileContent_def pathUUID_def r' Let_def split: if_split_asm)
  from not_plain obtain node where node: "Get (ap_db st) u i = Inr node"
    by (auto simp: out downloadFileContent_def path served_def split: sum.split_asm)
  let ?w = "rq_Query r ''versionId''"
  from not_plain obtain current where cur: "N_NodeType node = ''FILE''" "\<not> IsDeleted node" "N_CurrentVersionID node = Some current"
    by (auto simp: out downloadFileContent_def path node served_def split: if_split_asm option.split_asm)
  define v where "v = (if ?w = [] then current else ?w)"
  have resp: "serve a cl r st = (st, served cl (OpenNodeBlob (ap_db st) i v) (stream_blob cl (ap_server st) v))"
    using not_plain by (auto simp: out downloadFileContent_def path node served_def [of _ "Inr node"] cur r' Let_def v_def split: if_split_asm)
  from not_plain have "\<not> plain (served cl (OpenNodeBlob (ap_db st) i v) (stream_blob cl (ap_server st) v))" by (simp add: resp)
  from stream_content [OF refl this] obtain f b x where fb: "f \<in> set (file_versions (ap_db st))" "f_node_id f = i" "f_id f = v"
    "b \<in> set (blobs (ap_db st))" "b_id b = f_blob_id f" and x: "file_at (sv_disk (ap_server st)) (b_storage_rel_path b) = Some x"
    and out': "rs_Status (snd (serve a cl r st)) = 200" "rs_Payload (snd (serve a cl r st)) = StreamPayload x"
      "rs_ETag (snd (serve a cl r st)) = Some (''\"'' @ v @ ''\"'')" unfolding resp snd_conv by blast
  from node Get_iff [OF vault_inv_api [OF inv]] obtain n where n: "node_of (ap_db st) i = Some n" "node = scanNode n"
    "n_owner_id n = u \<or> (\<exists>sh. nearest_live_share (ap_db st) u i sh)" by blast
  have "x = content" using c out'(2) by simp
  with x storage_invD(2) [OF system_invD(3) [OF api_invD(1) [OF inv]]] fb(4) have "api_digest a content = b_ciphertext_sha256 b"
    unfolding blobs_stored_def by force
  moreover have "n_node_type n = ''FILE''" "n_deleted_at n = None" "n_current_version_id n = Some current"
    using cur by (simp_all add: n(2) scanNode_def IsDeleted_def)
  ultimately show ?thesis using auth i(1) n(1,3) fb out' unfolding resp fst_conv v_def by (intro conjI refl) (auto intro!: exI)
qed

section \<open>Worked examples\<close>

lemma demo_api_laws: "uuid_laws (api_uuid demo_api)"
  using demo_uuid_laws by (simp add: demo_api_def demo_auth_def)

text \<open>Bob tries to delete Alice's \<open>old\<close> for good, and gets the content of \<open>doc\<close>, which she shares with him.\<close>

definition demo_purge :: request where
  "demo_purge = demo_request ''DELETE'' [''api'', ''v1'', ''trash'', ''old''] ''bob'' None"

lemma demo_purge_refused: "rs_Status (snd (serve demo_api (demo_call (500 * second)) demo_purge demo_state)) = 404"
  by code_simp

theorem http_errors_change_nothing_witness:
  "ap_db (fst (serve demo_api (demo_call (500 * second)) demo_purge demo_state)) = ap_db demo_state"
proof -
  have "request_ok demo_api (demo_call (500 * second)) demo_purge demo_state"
    by (simp add: request_ok_def created_id_def demo_purge_def demo_request_def demo_state_def demo_live_same demo_api_def demo_auth_def demo_call_def)
      (simp add: demo_draws_def)
  from http_errors_change_nothing [OF demo_state_inv demo_api_laws this] demo_purge_refused show ?thesis
    by (simp add: refresh_path_def demo_purge_def demo_request_def)
qed

definition demo_download :: request where
  "demo_download = demo_request ''GET'' [''api'', ''v1'', ''files'', ''doc'', ''content''] ''bob'' None"

lemma demo_downloaded: "rs_Payload (snd (serve demo_api (demo_call (500 * second)) demo_download demo_state)) = StreamPayload ''three''"
  by code_simp

theorem http_content_private_witness:
  "\<exists>u d b. Authenticate demo_auth (500 * second) demo_live (randomToken ''bob'') = Inr (u, d) \<and> b \<in> set (blobs demo_live) \<and>
    b_ciphertext_sha256 b = demo_hash ''three''"
proof -
  have "bearerToken demo_download = randomToken ''bob''" by (simp add: bearerToken_def demo_download_def demo_request_def)
  with http_content_private [OF demo_state_inv demo_downloaded] show ?thesis
    by (auto simp: demo_api_def demo_call_def demo_state_def)
qed

end
