(* ===== verification/HB_Api_Trust.thy ===== *)
theory HB_Api_Trust
  imports HB_Service
begin

text \<open>
  What the certificates served for sharing are worth. A client that shares a folder encrypts its key for the devices
  \<open>listShareDevices\<close> names; the certificates next to them are checked by the client, but the server only ever serves
  certificates that verify for the key it serves with them.
\<close>

text \<open>The pairs of a device and its certificate that \<open>listShareDevices\<close> answers with.\<close>

definition share_devices :: "db \<Rightarrow> id \<Rightarrow> (ShareableDevice \<times> Certification option) list" where
  "share_devices s u = map (\<lambda>d. (d, LatestCertifications s u (sd_ID d))) (ListShareableDevices s u)"

lemma ListShareableDevices_row:
  assumes "d \<in> set (ListShareableDevices s u)"
  obtains x where "x \<in> set (devices s)" "d_id x = sd_ID d" "d_user_id x = u" "d_revoked_at x = None" "d_e2ee_public_key x = sd_PublicKey d"
    "d_e2ee_key_version x = sd_KeyVersion d"
  using assms by (auto simp: ListShareableDevices_def)

lemma LatestCertifications_row:
  assumes "LatestCertifications s u d = Some c"
  obtains e where "e \<in> set (vault_key_envelopes s)" "certified u e" "ve_target_device_id e = d" "row_certification e = Some c"
  using fold_last [OF assms [unfolded LatestCertifications_def]] by auto

lemma served_certificate:
  assumes inv: "db_inv a s" and d: "d \<in> set (ListShareableDevices s u)" and c: "LatestCertifications s u (sd_ID d) = Some c"
  shows "Verify (api_crypto a) (api_uuid a) (cert_AccountPublicKey c) (cert_DeviceSignature c) u (sd_ID d) (sd_KeyVersion d) (sd_PublicKey d)"
proof -
  from ListShareableDevices_row [OF d] obtain x where x: "x \<in> set (devices s)" "d_id x = sd_ID d" "d_user_id x = u"
    "d_e2ee_public_key x = sd_PublicKey d" "d_e2ee_key_version x = sd_KeyVersion d" by metis
  from LatestCertifications_row [OF c] obtain e where e: "e \<in> set (vault_key_envelopes s)" "certified u e" "ve_target_device_id e = sd_ID d"
    "row_certification e = Some c" .
  from inv e(1,2) have "certificate_current (api_crypto a) (api_uuid a) s e" by (auto simp: db_inv_def certificates_current_def certified_def)
  then obtain version key y where y: "y \<in> set (devices s)" "device_key y = (sd_ID d, ve_target_user_id e, version, key)"
    and v: "Verify (api_crypto a) (api_uuid a) (ve_account_identity_public_key e) (ve_device_key_signature e) (ve_target_user_id e) (sd_ID d) version key"
    unfolding certificate_current_def e(3) image_iff by metis
  have "distinct (map d_id (devices s))" using inv by (simp add: db_inv_def session_inv_def tokens_ok_def)
  then have "y = x" by (rule distinct_map_eq [OF _ y(1) x(1)]) (use y(2) x(2) in \<open>simp add: device_key_def\<close>)
  with y(2) x have key: "version = sd_KeyVersion d" "key = sd_PublicKey d" by (simp_all add: device_key_def)
  from e(4) have "cert_AccountPublicKey c = ve_account_identity_public_key e" "cert_DeviceSignature c = ve_device_key_signature e"
    by (auto simp: row_certification_def)
  with v e(2) show ?thesis by (simp add: key certified_def)
qed

lemma served_identity:
  assumes inv: "db_inv a s" and c: "LatestCertifications s u d = Some c" and c': "LatestCertifications s u d' = Some c'"
  shows "cert_AccountPublicKey c' = cert_AccountPublicKey c"
proof -
  from LatestCertifications_row [OF c] obtain e where e: "e \<in> set (vault_key_envelopes s)" "certified u e" "row_certification e = Some c" by blast
  from LatestCertifications_row [OF c'] obtain e' where e': "e' \<in> set (vault_key_envelopes s)" "certified u e'" "row_certification e' = Some c'" by blast
  have "certificates_agree (vault_key_envelopes s)" using inv by (simp add: db_inv_def identity_inv_def)
  from certificates_agreeD [OF this e(1) e'(1) e(2) e'(2)] e(3) e'(3) show ?thesis by (auto simp: row_certification_def)
qed

text \<open>C36: The devices served for sharing are vouched for: after any run of the server, the answer to \<open>share-devices\<close> lists unrevoked
  devices of the account asked about, each certificate in it verifies for the very key and key version served next to
  it, and all of them are signed by one account identity. So the server never hands out a certificate that a correct
  client would refuse, nor one for another key.\<close>

theorem share_devices_certified:
  assumes "api_inv a st0" "uuid_laws (api_uuid a)" "run_ok (event_ok a) (event_exec a) es st0"
    and st: "st = run_cmds (event_exec a) es st0" and ok: "rs_Status (snd (listShareDevices a cl r st)) = 200"
    and u: "u = rq_PathValue r ''id''" and ds: "ds = share_devices (ap_db st) u"
  shows "rs_Payload (snd (listShareDevices a cl r st)) = JsonPayload (JArray (map (\<lambda>(d, c). shareDeviceResponse d c) ds)) \<and> ds \<noteq> [] \<and>
    (\<forall>(d, c)\<in>set ds. (\<exists>x\<in>set (devices (ap_db st)). d_id x = sd_ID d \<and> d_user_id x = u \<and> d_revoked_at x = None) \<and>
       (\<forall>cert. c = Some cert \<longrightarrow> Verify (api_crypto a) (api_uuid a) (cert_AccountPublicKey cert) (cert_DeviceSignature cert)
          u (sd_ID d) (sd_KeyVersion d) (sd_PublicKey d))) \<and>
    (\<forall>(d, c)\<in>set ds. \<forall>(d', c')\<in>set ds. \<forall>cert cert'. c = Some cert \<longrightarrow> c' = Some cert' \<longrightarrow>
       cert_AccountPublicKey cert' = cert_AccountPublicKey cert)"
proof -
  have "run_ok (\<lambda>e st. event_ok a e st \<and> uuid_laws (api_uuid a)) (event_exec a) es st0"
    using assms(3) by (induction es arbitrary: st0) (simp_all add: assms(2))
  from api.inv_run [OF assms(1) this] have inv: "db_inv a (ap_db st)" unfolding st by (rule api_invD)
  have "rs_Payload (snd (listShareDevices a cl r st)) = JsonPayload (JArray (map (\<lambda>(d, c). shareDeviceResponse d c) ds)) \<and> ds \<noteq> []"
    using ok by (cases "pathUUID a cl r ''id''")
      (auto simp: listShareDevices_def pathUUID_def Let_def ds share_devices_def u writeJSON_def respond_def writeError_def split: if_split_asm)
  moreover have "(\<exists>x\<in>set (devices (ap_db st)). d_id x = sd_ID d \<and> d_user_id x = u \<and> d_revoked_at x = None) \<and>
      (\<forall>cert. LatestCertifications (ap_db st) u (sd_ID d) = Some cert \<longrightarrow> Verify (api_crypto a) (api_uuid a) (cert_AccountPublicKey cert)
        (cert_DeviceSignature cert) u (sd_ID d) (sd_KeyVersion d) (sd_PublicKey d))"
    if d: "d \<in> set (ListShareableDevices (ap_db st) u)" for d
    using served_certificate [OF inv d] ListShareableDevices_row [OF d] by metis
  then have "\<forall>(d, c)\<in>set ds. (\<exists>x\<in>set (devices (ap_db st)). d_id x = sd_ID d \<and> d_user_id x = u \<and> d_revoked_at x = None) \<and>
       (\<forall>cert. c = Some cert \<longrightarrow> Verify (api_crypto a) (api_uuid a) (cert_AccountPublicKey cert) (cert_DeviceSignature cert)
          u (sd_ID d) (sd_KeyVersion d) (sd_PublicKey d))" unfolding ds share_devices_def by fastforce
  moreover have "\<forall>(d, c)\<in>set ds. \<forall>(d', c')\<in>set ds. \<forall>cert cert'. c = Some cert \<longrightarrow> c' = Some cert' \<longrightarrow>
       cert_AccountPublicKey cert' = cert_AccountPublicKey cert"
    unfolding ds share_devices_def by (clarsimp, erule (1) served_identity [OF inv])
  ultimately show ?thesis by blast
qed

section \<open>A worked example\<close>

text \<open>Alice's device with a key of full length and a certificate for it.\<close>

definition demo_vouched :: db where
  "demo_vouched = demo_live\<lparr>devices := [(demo_device ''alice'' ''a1'')\<lparr>d_e2ee_public_key := demo_key CHR ''d''\<rparr>], access_tokens := [],
     vault_key_envelopes := [\<lparr>ve_id = ''e1'', ve_vault_id = ''vault'', ve_target_user_id = ''alice'', ve_target_device_id = ''a1'',
       ve_key_version = 1, ve_ciphertext = ''secret'', ve_created_at = 1, ve_revoked_at = None, ve_signature_version = Some 1,
       ve_account_identity_public_key = demo_key CHR ''A'', ve_device_key_signature = demo_key CHR ''A'' @ demo_key CHR ''A''\<rparr>]\<rparr>"

lemma demo_vouched_verifies:
  "Verify demo_crypto demo_uuid (demo_key CHR ''A'') (demo_key CHR ''A'' @ demo_key CHR ''A'') ''alice'' ''a1'' 1 (demo_key CHR ''d'')"
  by (simp add: Verify_def Statement_def demo_crypto_def demo_uuid_def demo_key_def PublicKeySize_def SignatureSize_def)

lemma demo_vouched_inv: "api_inv demo_api (set_db demo_vouched demo_state)"
proof -
  have v: "vault_of demo_vouched = vault_of (sv_db demo_store)" by (simp add: demo_vouched_def demo_live_same)
  have "users_ok demo_vouched"
    by (simp add: users_ok_def demo_vouched_def demo_live_def demo_store_def demo_members_facts demo_defs)
      (simp add: demo_members_def demo_user_def)
  then have "system_inv demo_hash (demo_store\<lparr>sv_db := demo_vouched\<rparr>)" by (rule system_inv_session [OF demo_store_system v])
  moreover have "accounts_inv 5 demo_vouched" using demo_accounts_ok accounts_inv_cong [of demo_vouched demo_live] by (simp add: demo_vouched_def)
  moreover have "session_inv demo_vouched"
    by (simp add: session_inv_def tokens_ok_def demo_vouched_def demo_live_same demo_live_def demo_members_facts demo_store_def demo_def empty_db_def)
  moreover have "identity_inv demo_crypto demo_uuid demo_vouched" "certificates_current demo_crypto demo_uuid demo_vouched" "favorites_inv demo_vouched"
    using demo_vouched_verifies
    by (auto simp: identity_inv_def certificates_agree_def certificate_ok_def certificates_current_def certificate_current_def device_key_def
        favorites_inv_def demo_vouched_def demo_live_same MaxFavorites_def demo_device_def)
  moreover have "limiters_inv (auth_part (set_db demo_vouched demo_state))" by (simp add: limiters_inv_def auth_part_def set_db_def demo_state_def)
  ultimately show ?thesis by (simp add: api_inv_def db_inv_def set_db_def demo_state_def demo_api_def demo_auth_def)
qed

theorem share_devices_certified_witness:
  "\<exists>d c. (d, Some c) \<in> set (share_devices demo_vouched ''alice'') \<and> sd_ID d = ''a1'' \<and>
     Verify demo_crypto demo_uuid (cert_AccountPublicKey c) (cert_DeviceSignature c) ''alice'' (sd_ID d) (sd_KeyVersion d) (sd_PublicKey d)"
proof -
  let ?st = "set_db demo_vouched demo_state"
  let ?r = "(demo_request ''GET'' [] ''bob'' None)\<lparr>rq_PathValue := \<lambda>_. ''alice''\<rparr>"
  have devices: "share_devices demo_vouched ''alice'' = [(\<lparr>sd_ID = ''a1'', sd_Platform = ''OTHER'', sd_PublicKey = demo_key CHR ''d'', sd_KeyVersion = 1\<rparr>,
      Some \<lparr>cert_SignatureVersion = 1, cert_AccountPublicKey = demo_key CHR ''A'', cert_DeviceSignature = demo_key CHR ''A'' @ demo_key CHR ''A''\<rparr>)]"
    by (simp add: share_devices_def ListShareableDevices_def LatestCertifications_def demo_vouched_def demo_live_def demo_members_def demo_user_def
        demo_device_def certified_def row_certification_def)
  then have "rs_Status (snd (listShareDevices demo_api (demo_call 0) ?r ?st)) = 200"
    by (auto simp: listShareDevices_def pathUUID_def canonicalUUID_def demo_api_def demo_auth_def demo_uuid_def share_devices_def
        writeJSON_def respond_def Let_def)
  from share_devices_certified [where es = "[]", OF demo_vouched_inv _ _ _ this refl refl] devices demo_uuid_laws show ?thesis
    by (simp add: demo_api_def demo_auth_def)
qed

end
