(* ===== verification/HB_Transport.thy ===== *)
theory HB_Transport
  imports HB_Uploads HB_Codec
begin

text \<open>
  The server's transport identity: the key file (internal/serveridentity) and the pinning of its fingerprint
  (internal/securetransport). Go's \<open>crypto\<close> packages enter as \<open>pki\<close>: keys, points and certificates are byte strings.
  \<open>identity_laws\<close> is what is used of them: a marshalled key parses back, and a certificate made with a key carries its public
  key. The hexadecimal SHA-256 digest is the function \<open>H\<close> of \<open>HB_Uploads\<close>. The handshake itself is \<open>crypto/tls\<close>'s.
\<close>

section \<open>The identity key\<close>

datatype leaf_key = ECDSAKey bytes | OtherKey

record pki =
  pk_ParseECPrivateKey :: "bytes \<Rightarrow> bytes option"
  pk_MarshalECPrivateKey :: "bytes \<Rightarrow> bytes option"
  pk_PublicKey :: "bytes \<Rightarrow> bytes"
  pk_ECDH :: "bytes \<Rightarrow> bytes option"
  pk_CreateCertificate :: "bytes \<Rightarrow> bytes \<Rightarrow> bytes option"
  pk_ParseCertificate :: "bytes \<Rightarrow> leaf_key option"
  pk_LoadX509KeyPair :: "bytes \<Rightarrow> bytes \<Rightarrow> bytes list option"

record Identity =
  privateKey :: bytes
  fingerprint :: string

definition KeyPath :: string where
  "KeyPath = ''keys/server_identity.key''"

text \<open>\<open>base64.RawStdEncoding\<close>\<close>

definition RawStdEncode :: "bytes \<Rightarrow> string" where "RawStdEncode x = b64_encode std_alphabet x"
definition RawStdDecode :: "string \<Rightarrow> bytes option" where "RawStdDecode s = b64_decode std_alphabet s"

definition FingerprintFromPublicKey :: "pki \<Rightarrow> (bytes \<Rightarrow> string) \<Rightarrow> bytes \<Rightarrow> err + string" where
  "FingerprintFromPublicKey P H pub =
     (case pk_ECDH P pub of None \<Rightarrow> Inl (Internal ''not a valid P-256 point'') | Some point \<Rightarrow> Inr (H point))"

definition newIdentity :: "pki \<Rightarrow> (bytes \<Rightarrow> string) \<Rightarrow> bytes \<Rightarrow> err + Identity" where
  "newIdentity P H key =
     (case FingerprintFromPublicKey P H (pk_PublicKey P key) of
        Inl e \<Rightarrow> Inl (Internal ''invalid server identity key'')
      | Inr fp \<Rightarrow> Inr \<lparr>privateKey = key, fingerprint = fp\<rparr>)"

text \<open>\<open>writeKeyFile\<close> never replaces a key that is there.\<close>

definition writeKeyFile :: "bytes \<Rightarrow> disk \<Rightarrow> disk \<times> (err + unit)" where
  "writeKeyFile data d =
     (if file_at d KeyPath \<noteq> None
      then (d, Inl (Internal ''a server identity key appeared concurrently; refusing to overwrite it''))
      else (write_file KeyPath data d, Inr ()))"

text \<open>\<open>generated\<close> is the key \<open>ecdsa.GenerateKey\<close> draws when there is no key file yet.\<close>

definition LoadOrCreate :: "pki \<Rightarrow> (bytes \<Rightarrow> string) \<Rightarrow> bytes \<Rightarrow> disk \<Rightarrow> disk \<times> (err + Identity)" where
  "LoadOrCreate P H generated d =
     (case file_at d KeyPath of
        Some encoded \<Rightarrow>
          (d, case RawStdDecode encoded of
                None \<Rightarrow> Inl (Internal ''server identity key is invalid'')
              | Some der \<Rightarrow> (case pk_ParseECPrivateKey P der of
                    None \<Rightarrow> Inl (Internal ''server identity key is invalid'')
                  | Some key \<Rightarrow> newIdentity P H key))
      | None \<Rightarrow>
          (case pk_MarshalECPrivateKey P generated of
             None \<Rightarrow> (d, Inl (Internal ''encode server identity''))
           | Some der \<Rightarrow> (case writeKeyFile (RawStdEncode der) d of
                 (d', Inl e) \<Rightarrow> (d', Inl (Internal ''write server identity''))
               | (d', Inr _) \<Rightarrow> (d', newIdentity P H generated))))"

section \<open>Pinning\<close>

definition hex_digit :: "char \<Rightarrow> bool" where
  "hex_digit c \<longleftrightarrow> c \<in> set ''0123456789abcdefABCDEF''"

definition hex_value :: "char \<Rightarrow> nat" where
  "hex_value c = (case index_of (lower_char c) ''0123456789abcdef'' of None \<Rightarrow> 0 | Some v \<Rightarrow> v)"

text \<open>\<open>hex.DecodeString\<close>\<close>

fun hex_decode :: "string \<Rightarrow> bytes option" where
  "hex_decode [] = Some []"
| "hex_decode [x] = None"
| "hex_decode (x # y # xs) =
     (if hex_digit x \<and> hex_digit y then map_option (Cons (char_of (16 * hex_value x + hex_value y))) (hex_decode xs) else None)"

definition selfSignedCertificate :: "pki \<Rightarrow> Identity \<Rightarrow> err + bytes" where
  "selfSignedCertificate P identity =
     (case hex_decode (fingerprint identity) of
        None \<Rightarrow> Inl (Internal ''decode identity fingerprint'')
      | Some octs \<Rightarrow> (case pk_CreateCertificate P (take 8 octs) (privateKey identity) of
            None \<Rightarrow> Inl (Internal ''create self-signed identity certificate'')
          | Some der \<Rightarrow> Inr der))"

text \<open>A TLS configuration of the server: the certificate it presents; every one demands TLS 1.3.\<close>

record tls_config =
  MinVersion :: int
  Certificate :: "bytes list"

definition VersionTLS13 :: int where "VersionTLS13 = 772"

definition BuildTLSConfig :: "pki \<Rightarrow> Identity \<Rightarrow> err + tls_config" where
  "BuildTLSConfig P identity =
     (case selfSignedCertificate P identity of Inl e \<Rightarrow> Inl e
      | Inr cert \<Rightarrow> Inr \<lparr>MinVersion = VersionTLS13, Certificate = [cert]\<rparr>)"

definition LoadOperatorTLSConfig :: "pki \<Rightarrow> (bytes \<Rightarrow> string) \<Rightarrow> bytes \<Rightarrow> bytes \<Rightarrow> err + tls_config \<times> string" where
  "LoadOperatorTLSConfig P H certFile keyFile =
     (case pk_LoadX509KeyPair P certFile keyFile of
        None \<Rightarrow> Inl (Internal ''load operator TLS certificate'')
      | Some certs \<Rightarrow> (case pk_ParseCertificate P (hd certs) of
            None \<Rightarrow> Inl (Internal ''parse operator TLS certificate'')
          | Some OtherKey \<Rightarrow> Inl (Internal ''operator TLS certificate must use an ECDSA P-256 key: clients pin a P-256 public key'')
          | Some (ECDSAKey pub) \<Rightarrow> (case FingerprintFromPublicKey P H pub of
                Inl e \<Rightarrow> Inl (Internal ''operator TLS certificate must use an ECDSA P-256 key'')
              | Inr fp \<Rightarrow> Inr (\<lparr>MinVersion = VersionTLS13, Certificate = certs\<rparr>, fp))))"

text \<open>\<open>serverTLSConfig\<close> of cmd/homebox: the configuration and the fingerprint clients must pin.\<close>

definition serverTLSConfig :: "pki \<Rightarrow> (bytes \<Rightarrow> string) \<Rightarrow> (bytes \<times> bytes) option \<Rightarrow> Identity \<Rightarrow> err + tls_config \<times> string" where
  "serverTLSConfig P H operator identity =
     (case operator of
        Some (certFile, keyFile) \<Rightarrow> LoadOperatorTLSConfig P H certFile keyFile
      | None \<Rightarrow> (case BuildTLSConfig P identity of Inl e \<Rightarrow> Inl e | Inr c \<Rightarrow> Inr (c, fingerprint identity)))"

text \<open>What a client that pins a fingerprint checks of the certificates the server presents (\<open>VerifyPeerCertificate\<close>).\<close>

definition verify_peer :: "pki \<Rightarrow> (bytes \<Rightarrow> string) \<Rightarrow> string \<Rightarrow> bytes list \<Rightarrow> err + unit" where
  "verify_peer P H want rawCerts =
     (if rawCerts = [] then Inl (Internal ''server presented no certificate'')
      else case pk_ParseCertificate P (hd rawCerts) of
        None \<Rightarrow> Inl (Internal ''parse server certificate'')
      | Some OtherKey \<Rightarrow> Inl (Internal ''server certificate is not a recognized P-256 identity certificate'')
      | Some (ECDSAKey pub) \<Rightarrow> (case FingerprintFromPublicKey P H pub of
            Inl e \<Rightarrow> Inl (Internal ''compute server fingerprint'')
          | Inr got \<Rightarrow> if got \<noteq> want
              then Inl (Internal ''SERVER_IDENTITY_CHANGED: server fingerprint does not match the pinned value'') else Inr ()))"

definition PinnedClientConfig :: "pki \<Rightarrow> (bytes \<Rightarrow> string) \<Rightarrow> string \<Rightarrow> err + (bytes list \<Rightarrow> err + unit)" where
  "PinnedClientConfig P H pin =
     (let want = ToLower (TrimSpace pin)
      in if length want \<noteq> 64 then Inl (Internal ''invalid pinned server fingerprint'')
         else case hex_decode want of
           None \<Rightarrow> Inl (Internal ''invalid pinned server fingerprint'')
         | Some _ \<Rightarrow> Inr (verify_peer P H want))"

section \<open>The fingerprint a client pins\<close>

definition identity_laws :: "pki \<Rightarrow> bool" where
  "identity_laws P \<longleftrightarrow> (\<forall>key der. pk_MarshalECPrivateKey P key = Some der \<longrightarrow> pk_ParseECPrivateKey P der = Some key) \<and>
     (\<forall>serial key der. pk_CreateCertificate P serial key = Some der \<longrightarrow> pk_ParseCertificate P der = Some (ECDSAKey (pk_PublicKey P key)))"

text \<open>\<open>hex.EncodeToString\<close> of a SHA-256 digest: 64 lower-case hexadecimal digits.\<close>

definition hex_text :: "string \<Rightarrow> bool" where
  "hex_text s \<longleftrightarrow> length s = 64 \<and> set s \<subseteq> set ''0123456789abcdef''"

lemma RawStd_roundtrip [simp]: "RawStdDecode (RawStdEncode x) = Some x"
  by (simp add: RawStdDecode_def RawStdEncode_def b64_roundtrip)

lemma space_not_hex: "\<forall>e\<in>set space_encodings. e \<noteq> [] \<and> hd e \<notin> set ''0123456789abcdef'' \<and> last e \<notin> set ''0123456789abcdef''"
  by code_simp

lemma hex_trim:
  assumes "set s \<subseteq> set ''0123456789abcdef''"
  shows "TrimSpace s = s"
proof -
  have "take (length e) s \<noteq> e" "length e \<le> length s \<Longrightarrow> drop (length s - length e) s \<noteq> e" if e: "e \<in> set space_encodings" for e
  proof -
    have "\<not> set e \<subseteq> set s" using bspec [OF space_not_hex e] assms hd_in_set [of e] by blast
    then show "take (length e) s \<noteq> e" "length e \<le> length s \<Longrightarrow> drop (length s - length e) s \<noteq> e"
      using set_take_subset [of "length e" s] set_drop_subset [of "length s - length e" s] by auto
  qed
  then have a: "\<forall>e\<in>set space_encodings. take (length e) s \<noteq> e"
    and b: "\<forall>e\<in>set space_encodings. \<not> (length e \<le> length s \<and> drop (length s - length e) s = e)" by blast+
  have "find (\<lambda>e. take (length e) s = e) space_encodings = None" "find (\<lambda>e. length e \<le> length s \<and> drop (length s - length e) s = e) space_encodings = None"
    unfolding find_None_iff using a b by blast+
  then have "strip_space s = None" "strip_space_right s = None" by (simp_all add: strip_space_def strip_space_right_def)
  then show ?thesis unfolding TrimSpace_def by (subst trim_left.simps, simp, subst trim_right.simps, simp)
qed

lemma hex_lower:
  assumes "set s \<subseteq> set ''0123456789abcdef''"
  shows "ToLower s = s"
proof -
  have all: "\<forall>c\<in>set ''0123456789abcdef''. lower_char c = c" by code_simp
  have "lower_char c = c" if "c \<in> set s" for c using bspec [OF all subsetD [OF assms that]] .
  then show ?thesis unfolding ToLower_def by (simp add: map_idI)
qed

lemma hex_decodes: "even (length s) \<Longrightarrow> set s \<subseteq> set ''0123456789abcdef'' \<Longrightarrow> hex_decode s \<noteq> None"
  by (induction s rule: hex_decode.induct) (auto simp: hex_digit_def)

lemma PinnedClientConfig_hex: "hex_text fp \<Longrightarrow> PinnedClientConfig P H fp = Inr (verify_peer P H fp)"
  using hex_decodes [of fp] by (auto simp: PinnedClientConfig_def hex_text_def hex_trim hex_lower Let_def split: option.split)

lemma LoadOrCreate_key:
  assumes L: "identity_laws P" and l: "LoadOrCreate P H g d = (d', Inr i)"
  shows "file_at d2 KeyPath = file_at d' KeyPath \<Longrightarrow> LoadOrCreate P H g2 d2 = (d2, Inr i)" and "newIdentity P H (privateKey i) = Inr i"
proof -
  have "(file_at d2 KeyPath = file_at d' KeyPath \<longrightarrow> LoadOrCreate P H g2 d2 = (d2, Inr i)) \<and> newIdentity P H (privateKey i) = Inr i"
  proof (cases "file_at d KeyPath")
    case None
    with l obtain der where der: "pk_MarshalECPrivateKey P g = Some der" "d' = write_file KeyPath (RawStdEncode der) d" "newIdentity P H g = Inr i"
      by (auto simp: LoadOrCreate_def writeKeyFile_def split: option.split_asm)
    have g: "privateKey i = g" using der(3) by (auto simp: newIdentity_def split: sum.split_asm)
    have "pk_ParseECPrivateKey P der = Some g" using L der(1) by (simp add: identity_laws_def)
    then show ?thesis using der by (simp add: LoadOrCreate_def g)
  next
    case (Some enc)
    with l have same: "d' = d" by (auto simp: LoadOrCreate_def)
    from l Some obtain key where "newIdentity P H key = Inr i" by (auto simp: LoadOrCreate_def split: option.split_asm)
    moreover from this have "privateKey i = key" by (auto simp: newIdentity_def split: sum.split_asm)
    ultimately show ?thesis using l Some by (simp add: LoadOrCreate_def same)
  qed
  then show "file_at d2 KeyPath = file_at d' KeyPath \<Longrightarrow> LoadOrCreate P H g2 d2 = (d2, Inr i)" "newIdentity P H (privateKey i) = Inr i" by simp_all
qed

text \<open>C37: Clients can pin the server: the identity of the first start is that of every later start that finds its key file, whatever
  key could be drawn then; a client that pins the reported fingerprint (typed in any case, with blanks around it) accepts the
  certificates of every such start; and it accepts no certificate chain but one whose leaf carries a P-256 key with
  that very fingerprint.\<close>

theorem identity_pinned_by_clients:
  assumes L: "identity_laws P" and H: "\<forall>x. hex_text (H x)" and first: "LoadOrCreate P H g d = (d', Inr i)"
    and tls: "serverTLSConfig P H None i = Inr (config, fp)" and pin: "ToLower (TrimSpace pin) = fp"
  shows "\<exists>accepts. PinnedClientConfig P H pin = Inr accepts \<and> MinVersion config = VersionTLS13 \<and> accepts (Certificate config) = Inr () \<and>
    (\<forall>g2 d2. file_at d2 KeyPath = file_at d' KeyPath \<longrightarrow> LoadOrCreate P H g2 d2 = (d2, Inr i)) \<and>
    (\<forall>certs. accepts certs = Inr () \<longrightarrow> certs \<noteq> [] \<and>
       (\<exists>pub point. pk_ParseCertificate P (hd certs) = Some (ECDSAKey pub) \<and> pk_ECDH P pub = Some point \<and> H point = fp))"
proof -
  note later = LoadOrCreate_key(1) [OF L first] and i = LoadOrCreate_key(2) [OF L first]
  from i obtain point where point: "pk_ECDH P (pk_PublicKey P (privateKey i)) = Some point" "fingerprint i = H point"
    by (auto simp: newIdentity_def FingerprintFromPublicKey_def split: option.split_asm) (metis Identity.select_convs(2))
  from tls obtain cert where cert: "selfSignedCertificate P i = Inr cert" "config = \<lparr>MinVersion = VersionTLS13, Certificate = [cert]\<rparr>"
    "fp = fingerprint i" by (auto simp: serverTLSConfig_def BuildTLSConfig_def split: sum.split_asm)
  from cert(1) L have leaf: "pk_ParseCertificate P cert = Some (ECDSAKey (pk_PublicKey P (privateKey i)))"
    by (auto simp: selfSignedCertificate_def identity_laws_def split: option.split_asm)
  have "hex_text fp" using H by (simp add: cert(3) point(2))
  then have "PinnedClientConfig P H pin = Inr (verify_peer P H fp)"
    using pin hex_decodes [of fp] by (auto simp: PinnedClientConfig_def hex_text_def Let_def split: option.split)
  moreover have "verify_peer P H fp (Certificate config) = Inr ()"
    by (simp add: verify_peer_def cert(2,3) leaf FingerprintFromPublicKey_def point)
  moreover have "MinVersion config = VersionTLS13" by (simp add: cert(2))
  moreover have "certs \<noteq> [] \<and> (\<exists>pub point. pk_ParseCertificate P (hd certs) = Some (ECDSAKey pub) \<and> pk_ECDH P pub = Some point \<and> H point = fp)"
    if "verify_peer P H fp certs = Inr ()" for certs
    using that by (auto simp: verify_peer_def FingerprintFromPublicKey_def split: if_split_asm option.split_asm leaf_key.split_asm)
  ultimately show ?thesis using later by blast
qed

section \<open>A worked example\<close>

text \<open>A toy package: a key is its own marshalled form, public key, point and certificate; the digest of a key that starts with \<open>k\<close>
  is all zeros.\<close>

definition demo_pki :: pki where
  "demo_pki = \<lparr>pk_ParseECPrivateKey = Some, pk_MarshalECPrivateKey = Some, pk_PublicKey = (\<lambda>k. k), pk_ECDH = Some,
     pk_CreateCertificate = (\<lambda>_ k. Some k), pk_ParseCertificate = (\<lambda>c. Some (ECDSAKey c)), pk_LoadX509KeyPair = (\<lambda>c _. Some [c])\<rparr>"

definition demo_digest :: "bytes \<Rightarrow> string" where
  "demo_digest x = replicate 64 (if take 1 x = ''k'' then CHR ''0'' else CHR ''f'')"

lemma demo_pki_laws: "identity_laws demo_pki" "\<forall>x. hex_text (demo_digest x)"
  by (simp_all add: identity_laws_def demo_pki_def hex_text_def demo_digest_def)

theorem identity_pinned_by_clients_witness:
  "\<exists>accepts. PinnedClientConfig demo_pki demo_digest (replicate 64 CHR ''0'') = Inr accepts \<and> accepts [''key''] = Inr () \<and> accepts [''other''] \<noteq> Inr ()"
proof -
  let ?i = "\<lparr>privateKey = ''key'', fingerprint = demo_digest ''key''\<rparr>"
  have zeros: "demo_digest ''key'' = replicate 64 CHR ''0''" by (simp add: demo_digest_def)
  have first: "LoadOrCreate demo_pki demo_digest ''key'' [] = (write_file KeyPath (RawStdEncode ''key'') [], Inr ?i)"
    by (simp add: LoadOrCreate_def file_at_def writeKeyFile_def newIdentity_def FingerprintFromPublicKey_def demo_pki_def)
  have h: "hex_text (demo_digest ''key'')" using demo_pki_laws(2) by blast
  then obtain x where "hex_decode (demo_digest ''key'') = Some x" using hex_decodes [of "demo_digest ''key''"] by (auto simp: hex_text_def)
  then have tls: "serverTLSConfig demo_pki demo_digest None ?i = Inr (\<lparr>MinVersion = VersionTLS13, Certificate = [''key'']\<rparr>, demo_digest ''key'')"
    by (simp add: serverTLSConfig_def BuildTLSConfig_def selfSignedCertificate_def demo_pki_def)
  have pin: "ToLower (TrimSpace (replicate 64 CHR ''0'')) = demo_digest ''key''"
    using h hex_trim [of "demo_digest ''key''"] hex_lower [of "demo_digest ''key''"] unfolding zeros by (simp only: hex_text_def)
  from identity_pinned_by_clients [OF demo_pki_laws first tls pin] obtain accepts where
    a: "PinnedClientConfig demo_pki demo_digest (replicate 64 CHR ''0'') = Inr accepts" "accepts [''key''] = Inr ()"
    and only: "\<And>certs. accepts certs = Inr () \<Longrightarrow> \<exists>pub point. pk_ParseCertificate demo_pki (hd certs) = Some (ECDSAKey pub) \<and>
      pk_ECDH demo_pki pub = Some point \<and> demo_digest point = demo_digest ''key''" by auto
  have "accepts [''other''] \<noteq> Inr ()" using only [of "[''other'']"] by (auto simp: demo_pki_def demo_digest_def)
  with a show ?thesis by blast
qed

end
