(* ===== verification/HB_Backup.thy ===== *)
theory HB_Backup
  imports HB_Transport HB_Limiter HB_Maintenance
begin

text \<open>
  Backups of the server (internal/backup). A \<open>host\<close> lists directories by absolute path (cleaned, as \<open>filepath.Abs\<close> gives it),
  each a \<open>disk\<close> of regular files with paths relative to it; anything that is not a regular file is refused by the code
  wherever it would be read, as a missing file is. The database is a file of the storage directory here; SQLite enters as
  \<open>sqlite\<close> (\<open>VACUUM INTO\<close>, the two checks, and reading a file back) and the text of the manifest as an encoder and a decoder.

  The staging directory of both operations is a value: it becomes a directory of the host when it is renamed into place, and
  it is removed on every error, so an error leaves the host as it was. Failing system calls are not modelled.
\<close>

section \<open>Data\<close>

record FileInfo =
  fi_Path :: string
  fi_Size :: int
  fi_SHA256 :: string

record Manifest =
  mf_Version :: int
  mf_CreatedAt :: time
  mf_Files :: "FileInfo list"

record sqlite =
  sq_VacuumInto :: "db \<Rightarrow> bytes"
  sq_integrity_check :: "bytes \<Rightarrow> string option"
  sq_foreign_key_check :: "bytes \<Rightarrow> bool option"
  sq_Open :: "bytes \<Rightarrow> db option"

record backup_env =
  be_sqlite :: sqlite
  be_pki :: pki
  be_uuid :: uuid_pkg
  be_hash :: "bytes \<Rightarrow> string"
  be_MarshalIndent :: "Manifest \<Rightarrow> bytes"
  be_Unmarshal :: "bytes \<Rightarrow> Manifest option"

type_synonym path = "string list"
type_synonym host = "(path \<times> disk) list"

definition manifestName :: string where "manifestName = ''manifest.json''"
definition manifestVersion :: int where "manifestVersion = 1"
definition DatabasePath :: string where "DatabasePath = ''database/homebox.db''"
definition ConfigName :: string where "ConfigName = ''config.yaml''"

section \<open>Paths\<close>

text \<open>\<open>filepath.Rel\<close> of two absolute paths; the empty list is the relative path \<open>.\<close>.\<close>

fun strip_common :: "path \<Rightarrow> path \<Rightarrow> path \<times> path" where
  "strip_common (x # xs) (y # ys) = (if x = y then strip_common xs ys else (x # xs, y # ys))"
| "strip_common xs ys = (xs, ys)"

definition Rel :: "path \<Rightarrow> path \<Rightarrow> path" where
  "Rel base target = (case strip_common base target of (b, t) \<Rightarrow> replicate (length b) ''..'' @ t)"

definition pathWithin :: "path \<Rightarrow> path \<Rightarrow> bool" where
  "pathWithin p parent =
     (let relative = Rel parent p
      in relative \<noteq> [] \<and> relative \<noteq> [''..''] \<and> \<not> (length relative > 1 \<and> hd relative = ''..''))"

definition distinctPaths :: "path \<Rightarrow> path \<Rightarrow> bool \<Rightarrow> err + unit" where
  "distinctPaths storagePath otherPath otherIsSource =
     (if storagePath = otherPath \<or> pathWithin otherPath storagePath \<or> (otherIsSource \<and> pathWithin storagePath otherPath)
      then Inl (Internal ''backup and storage paths must not contain one another'') else Inr ())"

definition safeBackupPath :: "uuid_pkg \<Rightarrow> string \<Rightarrow> bool" where
  "safeBackupPath U p \<longleftrightarrow> CHR 0x5C \<notin> set p \<and> prefix ''blobs/'' p \<and> count_list p CHR ''/'' = 1 \<and> suffix ''.hbxblob'' p \<and>
     uuid_Parse U (take (length p - 14) (drop 6 p)) \<noteq> None"

definition safeManifestPath :: "uuid_pkg \<Rightarrow> string \<Rightarrow> bool" where
  "safeManifestPath U p \<longleftrightarrow> p = ConfigName \<or> p = DatabasePath \<or> p = KeyPath \<or> safeBackupPath U p"

text \<open>\<open>os.Stat\<close> finds something at a path: a directory, one above it, or something inside it.\<close>

definition join_path :: "path \<Rightarrow> string" where
  "join_path segs = concat (map (\<lambda>s. ''/'' @ s) segs)"

definition stat :: "host \<Rightarrow> path \<Rightarrow> bool" where
  "stat host p \<longleftrightarrow> (\<exists>(q, d)\<in>set host. prefix p q \<or>
     (prefix q p \<and> (\<exists>f\<in>set d. let rest = drop 1 (join_path (drop (length q) p)) in fst f = rest \<or> prefix (rest @ ''/'') (fst f))))"

section \<open>Files\<close>

definition file_info :: "(bytes \<Rightarrow> string) \<Rightarrow> string \<Rightarrow> bytes \<Rightarrow> FileInfo" where
  "file_info H p c = \<lparr>fi_Path = p, fi_Size = int (length c), fi_SHA256 = H c\<rparr>"

definition hashRegularFile :: "(bytes \<Rightarrow> string) \<Rightarrow> disk \<Rightarrow> string \<Rightarrow> err + FileInfo" where
  "hashRegularFile H d p =
     (case file_at d p of None \<Rightarrow> Inl (Internal ''lstat: no such file'') | Some c \<Rightarrow> Inr (file_info H [] c))"

definition copyRegularFile :: "(bytes \<Rightarrow> string) \<Rightarrow> disk \<Rightarrow> string \<Rightarrow> disk \<Rightarrow> string \<Rightarrow> err + FileInfo \<times> disk" where
  "copyRegularFile H from source to manifestPath =
     (case file_at from source of
        None \<Rightarrow> Inl (Internal ''inspect backup input: no such file'')
      | Some c \<Rightarrow> if file_at to manifestPath \<noteq> None then Inl (Internal ''create backup output: file exists'')
                else Inr (file_info H manifestPath c, write_file manifestPath c to))"

fun copyFiles :: "(bytes \<Rightarrow> string) \<Rightarrow> disk \<Rightarrow> string list \<Rightarrow> disk \<Rightarrow> err + FileInfo list \<times> disk" where
  "copyFiles H from [] to = Inr ([], to)"
| "copyFiles H from (p # ps) to =
     ebind (copyRegularFile H from p to p) (\<lambda>(info, to1).
     ebind (copyFiles H from ps to1) (\<lambda>(infos, to2). Inr (info # infos, to2)))"

section \<open>Verification\<close>

fun verifyFiles :: "uuid_pkg \<Rightarrow> (bytes \<Rightarrow> string) \<Rightarrow> disk \<Rightarrow> string list \<Rightarrow> FileInfo list \<Rightarrow> err + string list" where
  "verifyFiles U H root seen [] = Inr seen"
| "verifyFiles U H root seen (expected # files) =
     (if \<not> safeManifestPath U (fi_Path expected) then Inl (Internal ''unsafe manifest path'')
      else if fi_Path expected \<in> set seen then Inl (Internal ''duplicate manifest path'')
      else ebind (hashRegularFile H root (fi_Path expected)) (\<lambda>info.
        if fi_Size info \<noteq> fi_Size expected \<or> fi_SHA256 info \<noteq> fi_SHA256 expected
        then Inl (Internal ''backup file checksum mismatch'')
        else verifyFiles U H root (fi_Path expected # seen) files))"

fun verifyBlobs :: "uuid_pkg \<Rightarrow> (bytes \<Rightarrow> string) \<Rightarrow> disk \<Rightarrow> blob_row list \<Rightarrow> err + unit" where
  "verifyBlobs U H root [] = Inr ()"
| "verifyBlobs U H root (b # bs) =
     (if \<not> safeBackupPath U (b_storage_rel_path b) then Inl (Internal ''unsafe blob reference'')
      else ebind (hashRegularFile H root (b_storage_rel_path b)) (\<lambda>info.
        if fi_Size info \<noteq> b_ciphertext_size b \<or> fi_SHA256 info \<noteq> b_ciphertext_sha256 b
        then Inl (Internal ''referenced blob checksum mismatch'')
        else verifyBlobs U H root bs))"

text \<open>\<open>verifyStorage\<close> is only reached when the key file is there, so \<open>LoadOrCreate\<close> only reads.\<close>

definition verifyStorage :: "backup_env \<Rightarrow> disk \<Rightarrow> err + unit" where
  "verifyStorage E root =
     (case snd (LoadOrCreate (be_pki E) (be_hash E) [] root) of
        Inl e \<Rightarrow> Inl (Internal ''validate server identity key'')
      | Inr _ \<Rightarrow>
          (case file_at root DatabasePath of
             None \<Rightarrow> Inl (Internal ''list blob references: no such table: blobs'')
           | Some img \<Rightarrow>
               if sq_integrity_check (be_sqlite E) img \<noteq> Some ''ok'' then Inl (Internal ''SQLite integrity check failed'')
               else if sq_foreign_key_check (be_sqlite E) img \<noteq> Some False then Inl (Internal ''SQLite foreign key check failed'')
               else (case sq_Open (be_sqlite E) img of
                   None \<Rightarrow> Inl (Internal ''list blob references'')
                 | Some s \<Rightarrow> verifyBlobs (be_uuid E) (be_hash E) root (blobs s))))"

definition verify_backup :: "backup_env \<Rightarrow> disk \<Rightarrow> Manifest \<Rightarrow> err + unit" where
  "verify_backup E root m =
     ebind (verifyFiles (be_uuid E) (be_hash E) root [] (mf_Files m)) (\<lambda>seen.
       if \<exists>required\<in>{DatabasePath, KeyPath, ConfigName}. required \<notin> set seen
       then Inl (Internal ''backup manifest is missing a required file'')
       else verifyStorage E root)"

section \<open>Creating a backup\<close>

text \<open>\<open>snapshot\<close> is the database at the moment of \<open>VACUUM INTO\<close>; the files are read after it, from \<open>storage\<close>. The server may
  go on meanwhile.\<close>

definition blob_files :: "disk \<Rightarrow> string list" where
  "blob_files storage = map (\<lambda>name. ''blobs/'' @ name) (filter (\<lambda>name. suffix ''.hbxblob'' name) (read_dir ''blobs'' storage))"

definition stage_backup :: "backup_env \<Rightarrow> time \<Rightarrow> db \<Rightarrow> disk \<Rightarrow> bytes \<Rightarrow> err + disk" where
  "stage_backup E now snapshot storage config =
     (let H = be_hash E; d0 = write_file DatabasePath (sq_VacuumInto (be_sqlite E) snapshot) []
      in ebind (hashRegularFile H d0 DatabasePath) (\<lambda>databaseInfo.
         ebind (copyRegularFile H storage KeyPath d0 KeyPath) (\<lambda>(keyInfo, d1).
         ebind (copyRegularFile H [(ConfigName, config)] ConfigName d1 ConfigName) (\<lambda>(configInfo, d2).
         ebind (copyFiles H storage (blob_files storage) d2) (\<lambda>(blobInfos, d3).
         let manifest = \<lparr>mf_Version = manifestVersion, mf_CreatedAt = now,
               mf_Files = databaseInfo\<lparr>fi_Path := DatabasePath\<rparr> # keyInfo # configInfo # blobInfos\<rparr>;
             d4 = write_file manifestName (be_MarshalIndent E manifest) d3
         in ebind (verify_backup E d4 manifest) (\<lambda>_. Inr d4))))))"

definition CreateBackup :: "backup_env \<Rightarrow> time \<Rightarrow> db \<Rightarrow> path \<Rightarrow> bytes option \<Rightarrow> path \<Rightarrow> host \<Rightarrow> host \<times> (err + unit)" where
  "CreateBackup E now snapshot storagePath config destination host =
     (case distinctPaths storagePath destination False of
        Inl e \<Rightarrow> (host, Inl e)
      | Inr _ \<Rightarrow>
          (case map_of host storagePath of
             None \<Rightarrow> (host, Inl (Internal ''read server identity key''))
           | Some storage \<Rightarrow>
               if file_at storage KeyPath = None then (host, Inl (Internal ''read server identity key''))
               else (case config of
                   None \<Rightarrow> (host, Inl (Internal ''read configuration''))
                 | Some c \<Rightarrow>
                     if stat host destination then (host, Inl (Internal ''backup destination already exists''))
                     else (case stage_backup E now snapshot storage c of
                         Inl e \<Rightarrow> (host, Inl e)
                       | Inr staging \<Rightarrow> ((destination, staging) # host, Inr ())))))"

section \<open>Restoring\<close>

definition readManifest :: "backup_env \<Rightarrow> disk \<Rightarrow> err + Manifest" where
  "readManifest E d =
     (case file_at d manifestName of
        None \<Rightarrow> Inl (Internal ''read backup manifest'')
      | Some encoded \<Rightarrow> (case be_Unmarshal E encoded of
            None \<Rightarrow> Inl (Internal ''parse backup manifest'')
          | Some m \<Rightarrow> if mf_Version m \<noteq> manifestVersion \<or> mf_CreatedAt m = zero_time \<or> length (mf_Files m) < 3
              then Inl (Internal ''backup manifest has an unsupported or incomplete format'') else Inr m))"

definition stage_restore :: "backup_env \<Rightarrow> disk \<Rightarrow> err + disk" where
  "stage_restore E source =
     ebind (readManifest E source) (\<lambda>manifest.
     ebind (verify_backup E source manifest) (\<lambda>_.
     ebind (copyFiles (be_hash E) source (filter (\<lambda>p. p \<noteq> ConfigName) (map fi_Path (mf_Files manifest))) []) (\<lambda>(_, staging).
     ebind (verifyStorage E staging) (\<lambda>_. Inr staging))))"

definition RestoreBackup :: "backup_env \<Rightarrow> path \<Rightarrow> path \<Rightarrow> host \<Rightarrow> host \<times> (err + unit)" where
  "RestoreBackup E source storagePath host =
     (case distinctPaths storagePath source True of
        Inl e \<Rightarrow> (host, Inl e)
      | Inr _ \<Rightarrow>
          if stat host storagePath then (host, Inl (Internal ''restore target already exists''))
          else (case map_of host source of
              None \<Rightarrow> (host, Inl (Internal ''read backup manifest''))
            | Some d \<Rightarrow> (case stage_restore E d of
                  Inl e \<Rightarrow> (host, Inl e)
                | Inr staging \<Rightarrow> ((storagePath, staging) # host, Inr ()))))"

section \<open>Paths that are safe\<close>

lemma strip_common_prefix:
  "strip_common base target = (b, t) \<Longrightarrow> \<exists>c. base = c @ b \<and> target = c @ t \<and> (b = [] \<or> t = [] \<or> hd b \<noteq> hd t)"
  by (induction base target arbitrary: b t rule: strip_common.induct) (auto split: if_split_asm intro: exI [of _ "_ # _"])

lemma pathWithin_iff:
  assumes "''..'' \<notin> set p"
  shows "pathWithin p parent \<longleftrightarrow> strict_prefix parent p"
proof -
  obtain b t where bt: "strip_common parent p = (b, t)" by fastforce
  from strip_common_prefix [OF bt] obtain c where c: "parent = c @ b" "p = c @ t" "b = [] \<or> t = [] \<or> hd b \<noteq> hd t" by blast
  have w: "pathWithin p parent \<longleftrightarrow> (let r = replicate (length b) ''..'' @ t in r \<noteq> [] \<and> r \<noteq> [''..''] \<and> \<not> (length r > 1 \<and> hd r = ''..''))"
    by (simp add: pathWithin_def Rel_def bt)
  show ?thesis
  proof (cases b)
    case Nil
    have "hd t \<noteq> ''..''" "t \<noteq> [''..'']" if "t \<noteq> []" using assms c(2) hd_in_set [OF that] by auto
    then show ?thesis unfolding w by (auto simp: Let_def Nil c(1,2) strict_prefix_def)
  next
    case (Cons x b')
    have "\<not> strict_prefix parent p" using c(3) by (auto simp: c(1,2) Cons strict_prefix_def prefix_def)
    moreover have "\<not> pathWithin p parent" unfolding w by (cases b'; cases t) (auto simp: Cons Let_def)
    ultimately show ?thesis by simp
  qed
qed

lemma safe_names: "manifestName \<noteq> ConfigName" "manifestName \<noteq> DatabasePath" "manifestName \<noteq> KeyPath" "ConfigName \<noteq> DatabasePath"
  "ConfigName \<noteq> KeyPath" "DatabasePath \<noteq> KeyPath"
  by (simp_all add: manifestName_def ConfigName_def DatabasePath_def KeyPath_def)

lemma not_blobs: "\<not> prefix ''blobs/'' manifestName" "\<not> prefix ''blobs/'' ConfigName" "\<not> prefix ''blobs/'' DatabasePath"
  "\<not> prefix ''blobs/'' KeyPath"
  by (simp_all add: manifestName_def ConfigName_def DatabasePath_def KeyPath_def)

lemma safe_blob_neq:
  "safeBackupPath U p \<Longrightarrow> p \<noteq> manifestName" "safeBackupPath U p \<Longrightarrow> p \<noteq> ConfigName" "safeBackupPath U p \<Longrightarrow> p \<noteq> DatabasePath"
  "safeBackupPath U p \<Longrightarrow> p \<noteq> KeyPath"
  using not_blobs by (auto simp: safeBackupPath_def)

lemma safe_blob_file:
  assumes "safeBackupPath U p" "file_at storage p \<noteq> None"
  shows "p \<in> set (blob_files storage)"
proof -
  from assms(1) obtain name where p: "p = ''blobs/'' @ name" by (auto simp: safeBackupPath_def prefix_def)
  have "CHR ''/'' \<notin> set name" using assms(1) by (simp add: safeBackupPath_def p count_list_0_iff)
  moreover have "suffix ''.hbxblob'' name"
  proof -
    have "suffix ''.hbxblob'' (''blobs/'' @ name)" using assms(1) by (simp add: safeBackupPath_def p)
    then consider x where "''.hbxblob'' = x @ name" "suffix x ''blobs/''" | "suffix ''.hbxblob'' name" unfolding suffix_append by blast
    then show ?thesis
    proof cases
      case 1
      have "x = []"
      proof (rule ccontr)
        assume x: "x \<noteq> []"
        then have "last x = CHR ''/''" using 1(2) by (auto simp: suffix_def) (metis last.simps last_append list.distinct(1))
        then have "CHR ''/'' \<in> set (x @ name)" using last_in_set [OF x] by simp
        then show False unfolding 1(1) [symmetric] by simp
      qed
      with 1(1) show ?thesis by simp
    qed
  qed
  moreover have "name \<in> set (read_dir ''blobs'' storage)" unfolding read_dir_iff
    using assms(2) \<open>CHR ''/'' \<notin> set name\<close> file_at_Some [of storage p] by (auto simp: p)
  ultimately show ?thesis unfolding blob_files_def p by simp
qed

section \<open>Copying and checking\<close>

lemma copyFiles_ok:
  "copyFiles H from ps to = Inr (infos, to') \<longleftrightarrow> distinct ps \<and> (\<forall>p\<in>set ps. file_at from p \<noteq> None \<and> file_at to p = None) \<and>
     infos = map (\<lambda>p. file_info H p (the (file_at from p))) ps \<and> to' = fold (\<lambda>p. write_file p (the (file_at from p))) ps to"
proof (induction ps arbitrary: to infos to')
  case (Cons p ps)
  show ?case
  proof (cases "file_at from p = None \<or> file_at to p \<noteq> None")
    case True
    then show ?thesis by (auto simp: copyRegularFile_def split: option.split)
  next
    case False
    then obtain c where c: "file_at from p = Some c" "file_at to p = None" by auto
    have "copyFiles H from (p # ps) to = Inr (infos, to') \<longleftrightarrow>
        (\<exists>is. copyFiles H from ps (write_file p c to) = Inr (is, to') \<and> infos = file_info H p c # is)"
      by (auto simp: copyRegularFile_def c)
    then show ?thesis unfolding Cons.IH by (auto simp: c)
  qed
qed auto

lemma file_at_Nil [simp]: "file_at [] p = None"
  by (simp add: file_at_def)

lemma file_at_copied:
  "file_at (fold (\<lambda>p. write_file p (c p)) ps to) q = (if q \<in> set ps then Some (c q) else file_at to q)"
  by (induction ps arbitrary: to) auto

lemma verifyBlobs_ok:
  "verifyBlobs U H root bs = Inr () \<longleftrightarrow> (\<forall>b\<in>set bs. safeBackupPath U (b_storage_rel_path b) \<and>
     (\<exists>c. file_at root (b_storage_rel_path b) = Some c \<and> int (length c) = b_ciphertext_size b \<and> H c = b_ciphertext_sha256 b))"
  by (induction bs) (auto simp: hashRegularFile_def file_info_def ebind_def split: option.split)

lemma verifyFiles_ok:
  "verifyFiles U H root seen fs = Inr seen' \<longleftrightarrow> seen' = rev (map fi_Path fs) @ seen \<and> distinct (map fi_Path fs) \<and> fi_Path ` set fs \<inter> set seen = {} \<and>
     (\<forall>f\<in>set fs. safeManifestPath U (fi_Path f) \<and> (\<exists>c. file_at root (fi_Path f) = Some c \<and> int (length c) = fi_Size f \<and> H c = fi_SHA256 f))"
  by (induction fs arbitrary: seen seen') (auto simp: hashRegularFile_def file_info_def ebind_def split: option.split)

text \<open>What a storage directory holds after a restore: a usable identity and a sound database whose every blob row has its file.\<close>

definition storage_sound :: "backup_env \<Rightarrow> disk \<Rightarrow> Identity \<Rightarrow> db \<Rightarrow> bool" where
  "storage_sound E root i s \<longleftrightarrow> snd (LoadOrCreate (be_pki E) (be_hash E) [] root) = Inr i \<and>
     (\<exists>img. file_at root DatabasePath = Some img \<and> sq_integrity_check (be_sqlite E) img = Some ''ok'' \<and>
        sq_foreign_key_check (be_sqlite E) img = Some False \<and> sq_Open (be_sqlite E) img = Some s) \<and>
     (\<forall>b\<in>set (blobs s). safeBackupPath (be_uuid E) (b_storage_rel_path b) \<and> (\<exists>c. file_at root (b_storage_rel_path b) = Some c \<and>
        int (length c) = b_ciphertext_size b \<and> be_hash E c = b_ciphertext_sha256 b))"

lemma verifyStorage_ok: "verifyStorage E root = Inr () \<longleftrightarrow> (\<exists>i s. storage_sound E root i s)"
  by (auto simp: verifyStorage_def storage_sound_def verifyBlobs_ok split: sum.split option.split)

lemma storage_sound_cong:
  assumes "\<And>p. safeManifestPath (be_uuid E) p \<Longrightarrow> p \<noteq> ConfigName \<Longrightarrow> file_at root' p = file_at root p"
    "file_at root KeyPath \<noteq> None" "storage_sound E root i s"
  shows "storage_sound E root' i s"
proof -
  have names: "file_at root' KeyPath = file_at root KeyPath" "file_at root' DatabasePath = file_at root DatabasePath"
    using assms(1) safe_names by (simp_all add: safeManifestPath_def)
  have "snd (LoadOrCreate (be_pki E) (be_hash E) [] root') = snd (LoadOrCreate (be_pki E) (be_hash E) [] root)"
    using assms(2) names(1) by (auto simp: LoadOrCreate_def)
  moreover have "file_at root' p = file_at root p" if "safeBackupPath (be_uuid E) p" for p
    using assms(1) [of p] that safe_blob_neq by (auto simp: safeManifestPath_def)
  ultimately show ?thesis using assms(3) unfolding storage_sound_def names by auto
qed

definition required_names :: "string set" where
  "required_names = {DatabasePath, KeyPath, ConfigName}"

lemma verify_backup_ok:
  "verify_backup E root m = Inr () \<longleftrightarrow> distinct (map fi_Path (mf_Files m)) \<and> required_names \<subseteq> fi_Path ` set (mf_Files m) \<and>
     (\<forall>f\<in>set (mf_Files m). safeManifestPath (be_uuid E) (fi_Path f) \<and>
        (\<exists>c. file_at root (fi_Path f) = Some c \<and> int (length c) = fi_Size f \<and> be_hash E c = fi_SHA256 f)) \<and>
     (\<exists>i s. storage_sound E root i s)"
  by (auto simp: verify_backup_def verifyFiles_ok verifyStorage_ok required_names_def)

lemma LoadOrCreate_reads:
  "file_at d KeyPath \<noteq> None \<Longrightarrow> LoadOrCreate P H g d = (d, snd (LoadOrCreate P H [] d))"
  by (auto simp: LoadOrCreate_def)

end
