(* ===== verification/HB_Backup_Props.thy ===== *)
theory HB_Backup_Props
  imports HB_Backup HB_System_Props HB_Uploads_Props
begin

text \<open>
  What a backup is worth: \<open>restore_sound\<close> says what any successful restore leaves behind, \<open>backup_restores\<close> that a backup of
  a server in order is complete.
\<close>

section \<open>Whatever is restored is sound\<close>

text \<open>C27: A restore never damages anything and never brings back a damaged server: if it fails, nothing on the host has changed;
  if it succeeds, the target was not there before, no other directory has changed, every file in the target has one of the
  names the server uses (no path of the manifest, however it was forged, leads out of the target) and the bytes of that file in
  the backup, the identity key is valid, the database passes its checks, and every blob it names is there with its
  recorded size and digest.\<close>

theorem restore_sound:
  "case RestoreBackup E source target host of
     (host', Inl e) \<Rightarrow> host' = host
   | (host', Inr _) \<Rightarrow> \<not> stat host target \<and> (\<exists>from D i s. map_of host source = Some from \<and> host' = (target, D) # host \<and>
       (\<forall>p\<in>fst ` set D. safeManifestPath (be_uuid E) p \<and> file_at D p = file_at from p) \<and>
       (\<forall>g. LoadOrCreate (be_pki E) (be_hash E) g D = (D, Inr i)) \<and> storage_sound E D i s)"
proof (cases "RestoreBackup E source target host")
  case (Pair host' res)
  show ?thesis
  proof (cases res)
    case (Inl e)
    with Pair show ?thesis by (auto simp: RestoreBackup_def split: sum.split_asm if_split_asm option.split_asm)
  next
    case (Inr u)
    with Pair obtain d D where new: "\<not> stat host target" and d: "map_of host source = Some d" and D: "stage_restore E d = Inr D"
      and host': "host' = (target, D) # host" by (auto simp: RestoreBackup_def split: sum.split_asm if_split_asm option.split_asm)
    from D obtain m x where v: "verify_backup E d m = Inr ()"
      and copy: "copyFiles (be_hash E) d (filter (\<lambda>p. p \<noteq> ConfigName) (map fi_Path (mf_Files m))) [] = Inr (x, D)" and st: "verifyStorage E D = Inr ()"
      by (auto simp: stage_restore_def)
    let ?ps = "filter (\<lambda>p. p \<noteq> ConfigName) (map fi_Path (mf_Files m))"
    from copy have D': "D = fold (\<lambda>p. write_file p (the (file_at d p))) ?ps []" and there: "\<forall>p\<in>set ?ps. file_at d p \<noteq> None"
      unfolding copyFiles_ok by simp_all
    have at: "file_at D p = (if p \<in> set ?ps then file_at d p else None)" for p
      unfolding D' file_at_copied using there by auto
    have in_D: "p \<in> set ?ps" if "p \<in> fst ` set D" for p
    proof -
      have "file_at D p \<noteq> None" using that by (simp add: file_at_def map_of_eq_None_iff)
      then show ?thesis unfolding at by (simp split: if_split_asm)
    qed
    have files: "\<forall>p\<in>fst ` set D. safeManifestPath (be_uuid E) p \<and> file_at D p = file_at d p"
      using in_D at v [unfolded verify_backup_ok] by fastforce
    have "KeyPath \<in> set ?ps" using v safe_names by (auto simp: verify_backup_ok required_names_def)
    then have key: "file_at D KeyPath \<noteq> None" using at there by auto
    from st obtain i s where s: "storage_sound E D i s" unfolding verifyStorage_ok by blast
    then have "snd (LoadOrCreate (be_pki E) (be_hash E) [] D) = Inr i" by (simp add: storage_sound_def)
    then have loads: "\<forall>g. LoadOrCreate (be_pki E) (be_hash E) g D = (D, Inr i)" by (metis LoadOrCreate_reads [OF key])
    show ?thesis unfolding Pair Inr prod.case sum.case
      by (rule conjI, rule new, rule exI [of _ d], rule exI [of _ D], rule exI [of _ i], rule exI [of _ s], intro conjI,
          rule d, rule host', rule files, rule loads, rule s)
  qed
qed

section \<open>A backup brings the server back\<close>

text \<open>The manifest of a backup, and what is used of SQLite and of \<open>encoding/json\<close>: the copy \<open>VACUUM INTO\<close> writes of a database
  passes the checks and reads back as the same database, and a manifest reads back as written.\<close>

definition manifest_of :: "backup_env \<Rightarrow> time \<Rightarrow> db \<Rightarrow> disk \<Rightarrow> bytes \<Rightarrow> Manifest" where
  "manifest_of E now snapshot storage config =
     (let info = (\<lambda>p. file_info (be_hash E) p (the (file_at storage p)))
      in \<lparr>mf_Version = manifestVersion, mf_CreatedAt = now,
           mf_Files = file_info (be_hash E) DatabasePath (sq_VacuumInto (be_sqlite E) snapshot) # info KeyPath #
             file_info (be_hash E) ConfigName config # map info (blob_files storage)\<rparr>)"

definition backup_laws :: "backup_env \<Rightarrow> db \<Rightarrow> Manifest \<Rightarrow> bool" where
  "backup_laws E s m \<longleftrightarrow> (let img = sq_VacuumInto (be_sqlite E) s in sq_Open (be_sqlite E) img = Some s \<and>
       sq_integrity_check (be_sqlite E) img = Some ''ok'' \<and> sq_foreign_key_check (be_sqlite E) img = Some False) \<and>
     be_Unmarshal E (be_MarshalIndent E m) = Some m"

text \<open>The storage of a running server, with \<open>snapshot\<close> a state of its database whose blobs are still there.\<close>

definition backup_ready :: "backup_env \<Rightarrow> db \<Rightarrow> disk \<Rightarrow> Identity \<Rightarrow> bool" where
  "backup_ready E snapshot storage i \<longleftrightarrow> disk_ok storage \<and> file_at storage KeyPath \<noteq> None \<and> snd (LoadOrCreate (be_pki E) (be_hash E) [] storage) = Inr i \<and>
     (\<forall>p\<in>set (blob_files storage). safeBackupPath (be_uuid E) p) \<and>
     (\<forall>b\<in>set (blobs snapshot). safeBackupPath (be_uuid E) (b_storage_rel_path b) \<and> (\<exists>c. file_at storage (b_storage_rel_path b) = Some c \<and>
        int (length c) = b_ciphertext_size b \<and> be_hash E c = b_ciphertext_sha256 b))"

lemma blob_files_distinct:
  assumes "disk_ok storage"
  shows "distinct (blob_files storage)"
proof -
  let ?in = "\<lambda>p. prefix ''blobs/'' p \<and> CHR ''/'' \<notin> set (drop 6 p)"
  have "inj_on (drop 6) {p. ?in p}" by (auto simp: inj_on_def prefix_def)
  then have "distinct (map (drop 6) (filter ?in (map fst storage)))"
    using assms by (auto simp: distinct_map disk_ok_def inj_on_def)
  moreover have "length ''blobs'' + 1 = (6 :: nat)" "''blobs'' @ ''/'' = ''blobs/''" by simp_all
  ultimately have "distinct (read_dir ''blobs'' storage)" unfolding read_dir_def by (simp only: distinct_sort)
  then show ?thesis by (simp add: blob_files_def distinct_map inj_on_def)
qed

lemma stage_backup_ok:
  assumes L: "backup_laws E snapshot (manifest_of E now snapshot storage config)" and ready: "backup_ready E snapshot storage i"
  obtains D where "stage_backup E now snapshot storage config = Inr D" "file_at D manifestName = Some (be_MarshalIndent E (manifest_of E now snapshot storage config))"
    "verify_backup E D (manifest_of E now snapshot storage config) = Inr ()"
    "\<And>p. p \<noteq> manifestName \<Longrightarrow> file_at D p = (if p = DatabasePath then Some (sq_VacuumInto (be_sqlite E) snapshot)
       else if p = KeyPath then file_at storage KeyPath else if p = ConfigName then Some config
       else if p \<in> set (blob_files storage) then file_at storage p else None)"
proof -
  let ?H = "be_hash E" and ?ps = "blob_files storage"
  define img where "img = sq_VacuumInto (be_sqlite E) snapshot"
  from ready obtain key where key: "file_at storage KeyPath = Some key" by (auto simp: backup_ready_def)
  define d2 where "d2 = write_file ConfigName config (write_file KeyPath key (write_file DatabasePath img []))"
  define d3 where "d3 = fold (\<lambda>p. write_file p (the (file_at storage p))) ?ps d2"
  define m where "m = \<lparr>mf_Version = manifestVersion, mf_CreatedAt = now, mf_Files = file_info ?H DatabasePath img # file_info ?H KeyPath key #
    file_info ?H ConfigName config # map (\<lambda>p. file_info ?H p (the (file_at storage p))) ?ps\<rparr>"
  have m_eq: "m = manifest_of E now snapshot storage config" by (simp add: m_def manifest_of_def img_def key Let_def)
  define D where "D = write_file manifestName (be_MarshalIndent E m) d3"
  note N = safe_names safe_names [symmetric]
  have safe: "\<forall>p\<in>set ?ps. safeBackupPath (be_uuid E) p" and dist: "distinct ?ps"
    using ready blob_files_distinct by (simp_all add: backup_ready_def)
  have there: "file_at storage p \<noteq> None" if "p \<in> set ?ps" for p
  proof -
    have "p \<in> fst ` set storage" using that by (auto simp: blob_files_def read_dir_iff)
    then show ?thesis by (simp add: file_at_def map_of_eq_None_iff)
  qed
  have val: "file_at storage p = Some (the (file_at storage p))" if "p \<in> set ?ps" for p using there [OF that] by simp
  have d2: "file_at d2 p = (if p = DatabasePath then Some img else if p = KeyPath then Some key else if p = ConfigName then Some config else None)" for p
    using N by (auto simp: d2_def)
  have neq: "p \<noteq> DatabasePath" "p \<noteq> KeyPath" "p \<noteq> ConfigName" "p \<noteq> manifestName" if "p \<in> set ?ps" for p
    using safe that safe_blob_neq [of "be_uuid E" p] by auto
  have blobs: "copyFiles ?H storage ?ps d2 = Inr (map (\<lambda>p. file_info ?H p (the (file_at storage p))) ?ps, d3)"
    unfolding copyFiles_ok d3_def using dist there neq by (auto simp: d2)
  have at: "file_at D p = (if p = DatabasePath then Some (sq_VacuumInto (be_sqlite E) snapshot)
       else if p = KeyPath then file_at storage KeyPath else if p = ConfigName then Some config
       else if p \<in> set ?ps then file_at storage p else None)" if "p \<noteq> manifestName" for p
    using that there neq by (auto simp: D_def d3_def file_at_copied d2 key img_def)
  have mf: "file_at D manifestName = Some (be_MarshalIndent E m)" by (simp add: D_def)
  have paths: "map fi_Path (mf_Files m) = DatabasePath # KeyPath # ConfigName # ?ps"
    by (simp add: m_def file_info_def comp_def)
  have sound: "storage_sound E D i snapshot" unfolding storage_sound_def
  proof (intro conjI)
    have "file_at D KeyPath = Some key" using at [of KeyPath] N by (simp add: key)
    then show "snd (LoadOrCreate (be_pki E) (be_hash E) [] D) = Inr i" using ready key by (auto simp: backup_ready_def LoadOrCreate_def)
    have "file_at D DatabasePath = Some img" using at [of DatabasePath] N by (simp add: img_def)
    then show "\<exists>img. file_at D DatabasePath = Some img \<and> sq_integrity_check (be_sqlite E) img = Some ''ok'' \<and>
        sq_foreign_key_check (be_sqlite E) img = Some False \<and> sq_Open (be_sqlite E) img = Some snapshot"
      using L by (simp add: backup_laws_def img_def Let_def)
    show "\<forall>b\<in>set (blobs snapshot). safeBackupPath (be_uuid E) (b_storage_rel_path b) \<and> (\<exists>c. file_at D (b_storage_rel_path b) = Some c \<and>
        int (length c) = b_ciphertext_size b \<and> be_hash E c = b_ciphertext_sha256 b)"
    proof
      fix b assume "b \<in> set (blobs snapshot)"
      with ready obtain c where b: "safeBackupPath (be_uuid E) (b_storage_rel_path b)" "file_at storage (b_storage_rel_path b) = Some c"
        "int (length c) = b_ciphertext_size b" "be_hash E c = b_ciphertext_sha256 b" unfolding backup_ready_def by blast
      then have "b_storage_rel_path b \<in> set ?ps" by (intro safe_blob_file) simp_all
      with b show "safeBackupPath (be_uuid E) (b_storage_rel_path b) \<and> (\<exists>c. file_at D (b_storage_rel_path b) = Some c \<and>
        int (length c) = b_ciphertext_size b \<and> be_hash E c = b_ciphertext_sha256 b)" using at neq by simp
    qed
  qed
  have v: "verify_backup E D m = Inr ()" unfolding verify_backup_ok
  proof (intro conjI)
    show "distinct (map fi_Path (mf_Files m))" unfolding paths using dist neq N by auto
    have "set (map fi_Path (mf_Files m)) = {DatabasePath, KeyPath, ConfigName} \<union> set ?ps" unfolding paths by auto
    then show "required_names \<subseteq> fi_Path ` set (mf_Files m)" by (simp add: required_names_def)
    show "\<forall>f\<in>set (mf_Files m). safeManifestPath (be_uuid E) (fi_Path f) \<and>
        (\<exists>c. file_at D (fi_Path f) = Some c \<and> int (length c) = fi_Size f \<and> be_hash E c = fi_SHA256 f)"
      using N safe val neq at by (auto simp: m_def file_info_def safeManifestPath_def key img_def)
    show "\<exists>i s. storage_sound E D i s" using sound by blast
  qed
  have "stage_backup E now snapshot storage config = Inr D"
    using N v blobs
    by (simp add: stage_backup_def Let_def hashRegularFile_def copyRegularFile_def key file_at_def [of "[(ConfigName, config)]"]
        file_info_def img_def [symmetric] d2_def [symmetric] m_def D_def)
  then show ?thesis using mf v at unfolding m_eq by (rule that)
qed

lemma stage_restore_ok:
  assumes L: "backup_laws E snapshot (manifest_of E now snapshot storage config)" and now: "now \<noteq> zero_time" and ready: "backup_ready E snapshot storage i"
    and D: "stage_backup E now snapshot storage config = Inr D"
  obtains D' where "stage_restore E D = Inr D'" "file_at D' DatabasePath = Some (sq_VacuumInto (be_sqlite E) snapshot)"
    "file_at D' KeyPath = file_at storage KeyPath" "\<And>p. safeBackupPath (be_uuid E) p \<Longrightarrow> file_at D' p = file_at storage p"
proof -
  let ?m = "manifest_of E now snapshot storage config"
  obtain D1 where m: "stage_backup E now snapshot storage config = Inr D1" "file_at D1 manifestName = Some (be_MarshalIndent E ?m)"
    "verify_backup E D1 ?m = Inr ()"
    "\<And>p. p \<noteq> manifestName \<Longrightarrow> file_at D1 p = (if p = DatabasePath then Some (sq_VacuumInto (be_sqlite E) snapshot)
       else if p = KeyPath then file_at storage KeyPath else if p = ConfigName then Some config
       else if p \<in> set (blob_files storage) then file_at storage p else None)"
    proof (rule stage_backup_ok [OF L ready]) qed (rule that, assumption+)
  have [simp]: "D1 = D" using D m(1) by simp
  have paths: "map fi_Path (mf_Files ?m) = DatabasePath # KeyPath # ConfigName # blob_files storage"
    by (simp add: manifest_of_def Let_def file_info_def comp_def)
  have "mf_Version ?m = manifestVersion" "mf_CreatedAt ?m = now" "3 \<le> length (mf_Files ?m)" by (simp_all add: manifest_of_def Let_def)
  then have read: "readManifest E D = Inr ?m" using m(2) now L by (simp add: readManifest_def backup_laws_def)
  let ?ps = "DatabasePath # KeyPath # blob_files storage"
  note N = safe_names safe_names [symmetric]
  have safe: "\<forall>p\<in>set (blob_files storage). safeBackupPath (be_uuid E) p" and key: "file_at storage KeyPath \<noteq> None"
    and dist: "distinct (blob_files storage)" using ready blob_files_distinct by (simp_all add: backup_ready_def)
  have neq: "p \<noteq> DatabasePath" "p \<noteq> KeyPath" "p \<noteq> ConfigName" "p \<noteq> manifestName" if "safeBackupPath (be_uuid E) p" for p
    using that safe_blob_neq [of "be_uuid E" p] by auto
  have ps: "filter (\<lambda>p. p \<noteq> ConfigName) (map fi_Path (mf_Files ?m)) = ?ps"
    unfolding paths using N neq safe by (auto simp: filter_id_conv)
  have there: "file_at D p \<noteq> None" if "p \<in> set ?ps" for p
  proof -
    have "file_at storage p \<noteq> None" if "p \<in> set (blob_files storage)" for p
    proof -
      have "p \<in> fst ` set storage" using that by (auto simp: blob_files_def read_dir_iff)
      then show ?thesis by (simp add: file_at_def map_of_eq_None_iff)
    qed
    then show ?thesis using that m(4) N key neq safe by auto
  qed
  have "DatabasePath \<notin> set (blob_files storage)" "KeyPath \<notin> set (blob_files storage)" using safe neq(1,2) by metis+
  then have uniq: "distinct ?ps" using dist N by simp
  have copy: "copyFiles (be_hash E) D (filter (\<lambda>p. p \<noteq> ConfigName) (map fi_Path (mf_Files ?m))) [] =
      Inr (map (\<lambda>p. file_info (be_hash E) p (the (file_at D p))) ?ps, fold (\<lambda>p. write_file p (the (file_at D p))) ?ps [])"
    unfolding ps copyFiles_ok using uniq there by simp
  define D' where "D' = fold (\<lambda>p. write_file p (the (file_at D p))) ?ps []"
  have at: "file_at D' p = (if p \<in> set ?ps then file_at D p else None)" for p
    unfolding D'_def file_at_copied using there by auto
  have names: "file_at D' DatabasePath = Some (sq_VacuumInto (be_sqlite E) snapshot)" "file_at D' KeyPath = file_at storage KeyPath"
    using at m(4) N by auto
  have blobs: "file_at D' p = file_at storage p" if p: "safeBackupPath (be_uuid E) p" for p
    using at [of p] m(4) [of p] neq [OF p] safe_blob_file [OF p, of storage] by (cases "file_at storage p") auto
  from m(3) obtain j s where "storage_sound E D j s" by (auto simp: verify_backup_ok)
  then have "storage_sound E D' j s"
  proof (rule storage_sound_cong [rotated 2])
    show "file_at D KeyPath \<noteq> None" using there by simp
    show "file_at D' p = file_at D p" if "safeManifestPath (be_uuid E) p" "p \<noteq> ConfigName" for p
      using that at m(4) neq safe by (auto simp: safeManifestPath_def)
  qed
  then have "verifyStorage E D' = Inr ()" unfolding verifyStorage_ok by blast
  then have "stage_restore E D = Inr D'" using m(3) copy by (simp add: stage_restore_def read D'_def)
  then show ?thesis using names blobs by (rule that)
qed

lemma stat_new:
  assumes "\<not> prefix p dest" "\<not> prefix dest p"
  shows "stat ((dest, D) # host) p = stat host p"
  using assms by (auto simp: stat_def)

lemma backup_then_restore:
  assumes L: "backup_laws E snapshot (manifest_of E now snapshot storage config)" and now: "now \<noteq> zero_time" and ready: "backup_ready E snapshot storage i"
    and host: "map_of host storagePath = Some storage" and dest: "distinctPaths storagePath destination False = Inr ()" "\<not> stat host destination"
    and target: "distinctPaths target destination True = Inr ()" "\<not> stat host target" "''..'' \<notin> set destination" "''..'' \<notin> set target"
  shows "\<exists>host1 host2 D. CreateBackup E now snapshot storagePath (Some config) destination host = (host1, Inr ()) \<and>
    RestoreBackup E destination target host1 = (host2, Inr ()) \<and> map_of host2 storagePath = Some storage \<and> map_of host2 target = Some D \<and>
    (\<exists>img. file_at D DatabasePath = Some img \<and> sq_Open (be_sqlite E) img = Some snapshot) \<and>
    (\<forall>g. LoadOrCreate (be_pki E) (be_hash E) g D = (D, Inr i)) \<and>
    (\<forall>b\<in>set (blobs snapshot). file_at D (b_storage_rel_path b) = file_at storage (b_storage_rel_path b))"
proof -
  obtain B where B: "stage_backup E now snapshot storage config = Inr B"
    by (rule stage_backup_ok [OF L ready])
  obtain D where D: "stage_restore E B = Inr D"
    "file_at D DatabasePath = Some (sq_VacuumInto (be_sqlite E) snapshot)" "file_at D KeyPath = file_at storage KeyPath"
    "\<And>p. safeBackupPath (be_uuid E) p \<Longrightarrow> file_at D p = file_at storage p"
    proof (rule stage_restore_ok [OF L now ready B]) qed (rule that, assumption+)
  have key: "file_at storage KeyPath \<noteq> None" using ready by (simp add: backup_ready_def)
  let ?h1 = "(destination, B) # host"
  have create: "CreateBackup E now snapshot storagePath (Some config) destination host = (?h1, Inr ())"
    using key by (auto simp: CreateBackup_def dest host B split: option.split)
  have apart: "target \<noteq> destination" "\<not> strict_prefix target destination" "\<not> strict_prefix destination target"
    using target(1) pathWithin_iff [OF target(3)] pathWithin_iff [OF target(4)] by (auto simp: distinctPaths_def split: if_split_asm)
  then have "stat ?h1 target = stat host target" by (intro stat_new) (auto simp: strict_prefix_def)
  then have restore: "RestoreBackup E destination target ?h1 = ((target, D) # ?h1, Inr ())"
    using target(1,2) D(1) by (simp add: RestoreBackup_def)
  have ne: "storagePath \<noteq> destination" using dest(1) by (auto simp: distinctPaths_def)
  have "storagePath \<noteq> target"
  proof
    assume "storagePath = target"
    moreover have "(storagePath, storage) \<in> set host" using host by (rule map_of_SomeD)
    ultimately show False using target(2) by (auto simp: stat_def)
  qed
  then have old: "map_of ((target, D) # ?h1) storagePath = Some storage" using ne host by simp
  have "\<forall>g. LoadOrCreate (be_pki E) (be_hash E) g D = (D, Inr i)"
  proof
    fix g
    have "snd (LoadOrCreate (be_pki E) (be_hash E) g D) = snd (LoadOrCreate (be_pki E) (be_hash E) [] storage)"
      "fst (LoadOrCreate (be_pki E) (be_hash E) g D) = D" using key by (auto simp: LoadOrCreate_def D(3))
    then show "LoadOrCreate (be_pki E) (be_hash E) g D = (D, Inr i)" using ready by (simp add: backup_ready_def prod_eq_iff)
  qed
  moreover have "\<exists>img. file_at D DatabasePath = Some img \<and> sq_Open (be_sqlite E) img = Some snapshot"
    using L D(2) by (simp add: backup_laws_def Let_def)
  moreover have "\<forall>b\<in>set (blobs snapshot). file_at D (b_storage_rel_path b) = file_at storage (b_storage_rel_path b)"
    using ready D(4) by (simp add: backup_ready_def)
  moreover have "map_of ((target, D) # ?h1) target = Some D" by simp
  ultimately show ?thesis using create restore old by blast
qed


section \<open>Servers in order\<close>

lemma server_ready:
  assumes inv: "system_inv (be_hash E) sv" and d: "disk_ok storage" and key: "file_at storage KeyPath \<noteq> None"
    "snd (LoadOrCreate (be_pki E) (be_hash E) [] storage) = Inr i"
    and names: "\<forall>p\<in>set (blob_files storage) \<union> b_storage_rel_path ` set (blobs (sv_db sv)). safeBackupPath (be_uuid E) p"
    and kept: "\<forall>b\<in>set (blobs (sv_db sv)). file_at storage (b_storage_rel_path b) = file_at (sv_disk sv) (b_storage_rel_path b)"
  shows "backup_ready E (sv_db sv) storage i"
proof -
  have "\<exists>c. file_at storage (b_storage_rel_path b) = Some c \<and> int (length c) = b_ciphertext_size b \<and> be_hash E c = b_ciphertext_sha256 b"
    if b: "b \<in> set (blobs (sv_db sv))" for b
  proof -
    from storage_invD(2) [OF system_invD(3) [OF inv]] b obtain c where "b_storage_rel_path b = blob_path (b_id b)"
      "file_at (sv_disk sv) (blob_path (b_id b)) = Some c" "int (length c) = b_ciphertext_size b" "be_hash E c = b_ciphertext_sha256 b"
      unfolding blobs_stored_def by blast
    with bspec [OF kept b] show ?thesis by (intro exI [of _ c]) simp
  qed
  with d key names show ?thesis by (simp add: backup_ready_def)
qed

text \<open>C26: A backup brings the server back: from a server in order, whose blob files are named by UUIDs and are still there when they are
  copied, a backup to a free destination succeeds; restoring it to a free target succeeds as well; the new storage has exactly the
  database of the snapshot and the same identity (so clients need not pin anew), every current version opens there with
  the very same ciphertext, and the old storage directory is untouched.\<close>

theorem backup_restores:
  assumes inv: "system_inv (be_hash E) sv" and d: "disk_ok storage" and key: "file_at storage KeyPath \<noteq> None"
    "snd (LoadOrCreate (be_pki E) (be_hash E) [] storage) = Inr i"
    and names: "\<forall>p\<in>set (blob_files storage) \<union> b_storage_rel_path ` set (blobs (sv_db sv)). safeBackupPath (be_uuid E) p"
    and kept: "\<forall>b\<in>set (blobs (sv_db sv)). file_at storage (b_storage_rel_path b) = file_at (sv_disk sv) (b_storage_rel_path b)"
    and L: "backup_laws E (sv_db sv) (manifest_of E now (sv_db sv) storage config)" and now: "now \<noteq> zero_time"
    and host: "map_of host storagePath = Some storage" and dest: "distinctPaths storagePath destination False = Inr ()" "\<not> stat host destination"
    and target: "distinctPaths target destination True = Inr ()" "\<not> stat host target" "''..'' \<notin> set destination" "''..'' \<notin> set target"
  shows "\<exists>host1 host2 D. CreateBackup E now (sv_db sv) storagePath (Some config) destination host = (host1, Inr ()) \<and>
    RestoreBackup E destination target host1 = (host2, Inr ()) \<and> map_of host2 storagePath = Some storage \<and> map_of host2 target = Some D \<and>
    (\<exists>img. file_at D DatabasePath = Some img \<and> sq_Open (be_sqlite E) img = Some (sv_db sv)) \<and>
    (\<forall>g. LoadOrCreate (be_pki E) (be_hash E) g D = (D, Inr i)) \<and>
    (\<forall>n\<in>set (nodes (sv_db sv)). \<forall>v. n_current_version_id n = Some v \<longrightarrow> (\<exists>p c. OpenNodeBlob (sv_db sv) (n_id n) v = Inr (p, int (length c)) \<and>
       file_at D p = Some c \<and> file_at (sv_disk sv) p = Some c))"
proof -
  from backup_then_restore [OF L now server_ready [OF inv d key names kept] host dest target] obtain host1 host2 D where
    run: "CreateBackup E now (sv_db sv) storagePath (Some config) destination host = (host1, Inr ())"
      "RestoreBackup E destination target host1 = (host2, Inr ())" "map_of host2 storagePath = Some storage" "map_of host2 target = Some D"
      "\<exists>img. file_at D DatabasePath = Some img \<and> sq_Open (be_sqlite E) img = Some (sv_db sv)"
      "\<forall>g. LoadOrCreate (be_pki E) (be_hash E) g D = (D, Inr i)"
    and blobs: "\<forall>b\<in>set (blobs (sv_db sv)). file_at D (b_storage_rel_path b) = file_at storage (b_storage_rel_path b)" by blast
  have "\<exists>p c. OpenNodeBlob (sv_db sv) (n_id n) v = Inr (p, int (length c)) \<and> file_at D p = Some c \<and> file_at (sv_disk sv) p = Some c"
    if n: "n \<in> set (nodes (sv_db sv))" "n_current_version_id n = Some v" for n v
  proof -
    from content_of [OF inv n] obtain b c where b: "b \<in> set (blobs (sv_db sv))"
      "OpenNodeBlob (sv_db sv) (n_id n) v = Inr (b_storage_rel_path b, int (length c))" "file_at (sv_disk sv) (b_storage_rel_path b) = Some c" by blast
    with blobs kept show ?thesis by (intro exI [of _ "b_storage_rel_path b"] exI [of _ c]) simp
  qed
  with run show ?thesis by blast
qed

section \<open>A worked example\<close>

definition demo_dir :: disk where
  "demo_dir = (KeyPath, RawStdEncode ''key'') # sv_disk demo_store"

definition demo_blank :: backup_env where
  "demo_blank = \<lparr>be_sqlite = \<lparr>sq_VacuumInto = (\<lambda>_. ''db''), sq_integrity_check = (\<lambda>_. Some ''ok''), sq_foreign_key_check = (\<lambda>_. Some False),
       sq_Open = (\<lambda>_. Some (sv_db demo_store))\<rparr>,
     be_pki = demo_pki, be_uuid = demo_uuid, be_hash = demo_hash, be_MarshalIndent = (\<lambda>_. ''manifest''), be_Unmarshal = (\<lambda>_. None)\<rparr>"

definition demo_env :: backup_env where
  "demo_env = demo_blank\<lparr>be_Unmarshal := \<lambda>_. Some (manifest_of demo_blank 1 (sv_db demo_store) demo_dir ''config'')\<rparr>"

definition demo_host :: host where
  "demo_host = [([''srv'', ''homebox''], demo_dir)]"

lemma demo_env_simps [simp]:
  "be_sqlite demo_env = be_sqlite demo_blank" "be_pki demo_env = demo_pki" "be_uuid demo_env = demo_uuid" "be_hash demo_env = demo_hash"
  "manifest_of demo_env = manifest_of demo_blank"
  by (simp_all add: demo_env_def demo_blank_def manifest_of_def fun_eq_iff)

lemma demo_backup_laws: "backup_laws demo_env (sv_db demo_store) (manifest_of demo_env 1 (sv_db demo_store) demo_dir ''config'')"
  by (simp add: backup_laws_def Let_def) (simp add: demo_env_def demo_blank_def)

lemma demo_names: "\<forall>p\<in>set (blob_files demo_dir) \<union> b_storage_rel_path ` set (blobs (sv_db demo_store)). safeBackupPath demo_uuid p"
  by code_simp

lemma demo_identity: "snd (LoadOrCreate demo_pki demo_hash [] demo_dir) = Inr \<lparr>privateKey = ''key'', fingerprint = ''#key''\<rparr>"
  by (simp add: LoadOrCreate_def demo_dir_def file_at_def newIdentity_def FingerprintFromPublicKey_def demo_pki_def demo_hash_def)

lemma demo_dir_ok: "disk_ok demo_dir" "file_at demo_dir KeyPath \<noteq> None"
  "\<forall>b\<in>set (blobs (sv_db demo_store)). file_at demo_dir (b_storage_rel_path b) = file_at (sv_disk demo_store) (b_storage_rel_path b)"
  by code_simp+

lemma demo_paths: "distinctPaths [''srv'', ''homebox''] [''srv'', ''backup''] False = Inr ()" "\<not> stat demo_host [''srv'', ''backup'']"
  "distinctPaths [''srv'', ''new''] [''srv'', ''backup''] True = Inr ()" "\<not> stat demo_host [''srv'', ''new'']"
  "map_of demo_host [''srv'', ''homebox''] = Some demo_dir" "''..'' \<notin> set [''srv'', ''backup'']" "''..'' \<notin> set [''srv'', ''new'']" "1 \<noteq> zero_time"
  by (simp_all add: distinctPaths_def pathWithin_def Rel_def stat_def demo_host_def zero_time_def second_def nanos_per_second_def Let_def)

theorem restore_sound_witness:
  "\<exists>host1 D i s. RestoreBackup demo_env [''srv'', ''backup''] [''srv'', ''new''] host1 = (([''srv'', ''new''], D) # host1, Inr ()) \<and>
    storage_sound demo_env D i s"
proof -
  from demo_store_system demo_dir_ok demo_identity demo_names
  have ready: "backup_ready demo_env (sv_db demo_store) demo_dir \<lparr>privateKey = ''key'', fingerprint = ''#key''\<rparr>"
    by (intro server_ready) simp_all
  from demo_backup_laws demo_paths ready
  have "\<exists>host1 host2 D. CreateBackup demo_env 1 (sv_db demo_store) [''srv'', ''homebox''] (Some ''config'') [''srv'', ''backup''] demo_host = (host1, Inr ()) \<and>
      RestoreBackup demo_env [''srv'', ''backup''] [''srv'', ''new''] host1 = (host2, Inr ()) \<and>
      map_of host2 [''srv'', ''homebox''] = Some demo_dir \<and> map_of host2 [''srv'', ''new''] = Some D \<and>
      (\<exists>img. file_at D DatabasePath = Some img \<and> sq_Open (be_sqlite demo_env) img = Some (sv_db demo_store)) \<and>
      (\<forall>g. LoadOrCreate (be_pki demo_env) (be_hash demo_env) g D = (D, Inr \<lparr>privateKey = ''key'', fingerprint = ''#key''\<rparr>)) \<and>
      (\<forall>b\<in>set (blobs (sv_db demo_store)). file_at D (b_storage_rel_path b) = file_at demo_dir (b_storage_rel_path b))"
    by (intro backup_then_restore) assumption+
  then obtain host1 host2 where r: "RestoreBackup demo_env [''srv'', ''backup''] [''srv'', ''new''] host1 = (host2, Inr ())" by blast
  from restore_sound [where E = demo_env and source = "[''srv'', ''backup'']" and target = "[''srv'', ''new'']" and host = host1]
  obtain D i s where "host2 = ([''srv'', ''new''], D) # host1" "storage_sound demo_env D i s" unfolding r prod.case sum.case by blast
  with r show ?thesis by blast
qed

theorem backup_restores_witness:
  "\<exists>host1 host2 D. RestoreBackup demo_env [''srv'', ''backup''] [''srv'', ''new''] host1 = (host2, Inr ()) \<and>
    map_of host2 [''srv'', ''new''] = Some D \<and> file_at D (blob_path ''c3'') = Some ''three''"
proof -
  have n: "\<exists>n\<in>set (nodes (sv_db demo_store)). n_id n = ''doc'' \<and> n_current_version_id n = Some ''v3''" by code_simp
  have o: "OpenNodeBlob (sv_db demo_store) ''doc'' ''v3'' = Inr (blob_path ''c3'', 5)" by code_simp
  have f: "file_at (sv_disk demo_store) (blob_path ''c3'') = Some ''three''" by code_simp
  from backup_restores [where E = demo_env and sv = demo_store and storage = demo_dir and config = "''config''" and host = demo_host
      and storagePath = "[''srv'', ''homebox'']" and destination = "[''srv'', ''backup'']" and target = "[''srv'', ''new'']" and now = 1]
    demo_store_system demo_dir_ok demo_identity demo_names demo_backup_laws demo_paths
  obtain host1 host2 D where r: "RestoreBackup demo_env [''srv'', ''backup''] [''srv'', ''new''] host1 = (host2, Inr ())"
    "map_of host2 [''srv'', ''new''] = Some D" and v: "\<forall>n\<in>set (nodes (sv_db demo_store)). \<forall>v. n_current_version_id n = Some v \<longrightarrow>
      (\<exists>p c. OpenNodeBlob (sv_db demo_store) (n_id n) v = Inr (p, int (length c)) \<and> file_at D p = Some c \<and> file_at (sv_disk demo_store) p = Some c)"
    by auto
  from n v o f have "file_at D (blob_path ''c3'') = Some ''three''" by force
  with r show ?thesis by blast
qed

section \<open>Uploads that were open at the backup\<close>

text \<open>No backup holds the chunks of an open upload, while the database it holds still records them as received. In the
  restored server such an upload is stuck: putting a chunk again does nothing, and completing it fails.\<close>

lemma chunk_not_restored: "\<not> safeManifestPath U (chunk_path i k)"
  by (auto simp: safeManifestPath_def safeBackupPath_def chunk_path_def uploadDir_def ConfigName_def DatabasePath_def KeyPath_def)

definition demo_restored :: server where
  "demo_restored = demo_filled\<lparr>sv_disk := filter (\<lambda>(p, c). safeManifestPath demo_uuid p) (sv_disk demo_filled)\<rparr>"

lemma restored_upload_stuck:
  "chunk_row (sv_db demo_restored) ''up1'' 0 \<noteq> None" "file_at (sv_disk demo_restored) (chunk_path ''up1'' 0) = None"
  "PutChunk demo_uuid demo_hash 30 demo_restored ''alice'' ''a1'' ''up1'' 0 ''abc'' = (demo_restored, Inr ())"
  "snd (CompleteUpload demo_uuid demo_hash demo_uploads 30 demo_restored ''up1'' demo_completion) =
     Inl (Internal ''open ciphertext chunk: no such file'')"
  by code_simp+

end
