(* ===== verification/HB_Config.thy ===== *)
theory HB_Config
  imports HB_Transport HB_Limiter
begin

text \<open>
  The configuration (internal/config). The fields of the Go struct keep their names behind a prefix for their section. Go's \<open>int\<close>
  and \<open>int64\<close> are \<open>int\<close> here: the checks compare them only, and the products of \<open>HB_Server\<close> wrap there.

  The first section is the part of the standard library the checks rest on: \<open>time.ParseDuration\<close>, \<open>net.ParseIP\<close>, \<open>net.JoinHostPort\<close>
  and \<open>filepath.Clean\<close> on Unix. A fraction in a duration is scaled in float64 arithmetic, which is a parameter (\<open>fraction f unit scale\<close>),
  as are the YAML decoder, which updates the defaults, and the reading of the file. \<open>Validate_ok\<close> says what a checked configuration promises.
\<close>

section \<open>Durations, addresses, paths\<close>

definition is_digit :: "char \<Rightarrow> bool" where
  "is_digit c \<longleftrightarrow> digit_value c \<noteq> None"

text \<open>The integer before the point, with the rest: refused beyond \<open>2 ^ 63\<close>.\<close>

definition leadingInt :: "string \<Rightarrow> (nat \<times> string) option" where
  "leadingInt s = (case parse_digits 0 (takeWhile is_digit s) of
     None \<Rightarrow> None | Some v \<Rightarrow> if v > 2 ^ 63 then None else Some (v, dropWhile is_digit s))"

text \<open>The digits after it, with their scale: those that would overflow are dropped.\<close>

fun leadingFraction :: "bool \<Rightarrow> nat \<Rightarrow> nat \<Rightarrow> string \<Rightarrow> nat \<times> nat \<times> string" where
  "leadingFraction overflow x scale [] = (x, scale, [])"
| "leadingFraction overflow x scale (c # cs) =
     (case digit_value c of
        None \<Rightarrow> (x, scale, c # cs)
      | Some d \<Rightarrow>
          if overflow \<or> x > (2 ^ 63 - 1) div 10 \<or> 10 * x + d > 2 ^ 63 then leadingFraction True x scale cs
          else leadingFraction False (10 * x + d) (10 * scale) cs)"

definition unitMap :: "string \<Rightarrow> nat option" where
  "unitMap = map_of [(''ns'', 1), (''us'', 1000), ([CHR 0xC2, CHR 0xB5, CHR ''s''], 1000), ([CHR 0xCE, CHR 0xBC, CHR ''s''], 1000),
     (''ms'', 1000000), (''s'', 1000000000), (''m'', 60000000000), (''h'', 3600000000000)]"

definition unit_name :: "string \<Rightarrow> string" where
  "unit_name s = takeWhile (\<lambda>c. c \<noteq> CHR ''.'' \<and> \<not> is_digit c) s"

text \<open>One number with its unit: its value in nanoseconds and the rest.\<close>

definition duration_part :: "(nat \<Rightarrow> nat \<Rightarrow> nat \<Rightarrow> nat) \<Rightarrow> string \<Rightarrow> (nat \<times> string) option" where
  "duration_part fraction s =
     (case leadingInt s of
        None \<Rightarrow> None
      | Some (v, s1) \<Rightarrow>
          let dot = (s1 \<noteq> [] \<and> hd s1 = CHR ''.'');
              (f, scale, s2) = (if dot then leadingFraction False 0 1 (tl s1) else (0, 1, s1));
              post = (dot \<and> length s2 \<noteq> length (tl s1));
              u = unit_name s2
          in if length s1 = length s \<and> \<not> post then None
             else if u = [] then None
             else (case unitMap u of
                 None \<Rightarrow> None
               | Some unit \<Rightarrow>
                   if v > 2 ^ 63 div unit then None
                   else let v1 = v * unit + (if f > 0 then fraction f unit scale else 0)
                        in if v1 > 2 ^ 63 then None else Some (v1, drop (length u) s2)))"

lemma leadingFraction_shorter: "leadingFraction b x k s = (f, scale, r) \<Longrightarrow> length r \<le> length s"
  by (induction b x k s rule: leadingFraction.induct) (auto split: option.split_asm if_split_asm)

lemma duration_part_shorter:
  assumes "duration_part fraction s = Some (v, r)"
  shows "length r < length s"
proof -
  from assms obtain n s1 where s1: "leadingInt s = Some (n, s1)" by (auto simp: duration_part_def split: option.split_asm)
  then have le: "length s1 \<le> length s" by (auto simp: leadingInt_def length_dropWhile_le split: option.split_asm if_split_asm)
  define dot where "dot = (s1 \<noteq> [] \<and> hd s1 = CHR ''.'')"
  obtain f scale s2 where s2: "(if dot then leadingFraction False 0 1 (tl s1) else (0, 1, s1)) = (f, scale, s2)"
    by (metis prod_cases3)
  then have "length s2 \<le> length s1"
    by (auto split: if_split_asm dest!: leadingFraction_shorter)
  moreover from assms s1 s2 have "unit_name s2 \<noteq> []" "r = drop (length (unit_name s2)) s2"
    by (auto simp: duration_part_def dot_def Let_def split: option.split_asm if_split_asm)
  moreover from this have "s2 \<noteq> []" by (auto simp: unit_name_def)
  ultimately show ?thesis using le by (cases "unit_name s2"; cases s2) auto
qed

function duration_loop :: "(nat \<Rightarrow> nat \<Rightarrow> nat \<Rightarrow> nat) \<Rightarrow> nat \<Rightarrow> string \<Rightarrow> nat option" where
  "duration_loop fraction d s =
     (if s = [] then Some d
      else case duration_part fraction s of
        None \<Rightarrow> None
      | Some (v, r) \<Rightarrow> let d1 = (d + v) mod 2 ^ 64 in if d1 > 2 ^ 63 then None else duration_loop fraction d1 r)"
  by pat_completeness auto
termination
  by (relation "measure (\<lambda>(_, _, s). length s)") (auto dest: duration_part_shorter)

declare duration_loop.simps [simp del]

definition ParseDuration :: "(nat \<Rightarrow> nat \<Rightarrow> nat \<Rightarrow> nat) \<Rightarrow> string \<Rightarrow> int option" where
  "ParseDuration fraction s =
     (let neg = (s \<noteq> [] \<and> hd s = CHR ''-'');
          s = (if s \<noteq> [] \<and> (hd s = CHR ''-'' \<or> hd s = CHR ''+'') then tl s else s)
      in if s = ''0'' then Some 0
         else if s = [] then None
         else (case duration_loop fraction 0 s of
             None \<Rightarrow> None
           | Some d \<Rightarrow> if neg then Some (- int d) else if d > 2 ^ 63 - 1 then None else Some (int d)))"

text \<open>\<open>net.ParseIP\<close>: whether the text is an address. \<open>ipv6_groups k e s\<close> reads up to \<open>k\<close> groups of an IPv6 address after an ellipsis
  (\<open>e\<close>) or not, and gives the groups left over with whether there was an ellipsis.\<close>

definition ipv4_field :: "string \<Rightarrow> bool" where
  "ipv4_field f \<longleftrightarrow> (case parse_digits 0 f of None \<Rightarrow> False | Some v \<Rightarrow> f \<noteq> [] \<and> v \<le> 255 \<and> (hd f = CHR ''0'' \<longrightarrow> length f = 1))"

definition parseIPv4 :: "string \<Rightarrow> bool" where
  "parseIPv4 s \<longleftrightarrow> (let fs = split_at CHR ''.'' s in length fs = 4 \<and> list_all ipv4_field fs)"

fun ipv6_groups :: "nat \<Rightarrow> bool \<Rightarrow> string \<Rightarrow> (nat \<times> bool) option" where
  "ipv6_groups 0 e s = (if s = [] then Some (0, e) else None)"
| "ipv6_groups (Suc k) e s =
     (let g = takeWhile hex_digit s; rest = drop (length g) s
      in if g = [] \<or> length g > 4 then None
         else case rest of
           [] \<Rightarrow> Some (k, e)
         | c # s1 \<Rightarrow>
             if c = CHR ''.'' then (if (\<not> e \<and> k \<noteq> 1) \<or> k = 0 \<or> \<not> parseIPv4 s then None else Some (k - 1, e))
             else if c \<noteq> CHR '':'' \<or> s1 = [] then None
             else if hd s1 = CHR '':'' then (if e then None else if tl s1 = [] then Some (k, True) else ipv6_groups k True (tl s1))
             else ipv6_groups k e s1)"

definition parseIPv6 :: "string \<Rightarrow> bool" where
  "parseIPv6 s \<longleftrightarrow>
     (let leading = prefix ''::'' s; s1 = (if leading then drop 2 s else s)
      in leading \<and> s1 = [] \<or>
         (case ipv6_groups 8 leading s1 of None \<Rightarrow> False | Some (left, e) \<Rightarrow> (left \<noteq> 0) = e))"

definition ParseIP :: "string \<Rightarrow> bool" where
  "ParseIP s \<longleftrightarrow>
     (case find (\<lambda>c. c \<in> {CHR ''.'', CHR '':'', CHR ''%''}) s of
        None \<Rightarrow> False
      | Some c \<Rightarrow> if c = CHR ''.'' then parseIPv4 s else c = CHR '':'' \<and> CHR ''%'' \<notin> set s \<and> parseIPv6 s)"

definition JoinHostPort :: "string \<Rightarrow> string \<Rightarrow> string" where
  "JoinHostPort host port =
     (if CHR '':'' \<in> set host \<or> CHR ''%'' \<in> set host then ''['' @ host @ '']:'' @ port else host @ '':'' @ port)"

text \<open>\<open>filepath.IsAbs\<close> and \<open>filepath.Clean\<close> on Unix; the elements kept so far are on a stack.\<close>

definition IsAbs :: "string \<Rightarrow> bool" where
  "IsAbs p \<longleftrightarrow> p \<noteq> [] \<and> hd p = CHR ''/''"

fun clean_step :: "bool \<Rightarrow> string list \<Rightarrow> string \<Rightarrow> string list" where
  "clean_step rooted kept seg =
     (if seg = [] \<or> seg = ''.'' then kept
      else if seg \<noteq> ''..'' then seg # kept
      else case kept of
        [] \<Rightarrow> if rooted then [] else [''..'']
      | x # xs \<Rightarrow> if x = ''..'' then ''..'' # kept else xs)"

fun join_slash :: "string list \<Rightarrow> string" where
  "join_slash [] = []"
| "join_slash [x] = x"
| "join_slash (x # y # xs) = x @ ''/'' @ join_slash (y # xs)"

definition Clean :: "string \<Rightarrow> string" where
  "Clean p =
     (let rooted = IsAbs p; segs = rev (foldl (clean_step rooted) [] (split_at CHR ''/'' p))
      in if rooted then ''/'' @ join_slash segs else if segs = [] then ''.'' else join_slash segs)"

section \<open>The configuration\<close>

record TLSSection =
  tls_Enabled :: bool
  tls_CertFile :: string
  tls_KeyFile :: string

record ServerSection =
  srv_Host :: string
  srv_Port :: int
  srv_ReadTimeout :: string
  srv_TLS :: TLSSection

record StorageSection =
  sto_Path :: string
  sto_CiphertextOnly :: bool

record LimitsSection =
  lim_MaxUsers :: int
  lim_MaxPlaintextFileSize :: int
  lim_UploadChunkPlaintextSize :: int
  lim_MaxCiphertextFileSize :: int

record ApplicationEncryptionSection =
  ae_Enabled :: bool
  ae_RequiredForHTTP :: bool
  ae_Protocol :: string
  ae_SessionMaxAge :: string

record E2EESection =
  e2_Required :: bool
  e2_ServerDecryptionEnabled :: bool
  e2_ProtocolVersion :: int

record MaintenanceSection =
  mt_OrphanBlobGraceHours :: int
  mt_TrashRetentionDays :: int
  mt_IntervalHours :: int
  mt_MaxFileVersions :: int
  mt_VersionRetentionDays :: int

record Config =
  Server :: ServerSection
  Storage :: StorageSection
  Limits :: LimitsSection
  ApplicationEncryption :: ApplicationEncryptionSection
  E2EE :: E2EESection
  upl_AbandonedAfterHours :: int
  syn_PageSize :: int
  syn_MaxPageSize :: int
  Maintenance :: MaintenanceSection

record config_env =
  ce_fraction :: "nat \<Rightarrow> nat \<Rightarrow> nat \<Rightarrow> nat"
  ce_Unmarshal :: "bytes \<Rightarrow> Config \<Rightarrow> Config option"
  ce_ReadFile :: "string \<Rightarrow> bytes option"

definition defaultMaxPlaintextSize :: int where "defaultMaxPlaintextSize = 500 * 1024 * 1024"
definition defaultChunkPlaintextSize :: int where "defaultChunkPlaintextSize = 4 * 1024 * 1024"
definition defaultMaxCiphertextSize :: int where
  "defaultMaxCiphertextSize = defaultMaxPlaintextSize + (defaultMaxPlaintextSize div defaultChunkPlaintextSize) * 16"

definition Defaults :: Config where
  "Defaults = \<lparr>
     Server = \<lparr>srv_Host = ''0.0.0.0'', srv_Port = 8787, srv_ReadTimeout = ''2m'',
       srv_TLS = \<lparr>tls_Enabled = False, tls_CertFile = [], tls_KeyFile = []\<rparr>\<rparr>,
     Storage = \<lparr>sto_Path = ''./data'', sto_CiphertextOnly = True\<rparr>,
     Limits = \<lparr>lim_MaxUsers = 5, lim_MaxPlaintextFileSize = defaultMaxPlaintextSize,
       lim_UploadChunkPlaintextSize = defaultChunkPlaintextSize, lim_MaxCiphertextFileSize = defaultMaxCiphertextSize\<rparr>,
     ApplicationEncryption = \<lparr>ae_Enabled = True, ae_RequiredForHTTP = True, ae_Protocol = ''tls1.3-ecdsa-p256-cert-pinning'',
       ae_SessionMaxAge = ''15m''\<rparr>,
     E2EE = \<lparr>e2_Required = True, e2_ServerDecryptionEnabled = False, e2_ProtocolVersion = 1\<rparr>,
     upl_AbandonedAfterHours = 24, syn_PageSize = 500, syn_MaxPageSize = 2000,
     Maintenance = \<lparr>mt_OrphanBlobGraceHours = 168, mt_TrashRetentionDays = 3, mt_IntervalHours = 1, mt_MaxFileVersions = 10,
       mt_VersionRetentionDays = 30\<rparr>\<rparr>"

definition HTTPReadTimeout :: "config_env \<Rightarrow> Config \<Rightarrow> int" where
  "HTTPReadTimeout E c = (case ParseDuration (ce_fraction E) (srv_ReadTimeout (Server c)) of None \<Rightarrow> 0 | Some d \<Rightarrow> d)"

definition AccessTokenTTL :: "config_env \<Rightarrow> Config \<Rightarrow> int" where
  "AccessTokenTTL E c = (case ParseDuration (ce_fraction E) (ae_SessionMaxAge (ApplicationEncryption c)) of None \<Rightarrow> 0 | Some d \<Rightarrow> d)"

definition Address :: "Config \<Rightarrow> string" where
  "Address c = JoinHostPort (srv_Host (Server c)) (FormatInt (srv_Port (Server c)))"

definition Validate :: "config_env \<Rightarrow> Config \<Rightarrow> err + unit" where
  "Validate E c =
     (let host = srv_Host (Server c); port = srv_Port (Server c); tls = srv_TLS (Server c);
          lim = Limits c; e2 = E2EE c; ae = ApplicationEncryption c; mt = Maintenance c;
          readTimeout = ParseDuration (ce_fraction E) (srv_ReadTimeout (Server c));
          sessionMaxAge = ParseDuration (ce_fraction E) (ae_SessionMaxAge ae)
      in if \<not> ParseIP host \<and> host \<noteq> ''localhost'' \<and> host \<noteq> []
         then Inl (Internal ''server.host must be an IP address or localhost'')
         else if port < 1 \<or> port > 65535 then Inl (Internal ''server.port must be between 1 and 65535'')
         else if readTimeout = None \<or> the readTimeout \<le> 0 then Inl (Internal ''server.read_timeout must be a positive duration'')
         else if sto_Path (Storage c) = [] \<or> \<not> sto_CiphertextOnly (Storage c)
         then Inl (Internal ''storage.ciphertext_only must be true and storage.path must be set'')
         else if lim_MaxUsers lim < 1 \<or> lim_MaxUsers lim > 5 then Inl (Internal ''limits.max_users must be between 1 and 5'')
         else if lim_MaxPlaintextFileSize lim \<le> 0 \<or> lim_MaxPlaintextFileSize lim > defaultMaxPlaintextSize
         then Inl (Internal (''limits.max_plaintext_file_size_bytes must be between 1 and '' @ FormatInt defaultMaxPlaintextSize))
         else if lim_UploadChunkPlaintextSize lim \<le> 0 \<or> lim_UploadChunkPlaintextSize lim > lim_MaxPlaintextFileSize lim
         then Inl (Internal ''limits.upload_chunk_plaintext_size_bytes must be positive and no larger than the file limit'')
         else if lim_MaxCiphertextFileSize lim < lim_MaxPlaintextFileSize lim \<or> lim_MaxCiphertextFileSize lim > defaultMaxCiphertextSize
         then Inl (Internal (''limits.max_ciphertext_file_size_bytes must be between plaintext limit and '' @ FormatInt defaultMaxCiphertextSize))
         else if e2_ServerDecryptionEnabled e2 \<or> \<not> e2_Required e2 \<or> e2_ProtocolVersion e2 \<noteq> 1
         then Inl (Internal ''E2EE is mandatory, version 1, and server-side decryption is forbidden'')
         else if \<not> ae_Enabled ae \<or> \<not> ae_RequiredForHTTP ae then Inl (Internal ''application encryption is mandatory for HTTP'')
         else if sessionMaxAge = None then Inl (Internal ''security.application_encryption.session_max_age'')
         else if the sessionMaxAge \<le> 0 then Inl (Internal ''security.application_encryption.session_max_age must be a positive duration'')
         else if tls_Enabled tls \<and> (tls_CertFile tls = [] \<or> tls_KeyFile tls = [])
         then Inl (Internal ''TLS certificate and key files are required when TLS is enabled'')
         else if upl_AbandonedAfterHours c < 1 then Inl (Internal ''uploads.abandoned_after_hours must be positive'')
         else if syn_PageSize c < 1 \<or> syn_MaxPageSize c < syn_PageSize c
         then Inl (Internal ''sync.page_size must be positive and no larger than sync.max_page_size'')
         else if mt_OrphanBlobGraceHours mt < 1 then Inl (Internal ''maintenance.orphan_blob_grace_hours must be positive'')
         else if mt_TrashRetentionDays mt < 1 then Inl (Internal ''maintenance.trash_retention_days must be positive'')
         else if mt_IntervalHours mt < 1 then Inl (Internal ''maintenance.interval_hours must be positive'')
         else if mt_MaxFileVersions mt < 1 then Inl (Internal ''maintenance.max_file_versions must be positive'')
         else if mt_VersionRetentionDays mt < 1 then Inl (Internal ''maintenance.version_retention_days must be positive'')
         else Inr ())"

definition Load :: "config_env \<Rightarrow> string \<Rightarrow> err + Config" where
  "Load E path =
     (if path = [] then ebind (Validate E Defaults) (\<lambda>_. Inr Defaults)
      else case ce_ReadFile E path of
        None \<Rightarrow> Inl (Internal ''read config'')
      | Some b \<Rightarrow> (case ce_Unmarshal E b Defaults of
            None \<Rightarrow> Inl (Internal ''parse config'')
          | Some c \<Rightarrow>
              let p = sto_Path (Storage c);
                  c1 = (if IsAbs p then c else c\<lparr>Storage := (Storage c)\<lparr>sto_Path := Clean p\<rparr>\<rparr>)
              in ebind (Validate E c1) (\<lambda>_. Inr c1)))"

section \<open>What a checked configuration promises\<close>

lemma guard_ok: "(if b then Inl e else m) = Inr y \<longleftrightarrow> \<not> b \<and> m = Inr y"
  by simp

lemma Validate_ok:
  "Validate E c = Inr () \<longleftrightarrow>
     (ParseIP (srv_Host (Server c)) \<or> srv_Host (Server c) = ''localhost'' \<or> srv_Host (Server c) = []) \<and>
     srv_Port (Server c) \<in> {1..65535} \<and> 0 < HTTPReadTimeout E c \<and> 0 < AccessTokenTTL E c \<and>
     sto_Path (Storage c) \<noteq> [] \<and> sto_CiphertextOnly (Storage c) \<and> lim_MaxUsers (Limits c) \<in> {1..5} \<and>
     lim_MaxPlaintextFileSize (Limits c) \<in> {1..defaultMaxPlaintextSize} \<and>
     lim_UploadChunkPlaintextSize (Limits c) \<in> {1..lim_MaxPlaintextFileSize (Limits c)} \<and>
     lim_MaxCiphertextFileSize (Limits c) \<in> {lim_MaxPlaintextFileSize (Limits c)..defaultMaxCiphertextSize} \<and>
     \<not> e2_ServerDecryptionEnabled (E2EE c) \<and> e2_Required (E2EE c) \<and> e2_ProtocolVersion (E2EE c) = 1 \<and>
     ae_Enabled (ApplicationEncryption c) \<and> ae_RequiredForHTTP (ApplicationEncryption c) \<and>
     (tls_Enabled (srv_TLS (Server c)) \<longrightarrow> tls_CertFile (srv_TLS (Server c)) \<noteq> [] \<and> tls_KeyFile (srv_TLS (Server c)) \<noteq> []) \<and>
     1 \<le> upl_AbandonedAfterHours c \<and> 1 \<le> syn_PageSize c \<and> syn_PageSize c \<le> syn_MaxPageSize c \<and>
     1 \<le> mt_OrphanBlobGraceHours (Maintenance c) \<and> 1 \<le> mt_TrashRetentionDays (Maintenance c) \<and>
     1 \<le> mt_IntervalHours (Maintenance c) \<and> 1 \<le> mt_MaxFileVersions (Maintenance c) \<and> 1 \<le> mt_VersionRetentionDays (Maintenance c)"
  unfolding Validate_def Let_def guard_ok HTTPReadTimeout_def AccessTokenTTL_def
  by (cases "ParseDuration (ce_fraction E) (srv_ReadTimeout (Server c))";
      cases "ParseDuration (ce_fraction E) (ae_SessionMaxAge (ApplicationEncryption c))") (simp_all add: not_less not_le conj_ac disj_ac int_one_le_iff_zero_less)

text \<open>Cleaning never gives the empty path, so \<open>Load\<close> never refuses an empty \<open>storage.path\<close>: the file would be read as naming the
  working directory.\<close>

lemma join_slash_Nil [simp]: "join_slash xs = [] \<longleftrightarrow> xs = [] \<or> xs = [[]]"
  by (cases xs rule: join_slash.cases) auto

lemma clean_kept: "[] \<notin> set kept \<Longrightarrow> [] \<notin> set (clean_step rooted kept seg)"
  by (auto split: list.split)

lemma Clean_nonempty: "Clean p \<noteq> []"
proof -
  have "[] \<notin> set (foldl (clean_step r) kept segs)" if "[] \<notin> set kept" for r kept segs
    using that by (induction segs arbitrary: kept) (auto simp del: clean_step.simps dest: clean_kept)
  from this [of "[]" "IsAbs p" "split_at CHR ''/'' p"] have "rev (foldl (clean_step (IsAbs p)) [] (split_at CHR ''/'' p)) \<noteq> [[]]" by auto
  then show ?thesis by (cases "IsAbs p") (simp_all add: Clean_def Let_def)
qed

lemma empty_path_accepted:
  assumes "path \<noteq> []" "ce_ReadFile E path = Some b" "ce_Unmarshal E b Defaults = Some c" "sto_Path (Storage c) = []"
  shows "Load E path = ebind (Validate E (c\<lparr>Storage := (Storage c)\<lparr>sto_Path := ''.''\<rparr>\<rparr>))
    (\<lambda>_. Inr (c\<lparr>Storage := (Storage c)\<lparr>sto_Path := ''.''\<rparr>\<rparr>))"
proof -
  have "Clean [] = ''.''" by (simp add: Clean_def IsAbs_def)
  with assms show ?thesis by (simp add: Load_def IsAbs_def Let_def)
qed

lemma Load_ok: "Load E path = Inr c \<Longrightarrow> Validate E c = Inr ()"
  by (auto simp: Load_def Let_def split: if_split_asm option.split_asm)

end
