(* ===== verification/HB_Database.thy ===== *)
theory HB_Database
  imports HB_Prelude
begin

text \<open>
  Opening and migrating the database (internal/database/database.go, and the list of migrations.go). What a migration's SQL does to
  the tables is SQLite's: \<open>'d\<close> is the content of the database but for \<open>schema_migrations\<close>, and \<open>exec m d\<close> is the content after
  the statements of \<open>m\<close>, or \<open>None\<close> if one fails. \<open>SQL\<close> holds the name of the Go constant with the text. Each migration is a
  transaction with its own row of \<open>schema_migrations\<close>, so a failure leaves neither.

  \<open>migrations_resume\<close> is about a database that is opened again and again, by builds that know fewer or more migrations, where any
  transaction may fail or the process may die before it.
\<close>

section \<open>The runner\<close>

record migration =
  Version :: int
  Name :: string
  SQL :: string

record migration_row =
  mr_version :: int
  mr_name :: string
  mr_applied_at :: time

record 'd database =
  contents :: 'd
  schema_migrations :: "migration_row list option"

definition migrations :: "migration list" where
  "migrations = [
     \<lparr>Version = 1, Name = ''initial_schema'', SQL = ''migration0001InitialSchema''\<rparr>,
     \<lparr>Version = 2, Name = ''access_tokens'', SQL = ''migration0002AccessTokens''\<rparr>,
     \<lparr>Version = 3, Name = ''maintenance_gc_candidates'', SQL = ''migration0003MaintenanceGCCandidates''\<rparr>,
     \<lparr>Version = 4, Name = ''share_device_envelopes'', SQL = ''migration0004ShareDeviceEnvelopes''\<rparr>,
     \<lparr>Version = 5, Name = ''device_last_sync'', SQL = ''migration0005DeviceLastSync''\<rparr>,
     \<lparr>Version = 6, Name = ''upload_metadata_version'', SQL = ''migration0006UploadMetadataVersion''\<rparr>,
     \<lparr>Version = 7, Name = ''trash_retention_index'', SQL = ''migration0007TrashRetentionIndex''\<rparr>,
     \<lparr>Version = 8, Name = ''authenticated_device_keys'', SQL = ''migration0008AuthenticatedDeviceKeys''\<rparr>,
     \<lparr>Version = 9, Name = ''hot_path_indexes_and_token_rotation'', SQL = ''migration0009HotPathIndexesAndTokenRotation''\<rparr>,
     \<lparr>Version = 10, Name = ''recovery_bundles'', SQL = ''migration0010RecoveryBundles''\<rparr>,
     \<lparr>Version = 11, Name = ''file_version_retention_index'', SQL = ''migration0011FileVersionRetentionIndex''\<rparr>,
     \<lparr>Version = 12, Name = ''gc_and_lookup_indexes'', SQL = ''migration0012GCAndLookupIndexes''\<rparr>,
     \<lparr>Version = 13, Name = ''family_vault_folder_keys'', SQL = ''migration0013FamilyVaultFolderKeys''\<rparr>]"

definition maxOpenConns :: int where "maxOpenConns = 8"

definition dataSourceName :: "string \<Rightarrow> string" where
  "dataSourceName p = p @ ''?_pragma=busy_timeout(5000)&_pragma=foreign_keys(1)&_pragma=journal_mode(WAL)&_txlock=immediate''"

definition migration_rows :: "'d database \<Rightarrow> migration_row list" where
  "migration_rows d = (case schema_migrations d of None \<Rightarrow> [] | Some rows \<Rightarrow> rows)"

text \<open>The transaction of one migration.\<close>

definition migrate_tx :: "(migration \<Rightarrow> 'd \<Rightarrow> 'd option) \<Rightarrow> time \<Rightarrow> 'd database \<Rightarrow> migration \<Rightarrow> err + 'd database" where
  "migrate_tx exec now d m =
     (let rows = migration_rows d
      in case exec m (contents d) of
        None \<Rightarrow> Inl (Internal (''apply migration '' @ Name m))
      | Some c \<Rightarrow>
          if \<exists>r\<in>set rows. mr_version r = Version m then Inl (Internal (''record migration '' @ Name m))
          else Inr (d\<lparr>contents := c,
            schema_migrations := Some (rows @ [\<lparr>mr_version = Version m, mr_name = Name m, mr_applied_at = now\<rparr>])\<rparr>))"

text \<open>\<open>applied\<close> are the versions read before the first transaction.\<close>

fun migrate_loop :: "(migration \<Rightarrow> 'd \<Rightarrow> 'd option) \<Rightarrow> time \<Rightarrow> int list \<Rightarrow> migration list \<Rightarrow> 'd database \<Rightarrow> 'd database \<times> (err + unit)" where
  "migrate_loop exec now applied [] d = (d, Inr ())"
| "migrate_loop exec now applied (m # ms) d =
     (if Version m \<in> set applied then migrate_loop exec now applied ms d
      else case migrate_tx exec now d m of
        Inl e \<Rightarrow> (d, Inl e)
      | Inr d' \<Rightarrow> migrate_loop exec now applied ms d')"

definition Migrate :: "(migration \<Rightarrow> 'd \<Rightarrow> 'd option) \<Rightarrow> time \<Rightarrow> migration list \<Rightarrow> 'd database \<Rightarrow> 'd database \<times> (err + unit)" where
  "Migrate exec now ms d =
     (let d1 = (if schema_migrations d = None then d\<lparr>schema_migrations := Some []\<rparr> else d)
      in migrate_loop exec now (map mr_version (migration_rows d1)) ms d1)"

section \<open>Reopening\<close>

text \<open>An attempt to open: the migrations the build knows (the first \<open>k\<close>), those whose transaction goes through this time, and
  the clock.\<close>

record attempt =
  knows :: nat
  goes_through :: "int \<Rightarrow> bool"
  at_time :: time

definition open_attempt :: "(migration \<Rightarrow> 'd \<Rightarrow> 'd option) \<Rightarrow> attempt \<Rightarrow> 'd database \<Rightarrow> 'd database \<times> (err + unit)" where
  "open_attempt exec a d =
     Migrate (\<lambda>m c. if goes_through a (Version m) then exec m c else None) (at_time a) (take (knows a) migrations) d"

text \<open>The content after the first \<open>n\<close> migrations, and a database that has exactly these behind it.\<close>

fun apply_all :: "(migration \<Rightarrow> 'd \<Rightarrow> 'd option) \<Rightarrow> migration list \<Rightarrow> 'd \<Rightarrow> 'd option" where
  "apply_all exec [] c = Some c"
| "apply_all exec (m # ms) c = (case exec m c of None \<Rightarrow> None | Some c' \<Rightarrow> apply_all exec ms c')"

definition migrated :: "(migration \<Rightarrow> 'd \<Rightarrow> 'd option) \<Rightarrow> 'd \<Rightarrow> nat \<Rightarrow> 'd database \<Rightarrow> bool" where
  "migrated exec blank n d \<longleftrightarrow> n \<le> length migrations \<and> apply_all exec (take n migrations) blank = Some (contents d) \<and>
     map mr_version (migration_rows d) = map Version (take n migrations) \<and> (schema_migrations d = None \<longrightarrow> n = 0)"

lemma versions: "map Version migrations = [1, 2, 3, 4, 5, 6, 7, 8, 9, 10, 11, 12, 13]"
  by (simp add: migrations_def)

lemma version_at: "i < length migrations \<Longrightarrow> Version (migrations ! i) = int i + 1"
proof -
  assume i: "i < length migrations"
  have "map Version migrations = map (\<lambda>i. int i + 1) [0..<length migrations]" unfolding versions by (simp add: migrations_def upt_rec)
  then have "map Version migrations ! i = map (\<lambda>i. int i + 1) [0..<length migrations] ! i" by simp
  with i show ?thesis by simp
qed

lemma versions_take: "n \<le> length migrations \<Longrightarrow> Version ` set (take n migrations) = {1..int n}"
proof (induction n)
  case (Suc n)
  then have "take (Suc n) migrations = take n migrations @ [migrations ! n]" "n < length migrations"
    by (simp_all add: take_Suc_conv_app_nth)
  with Suc version_at [of n] show ?case by auto
qed simp

lemma apply_all_snoc:
  "apply_all exec (ms @ [m]) c = (case apply_all exec ms c of None \<Rightarrow> None | Some c' \<Rightarrow> exec m c')"
  by (induction ms arbitrary: c) (auto split: option.split)

text \<open>The loop over the migrations from \<open>i\<close> on, in a database that is through with the first \<open>n \<ge> i\<close>.\<close>

lemma migrate_loop_migrated:
  assumes "migrated exec blank n d" "schema_migrations d \<noteq> None" "i \<le> k" "k \<le> length migrations" "i \<le> n"
    and "set applied = {1..int n0}" "n0 \<le> n" "n = n0 \<or> i = n"
    and exec': "\<And>m c c'. exec' m c = Some c' \<Longrightarrow> exec m c = Some c'"
    and run: "migrate_loop exec' now applied (drop i (take k migrations)) d = (d', res)"
  shows "\<exists>n'\<ge>n. migrated exec blank n' d' \<and> schema_migrations d' \<noteq> None \<and> (res = Inr () \<longrightarrow> k \<le> n')"
  using assms(1-8) run
proof (induction "k - i" arbitrary: i n d)
  case 0
  then show ?case by auto
next
  case (Suc j)
  then have i: "i < length (take k migrations)" "i < length migrations" "i < k" by simp_all
  have drop: "drop i (take k migrations) = migrations ! i # drop (Suc i) (take k migrations)"
    using Cons_nth_drop_Suc [OF i(1)] i(3) by simp
  have v: "Version (migrations ! i) = int i + 1" using version_at [OF i(2)] .
  show ?case
  proof (cases "i < n0")
    case True
    then have "Version (migrations ! i) \<in> set applied" using v Suc.prems(6) by simp
    then have "migrate_loop exec' now applied (drop (Suc i) (take k migrations)) d = (d', res)" using Suc.prems(9) drop by simp
    from Suc.hyps(1) [OF _ Suc.prems(1,2) _ Suc.prems(4) _ Suc.prems(6,7) _ this] Suc.hyps(2) i(3) True Suc.prems(7,8) show ?thesis
      by auto
  next
    case False
    then have new: "Version (migrations ! i) \<notin> set applied" using v Suc.prems(6) by simp
    have n: "i = n" using False Suc.prems(5,8) by auto
    show ?thesis
    proof (cases "migrate_tx exec' now d (migrations ! i)")
      case (Inl e)
      then have "d' = d \<and> res = Inl e" using Suc.prems(9) drop new by simp
      with Suc.prems(1,2) show ?thesis by auto
    next
      case (Inr d1)
      then obtain c where c: "exec' (migrations ! i) (contents d) = Some c"
        "d1 = d\<lparr>contents := c, schema_migrations := Some (migration_rows d @
          [\<lparr>mr_version = Version (migrations ! i), mr_name = Name (migrations ! i), mr_applied_at = now\<rparr>])\<rparr>"
        by (auto simp: migrate_tx_def Let_def split: option.split_asm if_split_asm)
      have "take (Suc n) migrations = take n migrations @ [migrations ! i]" using i(2) n by (simp add: take_Suc_conv_app_nth)
      then have "migrated exec blank (Suc n) d1" "schema_migrations d1 \<noteq> None"
        using Suc.prems(1) exec' [OF c(1)] i(2) n by (auto simp: migrated_def c(2) apply_all_snoc migration_rows_def)
      moreover have "migrate_loop exec' now applied (drop (Suc i) (take k migrations)) d1 = (d', res)"
        using Suc.prems(9) drop new Inr by simp
      ultimately have "\<exists>n'\<ge>Suc n. migrated exec blank n' d' \<and> schema_migrations d' \<noteq> None \<and> (res = Inr () \<longrightarrow> k \<le> n')"
        using Suc.hyps(1) [of "Suc i" "Suc n" d1] Suc.hyps(2) i(3) n Suc.prems(4,6,7) by auto
      then show ?thesis by (auto dest: Suc_leD)
    qed
  qed
qed

lemma open_attempt_migrated:
  assumes m: "migrated exec blank n d" and run: "open_attempt exec a d = (d', res)"
  shows "\<exists>n'\<ge>n. migrated exec blank n' d' \<and> schema_migrations d' \<noteq> None \<and> (res = Inr () \<longrightarrow> min (knows a) (length migrations) \<le> n')"
proof -
  define d1 where "d1 = (if schema_migrations d = None then d\<lparr>schema_migrations := Some []\<rparr> else d)"
  have m1: "migrated exec blank n d1" "schema_migrations d1 \<noteq> None" using m by (auto simp: migrated_def d1_def migration_rows_def)
  let ?ex = "\<lambda>m c. if goes_through a (Version m) then exec m c else None" and ?k = "min (knows a) (length migrations)"
  have applied: "set (map mr_version (migration_rows d1)) = {1..int n}"
    using m1(1) versions_take [of n] unfolding migrated_def by (metis set_map)
  have "take ?k migrations = take (knows a) migrations" by (simp add: min_def)
  then have loop: "migrate_loop ?ex (at_time a) (map mr_version (migration_rows d1)) (drop 0 (take ?k migrations)) d1 = (d', res)"
    using run by (simp add: open_attempt_def Migrate_def d1_def [symmetric])
  show ?thesis
    by (rule migrate_loop_migrated [where exec' = ?ex, OF m1 _ _ _ applied _ _ _ loop]) (auto split: if_split_asm)
qed

fun reopen :: "(migration \<Rightarrow> 'd \<Rightarrow> 'd option) \<Rightarrow> attempt list \<Rightarrow> 'd database \<Rightarrow> 'd database" where
  "reopen exec [] d = d"
| "reopen exec (a # as) d = reopen exec as (fst (open_attempt exec a d))"

lemma reopen_migrated: "migrated exec blank n d \<Longrightarrow> \<exists>n'\<ge>n. migrated exec blank n' (reopen exec as d)"
proof (induction as arbitrary: n d)
  case (Cons a as)
  obtain d' res where r: "open_attempt exec a d = (d', res)" by (cases "open_attempt exec a d")
  from open_attempt_migrated [OF Cons.prems r] obtain n' where "n \<le> n'" "migrated exec blank n' d'" by blast
  with Cons.IH [of n' d'] r show ?case by (auto intro: le_trans)
qed auto

text \<open>C40: Migrations are never lost, repeated or reordered: however often a database has been opened, by builds that know only
  some of the migrations, with transactions that failed or never ran, it holds exactly what the first \<open>n\<close> migrations make of an empty
  database, each applied once and recorded, for some \<open>n\<close>; a successful opening brings it at least as far as the build knows; and
  opening it once more with a build that knows no more leaves it exactly as it is.\<close>

theorem migrations_resume:
  assumes run: "open_attempt exec a (reopen exec as \<lparr>contents = blank, schema_migrations = None\<rparr>) = (d, res)"
  shows "\<exists>n. migrated exec blank n d \<and> (res = Inr () \<longrightarrow> min (knows a) (length migrations) \<le> n) \<and>
    (\<forall>b. knows b \<le> n \<longrightarrow> open_attempt exec b d = (d, Inr ()))"
proof -
  have "migrated exec blank 0 \<lparr>contents = blank, schema_migrations = None\<rparr>"
    by (simp add: migrated_def migration_rows_def)
  from reopen_migrated [OF this] obtain n0 where "migrated exec blank n0 (reopen exec as \<lparr>contents = blank, schema_migrations = None\<rparr>)" by blast
  from open_attempt_migrated [OF this run] obtain n where n: "migrated exec blank n d" "schema_migrations d \<noteq> None"
    "res = Inr () \<longrightarrow> min (knows a) (length migrations) \<le> n" by blast
  have "open_attempt exec b d = (d, Inr ())" if k: "knows b \<le> n" for b
  proof -
    have skip: "migrate_loop ex now applied ms x = (x, Inr ())" if "Version ` set ms \<subseteq> set applied" for ex now applied ms and x :: "'a database"
      using that by (induction ms) auto
    have "set (map mr_version (migration_rows d)) = Version ` set (take n migrations)" using n(1) unfolding migrated_def by (metis set_map)
    then have "Version ` set (take (knows b) migrations) \<subseteq> set (map mr_version (migration_rows d))"
      using set_take_subset_set_take [OF k, of migrations] by (simp add: image_mono)
    then show ?thesis using n(2) skip by (auto simp: open_attempt_def Migrate_def Let_def)
  qed
  with n show ?thesis by blast
qed

text \<open>A build with three migrations, the third of which fails, then a build with all of them: SQL that writes its version down.\<close>

definition demo_sql :: "migration \<Rightarrow> int list \<Rightarrow> int list option" where
  "demo_sql m c = Some (c @ [Version m])"

definition demo_old :: attempt where
  "demo_old = \<lparr>knows = 3, goes_through = (\<lambda>v. v \<noteq> 3), at_time = 1\<rparr>"

definition demo_new :: attempt where
  "demo_new = \<lparr>knows = 13, goes_through = (\<lambda>v. True), at_time = 2\<rparr>"

theorem migrations_resume_witness:
  "contents (reopen demo_sql [demo_old] \<lparr>contents = [], schema_migrations = None\<rparr>) = [1, 2] \<and>
   contents (fst (open_attempt demo_sql demo_new (reopen demo_sql [demo_old] \<lparr>contents = [], schema_migrations = None\<rparr>))) =
     [1, 2, 3, 4, 5, 6, 7, 8, 9, 10, 11, 12, 13]"
proof -
  let ?d0 = "reopen demo_sql [demo_old] \<lparr>contents = [], schema_migrations = None\<rparr>"
  have len: "length migrations = 13" by (simp add: migrations_def)
  obtain d res where r: "open_attempt demo_sql demo_new ?d0 = (d, res)" by (cases "open_attempt demo_sql demo_new ?d0")
  have ok: "res = Inr ()"
  proof -
    have "snd (open_attempt demo_sql demo_new ?d0) = Inr ()"
      by code_simp
    with r show ?thesis by simp
  qed
  from migrations_resume [OF r] ok obtain n where "migrated demo_sql [] n d" "13 \<le> n" by (auto simp: len demo_new_def)
  then have "apply_all demo_sql migrations [] = Some (contents d)" by (simp add: migrated_def len)
  then have "contents d = [1, 2, 3, 4, 5, 6, 7, 8, 9, 10, 11, 12, 13]" by (simp add: migrations_def demo_sql_def)
  moreover have "contents ?d0 = [1, 2]"
    by code_simp
  ultimately show ?thesis using r by simp
qed

end
