(* ===== verification/HB_Server.thy ===== *)
theory HB_Server
  imports HB_Config HB_Service
begin

text \<open>
  The commands of the executable (cmd/homebox/main.go): from a configuration to the services of a running server. Flag parsing, logging
  and the listener itself are left out. A duration of the configuration is a product of \<open>time.Duration\<close> values, so it wraps at
  64 bits (\<open>int64\<close>). \<open>serves_as_configured\<close> says when it does not, \<open>retention_wraps\<close> and \<open>interval_wraps\<close> what happens when it does.

  \<open>serve_start\<close> is \<open>serve\<close> up to the listener: its errors are the calls of \<open>fatal\<close>. \<open>ticks\<close> is \<open>None\<close> where \<open>time.NewTicker\<close>
  would panic. The database is taken as opened (\<open>HB_Database\<close>).
\<close>

section \<open>The services of a configuration\<close>

definition hour :: int where "hour = 60 * minute"

definition maintenancePolicy :: "Config \<Rightarrow> Policy" where
  "maintenancePolicy c = \<lparr>OrphanBlobGrace = int64 (mt_OrphanBlobGraceHours (Maintenance c) * hour),
     TrashRetention = int64 (int64 (mt_TrashRetentionDays (Maintenance c) * 24) * hour),
     MaxFileVersions = mt_MaxFileVersions (Maintenance c),
     VersionRetention = int64 (int64 (mt_VersionRetentionDays (Maintenance c) * 24) * hour)\<rparr>"

text \<open>\<open>uploads.New\<close>, \<open>sync.New\<close> and \<open>auth.New\<close>\<close>

definition NewUploads :: "int \<Rightarrow> time \<Rightarrow> err + UploadService" where
  "NewUploads maxCiphertextSize abandonedAfter =
     (if maxCiphertextSize \<le> 0 \<or> abandonedAfter \<le> 0 then Inl (Internal ''invalid upload service limits'')
      else Inr \<lparr>up_maxCiphertextSize = maxCiphertextSize, up_abandonedAfter = abandonedAfter\<rparr>)"

definition NewSync :: "int \<Rightarrow> int \<Rightarrow> SyncService" where
  "NewSync defaultPageSize maxPageSize = \<lparr>ss_defaultSize = defaultPageSize, ss_maxSize = maxPageSize\<rparr>"

record server_env =
  se_config :: config_env
  se_pki :: pki
  se_argon :: argon_pkg
  se_hash :: "string \<Rightarrow> bytes"
  se_uuid :: uuid_pkg
  se_dummyPasswordHash :: string
  se_crypto :: crypto_pkg
  se_digest :: "bytes \<Rightarrow> string"

definition NewAuth :: "server_env \<Rightarrow> int \<Rightarrow> int \<Rightarrow> AuthService" where
  "NewAuth E maxUsers accessTokenTTL =
     \<lparr>as_argon = se_argon E, as_hash = se_hash E, as_uuid = se_uuid E, as_maxUsers = maxUsers,
      as_accessTokenTTL = accessTokenTTL, as_dummyPasswordHash = se_dummyPasswordHash E\<rparr>"

section \<open>Serving\<close>

text \<open>The overrides on the command line: \<open>strconv.ParseBool\<close> reads the one for TLS.\<close>

definition ParseBool :: "string \<Rightarrow> bool option" where
  "ParseBool s = (if s \<in> {''1'', ''t'', ''T'', ''true'', ''TRUE'', ''True''} then Some True
     else if s \<in> {''0'', ''f'', ''F'', ''false'', ''FALSE'', ''False''} then Some False else None)"

definition serve_config :: "server_env \<Rightarrow> Config \<Rightarrow> string \<Rightarrow> int \<Rightarrow> string \<Rightarrow> err + Config" where
  "serve_config E c host port tlsEnabled =
     (let c1 = (if host \<noteq> [] then c\<lparr>Server := (Server c)\<lparr>srv_Host := host\<rparr>\<rparr> else c);
          c2 = (if port \<noteq> 0 then c1\<lparr>Server := (Server c1)\<lparr>srv_Port := port\<rparr>\<rparr> else c1)
      in ebind (if tlsEnabled = [] then Inr c2
         else case ParseBool tlsEnabled of
           None \<Rightarrow> Inl (Internal ''parse --tls'')
         | Some v \<Rightarrow> Inr (c2\<lparr>Server := (Server c2)\<lparr>srv_TLS := (srv_TLS (Server c2))\<lparr>tls_Enabled := v\<rparr>\<rparr>\<rparr>)) (\<lambda>c3.
         ebind (Validate (se_config E) c3) (\<lambda>_. Inr c3)))"

record running =
  run_api :: API
  run_state :: api_state
  run_policy :: Policy
  run_interval :: int
  run_address :: string
  run_readTimeout :: int
  run_tls :: tls_config
  run_fingerprint :: string

definition operator_files :: "Config \<Rightarrow> (bytes \<times> bytes) option" where
  "operator_files c = (let t = srv_TLS (Server c) in if tls_Enabled t then Some (tls_CertFile t, tls_KeyFile t) else None)"

definition serve_start :: "server_env \<Rightarrow> Config \<Rightarrow> bytes \<Rightarrow> server \<Rightarrow> server \<times> (err + running)" where
  "serve_start E c generated sv =
     (case LoadOrCreate (se_pki E) (se_digest E) generated (sv_disk sv) of
        (d, Inl e) \<Rightarrow> (sv\<lparr>sv_disk := d\<rparr>, Inl (Internal ''load server identity''))
      | (d, Inr identity) \<Rightarrow>
          let sv1 = sv\<lparr>sv_disk := d\<rparr>
          in (sv1,
            case serverTLSConfig (se_pki E) (se_digest E) (operator_files c) identity of
              Inl e \<Rightarrow> Inl (Internal ''build secure transport'')
            | Inr (tlsConfig, servedFingerprint) \<Rightarrow>
                let authService = NewAuth E (lim_MaxUsers (Limits c)) (AccessTokenTTL (se_config E) c);
                    limiters = initial_limiters (sv_db sv1)
                in (case NewUploads (lim_MaxCiphertextFileSize (Limits c)) (int64 (upl_AbandonedAfterHours c * hour)) of
                    Inl e \<Rightarrow> Inl (Internal ''initialize upload storage'')
                  | Inr uploadsService \<Rightarrow>
                      (case NewMaintenance (maintenancePolicy c) of
                        Inl e \<Rightarrow> Inl (Internal ''initialize automatic maintenance'')
                      | Inr policy \<Rightarrow> Inr
                          \<lparr>run_api = \<lparr>api_auth = authService, api_crypto = se_crypto E, api_digest = se_digest E,
                             api_uploads = uploadsService, api_sync = NewSync (syn_PageSize c) (syn_MaxPageSize c)\<rparr>,
                           run_state = \<lparr>ap_server = sv1, ap_login = au_login limiters, ap_account = au_account limiters,
                             ap_address = au_address limiters\<rparr>,
                           run_policy = policy, run_interval = int64 (mt_IntervalHours (Maintenance c) * hour),
                           run_address = Address c, run_readTimeout = HTTPReadTimeout (se_config E) c,
                           run_tls = tlsConfig, run_fingerprint = servedFingerprint\<rparr>))))"

text \<open>\<open>runAutomaticMaintenance\<close>: the times of its passes up to \<open>n\<close> ticks after the first pass at \<open>start\<close>.\<close>

definition ticks :: "int \<Rightarrow> time \<Rightarrow> nat \<Rightarrow> time list option" where
  "ticks interval start n = (if interval \<le> 0 then None else Some (map (\<lambda>k. start + int k * interval) [0..<Suc n]))"

section \<open>The other commands\<close>

definition TrimSuffix :: "string \<Rightarrow> string \<Rightarrow> string" where
  "TrimSuffix s suf = (if suffix suf s then take (length s - length suf) s else s)"

definition readPassword :: "string \<Rightarrow> string" where
  "readPassword input = TrimSuffix (TrimSuffix (take 1025 input) [CHR 0x0A]) [CHR 0x0D]"

definition fingerprint_cmd :: "server_env \<Rightarrow> Config \<Rightarrow> bytes \<Rightarrow> disk \<Rightarrow> disk \<times> (err + string)" where
  "fingerprint_cmd E c generated d =
     (case operator_files c of
        Some (certFile, keyFile) \<Rightarrow> (d, ebind (LoadOperatorTLSConfig (se_pki E) (se_digest E) certFile keyFile) (\<lambda>(_, fp). Inr fp))
      | None \<Rightarrow> (case LoadOrCreate (se_pki E) (se_digest E) generated d of
            (d', Inl e) \<Rightarrow> (d', Inl (Internal ''load server identity''))
          | (d', Inr identity) \<Rightarrow> (d', Inr (fingerprint identity))))"

definition runMaintenance_cmd :: "server_env \<Rightarrow> Config \<Rightarrow> time \<Rightarrow> server \<Rightarrow> server \<times> (err + MaintenanceResult)" where
  "runMaintenance_cmd E c now sv =
     (case NewMaintenance (maintenancePolicy c) of
        Inl e \<Rightarrow> (sv, Inl (Internal ''initialize maintenance''))
      | Inr policy \<Rightarrow> RunMaintenance (se_uuid E) policy now sv)"

definition bootstrapAdmin_cmd :: "server_env \<Rightarrow> string \<Rightarrow> string \<Rightarrow> time \<Rightarrow> id \<Rightarrow> bytes \<Rightarrow> db \<Rightarrow> err + User \<times> db" where
  "bootstrapAdmin_cmd E username input now newID salt s =
     (if username = [] then Inl (Internal ''bootstrap-admin requires --username and --password-stdin'')
      else BootstrapAdmin (se_argon E) now newID salt s username (readPassword input))"

definition createUser_cmd :: "server_env \<Rightarrow> Config \<Rightarrow> string \<Rightarrow> string \<Rightarrow> time \<Rightarrow> id \<Rightarrow> bytes \<Rightarrow> db \<Rightarrow> err + User \<times> db" where
  "createUser_cmd E c username input now newID salt s =
     (if username = [] then Inl (Internal ''create-user requires --username and --password-stdin'')
      else CreateUser (se_argon E) (lim_MaxUsers (Limits c)) now newID salt s username (readPassword input))"

section \<open>Periods that fit\<close>

lemma hour_val: "hour = 3600000000000"
  by (simp add: hour_def minute_def second_def nanos_per_second_def)

lemma int64_hours: "1 \<le> h \<Longrightarrow> int64 (h * hour) = h * hour \<longleftrightarrow> h \<le> 2562047"
  using int64_range [of "h * hour"] int64_id [of "h * hour"] by (auto simp: hour_val)

lemma int64_days:
  assumes "1 \<le> d"
  shows "int64 (int64 (d * 24) * hour) = d * 24 * hour \<longleftrightarrow> d \<le> 106751"
proof
  assume "int64 (int64 (d * 24) * hour) = d * 24 * hour"
  with int64_range [of "int64 (d * 24) * hour"] show "d \<le> 106751" by (simp add: hour_val)
next
  assume "d \<le> 106751"
  moreover from this have "int64 (d * 24) = d * 24" using assms by (intro int64_id) simp_all
  ultimately show "int64 (int64 (d * 24) * hour) = d * 24 * hour" using assms by (simp only:) (rule int64_id; simp add: hour_val)
qed

text \<open>A server that runs as its configuration says.\<close>

definition runs_as_configured :: "server_env \<Rightarrow> Config \<Rightarrow> running \<Rightarrow> bool" where
  "runs_as_configured E c r \<longleftrightarrow>
     run_policy r = \<lparr>OrphanBlobGrace = mt_OrphanBlobGraceHours (Maintenance c) * hour,
       TrashRetention = mt_TrashRetentionDays (Maintenance c) * 24 * hour, MaxFileVersions = mt_MaxFileVersions (Maintenance c),
       VersionRetention = mt_VersionRetentionDays (Maintenance c) * 24 * hour\<rparr> \<and>
     run_interval r = mt_IntervalHours (Maintenance c) * hour \<and>
     api_uploads (run_api r) = \<lparr>up_maxCiphertextSize = lim_MaxCiphertextFileSize (Limits c),
       up_abandonedAfter = upl_AbandonedAfterHours c * hour\<rparr> \<and>
     api_sync (run_api r) = \<lparr>ss_defaultSize = syn_PageSize c, ss_maxSize = syn_MaxPageSize c\<rparr> \<and>
     as_maxUsers (api_auth (run_api r)) = lim_MaxUsers (Limits c) \<and>
     as_accessTokenTTL (api_auth (run_api r)) = AccessTokenTTL (se_config E) c \<and> run_address r = Address c"

definition periods_fit :: "Config \<Rightarrow> bool" where
  "periods_fit c \<longleftrightarrow> mt_OrphanBlobGraceHours (Maintenance c) \<le> 2562047 \<and> mt_TrashRetentionDays (Maintenance c) \<le> 106751 \<and>
     mt_VersionRetentionDays (Maintenance c) \<le> 106751 \<and> mt_IntervalHours (Maintenance c) \<le> 2562047 \<and>
     upl_AbandonedAfterHours c \<le> 2562047"

lemma periods_fit_iff:
  assumes "Validate F c = Inr ()"
  shows "periods_fit c \<longleftrightarrow> maintenancePolicy c = \<lparr>OrphanBlobGrace = mt_OrphanBlobGraceHours (Maintenance c) * hour,
       TrashRetention = mt_TrashRetentionDays (Maintenance c) * 24 * hour, MaxFileVersions = mt_MaxFileVersions (Maintenance c),
       VersionRetention = mt_VersionRetentionDays (Maintenance c) * 24 * hour\<rparr> \<and>
     int64 (mt_IntervalHours (Maintenance c) * hour) = mt_IntervalHours (Maintenance c) * hour \<and>
     int64 (upl_AbandonedAfterHours c * hour) = upl_AbandonedAfterHours c * hour"
proof -
  from assms have "1 \<le> mt_OrphanBlobGraceHours (Maintenance c)" "1 \<le> mt_TrashRetentionDays (Maintenance c)"
    "1 \<le> mt_VersionRetentionDays (Maintenance c)" "1 \<le> mt_IntervalHours (Maintenance c)" "1 \<le> upl_AbandonedAfterHours c"
    by (simp_all add: Validate_ok)
  then show ?thesis by (simp add: periods_fit_def maintenancePolicy_def int64_hours int64_days)
qed

text \<open>A start that succeeds, in terms of its parts.\<close>

lemma serve_start_ok:
  assumes "LoadOrCreate (se_pki E) (se_digest E) g (sv_disk sv) = (d, Inr i)"
    "serverTLSConfig (se_pki E) (se_digest E) (operator_files c) i = Inr (t, fp)"
  shows "snd (serve_start E c g sv) = Inr r \<longleftrightarrow>
    (\<exists>u p. NewUploads (lim_MaxCiphertextFileSize (Limits c)) (int64 (upl_AbandonedAfterHours c * hour)) = Inr u \<and>
       NewMaintenance (maintenancePolicy c) = Inr p \<and>
       r = \<lparr>run_api = \<lparr>api_auth = NewAuth E (lim_MaxUsers (Limits c)) (AccessTokenTTL (se_config E) c), api_crypto = se_crypto E,
              api_digest = se_digest E, api_uploads = u, api_sync = NewSync (syn_PageSize c) (syn_MaxPageSize c)\<rparr>,
            run_state = \<lparr>ap_server = sv\<lparr>sv_disk := d\<rparr>, ap_login = newAttemptLimiter loginBackoff 1,
              ap_account = newAttemptLimiter accountBackoff maxConcurrentAttemptsPerAccount,
              ap_address = newAttemptLimiter addressBackoff maxConcurrentAttemptsPerAddress\<rparr>,
            run_policy = p, run_interval = int64 (mt_IntervalHours (Maintenance c) * hour), run_address = Address c,
            run_readTimeout = HTTPReadTimeout (se_config E) c, run_tls = t, run_fingerprint = fp\<rparr>)"
  using assms by (auto simp: serve_start_def initial_limiters_def Let_def split: sum.split)

lemma LoadOrCreate_disk:
  assumes "LoadOrCreate P H g d = (d', res)"
  shows "d' = d \<or> (\<exists>x. d' = write_file KeyPath x d)"
  using assms by (auto simp: LoadOrCreate_def writeKeyFile_def split: option.split_asm sum.split_asm if_split_asm prod.split_asm)

lemma system_inv_key:
  assumes inv: "system_inv H sv" and d: "LoadOrCreate P H' g (sv_disk sv) = (d, res)"
  shows "system_inv H (sv\<lparr>sv_disk := d\<rparr>)"
proof -
  have "storage_inv H (sv\<lparr>sv_disk := d\<rparr>)"
  proof (rule storage_inv_disk [OF system_invD(3) [OF inv]])
    show "disk_ok d" using LoadOrCreate_disk [OF d] storage_invD(1) [OF system_invD(3) [OF inv]] disk_ok_write by auto
    show "file_at d (blob_path i) = file_at (sv_disk sv) (blob_path i)" for i
      using LoadOrCreate_disk [OF d] by (auto simp: KeyPath_def blob_path_def)
    show "file_at d (chunk_path i k) = file_at (sv_disk sv) (chunk_path i k)" for i k
      using LoadOrCreate_disk [OF d] by (auto simp: KeyPath_def chunk_path_def uploadDir_def)
  qed
  with inv show ?thesis by (simp add: system_inv_def server_inv_def accounts_ok_def)
qed

section \<open>Starting a server\<close>

lemma fingerprint_printed:
  assumes "LoadOrCreate (se_pki E) (se_digest E) g d = (d', Inr i)"
    "serverTLSConfig (se_pki E) (se_digest E) (operator_files c) i = Inr (t, fp)"
  shows "snd (fingerprint_cmd E c g d) = Inr fp"
  using assms by (cases "operator_files c") (auto simp: fingerprint_cmd_def serverTLSConfig_def split: sum.split_asm)

lemma started_in_order:
  assumes "system_inv (se_digest E) sv" "LoadOrCreate (se_pki E) (se_digest E) g (sv_disk sv) = (d, Inr i)"
    and r: "api_digest (run_api r) = se_digest E" "ap_server (run_state r) = sv\<lparr>sv_disk := d\<rparr>" "db_inv (run_api r) (sv_db sv)"
      "auth_part (run_state r) = initial_limiters (sv_db sv)"
  shows "api_inv (run_api r) (run_state r)"
  using system_inv_key [OF assms(1,2)] r by (simp add: api_inv_def limiters_inv_def initial_limiters_def)

text \<open>C39: A server runs as it is configured: with a checked configuration it starts with exactly the periods, limits and page sizes
  named there if and only if the periods fit into 64-bit nanoseconds (up to 106,751 days or 2,562,047 hours). However it starts,
  it admits one to five accounts, keeps access tokens for a positive time, serves under the fingerprint that the
  \<open>fingerprint\<close> command prints, and begins with the invariant of the whole server if what is stored has it.\<close>

theorem serves_as_configured:
  assumes valid: "Validate (se_config E) c = Inr ()"
    and id: "LoadOrCreate (se_pki E) (se_digest E) g (sv_disk sv) = (d, Inr i)"
    and tls: "serverTLSConfig (se_pki E) (se_digest E) (operator_files c) i = Inr (t, fp)"
  shows "((\<exists>r. snd (serve_start E c g sv) = Inr r \<and> runs_as_configured E c r) \<longleftrightarrow> periods_fit c) \<and>
    (\<forall>r. snd (serve_start E c g sv) = Inr r \<longrightarrow>
       as_maxUsers (api_auth (run_api r)) \<in> {1..5} \<and> 0 < as_accessTokenTTL (api_auth (run_api r)) \<and>
       snd (fingerprint_cmd E c g (sv_disk sv)) = Inr (run_fingerprint r) \<and>
       (system_inv (se_digest E) sv \<and> db_inv (run_api r) (sv_db sv) \<longrightarrow> api_inv (run_api r) (run_state r)))"
proof (intro conjI allI impI)
  note ok = serve_start_ok [OF id tls] and v = valid [unfolded Validate_ok]
  show "(\<exists>r. snd (serve_start E c g sv) = Inr r \<and> runs_as_configured E c r) \<longleftrightarrow> periods_fit c"
  proof
    assume "\<exists>r. snd (serve_start E c g sv) = Inr r \<and> runs_as_configured E c r"
    then show "periods_fit c" unfolding ok periods_fit_iff [OF valid]
      by (auto simp: runs_as_configured_def NewUploads_def NewMaintenance_def split: if_split_asm)
  next
    assume "periods_fit c"
    note fit = this [unfolded periods_fit_iff [OF valid]]
    have "NewUploads (lim_MaxCiphertextFileSize (Limits c)) (upl_AbandonedAfterHours c * hour) = Inr
        \<lparr>up_maxCiphertextSize = lim_MaxCiphertextFileSize (Limits c), up_abandonedAfter = upl_AbandonedAfterHours c * hour\<rparr>"
      using v by (simp add: NewUploads_def hour_val)
    moreover have "NewMaintenance (maintenancePolicy c) = Inr (maintenancePolicy c)"
      using v conjunct1 [OF fit] by (simp add: NewMaintenance_def hour_val)
    ultimately show "\<exists>r. snd (serve_start E c g sv) = Inr r \<and> runs_as_configured E c r"
      unfolding ok using fit by (auto simp: runs_as_configured_def NewAuth_def NewSync_def)
  qed
next
  fix r assume r: "snd (serve_start E c g sv) = Inr r"
  note parts = r [unfolded serve_start_ok [OF id tls]] and v = valid [unfolded Validate_ok]
  show "as_maxUsers (api_auth (run_api r)) \<in> {1..5}" "0 < as_accessTokenTTL (api_auth (run_api r))"
    using parts v by (auto simp: NewAuth_def)
  show "snd (fingerprint_cmd E c g (sv_disk sv)) = Inr (run_fingerprint r)" using parts fingerprint_printed [OF id tls] by auto
  assume "system_inv (se_digest E) sv \<and> db_inv (run_api r) (sv_db sv)"
  then show "api_inv (run_api r) (run_state r)"
    using parts by (intro started_in_order [OF _ id]) (auto simp: auth_part_def initial_limiters_def)
qed

text \<open>A password of up to 1024 bytes reaches the service as typed, whatever the line ending after it.\<close>

lemma readPassword_line:
  assumes "length p \<le> 1023" "nl \<in> {[], [CHR 0x0A], [CHR 0x0D, CHR 0x0A]}" "p \<noteq> []" "last p \<notin> {CHR 0x0A, CHR 0x0D}"
  shows "readPassword (p @ nl) = p"
proof -
  have keep: "TrimSuffix p [x] = p" if "last p \<noteq> x" for x using that assms(3) by (auto simp: TrimSuffix_def suffix_def)
  have cut: "TrimSuffix (q @ [x]) [x] = q" for q x by (simp add: TrimSuffix_def suffix_def)
  from assms(2) consider "nl = []" | "nl = [CHR 0x0A]" | "nl = [CHR 0x0D] @ [CHR 0x0A]" by auto
  then show ?thesis
  proof cases
    case 3
    have "take 1025 ((p @ [CHR 0x0D]) @ [CHR 0x0A]) = (p @ [CHR 0x0D]) @ [CHR 0x0A]" using assms(1) by simp
    then have "readPassword ((p @ [CHR 0x0D]) @ [CHR 0x0A]) = p" unfolding readPassword_def by (simp only: cut)
    with 3 show ?thesis by simp
  qed (use assms keep cut in \<open>simp_all add: readPassword_def\<close>)
qed

section \<open>Periods that do not fit\<close>

text \<open>The configuration of the defaults but for a Trash retention of 213,504 days: it is checked, the server starts, and
  entries leave Trash for good after less than half an hour. With an interval of 2,562,048 hours it starts as well, and panics after
  the first pass of maintenance.\<close>

definition demo_config_env :: config_env where
  "demo_config_env = \<lparr>ce_fraction = (\<lambda>f unit scale. f * unit div scale), ce_Unmarshal = (\<lambda>_ c. Some c), ce_ReadFile = (\<lambda>_. None)\<rparr>"

definition long_retention :: Config where
  "long_retention = Defaults\<lparr>Maintenance := (Maintenance Defaults)\<lparr>mt_TrashRetentionDays := 213504\<rparr>\<rparr>"

definition long_interval :: Config where
  "long_interval = Defaults\<lparr>Maintenance := (Maintenance Defaults)\<lparr>mt_IntervalHours := 2562048\<rparr>\<rparr>"

lemma default_durations: "ParseDuration fraction ''2m'' = Some (2 * minute)" "ParseDuration fraction ''15m'' = Some (15 * minute)"
  by (simp_all add: ParseDuration_def duration_loop.simps duration_part_def leadingInt_def is_digit_def digit_value_def unitMap_def unit_name_def
      minute_def second_def nanos_per_second_def)

lemma default_host: "ParseIP ''0.0.0.0''"
  by (simp add: ParseIP_def parseIPv4_def ipv4_field_def digit_value_def)

lemma defaults_valid: "Validate demo_config_env Defaults = Inr ()"
  unfolding Validate_ok HTTPReadTimeout_def AccessTokenTTL_def
  by (simp add: Defaults_def default_durations default_host minute_def second_def nanos_per_second_def
      defaultMaxCiphertextSize_def defaultMaxPlaintextSize_def defaultChunkPlaintextSize_def)

lemma long_valid: "Validate demo_config_env long_retention = Inr ()" "Validate demo_config_env long_interval = Inr ()"
  using defaults_valid unfolding Validate_ok
  by (simp_all add: long_retention_def long_interval_def HTTPReadTimeout_def AccessTokenTTL_def)

lemma long_fields:
  "mt_TrashRetentionDays (Maintenance long_retention) = 213504" "mt_OrphanBlobGraceHours (Maintenance long_retention) = 168"
  "mt_VersionRetentionDays (Maintenance long_retention) = 30" "mt_MaxFileVersions (Maintenance long_retention) = 10"
  "upl_AbandonedAfterHours long_retention = 24" "lim_MaxCiphertextFileSize (Limits long_retention) = defaultMaxCiphertextSize"
  "operator_files long_retention = None" "maintenancePolicy long_interval = maintenancePolicy Defaults"
  "mt_IntervalHours (Maintenance long_interval) = 2562048"
  by (simp_all add: long_retention_def long_interval_def Defaults_def operator_files_def maintenancePolicy_def)

lemma wrapped: "int64 (int64 5124096 * hour) = 1526290448384" "int64 (2562048 * hour) < 0" "int64 (168 * hour) = 168 * hour"
  "int64 (int64 720 * hour) = 720 * hour" "int64 (24 * hour) = 24 * hour"
  by (simp_all add: hour_val int64_take_bit signed_take_bit_eq_take_bit_shift take_bit_eq_mod)

lemma retention_wraps:
  assumes "LoadOrCreate (se_pki E) (se_digest E) g (sv_disk sv) = (d, Inr i)"
    "serverTLSConfig (se_pki E) (se_digest E) None i = Inr (t, fp)"
  shows "\<exists>r. snd (serve_start E long_retention g sv) = Inr r \<and> TrashRetention (run_policy r) < 30 * minute"
proof -
  have "NewMaintenance (maintenancePolicy long_retention) = Inr (maintenancePolicy long_retention)"
    "TrashRetention (maintenancePolicy long_retention) < 30 * minute"
    by (simp_all add: maintenancePolicy_def NewMaintenance_def long_fields wrapped) (simp_all add: hour_val minute_def second_def nanos_per_second_def)
  moreover have "NewUploads (lim_MaxCiphertextFileSize (Limits long_retention)) (int64 (upl_AbandonedAfterHours long_retention * hour)) =
      Inr \<lparr>up_maxCiphertextSize = defaultMaxCiphertextSize, up_abandonedAfter = 24 * hour\<rparr>"
    by (simp add: NewUploads_def long_fields wrapped) (simp add: defaultMaxCiphertextSize_def defaultMaxPlaintextSize_def defaultChunkPlaintextSize_def hour_val)
  ultimately show ?thesis unfolding serve_start_ok [OF assms(1) assms(2) [folded long_fields(7)]] by auto
qed

lemma interval_wraps: "ticks (int64 (mt_IntervalHours (Maintenance long_interval) * hour)) start n = None"
  using wrapped(2) by (simp add: ticks_def long_fields)

section \<open>A worked example\<close>

text \<open>The defaults, over a server that has no identity yet.\<close>

definition demo_server_env :: server_env where
  "demo_server_env = \<lparr>se_config = demo_config_env, se_pki = demo_pki, se_argon = demo_argon, se_hash = (\<lambda>t. t), se_uuid = demo_uuid,
     se_dummyPasswordHash = [], se_crypto = demo_crypto, se_digest = demo_digest\<rparr>"

theorem serves_as_configured_witness:
  "\<exists>r. snd (serve_start demo_server_env Defaults ''key'' \<lparr>sv_db = empty_db, sv_disk = []\<rparr>) = Inr r \<and>
     TrashRetention (run_policy r) = 3 * 24 * hour \<and> as_maxUsers (api_auth (run_api r)) = 5 \<and> run_address r = ''0.0.0.0:8787'' \<and>
     snd (fingerprint_cmd demo_server_env Defaults ''key'' []) = Inr (run_fingerprint r)"
proof -
  let ?i = "\<lparr>privateKey = ''key'', fingerprint = demo_digest ''key''\<rparr>" and ?sv = "\<lparr>sv_db = empty_db, sv_disk = []\<rparr>"
  have id: "LoadOrCreate (se_pki demo_server_env) (se_digest demo_server_env) ''key'' (sv_disk ?sv) = ([(KeyPath, RawStdEncode ''key'')], Inr ?i)"
    by (simp add: demo_server_env_def LoadOrCreate_def writeKeyFile_def file_at_def write_file_def remove_file_def newIdentity_def
        FingerprintFromPublicKey_def demo_pki_def)
  have "hex_text (demo_digest ''key'')" using demo_pki_laws(2) by blast
  then obtain octs where "hex_decode (demo_digest ''key'') = Some octs" using hex_decodes [of "demo_digest ''key''"] by (auto simp: hex_text_def)
  then have tls: "serverTLSConfig (se_pki demo_server_env) (se_digest demo_server_env) (operator_files Defaults) ?i =
      Inr (\<lparr>MinVersion = VersionTLS13, Certificate = [''key'']\<rparr>, demo_digest ''key'')"
    by (simp add: demo_server_env_def serverTLSConfig_def BuildTLSConfig_def selfSignedCertificate_def demo_pki_def operator_files_def Defaults_def)
  have "Validate (se_config demo_server_env) Defaults = Inr ()" using defaults_valid by (simp add: demo_server_env_def)
  moreover have "periods_fit Defaults" by (simp add: periods_fit_def Defaults_def)
  ultimately obtain r where r: "snd (serve_start demo_server_env Defaults ''key'' ?sv) = Inr r" "runs_as_configured demo_server_env Defaults r"
    "snd (fingerprint_cmd demo_server_env Defaults ''key'' (sv_disk ?sv)) = Inr (run_fingerprint r)"
    using serves_as_configured [OF _ id tls] by blast
  have "Address Defaults = ''0.0.0.0:8787''"
    by (simp add: Address_def JoinHostPort_def Defaults_def FormatInt_def digits.simps digit_def) code_simp
  with r show ?thesis by (intro exI [of _ r]) (simp add: runs_as_configured_def Defaults_def)
qed

end
