(* ===== verification/HB_Operational.thy ===== *)
theory HB_Operational
  imports HB_Service
begin

text \<open>
  The outer handler (internal/httpserver): health and metrics next to the business API, and two headers on every answer. The pattern
  \<open>/api/\<close> takes every path below it; the redirect of \<open>/api\<close> to it is \<open>http.ServeMux\<close>'s. An \<open>answer\<close> adds to a response the headers
  this package sets.
\<close>

record answer =
  an_Header :: "(string \<times> string) list"
  an_Response :: response

definition health :: "time \<Rightarrow> answer" where
  "health now = \<lparr>an_Header = [(''Content-Type'', ''application/json; charset=utf-8'')],
     an_Response = writeJSON 200 (JObject [(''status'', JString ''ok''), (''time'', json_time now)])\<rparr>"

definition metrics :: answer where
  "metrics = \<lparr>an_Header = [(''Content-Type'', ''text/plain; version=0.0.4; charset=utf-8'')],
     an_Response = respond 200 (TextPayload (''homebox_server_ready 1'' @ [CHR 0x0A]))\<rparr>"

definition secureTransportRequired :: answer where
  "secureTransportRequired =
     \<lparr>an_Header = [(''Upgrade'', ''homebox-secure/1''), (''Content-Type'', ''application/json; charset=utf-8'')],
      an_Response = writeJSON 426 (JObject [(''code'', JString ''SECURE_TRANSPORT_REQUIRED''),
        (''message'', JString ''plaintext business APIs are disabled'')])\<rparr>"

definition securityHeaders :: "api_state \<times> answer \<Rightarrow> api_state \<times> answer" where
  "securityHeaders = map_prod id (\<lambda>w. w\<lparr>an_Header := [(''X-Content-Type-Options'', ''nosniff''), (''Cache-Control'', ''no-store'')] @ an_Header w\<rparr>)"

definition operational :: "time \<Rightarrow> (string list \<times> answer) list" where
  "operational now = [([''health'', ''live''], health now), ([''health'', ''ready''], health now), ([''metrics''], metrics)]"

definition NewServer :: "handler option \<Rightarrow> API \<Rightarrow> call \<Rightarrow> request \<Rightarrow> api_state \<Rightarrow> api_state \<times> answer" where
  "NewServer api a cl r st = securityHeaders
     (case map_of (operational (cl_now cl)) (rq_Path r) of
        Some w \<Rightarrow> (st, if match_method ''GET'' (rq_Method r) then w
                     else \<lparr>an_Header = [], an_Response = respond 405 (TextPayload ''Method Not Allowed'')\<rparr>)
      | None \<Rightarrow>
          if rq_Path r = [''api''] then (st, \<lparr>an_Header = [(''Location'', ''/api/'')], an_Response = respond 301 NoPayload\<rparr>)
          else if rq_Path r = [] \<or> hd (rq_Path r) \<noteq> ''api''
          then (st, \<lparr>an_Header = [], an_Response = respond 404 (TextPayload ''404 page not found'')\<rparr>)
          else (case api of
              None \<Rightarrow> (st, secureTransportRequired)
            | Some h \<Rightarrow> map_prod id (\<lambda>w. \<lparr>an_Header = [], an_Response = w\<rparr>) (h a cl r st)))"

text \<open>Outside the API nothing is changed and nothing depends on what the server stores; without an API nothing is answered there but 426;
  every answer forbids caching and content sniffing.\<close>

lemma operational_blind:
  assumes "rq_Path r = [] \<or> hd (rq_Path r) \<noteq> ''api'' \<or> api = None"
  shows "fst (NewServer api a cl r st) = st \<and> snd (NewServer api a cl r st) = snd (NewServer api a cl r st')"
  using assms by (auto simp: NewServer_def securityHeaders_def split: option.split)

lemma business_needs_api:
  assumes "rq_Path r = ''api'' # p # ps"
  shows "rs_Status (an_Response (snd (NewServer None a cl r st))) = 426"
  using assms by (simp add: NewServer_def securityHeaders_def operational_def secureTransportRequired_def writeJSON_def respond_def)

lemma security_headers:
  "(''X-Content-Type-Options'', ''nosniff'') \<in> set (an_Header (snd (NewServer api a cl r st)))"
  "(''Cache-Control'', ''no-store'') \<in> set (an_Header (snd (NewServer api a cl r st)))"
  by (simp_all add: NewServer_def securityHeaders_def)

lemma api_served:
  assumes "rq_Path r = ''api'' # p # ps"
  shows "fst (NewServer (Some serve) a cl r st) = fst (serve a cl r st)"
    "an_Response (snd (NewServer (Some serve) a cl r st)) = snd (serve a cl r st)"
  using assms by (simp_all add: NewServer_def securityHeaders_def operational_def)

end
